(* ===== verification/Py_Prelude.thy ===== *)
theory Py_Prelude
  imports Complex_Main "HOL-Library.AList" "HOL-Library.Sublist"
begin

text \<open>
  What the whole development shares: the values of Python that the program passes around as
  dynamically typed data (\<open>py\<close>), exceptions as values (\<open>py_exc\<close>, \<open>'a result\<close>), dicts as
  association lists in insertion order, and the string operations of the standard library
  that the modelled functions call. Strings are lists of code points below 256 (Latin-1);
  the character classes below agree with Python's on all of them.
\<close>

named_theorems py_defs \<open>definitions of the Python operations, for evaluating a closed term\<close>
named_theorems inv_intros \<open>each operation preserves its component's invariant\<close>

section \<open>Dynamically typed values\<close>

datatype py =
    PNone
  | PBool bool
  | PInt int
  | PFloat rat
  | PStr string
  | PList "py list"
  | PDict "(string \<times> py) list"
  | PObj string "(string \<times> py) list"

text \<open>
  \<open>PObj\<close> is an instance of a pydantic model: its class name and its attributes.
  A dict is its list of items, in insertion order; the code builds it with distinct keys.
\<close>

type_synonym pydict = "(string \<times> py) list"

fun truthy :: "py \<Rightarrow> bool" where
  "truthy PNone = False"
| "truthy (PBool b) = b"
| "truthy (PInt i) = (i \<noteq> 0)"
| "truthy (PFloat r) = (r \<noteq> 0)"
| "truthy (PStr s) = (s \<noteq> [])"
| "truthy (PList xs) = (xs \<noteq> [])"
| "truthy (PDict d) = (d \<noteq> [])"
| "truthy (PObj c a) = True"

definition py_or :: "py \<Rightarrow> py \<Rightarrow> py" where
  "py_or a b = (if truthy a then a else b)"

fun is_dict :: "py \<Rightarrow> bool" where
  "is_dict (PDict d) = True"
| "is_dict _ = False"

fun is_list :: "py \<Rightarrow> bool" where
  "is_list (PList d) = True"
| "is_list _ = False"

fun is_str :: "py \<Rightarrow> bool" where
  "is_str (PStr d) = True"
| "is_str _ = False"

section \<open>Exceptions and results\<close>

datatype py_exc =
    TypeError
  | AttributeError
  | KeyError string
  | ValueError string
  | IndexError
  | RecursionError
  | ZeroDivisionError
  | RuntimeError string
  | IntegrityError
  | HTTPException int string
  | RegistryError string
  | SupervisorError string
  | OSError string

type_synonym 'a result = "py_exc + 'a"

fun bindR :: "'a result \<Rightarrow> ('a \<Rightarrow> 'b result) \<Rightarrow> 'b result" where
  "bindR (Inl e) f = Inl e"
| "bindR (Inr x) f = f x"

definition mapR :: "('a \<Rightarrow> 'b) \<Rightarrow> 'a result \<Rightarrow> 'b result" where
  "mapR f m = bindR m (\<lambda>x. Inr (f x))"

text \<open>A loop that evaluates a fallible body on each element, stopping at the first exception.\<close>

fun listR :: "('a \<Rightarrow> 'b result) \<Rightarrow> 'a list \<Rightarrow> 'b list result" where
  "listR f [] = Inr []"
| "listR f (x # xs) = bindR (f x) (\<lambda>y. bindR (listR f xs) (\<lambda>ys. Inr (y # ys)))"

fun foldR :: "('s \<Rightarrow> 'a \<Rightarrow> 's result) \<Rightarrow> 's \<Rightarrow> 'a list \<Rightarrow> 's result" where
  "foldR f s [] = Inr s"
| "foldR f s (x # xs) = bindR (f s x) (\<lambda>s'. foldR f s' xs)"

fun filterR :: "('a \<Rightarrow> bool result) \<Rightarrow> 'a list \<Rightarrow> 'a list result" where
  "filterR P [] = Inr []"
| "filterR P (x # xs) = bindR (P x) (\<lambda>b. bindR (filterR P xs) (\<lambda>ys. Inr (if b then x # ys else ys)))"

lemma bindR_Inr_iff [simp]: "bindR m f = Inr y \<longleftrightarrow> (\<exists>x. m = Inr x \<and> f x = Inr y)"
  by (cases m) auto

lemma bindR_Inl_iff: "bindR m f = Inl e \<longleftrightarrow> m = Inl e \<or> (\<exists>x. m = Inr x \<and> f x = Inl e)"
  by (cases m) auto

lemma mapR_simps [simp]: "mapR f (Inl e) = Inl e" "mapR f (Inr x) = Inr (f x)"
  by (simp_all add: mapR_def)

lemma mapR_Inr_iff [simp]: "mapR f m = Inr y \<longleftrightarrow> (\<exists>x. m = Inr x \<and> y = f x)"
  by (cases m) auto

lemma bindR_assoc: "bindR (bindR m f) g = bindR m (\<lambda>x. bindR (f x) g)"
  by (cases m) auto

lemma listR_Inr_iff: "listR f xs = Inr ys \<longleftrightarrow> list_all2 (\<lambda>x y. f x = Inr y) xs ys"
  by (induction xs arbitrary: ys) (auto simp: list_all2_Cons1)

lemma listR_length: "listR f xs = Inr ys \<Longrightarrow> length ys = length xs"
  by (auto simp: listR_Inr_iff dest: list_all2_lengthD)

lemma listR_out: "listR f xs = Inr ys \<Longrightarrow> y \<in> set ys \<Longrightarrow> \<exists>x \<in> set xs. f x = Inr y"
  by (induction xs arbitrary: ys) auto

lemma listR_in: "listR f xs = Inr ys \<Longrightarrow> x \<in> set xs \<Longrightarrow> \<exists>y \<in> set ys. f x = Inr y"
  by (induction xs arbitrary: ys) auto

lemma listR_mem: "listR f xs = Inr ys \<Longrightarrow> y \<in> set (concat ys) \<longleftrightarrow>
    (\<exists>x \<in> set xs. \<exists>zs. f x = Inr zs \<and> y \<in> set zs)"
  by (induction xs arbitrary: ys) auto

lemma listR_some: "listR f xs = Inr ys \<Longrightarrow> x \<in> set xs \<Longrightarrow> \<exists>y. f x = Inr y"
  by (induction xs arbitrary: ys) auto

lemma listR_keep: "listR f xs = Inr ys \<Longrightarrow> \<forall>x \<in> set xs. \<forall>y. f x = Inr y \<longrightarrow> y = [x] \<Longrightarrow> concat ys = xs"
  by (induction xs arbitrary: ys) auto

lemma listR_Inr_map [simp]: "listR (\<lambda>x. Inr (f x)) xs = Inr (map f xs)"
  by (induction xs) auto

lemma filterR_total: "\<forall>x \<in> set xs. P x = Inr (Q x) \<Longrightarrow> filterR P xs = Inr (filter Q xs)"
  by (induction xs) auto

lemma foldR_append: "foldR f s (xs @ ys) = bindR (foldR f s xs) (\<lambda>s'. foldR f s' ys)"
  by (induction xs arbitrary: s) (auto simp: bindR_assoc)

text \<open>An invariant of a fallible loop: what the body preserves, the loop preserves.\<close>

lemma foldR_invariant:
  assumes "foldR f s xs = Inr s'" and "I s"
    and "\<And>s x s'. x \<in> set xs \<Longrightarrow> I s \<Longrightarrow> f s x = Inr s' \<Longrightarrow> I s'"
  shows "I s'"
  using assms
proof (induction xs arbitrary: s)
  case (Cons x xs)
  from Cons.prems(1) obtain t where t: "f s x = Inr t" "foldR f t xs = Inr s'" by auto
  have "I t" by (rule Cons.prems(3) [OF _ Cons.prems(2) t(1)]) simp
  with t(2) show ?case by (rule Cons.IH) (rule Cons.prems(3), auto)
qed simp

lemma foldl_invariant:
  "I s \<Longrightarrow> (\<And>s x. x \<in> set xs \<Longrightarrow> I s \<Longrightarrow> I (f s x)) \<Longrightarrow> I (foldl f s xs)"
  by (induction xs arbitrary: s) auto

section \<open>Dicts\<close>

abbreviation dget :: "('k \<times> 'v) list \<Rightarrow> 'k \<Rightarrow> 'v option" where
  "dget d k \<equiv> map_of d k"

text \<open>Assignment keeps the position of a key that is there and appends a new one.\<close>

abbreviation dset :: "'k \<Rightarrow> 'v \<Rightarrow> ('k \<times> 'v) list \<Rightarrow> ('k \<times> 'v) list" where
  "dset k v d \<equiv> AList.update k v d"

abbreviation dpop :: "'k \<Rightarrow> ('k \<times> 'v) list \<Rightarrow> ('k \<times> 'v) list" where
  "dpop k d \<equiv> AList.delete k d"

abbreviation dkeys :: "('k \<times> 'v) list \<Rightarrow> 'k list" where
  "dkeys d \<equiv> map fst d"

abbreviation wf_dict :: "('k \<times> 'v) list \<Rightarrow> bool" where
  "wf_dict d \<equiv> distinct (dkeys d)"

lemma dget_dset [simp]: "dget (dset k v d) k' = (if k' = k then Some v else dget d k')"
  by (simp add: update_conv')

lemma dget_dpop [simp]: "dget (dpop k d) k' = (if k' = k then None else dget d k')"
  by (simp add: delete_conv')

lemma wf_dset [simp, intro]: "wf_dict d \<Longrightarrow> wf_dict (dset k v d)"
  by (rule distinct_update)

lemma wf_dpop [simp, intro]: "wf_dict d \<Longrightarrow> wf_dict (dpop k d)"
  by (rule distinct_delete)

lemma dget_in_keys: "(dget d k \<noteq> None) = (k \<in> set (dkeys d))"
  by (induction d) auto

lemma dget_None_keys: "dget d k = None \<longleftrightarrow> k \<notin> set (dkeys d)"
  by (induction d) auto

lemma set_dkeys_dset [simp]: "set (dkeys (dset k v d)) = insert k (set (dkeys d))"
  by (induction d) auto

lemma fst_set_dset [simp]: "fst ` set (dset k v d) = insert k (fst ` set d)"
  using set_dkeys_dset [of k v d] by simp

lemma dget_filter_key: "dget (filter (\<lambda>(k, v). P k) d) k' = (if P k' then dget d k' else None)"
  by (induction d) auto

lemma dset_set: "x \<in> set (dset k v d) \<Longrightarrow> x = (k, v) \<or> x \<in> set d"
  by (induction d) (auto split: if_splits)

lemma dset_new: "k \<notin> fst ` set d \<Longrightarrow> dset k v d = d @ [(k, v)]"
  by (induction d) auto

lemma dset_values: "x \<in> snd ` set (dset k v d) \<Longrightarrow> x = v \<or> x \<in> snd ` set d"
  by (induction d) (auto split: if_splits)

text \<open>The method call \<open>x.get(key, default)\<close>: only a dict has it.\<close>

fun py_get_or :: "py \<Rightarrow> string \<Rightarrow> py \<Rightarrow> py result" where
  "py_get_or (PDict d) k v = Inr (case dget d k of None \<Rightarrow> v | Some x \<Rightarrow> x)"
| "py_get_or _ k v = Inl AttributeError"

abbreviation py_get :: "py \<Rightarrow> string \<Rightarrow> py result" where
  "py_get x k \<equiv> py_get_or x k PNone"

text \<open>The same on the items of a dict.\<close>

definition field :: "pydict \<Rightarrow> string \<Rightarrow> py" where
  "field d k = (case dget d k of None \<Rightarrow> PNone | Some v \<Rightarrow> v)"

text \<open>What a set or a dict takes as a key.\<close>

fun hashable :: "py \<Rightarrow> bool" where
  "hashable (PList xs) = False"
| "hashable (PDict d) = False"
| "hashable (PObj c a) = False"
| "hashable _ = True"

text \<open>Subscription \<open>x[key]\<close> with a string key.\<close>

fun py_item :: "py \<Rightarrow> string \<Rightarrow> py result" where
  "py_item (PDict d) k = (case dget d k of None \<Rightarrow> Inl (KeyError k) | Some x \<Rightarrow> Inr x)"
| "py_item _ k = Inl TypeError"

text \<open>\<open>getattr(x, name, None)\<close> on a value of the model.\<close>

fun py_getattr :: "py \<Rightarrow> string \<Rightarrow> py" where
  "py_getattr (PObj c a) k = (case dget a k of None \<Rightarrow> PNone | Some x \<Rightarrow> x)"
| "py_getattr _ k = PNone"

text \<open>Iteration \<open>for x in v\<close>.\<close>

fun py_iter :: "py \<Rightarrow> py list result" where
  "py_iter (PList xs) = Inr xs"
| "py_iter (PDict d) = Inr (map (PStr \<circ> fst) d)"
| "py_iter (PStr s) = Inr (map (\<lambda>c. PStr [c]) s)"
| "py_iter _ = Inl TypeError"

text \<open>The dicts of a value have distinct keys at every level, as Python's have.\<close>

function wf_py :: "py \<Rightarrow> bool" where
  "wf_py PNone = True"
| "wf_py (PBool b) = True"
| "wf_py (PInt i) = True"
| "wf_py (PFloat r) = True"
| "wf_py (PStr s) = True"
| "wf_py (PList xs) = (\<forall>x \<in> set xs. wf_py x)"
| "wf_py (PDict d) = (distinct (map fst d) \<and> (\<forall>v \<in> set (map snd d). wf_py v))"
| "wf_py (PObj c d) = (distinct (map fst d) \<and> (\<forall>v \<in> set (map snd d). wf_py v))"
  by pat_completeness auto

lemma size_dict_value: "v \<in> set (map snd d) \<Longrightarrow> size v < size (PDict d)"
  by (induction d) force+

termination wf_py
proof (relation "measure size")
  show "(x, PList xs) \<in> measure size" if "x \<in> set xs" for x xs
    using that by (induction xs) auto
  show "(v, PDict d) \<in> measure size" if "v \<in> set (map snd d)" for v d
    using size_dict_value [OF that] by simp
  show "(v, PObj c d) \<in> measure size" if "v \<in> set (map snd d)" for v c d
    using size_dict_value [OF that] by simp
qed simp

section \<open>Strings\<close>

definition code :: "char \<Rightarrow> nat" where
  "code c = of_char c"

definition py_space :: "char \<Rightarrow> bool" where
  "py_space c = (code c \<in> {9..13} \<union> {28..32} \<union> {133, 160})"

definition is_decimal :: "char \<Rightarrow> bool" where
  "is_decimal c = (48 \<le> code c \<and> code c \<le> 57)"

definition ascii_alpha :: "char \<Rightarrow> bool" where
  "ascii_alpha c = (65 \<le> code c \<and> code c \<le> 90 \<or> 97 \<le> code c \<and> code c \<le> 122)"

text \<open>The class \<open>\w\<close> of the \<open>re\<close> module: what \<open>str.isalnum\<close> accepts, and the underscore.\<close>

definition word_char :: "char \<Rightarrow> bool" where
  "word_char c = (ascii_alpha c \<or> is_decimal c \<or> code c = 95
     \<or> code c \<in> {170, 178, 179, 181, 185, 186, 188, 189, 190}
     \<or> (192 \<le> code c \<and> code c \<noteq> 215 \<and> code c \<noteq> 247))"

definition lower_char :: "char \<Rightarrow> char" where
  "lower_char c = (if 65 \<le> code c \<and> code c \<le> 90 \<or> 192 \<le> code c \<and> code c \<le> 222 \<and> code c \<noteq> 215
                   then char_of (code c + 32) else c)"

definition str_lower :: "string \<Rightarrow> string" where
  "str_lower s = map lower_char s"

definition lstrip_by :: "(char \<Rightarrow> bool) \<Rightarrow> string \<Rightarrow> string" where
  "lstrip_by p s = dropWhile p s"

definition rstrip_by :: "(char \<Rightarrow> bool) \<Rightarrow> string \<Rightarrow> string" where
  "rstrip_by p s = rev (dropWhile p (rev s))"

definition strip_by :: "(char \<Rightarrow> bool) \<Rightarrow> string \<Rightarrow> string" where
  "strip_by p s = rstrip_by p (lstrip_by p s)"

abbreviation str_strip :: "string \<Rightarrow> string" where
  "str_strip \<equiv> strip_by py_space"

abbreviation starts_with :: "string \<Rightarrow> string \<Rightarrow> bool" where
  "starts_with s p \<equiv> prefix p s"

abbreviation ends_with :: "string \<Rightarrow> string \<Rightarrow> bool" where
  "ends_with s p \<equiv> suffix p s"

text \<open>The test \<open>t in s\<close> on strings.\<close>

definition str_in :: "string \<Rightarrow> string \<Rightarrow> bool" where
  "str_in t s = (\<exists>i \<le> length s. prefix t (drop i s))"

fun str_in_exec :: "string \<Rightarrow> string \<Rightarrow> bool" where
  "str_in_exec t [] = (t = [])"
| "str_in_exec t (c # s) = (prefix t (c # s) \<or> str_in_exec t s)"

lemma str_in_code [code]: "str_in t s = str_in_exec t s"
proof (induction s)
  case Nil
  then show ?case by (simp add: str_in_def)
next
  case (Cons c s)
  have "(\<exists>i \<le> Suc (length s). prefix t (drop i (c # s))) \<longleftrightarrow>
        prefix t (c # s) \<or> (\<exists>i \<le> length s. prefix t (drop i s))" (is "?l \<longleftrightarrow> ?r")
  proof
    assume ?l
    then obtain i where "i \<le> Suc (length s)" "prefix t (drop i (c # s))" by blast
    then show ?r by (cases i) auto
  next
    assume ?r
    then show ?l by (auto intro: exI [of _ 0] exI [of _ "Suc _"])
  qed
  with Cons show ?case by (simp add: str_in_def)
qed

text \<open>The operator \<open>key in x\<close> for a string key.\<close>

fun py_in :: "string \<Rightarrow> py \<Rightarrow> bool result" where
  "py_in k (PDict d) = Inr (dget d k \<noteq> None)"
| "py_in k (PStr s) = Inr (str_in k s)"
| "py_in k (PList xs) = Inr (PStr k \<in> set xs)"
| "py_in k _ = Inl TypeError"

text \<open>The assignment \<open>x[key] = v\<close> for a string key.\<close>

fun py_setitem :: "py \<Rightarrow> string \<Rightarrow> py \<Rightarrow> py result" where
  "py_setitem (PDict d) k v = Inr (PDict (dset k v d))"
| "py_setitem _ k v = Inl TypeError"

text \<open>\<open>s.split(sep)\<close> for a one-character separator.\<close>

fun split_on :: "char \<Rightarrow> string \<Rightarrow> string list" where
  "split_on sep [] = [[]]"
| "split_on sep (c # s) =
     (if c = sep then [] # split_on sep s
      else (case split_on sep s of [] \<Rightarrow> [[c]] | w # ws \<Rightarrow> (c # w) # ws))"

fun str_join :: "string \<Rightarrow> string list \<Rightarrow> string" where
  "str_join sep [] = []"
| "str_join sep [w] = w"
| "str_join sep (w # ws) = w @ sep @ str_join sep ws"

lemma split_on_ne [simp]: "split_on sep s \<noteq> []"
  by (cases s) (auto split: list.splits)

lemma join_split: "str_join [sep] (split_on sep s) = s"
proof (induction s)
  case (Cons c s)
  obtain w ws where "split_on sep s = w # ws"
    by (cases "split_on sep s") auto
  with Cons show ?case by (cases ws) auto
qed simp

lemma split_on_no_sep: "\<forall>w \<in> set (split_on sep s). sep \<notin> set w"
  by (induction s) (auto split: list.splits)

text \<open>\<open>s.split(sep, 1)\<close> as the two sides of the first occurrence of the separator string.\<close>

fun split_at :: "string \<Rightarrow> string \<Rightarrow> (string \<times> string) option" where
  "split_at sep [] = (if sep = [] then Some ([], []) else None)"
| "split_at sep (c # s) =
     (if prefix sep (c # s) then Some ([], drop (length sep) (c # s))
      else map_option (\<lambda>(a, b). (c # a, b)) (split_at sep s))"

lemma split_at_append: "split_at sep s = Some (a, b) \<Longrightarrow> s = a @ sep @ b"
proof (induction s arbitrary: a)
  case (Cons c s)
  then show ?case
    by (auto split: if_splits simp: prefix_def)
qed (auto split: if_splits)

text \<open>\<open>str(n)\<close> for integers, and \<open>f"{n}"\<close>.\<close>

fun nat_digits :: "nat \<Rightarrow> string" where
  "nat_digits n = (if n < 10 then [char_of (48 + n)]
                   else nat_digits (n div 10) @ [char_of (48 + n mod 10)])"

declare nat_digits.simps [simp del]

definition str_int :: "int \<Rightarrow> string" where
  "str_int i = (if i < 0 then ''-'' @ nat_digits (nat (- i)) else nat_digits (nat i))"

lemma int_div_times_le: "0 < b \<Longrightarrow> (a :: int) div b * b \<le> a"
  by (simp add: minus_mod_eq_div_mult [symmetric])

section \<open>Lists\<close>

text \<open>\<open>xs[-n:]\<close> for a positive \<open>n\<close>.\<close>

definition last_n :: "nat \<Rightarrow> 'a list \<Rightarrow> 'a list" where
  "last_n n xs = drop (length xs - n) xs"

lemma length_last_n [simp]: "length (last_n n xs) = min n (length xs)"
  by (simp add: last_n_def)

lemma last_n_all: "length xs \<le> n \<Longrightarrow> last_n n xs = xs"
  by (simp add: last_n_def)

lemma last_n_suffix: "suffix (last_n n xs) xs"
  by (simp add: last_n_def suffix_drop)

lemma set_last_n: "set (last_n n xs) \<subseteq> set xs"
  by (simp add: last_n_def set_drop_subset)

lemma last_n_snoc: "last_n (Suc n) (xs @ [x]) = last_n n xs @ [x]"
  by (auto simp: last_n_def)

text \<open>The first element that satisfies a predicate, as \<open>next((...), None)\<close> computes it.\<close>

lemma find_SomeD: "find P xs = Some x \<Longrightarrow> x \<in> set xs \<and> P x"
  by (induction xs) (auto split: if_splits)

lemma find_None: "find P xs = None \<longleftrightarrow> (\<forall>x \<in> set xs. \<not> P x)"
  by (induction xs) auto

lemmas py_eval = py_defs code_def py_space_def is_decimal_def ascii_alpha_def word_char_def
  lower_char_def str_lower_def lstrip_by_def rstrip_by_def strip_by_def str_in_code
  py_or_def mapR_def nat_digits.simps str_int_def last_n_def

end
