(* ===== verification/Rate_Limit.thy ===== *)
theory Rate_Limit
  imports Py_Prelude
begin

text \<open>
  The rolling-window rate limiter of \<open>utils/rate_limit.py\<close>. \<open>rate_limiter\<close> is what
  \<open>__init__\<close> stores, \<open>memory_store\<close> the class-level dict of counters per key and bucket.
  The Redis client is a parameter (\<open>redis_ops\<close>): each operation gets the time of the call,
  returns the new state of the service, and may raise. The locale \<open>redis_service\<close> states
  what the code relies on (INCR, EXPIRE and MGET as documented).
\<close>

section \<open>The limiter and its in-memory store\<close>

record rate_limiter =
  rl_limit :: int
  rl_window :: int
  rl_bucket_size :: int
  rl_num_buckets :: int
  rl_enabled :: bool
  rl_has_redis :: bool
  rl_prefix :: string

definition mk_limiter :: "bool \<Rightarrow> string \<Rightarrow> int \<Rightarrow> int \<Rightarrow> int \<Rightarrow> bool \<Rightarrow> rate_limiter result" where
  "mk_limiter has_redis redis_key_prefix limit window bucket_size enabled =
     (if bucket_size = 0 then Inl ZeroDivisionError
      else Inr \<lparr>rl_limit = limit, rl_window = window, rl_bucket_size = bucket_size,
                rl_num_buckets = window div bucket_size, rl_enabled = enabled,
                rl_has_redis = has_redis, rl_prefix = redis_key_prefix\<rparr>)"

type_synonym buckets = "(int \<times> int) list"
type_synonym memory_store = "(string \<times> buckets) list"

definition bucket_key :: "rate_limiter \<Rightarrow> string \<Rightarrow> int \<Rightarrow> string" where
  "bucket_key L key bucket_index =
     rl_prefix L @ '':ratelimit:'' @ str_lower key @ '':'' @ str_int bucket_index"

definition current_bucket :: "rate_limiter \<Rightarrow> int \<Rightarrow> int" where
  "current_bucket L now = now div rl_bucket_size L"

definition get0 :: "buckets \<Rightarrow> int \<Rightarrow> int" where
  "get0 st b = (case dget st b of None \<Rightarrow> 0 | Some n \<Rightarrow> n)"

definition drop_expired :: "int \<Rightarrow> buckets \<Rightarrow> buckets" where
  "drop_expired min_bucket st = filter (\<lambda>(b, _). \<not> b < min_bucket) st"

definition total :: "buckets \<Rightarrow> int" where
  "total st = sum_list (map snd st)"

definition is_limited_memory ::
  "rate_limiter \<Rightarrow> int \<Rightarrow> string \<Rightarrow> memory_store \<Rightarrow> bool \<times> memory_store" where
  "is_limited_memory L now key M =
     (let nb = current_bucket L now;
          M1 = (case dget M key of None \<Rightarrow> dset key [] M | Some _ \<Rightarrow> M);
          st = (case dget M1 key of None \<Rightarrow> [] | Some st \<Rightarrow> st);
          st1 = dset nb (get0 st nb + 1) st;
          st2 = drop_expired (nb - rl_num_buckets L) st1
      in (rl_limit L < total st2, dset key st2 M1))"

definition get_count_memory ::
  "rate_limiter \<Rightarrow> int \<Rightarrow> string \<Rightarrow> memory_store \<Rightarrow> int \<times> memory_store" where
  "get_count_memory L now key M =
     (case dget M key of
        None \<Rightarrow> (0, M)
      | Some st \<Rightarrow>
          (let st' = drop_expired (current_bucket L now - rl_num_buckets L) st
           in (total st', dset key st' M)))"

section \<open>The Redis back end\<close>

record 'r redis_ops =
  r_incr :: "int \<Rightarrow> 'r \<Rightarrow> string \<Rightarrow> 'r \<times> int result"
  r_expire :: "int \<Rightarrow> 'r \<Rightarrow> string \<Rightarrow> int \<Rightarrow> 'r \<times> unit result"
  r_mget :: "int \<Rightarrow> 'r \<Rightarrow> string list \<Rightarrow> 'r \<times> int option list result"

definition window_keys :: "rate_limiter \<Rightarrow> string \<Rightarrow> int \<Rightarrow> string list" where
  "window_keys L key nb =
     map (\<lambda>i. bucket_key L key (nb - int i)) [0..<nat (rl_num_buckets L + 1)]"

definition sum_counts :: "int option list \<Rightarrow> int" where
  "sum_counts counts = sum_list (map (case_option 0 id) counts)"

definition get_count_redis ::
  "'r redis_ops \<Rightarrow> rate_limiter \<Rightarrow> int \<Rightarrow> string \<Rightarrow> 'r \<Rightarrow> int result \<times> 'r" where
  "get_count_redis R L now key r =
     (case r_mget R now r (window_keys L key (current_bucket L now)) of
        (r1, Inl e) \<Rightarrow> (Inl e, r1)
      | (r1, Inr counts) \<Rightarrow> (Inr (sum_counts counts), r1))"

definition is_limited_redis ::
  "'r redis_ops \<Rightarrow> rate_limiter \<Rightarrow> int \<Rightarrow> string \<Rightarrow> 'r \<Rightarrow> bool result \<times> 'r" where
  "is_limited_redis R L now key r =
     (let nb = current_bucket L now; bk = bucket_key L key nb in
      case r_incr R now r bk of
        (r1, Inl e) \<Rightarrow> (Inl e, r1)
      | (r1, Inr attempts) \<Rightarrow>
          (case (if attempts = 1 then r_expire R now r1 bk (rl_window L + rl_bucket_size L)
                 else (r1, Inr ())) of
             (r2, Inl e) \<Rightarrow> (Inl e, r2)
           | (r2, Inr _) \<Rightarrow>
               (case r_mget R now r2 (window_keys L key nb) of
                  (r3, Inl e) \<Rightarrow> (Inl e, r3)
                | (r3, Inr counts) \<Rightarrow> (Inr (rl_limit L < sum_counts counts), r3))))"

section \<open>The public operations, with the fallback\<close>

definition is_limited ::
  "'r redis_ops \<Rightarrow> rate_limiter \<Rightarrow> int \<Rightarrow> string \<Rightarrow> 'r \<times> memory_store \<Rightarrow> bool \<times> 'r \<times> memory_store" where
  "is_limited R L now key S =
     (let (r, M) = S in
      if \<not> rl_enabled L then (False, r, M)
      else if rl_has_redis L then
        (case is_limited_redis R L now key r of
           (Inr b, r') \<Rightarrow> (b, r', M)
         | (Inl e, r') \<Rightarrow> (let (b, M') = is_limited_memory L now key M in (b, r', M')))
      else (let (b, M') = is_limited_memory L now key M in (b, r, M')))"

definition get_count ::
  "'r redis_ops \<Rightarrow> rate_limiter \<Rightarrow> int \<Rightarrow> string \<Rightarrow> 'r \<times> memory_store \<Rightarrow> int \<times> 'r \<times> memory_store" where
  "get_count R L now key S =
     (let (r, M) = S in
      if \<not> rl_enabled L then (0, r, M)
      else if rl_has_redis L then
        (case get_count_redis R L now key r of
           (Inr n, r') \<Rightarrow> (n, r', M)
         | (Inl e, r') \<Rightarrow> (let (n, M') = get_count_memory L now key M in (n, r', M')))
      else (let (n, M') = get_count_memory L now key M in (n, r, M')))"

definition remaining ::
  "'r redis_ops \<Rightarrow> rate_limiter \<Rightarrow> int \<Rightarrow> string \<Rightarrow> 'r \<times> memory_store \<Rightarrow> int \<times> 'r \<times> memory_store" where
  "remaining R L now key S = (let (used, S') = get_count R L now key S in (max 0 (rl_limit L - used), S'))"

section \<open>The contract of a back end\<close>

text \<open>
  A back end counts calls: \<open>hit\<close> records one at a time and returns how many it now counts,
  \<open>cnt s k b\<close> is the number of recorded calls of a key in a bucket. The laws cover the
  buckets the limiter still looks at; older ones may be forgotten. Keys that \<open>canon\<close>
  identifies share their counters.
\<close>

locale window_backend =
  fixes bs n :: int
    and canon :: "string \<Rightarrow> string"
    and inv :: "'s \<Rightarrow> int \<Rightarrow> bool"
    and cnt :: "'s \<Rightarrow> string \<Rightarrow> int \<Rightarrow> int"
    and hit :: "int \<Rightarrow> string \<Rightarrow> 's \<Rightarrow> int \<times> 's"
    and empty :: 's
  assumes bs_pos: "0 < bs" and n_nonneg: "0 \<le> n"
    and inv_empty: "inv empty t"
    and cnt_empty: "cnt empty k b = 0"
    and inv_hit: "inv s t \<Longrightarrow> t \<le> now \<Longrightarrow> inv (snd (hit now k s)) now"
    and cnt_hit: "inv s t \<Longrightarrow> t \<le> now \<Longrightarrow> now div bs - n \<le> b \<Longrightarrow>
      cnt (snd (hit now k s)) k' b =
      cnt s k' b + (if canon k' = canon k \<and> b = now div bs then 1 else 0)"
    and hit_total: "inv s t \<Longrightarrow> t \<le> now \<Longrightarrow>
      fst (hit now k s) = (\<Sum>b = now div bs - n..now div bs. cnt (snd (hit now k s)) k b)"
begin

text \<open>A history of calls (key, time), the latest first, and the state it leads to.\<close>

fun run :: "(string \<times> int) list \<Rightarrow> 's" where
  "run [] = empty"
| "run (ev # evs) = snd (hit (snd ev) (fst ev) (run evs))"

lemma inv_run_le:
  assumes "sorted_wrt (\<lambda>a b. snd b \<le> snd a) (ev # evs)"
  shows "\<exists>t. inv (run evs) t \<and> t \<le> snd ev"
  using assms
proof (induction evs arbitrary: ev)
  case Nil
  then show ?case using inv_empty by auto
next
  case (Cons e es)
  then obtain t where "inv (run es) t" "t \<le> snd e" by fastforce
  then have "inv (run (e # es)) (snd e)" using inv_hit by simp
  with Cons.prems show ?case by auto
qed

lemma cnt_run:
  "sorted_wrt (\<lambda>a b. snd b \<le> snd a) evs \<Longrightarrow> \<forall>e \<in> set evs. snd e div bs - n \<le> b \<Longrightarrow>
     cnt (run evs) k b =
     int (length (filter (\<lambda>(k', t'). canon k' = canon k \<and> t' div bs = b) evs))"
proof (induction evs)
  case (Cons ev evs)
  obtain t where t: "inv (run evs) t" "t \<le> snd ev" using inv_run_le [OF Cons.prems(1)] by blast
  have "cnt (run evs) k b =
     int (length (filter (\<lambda>(k', t'). canon k' = canon k \<and> t' div bs = b) evs))"
    using Cons.IH Cons.prems by simp
  with cnt_hit [OF t, of b "fst ev" k] Cons.prems show ?case
    by (auto simp: case_prod_unfold)
qed (simp add: cnt_empty)

lemma length_by_bucket:
  "(\<Sum>b = lo..hi. int (length (filter (\<lambda>(k', t'). P k' \<and> t' div bs = b) evs))) =
   int (length (filter (\<lambda>(k', t'). P k' \<and> lo \<le> t' div bs \<and> t' div bs \<le> hi) evs))"
proof (induction evs)
  case (Cons ev evs)
  obtain k t where ev: "ev = (k, t)" by (cases ev)
  have "(\<Sum>b = lo..hi. int (length (filter (\<lambda>(k', t'). P k' \<and> t' div bs = b) (ev # evs)))) =
    (\<Sum>b = lo..hi. (if t div bs = b then (if P k then 1 else 0) else 0) +
       int (length (filter (\<lambda>(k', t'). P k' \<and> t' div bs = b) evs)))"
    by (rule sum.cong) (auto simp: ev)
  also have "\<dots> = (if lo \<le> t div bs \<and> t div bs \<le> hi then (if P k then 1 else 0) else 0) +
    int (length (filter (\<lambda>(k', t'). P k' \<and> lo \<le> t' div bs \<and> t' div bs \<le> hi) evs))"
    by (simp add: sum.distrib Cons sum.delta')
  finally show ?case by (simp add: ev)
qed simp

text \<open>The returned count is the number of calls of the key in the window.\<close>

lemma hit_counts:
  assumes "sorted_wrt (\<lambda>a b. snd b \<le> snd a) ((k, now) # evs)"
  shows "fst (hit now k (run evs)) =
    int (length (filter (\<lambda>(k', t'). canon k' = canon k \<and> now div bs - n \<le> t' div bs)
      ((k, now) # evs)))"
proof -
  obtain t where t: "inv (run evs) t" "t \<le> now" using inv_run_le [OF assms] by auto
  have le: "snd e div bs \<le> now div bs" if "e \<in> set ((k, now) # evs)" for e
    using assms bs_pos that by (auto simp: zdiv_mono1)
  have "fst (hit now k (run evs)) =
      (\<Sum>b = now div bs - n..now div bs. cnt (run ((k, now) # evs)) k b)"
    using hit_total [OF t] by simp
  also have "\<dots> = (\<Sum>b = now div bs - n..now div bs.
      int (length (filter (\<lambda>(k', t'). canon k' = canon k \<and> t' div bs = b) ((k, now) # evs))))"
    using le by (intro sum.cong refl cnt_run [OF assms]) fastforce
  also have "\<dots> = int (length (filter (\<lambda>(k', t'). canon k' = canon k \<and>
      now div bs - n \<le> t' div bs \<and> t' div bs \<le> now div bs) ((k, now) # evs)))"
    by (rule length_by_bucket)
  also have "filter (\<lambda>(k', t'). canon k' = canon k \<and>
      now div bs - n \<le> t' div bs \<and> t' div bs \<le> now div bs) ((k, now) # evs) =
    filter (\<lambda>(k', t'). canon k' = canon k \<and> now div bs - n \<le> t' div bs) ((k, now) # evs)"
    using le by (intro filter_cong refl) fastforce
  finally show ?thesis .
qed

text \<open>Every call no older than the buckets reach is in the window.\<close>

lemma recent_in_window:
  assumes "now - n * bs \<le> t'"
  shows "now div bs - n \<le> t' div bs"
proof -
  have "now div bs - n = (now + (- n) * bs) div bs"
    using bs_pos by (subst div_mult_self1) auto
  also have "\<dots> \<le> t' div bs" using assms bs_pos by (intro zdiv_mono1) auto
  finally show ?thesis .
qed

end


section \<open>The in-memory back end\<close>

definition memory_hit :: "rate_limiter \<Rightarrow> int \<Rightarrow> string \<Rightarrow> memory_store \<Rightarrow> int \<times> memory_store" where
  "memory_hit L now key M =
     (let M' = snd (is_limited_memory L now key M) in (total (the (dget M' key)), M'))"

definition mem_cnt :: "memory_store \<Rightarrow> string \<Rightarrow> int \<Rightarrow> int" where
  "mem_cnt M key b = get0 (case dget M key of None \<Rightarrow> [] | Some st \<Rightarrow> st) b"

definition mem_inv :: "rate_limiter \<Rightarrow> memory_store \<Rightarrow> int \<Rightarrow> bool" where
  "mem_inv L M t = (\<forall>key st. dget M key = Some st \<longrightarrow>
     wf_dict st \<and> (\<forall>b \<in> set (dkeys st). b \<le> t div rl_bucket_size L))"

lemma is_limited_memory_hit:
  "is_limited_memory L now key M =
     (rl_limit L < fst (memory_hit L now key M), snd (memory_hit L now key M))"
  by (simp add: memory_hit_def is_limited_memory_def Let_def)

lemma get0_dset [simp]: "get0 (dset b v st) b' = (if b' = b then v else get0 st b')"
  by (simp add: get0_def)

lemma get0_drop_expired: "get0 (drop_expired m st) b = (if m \<le> b then get0 st b else 0)"
  by (simp add: get0_def drop_expired_def dget_filter_key)

lemma wf_drop_expired: "wf_dict st \<Longrightarrow> wf_dict (drop_expired m st)"
  by (induction st) (auto simp: drop_expired_def)

lemma keys_drop_expired: "b \<in> set (dkeys (drop_expired m st)) \<longleftrightarrow> b \<in> set (dkeys st) \<and> m \<le> b"
  by (induction st) (auto simp: drop_expired_def)

lemma total_get0:
  "wf_dict st \<Longrightarrow> set (dkeys st) \<subseteq> A \<Longrightarrow> finite A \<Longrightarrow> total st = (\<Sum>b \<in> A. get0 st b)"
proof (induction st arbitrary: A)
  case (Cons x st)
  obtain b v where x: "x = (b, v)" by (cases x)
  with Cons.prems have A: "b \<in> A" "set (dkeys st) \<subseteq> A - {b}" by auto
  have "(\<Sum>a \<in> A. get0 (x # st) a) = v + (\<Sum>a \<in> A - {b}. get0 (x # st) a)"
    using A Cons.prems(3) by (simp add: sum.remove x get0_def)
  also have "(\<Sum>a \<in> A - {b}. get0 (x # st) a) = (\<Sum>a \<in> A - {b}. get0 st a)"
    by (rule sum.cong) (auto simp: x get0_def)
  also have "\<dots> = total st" using Cons A by simp
  finally show ?case by (simp add: total_def x)
qed (simp add: total_def get0_def)

text \<open>What one recorded call leaves in the store of its key.\<close>

lemma memory_hit_store:
  assumes "mem_inv L M t" and "t \<le> now" and "0 < rl_bucket_size L" and "0 \<le> rl_num_buckets L"
  defines "nb \<equiv> now div rl_bucket_size L"
  obtains st where "dget (snd (memory_hit L now key M)) key = Some st" and "wf_dict st"
    and "set (dkeys st) \<subseteq> {nb - rl_num_buckets L..nb}"
    and "\<And>b. nb - rl_num_buckets L \<le> b \<Longrightarrow>
      get0 st b = mem_cnt M key b + (if b = nb then 1 else 0)"
    and "\<And>k'. k' \<noteq> key \<Longrightarrow> dget (snd (memory_hit L now key M)) k' = dget M k'"
proof -
  define old where "old = (case dget M key of None \<Rightarrow> [] | Some st \<Rightarrow> st)"
  define new where "new = dset nb (get0 old nb + 1) old"
  have nb: "t div rl_bucket_size L \<le> nb" using assms by (simp add: nb_def zdiv_mono1)
  have old: "wf_dict old" "\<forall>b \<in> set (dkeys old). b \<le> nb"
    using assms(1) nb by (cases "dget M key"; fastforce simp: old_def mem_inv_def)+
  have M': "snd (memory_hit L now key M) =
      dset key (drop_expired (nb - rl_num_buckets L) new)
        (case dget M key of None \<Rightarrow> dset key [] M | Some _ \<Rightarrow> M)"
    by (simp add: memory_hit_def is_limited_memory_def current_bucket_def Let_def nb_def new_def
        old_def split: option.splits)
  have wf: "wf_dict new" using old by (simp add: new_def)
  show thesis
  proof (rule that)
    show "dget (snd (memory_hit L now key M)) key =
        Some (drop_expired (nb - rl_num_buckets L) new)"
      by (simp add: M')
    show "wf_dict (drop_expired (nb - rl_num_buckets L) new)"
      using wf by (rule wf_drop_expired)
    show "set (dkeys (drop_expired (nb - rl_num_buckets L) new)) \<subseteq> {nb - rl_num_buckets L..nb}"
      using old by (auto simp: keys_drop_expired new_def simp del: set_map)
    show "get0 (drop_expired (nb - rl_num_buckets L) new) b =
        mem_cnt M key b + (if b = nb then 1 else 0)" if "nb - rl_num_buckets L \<le> b" for b
      using that by (simp add: get0_drop_expired new_def mem_cnt_def old_def)
    show "dget (snd (memory_hit L now key M)) k' = dget M k'" if "k' \<noteq> key" for k'
      using that by (simp add: M' split: option.splits)
  qed
qed

text \<open>A limiter as \<open>__init__\<close> builds it, with a positive bucket and a window that is not negative.\<close>

definition wf_limiter :: "rate_limiter \<Rightarrow> bool" where
  "wf_limiter L = (0 < rl_bucket_size L \<and> 0 \<le> rl_window L \<and>
     rl_num_buckets L = rl_window L div rl_bucket_size L)"

locale limiter =
  fixes L :: rate_limiter
  assumes wf: "wf_limiter L"
begin

lemma num_nonneg: "0 \<le> rl_num_buckets L"
  using wf by (simp add: wf_limiter_def pos_imp_zdiv_nonneg_iff)

end

sublocale limiter \<subseteq> mem: window_backend "rl_bucket_size L" "rl_num_buckets L" id
  "mem_inv L" mem_cnt "memory_hit L" "[]"
proof unfold_locales
  show "0 < rl_bucket_size L" "0 \<le> rl_num_buckets L"
    using wf num_nonneg by (auto simp: wf_limiter_def)
next
  fix s :: memory_store and t now :: int and k
  assume "mem_inv L s t" "t \<le> now"
  then obtain st where st: "dget (snd (memory_hit L now k s)) k = Some st" "wf_dict st"
    "set (dkeys st) \<subseteq> {now div rl_bucket_size L - rl_num_buckets L..now div rl_bucket_size L}"
    "\<And>b. now div rl_bucket_size L - rl_num_buckets L \<le> b \<Longrightarrow>
      get0 st b = mem_cnt s k b + (if b = now div rl_bucket_size L then 1 else 0)"
    "\<And>k'. k' \<noteq> k \<Longrightarrow> dget (snd (memory_hit L now k s)) k' = dget s k'"
    using wf num_nonneg by (elim memory_hit_store) (auto simp: wf_limiter_def)
  have mono: "t div rl_bucket_size L \<le> now div rl_bucket_size L"
    using wf \<open>t \<le> now\<close> by (auto simp: wf_limiter_def zdiv_mono1)
  show "mem_inv L (snd (memory_hit L now k s)) now"
    unfolding mem_inv_def
  proof (intro allI impI)
    fix key st'
    assume "dget (snd (memory_hit L now k s)) key = Some st'"
    with st \<open>mem_inv L s t\<close> mono show "wf_dict st' \<and>
        (\<forall>b \<in> set (dkeys st'). b \<le> now div rl_bucket_size L)"
      by (cases "key = k") (fastforce simp: mem_inv_def)+
  qed
  show "mem_cnt (snd (memory_hit L now k s)) k' b =
      mem_cnt s k' b + (if id k' = id k \<and> b = now div rl_bucket_size L then 1 else 0)"
    if "now div rl_bucket_size L - rl_num_buckets L \<le> b" for k' b
    using st that by (cases "k' = k") (auto simp: mem_cnt_def)
  have "fst (memory_hit L now k s) = total st"
    using st(1) by (simp add: memory_hit_def Let_def)
  also have "\<dots> = (\<Sum>b = now div rl_bucket_size L - rl_num_buckets L..now div rl_bucket_size L. get0 st b)"
    using st(2,3) by (intro total_get0) auto
  finally show "fst (memory_hit L now k s) =
     (\<Sum>b = now div rl_bucket_size L - rl_num_buckets L..now div rl_bucket_size L.
        mem_cnt (snd (memory_hit L now k s)) k b)"
    using st(1) by (simp add: mem_cnt_def)
qed (auto simp: mem_inv_def mem_cnt_def get0_def)


section \<open>The Redis back end\<close>

text \<open>
  What the code relies on, as Redis documents it: \<open>view\<close> reads a key's value and its
  expiry time, if one is set; a key whose expiry time has come does not exist any more. INCR
  counts a missing key from 0 and keeps the expiry of one that exists.
\<close>

definition live :: "('r \<Rightarrow> string \<Rightarrow> (int \<times> int option) option) \<Rightarrow> 'r \<Rightarrow> int \<Rightarrow> string \<Rightarrow> int option" where
  "live view r t k = (case view r k of
      None \<Rightarrow> None
    | Some (v, None) \<Rightarrow> Some v
    | Some (v, Some e) \<Rightarrow> if t < e then Some v else None)"

locale redis_service =
  fixes R :: "'r redis_ops" and view :: "'r \<Rightarrow> string \<Rightarrow> (int \<times> int option) option"
  assumes incr: "r_incr R t r k = (r', res) \<Longrightarrow>
      res = Inr (case_option 0 id (live view r t k) + 1) \<and>
      view r' = (view r)(k \<mapsto> (case_option 0 id (live view r t k) + 1,
         if live view r t k = None then None else snd (the (view r k))))"
    and expire: "r_expire R t r k ttl = (r', ack) \<Longrightarrow>
      ack = Inr () \<and> view r' = (case live view r t k of
        None \<Rightarrow> view r | Some v \<Rightarrow> (view r)(k \<mapsto> (v, Some (t + ttl))))"
    and mget: "r_mget R t r ks = (r', vals) \<Longrightarrow>
      vals = Inr (map (live view r t) ks) \<and> view r' = view r"

locale redis_limiter = limiter L + redis_service R view
  for L :: rate_limiter and R :: "'r redis_ops" and view +
  fixes r0 :: 'r
  assumes fresh: "view r0 = Map.empty"

definition redis_hit :: "'r redis_ops \<Rightarrow> rate_limiter \<Rightarrow> int \<Rightarrow> string \<Rightarrow> 'r \<Rightarrow> int \<times> 'r" where
  "redis_hit R L now key r =
     (let r' = snd (is_limited_redis R L now key r)
      in (case fst (get_count_redis R L now key r') of Inl _ \<Rightarrow> 0 | Inr c \<Rightarrow> c, r'))"

lemma redis_hit_snd: "snd (redis_hit R L now key r) = snd (is_limited_redis R L now key r)"
  by (simp add: redis_hit_def Let_def)

text \<open>The counter of a key and bucket, whether or not it has expired.\<close>

definition red_cnt ::
  "('r \<Rightarrow> string \<Rightarrow> (int \<times> int option) option) \<Rightarrow> rate_limiter \<Rightarrow> 'r \<Rightarrow> string \<Rightarrow> int \<Rightarrow> int" where
  "red_cnt view L r k b = (case view r (bucket_key L k b) of None \<Rightarrow> 0 | Some (v, _) \<Rightarrow> v)"

text \<open>A counter outlives the windows that look at its bucket.\<close>

definition red_inv ::
  "('r \<Rightarrow> string \<Rightarrow> (int \<times> int option) option) \<Rightarrow> rate_limiter \<Rightarrow> 'r \<Rightarrow> int \<Rightarrow> bool" where
  "red_inv view L r t = (\<forall>k b v e. view r (bucket_key L k b) = Some (v, Some e) \<longrightarrow>
     b * rl_bucket_size L + rl_window L + rl_bucket_size L \<le> e)"

lemma nat_digits_digits: "set (nat_digits n) \<subseteq> {c. is_decimal c}"
proof (induction n rule: nat_digits.induct)
  case (1 n)
  have "n mod 10 < 10" by simp
  then show ?case
    using 1 by (subst nat_digits.simps) (auto simp: is_decimal_def code_def)
qed

lemma nat_digits_inject: "nat_digits m = nat_digits n \<Longrightarrow> m = n"
proof (induction m arbitrary: n rule: nat_digits.induct)
  case (1 m)
  have ne: "nat_digits k \<noteq> []" for k by (subst nat_digits.simps) simp
  have inj: "char_of (48 + a) = (char_of (48 + b) :: char) \<Longrightarrow> a < 10 \<Longrightarrow> b < 10 \<Longrightarrow> a = b"
    for a b :: nat by (simp add: char_of_eq_iff take_bit_eq_mod)
  have mods: "m mod 10 < 10" "n mod 10 < 10" by simp_all
  show ?case
  proof (cases "m < 10 \<longleftrightarrow> n < 10")
    case True
    then consider "m < 10" "n < 10" | "\<not> m < 10" "\<not> n < 10" by blast
    then show ?thesis
    proof cases
      case a: 1
      with "1.prems" have "char_of (48 + m) = (char_of (48 + n) :: char)"
        by (simp add: nat_digits.simps [of m] nat_digits.simps [of n])
      with a show ?thesis by (rule_tac inj)
    next
      case 2
      with "1.prems" have "nat_digits (m div 10) = nat_digits (n div 10)"
        and c: "char_of (48 + m mod 10) = (char_of (48 + n mod 10) :: char)"
        by (simp_all add: nat_digits.simps [of m] nat_digits.simps [of n])
      then have "m div 10 = n div 10" using 2 "1.IH" by blast
      moreover have "m mod 10 = n mod 10" using c mods by (rule inj)
      ultimately show ?thesis by (metis div_mult_mod_eq)
    qed
  next
    case False
    with "1.prems" ne ne [THEN not_sym] show ?thesis
      by (auto simp: nat_digits.simps [of m] nat_digits.simps [of n] split: if_splits)
  qed
qed

lemma str_int_chars: "c \<in> set (str_int i) \<Longrightarrow> is_decimal c \<or> c = CHR ''-''"
  using nat_digits_digits by (fastforce simp: str_int_def split: if_splits)

lemma str_int_inject: "str_int i = str_int j \<Longrightarrow> i = j"
proof -
  have "CHR ''-'' \<notin> set (nat_digits n)" for n
    using nat_digits_digits [of n] by (auto simp: is_decimal_def code_def)
  then have hd: "hd (nat_digits n) \<noteq> CHR ''-''" "nat_digits n \<noteq> []" for n
    by (metis hd_in_set nat_digits.simps snoc_eq_iff_butlast list.distinct(1))
       (subst nat_digits.simps, simp)
  assume "str_int i = str_int j"
  with hd(1) hd(1) [symmetric] show ?thesis
    by (auto simp: str_int_def dest: nat_digits_inject split: if_splits) (metis hd(1) list.sel(1))+
qed

lemma append_sep_inject:
  "a @ x # b = c @ x # d \<Longrightarrow> x \<notin> set b \<Longrightarrow> x \<notin> set d \<Longrightarrow> a = c \<and> b = d"
proof (induction a arbitrary: c)
  case Nil
  then show ?case by (cases c) auto
next
  case (Cons y a)
  then show ?case by (cases c) auto
qed

lemma bucket_key_inject:
  "bucket_key L k b = bucket_key L k' b' \<longleftrightarrow> str_lower k = str_lower k' \<and> b = b'"
proof -
  have "CHR '':'' \<notin> set (str_int i)" for i
    using str_int_chars by (fastforce simp: is_decimal_def code_def)
  then show ?thesis
    by (auto simp: bucket_key_def dest!: append_sep_inject str_int_inject)
qed


context redis_limiter
begin

lemma window_bound: "now div rl_bucket_size L - rl_num_buckets L \<le> b \<Longrightarrow>
    now < b * rl_bucket_size L + rl_window L + rl_bucket_size L"
proof -
  assume b: "now div rl_bucket_size L - rl_num_buckets L \<le> b"
  have bs: "0 < rl_bucket_size L" and n: "rl_num_buckets L = rl_window L div rl_bucket_size L"
    using wf by (simp_all add: wf_limiter_def)
  have "now div rl_bucket_size L < b + rl_num_buckets L + 1" using b by simp
  moreover have "now < (now div rl_bucket_size L + 1) * rl_bucket_size L"
    using pos_mod_bound [OF bs, of now]
    by (simp add: minus_mult_div_eq_mod [symmetric] algebra_simps)
  ultimately have "now < (b + rl_num_buckets L + 1) * rl_bucket_size L"
    using bs by (meson less_le_trans mult_right_mono less_imp_le zless_imp_add1_zle)
  also have "\<dots> = b * rl_bucket_size L + rl_num_buckets L * rl_bucket_size L + rl_bucket_size L"
    by (simp add: algebra_simps)
  also have "\<dots> \<le> b * rl_bucket_size L + rl_window L + rl_bucket_size L"
    using bs n by (simp add: int_div_times_le)
  finally show ?thesis .
qed

lemma live_in_window:
  assumes "red_inv view L r t" and "now div rl_bucket_size L - rl_num_buckets L \<le> b"
  shows "live view r now (bucket_key L k b) = map_option fst (view r (bucket_key L k b))"
  using assms window_bound [OF assms(2)]
  by (fastforce simp: live_def red_inv_def split: option.splits)

lemma window_sum:
  assumes "red_inv view L r t"
  shows "sum_counts (map (live view r now) (window_keys L k (now div rl_bucket_size L))) =
    (\<Sum>b = now div rl_bucket_size L - rl_num_buckets L..now div rl_bucket_size L. red_cnt view L r k b)"
proof -
  let ?nb = "now div rl_bucket_size L"
  let ?n = "nat (rl_num_buckets L + 1)"
  have "sum_counts (map (live view r now) (window_keys L k ?nb)) =
      (\<Sum>i = 0..<?n. red_cnt view L r k (?nb - int i))"
    unfolding sum_counts_def window_keys_def
    by (simp add: interv_sum_list_conv_sum_set_nat o_def)
       (rule sum.cong, auto simp: live_in_window [OF assms] red_cnt_def split: option.splits)
  also have "\<dots> = (\<Sum>b = ?nb - rl_num_buckets L..?nb. red_cnt view L r k b)"
    using num_nonneg
    by (intro sum.reindex_bij_witness [where i = "\<lambda>b. nat (?nb - b)" and j = "\<lambda>i. ?nb - int i"]) auto
  finally show ?thesis .
qed

lemma limited_steps:
  assumes "red_inv view L r t" and "t \<le> now"
  defines "nb \<equiv> now div rl_bucket_size L"
  obtains r' where "is_limited_redis R L now k r =
      (Inr (rl_limit L < (\<Sum>b = nb - rl_num_buckets L..nb. red_cnt view L r' k b)), r')"
    and "red_inv view L r' now"
    and "\<And>k' b. red_cnt view L r' k' b =
      red_cnt view L r k' b + (if str_lower k' = str_lower k \<and> b = nb then 1 else 0)"
proof -
  let ?bk = "bucket_key L k nb"
  define c where "c = case_option 0 id (live view r now ?bk) + 1"
  have nb: "current_bucket L now = nb" by (simp add: current_bucket_def nb_def)
  have lv: "live view r now ?bk = map_option fst (view r ?bk)"
    using assms num_nonneg by (intro live_in_window) auto
  obtain r1 res1 where i: "r_incr R now r ?bk = (r1, res1)" by (cases "r_incr R now r ?bk")
  note i' = incr [OF i, folded c_def]
  obtain r2 res2 where e: "(if c = 1 then r_expire R now r1 ?bk (rl_window L + rl_bucket_size L)
      else (r1, Inr ())) = (r2, res2)" by (metis surj_pair)
  have e': "res2 = Inr () \<and> view r2 = (if c = 1 then case live view r1 now ?bk of
        None \<Rightarrow> view r1
      | Some v \<Rightarrow> (view r1)(?bk \<mapsto> (v, Some (now + (rl_window L + rl_bucket_size L)))) else view r1)"
    using e expire by (auto split: if_splits)
  have cnt: "red_cnt view L r2 k' b =
      red_cnt view L r k' b + (if str_lower k' = str_lower k \<and> b = nb then 1 else 0)" for k' b
  proof (cases "bucket_key L k' b = ?bk")
    case True
    then have "red_cnt view L x k' b = red_cnt view L x k nb" for x
      by (simp add: red_cnt_def)
    moreover have "red_cnt view L r2 k nb = red_cnt view L r k nb + 1"
      using i' e' lv c_def by (auto simp: red_cnt_def live_def split: option.splits if_splits)
    ultimately show ?thesis using True by (simp add: bucket_key_inject)
  next
    case False
    with i' e' show ?thesis
      by (auto simp: red_cnt_def bucket_key_inject split: option.splits if_splits)
  qed
  have nbm: "nb * rl_bucket_size L \<le> now"
    using wf by (simp add: nb_def wf_limiter_def int_div_times_le)
  have inv2: "red_inv view L r2 now"
    unfolding red_inv_def
  proof (intro allI impI)
    fix k' b v x
    assume v: "view r2 (bucket_key L k' b) = Some (v, Some x)"
    show "b * rl_bucket_size L + rl_window L + rl_bucket_size L \<le> x"
    proof (cases "bucket_key L k' b = ?bk")
      case False
      with v i' e' assms(1) show ?thesis
        by (auto simp: red_inv_def split: if_splits option.splits)
    next
      case True
      with v i' e' assms(1) nbm lv show ?thesis
        by (fastforce simp: red_inv_def bucket_key_inject split: if_splits option.splits)
    qed
  qed
  obtain r3 res3 where m: "r_mget R now r2 (window_keys L k nb) = (r3, res3)"
    by (metis surj_pair)
  note m' = mget [OF m]
  have "red_inv view L r3 now" using inv2 m' by (simp add: red_inv_def)
  moreover have "red_cnt view L r3 = red_cnt view L r2"
    using m' by (intro ext) (simp add: red_cnt_def)
  moreover have "is_limited_redis R L now k r =
      (Inr (rl_limit L < (\<Sum>b = nb - rl_num_buckets L..nb. red_cnt view L r2 k b)), r3)"
    using i' e' m' window_sum [OF inv2, of now k] e
    by (simp add: is_limited_redis_def nb i e m Let_def nb_def [symmetric])
  ultimately show thesis using cnt by (intro that [of r3]) auto
qed

end


context redis_limiter
begin

lemma get_count_sum:
  assumes "red_inv view L r now"
  shows "fst (get_count_redis R L now k r) =
    Inr (\<Sum>b = now div rl_bucket_size L - rl_num_buckets L..now div rl_bucket_size L. red_cnt view L r k b)"
proof -
  obtain r1 vs where m: "r_mget R now r (window_keys L k (now div rl_bucket_size L)) = (r1, vs)"
    by (metis surj_pair)
  with mget [OF m] window_sum [OF assms, of now k] show ?thesis
    by (simp add: get_count_redis_def current_bucket_def)
qed

end

sublocale redis_limiter \<subseteq> red: window_backend "rl_bucket_size L" "rl_num_buckets L" str_lower
  "red_inv view L" "red_cnt view L" "redis_hit R L" r0
proof unfold_locales
  show "0 < rl_bucket_size L" "0 \<le> rl_num_buckets L"
    using wf num_nonneg by (auto simp: wf_limiter_def)
next
  fix s t now k
  assume inv: "red_inv view L s t" "t \<le> now"
  obtain r' where r': "snd (is_limited_redis R L now k s) = r'" "red_inv view L r' now"
    "\<And>k' b. red_cnt view L r' k' b = red_cnt view L s k' b +
      (if str_lower k' = str_lower k \<and> b = now div rl_bucket_size L then 1 else 0)"
    by (rule limited_steps [OF inv, of k]) simp
  then show "red_inv view L (snd (redis_hit R L now k s)) now"
    and "fst (redis_hit R L now k s) =
      (\<Sum>b = now div rl_bucket_size L - rl_num_buckets L..now div rl_bucket_size L.
         red_cnt view L (snd (redis_hit R L now k s)) k b)"
    by (simp_all add: redis_hit_def get_count_sum)
  show "red_cnt view L (snd (redis_hit R L now k s)) k' b = red_cnt view L s k' b +
      (if str_lower k' = str_lower k \<and> b = now div rl_bucket_size L then 1 else 0)" for k' b
    using r' by (simp add: redis_hit_def)
qed (use fresh in \<open>auto simp: red_inv_def red_cnt_def\<close>)

section \<open>Histories of calls\<close>

text \<open>A history lists the calls (key, time), the latest first; time never goes back.\<close>

fun memory_run :: "rate_limiter \<Rightarrow> (string \<times> int) list \<Rightarrow> memory_store" where
  "memory_run L [] = []"
| "memory_run L ((k, t) # evs) = snd (is_limited_memory L t k (memory_run L evs))"

fun redis_run :: "'r redis_ops \<Rightarrow> rate_limiter \<Rightarrow> 'r \<Rightarrow> (string \<times> int) list \<Rightarrow> 'r" where
  "redis_run R L r0 [] = r0"
| "redis_run R L r0 ((k, t) # evs) = snd (is_limited_redis R L t k (redis_run R L r0 evs))"

definition in_order :: "(string \<times> int) list \<Rightarrow> bool" where
  "in_order evs = sorted_wrt (\<lambda>a b. snd b \<le> snd a) evs"

definition calls_in_window :: "rate_limiter \<Rightarrow> string \<Rightarrow> int \<Rightarrow> (string \<times> int) list \<Rightarrow> int" where
  "calls_in_window L k now evs =
     int (length (filter (\<lambda>(k', t'). k' = k \<and>
       now div rl_bucket_size L - rl_num_buckets L \<le> t' div rl_bucket_size L) evs))"

text \<open>The calls of a key that the limiter let through, with their times.\<close>

fun let_through :: "rate_limiter \<Rightarrow> string \<Rightarrow> (string \<times> int) list \<Rightarrow> int list" where
  "let_through L k [] = []"
| "let_through L k ((k', t) # evs) =
     (if k' = k \<and> \<not> fst (is_limited_memory L t k' (memory_run L evs)) then [t] else [])
       @ let_through L k evs"

lemma length_filter_mono:
  "(\<And>x. x \<in> set xs \<Longrightarrow> P x \<Longrightarrow> Q x) \<Longrightarrow> length (filter P xs) \<le> length (filter Q xs)"
  by (induction xs) (auto simp: le_SucI)

lemma length_let_through:
  "length (filter P (let_through L k evs)) \<le> length (filter (\<lambda>(k', t'). k' = k \<and> P t') evs)"
proof (induction evs)
  case (Cons ev evs)
  then show ?case by (cases ev) auto
qed simp

context limiter
begin

lemma memory_run_eq: "mem.run evs = memory_run L evs"
proof (induction evs)
  case (Cons ev evs)
  then show ?case by (cases ev) (simp add: is_limited_memory_hit)
qed simp

lemma memory_limited_iff:
  assumes "in_order ((k, now) # evs)"
  shows "fst (is_limited_memory L now k (memory_run L evs)) \<longleftrightarrow>
    rl_limit L < calls_in_window L k now ((k, now) # evs)"
  using mem.hit_counts [of k now evs] assms
  by (simp add: is_limited_memory_hit calls_in_window_def in_order_def memory_run_eq)

lemma let_through_bound:
  assumes "in_order evs" and "rl_bucket_size L dvd rl_window L" and "0 \<le> rl_limit L"
  shows "int (length (filter (\<lambda>t. now - rl_window L \<le> t \<and> t \<le> now) (let_through L k evs)))
    \<le> rl_limit L"
  using assms(1)
proof (induction evs)
  case (Cons ev evs)
  obtain k' t where ev: "ev = (k', t)" by (cases ev)
  have IH: "int (length (filter (\<lambda>t. now - rl_window L \<le> t \<and> t \<le> now) (let_through L k evs)))
      \<le> rl_limit L"
    using Cons by (simp add: in_order_def)
  show ?case
  proof (cases "k' = k \<and> \<not> fst (is_limited_memory L t k' (memory_run L evs)) \<and>
      now - rl_window L \<le> t \<and> t \<le> now")
    case False
    then have "filter (\<lambda>t. now - rl_window L \<le> t \<and> t \<le> now) (let_through L k (ev # evs)) =
        filter (\<lambda>t. now - rl_window L \<le> t \<and> t \<le> now) (let_through L k evs)"
      by (auto simp: ev)
    with IH show ?thesis by simp
  next
    case True
    have width: "rl_num_buckets L * rl_bucket_size L = rl_window L"
      using wf assms(2) by (simp add: wf_limiter_def)
    have "int (length (filter (\<lambda>t. now - rl_window L \<le> t \<and> t \<le> now) (let_through L k (ev # evs))))
        \<le> int (length (filter (\<lambda>(k', t'). k' = k \<and> now - rl_window L \<le> t' \<and> t' \<le> now) (ev # evs)))"
      using length_let_through [of "\<lambda>t. now - rl_window L \<le> t \<and> t \<le> now" L k "ev # evs"] by simp
    also have "\<dots> \<le> calls_in_window L k t (ev # evs)"
    proof -
      have "now - rl_window L \<le> t' \<Longrightarrow>
          t div rl_bucket_size L - rl_num_buckets L \<le> t' div rl_bucket_size L" for t'
        using True width by (intro mem.recent_in_window) auto
      then show ?thesis
        unfolding calls_in_window_def by (intro of_nat_mono length_filter_mono) auto
    qed
    also have "\<dots> \<le> rl_limit L"
      using memory_limited_iff [of k t evs] True Cons.prems by (auto simp: ev)
    finally show ?thesis .
  qed
qed (use assms in auto)

end


context redis_limiter
begin

lemma redis_run_eq: "red.run evs = redis_run R L r0 evs"
proof (induction evs)
  case (Cons ev evs)
  then show ?case by (cases ev) (simp add: redis_hit_snd)
qed simp

lemma redis_limited_iff:
  assumes "in_order ((k, now) # evs)"
  shows "fst (is_limited_redis R L now k (redis_run R L r0 evs)) =
    Inr (rl_limit L < int (length (filter (\<lambda>(k', t'). str_lower k' = str_lower k \<and>
       now div rl_bucket_size L - rl_num_buckets L \<le> t' div rl_bucket_size L) ((k, now) # evs))))"
proof -
  obtain t where t: "red_inv view L (redis_run R L r0 evs) t" "t \<le> now"
    using red.inv_run_le [of "(k, now)" evs] assms by (auto simp: in_order_def redis_run_eq)
  obtain r' where r': "is_limited_redis R L now k (redis_run R L r0 evs) =
      (Inr (rl_limit L < (\<Sum>b = now div rl_bucket_size L - rl_num_buckets L..now div rl_bucket_size L.
         red_cnt view L r' k b)), r')" "red_inv view L r' now"
    by (rule limited_steps [OF t])
  have "fst (redis_hit R L now k (redis_run R L r0 evs)) =
      (\<Sum>b = now div rl_bucket_size L - rl_num_buckets L..now div rl_bucket_size L. red_cnt view L r' k b)"
    using r' by (simp add: redis_hit_def get_count_sum)
  with r' red.hit_counts [of k now evs] assms show ?thesis
    by (simp add: redis_run_eq in_order_def)
qed

end

section \<open>The limiters of the program, and a table that behaves like Redis\<close>

text \<open>The limiter of sign-in attempts, \<open>routers/auths.py\<close>: 15 per key in 180 seconds.\<close>

definition signin_rate_limiter :: rate_limiter where
  "signin_rate_limiter = \<lparr>rl_limit = 5 * 3, rl_window = 60 * 3, rl_bucket_size = 60,
     rl_num_buckets = 3, rl_enabled = True, rl_has_redis = True, rl_prefix = ''open-webui''\<rparr>"

type_synonym redis_table = "string \<Rightarrow> (int \<times> int option) option"

definition table_redis :: "redis_table redis_ops" where
  "table_redis = \<lparr>
     r_incr = (\<lambda>t r k. (r(k \<mapsto> (case_option 0 id (live id r t k) + 1,
         if live id r t k = None then None else snd (the (r k)))),
       Inr (case_option 0 id (live id r t k) + 1))),
     r_expire = (\<lambda>t r k ttl. (case live id r t k of
         None \<Rightarrow> r | Some v \<Rightarrow> r(k \<mapsto> (v, Some (t + ttl))), Inr ())),
     r_mget = (\<lambda>t r ks. (r, Inr (map (live id r t) ks)))\<rparr>"

interpretation table: redis_service table_redis id
  by unfold_locales (auto simp: table_redis_def split: option.split)

interpretation signin: redis_limiter signin_rate_limiter table_redis id Map.empty
  by unfold_locales (auto simp: signin_rate_limiter_def wf_limiter_def)

section \<open>Properties\<close>

text \<open>the in-memory limiter refuses a call exactly when the calls of that key in the
  current bucket and the \<open>num_buckets\<close> before it, this call included, exceed the limit,
  whatever other keys were used in between.\<close>

theorem memory_limiter_counts_window:
  assumes "wf_limiter L" and "in_order ((k, now) # evs)"
  shows "fst (is_limited_memory L now k (memory_run L evs)) \<longleftrightarrow>
    rl_limit L < calls_in_window L k now ((k, now) # evs)"
  by (rule limiter.memory_limited_iff [OF limiter.intro, OF assms])

theorem memory_limiter_counts_window_witness:
  "fst (is_limited_memory (signin_rate_limiter\<lparr>rl_limit := 1\<rparr>) 130 ''a''
     (memory_run (signin_rate_limiter\<lparr>rl_limit := 1\<rparr>) [(''b'', 120), (''a'', 60)]))"
proof -
  have "fst (is_limited_memory (signin_rate_limiter\<lparr>rl_limit := 1\<rparr>) 130 ''a''
      (memory_run (signin_rate_limiter\<lparr>rl_limit := 1\<rparr>) [(''b'', 120), (''a'', 60)])) \<longleftrightarrow>
    rl_limit (signin_rate_limiter\<lparr>rl_limit := 1\<rparr>) < calls_in_window (signin_rate_limiter\<lparr>rl_limit := 1\<rparr>)
      ''a'' 130 [(''a'', 130), (''b'', 120), (''a'', 60)]"
    by (rule memory_limiter_counts_window)
       (simp_all add: wf_limiter_def signin_rate_limiter_def in_order_def)
  then show ?thesis by (simp add: calls_in_window_def signin_rate_limiter_def)
qed

text \<open>C1: when the bucket size divides the window, at most \<open>limit\<close> calls of a key are let
  through in any interval of \<open>window\<close> seconds.\<close>

theorem at_most_limit_per_window:
  assumes "wf_limiter L" and "rl_bucket_size L dvd rl_window L" and "0 \<le> rl_limit L"
    and "in_order evs"
  shows "int (length (filter (\<lambda>t. now - rl_window L \<le> t \<and> t \<le> now) (let_through L k evs)))
    \<le> rl_limit L"
  by (rule limiter.let_through_bound [OF limiter.intro, OF assms(1,4,2,3)])

theorem at_most_limit_per_window_witness:
  "int (length (filter (\<lambda>t. 180 - 180 \<le> t \<and> t \<le> 180)
     (let_through (signin_rate_limiter\<lparr>rl_limit := 1\<rparr>) ''a'' [(''a'', 180), (''a'', 100)]))) \<le> 1"
  using at_most_limit_per_window [of "signin_rate_limiter\<lparr>rl_limit := 1\<rparr>"
    "[(''a'', 180), (''a'', 100)]" 180 "''a''"]
  by (simp add: signin_rate_limiter_def wf_limiter_def in_order_def)

text \<open>C2: on the same calls, with lower-case keys, the Redis back end and the in-memory
  fallback decide alike.\<close>

theorem redis_and_memory_agree:
  assumes "wf_limiter L" and "redis_service R view" and "view r0 = Map.empty"
    and "in_order ((k, now) # evs)" and "\<forall>(k', t) \<in> set ((k, now) # evs). str_lower k' = k'"
  shows "fst (is_limited_redis R L now k (redis_run R L r0 evs)) =
    Inr (fst (is_limited_memory L now k (memory_run L evs)))"
proof -
  have "filter (\<lambda>(k', t'). str_lower k' = str_lower k \<and>
       now div rl_bucket_size L - rl_num_buckets L \<le> t' div rl_bucket_size L) ((k, now) # evs) =
    filter (\<lambda>(k', t'). k' = k \<and>
       now div rl_bucket_size L - rl_num_buckets L \<le> t' div rl_bucket_size L) ((k, now) # evs)"
    using assms(5) by (intro filter_cong) auto
  then show ?thesis
    using redis_limiter.redis_limited_iff [OF redis_limiter.intro, OF limiter.intro [OF assms(1)] assms(2)
        redis_limiter_axioms.intro [of view r0, OF assms(3)] assms(4)]
      limiter.memory_limited_iff [OF limiter.intro, OF assms(1,4)]
    by (simp add: calls_in_window_def)
qed

theorem redis_and_memory_agree_witness:
  "fst (is_limited_redis table_redis signin_rate_limiter 130 ''a''
     (redis_run table_redis signin_rate_limiter Map.empty [(''b'', 120), (''a'', 60)])) =
   Inr (fst (is_limited_memory signin_rate_limiter 130 ''a''
     (memory_run signin_rate_limiter [(''b'', 120), (''a'', 60)])))"
  by (rule redis_and_memory_agree [where view = id])
     (use table.redis_service_axioms in \<open>simp_all add: wf_limiter_def signin_rate_limiter_def
        in_order_def str_lower_def lower_char_def code_def\<close>)

end
