(* ===== verification/Py_Regex.thy ===== *)
theory Py_Regex
  imports Py_Prelude
begin

text \<open>
  The part of Python's \<open>re\<close> module that the program uses: patterns over character classes,
  sequence, alternation, greedy repetition, \<open>^\<close>, \<open>$\<close> and \<open>\b\<close>. \<open>rx_ends\<close> is the
  backtracking matcher: the ends of all matches from a position, in the order in which the
  engine tries them, so its head is the match that \<open>re\<close> reports. \<open>rx_rel\<close> is the
  meaning of a pattern, and \<open>rx_ends_iff\<close> says that the matcher finds exactly the matches.
\<close>

datatype rx =
    REps
  | RCls "char \<Rightarrow> bool"
  | RSeq rx rx
  | RAlt rx rx
  | RStar rx
  | RBound
  | RBegin
  | REnd

definition word_at :: "string \<Rightarrow> nat \<Rightarrow> bool" where
  "word_at s i = (i < length s \<and> word_char (s ! i))"

text \<open>A word boundary at a position: exactly one of its two neighbours is a word character.\<close>

definition at_bound :: "string \<Rightarrow> nat \<Rightarrow> bool" where
  "at_bound s i = ((0 < i \<and> word_at s (i - 1)) \<noteq> word_at s i)"

text \<open>\<open>$\<close> without MULTILINE: at the end, or before a newline that ends the string.\<close>

definition at_end :: "string \<Rightarrow> nat \<Rightarrow> bool" where
  "at_end s i = (i = length s \<or> Suc i = length s \<and> s ! i = CHR 0x0A)"

function rx_ends :: "rx \<Rightarrow> string \<Rightarrow> nat \<Rightarrow> nat list" where
  "rx_ends REps s i = [i]"
| "rx_ends (RCls p) s i = (if i < length s \<and> p (s ! i) then [Suc i] else [])"
| "rx_ends (RSeq a b) s i = concat (map (rx_ends b s) (rx_ends a s i))"
| "rx_ends (RAlt a b) s i = rx_ends a s i @ rx_ends b s i"
| "rx_ends (RStar a) s i =
     concat (map (\<lambda>j. if i < j \<and> j \<le> length s then rx_ends (RStar a) s j else [])
                 (rx_ends a s i)) @ [i]"
| "rx_ends RBound s i = (if at_bound s i then [i] else [])"
| "rx_ends RBegin s i = (if i = 0 then [i] else [])"
| "rx_ends REnd s i = (if at_end s i then [i] else [])"
  by pat_completeness auto
termination
  by (relation "measures [\<lambda>(r, s, i). size r, \<lambda>(r, s, i). length s - i]") auto

text \<open>The equation of a repetition unfolds into itself, so it is used where it is named.\<close>

lemmas rx_ends_star = rx_ends.simps(5)
declare rx_ends.simps(5) [simp del]

lemma rx_ends_star_iff:
  "k \<in> set (rx_ends (RStar a) s i) \<longleftrightarrow>
     k = i \<or> (\<exists>j \<in> set (rx_ends a s i). i < j \<and> j \<le> length s \<and> k \<in> set (rx_ends (RStar a) s j))"
  by (subst rx_ends_star) auto

inductive rx_rel :: "rx \<Rightarrow> string \<Rightarrow> nat \<Rightarrow> nat \<Rightarrow> bool" where
  eps: "rx_rel REps s i i"
| cls: "i < length s \<Longrightarrow> p (s ! i) \<Longrightarrow> rx_rel (RCls p) s i (Suc i)"
| seq: "rx_rel a s i j \<Longrightarrow> rx_rel b s j k \<Longrightarrow> rx_rel (RSeq a b) s i k"
| alt1: "rx_rel a s i j \<Longrightarrow> rx_rel (RAlt a b) s i j"
| alt2: "rx_rel b s i j \<Longrightarrow> rx_rel (RAlt a b) s i j"
| star0: "rx_rel (RStar a) s i i"
| star1: "rx_rel a s i j \<Longrightarrow> rx_rel (RStar a) s j k \<Longrightarrow> rx_rel (RStar a) s i k"
| bound: "at_bound s i \<Longrightarrow> rx_rel RBound s i i"
| bos: "rx_rel RBegin s 0 0"
| eos: "at_end s i \<Longrightarrow> rx_rel REnd s i i"

inductive_cases rx_relE:
  "rx_rel REps s i j" "rx_rel (RCls p) s i j" "rx_rel (RSeq a b) s i j"
  "rx_rel (RAlt a b) s i j" "rx_rel RBound s i j" "rx_rel RBegin s i j" "rx_rel REnd s i j"

inductive_simps rx_rel_simps:
  "rx_rel REps s i j" "rx_rel (RCls p) s i j" "rx_rel (RSeq a b) s i j"
  "rx_rel (RAlt a b) s i j" "rx_rel RBound s i j" "rx_rel RBegin s i j" "rx_rel REnd s i j"

lemma rx_rel_bounds: "rx_rel r s i j \<Longrightarrow> i \<le> j \<and> (i \<le> length s \<longrightarrow> j \<le> length s)"
  by (induction rule: rx_rel.induct) auto

text \<open>Iterations that consume nothing can be dropped, as the engine does.\<close>

lemma rx_rel_star_progress:
  "rx_rel r s i k \<Longrightarrow> r = RStar a \<Longrightarrow>
     k = i \<or> (\<exists>j. i < j \<and> rx_rel a s i j \<and> rx_rel (RStar a) s j k)"
proof (induction rule: rx_rel.induct)
  case (star1 b s i j k)
  then have a: "rx_rel a s i j" "rx_rel (RStar a) s j k" by auto
  show ?case
  proof (cases "i < j")
    case True
    with a show ?thesis by blast
  next
    case False
    with rx_rel_bounds [OF a(1)] have "j = i" by simp
    with star1 show ?thesis by simp
  qed
qed auto

lemma rx_ends_sound: "j \<in> set (rx_ends r s i) \<Longrightarrow> rx_rel r s i j"
proof (induction r s i arbitrary: j rule: rx_ends.induct)
  case (5 a s i)
  from "5.prems" consider "j = i"
    | m where "m \<in> set (rx_ends a s i)" "i < m" "m \<le> length s" "j \<in> set (rx_ends (RStar a) s m)"
    by (subst (asm) rx_ends_star_iff) blast
  then show ?case
    using "5.IH" by cases (blast intro: rx_rel.star0 rx_rel.star1)+
qed (auto simp: rx_rel_simps split: if_splits)

lemma rx_ends_complete: "rx_rel r s i j \<Longrightarrow> i \<le> length s \<Longrightarrow> j \<in> set (rx_ends r s i)"
proof (induction r s i arbitrary: j rule: rx_ends.induct)
  case (3 a b s i)
  then obtain m where "rx_rel a s i m" "rx_rel b s m j" by (auto elim: rx_relE)
  with 3 rx_rel_bounds show ?case by fastforce
next
  case (5 a s i)
  from rx_rel_star_progress [OF "5.prems"(1) refl] show ?case
  proof
    assume "\<exists>m. i < m \<and> rx_rel a s i m \<and> rx_rel (RStar a) s m j"
    then obtain m where m: "i < m" "rx_rel a s i m" "rx_rel (RStar a) s m j" by blast
    then have "m \<le> length s" using "5.prems"(2) rx_rel_bounds by blast
    moreover from m "5.IH"(1) "5.prems"(2) have "m \<in> set (rx_ends a s i)" by blast
    ultimately show ?case using m "5.IH"(2) by (subst rx_ends_star_iff) blast
  qed (subst rx_ends_star_iff, simp)
qed (auto simp: rx_rel_simps)

lemma rx_ends_iff: "i \<le> length s \<Longrightarrow> j \<in> set (rx_ends r s i) \<longleftrightarrow> rx_rel r s i j"
  using rx_ends_sound rx_ends_complete by blast

lemma rx_ends_bounds: "j \<in> set (rx_ends r s i) \<Longrightarrow> i \<le> j \<and> (i \<le> length s \<longrightarrow> j \<le> length s)"
  using rx_ends_sound rx_rel_bounds by blast

section \<open>The module's functions\<close>

text \<open>\<open>re.search\<close>: the leftmost position that has a match, and the first match there.\<close>

fun rx_search_from :: "rx \<Rightarrow> string \<Rightarrow> nat list \<Rightarrow> (nat \<times> nat) option" where
  "rx_search_from r s [] = None"
| "rx_search_from r s (i # is) =
     (case rx_ends r s i of [] \<Rightarrow> rx_search_from r s is | j # _ \<Rightarrow> Some (i, j))"

definition rx_search :: "rx \<Rightarrow> string \<Rightarrow> (nat \<times> nat) option" where
  "rx_search r s = rx_search_from r s [0..<Suc (length s)]"

text \<open>The text of a match, \<open>m.group(0)\<close>.\<close>

definition slice :: "nat \<Rightarrow> nat \<Rightarrow> 'a list \<Rightarrow> 'a list" where
  "slice i j s = take (j - i) (drop i s)"

definition rx_group0 :: "rx \<Rightarrow> string \<Rightarrow> string option" where
  "rx_group0 r s = map_option (\<lambda>(i, j). slice i j s) (rx_search r s)"

definition rx_fullmatch :: "rx \<Rightarrow> string \<Rightarrow> bool" where
  "rx_fullmatch r s = list_ex (\<lambda>j. j = length s) (rx_ends r s 0)"

lemma rx_search_from_Some:
  "rx_search_from r s is = Some (i, j) \<Longrightarrow> i \<in> set is \<and> j \<in> set (rx_ends r s i)"
  by (induction "is") (auto split: list.splits)

lemma rx_search_from_None:
  "rx_search_from r s is = None \<longleftrightarrow> (\<forall>i \<in> set is. rx_ends r s i = [])"
  by (induction "is") (auto split: list.splits)

lemma rx_search_Some:
  "rx_search r s = Some (i, j) \<Longrightarrow> i \<le> j \<and> j \<le> length s \<and> rx_rel r s i j"
  unfolding rx_search_def
  by (drule rx_search_from_Some)
     (auto dest: rx_ends_sound rx_rel_bounds simp: less_Suc_eq_le simp del: upt_Suc)

lemma rx_search_None: "rx_search r s = None \<longleftrightarrow> (\<forall>i \<le> length s. \<forall>j. \<not> rx_rel r s i j)"
proof -
  have "rx_ends r s i = [] \<longleftrightarrow> (\<forall>j. \<not> rx_rel r s i j)" if "i \<le> length s" for i
    using rx_ends_iff [OF that, of _ r] by (cases "rx_ends r s i") auto
  then show ?thesis
    by (simp add: rx_search_def rx_search_from_None Ball_def less_Suc_eq_le del: upt_Suc)
qed

lemma rx_fullmatch_iff: "rx_fullmatch r s \<longleftrightarrow> rx_rel r s 0 (length s)"
  by (auto simp: rx_fullmatch_def list_ex_iff rx_ends_iff)

section \<open>Patterns\<close>

text \<open>\<open>rx_list\<close> is a sequence, \<open>rx_opt\<close>, \<open>rx_plus\<close> and \<open>rx_times\<close> are \<open>?\<close>, \<open>+\<close>
  and \<open>{n}\<close>, \<open>rx_word\<close> a literal.\<close>

fun rx_list :: "rx list \<Rightarrow> rx" where
  "rx_list [] = REps"
| "rx_list [r] = r"
| "rx_list (r # rs) = RSeq r (rx_list rs)"

fun rx_any :: "rx list \<Rightarrow> rx" where
  "rx_any [] = RCls (\<lambda>_. False)"
| "rx_any [r] = r"
| "rx_any (r # rs) = RAlt r (rx_any rs)"

definition rx_char :: "char \<Rightarrow> rx" where
  "rx_char c = RCls (\<lambda>d. d = c)"

definition rx_word :: "string \<Rightarrow> rx" where
  "rx_word w = rx_list (map rx_char w)"

definition rx_opt :: "rx \<Rightarrow> rx" where
  "rx_opt r = RAlt r REps"

definition rx_plus :: "rx \<Rightarrow> rx" where
  "rx_plus r = RSeq r (RStar r)"

definition rx_times :: "nat \<Rightarrow> rx \<Rightarrow> rx" where
  "rx_times n r = rx_list (replicate n r)"

lemma rx_times_0 [simp]: "rx_rel (rx_times 0 r) s i j \<longleftrightarrow> j = i"
  by (auto simp: rx_times_def rx_rel_simps)

lemma rx_list_Cons: "rx_rel (rx_list (r # rs)) s i k \<longleftrightarrow>
    (\<exists>j. rx_rel r s i j \<and> rx_rel (rx_list rs) s j k)"
  by (cases rs) (auto simp: rx_rel_simps)

lemma rx_times_Suc: "rx_rel (rx_times (Suc n) r) s i k \<longleftrightarrow>
    (\<exists>j. rx_rel r s i j \<and> rx_rel (rx_times n r) s j k)"
  by (simp add: rx_times_def rx_list_Cons)

text \<open>A repeated class matches exactly the runs of its characters.\<close>

lemma rx_times_cls:
  "rx_rel (rx_times n (RCls p)) s i j \<longleftrightarrow>
     j = i + n \<and> (n = 0 \<or> i + n \<le> length s) \<and> (\<forall>k < n. p (s ! (i + k)))"
proof (induction n arbitrary: i)
  case (Suc n)
  have "(\<forall>k < Suc n. p (s ! (i + k))) \<longleftrightarrow> p (s ! i) \<and> (\<forall>k < n. p (s ! (Suc i + k)))"
    by (auto simp: less_Suc_eq_0_disj)
  then show ?case
    by (auto simp: rx_times_Suc rx_rel_simps Suc)
qed simp

text \<open>\<open>re.sub(class+, ' ', s)\<close>: each maximal run of the class becomes one space.\<close>

fun collapse_runs :: "(char \<Rightarrow> bool) \<Rightarrow> bool \<Rightarrow> string \<Rightarrow> string" where
  "collapse_runs p inside [] = []"
| "collapse_runs p inside (c # s) =
     (if p c then (if inside then collapse_runs p True s else CHR '' '' # collapse_runs p True s)
      else c # collapse_runs p False s)"

definition collapse_ws :: "string \<Rightarrow> string" where
  "collapse_ws s = collapse_runs py_space False s"

lemmas rx_pattern_defs = rx_char_def rx_word_def rx_opt_def rx_plus_def rx_times_def

lemmas rx_eval = rx_pattern_defs word_at_def at_bound_def at_end_def rx_search_def slice_def
  rx_group0_def rx_fullmatch_def

end
