(* ===== verification/Sql_Table.thy ===== *)
theory Sql_Table
  imports Py_Prelude
begin

text \<open>
  Tables as lists of rows, for the \<open>models/\<close> modules: inserts that a uniqueness constraint
  may refuse, deletes by a filter, and \<open>ORDER BY ... DESC\<close>. A refused insert is the value
  \<open>Inl IntegrityError\<close>, and the transaction it belongs to leaves no trace. Rows that SQL
  leaves unordered are in table order.
\<close>

definition unique_on :: "('row \<Rightarrow> 'k) \<Rightarrow> 'row list \<Rightarrow> bool" where
  "unique_on key rows = distinct (map key rows)"

definition ins_unique :: "('row \<Rightarrow> 'k) \<Rightarrow> 'row list \<Rightarrow> 'row \<Rightarrow> 'row list result" where
  "ins_unique key rows r =
     (if key r \<in> key ` set rows then Inl IntegrityError else Inr (rows @ [r]))"

definition ins_all :: "('row \<Rightarrow> 'k) \<Rightarrow> 'row list \<Rightarrow> 'row list \<Rightarrow> 'row list result" where
  "ins_all key rows rs = foldR (ins_unique key) rows rs"

definition order_desc :: "('row \<Rightarrow> int) \<Rightarrow> 'row list \<Rightarrow> 'row list" where
  "order_desc f rows = sort_key (\<lambda>r. - f r) rows"

lemma set_order_desc [simp]: "set (order_desc f rows) = set rows"
  by (simp add: order_desc_def)

lemma unique_on_append: "unique_on key (xs @ ys) \<longleftrightarrow>
    unique_on key xs \<and> unique_on key ys \<and> key ` set xs \<inter> key ` set ys = {}"
  by (simp add: unique_on_def)

lemma unique_on_filter [inv_intros]: "unique_on key rows \<Longrightarrow> unique_on key (filter P rows)"
  by (simp add: unique_on_def distinct_map_filter)

lemma unique_on_inj: "unique_on key rows \<Longrightarrow> inj_on key (set rows)"
  by (simp add: unique_on_def distinct_map)

text \<open>A batch of inserts succeeds exactly when no key repeats, and then appends the rows.\<close>

lemma ins_all_cases:
  "ins_all key rows rs =
     (if distinct (map key rs) \<and> key ` set rs \<inter> key ` set rows = {}
      then Inr (rows @ rs) else Inl IntegrityError)"
proof (induction rs arbitrary: rows)
  case (Cons r rs)
  have "ins_all key rows (r # rs) = bindR (ins_unique key rows r) (\<lambda>t. ins_all key t rs)"
    by (simp add: ins_all_def)
  then show ?case
    using Cons [of "rows @ [r]"] by (auto simp: ins_unique_def)
qed (simp add: ins_all_def)

lemma ins_all_unique [inv_intros]:
  "ins_all key rows rs = Inr rows' \<Longrightarrow> unique_on key rows \<Longrightarrow> unique_on key rows'"
proof -
  assume a: "ins_all key rows rs = Inr rows'" "unique_on key rows"
  then have "rows' = rows @ rs" "distinct (map key rs)" "key ` set rows \<inter> key ` set rs = {}"
    by (auto simp: ins_all_cases Int_commute split: if_splits)
  with a(2) show ?thesis by (simp add: unique_on_append) (simp add: unique_on_def)
qed

lemma ins_unique_unique [inv_intros]:
  "ins_unique key rows r = Inr rows' \<Longrightarrow> unique_on key rows \<Longrightarrow> unique_on key rows'"
  by (auto simp: ins_unique_def unique_on_def split: if_splits)

text \<open>\<open>LIKE\<close> patterns: \<open>%\<close> is any text, \<open>_\<close> any character; \<open>ILIKE\<close> ignores case.\<close>

fun sql_like :: "string \<Rightarrow> string \<Rightarrow> bool" where
  "sql_like [] s = (s = [])"
| "sql_like (p # ps) s =
     (if p = CHR ''%'' then sql_like ps s \<or> (case s of [] \<Rightarrow> False | _ # s' \<Rightarrow> sql_like (p # ps) s')
      else (case s of [] \<Rightarrow> False | c # s' \<Rightarrow> (p = CHR ''_'' \<or> p = c) \<and> sql_like ps s'))"

definition sql_ilike :: "string \<Rightarrow> string \<Rightarrow> bool" where
  "sql_ilike s pat = sql_like (str_lower pat) (str_lower s)"

end
