(* ===== verification/User_Groups.thy ===== *)
theory User_Groups
  imports Sql_Table
begin

text \<open>
  The groups of users, \<open>models/groups.py\<close>: the two tables as the state \<open>groups_db\<close>, one
  definition per operation of \<open>GroupTable\<close>. The clock (\<open>now\<close>) and the fresh identifiers
  (\<open>uuid\<close>) are arguments. \<open>group_member\<close> has the uniqueness constraint
  \<open>uq_group_member_group_user\<close> of its migration.
\<close>

section \<open>Tables and forms\<close>

record group_row =
  g_id :: string
  g_user_id :: string
  g_name :: string
  g_description :: string
  g_data :: py
  g_meta :: py
  g_permissions :: py
  g_created_at :: int
  g_updated_at :: int

record member_row =
  gm_id :: string
  gm_group_id :: string
  gm_user_id :: string
  gm_created_at :: int
  gm_updated_at :: int

record groups_db =
  group_rows :: "group_row list"
  member_rows :: "member_row list"

record group_form =
  gf_name :: string
  gf_description :: string
  gf_permissions :: "pydict option"
  gf_data :: "pydict option"

definition member_key :: "member_row \<Rightarrow> string \<times> string" where
  "member_key m = (gm_group_id m, gm_user_id m)"

definition wf_groups :: "groups_db \<Rightarrow> bool" where
  "wf_groups D = (unique_on g_id (group_rows D) \<and> unique_on member_key (member_rows D))"

text \<open>The users of a group and the groups of a user, as the membership table relates them.\<close>

definition in_group :: "groups_db \<Rightarrow> string \<Rightarrow> string \<Rightarrow> bool" where
  "in_group D uid gid = (\<exists>m \<in> set (member_rows D). gm_group_id m = gid \<and> gm_user_id m = uid)"

section \<open>Creating groups\<close>

definition ensure_default_share_config :: "py \<Rightarrow> py \<Rightarrow> py result" where
  "ensure_default_share_config default_share group_data =
     bindR (py_in ''data'' group_data) (\<lambda>has_data.
     bindR (py_get group_data ''data'') (\<lambda>d.
     let d1 = (if \<not> has_data \<or> d = PNone then PDict [] else d) in
     bindR (py_in ''config'' d1) (\<lambda>has_config.
     bindR (if has_config then Inr d1 else py_setitem d1 ''config'' (PDict [])) (\<lambda>d2.
     bindR (py_item d2 ''config'') (\<lambda>cfg.
     bindR (py_in ''share'' cfg) (\<lambda>has_share.
     bindR (if has_share then Inr cfg else py_setitem cfg ''share'' default_share) (\<lambda>cfg'.
     bindR (py_setitem d2 ''config'' cfg') (\<lambda>d3.
     py_setitem group_data ''data'' d3))))))))"

text \<open>\<open>form_data.model_dump(exclude_none=True)\<close>.\<close>

definition group_form_dump :: "group_form \<Rightarrow> pydict" where
  "group_form_dump f =
     [(''name'', PStr (gf_name f)), (''description'', PStr (gf_description f))]
     @ (case gf_permissions f of None \<Rightarrow> [] | Some p \<Rightarrow> [(''permissions'', PDict p)])
     @ (case gf_data f of None \<Rightarrow> [] | Some d \<Rightarrow> [(''data'', PDict d)])"

definition insert_group_row :: "groups_db \<Rightarrow> group_row \<Rightarrow> group_row option \<times> groups_db" where
  "insert_group_row D g =
     (case ins_unique g_id (group_rows D) g of
        Inl _ \<Rightarrow> (None, D)
      | Inr rows \<Rightarrow> (Some g, D\<lparr>group_rows := rows\<rparr>))"

definition insert_new_group ::
  "py \<Rightarrow> int \<Rightarrow> string \<Rightarrow> string \<Rightarrow> group_form \<Rightarrow> groups_db \<Rightarrow> (group_row option \<times> groups_db) result" where
  "insert_new_group default_share now uuid user_id form D =
     bindR (ensure_default_share_config default_share (PDict (group_form_dump form))) (\<lambda>gd.
     bindR (py_get gd ''data'') (\<lambda>data.
     Inr (insert_group_row D \<lparr>g_id = uuid, g_user_id = user_id, g_name = gf_name form,
       g_description = gf_description form, g_data = data, g_meta = PNone,
       g_permissions = (case gf_permissions form of None \<Rightarrow> PNone | Some p \<Rightarrow> PDict p),
       g_created_at = now, g_updated_at = now\<rparr>)))"

definition create_group_by_name ::
  "py \<Rightarrow> int \<Rightarrow> string \<Rightarrow> string \<Rightarrow> string \<Rightarrow> groups_db \<Rightarrow> group_row option \<times> groups_db" where
  "create_group_by_name default_share now uuid user_id group_name D =
     insert_group_row D \<lparr>g_id = uuid, g_user_id = user_id, g_name = group_name,
       g_description = [], g_data = PDict [(''config'', PDict [(''share'', default_share)])],
       g_meta = PNone, g_permissions = PNone, g_created_at = now, g_updated_at = now\<rparr>"

text \<open>The names that exist are read once, before the loop.\<close>

definition create_groups_by_group_names ::
  "py \<Rightarrow> int \<Rightarrow> string \<Rightarrow> (string \<times> string) list \<Rightarrow> groups_db \<Rightarrow> group_row list \<times> groups_db" where
  "create_groups_by_group_names default_share now user_id names_uuids D =
     (let existing = map g_name (group_rows D) in
      foldl (\<lambda>(new, D') (name, uuid).
          if name \<in> set existing then (new, D')
          else (case create_group_by_name default_share now uuid user_id name D' of
                  (None, D'') \<Rightarrow> (new, D'')
                | (Some g, D'') \<Rightarrow> (new @ [g], D'')))
        ([], D) names_uuids)"

section \<open>Reading\<close>

definition get_all_groups :: "groups_db \<Rightarrow> group_row list" where
  "get_all_groups D = order_desc g_updated_at (group_rows D)"

definition get_group_by_name :: "string \<Rightarrow> groups_db \<Rightarrow> group_row option" where
  "get_group_by_name name D = find (\<lambda>g. g_name g = name) (group_rows D)"

definition get_group_by_id :: "string \<Rightarrow> groups_db \<Rightarrow> group_row option" where
  "get_group_by_id i D = find (\<lambda>g. g_id g = i) (group_rows D)"

text \<open>The join of groups and members gives a group once per matching membership.\<close>

definition join_members :: "(member_row \<Rightarrow> bool) \<Rightarrow> groups_db \<Rightarrow> (member_row \<times> group_row) list" where
  "join_members P D = [(m, g). g \<leftarrow> group_rows D, m \<leftarrow> member_rows D, gm_group_id m = g_id g \<and> P m]"

definition get_groups_by_member_id :: "string \<Rightarrow> groups_db \<Rightarrow> group_row list" where
  "get_groups_by_member_id user_id D =
     order_desc g_updated_at (map snd (join_members (\<lambda>m. gm_user_id m = user_id) D))"

definition get_groups_by_member_ids ::
  "string list \<Rightarrow> groups_db \<Rightarrow> (string \<times> group_row list) list" where
  "get_groups_by_member_ids user_ids D =
     (let rows = order_desc (\<lambda>(m, g). g_updated_at g)
                   (join_members (\<lambda>m. gm_user_id m \<in> set user_ids) D) in
      foldl (\<lambda>acc (m, g). dset (gm_user_id m) (the (dget acc (gm_user_id m)) @ [g]) acc)
        (foldl (\<lambda>acc uid. dset uid [] acc) [] user_ids) rows)"

definition get_group_user_ids_by_id :: "string \<Rightarrow> groups_db \<Rightarrow> string list" where
  "get_group_user_ids_by_id i D =
     map gm_user_id (filter (\<lambda>m. gm_group_id m = i) (member_rows D))"

definition get_group_user_ids_by_ids ::
  "string list \<Rightarrow> groups_db \<Rightarrow> (string \<times> string list) list" where
  "get_group_user_ids_by_ids group_ids D =
     foldl (\<lambda>acc m. dset (gm_group_id m) (the (dget acc (gm_group_id m)) @ [gm_user_id m]) acc)
       (foldl (\<lambda>acc gid. dset gid [] acc) [] group_ids)
       (filter (\<lambda>m. gm_group_id m \<in> set group_ids) (member_rows D))"

definition get_group_member_count_by_id :: "string \<Rightarrow> groups_db \<Rightarrow> nat" where
  "get_group_member_count_by_id i D =
     length (filter (\<lambda>m. gm_group_id m = i) (member_rows D))"

text \<open>\<open>GROUP BY\<close> gives no row to a group without members.\<close>

definition get_group_member_counts_by_ids :: "string list \<Rightarrow> groups_db \<Rightarrow> (string \<times> nat) list" where
  "get_group_member_counts_by_ids ids D =
     (if ids = [] then []
      else map (\<lambda>gid. (gid, get_group_member_count_by_id gid D))
        (remdups (map gm_group_id (filter (\<lambda>m. gm_group_id m \<in> set ids) (member_rows D)))))"

section \<open>Listing and searching\<close>

record group_filter =
  flt_query :: "string option"
  flt_share :: "py option"
  flt_member_id :: "string option"

definition empty_filter :: "group_filter \<Rightarrow> bool" where
  "empty_filter f = (flt_query f = None \<and> flt_share f = None \<and> flt_member_id f = None)"

text \<open>
  \<open>Group.data['config']['share'].as_string()\<close>: how a JSON value reads as text depends on
  the database (a boolean is \<open>true\<close> on PostgreSQL, \<open>1\<close> on SQLite), so it is a parameter.
\<close>

definition json_share :: "(py \<Rightarrow> string option) \<Rightarrow> group_row \<Rightarrow> string option" where
  "json_share as_string g =
     (case g_data g of
        PDict d \<Rightarrow> (case dget d ''config'' of
            Some (PDict c) \<Rightarrow> Option.bind (dget c ''share'') as_string
          | _ \<Rightarrow> None)
      | _ \<Rightarrow> None)"

definition share_matches ::
  "(py \<Rightarrow> string option) \<Rightarrow> groups_db \<Rightarrow> py \<Rightarrow> string option \<Rightarrow> group_row \<Rightarrow> bool" where
  "share_matches as_string D share_value member_id g =
     (let share = json_share as_string g;
          anyone_can_share = (g_data g = PNone \<or> share = None
            \<or> map_option str_lower share = Some ''true'' \<or> map_option str_lower share = Some ''1'');
          is_member = (\<lambda>uid. \<exists>m \<in> set (member_rows D). gm_user_id m = uid \<and> gm_group_id m = g_id g)
      in if truthy share_value then
           (case member_id of
              Some (c # uid) \<Rightarrow> anyone_can_share
                \<or> (map_option str_lower share = Some ''members'' \<and> is_member (c # uid))
            | _ \<Rightarrow> anyone_can_share)
         else g_data g \<noteq> PNone \<and> map_option str_lower share = Some ''false'')"

definition get_groups ::
  "(py \<Rightarrow> string option) \<Rightarrow> group_filter \<Rightarrow> groups_db \<Rightarrow> (group_row \<times> nat) list" where
  "get_groups as_string f D =
     map (\<lambda>g. (g, get_group_member_count_by_id (g_id g) D))
       (order_desc g_updated_at (filter (\<lambda>g.
          (case flt_query f of None \<Rightarrow> True | Some q \<Rightarrow> sql_ilike (g_name g) (''%'' @ q @ ''%'')) \<and>
          (case flt_share f of
             Some sv \<Rightarrow> share_matches as_string D sv (flt_member_id f) g
           | None \<Rightarrow> (case flt_member_id f of
               None \<Rightarrow> True
             | Some uid \<Rightarrow> \<exists>m \<in> set (member_rows D). gm_user_id m = uid \<and> gm_group_id m = g_id g)))
        (group_rows D)))"

text \<open>\<open>search_groups\<close> looks for \<open>share\<close> at the top of the data, and pages the result.\<close>

definition search_groups ::
  "(py \<Rightarrow> string option) \<Rightarrow> (py \<Rightarrow> string) \<Rightarrow> group_filter \<Rightarrow> nat \<Rightarrow> nat \<Rightarrow> groups_db \<Rightarrow> (group_row \<times> nat) list \<times> nat" where
  "search_groups as_string str f skip limit D =
     (let hits = filter (\<lambda>g.
          (case flt_query f of None \<Rightarrow> True | Some q \<Rightarrow> sql_ilike (g_name g) (''%'' @ q @ ''%'')) \<and>
          (case flt_member_id f of
             None \<Rightarrow> True
           | Some uid \<Rightarrow> \<exists>m \<in> set (member_rows D). gm_user_id m = uid \<and> gm_group_id m = g_id g) \<and>
          (case flt_share f of
             None \<Rightarrow> True
           | Some sv \<Rightarrow> (case g_data g of
               PDict d \<Rightarrow> Option.bind (dget d ''share'') as_string = Some (str sv)
             | _ \<Rightarrow> False)))
        (group_rows D);
          page = take limit (drop skip (order_desc g_updated_at
            (filter (\<lambda>g. g_id g \<in> g_id ` set hits) (group_rows D))))
      in (map (\<lambda>g. (g, get_group_member_count_by_id (g_id g) D)) page, length hits))"

section \<open>Changing memberships\<close>

definition delete_members :: "(member_row \<Rightarrow> bool) \<Rightarrow> groups_db \<Rightarrow> groups_db" where
  "delete_members P D = D\<lparr>member_rows := filter (\<lambda>m. \<not> P m) (member_rows D)\<rparr>"

definition touch_groups :: "(group_row \<Rightarrow> bool) \<Rightarrow> int \<Rightarrow> groups_db \<Rightarrow> groups_db" where
  "touch_groups P now D =
     D\<lparr>group_rows := map (\<lambda>g. if P g then g\<lparr>g_updated_at := now\<rparr> else g) (group_rows D)\<rparr>"

definition mk_member :: "int \<Rightarrow> string \<Rightarrow> string \<Rightarrow> string \<Rightarrow> member_row" where
  "mk_member now uuid gid uid = \<lparr>gm_id = uuid, gm_group_id = gid, gm_user_id = uid,
     gm_created_at = now, gm_updated_at = now\<rparr>"

text \<open>Replace the members of a group. A repeated user breaks the constraint at the commit.\<close>

definition set_group_user_ids_by_id ::
  "int \<Rightarrow> string \<Rightarrow> (string \<times> string) list \<Rightarrow> groups_db \<Rightarrow> groups_db result" where
  "set_group_user_ids_by_id now group_id users_uuids D =
     (let D1 = delete_members (\<lambda>m. gm_group_id m = group_id) D in
      mapR (\<lambda>rows. D1\<lparr>member_rows := rows\<rparr>)
        (ins_all member_key (member_rows D1)
          (map (\<lambda>(uid, uuid). mk_member now uuid group_id uid) users_uuids)))"

definition update_group_by_id ::
  "int \<Rightarrow> string \<Rightarrow> group_form \<Rightarrow> groups_db \<Rightarrow> group_row option \<times> groups_db" where
  "update_group_by_id now i form D =
     (let D' = D\<lparr>group_rows := map (\<lambda>g. if g_id g = i then
            g\<lparr>g_name := gf_name form, g_description := gf_description form,
              g_permissions := (case gf_permissions form of None \<Rightarrow> g_permissions g | Some p \<Rightarrow> PDict p),
              g_data := (case gf_data form of None \<Rightarrow> g_data g | Some d \<Rightarrow> PDict d),
              g_updated_at := now\<rparr> else g) (group_rows D)\<rparr>
      in (get_group_by_id i D', D'))"

text \<open>Deleting a group deletes its memberships where the database enforces the cascade.\<close>

definition delete_group_by_id :: "bool \<Rightarrow> string \<Rightarrow> groups_db \<Rightarrow> bool \<times> groups_db" where
  "delete_group_by_id cascade i D =
     (let D1 = D\<lparr>group_rows := filter (\<lambda>g. g_id g \<noteq> i) (group_rows D)\<rparr>
      in (True, if cascade then delete_members (\<lambda>m. gm_group_id m = i) D1 else D1))"

definition delete_all_groups :: "bool \<Rightarrow> groups_db \<Rightarrow> bool \<times> groups_db" where
  "delete_all_groups cascade D =
     (let gone = g_id ` set (group_rows D); D1 = D\<lparr>group_rows := []\<rparr>
      in (True, if cascade then delete_members (\<lambda>m. gm_group_id m \<in> gone) D1 else D1))"

definition remove_user_from_all_groups :: "int \<Rightarrow> string \<Rightarrow> groups_db \<Rightarrow> bool \<times> groups_db" where
  "remove_user_from_all_groups now user_id D =
     (True, foldl (\<lambda>D' (m, g).
         touch_groups (\<lambda>h. g_id h = g_id g) now
           (delete_members (\<lambda>x. gm_group_id x = g_id g \<and> gm_user_id x = user_id) D'))
       D (join_members (\<lambda>m. gm_user_id m = user_id) D))"

definition sync_groups_by_group_names ::
  "int \<Rightarrow> (string \<Rightarrow> string) \<Rightarrow> string \<Rightarrow> string list \<Rightarrow> groups_db \<Rightarrow> bool \<times> groups_db" where
  "sync_groups_by_group_names now uuid user_id group_names D =
     (let target = map g_id (filter (\<lambda>g. g_name g \<in> set group_names) (group_rows D));
          existing = map (g_id \<circ> snd) (join_members (\<lambda>m. gm_user_id m = user_id) D);
          add = remdups (filter (\<lambda>i. i \<notin> set existing) target);
          remove = remdups (filter (\<lambda>i. i \<notin> set target) existing);
          D1 = (if remove = [] then D
                else touch_groups (\<lambda>g. g_id g \<in> set remove) now
                  (delete_members (\<lambda>m. gm_user_id m = user_id \<and> gm_group_id m \<in> set remove) D));
          D2 = (if add = [] then D1 else touch_groups (\<lambda>g. g_id g \<in> set add) now D1)
      in (case ins_all member_key (member_rows D1)
              (map (\<lambda>i. mk_member now (uuid i) i user_id) add) of
            Inl _ \<Rightarrow> (False, D)
          | Inr rows \<Rightarrow> (True, D2\<lparr>member_rows := rows\<rparr>)))"

text \<open>
  Adding users: each insert is flushed, and one that the constraint refuses rolls back the
  whole transaction, with the inserts flushed before it.
\<close>

definition add_users_to_group ::
  "int \<Rightarrow> string \<Rightarrow> (string \<times> string) list \<Rightarrow> groups_db \<Rightarrow> group_row option \<times> groups_db" where
  "add_users_to_group now i users_uuids D =
     (case get_group_by_id i D of
        None \<Rightarrow> (None, D)
      | Some g \<Rightarrow>
          (let rows = foldl (\<lambda>rows (uid, uuid).
                 case ins_unique member_key rows (mk_member now uuid i uid) of
                   Inl _ \<Rightarrow> member_rows D
                 | Inr rows' \<Rightarrow> rows') (member_rows D) users_uuids;
               D' = touch_groups (\<lambda>h. g_id h = i) now (D\<lparr>member_rows := rows\<rparr>)
           in (get_group_by_id i D', D')))"

definition remove_users_from_group ::
  "int \<Rightarrow> string \<Rightarrow> string list \<Rightarrow> groups_db \<Rightarrow> group_row option \<times> groups_db" where
  "remove_users_from_group now i user_ids D =
     (case get_group_by_id i D of
        None \<Rightarrow> (None, D)
      | Some g \<Rightarrow>
          if user_ids = [] then (Some g, D)
          else (let D' = touch_groups (\<lambda>h. g_id h = i) now
                  (delete_members (\<lambda>m. gm_group_id m = i \<and> gm_user_id m \<in> set user_ids) D)
                in (get_group_by_id i D', D')))"

text \<open>\<open>utils/groups.py\<close>: the default group of a new user.\<close>

definition apply_default_group_assignment ::
  "int \<Rightarrow> string \<Rightarrow> string \<Rightarrow> string \<Rightarrow> groups_db \<Rightarrow> groups_db" where
  "apply_default_group_assignment now uuid default_group_id user_id D =
     (if default_group_id = [] then D
      else snd (add_users_to_group now default_group_id [(user_id, uuid)] D))"


section \<open>Invariant\<close>

lemma unique_on_map_same:
  "(\<And>x. x \<in> set rows \<Longrightarrow> key (f x) = key x) \<Longrightarrow> unique_on key (map f rows) = unique_on key rows"
  unfolding unique_on_def map_map by (simp cong: map_cong)

lemma wf_delete_members [inv_intros]: "wf_groups D \<Longrightarrow> wf_groups (delete_members P D)"
  by (simp add: wf_groups_def delete_members_def unique_on_filter)

lemma wf_touch_groups [inv_intros]: "wf_groups D \<Longrightarrow> wf_groups (touch_groups P now D)"
  by (simp add: wf_groups_def touch_groups_def unique_on_map_same)

lemma wf_insert_group_row [inv_intros]: "wf_groups D \<Longrightarrow> wf_groups (snd (insert_group_row D g))"
  by (auto simp: insert_group_row_def wf_groups_def intro: ins_unique_unique split: sum.splits)

lemma wf_insert_new_group [inv_intros]:
  "insert_new_group ds now uuid uid form D = Inr (r, D') \<Longrightarrow> wf_groups D \<Longrightarrow> wf_groups D'"
  by (auto simp: insert_new_group_def dest: arg_cong [where f = snd] intro: inv_intros)
     (metis snd_conv wf_insert_group_row)

lemma wf_create_groups [inv_intros]:
  assumes "wf_groups D"
  shows "wf_groups (snd (create_groups_by_group_names ds now uid nus D))"
proof -
  have "wf_groups (snd (foldl (\<lambda>(new, D') (name, uuid).
          if name \<in> A then (new, D')
          else (case create_group_by_name ds now uuid uid name D' of
                  (None, D'') \<Rightarrow> (new, D'')
                | (Some g, D'') \<Rightarrow> (new @ [g], D''))) (new, D) nus))" for A new
    using assms
  proof (induction nus arbitrary: new D)
    case (Cons nu nus)
    obtain name uuid where nu: "nu = (name, uuid)" by (cases nu)
    have "wf_groups (snd (create_group_by_name ds now uuid uid name D))"
      using Cons.prems by (simp add: create_group_by_name_def wf_insert_group_row)
    then show ?case
      using Cons nu by (auto split: prod.splits option.splits)
  qed simp
  then show ?thesis by (simp add: create_groups_by_group_names_def Let_def)
qed

lemma wf_set_group_user_ids [inv_intros]:
  "set_group_user_ids_by_id now gid us D = Inr D' \<Longrightarrow> wf_groups D \<Longrightarrow> wf_groups D'"
  by (auto simp: set_group_user_ids_by_id_def Let_def)
     (auto simp: wf_groups_def delete_members_def intro: ins_all_unique unique_on_filter)

lemma wf_update_group [inv_intros]: "wf_groups D \<Longrightarrow> wf_groups (snd (update_group_by_id now i form D))"
  by (simp add: wf_groups_def update_group_by_id_def Let_def unique_on_map_same)

lemma wf_delete_group [inv_intros]:
  "wf_groups D \<Longrightarrow> wf_groups (snd (delete_group_by_id cascade i D))"
  "wf_groups D \<Longrightarrow> wf_groups (snd (delete_all_groups cascade D))"
  by (simp_all add: wf_groups_def delete_group_by_id_def delete_all_groups_def delete_members_def
      Let_def unique_on_filter) (simp add: unique_on_def)

lemma wf_remove_user [inv_intros]:
  assumes "wf_groups D"
  shows "wf_groups (snd (remove_user_from_all_groups now uid D))"
proof -
  have "wf_groups (foldl (\<lambda>D' (m, g). touch_groups (\<lambda>h. g_id h = g_id g) now
      (delete_members (\<lambda>x. gm_group_id x = g_id g \<and> gm_user_id x = uid) D')) D ps)"
    for ps :: "(member_row \<times> group_row) list"
    using assms by (rule foldl_invariant) (auto intro: inv_intros)
  then show ?thesis by (simp add: remove_user_from_all_groups_def)
qed

lemma wf_add_users [inv_intros]:
  assumes "wf_groups D"
  shows "wf_groups (snd (add_users_to_group now i us D))"
proof -
  have "unique_on member_key (foldl (\<lambda>rows (uid, uuid).
      case ins_unique member_key rows (mk_member now uuid i uid) of
        Inl _ \<Rightarrow> member_rows D | Inr rows' \<Rightarrow> rows') rows us)"
    if "unique_on member_key rows" for rows
    using that
    by (rule foldl_invariant)
       (use assms in \<open>auto simp: wf_groups_def intro: ins_unique_unique split: sum.splits\<close>)
  with assms show ?thesis
    by (auto simp: add_users_to_group_def wf_groups_def touch_groups_def unique_on_map_same Let_def
        split: option.splits)
qed

lemma wf_remove_users [inv_intros]:
  "wf_groups D \<Longrightarrow> wf_groups (snd (remove_users_from_group now i us D))"
  by (auto simp: remove_users_from_group_def Let_def intro: inv_intros split: option.splits)

lemma wf_sync [inv_intros]:
  assumes "wf_groups D"
  shows "wf_groups (snd (sync_groups_by_group_names now uuid uid names D))"
proof -
  have step: "wf_groups (snd (case ins_all member_key (member_rows E) new of
      Inl _ \<Rightarrow> (False, D) | Inr rows \<Rightarrow> (True, F\<lparr>member_rows := rows\<rparr>)))"
    if "wf_groups E" "wf_groups F" for E F new
    using that assms by (auto simp: wf_groups_def split: sum.splits dest: ins_all_unique)
  show ?thesis
    unfolding sync_groups_by_group_names_def Let_def
    by (rule step) (auto intro: wf_touch_groups wf_delete_members assms)
qed

text \<open>One step of the component: any of its operations, with any arguments.\<close>

inductive groups_step :: "groups_db \<Rightarrow> groups_db \<Rightarrow> bool" where
  insert: "insert_new_group ds now uuid uid form D = Inr (r, D') \<Longrightarrow> groups_step D D'"
| create: "groups_step D (snd (create_groups_by_group_names ds now uid nus D))"
| set_users: "set_group_user_ids_by_id now gid us D = Inr D' \<Longrightarrow> groups_step D D'"
| update: "groups_step D (snd (update_group_by_id now i form D))"
| delete: "groups_step D (snd (delete_group_by_id cascade i D))"
| delete_all: "groups_step D (snd (delete_all_groups cascade D))"
| remove_user: "groups_step D (snd (remove_user_from_all_groups now uid D))"
| sync: "groups_step D (snd (sync_groups_by_group_names now uuids uid names D))"
| add_users: "groups_step D (snd (add_users_to_group now i us D))"
| remove_users: "groups_step D (snd (remove_users_from_group now i ids D))"

inductive groups_reachable :: "groups_db \<Rightarrow> bool" where
  start: "groups_reachable \<lparr>group_rows = [], member_rows = []\<rparr>"
| step: "groups_reachable D \<Longrightarrow> groups_step D D' \<Longrightarrow> groups_reachable D'"

lemma groups_step_wf: "groups_step D D' \<Longrightarrow> wf_groups D \<Longrightarrow> wf_groups D'"
  by (induction rule: groups_step.induct) (auto intro: inv_intros)

section \<open>Properties\<close>

text \<open>in every state that the operations can reach, group ids are unique and a user is a
  member of a group at most once.\<close>

theorem groups_reachable_wf:
  assumes "groups_reachable D"
  shows "wf_groups D"
  using assms
proof induction
  case start
  show ?case by (simp add: wf_groups_def unique_on_def)
next
  case (step D D')
  then show ?case by (blast intro: groups_step_wf)
qed

theorem groups_reachable_wf_witness:
  "wf_groups (snd (add_users_to_group 1 ''g1'' [(''u'', ''m1'')]
     (snd (create_groups_by_group_names PNone 0 ''admin'' [(''staff'', ''g1'')]
       \<lparr>group_rows = [], member_rows = []\<rparr>))))"
  by (rule groups_reachable_wf, rule groups_reachable.step, rule groups_reachable.step,
      rule groups_reachable.start, rule groups_step.create, rule groups_step.add_users)

text \<open>The memberships that each step of a synchronisation leaves.\<close>

lemma in_group_delete: "in_group (delete_members P D) v gid \<longleftrightarrow>
    (\<exists>m \<in> set (member_rows D). \<not> P m \<and> gm_group_id m = gid \<and> gm_user_id m = v)"
  by (auto simp: in_group_def delete_members_def)

lemma in_group_touch [simp]: "in_group (touch_groups P now D) = in_group D"
  by (simp add: in_group_def touch_groups_def fun_eq_iff)

lemma member_rows_touch [simp]: "member_rows (touch_groups P now D) = member_rows D"
  by (simp add: touch_groups_def)

lemma joined_ids: "g_id ` snd ` set (join_members (\<lambda>m. gm_user_id m = uid) D) =
    {gid \<in> g_id ` set (group_rows D). in_group D uid gid}"
  by (force simp: join_members_def in_group_def)

lemma member_key_mk_member [simp]: "member_key (mk_member now uuid gid uid) = (gid, uid)"
  by (simp add: member_key_def mk_member_def)

lemma in_group_key: "in_group D uid gid \<longleftrightarrow> (gid, uid) \<in> member_key ` set (member_rows D)"
  by (auto simp: in_group_def member_key_def)

text \<open>C3: synchronising a user with a list of names never fails; afterwards the user is a member
  of exactly those existing groups whose name is listed, and no other user's memberships change.\<close>

theorem sync_groups_exact:
  assumes "wf_groups D" and "sync_groups_by_group_names now uuid uid names D = (ok, D')"
  shows "ok \<and> (\<forall>gid \<in> g_id ` set (group_rows D). in_group D' uid gid \<longleftrightarrow>
      (\<exists>g \<in> set (group_rows D). g_id g = gid \<and> g_name g \<in> set names)) \<and>
    (\<forall>v gid. v \<noteq> uid \<longrightarrow> in_group D' v gid = in_group D v gid)"
proof (intro conjI)
  define target where "target = map g_id (filter (\<lambda>g. g_name g \<in> set names) (group_rows D))"
  define existing where "existing = map (g_id \<circ> snd) (join_members (\<lambda>m. gm_user_id m = uid) D)"
  define add where "add = remdups (filter (\<lambda>i. i \<notin> set existing) target)"
  define remove where "remove = remdups (filter (\<lambda>i. i \<notin> set target) existing)"
  define rows1 where "rows1 = filter (\<lambda>m. \<not> (gm_user_id m = uid \<and> gm_group_id m \<in> set remove))
    (member_rows D)"
  define new where "new = map (\<lambda>i. mk_member now (uuid i) i uid) add"
  have existing: "set existing = {gid \<in> g_id ` set (group_rows D). in_group D uid gid}"
    using joined_ids [of uid D] by (simp add: existing_def image_comp)
  have target: "set target \<subseteq> g_id ` set (group_rows D)" by (auto simp: target_def)
  define D1 where "D1 = (if remove = [] then D else touch_groups (\<lambda>g. g_id g \<in> set remove) now
      (delete_members (\<lambda>m. gm_user_id m = uid \<and> gm_group_id m \<in> set remove) D))"
  define D2 where "D2 = (if add = [] then D1 else touch_groups (\<lambda>g. g_id g \<in> set add) now D1)"
  have sync: "sync_groups_by_group_names now uuid uid names D =
      (case ins_all member_key (member_rows D1) new of
         Inl _ \<Rightarrow> (False, D) | Inr rows \<Rightarrow> (True, D2\<lparr>member_rows := rows\<rparr>))"
    unfolding sync_groups_by_group_names_def Let_def D2_def D1_def new_def add_def remove_def
      target_def existing_def by (rule refl)
  have "member_rows D1 = rows1"
    by (simp add: D1_def rows1_def delete_members_def)
  moreover have "ins_all member_key rows1 new = Inr (rows1 @ new)"
  proof -
    have keys: "map member_key new = map (\<lambda>i. (i, uid)) add" by (simp add: new_def)
    have "distinct (map member_key new)"
      unfolding keys by (simp add: distinct_map inj_on_def add_def)
    moreover have "(i, uid) \<notin> member_key ` set (member_rows D)" if "i \<in> set add" for i
      using that existing target by (auto simp: add_def in_group_key)
    then have "member_key ` set new \<inter> member_key ` set (member_rows D) = {}"
      using arg_cong [OF keys, of set] by auto
    then have "member_key ` set new \<inter> member_key ` set rows1 = {}"
      by (auto simp: rows1_def)
    ultimately show ?thesis by (simp add: ins_all_cases)
  qed
  ultimately have res: "ok" "member_rows D' = rows1 @ new"
    using assms(2) sync by auto
  show ok by (rule res)
  have key: "in_group D' v gid \<longleftrightarrow> in_group D v gid \<and> \<not> (v = uid \<and> gid \<in> set remove) \<or>
      v = uid \<and> gid \<in> set add" for v gid
    unfolding in_group_def res set_append bex_Un by (auto simp: rows1_def new_def mk_member_def)
  show "\<forall>v gid. v \<noteq> uid \<longrightarrow> in_group D' v gid = in_group D v gid" using key by simp
  show "\<forall>gid \<in> g_id ` set (group_rows D). in_group D' uid gid \<longleftrightarrow>
      (\<exists>g \<in> set (group_rows D). g_id g = gid \<and> g_name g \<in> set names)"
  proof
    fix gid assume "gid \<in> g_id ` set (group_rows D)"
    with existing have "gid \<in> set existing \<longleftrightarrow> in_group D uid gid" by simp
    then have "in_group D' uid gid \<longleftrightarrow> gid \<in> set target"
      using key by (auto simp: add_def remove_def)
    also have "\<dots> \<longleftrightarrow> (\<exists>g \<in> set (group_rows D). g_id g = gid \<and> g_name g \<in> set names)"
      by (auto simp: target_def)
    finally show "in_group D' uid gid \<longleftrightarrow>
      (\<exists>g \<in> set (group_rows D). g_id g = gid \<and> g_name g \<in> set names)" .
  qed
qed

theorem sync_groups_exact_witness:
  "in_group (snd (sync_groups_by_group_names 5 (\<lambda>i. i) ''u'' [''staff'']
     (snd (create_groups_by_group_names PNone 0 ''admin'' [(''staff'', ''g1''), (''ops'', ''g2'')]
       \<lparr>group_rows = [], member_rows = []\<rparr>)))) ''u'' ''g1''"
proof -
  define D where "D = snd (create_groups_by_group_names PNone 0 ''admin''
    [(''staff'', ''g1''), (''ops'', ''g2'')] \<lparr>group_rows = [], member_rows = []\<rparr>)"
  have D: "group_rows D = [\<lparr>g_id = ''g1'', g_user_id = ''admin'', g_name = ''staff'',
      g_description = [], g_data = PDict [(''config'', PDict [(''share'', PNone)])], g_meta = PNone,
      g_permissions = PNone, g_created_at = 0, g_updated_at = 0\<rparr>,
    \<lparr>g_id = ''g2'', g_user_id = ''admin'', g_name = ''ops'', g_description = [],
      g_data = PDict [(''config'', PDict [(''share'', PNone)])], g_meta = PNone,
      g_permissions = PNone, g_created_at = 0, g_updated_at = 0\<rparr>]" "member_rows D = []"
    by (simp_all add: D_def create_groups_by_group_names_def create_group_by_name_def
        insert_group_row_def ins_unique_def)
  then have "wf_groups D" by (simp add: wf_groups_def unique_on_def)
  from sync_groups_exact [OF this surjective_pairing, of 5 "\<lambda>i. i" "''u''" "[''staff'']"] D
  show ?thesis unfolding D_def [symmetric] by simp
qed

text \<open>What adding users to a group leaves when the constraint refuses none of them.\<close>

lemma add_users_fresh:
  "distinct (map fst us) \<Longrightarrow> \<forall>(u, x) \<in> set us. (i, u) \<notin> member_key ` set rows \<Longrightarrow>
     foldl (\<lambda>rows (uid, uuid).
       case ins_unique member_key rows (mk_member now uuid i uid) of
         Inl _ \<Rightarrow> base | Inr rows' \<Rightarrow> rows') rows us =
     rows @ map (\<lambda>(uid, uuid). mk_member now uuid i uid) us"
proof (induction us arbitrary: rows)
  case (Cons ux us)
  obtain u x where ux: "ux = (u, x)" by (cases ux)
  have "\<forall>(u', x') \<in> set us. (i, u') \<notin> member_key ` set (rows @ [mk_member now x i u])"
  proof -
    have "u' \<noteq> u" if "(u', x') \<in> set us" for u' x'
      using Cons.prems(1) that by (auto simp: ux rev_image_eqI)
    with Cons.prems(2) show ?thesis by fastforce
  qed
  with Cons show ?case by (simp add: ux ins_unique_def)
qed simp

text \<open>adding users who are not members yet, each once, makes exactly them members of the
  group and leaves every other membership as it was.\<close>

theorem add_users_adds_exactly:
  assumes "get_group_by_id i D = Some g" and "distinct (map fst us)"
    and "\<forall>(u, x) \<in> set us. \<not> in_group D u i"
  shows "in_group (snd (add_users_to_group now i us D)) v gid \<longleftrightarrow>
    in_group D v gid \<or> gid = i \<and> v \<in> fst ` set us"
proof -
  have "member_rows (snd (add_users_to_group now i us D)) =
      member_rows D @ map (\<lambda>(uid, uuid). mk_member now uuid i uid) us"
    using assms(1) add_users_fresh [OF assms(2), where i = i and rows = "member_rows D" and now = now and base = "member_rows D"] assms(3)
    by (simp add: add_users_to_group_def Let_def in_group_key)
  then show ?thesis
    unfolding in_group_def by (force simp: mk_member_def)
qed

theorem add_users_adds_exactly_witness:
  "\<exists>D. in_group (snd (add_users_to_group 3 ''g1'' [(''u'', ''m1''), (''v'', ''m2'')] D)) ''v'' ''g1''"
proof -
  define D where "D = \<lparr>group_rows = [\<lparr>g_id = ''g1'', g_user_id = ''admin'', g_name = ''staff'',
      g_description = [], g_data = PNone, g_meta = PNone, g_permissions = PNone,
      g_created_at = 0, g_updated_at = 0\<rparr>], member_rows = []\<rparr>"
  have "get_group_by_id ''g1'' D = Some (hd (group_rows D))"
    by (simp add: D_def get_group_by_id_def)
  from add_users_adds_exactly [OF this, of "[(''u'', ''m1''), (''v'', ''m2'')]" 3 "''v''" "''g1''"]
  show ?thesis by (auto simp: D_def in_group_def)
qed

text \<open>when the last user of the list is already a member, nobody is added: the refused insert
  rolls back the transaction, and the inserts flushed before it are lost.\<close>

theorem add_users_duplicate_discards_all:
  assumes "in_group D u i"
  shows "member_rows (snd (add_users_to_group now i (us @ [(u, x)]) D)) = member_rows D"
proof -
  have keep: "set (member_rows D) \<subseteq> set (foldl (\<lambda>rows (uid, uuid).
      case ins_unique member_key rows (mk_member now uuid i uid) of
        Inl _ \<Rightarrow> member_rows D | Inr rows' \<Rightarrow> rows') (member_rows D) us)"
    by (rule foldl_invariant) (auto simp: ins_unique_def split: if_splits)
  with assms show ?thesis
    by (auto simp: add_users_to_group_def Let_def ins_unique_def in_group_key split: option.splits)
qed

theorem add_users_duplicate_discards_all_witness:
  "\<exists>D. in_group D ''old'' ''g1'' \<and> get_group_by_id ''g1'' D \<noteq> None \<and>
     \<not> in_group (snd (add_users_to_group 3 ''g1'' ([(''new'', ''m1'')] @ [(''old'', ''m2'')]) D)) ''new'' ''g1''"
proof -
  define D where "D = \<lparr>group_rows = [\<lparr>g_id = ''g1'', g_user_id = ''admin'', g_name = ''staff'',
      g_description = [], g_data = PNone, g_meta = PNone, g_permissions = PNone,
      g_created_at = 0, g_updated_at = 0\<rparr>], member_rows = [mk_member 0 ''m0'' ''g1'' ''old'']\<rparr>"
  have old: "in_group D ''old'' ''g1''" by (simp add: D_def in_group_def mk_member_def)
  have "\<not> in_group (snd (add_users_to_group 3 ''g1'' ([(''new'', ''m1'')] @ [(''old'', ''m2'')]) D)) ''new'' ''g1''"
    unfolding in_group_def add_users_duplicate_discards_all [OF old]
    by (simp add: D_def mk_member_def)
  moreover have "get_group_by_id ''g1'' D \<noteq> None" by (simp add: D_def get_group_by_id_def)
  ultimately show ?thesis using old by blast
qed

end
