(* ===== verification/Users.thy ===== *)
theory Users
  imports User_Groups
begin

text \<open>
  The user table, \<open>models/users.py\<close>: the lookups and listings that access control uses, and the
  operations that change a row's role, time stamp, OAuth and SCIM identities and settings, the API
  keys, and the deletion of a user. Columns that no modelled operation reads are left out of the
  row. The order of strings is the database's collation, given as a rank.
\<close>

record user_row =
  u_id :: string
  u_email :: string
  u_username :: "string option"
  u_role :: string
  u_name :: string
  u_profile_image_url :: "string option"
  u_settings :: "pydict option"
  u_oauth :: "pydict option"
  u_scim :: "pydict option"
  u_last_active_at :: int
  u_updated_at :: int
  u_created_at :: int

record api_key_row =
  ak_id :: string
  ak_user_id :: string
  ak_key :: string
  ak_created_at :: int
  ak_updated_at :: int

record channel_member_row =
  cm_channel_id :: string
  cm_user_id :: string

record users_db =
  user_rows :: "user_row list"
  api_key_rows :: "api_key_row list"

section \<open>Creation and lookups\<close>

text \<open>\<open>validate_image\<close> is \<open>validate_profile_image_url\<close>; \<open>Inl\<close> is its \<open>ValueError\<close>.\<close>

definition insert_new_user ::
  "(string \<Rightarrow> string result) \<Rightarrow> int \<Rightarrow> string \<Rightarrow> string \<Rightarrow> string \<Rightarrow> string \<Rightarrow> string \<Rightarrow> string option \<Rightarrow>
   pydict option \<Rightarrow> users_db \<Rightarrow> (user_row \<times> users_db) result" where
  "insert_new_user validate_image now i name email img role username oauth D =
     (let url = (case validate_image img of Inl _ \<Rightarrow> ''/user.png'' | Inr u \<Rightarrow> u);
          row = \<lparr>u_id = i, u_email = email, u_username = username, u_role = role, u_name = name,
            u_profile_image_url = Some (if url = [] then ''/api/v1/users/'' @ i @ ''/profile/image'' else url),
            u_settings = None, u_oauth = oauth, u_scim = None, u_last_active_at = now,
            u_updated_at = now, u_created_at = now\<rparr>
      in if u_email row \<in> u_email ` set (user_rows D) then Inl IntegrityError
         else mapR (\<lambda>rows. (row, D\<lparr>user_rows := rows\<rparr>)) (ins_unique u_id (user_rows D) row))"

definition get_user_by_id :: "string \<Rightarrow> users_db \<Rightarrow> user_row option" where
  "get_user_by_id i D = find (\<lambda>u. u_id u = i) (user_rows D)"

definition get_user_by_api_key :: "string \<Rightarrow> users_db \<Rightarrow> user_row option" where
  "get_user_by_api_key key D =
     find (\<lambda>u. \<exists>k \<in> set (api_key_rows D). ak_user_id k = u_id u \<and> ak_key k = key) (user_rows D)"

definition get_user_by_email :: "string \<Rightarrow> users_db \<Rightarrow> user_row option" where
  "get_user_by_email email D =
     find (\<lambda>u. str_lower (u_email u) = str_lower email) (user_rows D)"

definition get_users_by_group_id :: "string \<Rightarrow> users_db \<Rightarrow> groups_db \<Rightarrow> user_row list" where
  "get_users_by_group_id gid D G =
     [u. u \<leftarrow> user_rows D, m \<leftarrow> member_rows G, gm_user_id m = u_id u \<and> gm_group_id m = gid]"

definition get_users_by_user_ids :: "string list \<Rightarrow> users_db \<Rightarrow> user_row list" where
  "get_users_by_user_ids ids D = filter (\<lambda>u. u_id u \<in> set ids) (user_rows D)"

definition get_num_users :: "users_db \<Rightarrow> nat" where
  "get_num_users D = length (user_rows D)"

definition has_users :: "users_db \<Rightarrow> bool" where
  "has_users D = (user_rows D \<noteq> [])"

definition get_first_user :: "users_db \<Rightarrow> user_row option" where
  "get_first_user D = (case sort_key u_created_at (user_rows D) of [] \<Rightarrow> None | u # us \<Rightarrow> Some u)"

definition get_num_users_active_today :: "int \<Rightarrow> users_db \<Rightarrow> nat" where
  "get_num_users_active_today now D =
     length (filter (\<lambda>u. u_last_active_at u > now - now mod 86400) (user_rows D))"

definition get_valid_user_ids :: "string list \<Rightarrow> users_db \<Rightarrow> string list" where
  "get_valid_user_ids ids D = map u_id (filter (\<lambda>u. u_id u \<in> set ids) (user_rows D))"

definition get_super_admin_user :: "users_db \<Rightarrow> user_row option" where
  "get_super_admin_user D = find (\<lambda>u. u_role u = ''admin'') (user_rows D)"

definition get_active_user_count :: "int \<Rightarrow> users_db \<Rightarrow> nat" where
  "get_active_user_count now D =
     length (filter (\<lambda>u. u_last_active_at u \<ge> now - 180) (user_rows D))"

definition is_active :: "int \<Rightarrow> user_row \<Rightarrow> bool" where
  "is_active now u = (u_last_active_at u \<noteq> 0 \<and> u_last_active_at u \<ge> now - 180)"

definition is_user_active :: "int \<Rightarrow> string \<Rightarrow> users_db \<Rightarrow> bool" where
  "is_user_active now i D = (case get_user_by_id i D of None \<Rightarrow> False | Some u \<Rightarrow> is_active now u)"

section \<open>Listing\<close>

record users_filter =
  uf_query :: string
  uf_channel_id :: string
  uf_user_ids :: "string list option"
  uf_group_ids :: "string list option"
  uf_roles :: "string list"
  uf_order_by :: string
  uf_direction :: string

text \<open>An absent key of the filter is the empty string or list, which the code treats alike.\<close>

definition no_users_filter :: users_filter where
  "no_users_filter = \<lparr>uf_query = [], uf_channel_id = [], uf_user_ids = None, uf_group_ids = None,
     uf_roles = [], uf_order_by = [], uf_direction = []\<rparr>"

definition users_filter_matches ::
  "users_filter \<Rightarrow> channel_member_row list \<Rightarrow> groups_db \<Rightarrow> user_row \<Rightarrow> bool" where
  "users_filter_matches f C G u =
     (let user_ids = (case uf_user_ids f of None \<Rightarrow> [] | Some x \<Rightarrow> x);
          group_ids = (case uf_group_ids f of None \<Rightarrow> [] | Some x \<Rightarrow> x);
          include_roles = filter (\<lambda>r. \<not> starts_with r ''!'') (uf_roles f);
          exclude_roles = map tl (filter (\<lambda>r. starts_with r ''!'') (uf_roles f))
      in (uf_query f = [] \<or> sql_ilike (u_name u) (''%'' @ uf_query f @ ''%'')
            \<or> sql_ilike (u_email u) (''%'' @ uf_query f @ ''%'')) \<and>
         (uf_channel_id f = [] \<or>
            (\<exists>c \<in> set C. cm_user_id c = u_id u \<and> cm_channel_id c = uf_channel_id f)) \<and>
         (user_ids = [] \<or> u_id u \<in> set user_ids) \<and>
         (group_ids = [] \<or>
            (\<exists>m \<in> set (member_rows G). gm_user_id m = u_id u \<and> gm_group_id m \<in> set group_ids)) \<and>
         (include_roles = [] \<or> u_role u \<in> set include_roles) \<and>
         (exclude_roles = [] \<or> u_role u \<notin> set exclude_roles))"

definition order_users ::
  "(string \<Rightarrow> int) \<Rightarrow> users_filter \<Rightarrow> groups_db \<Rightarrow> user_row list \<Rightarrow> user_row list" where
  "order_users rank f G us =
     (let by = (\<lambda>k. if uf_direction f = ''asc'' then sort_key k us else order_desc k us)
      in if starts_with (uf_order_by f) ''group_id:'' then
           (let gid = drop 9 (uf_order_by f);
                in_grp = (\<lambda>u. if \<exists>m \<in> set (member_rows G). gm_user_id m = u_id u \<and> gm_group_id m = gid
                             then (1::int) else 0);
                named = sort_key (\<lambda>u. rank (u_name u)) us
            in if uf_direction f = ''asc'' then sort_key in_grp named else order_desc in_grp named)
         else if uf_order_by f = ''name'' then by (\<lambda>u. rank (u_name u))
         else if uf_order_by f = ''email'' then by (\<lambda>u. rank (u_email u))
         else if uf_order_by f = ''created_at'' then by u_created_at
         else if uf_order_by f = ''last_active_at'' then by u_last_active_at
         else if uf_order_by f = ''updated_at'' then by u_updated_at
         else if uf_order_by f = ''role'' then by (\<lambda>u. rank (u_role u))
         else us)"

text \<open>\<open>None\<close> is an absent (or empty) filter, which lists by creation.\<close>

definition get_users ::
  "(string \<Rightarrow> int) \<Rightarrow> users_filter option \<Rightarrow> nat option \<Rightarrow> nat option \<Rightarrow> channel_member_row list \<Rightarrow>
   groups_db \<Rightarrow> users_db \<Rightarrow> user_row list \<times> nat" where
  "get_users rank flt skip limit C G D =
     (if (case flt of None \<Rightarrow> False | Some f \<Rightarrow> uf_user_ids f = Some [] \<and> uf_group_ids f = Some [])
      then ([], 0)
      else (let rows = (case flt of
                  None \<Rightarrow> order_desc u_created_at (user_rows D)
                | Some f \<Rightarrow> order_users rank f G (filter (users_filter_matches f C G) (user_rows D)));
                rows1 = (case skip of None \<Rightarrow> rows | Some n \<Rightarrow> drop n rows);
                rows2 = (case limit of None \<Rightarrow> rows1 | Some n \<Rightarrow> take n rows1)
            in (rows2, length rows)))"

section \<open>Changes\<close>

definition change_user ::
  "string \<Rightarrow> (user_row \<Rightarrow> user_row) \<Rightarrow> users_db \<Rightarrow> user_row option \<times> users_db" where
  "change_user i f D =
     (case get_user_by_id i D of
        None \<Rightarrow> (None, D)
      | Some u \<Rightarrow> (Some (f u), D\<lparr>user_rows := map (\<lambda>v. if u_id v = i then f v else v) (user_rows D)\<rparr>))"

definition update_user_role_by_id :: "string \<Rightarrow> string \<Rightarrow> users_db \<Rightarrow> user_row option \<times> users_db" where
  "update_user_role_by_id i role D = change_user i (\<lambda>u. u\<lparr>u_role := role\<rparr>) D"

definition update_user_profile_image_url_by_id ::
  "(string \<Rightarrow> string result) \<Rightarrow> string \<Rightarrow> string \<Rightarrow> users_db \<Rightarrow> user_row option \<times> users_db" where
  "update_user_profile_image_url_by_id validate_image i img D =
     (let url = (case validate_image img of Inl _ \<Rightarrow> ''/user.png'' | Inr u \<Rightarrow> u)
      in change_user i (\<lambda>u. u\<lparr>u_profile_image_url := Some url\<rparr>) D)"

definition update_last_active_by_id :: "int \<Rightarrow> string \<Rightarrow> users_db \<Rightarrow> users_db" where
  "update_last_active_by_id now i D =
     D\<lparr>user_rows := map (\<lambda>u. if u_id u = i then u\<lparr>u_last_active_at := now\<rparr> else u) (user_rows D)\<rparr>"

definition update_user_oauth_by_id ::
  "string \<Rightarrow> string \<Rightarrow> string \<Rightarrow> users_db \<Rightarrow> user_row option \<times> users_db" where
  "update_user_oauth_by_id i provider sub D =
     change_user i (\<lambda>u. u\<lparr>u_oauth := Some (dset provider (PDict [(''sub'', PStr sub)])
       (case u_oauth u of None \<Rightarrow> [] | Some d \<Rightarrow> d))\<rparr>) D"

definition update_user_scim_by_id ::
  "string \<Rightarrow> string \<Rightarrow> string \<Rightarrow> users_db \<Rightarrow> user_row option \<times> users_db" where
  "update_user_scim_by_id i provider external_id D =
     change_user i (\<lambda>u. u\<lparr>u_scim := Some (dset provider (PDict [(''external_id'', PStr external_id)])
       (case u_scim u of None \<Rightarrow> [] | Some d \<Rightarrow> d))\<rparr>) D"

definition update_user_settings_by_id ::
  "string \<Rightarrow> pydict \<Rightarrow> users_db \<Rightarrow> user_row option \<times> users_db" where
  "update_user_settings_by_id i updated D =
     change_user i (\<lambda>u. u\<lparr>u_settings := Some (foldl (\<lambda>d (k, v). dset k v d)
       (case u_settings u of None \<Rightarrow> [] | Some d \<Rightarrow> d) updated)\<rparr>) D"

text \<open>
  Deleting a user leaves the groups first; when the deletion of the chats fails
  (\<open>chats_deleted\<close> is the result of \<open>Chats.delete_chats_by_user_id\<close>) the row stays.
\<close>

definition delete_user_by_id ::
  "bool \<Rightarrow> int \<Rightarrow> string \<Rightarrow> groups_db \<Rightarrow> users_db \<Rightarrow> bool \<times> groups_db \<times> users_db" where
  "delete_user_by_id chats_deleted now i G D =
     (let G' = snd (remove_user_from_all_groups now i G)
      in if chats_deleted
         then (True, G', D\<lparr>user_rows := filter (\<lambda>u. u_id u \<noteq> i) (user_rows D)\<rparr>)
         else (False, G', D))"

definition get_user_api_key_by_id :: "string \<Rightarrow> users_db \<Rightarrow> string option" where
  "get_user_api_key_by_id i D = map_option ak_key (find (\<lambda>k. ak_user_id k = i) (api_key_rows D))"

definition update_user_api_key_by_id :: "int \<Rightarrow> string \<Rightarrow> string \<Rightarrow> users_db \<Rightarrow> users_db result" where
  "update_user_api_key_by_id now i key D =
     (let kept = filter (\<lambda>k. ak_user_id k \<noteq> i) (api_key_rows D);
          row = \<lparr>ak_id = ''key_'' @ i, ak_user_id = i, ak_key = key, ak_created_at = now,
            ak_updated_at = now\<rparr>
      in if ak_id row \<in> ak_id ` set kept then Inl IntegrityError
         else mapR (\<lambda>rows. D\<lparr>api_key_rows := rows\<rparr>) (ins_unique ak_key kept row))"

definition delete_user_api_key_by_id :: "string \<Rightarrow> users_db \<Rightarrow> bool \<times> users_db" where
  "delete_user_api_key_by_id i D =
     (True, D\<lparr>api_key_rows := filter (\<lambda>k. ak_user_id k \<noteq> i) (api_key_rows D)\<rparr>)"

section \<open>Laws\<close>

definition wf_users :: "users_db \<Rightarrow> bool" where
  "wf_users D = (unique_on u_id (user_rows D) \<and> unique_on ak_key (api_key_rows D)
     \<and> unique_on ak_id (api_key_rows D))"

lemma wf_change_user [inv_intros]:
  "(\<And>u. u_id (f u) = u_id u) \<Longrightarrow> wf_users D \<Longrightarrow> wf_users (snd (change_user i f D))"
  by (simp add: wf_users_def change_user_def unique_on_map_same split: option.split)

lemma wf_update_api_key [inv_intros]:
  "update_user_api_key_by_id now i key D = Inr D' \<Longrightarrow> wf_users D \<Longrightarrow> wf_users D'"
  by (auto simp: update_user_api_key_by_id_def Let_def wf_users_def ins_unique_def unique_on_append
      unique_on_filter split: if_splits) (auto simp: unique_on_def)

text \<open>A key that was just set identifies its user.\<close>

lemma api_key_identifies:
  assumes "update_user_api_key_by_id now i key D = Inr D'" and "wf_users D"
    and "get_user_by_id i D = Some u"
  shows "get_user_by_api_key key D' = Some u" and "get_user_api_key_by_id i D' = Some key"
proof -
  have rows: "user_rows D' = user_rows D"
    and keys: "\<And>k. k \<in> set (api_key_rows D') \<Longrightarrow> ak_key k = key \<longleftrightarrow> ak_user_id k = i"
    and there: "\<exists>k \<in> set (api_key_rows D'). ak_user_id k = i \<and> ak_key k = key"
    using assms(1) by (auto simp: update_user_api_key_by_id_def Let_def ins_unique_def split: if_splits)
  have "(\<exists>k \<in> set (api_key_rows D'). ak_user_id k = u_id v \<and> ak_key k = key) = (u_id v = i)"
    for v :: user_row
    using keys there by auto
  with assms(3) rows show "get_user_by_api_key key D' = Some u"
    by (simp add: get_user_by_api_key_def get_user_by_id_def cong: find_cong)
  have "find (\<lambda>k. ak_user_id k = i) (api_key_rows D') \<noteq> None"
    using there by (auto simp: find_None)
  then obtain k where k: "find (\<lambda>k. ak_user_id k = i) (api_key_rows D') = Some k" by blast
  with keys find_SomeD [OF k] show "get_user_api_key_by_id i D' = Some key"
    by (simp add: get_user_api_key_by_id_def)
qed

lemma set_order_users [simp]: "set (order_users rank f G us) = set us"
  by (simp add: order_users_def Let_def)

lemma nonpending_users:
  "set (fst (get_users rank (Some (no_users_filter\<lparr>uf_roles := [''!pending'']\<rparr>)) None None C G D)) =
     {u \<in> set (user_rows D). u_role u \<noteq> ''pending''}"
  by (auto simp: get_users_def no_users_filter_def users_filter_matches_def Let_def)

end
