(* ===== verification/Access_Grants.thy ===== *)
theory Access_Grants
  imports Users
begin

text \<open>
  Access grants, \<open>models/access_grants.py\<close>: the table as its list of rows with the constraint
  \<open>uq_access_grant_grant\<close>, the conversions between the old access control dicts and grants, and
  every operation of \<open>AccessGrantsTable\<close>. Times and fresh identifiers are arguments. The filters
  that SQLAlchemy builds are modelled by the rows that they select.
\<close>

section \<open>Grants\<close>

record grant_row =
  ag_id :: string
  ag_resource_type :: string
  ag_resource_id :: string
  ag_principal_type :: string
  ag_principal_id :: string
  ag_permission :: string
  ag_created_at :: int

type_synonym grants_db = "grant_row list"

definition grant_key :: "grant_row \<Rightarrow> string \<times> string \<times> string \<times> string \<times> string" where
  "grant_key r = (ag_resource_type r, ag_resource_id r, ag_principal_type r, ag_principal_id r,
     ag_permission r)"

text \<open>A grant of the old format: its principal is whatever the dict holds.\<close>

record grant_dict =
  gd_principal_type :: string
  gd_principal_id :: py
  gd_permission :: string

section \<open>Conversions\<close>

text \<open>The grants of one permission of an access control dict.\<close>

definition perm_grants :: "pydict \<Rightarrow> string \<Rightarrow> grant_dict list result" where
  "perm_grants access_control permission =
     (let perm_data = (case dget access_control permission of None \<Rightarrow> PDict [] | Some d \<Rightarrow> d) in
      if \<not> truthy perm_data then Inr []
      else bindR (py_get_or perm_data ''group_ids'' (PList [])) (\<lambda>gs.
           bindR (py_iter gs) (\<lambda>gs.
           bindR (py_get_or perm_data ''user_ids'' (PList [])) (\<lambda>us.
           bindR (py_iter us) (\<lambda>us.
           Inr (map (\<lambda>g. \<lparr>gd_principal_type = ''group'', gd_principal_id = g, gd_permission = permission\<rparr>) gs
              @ map (\<lambda>u. \<lparr>gd_principal_type = ''user'', gd_principal_id = u, gd_permission = permission\<rparr>) us))))))"

text \<open>The resource type and id, the same for every grant of the result, are left to the caller.\<close>

definition access_control_to_grants :: "string \<Rightarrow> pydict option \<Rightarrow> grant_dict list result" where
  "access_control_to_grants resource_type access_control =
     (case access_control of
        None \<Rightarrow> Inr (if resource_type \<noteq> ''file''
          then [\<lparr>gd_principal_type = ''user'', gd_principal_id = PStr ''*'', gd_permission = ''read''\<rparr>]
          else [])
      | Some ac \<Rightarrow>
          if ac = [] then Inr []
          else bindR (perm_grants ac ''read'') (\<lambda>rs.
               bindR (perm_grants ac ''write'') (\<lambda>ws. Inr (rs @ ws))))"

text \<open>A normalised grant, and the triple that identifies it.\<close>

record norm_grant =
  ng_id :: string
  ng_principal_type :: string
  ng_principal_id :: string
  ng_permission :: string

type_synonym triple = "string \<times> string \<times> string"

text \<open>The triple of a grant as the form sends it, when it is a valid one.\<close>

definition valid_triple :: "py \<Rightarrow> py \<Rightarrow> py \<Rightarrow> triple option" where
  "valid_triple principal_type principal_id permission =
     (case (principal_type, principal_id, permission) of
        (PStr t, PStr i, PStr p) \<Rightarrow>
          if t \<in> {''user'', ''group'', ''anyone''} \<and> p \<in> {''read'', ''write''} \<and> i \<noteq> [] \<and>
             \<not> (t = ''anyone'' \<and> (i \<noteq> ''*'' \<or> p \<noteq> ''read''))
          then Some (t, i, p) else None
      | _ \<Rightarrow> None)"

definition grant_fields :: "py \<Rightarrow> pydict option" where
  "grant_fields g = (case g of PDict d \<Rightarrow> Some d | PObj c a \<Rightarrow> Some a | _ \<Rightarrow> None)"

definition grant_triple :: "py \<Rightarrow> triple option" where
  "grant_triple g =
     (case grant_fields g of
        None \<Rightarrow> None
      | Some d \<Rightarrow> valid_triple (field d ''principal_type'') (field d ''principal_id'')
                   (field d ''permission''))"

definition grant_id :: "string \<Rightarrow> py \<Rightarrow> string" where
  "grant_id uuid g =
     (case grant_fields g of
        None \<Rightarrow> uuid
      | Some d \<Rightarrow> (case field d ''id'' of PStr i \<Rightarrow> if i \<noteq> [] then i else uuid | _ \<Rightarrow> uuid))"

text \<open>\<open>uuid n\<close> is the identifier drawn for the grant at position \<open>n\<close>.\<close>

definition normalize_step ::
  "(nat \<Rightarrow> string) \<Rightarrow> (triple \<times> norm_grant) list \<Rightarrow> nat \<times> py \<Rightarrow> (triple \<times> norm_grant) list" where
  "normalize_step uuid deduped ng =
     (case grant_triple (snd ng) of
        None \<Rightarrow> deduped
      | Some (t, i, p) \<Rightarrow> dset (t, i, p) \<lparr>ng_id = grant_id (uuid (fst ng)) (snd ng),
          ng_principal_type = t, ng_principal_id = i, ng_permission = p\<rparr> deduped)"

definition normalize_access_grants :: "(nat \<Rightarrow> string) \<Rightarrow> py list option \<Rightarrow> norm_grant list" where
  "normalize_access_grants uuid access_grants =
     (case access_grants of
        None \<Rightarrow> []
      | Some gs \<Rightarrow> map snd (foldl (normalize_step uuid) [] (enumerate 0 gs)))"

definition ng_triple :: "norm_grant \<Rightarrow> triple" where
  "ng_triple n = (ng_principal_type n, ng_principal_id n, ng_permission n)"

text \<open>The identifiers that the tests below draw are discarded, so they draw empty ones.\<close>

definition has_public_read_access_grant :: "py list option \<Rightarrow> bool" where
  "has_public_read_access_grant gs = list_ex
     (\<lambda>n. ng_principal_type n = ''user'' \<and> ng_principal_id n = ''*'' \<and> ng_permission n = ''read'')
     (normalize_access_grants (\<lambda>_. []) gs)"

definition has_public_write_access_grant :: "py list option \<Rightarrow> bool" where
  "has_public_write_access_grant gs = list_ex
     (\<lambda>n. ng_principal_type n = ''user'' \<and> ng_principal_id n = ''*'' \<and> ng_permission n = ''write'')
     (normalize_access_grants (\<lambda>_. []) gs)"

definition has_anyone_read_access_grant :: "py list option \<Rightarrow> bool" where
  "has_anyone_read_access_grant gs = list_ex
     (\<lambda>n. ng_principal_type n = ''anyone'' \<and> ng_principal_id n = ''*'' \<and> ng_permission n = ''read'')
     (normalize_access_grants (\<lambda>_. []) gs)"

definition has_user_access_grant :: "py list option \<Rightarrow> bool" where
  "has_user_access_grant gs = list_ex
     (\<lambda>n. ng_principal_type n = ''user'' \<and> ng_principal_id n \<noteq> ''*'')
     (normalize_access_grants (\<lambda>_. []) gs)"

text \<open>\<open>grant.get(k) if isinstance(grant, dict) else getattr(grant, k, None)\<close>.\<close>

definition grant_attr :: "py \<Rightarrow> string \<Rightarrow> py" where
  "grant_attr g k = (case g of PDict d \<Rightarrow> field d k | _ \<Rightarrow> py_getattr g k)"

definition strip_user_access_grants :: "py list option \<Rightarrow> py list" where
  "strip_user_access_grants access_grants =
     (case access_grants of
        None \<Rightarrow> []
      | Some gs \<Rightarrow> filter (\<lambda>g. \<not> (grant_attr g ''principal_type'' = PStr ''user''
            \<and> grant_attr g ''principal_id'' \<noteq> PStr ''*'')) gs)"

definition strip_anyone_access_grants :: "py list option \<Rightarrow> py list" where
  "strip_anyone_access_grants access_grants =
     (case access_grants of
        None \<Rightarrow> []
      | Some gs \<Rightarrow> filter (\<lambda>g. grant_attr g ''principal_type'' \<noteq> PStr ''anyone'') gs)"

text \<open>The dict that \<open>grants_to_access_control\<close> fills, with its fixed keys.\<close>

record legacy_acl =
  la_read_groups :: "string list"
  la_read_users :: "string list"
  la_write_groups :: "string list"
  la_write_users :: "string list"

definition add_once :: "string \<Rightarrow> string list \<Rightarrow> string list" where
  "add_once x xs = (if x \<in> set xs then xs else xs @ [x])"

definition legacy_add :: "legacy_acl \<Rightarrow> triple \<Rightarrow> legacy_acl" where
  "legacy_add L g =
     (case g of (t, i, p) \<Rightarrow>
        if p = ''read'' then
          (if t = ''group'' then L\<lparr>la_read_groups := add_once i (la_read_groups L)\<rparr>
           else if t = ''user'' then L\<lparr>la_read_users := add_once i (la_read_users L)\<rparr> else L)
        else if p = ''write'' then
          (if t = ''group'' then L\<lparr>la_write_groups := add_once i (la_write_groups L)\<rparr>
           else if t = ''user'' then L\<lparr>la_write_users := add_once i (la_write_users L)\<rparr> else L)
        else L)"

definition legacy_dict :: "legacy_acl \<Rightarrow> pydict" where
  "legacy_dict L =
     [(''read'', PDict [(''group_ids'', PList (map PStr (la_read_groups L))),
                        (''user_ids'', PList (map PStr (la_read_users L)))]),
      (''write'', PDict [(''group_ids'', PList (map PStr (la_write_groups L))),
                         (''user_ids'', PList (map PStr (la_write_users L)))])]"

definition no_legacy :: legacy_acl where
  "no_legacy = \<lparr>la_read_groups = [], la_read_users = [], la_write_groups = [], la_write_users = []\<rparr>"

definition ag_triple :: "grant_row \<Rightarrow> triple" where
  "ag_triple r = (ag_principal_type r, ag_principal_id r, ag_permission r)"

definition grants_to_access_control :: "grant_row list \<Rightarrow> pydict option" where
  "grants_to_access_control grants =
     (if grants = [] then Some []
      else (let (L, is_public) = foldl (\<lambda>(L, is_public) g.
                  if ag_triple g = (''user'', ''*'', ''read'') then (L, True)
                  else (legacy_add L (ag_triple g), is_public)) (no_legacy, False) grants
            in if is_public then None else Some (legacy_dict L)))"

section \<open>Writing grants\<close>

definition mk_grant :: "string \<Rightarrow> string \<Rightarrow> string \<Rightarrow> int \<Rightarrow> triple \<Rightarrow> grant_row" where
  "mk_grant uuid rt rid now g = (case g of (t, i, p) \<Rightarrow>
     \<lparr>ag_id = uuid, ag_resource_type = rt, ag_resource_id = rid, ag_principal_type = t,
      ag_principal_id = i, ag_permission = p, ag_created_at = now\<rparr>)"

abbreviation of_resource :: "string \<Rightarrow> string \<Rightarrow> grant_row \<Rightarrow> bool" where
  "of_resource rt rid r \<equiv> ag_resource_type r = rt \<and> ag_resource_id r = rid"

definition grant_access ::
  "string \<Rightarrow> int \<Rightarrow> string \<Rightarrow> string \<Rightarrow> triple \<Rightarrow> grants_db \<Rightarrow> grant_row \<times> grants_db" where
  "grant_access uuid now rt rid g A =
     (case find (\<lambda>r. of_resource rt rid r \<and> ag_triple r = g) A of
        Some r \<Rightarrow> (r, A)
      | None \<Rightarrow> (mk_grant uuid rt rid now g, A @ [mk_grant uuid rt rid now g]))"

definition revoke_access :: "string \<Rightarrow> string \<Rightarrow> triple \<Rightarrow> grants_db \<Rightarrow> bool \<times> grants_db" where
  "revoke_access rt rid g A =
     (let A' = filter (\<lambda>r. \<not> (of_resource rt rid r \<and> ag_triple r = g)) A
      in (0 < length A - length A', A'))"

definition revoke_all_access :: "string \<Rightarrow> string \<Rightarrow> grants_db \<Rightarrow> nat \<times> grants_db" where
  "revoke_all_access rt rid A =
     (let A' = filter (\<lambda>r. \<not> of_resource rt rid r) A in (length A - length A', A'))"

text \<open>
  \<open>bind_text\<close> is the driver's conversion of a value bound to a \<open>Text\<close> column; on a string it is
  the identity. An exception leaves the table as it was.
\<close>

definition set_access_control ::
  "(py \<Rightarrow> string result) \<Rightarrow> (nat \<Rightarrow> string) \<Rightarrow> int \<Rightarrow> string \<Rightarrow> string \<Rightarrow> pydict option \<Rightarrow>
   grants_db \<Rightarrow> (grant_row list \<times> grants_db) result" where
  "set_access_control bind_text uuid now rt rid access_control A =
     (let kept = filter (\<lambda>r. \<not> of_resource rt rid r) A in
      bindR (access_control_to_grants rt access_control) (\<lambda>gds.
      bindR (listR (\<lambda>(n, g). mapR (\<lambda>i. mk_grant (uuid n) rt rid now
          (gd_principal_type g, i, gd_permission g)) (bind_text (gd_principal_id g)))
        (enumerate 0 gds)) (\<lambda>rows.
      mapR (\<lambda>A'. (rows, A')) (ins_all grant_key kept rows))))"

definition set_access_grants ::
  "(nat \<Rightarrow> string) \<Rightarrow> int \<Rightarrow> string \<Rightarrow> string \<Rightarrow> py list option \<Rightarrow> grants_db \<Rightarrow>
   (grant_row list \<times> grants_db) result" where
  "set_access_grants uuid now rt rid access_grants A =
     (let kept = filter (\<lambda>r. \<not> of_resource rt rid r) A;
          rows = map (\<lambda>(n, g). mk_grant (uuid n) rt rid now (ng_triple g))
            (enumerate 0 (normalize_access_grants (\<lambda>_. []) access_grants))
      in mapR (\<lambda>A'. (rows, A')) (ins_all grant_key kept rows))"

section \<open>Reading grants\<close>

definition get_grants_by_resource :: "string \<Rightarrow> string \<Rightarrow> grants_db \<Rightarrow> grant_row list" where
  "get_grants_by_resource rt rid A = filter (of_resource rt rid) A"

text \<open>The query has no \<open>ORDER BY\<close>: \<open>order\<close> is the order in which the database answers.\<close>

definition get_access_control ::
  "(grant_row list \<Rightarrow> grant_row list) \<Rightarrow> string \<Rightarrow> string \<Rightarrow> grants_db \<Rightarrow> pydict option" where
  "get_access_control order rt rid A = grants_to_access_control (order (filter (of_resource rt rid) A))"

definition get_grants_by_resources ::
  "string \<Rightarrow> string list \<Rightarrow> grants_db \<Rightarrow> (string \<times> grant_row list) list" where
  "get_grants_by_resources rt rids A =
     (if rids = [] then []
      else foldl (\<lambda>acc r. dset (ag_resource_id r) (the (dget acc (ag_resource_id r)) @ [r]) acc)
        (foldl (\<lambda>acc rid. dset rid [] acc) [] rids)
        (filter (\<lambda>r. ag_resource_type r = rt \<and> ag_resource_id r \<in> set rids) A))"

definition has_anyone_access :: "string \<Rightarrow> string \<Rightarrow> string \<Rightarrow> grants_db \<Rightarrow> bool" where
  "has_anyone_access rt rid perm A =
     (\<exists>r \<in> set A. of_resource rt rid r \<and> ag_triple r = (''anyone'', ''*'', perm))"

text \<open>\<open>or_(*conditions)\<close> of \<open>has_access\<close> on a row.\<close>

definition principal_matches :: "string \<Rightarrow> string set \<Rightarrow> grant_row \<Rightarrow> bool" where
  "principal_matches user_id groups r =
     (ag_principal_type r = ''user'' \<and> ag_principal_id r = ''*''
      \<or> ag_principal_type r = ''user'' \<and> ag_principal_id r = user_id
      \<or> groups \<noteq> {} \<and> ag_principal_type r = ''group'' \<and> ag_principal_id r \<in> groups)"

definition groups_of_user :: "string set option \<Rightarrow> string \<Rightarrow> groups_db \<Rightarrow> string set" where
  "groups_of_user user_group_ids user_id G =
     (case user_group_ids of Some gs \<Rightarrow> gs
      | None \<Rightarrow> g_id ` set (get_groups_by_member_id user_id G))"

definition has_access ::
  "string \<Rightarrow> string \<Rightarrow> string \<Rightarrow> string \<Rightarrow> string set option \<Rightarrow> groups_db \<Rightarrow> grants_db \<Rightarrow> bool" where
  "has_access user_id rt rid perm user_group_ids G A =
     (\<exists>r \<in> set A. of_resource rt rid r \<and> ag_permission r = perm
        \<and> principal_matches user_id (groups_of_user user_group_ids user_id G) r)"

definition get_accessible_resource_ids ::
  "string \<Rightarrow> string \<Rightarrow> string list \<Rightarrow> string \<Rightarrow> string set option \<Rightarrow> groups_db \<Rightarrow> grants_db \<Rightarrow> string set" where
  "get_accessible_resource_ids user_id rt rids perm user_group_ids G A =
     (if rids = [] then {}
      else ag_resource_id ` set (filter (\<lambda>r. ag_resource_type r = rt \<and> ag_resource_id r \<in> set rids
        \<and> ag_permission r = perm
        \<and> principal_matches user_id (groups_of_user user_group_ids user_id G) r) A))"

definition get_users_with_access ::
  "(string \<Rightarrow> int) \<Rightarrow> string \<Rightarrow> string \<Rightarrow> string \<Rightarrow> channel_member_row list \<Rightarrow> groups_db \<Rightarrow> users_db \<Rightarrow>
   grants_db \<Rightarrow> user_row list" where
  "get_users_with_access rank rt rid perm C G U A =
     (let grants = filter (\<lambda>r. of_resource rt rid r \<and> ag_permission r = perm) A in
      if list_ex (\<lambda>r. ag_principal_type r = ''user'' \<and> ag_principal_id r = ''*'') grants
      then fst (get_users rank (Some (no_users_filter\<lparr>uf_roles := [''!pending'']\<rparr>)) None None C G U)
      else (let ids = remdups (concat (map (\<lambda>r.
                if ag_principal_type r = ''user'' then [ag_principal_id r]
                else if ag_principal_type r = ''group'' then get_group_user_ids_by_id (ag_principal_id r) G
                else []) grants))
            in if ids = [] then [] else get_users_by_user_ids ids U))"

section \<open>Filtering documents\<close>

text \<open>
  A document is its id and its owner; \<open>filter.get('group_ids', [])\<close> and \<open>filter.get('user_id')\<close>
  are the arguments, an absent user being the empty string.
\<close>

record document =
  doc_id :: string
  doc_user_id :: string

definition grant_exists ::
  "string \<Rightarrow> string \<Rightarrow> (grant_row \<Rightarrow> bool) \<Rightarrow> grants_db \<Rightarrow> document \<Rightarrow> bool" where
  "grant_exists rt perm P A d =
     (\<exists>r \<in> set A. of_resource rt (doc_id d) r \<and> ag_permission r = perm \<and> P r)"

definition user_condition :: "string \<Rightarrow> (grant_row \<Rightarrow> bool) list" where
  "user_condition user_id = (if user_id = [] then []
     else [\<lambda>r. ag_principal_type r = ''user'' \<and> ag_principal_id r = user_id])"

definition group_condition :: "string list \<Rightarrow> (grant_row \<Rightarrow> bool) list" where
  "group_condition group_ids = (if group_ids = [] then []
     else [\<lambda>r. ag_principal_type r = ''group'' \<and> ag_principal_id r \<in> set group_ids])"

text \<open>\<open>or_()\<close> of no condition is left out of the query.\<close>

definition or_conditions :: "(grant_row \<Rightarrow> bool) list \<Rightarrow> grant_row \<Rightarrow> bool" where
  "or_conditions cs r = (cs = [] \<or> list_ex (\<lambda>c. c r) cs)"

abbreviation wildcard_user :: "grant_row \<Rightarrow> bool" where
  "wildcard_user r \<equiv> ag_principal_type r = ''user'' \<and> ag_principal_id r = ''*''"

definition has_read_only_permission_filter ::
  "string list \<Rightarrow> string \<Rightarrow> string \<Rightarrow> grants_db \<Rightarrow> document list \<Rightarrow> document list" where
  "has_read_only_permission_filter group_ids user_id rt A docs =
     (let mine = or_conditions (user_condition user_id @ group_condition group_ids) in
      filter (\<lambda>d. grant_exists rt ''read'' mine A d \<and> \<not> grant_exists rt ''write'' mine A d
        \<and> \<not> grant_exists rt ''read'' wildcard_user A d
        \<and> (user_id = [] \<or> doc_user_id d \<noteq> user_id)) docs)"

definition has_permission_filter ::
  "string list \<Rightarrow> string \<Rightarrow> string \<Rightarrow> string \<Rightarrow> grants_db \<Rightarrow> document list \<Rightarrow> document list" where
  "has_permission_filter group_ids user_id rt perm A docs =
     (if perm = ''read_only'' then has_read_only_permission_filter group_ids user_id rt A docs
      else if group_ids = [] \<and> user_id = [] then docs
      else filter (\<lambda>d. grant_exists rt perm
             (or_conditions (wildcard_user # user_condition user_id @ group_condition group_ids)) A d
           \<or> (user_id \<noteq> [] \<and> doc_user_id d = user_id)) docs)"

section \<open>Laws of the table\<close>

lemma grant_key_mk [simp]: "grant_key (mk_grant uuid rt rid now g) = (rt, rid, g)"
  by (cases g) (simp add: grant_key_def mk_grant_def)

lemma ag_triple_mk [simp]: "ag_triple (mk_grant uuid rt rid now g) = g"
  by (cases g) (simp add: ag_triple_def mk_grant_def)

lemma of_resource_mk [simp]: "ag_resource_type (mk_grant uuid rt rid now g) = rt"
    "ag_resource_id (mk_grant uuid rt rid now g) = rid"
  by (cases g, simp add: mk_grant_def)+

lemma grant_key_triple: "grant_key r = (ag_resource_type r, ag_resource_id r, ag_triple r)"
  by (simp add: grant_key_def ag_triple_def)

lemma ag_triple_permission: "ag_triple r = (t, i, p) \<longleftrightarrow>
    ag_principal_type r = t \<and> ag_principal_id r = i \<and> ag_permission r = p"
  by (simp add: ag_triple_def)

text \<open>Replacing the grants of a resource by rows with distinct triples never meets the constraint.\<close>

lemma replace_grants:
  assumes "unique_on grant_key A" and "distinct (map snd gs)"
  shows "ins_all grant_key (filter (\<lambda>r. \<not> of_resource rt rid r) A)
      (map (\<lambda>(n, g). mk_grant (uuid n) rt rid now g) gs) =
    Inr (filter (\<lambda>r. \<not> of_resource rt rid r) A @ map (\<lambda>(n, g). mk_grant (uuid n) rt rid now g) gs)"
proof -
  have keys: "map grant_key (map (\<lambda>(n, g). mk_grant (uuid n) rt rid now g) gs) = map (\<lambda>(n, g). (rt, rid, g)) gs"
    by (simp add: case_prod_unfold)
  have "distinct (map (\<lambda>(n, g). (rt, rid, g)) gs)"
    using assms(2) by (simp add: distinct_map inj_on_def case_prod_unfold)
  moreover have "grant_key ` set (map (\<lambda>(n, g). mk_grant (uuid n) rt rid now g) gs) \<inter>
      grant_key ` set (filter (\<lambda>r. \<not> of_resource rt rid r) A) = {}"
    by (auto simp: grant_key_triple)
  ultimately show ?thesis
    unfolding ins_all_cases keys by simp
qed

lemma map_snd_enumerate_map: "map snd (map (\<lambda>(n, x). (n, f x)) (enumerate k xs)) = map f xs"
  by (induction xs arbitrary: k) auto

text \<open>Normalisation keeps exactly the valid triples, each once.\<close>

lemma normalize_fold:
  "wf_dict acc \<Longrightarrow> \<forall>(t, n) \<in> set acc. ng_triple n = t \<Longrightarrow>
   (let res = foldl (normalize_step uuid) acc gs in
      wf_dict res \<and> (\<forall>(t, n) \<in> set res. ng_triple n = t) \<and>
      set (dkeys res) = set (dkeys acc) \<union> {t. \<exists>g \<in> snd ` set gs. grant_triple g = Some t})"
proof (induction gs arbitrary: acc)
  case (Cons ng gs)
  have step: "wf_dict (normalize_step uuid acc ng)"
    "\<forall>(t, n) \<in> set (normalize_step uuid acc ng). ng_triple n = t"
    "set (dkeys (normalize_step uuid acc ng)) =
       set (dkeys acc) \<union> {t. grant_triple (snd ng) = Some t}"
    using Cons.prems
    by (auto simp: normalize_step_def ng_triple_def dest!: dset_set
        split: option.split prod.split)
  from Cons.IH [OF step(1,2)] step(3) show ?case
    by (auto simp: Let_def)
qed simp

lemma normalize_triples:
  "set (map ng_triple (normalize_access_grants uuid gs)) =
     {t. \<exists>g \<in> set (case gs of None \<Rightarrow> [] | Some xs \<Rightarrow> xs). grant_triple g = Some t}"
  "distinct (map ng_triple (normalize_access_grants uuid gs))"
proof -
  obtain xs where xs: "xs = (case gs of None \<Rightarrow> [] | Some ys \<Rightarrow> ys)" by simp
  define res where "res = foldl (normalize_step uuid) [] (enumerate 0 xs)"
  have n: "normalize_access_grants uuid gs = map snd res"
    by (simp add: normalize_access_grants_def res_def xs split: option.split)
  have res: "wf_dict res" "\<forall>(t, n) \<in> set res. ng_triple n = t"
    "set (dkeys res) = {t. \<exists>g \<in> set xs. grant_triple g = Some t}"
    using normalize_fold [of "[]" uuid "enumerate 0 xs"]
    by (simp_all add: res_def Let_def set_map [symmetric] del: set_map)
  have "map ng_triple (map snd res) = dkeys res"
    using res(2) by (induction res) auto
  with res n xs show
    "set (map ng_triple (normalize_access_grants uuid gs)) =
       {t. \<exists>g \<in> set (case gs of None \<Rightarrow> [] | Some xs \<Rightarrow> xs). grant_triple g = Some t}"
    "distinct (map ng_triple (normalize_access_grants uuid gs))"
    by (simp_all del: map_map)
qed

text \<open>What a replacement leaves: the new rows, and the rows of the other resources.\<close>

lemma set_access_grants_eq:
  assumes "unique_on grant_key A"
  shows "\<exists>rows. set_access_grants uuid now rt rid gs A =
      Inr (rows, filter (\<lambda>r. \<not> of_resource rt rid r) A @ rows) \<and>
    map ag_triple rows = map ng_triple (normalize_access_grants (\<lambda>_. []) gs) \<and>
    (\<forall>r \<in> set rows. of_resource rt rid r)"
proof -
  define ts where "ts = map (\<lambda>(n, g). (n, ng_triple g)) (enumerate 0 (normalize_access_grants (\<lambda>_. []) gs))"
  define rows where "rows = map (\<lambda>(n, g). mk_grant (uuid n) rt rid now g) ts"
  have snds: "map snd ts = map ng_triple (normalize_access_grants (\<lambda>_. []) gs)"
    unfolding ts_def by (rule map_snd_enumerate_map)
  then have "distinct (map snd ts)" using normalize_triples(2) by metis
  from replace_grants [OF assms this]
  have "set_access_grants uuid now rt rid gs A =
      Inr (rows, filter (\<lambda>r. \<not> of_resource rt rid r) A @ rows)"
    by (simp add: set_access_grants_def Let_def rows_def ts_def case_prod_unfold comp_def)
  moreover have "map ag_triple rows = map snd ts"
    by (simp add: rows_def case_prod_unfold)
  ultimately show ?thesis using snds by (auto simp: rows_def)
qed

lemma has_access_triple: "has_access u rt rid perm (Some gs) G A \<longleftrightarrow>
    (\<exists>r \<in> set A. of_resource rt rid r \<and> (ag_triple r = (''user'', ''*'', perm) \<or>
       ag_triple r = (''user'', u, perm) \<or> (\<exists>g \<in> gs. ag_triple r = (''group'', g, perm))))"
  by (auto simp: has_access_def principal_matches_def groups_of_user_def ag_triple_def)

section \<open>Properties of grants\<close>

text \<open>C4: replacing the grants of a resource never fails, keeps the grants unique and those of other
  resources as they were; afterwards a user has a permission on the resource exactly when the
  list sent holds a valid grant of it to everyone, to the user or to one of the user's groups.\<close>

theorem set_access_grants_decides_access:
  assumes "unique_on grant_key A"
  shows "\<exists>rows A'. set_access_grants uuid now rt rid gs A = Inr (rows, A') \<and>
    unique_on grant_key A' \<and>
    filter (\<lambda>r. \<not> of_resource rt rid r) A' = filter (\<lambda>r. \<not> of_resource rt rid r) A \<and>
    (has_access u rt rid perm (Some groups) G A' \<longleftrightarrow>
      (\<exists>g \<in> set (case gs of None \<Rightarrow> [] | Some xs \<Rightarrow> xs).
         grant_triple g = Some (''user'', ''*'', perm) \<or> grant_triple g = Some (''user'', u, perm) \<or>
         (\<exists>i \<in> groups. grant_triple g = Some (''group'', i, perm))))"
proof -
  obtain rows where rows: "set_access_grants uuid now rt rid gs A =
      Inr (rows, filter (\<lambda>r. \<not> of_resource rt rid r) A @ rows)"
    "map ag_triple rows = map ng_triple (normalize_access_grants (\<lambda>_. []) gs)"
    "\<forall>r \<in> set rows. of_resource rt rid r"
    using set_access_grants_eq [OF assms] by blast
  let ?A = "filter (\<lambda>r. \<not> of_resource rt rid r) A @ rows"
  have triples: "ag_triple ` set rows =
      {t. \<exists>g \<in> set (case gs of None \<Rightarrow> [] | Some xs \<Rightarrow> xs). grant_triple g = Some t}"
    using arg_cong [OF rows(2), of set] normalize_triples(1) by simp
  have "unique_on grant_key ?A"
    using rows(1) assms by (auto simp: set_access_grants_def Let_def intro: ins_all_unique unique_on_filter)
  moreover have "filter (\<lambda>r. \<not> of_resource rt rid r) ?A = filter (\<lambda>r. \<not> of_resource rt rid r) A"
    using rows(3) by (simp add: filter_empty_conv)
  moreover have "has_access u rt rid perm (Some groups) G ?A \<longleftrightarrow>
      (\<exists>t \<in> ag_triple ` set rows. t = (''user'', ''*'', perm) \<or> t = (''user'', u, perm) \<or>
         (\<exists>i \<in> groups. t = (''group'', i, perm)))"
    using rows(3) unfolding has_access_triple by auto
  ultimately show ?thesis using rows(1) unfolding triples by blast
qed

text \<open>The rows of a resource that the old dict describes, in the order in which they are written.\<close>

definition legacy_triples :: "legacy_acl \<Rightarrow> triple list" where
  "legacy_triples L = map (\<lambda>i. (''group'', i, ''read'')) (la_read_groups L)
     @ map (\<lambda>i. (''user'', i, ''read'')) (la_read_users L)
     @ map (\<lambda>i. (''group'', i, ''write'')) (la_write_groups L)
     @ map (\<lambda>i. (''user'', i, ''write'')) (la_write_users L)"

definition wf_legacy :: "legacy_acl \<Rightarrow> bool" where
  "wf_legacy L = (distinct (la_read_groups L) \<and> distinct (la_read_users L) \<and>
     distinct (la_write_groups L) \<and> distinct (la_write_users L) \<and> ''*'' \<notin> set (la_read_users L))"

lemma add_once_fold: "distinct (ys @ xs) \<Longrightarrow> foldl (\<lambda>acc x. add_once x acc) ys xs = ys @ xs"
  by (induction xs arbitrary: ys) (auto simp: add_once_def)

lemma legacy_fold_group:
  "foldl (\<lambda>L i. legacy_add L (''group'', i, ''read'')) L xs =
     L\<lparr>la_read_groups := foldl (\<lambda>acc x. add_once x acc) (la_read_groups L) xs\<rparr>"
  "foldl (\<lambda>L i. legacy_add L (''user'', i, ''read'')) L xs =
     L\<lparr>la_read_users := foldl (\<lambda>acc x. add_once x acc) (la_read_users L) xs\<rparr>"
  "foldl (\<lambda>L i. legacy_add L (''group'', i, ''write'')) L xs =
     L\<lparr>la_write_groups := foldl (\<lambda>acc x. add_once x acc) (la_write_groups L) xs\<rparr>"
  "foldl (\<lambda>L i. legacy_add L (''user'', i, ''write'')) L xs =
     L\<lparr>la_write_users := foldl (\<lambda>acc x. add_once x acc) (la_write_users L) xs\<rparr>"
  by (induction xs arbitrary: L) (simp_all add: legacy_add_def)

lemma foldl_map_fun: "foldl f a (map g xs) = foldl (\<lambda>a x. f a (g x)) a xs"
  by (induction xs arbitrary: a) auto

lemma legacy_fold: "wf_legacy L \<Longrightarrow> foldl legacy_add no_legacy (legacy_triples L) = L"
  by (simp add: legacy_triples_def foldl_map_fun legacy_fold_group add_once_fold no_legacy_def wf_legacy_def)

lemma to_access_control_fold:
  "(''user'', ''*'', ''read'') \<notin> ag_triple ` set rows \<Longrightarrow>
   foldl (\<lambda>(L, is_public) g. if ag_triple g = (''user'', ''*'', ''read'') then (L, True)
     else (legacy_add L (ag_triple g), is_public)) (L, b) rows =
   (foldl legacy_add L (map ag_triple rows), b)"
  by (induction rows arbitrary: L) auto

lemma legacy_to_grants:
  assumes "\<And>s. bind_text (PStr s) = Inr s"
  shows "bindR (access_control_to_grants rt (Some (legacy_dict L))) (\<lambda>gds.
      listR (\<lambda>(n, g). mapR (\<lambda>i. mk_grant (uuid n) rt rid now
          (gd_principal_type g, i, gd_permission g)) (bind_text (gd_principal_id g)))
        (enumerate 0 gds)) =
    Inr (map (\<lambda>(n, g). mk_grant (uuid n) rt rid now g) (enumerate 0 (legacy_triples L)))"
proof -
  define mk where "mk = (\<lambda>(t, i, p). \<lparr>gd_principal_type = t, gd_principal_id = PStr i, gd_permission = p\<rparr>)"
  have gds: "access_control_to_grants rt (Some (legacy_dict L)) = Inr (map mk (legacy_triples L))"
    by (simp add: access_control_to_grants_def legacy_dict_def perm_grants_def legacy_triples_def
        mk_def comp_def)
  have "listR (\<lambda>(n, g). mapR (\<lambda>i. mk_grant (uuid n) rt rid now
          (gd_principal_type g, i, gd_permission g)) (bind_text (gd_principal_id g)))
        (enumerate k (map mk ts)) =
      Inr (map (\<lambda>(n, g). mk_grant (uuid n) rt rid now g) (enumerate k ts))" for k ts
    by (induction ts arbitrary: k) (auto simp: mk_def assms)
  then show ?thesis by (simp add: gds)
qed

lemma legacy_add_sets:
  "set (la_read_groups (legacy_add L t)) = set (la_read_groups L) \<union> {i. (''group'', i, ''read'') = t}"
  "set (la_read_users (legacy_add L t)) = set (la_read_users L) \<union> {i. (''user'', i, ''read'') = t}"
  "set (la_write_groups (legacy_add L t)) = set (la_write_groups L) \<union> {i. (''group'', i, ''write'') = t}"
  "set (la_write_users (legacy_add L t)) = set (la_write_users L) \<union> {i. (''user'', i, ''write'') = t}"
  by (cases t; auto simp: legacy_add_def add_once_def)+

lemma one_more: "{i. (a, i, b) \<in> set (t # ts)} = {i. (a, i, b) = t} \<union> {i. (a, i, b) \<in> set ts}"
  by auto

lemma legacy_fold_sets:
  "set (la_read_groups (foldl legacy_add L ts)) = set (la_read_groups L) \<union> {i. (''group'', i, ''read'') \<in> set ts} \<and>
   set (la_read_users (foldl legacy_add L ts)) = set (la_read_users L) \<union> {i. (''user'', i, ''read'') \<in> set ts} \<and>
   set (la_write_groups (foldl legacy_add L ts)) = set (la_write_groups L) \<union> {i. (''group'', i, ''write'') \<in> set ts} \<and>
   set (la_write_users (foldl legacy_add L ts)) = set (la_write_users L) \<union> {i. (''user'', i, ''write'') \<in> set ts}"
proof (induction ts arbitrary: L)
  case (Cons t ts)
  show ?case using Cons.IH [of "legacy_add L t"] unfolding foldl.simps legacy_add_sets one_more by (simp only: Un_assoc)
qed simp

definition distinct_lists :: "legacy_acl \<Rightarrow> bool" where
  "distinct_lists L = (distinct (la_read_groups L) \<and> distinct (la_read_users L) \<and>
     distinct (la_write_groups L) \<and> distinct (la_write_users L))"

lemma legacy_fold_distinct: "distinct_lists L \<Longrightarrow> distinct_lists (foldl legacy_add L ts)"
proof (rule foldl_invariant)
  fix L :: legacy_acl and t :: triple
  assume "distinct_lists L"
  then show "distinct_lists (legacy_add L t)" by (cases t) (auto simp: distinct_lists_def legacy_add_def add_once_def)
qed

text \<open>The four lists of two dicts have the same identifiers, each once.\<close>

definition same_identifiers :: "legacy_acl \<Rightarrow> legacy_acl \<Rightarrow> bool" where
  "same_identifiers L M = (distinct_lists L \<and>
     set (la_read_groups L) = set (la_read_groups M) \<and> set (la_read_users L) = set (la_read_users M) \<and>
     set (la_write_groups L) = set (la_write_groups M) \<and> set (la_write_users L) = set (la_write_users M))"

text \<open>C5: take an access control dict in the full shape, with the lists \<open>group_ids\<close> and \<open>user_ids\<close> under \<open>read\<close>
  and \<open>write\<close>, whose lists have no duplicates and whose readers have no wildcard. Once it is set, reading it
  back gives a dict of that shape with the same identifiers in each list, in whatever order the database
  answers, and the dict itself when the rows come back in the order of their insertion; a dict with four
  empty lists, which writes no row, comes back as the empty dict.\<close>

theorem access_control_roundtrip:
  assumes "unique_on grant_key A" and "wf_legacy L" and "\<And>s. bind_text (PStr s) = Inr s"
    and "\<And>xs. set (order xs) = set xs"
  shows "\<exists>rows A'. set_access_control bind_text uuid now rt rid (Some (legacy_dict L)) A = Inr (rows, A') \<and>
    (L = no_legacy \<longrightarrow> get_access_control order rt rid A' = Some []) \<and>
    (L \<noteq> no_legacy \<longrightarrow>
      (\<exists>M. get_access_control order rt rid A' = Some (legacy_dict M) \<and> same_identifiers M L) \<and>
      get_access_control (\<lambda>rows. rows) rt rid A' = Some (legacy_dict L))"
proof -
  define rows where "rows = map (\<lambda>(n, g). mk_grant (uuid n) rt rid now g) (enumerate 0 (legacy_triples L))"
  let ?A = "filter (\<lambda>r. \<not> of_resource rt rid r) A @ rows"
  have dist: "distinct (map snd (enumerate 0 (legacy_triples L)))"
    using assms(2) by (auto simp: wf_legacy_def legacy_triples_def distinct_map inj_on_def)
  have set: "set_access_control bind_text uuid now rt rid (Some (legacy_dict L)) A = Inr (rows, ?A)"
    unfolding set_access_control_def Let_def bindR_assoc [symmetric] legacy_to_grants [OF assms(3)]
      bindR.simps replace_grants [OF assms(1) dist] mapR_simps rows_def by (rule refl)
  have triples: "map ag_triple rows = legacy_triples L"
    by (simp add: rows_def case_prod_unfold comp_def)
  have mine: "filter (of_resource rt rid) ?A = rows"
    by (auto simp: filter_empty_conv filter_id_conv rows_def)
  have empty: "rows = [] \<longleftrightarrow> L = no_legacy"
    using triples by (cases L) (auto simp: legacy_triples_def no_legacy_def)
  have get: "get_access_control ord rt rid ?A = Some (legacy_dict (foldl legacy_add no_legacy (map ag_triple (ord rows))))"
    if "set (ord rows) = set rows" "rows \<noteq> []" for ord
  proof -
    have "(''user'', ''*'', ''read'') \<notin> ag_triple ` set (ord rows)"
      using assms(2) arg_cong [OF triples, of set] that(1) by (auto simp: wf_legacy_def legacy_triples_def)
    moreover have "ord rows \<noteq> []" using that by auto
    ultimately show ?thesis
      unfolding get_access_control_def mine grants_to_access_control_def
      using to_access_control_fold [of "ord rows" no_legacy False] by simp
  qed
  have "same_identifiers (foldl legacy_add no_legacy (map ag_triple (order rows))) L"
  proof -
    let ?M = "foldl legacy_add no_legacy (map ag_triple (order rows))"
    have "set (map ag_triple (order rows)) = set (legacy_triples L)"
      using assms(4) [of rows] arg_cong [OF triples, of set] by simp
    moreover have "distinct_lists ?M" by (rule legacy_fold_distinct) (simp add: distinct_lists_def no_legacy_def)
    ultimately show ?thesis
      using legacy_fold_sets [of no_legacy "map ag_triple (order rows)"]
      by (auto simp: same_identifiers_def no_legacy_def legacy_triples_def)
  qed
  moreover have "get_access_control order rt rid ?A = Some []" if "rows = []"
    unfolding get_access_control_def mine grants_to_access_control_def using that assms(4) [of rows] by simp
  moreover have "get_access_control (\<lambda>rows. rows) rt rid ?A = Some (legacy_dict L)" if "rows \<noteq> []"
    using get [of "\<lambda>rows. rows"] that legacy_fold [OF assms(2)] triples by simp
  ultimately show ?thesis using set get [of order, OF assms(4)] empty by blast
qed

theorem access_control_roundtrip_witness:
  "\<exists>rows A' M. set_access_control (\<lambda>v. case v of PStr s \<Rightarrow> Inr s | _ \<Rightarrow> Inl TypeError) (\<lambda>n. []) 0 ''tool'' ''t''
     (Some (legacy_dict (no_legacy\<lparr>la_read_users := [''u'', ''v'']\<rparr>))) [] = Inr (rows, A') \<and>
   get_access_control rev ''tool'' ''t'' A' = Some (legacy_dict M) \<and>
   same_identifiers M (no_legacy\<lparr>la_read_users := [''u'', ''v'']\<rparr>)"
proof -
  have "wf_legacy (no_legacy\<lparr>la_read_users := [''u'', ''v'']\<rparr>)" "no_legacy\<lparr>la_read_users := [''u'', ''v'']\<rparr> \<noteq> no_legacy"
    by (simp_all add: wf_legacy_def no_legacy_def)
  moreover have "unique_on grant_key []" by (simp add: unique_on_def)
  ultimately show ?thesis
    using access_control_roundtrip [of "[]" _ "\<lambda>v. case v of PStr s \<Rightarrow> Inr s | _ \<Rightarrow> Inl TypeError" rev "\<lambda>n. []" 0 "''tool''" "''t''"]
    by simp blast
qed

theorem set_access_grants_decides_access_witness:
  "\<exists>rows A'. set_access_grants (\<lambda>n. []) 0 ''tool'' ''t''
      (Some [PDict [(''principal_type'', PStr ''group''), (''principal_id'', PStr ''g''),
                    (''permission'', PStr ''write'')]]) [] = Inr (rows, A') \<and>
    has_access ''u'' ''tool'' ''t'' ''write'' (Some {''g''}) \<lparr>group_rows = [], member_rows = []\<rparr> A'"
proof -
  let ?g = "PDict [(''principal_type'', PStr ''group''), (''principal_id'', PStr ''g''),
    (''permission'', PStr ''write'')]"
  have "grant_triple ?g = Some (''group'', ''g'', ''write'')"
    by (simp add: grant_triple_def grant_fields_def field_def valid_triple_def)
  with set_access_grants_decides_access [of "[]" "\<lambda>n. []" 0 "''tool''" "''t''" "Some [?g]" "''u''" "''write''" "{''g''}"
      "\<lparr>group_rows = [], member_rows = []\<rparr>"]
  show ?thesis unfolding unique_on_def by simp blast
qed

text \<open>A user is a member of the groups that the join lists.\<close>

lemma groups_of_member: "groups_of_user None u G = {g \<in> g_id ` set (group_rows G). in_group G u g}"
  using joined_ids [of u G]
  by (simp add: groups_of_user_def get_groups_by_member_id_def image_comp)

text \<open>for every user who is not pending, the list of the users with access to a resource holds
  the user exactly when the access check lets the user in, when memberships only name existing
  groups.\<close>

theorem users_with_access_iff_has_access:
  assumes "\<forall>m \<in> set (member_rows G). gm_group_id m \<in> g_id ` set (group_rows G)"
    and "u \<in> set (user_rows U)" and "u_role u \<noteq> ''pending''"
  shows "u \<in> set (get_users_with_access rank rt rid perm C G U A) \<longleftrightarrow>
    has_access (u_id u) rt rid perm None G A"
proof -
  define grants where "grants = filter (\<lambda>r. of_resource rt rid r \<and> ag_permission r = perm) A"
  have groups: "groups_of_user None (u_id u) G = {g. in_group G (u_id u) g}"
    using assms(1) by (auto simp: groups_of_member in_group_def)
  have acc: "has_access (u_id u) rt rid perm None G A \<longleftrightarrow>
      (\<exists>r \<in> set grants. principal_matches (u_id u) {g. in_group G (u_id u) g} r)"
    by (auto simp: has_access_def groups grants_def)
  show ?thesis
  proof (cases "list_ex wildcard_user grants")
    case True
    then have "u \<in> set (get_users_with_access rank rt rid perm C G U A)"
      using assms(2,3) nonpending_users [of rank C G U]
      unfolding get_users_with_access_def Let_def grants_def [symmetric] by simp
    moreover have "has_access (u_id u) rt rid perm None G A"
      using True unfolding acc by (auto simp: list_ex_iff principal_matches_def)
    ultimately show ?thesis by simp
  next
    case False
    define users_of where "users_of = (\<lambda>r :: grant_row. if ag_principal_type r = ''user'' then [ag_principal_id r]
        else if ag_principal_type r = ''group'' then get_group_user_ids_by_id (ag_principal_id r) G
        else [])"
    define ids where "ids = remdups (concat (map users_of grants))"
    have one: "u_id u \<in> set (users_of r) \<longleftrightarrow> principal_matches (u_id u) {g. in_group G (u_id u) g} r"
      if "r \<in> set grants" for r
    proof (cases "ag_principal_type r = ''user''")
      case True
      with False that show ?thesis by (auto simp: users_of_def principal_matches_def list_ex_iff)
    next
      case other: False
      have "u_id u \<in> set (get_group_user_ids_by_id g G) \<longleftrightarrow> in_group G (u_id u) g" for g
        by (auto simp: get_group_user_ids_by_id_def in_group_def rev_image_eqI)
      with other show ?thesis by (auto simp: users_of_def principal_matches_def)
    qed
    have "get_users_with_access rank rt rid perm C G U A =
        (if ids = [] then [] else get_users_by_user_ids ids U)"
      unfolding get_users_with_access_def Let_def grants_def [symmetric] ids_def users_of_def
      using False by simp
    then have "u \<in> set (get_users_with_access rank rt rid perm C G U A) \<longleftrightarrow> u_id u \<in> set ids"
      using assms(2) by (auto simp: get_users_by_user_ids_def)
    also have "\<dots> \<longleftrightarrow> (\<exists>r \<in> set grants. principal_matches (u_id u) {g. in_group G (u_id u) g} r)"
      using one by (simp add: ids_def)
    finally show ?thesis using acc by simp
  qed
qed

theorem users_with_access_iff_has_access_witness:
  "let u = \<lparr>u_id = ''u'', u_email = ''e'', u_username = None, u_role = ''user'', u_name = ''n'',
        u_profile_image_url = None, u_settings = None, u_oauth = None, u_scim = None,
        u_last_active_at = 0, u_updated_at = 0, u_created_at = 0\<rparr>;
      A = [mk_grant ''i'' ''tool'' ''t'' 0 (''user'', ''u'', ''read'')] in
   u \<in> set (get_users_with_access (\<lambda>s. 0) ''tool'' ''t'' ''read'' [] \<lparr>group_rows = [], member_rows = []\<rparr>
     \<lparr>user_rows = [u], api_key_rows = []\<rparr> A)"
  unfolding Let_def
  by (subst users_with_access_iff_has_access)
     (simp_all add: has_access_def principal_matches_def mk_grant_def)

text \<open>The conditions that the document filter builds accept the rows that the access check accepts.\<close>

lemma or_conditions_principal:
  assumes "user_id \<noteq> []"
  shows "or_conditions (wildcard_user # user_condition user_id @ group_condition group_ids) r \<longleftrightarrow>
    principal_matches user_id (set group_ids) r"
  using assms by (auto simp: or_conditions_def user_condition_def group_condition_def principal_matches_def)

lemma grant_exists_has_access:
  assumes "user_id \<noteq> []"
  shows "grant_exists rt perm (or_conditions (wildcard_user # user_condition user_id @ group_condition group_ids)) A d
    \<longleftrightarrow> has_access user_id rt (doc_id d) perm (Some (set group_ids)) G A"
  unfolding grant_exists_def or_conditions_principal [OF assms] has_access_def groups_of_user_def
  by simp

text \<open>filtering documents for a permission keeps exactly those that the user owns or that the
  access check grants to the user, in their order; with no user and no groups it keeps all.\<close>

theorem permission_filter_is_has_access:
  assumes "perm \<noteq> ''read_only''"
  shows "has_permission_filter group_ids user_id rt perm A docs =
     filter (\<lambda>d. if user_id \<noteq> [] then
         doc_user_id d = user_id \<or> has_access user_id rt (doc_id d) perm (Some (set group_ids)) G A
       else group_ids = [] \<or> (\<exists>r \<in> set A. of_resource rt (doc_id d) r \<and> ag_permission r = perm \<and>
         (wildcard_user r \<or> ag_principal_type r = ''group'' \<and> ag_principal_id r \<in> set group_ids))) docs"
proof (cases "user_id = []")
  case True
  with assms show ?thesis
    by (auto simp: has_permission_filter_def grant_exists_def or_conditions_def user_condition_def
        group_condition_def intro!: filter_cong)
next
  case False
  with assms show ?thesis
    by (auto simp: has_permission_filter_def grant_exists_has_access [of _ _ _ _ _ _ G] intro!: filter_cong)
qed

theorem permission_filter_is_has_access_witness:
  "let d = \<lparr>doc_id = ''n'', doc_user_id = ''o''\<rparr>; A = [mk_grant ''1'' ''note'' ''n'' 0 (''group'', ''g'', ''write'')] in
   has_permission_filter [''g''] ''u'' ''note'' ''write'' A [d] = [d]"
  unfolding Let_def
  by (subst permission_filter_is_has_access [where G = "\<lparr>group_rows = [], member_rows = []\<rparr>"])
     (simp_all add: has_access_triple)

text \<open>the read-only filter looks at write grants that name the user or a group only: a document
  that everybody may write is listed as read-only to a user who holds a read grant of their own.\<close>

theorem read_only_filter_ignores_public_write:
  assumes "d \<in> set docs" and "user_id \<noteq> []" and "doc_user_id d \<noteq> user_id"
    and "\<forall>r \<in> set A. of_resource rt (doc_id d) r \<longrightarrow>
      ag_triple r \<in> {(''user'', ''*'', ''write''), (''user'', user_id, ''read'')}"
    and "\<forall>t \<in> {(''user'', ''*'', ''write''), (''user'', user_id, ''read'')}.
      \<exists>r \<in> set A. of_resource rt (doc_id d) r \<and> ag_triple r = t" and "user_id \<noteq> ''*''"
  shows "d \<in> set (has_permission_filter group_ids user_id rt ''read_only'' A docs) \<and>
    has_access user_id rt (doc_id d) ''write'' (Some (set group_ids)) G A"
proof
  have "has_access user_id rt (doc_id d) ''write'' (Some (set group_ids)) G A"
    using assms(5) unfolding has_access_triple by auto
  then show "has_access user_id rt (doc_id d) ''write'' (Some (set group_ids)) G A" .
  let ?mine = "or_conditions (user_condition user_id @ group_condition group_ids)"
  have mine: "?mine r \<longleftrightarrow> ag_principal_type r = ''user'' \<and> ag_principal_id r = user_id \<or>
      ag_principal_type r = ''group'' \<and> ag_principal_id r \<in> set group_ids" for r
    using assms(2) by (auto simp: or_conditions_def user_condition_def group_condition_def)
  have "grant_exists rt ''read'' ?mine A d"
    using assms(5) by (auto simp: grant_exists_def mine ag_triple_def)
  moreover have "\<not> grant_exists rt ''write'' ?mine A d"
    using assms(4,6) by (auto simp: grant_exists_def mine ag_triple_def)
  moreover have "\<not> grant_exists rt ''read'' wildcard_user A d"
    using assms(4,6) by (auto simp: grant_exists_def ag_triple_def)
  ultimately show "d \<in> set (has_permission_filter group_ids user_id rt ''read_only'' A docs)"
    using assms(1-3) by (simp add: has_permission_filter_def has_read_only_permission_filter_def Let_def)
qed

theorem read_only_filter_ignores_public_write_witness:
  "let A = [mk_grant ''1'' ''note'' ''n'' 0 (''user'', ''*'', ''write''), mk_grant ''2'' ''note'' ''n'' 0 (''user'', ''u'', ''read'')];
       d = \<lparr>doc_id = ''n'', doc_user_id = ''owner''\<rparr> in
   d \<in> set (has_permission_filter [] ''u'' ''note'' ''read_only'' A [d]) \<and>
   has_access ''u'' ''note'' (doc_id d) ''write'' (Some (set [])) \<lparr>group_rows = [], member_rows = []\<rparr> A"
  unfolding Let_def by (rule read_only_filter_ignores_public_write) auto

section \<open>The access check as an interface\<close>

text \<open>
  What the callers of the access check rely on: the batch check is the pointwise check, and more
  groups never take access away.
\<close>

locale access_oracle =
  fixes can :: "string set \<Rightarrow> string \<Rightarrow> bool"
    and batch :: "string set \<Rightarrow> string list \<Rightarrow> string set"
  assumes batch_pointwise: "batch gs ids = {i \<in> set ids. can gs i}"
    and can_mono: "gs \<subseteq> gs' \<Longrightarrow> can gs i \<Longrightarrow> can gs' i"
begin

lemma batch_append: "batch gs (xs @ ys) = batch gs xs \<union> batch gs ys"
  by (auto simp: batch_pointwise)

lemma batch_mono: "gs \<subseteq> gs' \<Longrightarrow> set xs \<subseteq> set ys \<Longrightarrow> batch gs xs \<subseteq> batch gs' ys"
  using can_mono by (auto simp: batch_pointwise)

lemma batch_filter: "filter (\<lambda>i. i \<in> batch gs xs) xs = filter (can gs) xs"
  by (auto simp: batch_pointwise intro: filter_cong)

lemma some_iff_batch: "(\<exists>i \<in> set xs. can gs i) \<longleftrightarrow> batch gs xs \<noteq> {}"
  by (auto simp: batch_pointwise)

end

interpretation grants: access_oracle
  "\<lambda>gs i. has_access u rt i perm (Some gs) G A"
  "\<lambda>gs ids. get_accessible_resource_ids u rt ids perm (Some gs) G A"
  for u rt perm G A
proof unfold_locales
  show "get_accessible_resource_ids u rt ids perm (Some gs) G A =
      {i \<in> set ids. has_access u rt i perm (Some gs) G A}" for gs ids
    by (auto simp: get_accessible_resource_ids_def has_access_def)
  show "gs \<subseteq> gs' \<Longrightarrow> has_access u rt i perm (Some gs) G A \<Longrightarrow>
      has_access u rt i perm (Some gs') G A" for gs gs' i
    unfolding has_access_triple by blast
qed

end
