(* ===== verification/Permissions.thy ===== *)
theory Permissions
  imports Access_Grants
begin

text \<open>
  Permissions and access decisions, \<open>utils/access_control/__init__.py\<close>: the permissions of a user
  as the combination of the groups' nested dicts over the defaults, the check of one permission,
  the check of a list of grants kept in a configuration, the migration of old access control
  dicts, the filter of the grants that a user may set, and the access to a model along its chain of
  base models. \<open>DEFAULT_USER_PERMISSIONS\<close>, read from the environment, is an argument.
\<close>

section \<open>Nested permissions\<close>

function fill_missing_permissions :: "pydict \<Rightarrow> pydict \<Rightarrow> pydict" where
  "fill_missing_permissions permissions [] = permissions"
| "fill_missing_permissions permissions ((key, v) # defaults) =
     fill_missing_permissions
       (case dget permissions key of
          None \<Rightarrow> dset key v permissions
        | Some w \<Rightarrow> (case (v, w) of
            (PDict dv, PDict dw) \<Rightarrow> dset key (PDict (fill_missing_permissions dw dv)) permissions
          | _ \<Rightarrow> permissions)) defaults"
  by pat_completeness auto
termination
  by (relation "measure (\<lambda>(p, d). size (PDict d))") auto

text \<open>A value that is no dict takes no key: both \<open>key in x\<close> and \<open>x[key] = v\<close> end in a \<open>TypeError\<close>.\<close>

function combine_permissions :: "py \<Rightarrow> pydict \<Rightarrow> py result" where
  "combine_permissions p [] = Inr p"
| "combine_permissions p ((key, v) # gs) =
     (case p of
        PDict d \<Rightarrow>
          (case v of
             PDict dv \<Rightarrow>
               bindR (combine_permissions (case dget d key of None \<Rightarrow> PDict [] | Some w \<Rightarrow> w) dv)
                 (\<lambda>w. combine_permissions (PDict (dset key w d)) gs)
           | _ \<Rightarrow> combine_permissions
                  (PDict (dset key (case dget d key of None \<Rightarrow> v | Some w \<Rightarrow> py_or w v) d)) gs)
      | _ \<Rightarrow> Inl TypeError)"
  by pat_completeness auto
termination
  by (relation "measure (\<lambda>(p, d). size (PDict d))") auto

definition group_permissions :: "group_row \<Rightarrow> py" where
  "group_permissions g = py_or (g_permissions g) (PDict [])"

text \<open>The deep copy through JSON of the defaults is the value itself.\<close>

definition get_permissions :: "string \<Rightarrow> pydict \<Rightarrow> groups_db \<Rightarrow> pydict result" where
  "get_permissions user_id default_permissions G =
     bindR (foldR (\<lambda>p g. case group_permissions g of
              PDict d \<Rightarrow> combine_permissions p d
            | _ \<Rightarrow> Inl AttributeError)
        (PDict default_permissions) (get_groups_by_member_id user_id G))
       (\<lambda>p. case p of
          PDict d \<Rightarrow> Inr (fill_missing_permissions d default_permissions)
        | _ \<Rightarrow> Inl TypeError)"

fun get_permission :: "py \<Rightarrow> string list \<Rightarrow> bool result" where
  "get_permission p [] = Inr (truthy p)"
| "get_permission p (key # keys) =
     bindR (py_in key p) (\<lambda>there.
       if \<not> there then Inr False else bindR (py_item p key) (\<lambda>q. get_permission q keys))"

fun first_group_permission :: "string list \<Rightarrow> group_row list \<Rightarrow> bool result" where
  "first_group_permission keys [] = Inr False"
| "first_group_permission keys (g # gs) =
     bindR (get_permission (group_permissions g) keys) (\<lambda>b.
       if b then Inr True else first_group_permission keys gs)"

definition has_permission ::
  "pydict \<Rightarrow> string \<Rightarrow> string \<Rightarrow> pydict \<Rightarrow> groups_db \<Rightarrow> bool result" where
  "has_permission DEFAULT_USER_PERMISSIONS user_id permission_key default_permissions G =
     (let keys = split_on CHR ''.'' permission_key in
      bindR (first_group_permission keys (get_groups_by_member_id user_id G)) (\<lambda>b.
        if b then Inr True
        else get_permission
          (PDict (fill_missing_permissions default_permissions DEFAULT_USER_PERMISSIONS)) keys))"

section \<open>Grants kept in a configuration\<close>

definition grant_allows :: "string \<Rightarrow> string \<Rightarrow> string set \<Rightarrow> py \<Rightarrow> bool result" where
  "grant_allows user_id permission user_group_ids g =
     (case g of
        PDict d \<Rightarrow>
          if field d ''permission'' \<noteq> PStr permission then Inr False
          else if field d ''principal_type'' = PStr ''user'' \<and>
                  (field d ''principal_id'' = PStr ''*'' \<or> field d ''principal_id'' = PStr user_id)
          then Inr True
          else if field d ''principal_type'' = PStr ''group'' \<and> user_group_ids \<noteq> {} then
            (if hashable (field d ''principal_id'')
             then Inr (\<exists>i \<in> user_group_ids. field d ''principal_id'' = PStr i) else Inl TypeError)
          else Inr False
      | _ \<Rightarrow> Inr False)"

fun any_grant_allows :: "string \<Rightarrow> string \<Rightarrow> string set \<Rightarrow> py list \<Rightarrow> bool result" where
  "any_grant_allows user_id permission gs [] = Inr False"
| "any_grant_allows user_id permission gs (g # grants) =
     bindR (grant_allows user_id permission gs g) (\<lambda>b.
       if b then Inr True else any_grant_allows user_id permission gs grants)"

text \<open>\<open>has_access\<close> of this module, on the value that the configuration holds.\<close>

definition has_access_in :: "string \<Rightarrow> string \<Rightarrow> py \<Rightarrow> string set option \<Rightarrow> groups_db \<Rightarrow> bool result" where
  "has_access_in user_id permission access_grants user_group_ids G =
     (if \<not> truthy access_grants then Inr False
      else bindR (py_iter access_grants)
        (any_grant_allows user_id permission (groups_of_user user_group_ids user_id G)))"

definition has_connection_access ::
  "bool \<Rightarrow> user_row \<Rightarrow> py \<Rightarrow> string set option \<Rightarrow> groups_db \<Rightarrow> bool result" where
  "has_connection_access BYPASS_ADMIN_ACCESS_CONTROL user connection user_group_ids G =
     (if u_role user = ''admin'' \<and> BYPASS_ADMIN_ACCESS_CONTROL then Inr True
      else bindR (py_get connection ''config'') (\<lambda>c.
           bindR (py_get_or (py_or c (PDict [])) ''access_grants'' (PList [])) (\<lambda>access_grants.
           if \<not> truthy access_grants then Inr (u_role user = ''admin'')
           else has_access_in (u_id user) ''read'' access_grants user_group_ids G)))"

definition migrated_grant :: "grant_dict \<Rightarrow> py" where
  "migrated_grant g = PDict [(''principal_type'', PStr (gd_principal_type g)),
     (''principal_id'', gd_principal_id g), (''permission'', PStr (gd_permission g))]"

definition migrate_access_control :: "string \<Rightarrow> string \<Rightarrow> pydict \<Rightarrow> pydict result" where
  "migrate_access_control ac_key grants_key data =
     (if dget data grants_key \<noteq> None \<or> dget data ac_key = None then Inr data
      else bindR (case dget data ac_key of
             Some (PDict ac) \<Rightarrow>
               if ac = [] then Inr []
               else bindR (perm_grants ac ''read'') (\<lambda>rs.
                    bindR (perm_grants ac ''write'') (\<lambda>ws. Inr (rs @ ws)))
           | _ \<Rightarrow> Inr [])
        (\<lambda>grants. Inr (dpop ac_key (dset grants_key (PList (map migrated_grant grants)) data))))"

section \<open>The grants that a user may set\<close>

definition is_public_grant :: "py \<Rightarrow> bool" where
  "is_public_grant g = (grant_attr g ''principal_type'' = PStr ''user''
     \<and> grant_attr g ''principal_id'' = PStr ''*'')"

definition is_group_grant :: "py \<Rightarrow> bool" where
  "is_group_grant g = (grant_attr g ''principal_type'' = PStr ''group'')"

text \<open>The four steps, each with the list that the one before it leaves; \<open>may\<close> is the check of a permission.\<close>

definition filter_anyone_grants ::
  "(string \<Rightarrow> bool result) \<Rightarrow> string \<Rightarrow> string option \<Rightarrow> py list \<Rightarrow> py list result" where
  "filter_anyone_grants may user_role anyone_permission_key gs =
     bindR (if \<not> has_anyone_read_access_grant (Some gs) then Inr False
            else (case anyone_permission_key of
                None \<Rightarrow> Inr True
              | Some key \<Rightarrow>
                  if key = [] then Inr True
                  else if user_role = ''admin'' then Inr False
                  else mapR Not (may key)))
       (\<lambda>strip. Inr (if strip then strip_anyone_access_grants (Some gs) else gs))"

definition filter_public_grants ::
  "(string \<Rightarrow> bool result) \<Rightarrow> string \<Rightarrow> py list \<Rightarrow> py list result" where
  "filter_public_grants may public_permission_key gs =
     bindR (if has_public_read_access_grant (Some gs) \<or> has_public_write_access_grant (Some gs)
            then mapR Not (may public_permission_key) else Inr False)
       (\<lambda>strip. Inr (if strip then filter (\<lambda>g. \<not> is_public_grant g) gs else gs))"

definition filter_user_grants :: "(string \<Rightarrow> bool result) \<Rightarrow> py list \<Rightarrow> py list result" where
  "filter_user_grants may gs =
     bindR (if has_user_access_grant (Some gs)
            then mapR Not (may ''access_grants.allow_users'') else Inr False)
       (\<lambda>strip. Inr (if strip then strip_user_access_grants (Some gs) else gs))"

definition filter_group_grants :: "(string \<Rightarrow> bool result) \<Rightarrow> py list \<Rightarrow> py list result" where
  "filter_group_grants may gs =
     bindR (if list_ex is_group_grant gs
            then mapR Not (may ''access_grants.allow_groups'') else Inr False)
       (\<lambda>strip. Inr (if strip then filter (\<lambda>g. \<not> is_group_grant g) gs else gs))"

definition filter_allowed_access_grants ::
  "pydict \<Rightarrow> pydict \<Rightarrow> string \<Rightarrow> string \<Rightarrow> py list \<Rightarrow> string \<Rightarrow> string option \<Rightarrow> groups_db \<Rightarrow> py list result" where
  "filter_allowed_access_grants DEFAULTS default_permissions user_id user_role access_grants
     public_permission_key anyone_permission_key G =
     (let may = (\<lambda>key. has_permission DEFAULTS user_id key default_permissions G) in
      if access_grants = [] then Inr access_grants
      else bindR (filter_anyone_grants may user_role anyone_permission_key access_grants) (\<lambda>g1.
           if user_role = ''admin'' then Inr g1
           else bindR (filter_public_grants may public_permission_key g1) (\<lambda>g2.
                bindR (filter_user_grants may g2) (filter_group_grants may))))"

section \<open>Models and their base models\<close>

record model_row =
  m_id :: string
  m_user_id :: string
  m_base_model_id :: "string option"

definition get_model_by_id :: "string \<Rightarrow> model_row list \<Rightarrow> model_row option" where
  "get_model_by_id i M = find (\<lambda>m. m_id m = i) M"

text \<open>The test of one hop: the owner, or a read grant.\<close>

definition may_read_model ::
  "string \<Rightarrow> string set option \<Rightarrow> groups_db \<Rightarrow> grants_db \<Rightarrow> model_row \<Rightarrow> bool" where
  "may_read_model user_id user_group_ids G A m =
     (user_id = m_user_id m \<or> has_access user_id ''model'' (m_id m) ''read'' user_group_ids G A)"

text \<open>The loop over the chain; an empty base model id ends it like an absent one.\<close>

function base_model_walk ::
  "(model_row \<Rightarrow> bool) \<Rightarrow> string option \<Rightarrow> model_row list \<Rightarrow> string set \<Rightarrow> string option \<Rightarrow> bool" where
  "base_model_walk may user_role M seen base =
     (case base of
        None \<Rightarrow> True
      | Some b \<Rightarrow>
          if b = [] \<or> b \<in> seen then True
          else (case get_model_by_id b M of
                  None \<Rightarrow> user_role = Some ''admin''
                | Some m \<Rightarrow>
                    if \<not> may m then False
                    else base_model_walk may user_role M (insert b seen) (m_base_model_id m)))"
  by pat_completeness auto

lemma get_model_by_id_SomeD: "get_model_by_id i M = Some m \<Longrightarrow> m \<in> set M \<and> m_id m = i"
  unfolding get_model_by_id_def by (rule find_SomeD)

termination base_model_walk
proof (relation "measure (\<lambda>(may, r, M, seen, b). card (m_id ` set M - seen))")
  fix M :: "model_row list" and seen b m
  assume "\<not> (b = [] \<or> b \<in> seen)" "get_model_by_id b M = Some m"
  then have "b \<in> m_id ` set M - seen" by (auto dest!: get_model_by_id_SomeD)
  then have "card (m_id ` set M - seen - {b}) < card (m_id ` set M - seen)"
    by (intro card_Diff1_less) simp
  moreover have "m_id ` set M - seen - {b} = m_id ` set M - insert b seen" by blast
  ultimately show "((may, r, M, insert b seen, m_base_model_id m), (may, r, M, seen, base))
      \<in> measure (\<lambda>(may, r, M, seen, b). card (m_id ` set M - seen))" for may r base
    by simp
qed simp

declare base_model_walk.simps [simp del]

definition has_base_model_access ::
  "string \<Rightarrow> model_row \<Rightarrow> string option \<Rightarrow> string set option \<Rightarrow> model_row list \<Rightarrow> groups_db \<Rightarrow>
   grants_db \<Rightarrow> bool" where
  "has_base_model_access user_id model_info user_role user_group_ids M G A =
     base_model_walk (may_read_model user_id user_group_ids G A) user_role M {m_id model_info}
       (m_base_model_id model_info)"

definition check_model_access ::
  "user_row \<Rightarrow> model_row option \<Rightarrow> bool \<Rightarrow> model_row list \<Rightarrow> groups_db \<Rightarrow> grants_db \<Rightarrow> unit result" where
  "check_model_access user model_info bypass_filter M G A =
     (let denied = HTTPException 403 ''Model not found'';
          groups = Some (groups_of_user None (u_id user) G) in
      if bypass_filter then Inr ()
      else (case model_info of
              None \<Rightarrow> if u_role user \<noteq> ''admin'' then Inl denied else Inr ()
            | Some m \<Rightarrow>
                if u_role user = ''admin'' then Inr ()
                else if \<not> may_read_model (u_id user) groups G A m then Inl denied
                else if \<not> has_base_model_access (u_id user) m (Some (u_role user)) groups M G A
                then Inl denied else Inr ()))"

section \<open>Combining permissions\<close>

text \<open>The value at a path of nested dicts.\<close>

fun at_path :: "py \<Rightarrow> string list \<Rightarrow> py option" where
  "at_path p [] = Some p"
| "at_path (PDict d) (k # ks) = (case dget d k of None \<Rightarrow> None | Some q \<Rightarrow> at_path q ks)"
| "at_path _ (k # ks) = None"

text \<open>A permission is absent or a boolean at a path.\<close>

definition bool_at :: "string list \<Rightarrow> py \<Rightarrow> bool" where
  "bool_at ks p = (at_path p ks \<in> {None, Some (PBool True), Some (PBool False)})"

definition true_at :: "string list \<Rightarrow> py \<Rightarrow> bool" where
  "true_at ks p = (at_path p ks = Some (PBool True))"

lemma get_permission_true_at:
  "get_permission p ks = Inr b \<Longrightarrow> bool_at ks p \<Longrightarrow> b = true_at ks p"
proof (induction p ks rule: get_permission.induct)
  case (1 p)
  then show ?case by (auto simp: bool_at_def true_at_def)
next
  case (2 p k ks)
  show ?case
  proof (cases p)
    case (PDict d)
    with 2 show ?thesis
      by (cases "dget d k") (auto simp: bool_at_def true_at_def)
  qed (use 2 in \<open>auto simp: true_at_def split: if_splits\<close>)
qed

lemma fill_missing_at_path:
  "at_path (PDict d) ks = Some (PBool b) \<Longrightarrow>
   at_path (PDict (fill_missing_permissions d D)) ks = Some (PBool b)"
proof (induction d D arbitrary: ks rule: fill_missing_permissions.induct)
  case (2 d key v D)
  note at = "2.prems"
  have "at_path (PDict (case dget d key of
          None \<Rightarrow> dset key v d
        | Some w \<Rightarrow> (case v of
            PDict dv \<Rightarrow> (case w of PDict dw \<Rightarrow> dset key (PDict (fill_missing_permissions dw dv)) d | _ \<Rightarrow> d)
          | _ \<Rightarrow> d))) ks = Some (PBool b)"
  proof (cases ks)
    case Nil
    with at show ?thesis by simp
  next
    case (Cons k ks')
    with at obtain q where q: "dget d k = Some q" "at_path q ks' = Some (PBool b)"
      by (auto split: option.splits)
    show ?thesis
    proof (cases "k = key")
      case False
      with q Cons show ?thesis by (auto split: option.split py.split)
    next
      case True
      show ?thesis
      proof (cases "\<exists>dv dw. v = PDict dv \<and> q = PDict dw")
        case no: False
        with q True Cons show ?thesis by (auto split: py.split)
      next
        case yes: True
        then obtain dv dw where vw: "v = PDict dv" "q = PDict dw" by blast
        with q True Cons show ?thesis by (auto intro: "2.IH"(1))
      qed
    qed
  qed
  from "2.IH"(2) [OF this] show ?case by (simp only: fill_missing_permissions.simps prod.case)
qed simp

text \<open>Combining takes the most permissive value at each path, and keeps it a boolean.\<close>

lemma at_path_dict: "at_path (PDict d) (k # ks) = Option.bind (dget d k) (\<lambda>q. at_path q ks)"
  by (cases "dget d k") auto

lemma at_path_no_dict: "ks \<noteq> [] \<Longrightarrow> \<not> is_dict p \<Longrightarrow> at_path p ks = None"
  by (cases ks; cases p) auto

lemma at_path_or:
  assumes "ks \<noteq> []" and "\<not> is_dict v"
  shows "at_path (py_or w v) ks = at_path w ks"
proof (cases "truthy w")
  case False
  then have "w = PDict [] \<or> \<not> is_dict w" by (cases w) auto
  with assms False show ?thesis
    by (cases ks) (auto simp: py_or_def at_path_no_dict)
qed (simp add: py_or_def)

lemma dget_in_set: "dget d k = Some v \<Longrightarrow> v \<in> set (map snd d)"
  by (induction d) (auto split: if_splits)

text \<open>One key of the group: what the updated dict has at a path.\<close>

lemma combine_key_no_dict:
  assumes "\<not> is_dict v" and "bool_at ks (PDict d)" and "bool_at ks (PDict ((key, v) # gs))"
    and "key \<notin> set (dkeys gs)" and "ks \<noteq> []"
  shows "let q = PDict (dset key (case dget d key of None \<Rightarrow> v | Some w \<Rightarrow> py_or w v) d) in
    bool_at ks q \<and> bool_at ks (PDict gs) \<and> (at_path (PDict d) ks \<noteq> None \<longrightarrow> at_path q ks \<noteq> None) \<and>
    (true_at ks q \<or> true_at ks (PDict gs) \<longleftrightarrow> true_at ks (PDict d) \<or> true_at ks (PDict ((key, v) # gs)))"
proof -
  obtain k ks' where ks: "ks = k # ks'" using assms(5) by (cases ks) auto
  have none: "dget gs key = None" using assms(4) by (simp add: dget_None_keys)
  show ?thesis
  proof (cases "k = key")
    case False
    with assms(2,3) ks show ?thesis by (simp add: bool_at_def true_at_def at_path_dict)
  next
    case True
    show ?thesis
    proof (cases "ks' = []")
      case last: True
      from assms(3) True last ks have "v \<in> {PBool True, PBool False}" by (auto simp: bool_at_def)
      with assms(2) True last ks none show ?thesis
        by (cases "dget d key") (auto simp: bool_at_def true_at_def at_path_dict py_or_def)
    next
      case more: False
      with assms(1,2) True ks none show ?thesis
        by (cases "dget d key")
           (auto simp: bool_at_def true_at_def at_path_dict at_path_or at_path_no_dict)
    qed
  qed
qed

text \<open>Combining takes the most permissive value at each path, and keeps it a boolean.\<close>

lemma combine_at_path:
  "combine_permissions p g = Inr q \<Longrightarrow> bool_at ks p \<Longrightarrow> bool_at ks (PDict g) \<Longrightarrow> wf_py (PDict g) \<Longrightarrow>
   ks \<noteq> [] \<Longrightarrow> bool_at ks q \<and> (at_path p ks \<noteq> None \<longrightarrow> at_path q ks \<noteq> None) \<and>
   (true_at ks q \<longleftrightarrow> true_at ks p \<or> true_at ks (PDict g))"
proof (induction p g arbitrary: q ks rule: combine_permissions.induct)
  case (1 p)
  then show ?case by (cases ks) (auto simp: true_at_def)
next
  case (2 p key v gs)
  from "2.prems"(1) obtain d where p: "p = PDict d" by (cases p) auto
  have gs: "key \<notin> set (dkeys gs)" "wf_py (PDict gs)" "wf_py v" using "2.prems"(4) by auto
  show ?case
  proof (cases "is_dict v")
    case False
    define q0 where "q0 = PDict (dset key (case dget d key of None \<Rightarrow> v | Some w \<Rightarrow> py_or w v) d)"
    have "combine_permissions q0 gs = Inr q"
      using "2.prems"(1) False p by (cases v) (auto simp: q0_def)
    moreover note combine_key_no_dict [OF False "2.prems"(2) [unfolded p] "2.prems"(3) gs(1) "2.prems"(5), folded q0_def]
    moreover have "\<And>q ks. combine_permissions q0 gs = Inr q \<Longrightarrow> bool_at ks q0 \<Longrightarrow> bool_at ks (PDict gs) \<Longrightarrow>
        wf_py (PDict gs) \<Longrightarrow> ks \<noteq> [] \<Longrightarrow>
        bool_at ks q \<and> (at_path q0 ks \<noteq> None \<longrightarrow> at_path q ks \<noteq> None) \<and>
        (true_at ks q \<longleftrightarrow> true_at ks q0 \<or> true_at ks (PDict gs))"
      using "2.IH" p False unfolding q0_def by (cases v) auto
    ultimately show ?thesis
      using "2.prems"(5) gs(2) p by (auto simp: Let_def)
  next
    case True
    then obtain dv where v: "v = PDict dv" by (cases v) auto
    define w0 where "w0 = (case dget d key of None \<Rightarrow> PDict [] | Some w \<Rightarrow> w)"
    from "2.prems"(1) p v obtain w where w: "combine_permissions w0 dv = Inr w"
      "combine_permissions (PDict (dset key w d)) gs = Inr q"
      by (auto simp: w0_def)
    have IH1: "bool_at ks w0 \<Longrightarrow> bool_at ks (PDict dv) \<Longrightarrow> wf_py (PDict dv) \<Longrightarrow> ks \<noteq> [] \<Longrightarrow>
        bool_at ks w \<and> (at_path w0 ks \<noteq> None \<longrightarrow> at_path w ks \<noteq> None) \<and>
        (true_at ks w \<longleftrightarrow> true_at ks w0 \<or> true_at ks (PDict dv))" for ks
      using "2.IH"(7) [OF p v, folded w0_def, OF w(1)] .
    have IH2: "bool_at ks (PDict (dset key w d)) \<Longrightarrow> bool_at ks (PDict gs) \<Longrightarrow> wf_py (PDict gs) \<Longrightarrow> ks \<noteq> [] \<Longrightarrow>
        bool_at ks q \<and> (at_path (PDict (dset key w d)) ks \<noteq> None \<longrightarrow> at_path q ks \<noteq> None) \<and>
        (true_at ks q \<longleftrightarrow> true_at ks (PDict (dset key w d)) \<or> true_at ks (PDict gs))" for ks
      using "2.IH"(8) [OF p v, OF w(2)] .
    obtain k ks' where ks: "ks = k # ks'" using "2.prems"(5) by (cases ks) auto
    show ?thesis
    proof (cases "k = key")
      case False
      then have "at_path (PDict (dset key w d)) ks = at_path p ks"
        "at_path (PDict ((key, v) # gs)) ks = at_path (PDict gs) ks"
        using p ks by (simp_all add: at_path_dict)
      then show ?thesis
        using IH2 [of ks] "2.prems"(2,3,5) gs(2) by (auto simp: bool_at_def true_at_def)
    next
      case True
      have "ks' \<noteq> []" using "2.prems"(3) True ks v by (auto simp: bool_at_def)
      moreover have "bool_at ks' w0"
        using "2.prems"(2) True ks p \<open>ks' \<noteq> []\<close>
        by (cases "dget d key"; cases ks') (auto simp: w0_def bool_at_def at_path_dict)
      moreover have "at_path w0 ks' = at_path p ks"
        using True ks p \<open>ks' \<noteq> []\<close>
        by (cases "dget d key"; cases ks') (auto simp: w0_def at_path_dict)
      moreover have "at_path (PDict gs) ks = None"
        using gs(1) [unfolded dget_None_keys [symmetric]] True ks by simp
      moreover have "at_path (PDict ((key, v) # gs)) ks = at_path v ks'"
        "at_path (PDict (dset key w d)) ks = at_path w ks'"
        using True ks by (simp_all add: at_path_dict)
      ultimately show ?thesis
        using IH1 [of ks'] IH2 [of ks] "2.prems"(2,3,5) gs(2,3) v
        by (auto simp: bool_at_def true_at_def simp del: at_path.simps)
    qed
  qed
qed

lemma combine_groups_at_path:
  assumes "foldR (\<lambda>p g. case group_permissions g of
      PDict d \<Rightarrow> combine_permissions p d | _ \<Rightarrow> Inl AttributeError) p gs = Inr q"
    and "bool_at ks p" and "ks \<noteq> []"
    and "\<forall>g \<in> set gs. bool_at ks (group_permissions g) \<and> wf_py (group_permissions g)"
  shows "bool_at ks q \<and> (at_path p ks \<noteq> None \<longrightarrow> at_path q ks \<noteq> None) \<and>
    (true_at ks q \<longleftrightarrow> true_at ks p \<or> (\<exists>g \<in> set gs. true_at ks (group_permissions g)))"
  using assms
proof (induction gs arbitrary: p)
  case (Cons g gs)
  from Cons.prems(1) obtain d p' where d: "group_permissions g = PDict d"
    "combine_permissions p d = Inr p'"
    and rest: "foldR (\<lambda>p g. case group_permissions g of
      PDict d \<Rightarrow> combine_permissions p d | _ \<Rightarrow> Inl AttributeError) p' gs = Inr q"
    by (auto split: py.splits)
  have one: "bool_at ks p' \<and> (at_path p ks \<noteq> None \<longrightarrow> at_path p' ks \<noteq> None) \<and>
      (true_at ks p' \<longleftrightarrow> true_at ks p \<or> true_at ks (PDict d))"
    by (rule combine_at_path [OF d(2)]) (use Cons.prems d(1) in auto)
  from Cons.IH [OF rest] one Cons.prems(3,4) d(1) show ?case by auto
qed simp

lemma first_group_permission_true_at:
  "first_group_permission ks gs = Inr b \<Longrightarrow> \<forall>g \<in> set gs. bool_at ks (group_permissions g) \<Longrightarrow>
   b \<longleftrightarrow> (\<exists>g \<in> set gs. true_at ks (group_permissions g))"
  by (induction gs arbitrary: b) (auto split: if_splits dest: get_permission_true_at)

lemma get_permission_bool: "at_path p ks = Some (PBool b) \<Longrightarrow> get_permission p ks = Inr b"
proof (induction p ks rule: at_path.induct)
  case (2 d k ks)
  then show ?case by (cases "dget d k") auto
qed auto

section \<open>Properties of permissions\<close>

text \<open>for a permission that the defaults define, whose value in every group of the user is absent
  or a boolean, checking it gives the value that the combined permissions of the user show.\<close>

theorem has_permission_agrees_with_get_permissions:
  assumes "get_permissions u defaults G = Inr P" and "has_permission DEFAULTS u key defaults G = Inr b"
    and "at_path (PDict defaults) (split_on CHR ''.'' key) = Some (PBool c)"
    and "\<forall>g \<in> set (get_groups_by_member_id u G). wf_py (group_permissions g) \<and>
      bool_at (split_on CHR ''.'' key) (group_permissions g)"
  shows "get_permission (PDict P) (split_on CHR ''.'' key) = Inr b"
proof -
  define ks where "ks = split_on CHR ''.'' key"
  define gs where "gs = get_groups_by_member_id u G"
  have default: "at_path (PDict defaults) ks = Some (PBool c)" using assms(3) by (simp add: ks_def)
  from assms(1) obtain d where d: "foldR (\<lambda>p g. case group_permissions g of
        PDict d \<Rightarrow> combine_permissions p d | _ \<Rightarrow> Inl AttributeError) (PDict defaults) gs = Inr (PDict d)"
      "P = fill_missing_permissions d defaults"
    unfolding get_permissions_def gs_def bindR_Inr_iff
  proof (elim exE conjE, goal_cases)
    case (1 p)
    then show ?case by (cases p) auto
  qed
  have comb: "bool_at ks (PDict d) \<and> at_path (PDict d) ks \<noteq> None \<and>
      (true_at ks (PDict d) \<longleftrightarrow> c \<or> (\<exists>g \<in> set gs. true_at ks (group_permissions g)))"
    using combine_groups_at_path [OF d(1), of ks] default assms(4)
    by (auto simp: bool_at_def true_at_def ks_def gs_def)
  then obtain b' where b'1: "at_path (PDict d) ks = Some (PBool b')"
    by (auto simp: bool_at_def)
  with comb have b': "at_path (PDict d) ks = Some (PBool b')"
    "b' \<longleftrightarrow> c \<or> (\<exists>g \<in> set gs. true_at ks (group_permissions g))"
    by (simp_all add: true_at_def)
  have "get_permission (PDict P) ks = Inr b'"
    unfolding d(2) by (rule get_permission_bool, rule fill_missing_at_path, rule b'(1))
  moreover have "b = b'"
  proof -
    obtain b1 where b1: "first_group_permission ks gs = Inr b1"
      "b1 \<or> get_permission (PDict (fill_missing_permissions defaults DEFAULTS)) ks = Inr b"
      "b1 \<longrightarrow> b"
      using assms(2) by (auto simp: has_permission_def Let_def ks_def gs_def split: if_splits)
    have "get_permission (PDict (fill_missing_permissions defaults DEFAULTS)) ks = Inr c"
      by (rule get_permission_bool, rule fill_missing_at_path, rule default)
    with b1 b'(2) first_group_permission_true_at [OF b1(1)] assms(4) show ?thesis
      by (auto simp: ks_def gs_def)
  qed
  ultimately show ?thesis by (simp add: ks_def)
qed

theorem has_permission_agrees_with_get_permissions_witness:
  "\<exists>P. get_permissions ''u'' [(''chat'', PDict [(''delete'', PBool False)])]
     \<lparr>group_rows = [\<lparr>g_id = ''g'', g_user_id = ''a'', g_name = ''n'', g_description = [], g_data = PNone,
        g_meta = PNone, g_permissions = PDict [(''chat'', PDict [(''delete'', PBool True)])],
        g_created_at = 0, g_updated_at = 0\<rparr>],
      member_rows = [\<lparr>gm_id = ''m'', gm_group_id = ''g'', gm_user_id = ''u'', gm_created_at = 0,
        gm_updated_at = 0\<rparr>]\<rparr> = Inr P \<and>
   get_permission (PDict P) [''chat'', ''delete''] = Inr True"
proof -
  let ?d = "[(''chat'', PDict [(''delete'', PBool False)])]"
  let ?g = "\<lparr>g_id = ''g'', g_user_id = ''a'', g_name = ''n'', g_description = [], g_data = PNone,
        g_meta = PNone, g_permissions = PDict [(''chat'', PDict [(''delete'', PBool True)])],
        g_created_at = 0, g_updated_at = 0\<rparr> :: group_row"
  let ?G = "\<lparr>group_rows = [?g], member_rows = [\<lparr>gm_id = ''m'', gm_group_id = ''g'', gm_user_id = ''u'',
        gm_created_at = 0, gm_updated_at = 0\<rparr>]\<rparr>"
  have groups: "get_groups_by_member_id ''u'' ?G = [?g]"
    by (simp add: get_groups_by_member_id_def join_members_def order_desc_def)
  have keys: "split_on CHR ''.'' ''chat.delete'' = [''chat'', ''delete'']" by simp
  have perms: "group_permissions ?g = PDict [(''chat'', PDict [(''delete'', PBool True)])]"
    by (simp add: group_permissions_def py_or_def)
  have get: "get_permissions ''u'' ?d ?G = Inr [(''chat'', PDict [(''delete'', PBool True)])]"
    unfolding get_permissions_def groups by (simp add: perms py_or_def)
  have has: "has_permission [] ''u'' ''chat.delete'' ?d ?G = Inr True"
    unfolding has_permission_def groups keys Let_def by (simp add: perms)
  have "get_permission (PDict [(''chat'', PDict [(''delete'', PBool True)])])
      (split_on CHR ''.'' ''chat.delete'') = Inr True"
    by (rule has_permission_agrees_with_get_permissions [OF get has, of False])
       (simp_all add: groups perms bool_at_def)
  with get keys show ?thesis by metis
qed

text \<open>The filter of grants decides each grant that is valid by one permission.\<close>

definition grant_permitted ::
  "(string \<Rightarrow> bool) \<Rightarrow> bool \<Rightarrow> string \<Rightarrow> string option \<Rightarrow> triple \<Rightarrow> bool" where
  "grant_permitted may is_admin public_key anyone_key g =
     (case g of (t, i, p) \<Rightarrow>
        if t = ''anyone'' then (case anyone_key of None \<Rightarrow> False | Some k \<Rightarrow> k \<noteq> [] \<and> (is_admin \<or> may k))
        else is_admin \<or>
          (if t = ''user'' then (if i = ''*'' then may public_key else may ''access_grants.allow_users'')
           else may ''access_grants.allow_groups''))"

definition valid_grants :: "py list \<Rightarrow> py list" where
  "valid_grants gs = filter (\<lambda>g. grant_triple g \<noteq> None) gs"

lemma grant_triple_attr:
  assumes "grant_triple g = Some (t, i, p)"
  shows "grant_attr g ''principal_type'' = PStr t" "grant_attr g ''principal_id'' = PStr i"
    "t \<in> {''user'', ''group'', ''anyone''}" "p \<in> {''read'', ''write''}" "i \<noteq> []"
    "t = ''anyone'' \<Longrightarrow> i = ''*'' \<and> p = ''read''"
  using assms
  by (auto simp: grant_triple_def grant_fields_def valid_triple_def grant_attr_def field_def
      split: py.splits if_splits option.splits)

lemma list_ex_normalized:
  "list_ex (\<lambda>n. P (ng_principal_type n) (ng_principal_id n) (ng_permission n))
     (normalize_access_grants uuid (Some gs)) \<longleftrightarrow>
   (\<exists>g \<in> set gs. \<exists>t i p. grant_triple g = Some (t, i, p) \<and> P t i p)"
proof -
  have "list_ex (\<lambda>n. P (ng_principal_type n) (ng_principal_id n) (ng_permission n))
     (normalize_access_grants uuid (Some gs)) \<longleftrightarrow>
     (\<exists>(t, i, p) \<in> set (map ng_triple (normalize_access_grants uuid (Some gs))). P t i p)"
    by (auto simp: list_ex_iff ng_triple_def)
  also have "\<dots> \<longleftrightarrow> (\<exists>g \<in> set gs. \<exists>t i p. grant_triple g = Some (t, i, p) \<and> P t i p)"
    unfolding normalize_triples(1) by auto
  finally show ?thesis .
qed

lemma has_grant_iff:
  "has_anyone_read_access_grant (Some gs) \<longleftrightarrow> (\<exists>g \<in> set gs. grant_triple g = Some (''anyone'', ''*'', ''read''))"
  "has_public_read_access_grant (Some gs) \<longleftrightarrow> (\<exists>g \<in> set gs. grant_triple g = Some (''user'', ''*'', ''read''))"
  "has_public_write_access_grant (Some gs) \<longleftrightarrow> (\<exists>g \<in> set gs. grant_triple g = Some (''user'', ''*'', ''write''))"
  "has_user_access_grant (Some gs) \<longleftrightarrow>
     (\<exists>g \<in> set gs. \<exists>i p. grant_triple g = Some (''user'', i, p) \<and> i \<noteq> ''*'')"
proof -
  show "has_anyone_read_access_grant (Some gs) \<longleftrightarrow> (\<exists>g \<in> set gs. grant_triple g = Some (''anyone'', ''*'', ''read''))"
    unfolding has_anyone_read_access_grant_def
    by (subst list_ex_normalized [where P = "\<lambda>t i p. t = ''anyone'' \<and> i = ''*'' \<and> p = ''read''"]) auto
  show "has_public_read_access_grant (Some gs) \<longleftrightarrow> (\<exists>g \<in> set gs. grant_triple g = Some (''user'', ''*'', ''read''))"
    unfolding has_public_read_access_grant_def
    by (subst list_ex_normalized [where P = "\<lambda>t i p. t = ''user'' \<and> i = ''*'' \<and> p = ''read''"]) auto
  show "has_public_write_access_grant (Some gs) \<longleftrightarrow> (\<exists>g \<in> set gs. grant_triple g = Some (''user'', ''*'', ''write''))"
    unfolding has_public_write_access_grant_def
    by (subst list_ex_normalized [where P = "\<lambda>t i p. t = ''user'' \<and> i = ''*'' \<and> p = ''write''"]) auto
  show "has_user_access_grant (Some gs) \<longleftrightarrow>
     (\<exists>g \<in> set gs. \<exists>i p. grant_triple g = Some (''user'', i, p) \<and> i \<noteq> ''*'')"
    unfolding has_user_access_grant_def
    by (subst list_ex_normalized [where P = "\<lambda>t i p. t = ''user'' \<and> i \<noteq> ''*''"]) auto
qed

text \<open>One stage of the filter: the grants of a class go when there is one and it is not permitted.\<close>

definition strip_stage :: "(py \<Rightarrow> bool) \<Rightarrow> bool \<Rightarrow> bool \<Rightarrow> py list \<Rightarrow> py list" where
  "strip_stage C present ok gs = (if present \<and> \<not> ok then filter (\<lambda>g. \<not> C g) gs else gs)"

lemma valid_grants_stage:
  assumes "\<exists>g \<in> set (valid_grants gs). C g \<Longrightarrow> present"
  shows "valid_grants (strip_stage C present ok gs) = filter (\<lambda>g. C g \<longrightarrow> ok) (valid_grants gs)"
proof (cases "present \<and> \<not> ok")
  case True
  then show ?thesis by (simp add: strip_stage_def valid_grants_def conj_commute)
next
  case False
  with assms show ?thesis by (auto simp: strip_stage_def filter_id_conv intro!: sym [OF filter_True])
qed

lemma subseq_strip_stage: "subseq (strip_stage C present ok gs) gs"
  by (simp add: strip_stage_def)

abbreviation anyone_grant :: "py \<Rightarrow> bool" where
  "anyone_grant g \<equiv> grant_attr g ''principal_type'' = PStr ''anyone''"

abbreviation user_grant :: "py \<Rightarrow> bool" where
  "user_grant g \<equiv> grant_attr g ''principal_type'' = PStr ''user'' \<and> grant_attr g ''principal_id'' \<noteq> PStr ''*''"

lemma valid_grantE:
  assumes "g \<in> set (valid_grants gs)"
  obtains t i p where "g \<in> set gs" "grant_triple g = Some (t, i, p)"
    "grant_attr g ''principal_type'' = PStr t" "grant_attr g ''principal_id'' = PStr i"
    "t \<in> {''user'', ''group'', ''anyone''}" "p \<in> {''read'', ''write''}"
    "t = ''anyone'' \<Longrightarrow> i = ''*'' \<and> p = ''read''"
  using assms grant_triple_attr [of g] by (auto simp: valid_grants_def)

lemma filter_anyone_stage: "(\<And>k. anyone_key = Some k \<Longrightarrow> F k = Inr (may k)) \<Longrightarrow> filter_anyone_grants F role anyone_key gs =
    Inr (strip_stage anyone_grant (has_anyone_read_access_grant (Some gs))
      (case anyone_key of None \<Rightarrow> False | Some k \<Rightarrow> k \<noteq> [] \<and> (role = ''admin'' \<or> may k)) gs)"
  by (auto simp: filter_anyone_grants_def strip_stage_def strip_anyone_access_grants_def
      split: option.split)

lemma filter_public_stage: "F key = Inr (may key) \<Longrightarrow> filter_public_grants F key gs =
    Inr (strip_stage is_public_grant (has_public_read_access_grant (Some gs) \<or>
      has_public_write_access_grant (Some gs)) (may key) gs)"
  by (auto simp: filter_public_grants_def strip_stage_def)

lemma filter_user_stage: "F ''access_grants.allow_users'' = Inr (may ''access_grants.allow_users'') \<Longrightarrow>
    filter_user_grants F gs =
    Inr (strip_stage user_grant (has_user_access_grant (Some gs)) (may ''access_grants.allow_users'') gs)"
  by (auto simp: filter_user_grants_def strip_stage_def strip_user_access_grants_def)

lemma filter_group_stage: "F ''access_grants.allow_groups'' = Inr (may ''access_grants.allow_groups'') \<Longrightarrow>
    filter_group_grants F gs =
    Inr (strip_stage is_group_grant (list_ex is_group_grant gs) (may ''access_grants.allow_groups'') gs)"
  by (auto simp: filter_group_grants_def strip_stage_def)

lemma valid_grants_anyone: "valid_grants (strip_stage anyone_grant (has_anyone_read_access_grant (Some gs)) ok gs) =
    filter (\<lambda>g. anyone_grant g \<longrightarrow> ok) (valid_grants gs)"
  by (rule valid_grants_stage) (auto simp: has_grant_iff elim!: valid_grantE)

lemma valid_grants_public: "valid_grants (strip_stage is_public_grant (has_public_read_access_grant (Some gs) \<or>
      has_public_write_access_grant (Some gs)) ok gs) =
    filter (\<lambda>g. is_public_grant g \<longrightarrow> ok) (valid_grants gs)"
  by (rule valid_grants_stage) (auto simp: has_grant_iff is_public_grant_def elim!: valid_grantE)

lemma valid_grants_user: "valid_grants (strip_stage user_grant (has_user_access_grant (Some gs)) ok gs) =
    filter (\<lambda>g. user_grant g \<longrightarrow> ok) (valid_grants gs)"
  by (rule valid_grants_stage) (auto simp: has_grant_iff elim!: valid_grantE)

lemma valid_grants_group: "valid_grants (strip_stage is_group_grant (list_ex is_group_grant gs) ok gs) =
    filter (\<lambda>g. is_group_grant g \<longrightarrow> ok) (valid_grants gs)"
  by (rule valid_grants_stage) (auto simp: list_ex_iff elim!: valid_grantE)

lemma permitted_by_stages:
  assumes "g \<in> set (valid_grants gs)"
  shows "grant_permitted may False public_key anyone_key (the (grant_triple g)) \<longleftrightarrow>
      (anyone_grant g \<longrightarrow> (case anyone_key of None \<Rightarrow> False | Some k \<Rightarrow> k \<noteq> [] \<and> may k)) \<and>
      (is_public_grant g \<longrightarrow> may public_key) \<and> (user_grant g \<longrightarrow> may ''access_grants.allow_users'') \<and>
      (is_group_grant g \<longrightarrow> may ''access_grants.allow_groups'')"
    and "grant_permitted may True public_key anyone_key (the (grant_triple g)) \<longleftrightarrow>
      (anyone_grant g \<longrightarrow> (case anyone_key of None \<Rightarrow> False | Some k \<Rightarrow> k \<noteq> []))"
  using assms
  by (elim valid_grantE; auto simp: grant_permitted_def is_public_grant_def is_group_grant_def split: option.splits)+

text \<open>C6: when the user's permissions can be read, the filter returns a part of the list, in order,
  and of the valid grants it keeps exactly those that the user may give: public grants by the
  public permission, anonymous ones by the given permission, user and group grants by
  \<open>access_grants.allow_users\<close> and \<open>access_grants.allow_groups\<close>; admins need only the anonymous one
  to be enabled.\<close>

theorem filter_allowed_access_grants_exact:
  assumes "\<forall>k \<in> {public_key, ''access_grants.allow_users'', ''access_grants.allow_groups''} \<union> set_option anyone_key.
    has_permission DEFAULTS u k defaults G = Inr (may k)"
  shows "\<exists>rs. filter_allowed_access_grants DEFAULTS defaults u role gs public_key anyone_key G = Inr rs \<and>
    subseq rs gs \<and>
    valid_grants rs = filter (\<lambda>g. grant_permitted may (role = ''admin'') public_key anyone_key
      (the (grant_triple g))) (valid_grants gs)"
proof (cases "gs = []")
  case True
  then show ?thesis by (simp add: filter_allowed_access_grants_def valid_grants_def)
next
  case False
  define ok where "ok = (case anyone_key of None \<Rightarrow> False | Some k \<Rightarrow> k \<noteq> [] \<and> (role = ''admin'' \<or> may k))"
  define g1 where "g1 = strip_stage anyone_grant (has_anyone_read_access_grant (Some gs)) ok gs"
  define g2 where "g2 = strip_stage is_public_grant (has_public_read_access_grant (Some g1) \<or>
      has_public_write_access_grant (Some g1)) (may public_key) g1"
  define g3 where "g3 = strip_stage user_grant (has_user_access_grant (Some g2)) (may ''access_grants.allow_users'') g2"
  define g4 where "g4 = strip_stage is_group_grant (list_ex is_group_grant g3) (may ''access_grants.allow_groups'') g3"
  have res: "filter_allowed_access_grants DEFAULTS defaults u role gs public_key anyone_key G =
      Inr (if role = ''admin'' then g1 else g4)"
  proof -
    let ?F = "\<lambda>k. has_permission DEFAULTS u k defaults G"
    have "filter_anyone_grants ?F role anyone_key gs = Inr g1"
      unfolding g1_def ok_def using assms by (intro filter_anyone_stage) auto
    moreover have "filter_public_grants ?F public_key g1 = Inr g2"
      unfolding g2_def using assms by (intro filter_public_stage) auto
    moreover have "filter_user_grants ?F g2 = Inr g3"
      unfolding g3_def using assms by (intro filter_user_stage) auto
    moreover have "filter_group_grants ?F g3 = Inr g4"
      unfolding g4_def using assms by (intro filter_group_stage) auto
    ultimately show ?thesis using False by (simp add: filter_allowed_access_grants_def Let_def)
  qed
  have sub: "subseq g1 gs" "subseq g4 gs"
    unfolding g1_def g2_def g3_def g4_def by (meson subseq_strip_stage subseq_order.trans)+
  have v1: "valid_grants g1 = filter (\<lambda>g. anyone_grant g \<longrightarrow> ok) (valid_grants gs)"
    unfolding g1_def by (rule valid_grants_anyone)
  have v4: "valid_grants g4 = filter (\<lambda>g. (anyone_grant g \<longrightarrow> ok) \<and> (is_public_grant g \<longrightarrow> may public_key) \<and>
      (user_grant g \<longrightarrow> may ''access_grants.allow_users'') \<and>
      (is_group_grant g \<longrightarrow> may ''access_grants.allow_groups'')) (valid_grants gs)"
    unfolding g4_def valid_grants_group unfolding g3_def valid_grants_user
    unfolding g2_def valid_grants_public v1 filter_filter by (rule filter_cong) auto
  show ?thesis
  proof (cases "role = ''admin''")
    case True
    with res sub v1 show ?thesis
      by (auto simp: permitted_by_stages(2) ok_def intro!: filter_cong split: option.splits)
  next
    case False
    then have okr: "ok = (case anyone_key of None \<Rightarrow> False | Some k \<Rightarrow> k \<noteq> [] \<and> may k)"
      by (simp add: ok_def split: option.split)
    from False have admin: "(role = ''admin'') = False" by simp
    have "valid_grants g4 = filter (\<lambda>g. grant_permitted may False public_key anyone_key
      (the (grant_triple g))) (valid_grants gs)"
      unfolding v4 okr by (rule filter_cong) (simp_all only: permitted_by_stages(1))
    with res sub show ?thesis unfolding admin by simp
  qed
qed

theorem filter_allowed_access_grants_exact_witness:
  "\<exists>rs. filter_allowed_access_grants [] [(''sharing'', PDict [(''public'', PBool False)])] ''u'' ''user''
      [PDict [(''principal_type'', PStr ''user''), (''principal_id'', PStr ''*''), (''permission'', PStr ''read'')]]
      ''sharing.public'' None \<lparr>group_rows = [], member_rows = []\<rparr> = Inr rs \<and> valid_grants rs = []"
proof -
  let ?G = "\<lparr>group_rows = [], member_rows = []\<rparr> :: groups_db"
  let ?d = "[(''sharing'', PDict [(''public'', PBool False)])]"
  let ?g = "PDict [(''principal_type'', PStr ''user''), (''principal_id'', PStr ''*''), (''permission'', PStr ''read'')]"
  have no_groups: "get_groups_by_member_id u ?G = []" for u
    by (simp add: get_groups_by_member_id_def join_members_def order_desc_def)
  have "\<forall>k \<in> {''sharing.public'', ''access_grants.allow_users'', ''access_grants.allow_groups''} \<union> set_option None.
      has_permission [] ''u'' k ?d ?G = Inr False"
    by (simp add: has_permission_def no_groups)
  moreover have "grant_triple ?g = Some (''user'', ''*'', ''read'')"
    by (simp add: grant_triple_def grant_fields_def field_def valid_triple_def)
  ultimately show ?thesis
    using filter_allowed_access_grants_exact [of "''sharing.public''" None "[]" "''u''" ?d ?G "\<lambda>k. False" "''user''" "[?g]"]
    by (auto simp: valid_grants_def grant_permitted_def)
qed

section \<open>Base models\<close>

text \<open>
  A walk along pointers that stops at a node it has seen: \<open>nxt\<close> is the pointer of a node,
  \<open>ok\<close> the test of a node, \<open>walk\<close> the loop with its set of seen nodes.
\<close>

locale pointer_walk =
  fixes nxt :: "'a \<Rightarrow> 'a option" and ok :: "'a \<Rightarrow> bool" and walk :: "'a set \<Rightarrow> 'a option \<Rightarrow> bool"
    and nodes :: "'a set"
  assumes finite_nodes: "finite nodes"
    and walk_None: "walk seen None"
    and walk_seen: "x \<in> seen \<Longrightarrow> walk seen (Some x)"
    and walk_new: "x \<notin> seen \<Longrightarrow> walk seen (Some x) \<longleftrightarrow> ok x \<and> walk (insert x seen) (nxt x)"
    and nxt_nodes: "nxt x \<noteq> None \<Longrightarrow> x \<in> nodes"
begin

definition hop :: "('a \<times> 'a) set" where
  "hop = {(x, y). nxt x = Some y}"

lemma walk_sound:
  "walk seen b \<Longrightarrow> (\<forall>v \<in> seen. v = s \<or> ok v) \<Longrightarrow>
   (\<forall>v \<in> seen. nxt v = None \<or> (\<exists>w \<in> seen. nxt v = Some w) \<or> nxt v = b) \<Longrightarrow> s \<in> seen \<Longrightarrow>
   (s, y) \<in> hop\<^sup>* \<Longrightarrow> y = s \<or> ok y"
proof (induction "card (nodes - seen)" arbitrary: seen b rule: less_induct)
  case less
  have closed: "y = s \<or> ok y" if "\<forall>v \<in> seen. nxt v = None \<or> (\<exists>w \<in> seen. nxt v = Some w)"
  proof -
    from less.prems(5) have "y \<in> seen"
      by induction (use less.prems(4) that in \<open>auto simp: hop_def\<close>)
    with less.prems(2) show ?thesis by blast
  qed
  show ?case
  proof (cases b)
    case None
    with less.prems(3) show ?thesis by (intro closed) auto
  next
    case (Some x)
    show ?thesis
    proof (cases "x \<in> seen")
      case True
      with Some less.prems(3) show ?thesis by (intro closed) auto
    next
      case False
      with less.prems(1) Some have x: "ok x" "walk (insert x seen) (nxt x)" by (auto simp: walk_new)
      have inv: "\<forall>v \<in> insert x seen. v = s \<or> ok v"
        "\<forall>v \<in> insert x seen. nxt v = None \<or> (\<exists>w \<in> insert x seen. nxt v = Some w) \<or> nxt v = nxt x"
        using less.prems(2,3) x(1) Some by auto
      show ?thesis
      proof (cases "x \<in> nodes")
        case True
        with False finite_nodes have "card (nodes - insert x seen) < card (nodes - seen)"
          by (intro psubset_card_mono) auto
        then show ?thesis
          by (rule less.hyps [OF _ x(2) inv _ less.prems(5)]) (use less.prems(4) in simp)
      next
        case False
        then have "nxt x = None" using nxt_nodes by blast
        with inv have *: "\<forall>v \<in> insert x seen. nxt v = None \<or> (\<exists>w \<in> insert x seen. nxt v = Some w)" by auto
        from less.prems(5) have "y \<in> insert x seen"
          by induction (use less.prems(4) * in \<open>auto simp: hop_def\<close>)
        with inv(1) show ?thesis by blast
      qed
    qed
  qed
qed

lemma walk_complete:
  "s \<in> seen \<Longrightarrow> (\<forall>x. b = Some x \<longrightarrow> (s, x) \<in> hop\<^sup>*) \<Longrightarrow> (\<forall>y. (s, y) \<in> hop\<^sup>* \<longrightarrow> y = s \<or> ok y) \<Longrightarrow> walk seen b"
proof (induction "card (nodes - seen)" arbitrary: seen b rule: less_induct)
  case less
  show ?case
  proof (cases b)
    case (Some x)
    show ?thesis
    proof (cases "x \<in> seen")
      case False
      have reach: "(s, x) \<in> hop\<^sup>*" using less.prems(2) Some by blast
      then have "ok x" using less.prems(1,3) False by auto
      moreover have "walk (insert x seen) (nxt x)"
      proof (cases "nxt x")
        case (Some z)
        then have "x \<in> nodes" using nxt_nodes by simp
        with False finite_nodes have "card (nodes - insert x seen) < card (nodes - seen)"
          by (intro psubset_card_mono) auto
        moreover have "(s, z) \<in> hop\<^sup>*" using reach Some by (auto simp: hop_def intro: rtrancl_into_rtrancl)
        ultimately show ?thesis using less.prems Some by (intro less.hyps) auto
      qed (simp add: walk_None)
      ultimately show ?thesis using Some False by (simp add: walk_new)
    qed (simp add: walk_seen Some)
  qed (simp add: walk_None)
qed

lemma walk_iff: "walk {s} (nxt s) \<longleftrightarrow> (\<forall>y. (s, y) \<in> hop\<^sup>* \<longrightarrow> y = s \<or> ok y)"
proof
  assume "walk {s} (nxt s)"
  then show "\<forall>y. (s, y) \<in> hop\<^sup>* \<longrightarrow> y = s \<or> ok y" using walk_sound [of "{s}" "nxt s" s] by auto
next
  assume "\<forall>y. (s, y) \<in> hop\<^sup>* \<longrightarrow> y = s \<or> ok y"
  then show "walk {s} (nxt s)" by (intro walk_complete) (auto simp: hop_def)
qed

end

text \<open>The chain of base models as a pointer structure: an empty or unregistered id points nowhere.\<close>

definition base_pointer :: "model_row list \<Rightarrow> string \<Rightarrow> string option" where
  "base_pointer M i = (if i = [] then None else Option.bind (get_model_by_id i M) m_base_model_id)"

definition base_ok :: "(model_row \<Rightarrow> bool) \<Rightarrow> string option \<Rightarrow> model_row list \<Rightarrow> string \<Rightarrow> bool" where
  "base_ok may user_role M i =
     (i = [] \<or> (case get_model_by_id i M of None \<Rightarrow> user_role = Some ''admin'' | Some m \<Rightarrow> may m))"

interpretation base_models: pointer_walk "base_pointer M" "base_ok may user_role M"
  "base_model_walk may user_role M" "m_id ` set M"
  for M may user_role
proof unfold_locales
  show "x \<notin> seen \<Longrightarrow> base_model_walk may user_role M seen (Some x) \<longleftrightarrow>
      base_ok may user_role M x \<and> base_model_walk may user_role M (insert x seen) (base_pointer M x)"
    for x seen
    by (subst base_model_walk.simps)
       (auto simp: base_ok_def base_pointer_def base_model_walk.simps [of _ _ _ _ None]
        split: option.split)
  show "base_pointer M x \<noteq> None \<Longrightarrow> x \<in> m_id ` set M" for x
    by (auto simp: base_pointer_def bind_eq_Some_conv dest!: get_model_by_id_SomeD split: if_splits)
qed (auto simp: base_model_walk.simps)

definition base_model_chain :: "model_row list \<Rightarrow> (string \<times> string) set" where
  "base_model_chain M = {(i, b). \<exists>m \<in> set M. get_model_by_id i M = Some m \<and> m_base_model_id m = Some b
     \<and> i \<noteq> [] \<and> b \<noteq> []}"

lemma hop_base_chain:
  "y \<noteq> [] \<Longrightarrow> (s, y) \<in> {(x, y). base_pointer M x = Some y}\<^sup>* \<longleftrightarrow> (s, y) \<in> (base_model_chain M)\<^sup>*"
proof
  have sub: "base_model_chain M \<subseteq> {(x, y). base_pointer M x = Some y}"
    by (auto simp: base_model_chain_def base_pointer_def)
  show "(s, y) \<in> (base_model_chain M)\<^sup>* \<Longrightarrow> (s, y) \<in> {(x, y). base_pointer M x = Some y}\<^sup>*"
    using rtrancl_mono [OF sub] by blast
  assume "(s, y) \<in> {(x, y). base_pointer M x = Some y}\<^sup>*" and "y \<noteq> []"
  then show "(s, y) \<in> (base_model_chain M)\<^sup>*"
  proof induction
    case (step y z)
    then have "y \<noteq> []" by (auto simp: base_pointer_def split: if_splits)
    with step have "(s, y) \<in> (base_model_chain M)\<^sup>*" "(y, z) \<in> base_model_chain M"
      by (auto simp: base_model_chain_def base_pointer_def bind_eq_Some_conv dest: get_model_by_id_SomeD)
    then show ?case by (rule rtrancl_into_rtrancl)
  qed simp
qed

text \<open>for a registered model the check of its base models, which stops at a model it has seen,
  succeeds exactly when every other model that the chain of base models reaches, however long or
  cyclic, is readable by the user, or is unregistered and the user an admin.\<close>

theorem base_model_access_checks_whole_chain:
  assumes "get_model_by_id (m_id info) M = Some info" and "m_id info \<noteq> []"
  shows "has_base_model_access u info role gs M G A \<longleftrightarrow>
    (\<forall>b. (m_id info, b) \<in> (base_model_chain M)\<^sup>* \<longrightarrow> b = m_id info \<or>
      (case get_model_by_id b M of None \<Rightarrow> role = Some ''admin'' | Some m \<Rightarrow> may_read_model u gs G A m))"
proof -
  have start: "base_pointer M (m_id info) = m_base_model_id info"
    using assms by (simp add: base_pointer_def)
  have "has_base_model_access u info role gs M G A \<longleftrightarrow>
      (\<forall>b. (m_id info, b) \<in> {(x, y). base_pointer M x = Some y}\<^sup>* \<longrightarrow> b = m_id info \<or>
        base_ok (may_read_model u gs G A) role M b)"
    using base_models.walk_iff [of "may_read_model u gs G A" role M "m_id info"]
    unfolding start base_models.hop_def has_base_model_access_def .
  also have "\<dots> \<longleftrightarrow> (\<forall>b. (m_id info, b) \<in> (base_model_chain M)\<^sup>* \<longrightarrow> b = m_id info \<or>
      base_ok (may_read_model u gs G A) role M b)"
    by (metis base_ok_def hop_base_chain)
  also have "\<dots> \<longleftrightarrow> (\<forall>b. (m_id info, b) \<in> (base_model_chain M)\<^sup>* \<longrightarrow> b = m_id info \<or>
      (case get_model_by_id b M of None \<Rightarrow> role = Some ''admin'' | Some m \<Rightarrow> may_read_model u gs G A m))"
  proof -
    have "(m_id info, b) \<in> (base_model_chain M)\<^sup>* \<Longrightarrow> b \<noteq> []" for b
      by (erule rtrancl.cases) (auto simp: base_model_chain_def assms(2))
    then show ?thesis by (simp add: base_ok_def)
  qed
  finally show ?thesis .
qed

theorem base_model_access_checks_whole_chain_witness:
  "let a = \<lparr>m_id = ''a'', m_user_id = ''u'', m_base_model_id = Some ''b''\<rparr>;
       b = \<lparr>m_id = ''b'', m_user_id = ''v'', m_base_model_id = Some ''a''\<rparr> in
   \<not> has_base_model_access ''u'' a (Some ''user'') (Some {}) [a, b] \<lparr>group_rows = [], member_rows = []\<rparr> []"
proof -
  define a where "a = (\<lparr>m_id = ''a'', m_user_id = ''u'', m_base_model_id = Some ''b''\<rparr> :: model_row)"
  define b where "b = (\<lparr>m_id = ''b'', m_user_id = ''v'', m_base_model_id = Some ''a''\<rparr> :: model_row)"
  let ?G = "\<lparr>group_rows = [], member_rows = []\<rparr> :: groups_db"
  have get: "get_model_by_id (m_id a) [a, b] = Some a" "get_model_by_id ''b'' [a, b] = Some b"
    and ids: "m_id a \<noteq> []" "''b'' \<noteq> m_id a"
    by (simp_all add: get_model_by_id_def a_def b_def)
  have chain: "(m_id a, ''b'') \<in> (base_model_chain [a, b])\<^sup>*"
    by (rule r_into_rtrancl) (simp add: base_model_chain_def get_model_by_id_def a_def b_def)
  have deny: "\<not> may_read_model ''u'' (Some {}) ?G [] b"
    by (simp add: may_read_model_def has_access_def b_def)
  have "\<not> has_base_model_access ''u'' a (Some ''user'') (Some {}) [a, b] ?G []"
  proof
    assume "has_base_model_access ''u'' a (Some ''user'') (Some {}) [a, b] ?G []"
    with base_model_access_checks_whole_chain [OF get(1) ids(1)] chain
    have "''b'' = m_id a \<or> (case get_model_by_id ''b'' [a, b] of
        None \<Rightarrow> Some ''user'' = Some ''admin'' | Some m \<Rightarrow> may_read_model ''u'' (Some {}) ?G [] m)"
      by blast
    with get(2) ids(2) deny show False by simp
  qed
  then show ?thesis unfolding a_def b_def Let_def .
qed

text \<open>The check on a list agrees with the check on the table.\<close>

lemma any_grant_allows_hashable:
  "\<forall>g \<in> set gs. is_dict g \<and> (grant_attr g ''principal_type'' = PStr ''group'' \<longrightarrow> hashable (grant_attr g ''principal_id'')) \<Longrightarrow>
   any_grant_allows u perm groups gs = Inr (\<exists>g \<in> set gs. grant_attr g ''permission'' = PStr perm \<and>
     (grant_attr g ''principal_type'' = PStr ''user'' \<and>
        (grant_attr g ''principal_id'' = PStr ''*'' \<or> grant_attr g ''principal_id'' = PStr u) \<or>
      grant_attr g ''principal_type'' = PStr ''group'' \<and>
        (\<exists>i \<in> groups. grant_attr g ''principal_id'' = PStr i)))"
proof (induction gs)
  case (Cons g gs)
  then obtain d where d: "g = PDict d" by (cases g) auto
  have "grant_allows u perm groups g = Inr (grant_attr g ''permission'' = PStr perm \<and>
     (grant_attr g ''principal_type'' = PStr ''user'' \<and>
        (grant_attr g ''principal_id'' = PStr ''*'' \<or> grant_attr g ''principal_id'' = PStr u) \<or>
      grant_attr g ''principal_type'' = PStr ''group'' \<and>
        (\<exists>i \<in> groups. grant_attr g ''principal_id'' = PStr i)))"
    using Cons.prems by (auto simp: grant_allows_def grant_attr_def d)
  with Cons show ?case by auto
qed simp

text \<open>a list of valid grants kept in a configuration lets a user in exactly when the table does
  after the list was set for a resource.\<close>

theorem list_check_agrees_with_table:
  assumes "unique_on grant_key A" and "\<forall>g \<in> set gs. is_dict g \<and> grant_triple g \<noteq> None"
  shows "\<exists>rows A'. set_access_grants uuid now rt rid (Some gs) A = Inr (rows, A') \<and>
    has_access_in u perm (PList gs) (Some groups) G = Inr (has_access u rt rid perm (Some groups) G A')"
proof -
  from set_access_grants_eq [OF assms(1)] obtain rows where
    rows: "set_access_grants uuid now rt rid (Some gs) A = Inr (rows, filter (\<lambda>r. \<not> of_resource rt rid r) A @ rows)"
    "map ag_triple rows = map ng_triple (normalize_access_grants (\<lambda>_. []) (Some gs))"
    "\<forall>r \<in> set rows. of_resource rt rid r" by blast
  let ?A = "filter (\<lambda>r. \<not> of_resource rt rid r) A @ rows"
  have triples: "ag_triple ` set rows = {t. \<exists>g \<in> set gs. grant_triple g = Some t}"
    using arg_cong [OF rows(2), of set] normalize_triples(1) [of "\<lambda>_. []" "Some gs"] by simp
  have "has_access u rt rid perm (Some groups) G ?A \<longleftrightarrow>
      (\<exists>t \<in> ag_triple ` set rows. t = (''user'', ''*'', perm) \<or> t = (''user'', u, perm) \<or>
         (\<exists>i \<in> groups. t = (''group'', i, perm)))"
    using rows(3) unfolding has_access_triple by auto
  moreover have "has_access_in u perm (PList gs) (Some groups) G = Inr (\<exists>g \<in> set gs.
      grant_triple g = Some (''user'', ''*'', perm) \<or> grant_triple g = Some (''user'', u, perm) \<or>
      (\<exists>i \<in> groups. grant_triple g = Some (''group'', i, perm)))"
  proof -
    have attr: "\<exists>t i p. grant_triple g = Some (t, i, p) \<and> grant_attr g ''principal_type'' = PStr t \<and>
        grant_attr g ''principal_id'' = PStr i \<and> grant_attr g ''permission'' = PStr p"
      if "g \<in> set gs" for g
      using assms(2) that
      by (fastforce simp: grant_triple_def grant_fields_def valid_triple_def grant_attr_def field_def
          split: py.splits if_splits option.splits)
    then have "any_grant_allows u perm groups gs = Inr (\<exists>g \<in> set gs.
      grant_triple g = Some (''user'', ''*'', perm) \<or> grant_triple g = Some (''user'', u, perm) \<or>
      (\<exists>i \<in> groups. grant_triple g = Some (''group'', i, perm)))"
      using assms(2) by (subst any_grant_allows_hashable) (fastforce+)
    then show ?thesis by (cases gs) (simp_all add: has_access_in_def groups_of_user_def)
  qed
  ultimately show ?thesis using rows(1) unfolding triples by auto
qed

theorem list_check_agrees_with_table_witness:
  "\<exists>rows A'. set_access_grants (\<lambda>n. []) 0 ''tool'' ''t'' (Some [PDict [(''principal_type'', PStr ''group''),
      (''principal_id'', PStr ''g''), (''permission'', PStr ''read'')]]) [] = Inr (rows, A') \<and>
    has_access_in ''u'' ''read'' (PList [PDict [(''principal_type'', PStr ''group''),
      (''principal_id'', PStr ''g''), (''permission'', PStr ''read'')]]) (Some {''g''})
      \<lparr>group_rows = [], member_rows = []\<rparr> =
    Inr (has_access ''u'' ''tool'' ''t'' ''read'' (Some {''g''}) \<lparr>group_rows = [], member_rows = []\<rparr> A')"
  by (rule list_check_agrees_with_table)
     (simp_all add: unique_on_def grant_triple_def grant_fields_def field_def valid_triple_def)

end
