(* ===== verification/Folder_Tree.thy ===== *)
theory Folder_Tree
  imports Py_Regex Permissions "HOL-Library.Multiset"
begin

text \<open>
  Folders of chats: the table of \<open>models/folders.py\<close>, the inherited access of
  \<open>utils/access_control/folders.py\<close>, and of \<open>routers/folders.py\<close> the unread counts, the permission
  check and the handler that moves a folder. The table does not keep the parent pointers acyclic:
  a loop that may run forever is a partial function, a recursion has the depth that the
  interpreter allows as its argument.
\<close>

section \<open>The table\<close>

record folder_row =
  f_id :: string
  f_parent_id :: "string option"
  f_user_id :: string
  f_name :: string
  f_items :: py
  f_meta :: "pydict option"
  f_data :: "pydict option"
  f_is_expanded :: bool
  f_created_at :: int
  f_updated_at :: int

type_synonym folders_db = "folder_row list"

text \<open>The forms, with an unset field as \<open>None\<close>.\<close>

record folder_form =
  ff_name :: "string option"
  ff_data :: "pydict option"
  ff_meta :: "pydict option"

definition insert_new_folder ::
  "string \<Rightarrow> int \<Rightarrow> string \<Rightarrow> string \<Rightarrow> folder_form \<Rightarrow> string option \<Rightarrow> folders_db \<Rightarrow>
   folder_row option \<times> folders_db" where
  "insert_new_folder uuid now user_id name form parent_id D =
     (let row = \<lparr>f_id = uuid, f_parent_id = parent_id, f_user_id = user_id, f_name = name,
        f_items = PNone, f_meta = ff_meta form, f_data = ff_data form, f_is_expanded = False,
        f_created_at = now, f_updated_at = now\<rparr>
      in case ins_unique f_id D row of Inl _ \<Rightarrow> (None, D) | Inr D' \<Rightarrow> (Some row, D'))"

definition get_folder_by_id_and_user_id :: "string \<Rightarrow> string \<Rightarrow> folders_db \<Rightarrow> folder_row option" where
  "get_folder_by_id_and_user_id i user_id D = find (\<lambda>f. f_id f = i \<and> f_user_id f = user_id) D"

definition get_folder_by_id :: "string \<Rightarrow> folders_db \<Rightarrow> folder_row option" where
  "get_folder_by_id i D = find (\<lambda>f. f_id f = i) D"

definition get_shared_folder_ids_for_user ::
  "string \<Rightarrow> string set \<Rightarrow> grants_db \<Rightarrow> (string \<times> string) list" where
  "get_shared_folder_ids_for_user user_id user_group_ids A =
     foldl (\<lambda>perms g. if dget perms (ag_resource_id g) \<noteq> Some ''write''
         then dset (ag_resource_id g) (ag_permission g) perms else perms) []
       (filter (\<lambda>g. ag_resource_type g = ''folder'' \<and> principal_matches user_id user_group_ids g) A)"

definition get_folders_by_user_id :: "string \<Rightarrow> folders_db \<Rightarrow> folder_row list" where
  "get_folders_by_user_id user_id D = filter (\<lambda>f. f_user_id f = user_id) D"

definition get_folder_by_parent_id_and_user_id_and_name ::
  "string option \<Rightarrow> string \<Rightarrow> string \<Rightarrow> folders_db \<Rightarrow> folder_row option" where
  "get_folder_by_parent_id_and_user_id_and_name parent_id user_id name D =
     find (\<lambda>f. f_parent_id f = parent_id \<and> f_user_id f = user_id \<and> sql_ilike (f_name f) name) D"

definition get_folders_by_parent_id_and_user_id ::
  "string option \<Rightarrow> string \<Rightarrow> folders_db \<Rightarrow> folder_row list" where
  "get_folders_by_parent_id_and_user_id parent_id user_id D =
     filter (\<lambda>f. f_parent_id f = parent_id \<and> f_user_id f = user_id) D"

abbreviation children :: "folders_db \<Rightarrow> string \<Rightarrow> string \<Rightarrow> folder_row list" where
  "children D user_id i \<equiv> get_folders_by_parent_id_and_user_id (Some i) user_id D"

text \<open>The recursion of \<open>get_children\<close>, \<open>depth\<close> levels deep.\<close>

fun get_children :: "nat \<Rightarrow> folders_db \<Rightarrow> string \<Rightarrow> string \<Rightarrow> folder_row list result" where
  "get_children 0 D user_id i = Inl RecursionError"
| "get_children (Suc depth) D user_id i =
     foldR (\<lambda>folders child.
         bindR (get_children depth D user_id (f_id child)) (\<lambda>below. Inr (folders @ below @ [child])))
       [] (children D user_id i)"

text \<open>Every exception, \<open>RecursionError\<close> too, is the result \<open>None\<close>.\<close>

definition get_children_folders_by_id_and_user_id ::
  "nat \<Rightarrow> string \<Rightarrow> string \<Rightarrow> folders_db \<Rightarrow> folder_row list option" where
  "get_children_folders_by_id_and_user_id depth i user_id D =
     (case get_folder_by_id_and_user_id i user_id D of
        None \<Rightarrow> None
      | Some f \<Rightarrow> (case get_children depth D user_id (f_id f) of Inl _ \<Rightarrow> None | Inr fs \<Rightarrow> Some fs))"

text \<open>The loop over the stack of folders, whose top is the end of the list; it may not end.\<close>

partial_function (option) subtree_loop ::
  "folders_db \<Rightarrow> string \<Rightarrow> string list \<Rightarrow> string list \<Rightarrow> string list option" where
  "subtree_loop D user_id stack ids =
     (if stack = [] then Some ids
      else (let cs = map f_id (children D user_id (last stack))
            in subtree_loop D user_id (butlast stack @ cs) (ids @ cs)))"

definition get_folder_ids_by_id_and_user_id_in_subtree ::
  "string \<Rightarrow> string \<Rightarrow> folders_db \<Rightarrow> string list option" where
  "get_folder_ids_by_id_and_user_id_in_subtree i user_id D =
     (case get_folder_by_id_and_user_id i user_id D of
        None \<Rightarrow> Some []
      | Some f \<Rightarrow> subtree_loop D user_id [f_id f] [f_id f])"

text \<open>Change the first row with this id and owner.\<close>

definition change_folder ::
  "string \<Rightarrow> string \<Rightarrow> (folder_row \<Rightarrow> folder_row) \<Rightarrow> folders_db \<Rightarrow> folder_row option \<times> folders_db" where
  "change_folder i user_id h D =
     (case get_folder_by_id_and_user_id i user_id D of
        None \<Rightarrow> (None, D)
      | Some f \<Rightarrow> (Some (h f), map (\<lambda>g. if f_id g = i \<and> f_user_id g = user_id then h g else g) D))"

definition update_folder_parent_id_by_id_and_user_id ::
  "int \<Rightarrow> string \<Rightarrow> string \<Rightarrow> string option \<Rightarrow> folders_db \<Rightarrow> folder_row option \<times> folders_db" where
  "update_folder_parent_id_by_id_and_user_id now i user_id parent_id D =
     change_folder i user_id (\<lambda>f. f\<lparr>f_parent_id := parent_id, f_updated_at := now\<rparr>) D"

definition merge_dict :: "pydict option \<Rightarrow> pydict option \<Rightarrow> pydict option" where
  "merge_dict old upd = (case upd of
     None \<Rightarrow> old
   | Some d \<Rightarrow> Some (foldl (\<lambda>acc (k, v). dset k v acc) (case old of None \<Rightarrow> [] | Some m \<Rightarrow> m) d))"

text \<open>An unset name is looked for as \<open>NULL\<close>, which no row has.\<close>

definition update_folder_by_id_and_user_id ::
  "int \<Rightarrow> string \<Rightarrow> string \<Rightarrow> folder_form \<Rightarrow> folders_db \<Rightarrow> folder_row option \<times> folders_db" where
  "update_folder_by_id_and_user_id now i user_id form D =
     (case get_folder_by_id_and_user_id i user_id D of
        None \<Rightarrow> (None, D)
      | Some f \<Rightarrow>
          if (case find (\<lambda>g. Some (f_name g) = ff_name form \<and> f_parent_id g = f_parent_id f
                  \<and> f_user_id g = user_id) D of
                None \<Rightarrow> False | Some g \<Rightarrow> f_id g \<noteq> i)
          then (None, D)
          else change_folder i user_id (\<lambda>g. g\<lparr>
              f_name := (case ff_name form of None \<Rightarrow> f_name g | Some n \<Rightarrow> n),
              f_data := merge_dict (f_data g) (ff_data form),
              f_meta := merge_dict (f_meta g) (ff_meta form), f_updated_at := now\<rparr>) D)"

definition update_folder_is_expanded_by_id_and_user_id ::
  "int \<Rightarrow> string \<Rightarrow> string \<Rightarrow> bool \<Rightarrow> folders_db \<Rightarrow> folder_row option \<times> folders_db" where
  "update_folder_is_expanded_by_id_and_user_id now i user_id b D =
     change_folder i user_id (\<lambda>f. f\<lparr>f_is_expanded := b, f_updated_at := now\<rparr>) D"

text \<open>
  \<open>delete_children\<close>: below each child first, then the child, each deletion committed. The flag
  is \<open>False\<close> after an exception, which keeps what was committed: the recursion is too deep, or the
  child is gone already.
\<close>

fun delete_children ::
  "nat \<Rightarrow> string \<Rightarrow> string \<Rightarrow> folders_db \<times> string list \<times> bool \<Rightarrow> folders_db \<times> string list \<times> bool" where
  "delete_children 0 user_id i s = (fst s, fst (snd s), False)"
| "delete_children (Suc depth) user_id i s =
     foldl (\<lambda>s child.
         if \<not> snd (snd s) then s
         else (case delete_children depth user_id (f_id child) s of
             (D', ids, ok) \<Rightarrow>
               if \<not> ok then (D', ids, ok)
               else if get_folder_by_id (f_id child) D' = None then (D', ids @ [f_id child], False)
               else (filter (\<lambda>f. f_id f \<noteq> f_id child) D', ids @ [f_id child], True)))
       s (children (fst s) user_id i)"

definition delete_folder_by_id_and_user_id ::
  "nat \<Rightarrow> string \<Rightarrow> string \<Rightarrow> folders_db \<Rightarrow> string list \<times> folders_db" where
  "delete_folder_by_id_and_user_id depth i user_id D =
     (case get_folder_by_id_and_user_id i user_id D of
        None \<Rightarrow> ([], D)
      | Some f \<Rightarrow> (case delete_children depth user_id (f_id f) (D, [f_id f], True) of
            (D', ids, ok) \<Rightarrow> if ok then (ids, filter (\<lambda>g. f_id g \<noteq> i) D') else ([], D')))"

section \<open>Searching\<close>

definition normalize_folder_name :: "string \<Rightarrow> string" where
  "normalize_folder_name name =
     str_lower (str_strip (collapse_runs (\<lambda>c. py_space c \<or> c = CHR ''_'') False name))"

definition search_folders_by_names ::
  "nat \<Rightarrow> string \<Rightarrow> string list \<Rightarrow> folders_db \<Rightarrow> folder_row list" where
  "search_folders_by_names depth user_id queries D =
     (let qs = map normalize_folder_name queries in
      map snd (foldl (\<lambda>acc f.
          if normalize_folder_name (f_name f) \<in> set qs
          then foldl (\<lambda>acc c. dset (f_id c) c acc) (dset (f_id f) f acc)
            (case get_children_folders_by_id_and_user_id depth (f_id f) user_id D of
               None \<Rightarrow> [] | Some cs \<Rightarrow> cs)
          else acc) [] (get_folders_by_user_id user_id D)))"

definition search_folders_by_name_contains ::
  "string \<Rightarrow> string \<Rightarrow> folders_db \<Rightarrow> folder_row list" where
  "search_folders_by_name_contains user_id query D =
     filter (\<lambda>f. str_in (normalize_folder_name query) (normalize_folder_name (f_name f)))
       (get_folders_by_user_id user_id D)"

section \<open>Access through ancestors\<close>

fun has_folder_access ::
  "nat \<Rightarrow> string \<Rightarrow> folder_row \<Rightarrow> string \<Rightarrow> folders_db \<Rightarrow> groups_db \<Rightarrow> grants_db \<Rightarrow> bool result" where
  "has_folder_access 0 user_id folder permission D G A = Inl RecursionError"
| "has_folder_access (Suc depth) user_id folder permission D G A =
     (if f_user_id folder = user_id then Inr True
      else if has_access user_id ''folder'' (f_id folder) permission None G A then Inr True
      else (case f_parent_id folder of
              None \<Rightarrow> Inr False
            | Some p \<Rightarrow>
                if p = [] then Inr False
                else (case get_folder_by_id p D of
                        None \<Rightarrow> Inr False
                      | Some parent \<Rightarrow> has_folder_access depth user_id parent permission D G A)))"

section \<open>Handlers\<close>

text \<open>The ids that the inner loop of the unread counts visits; the pointers are those of the dict.\<close>

function unread_path :: "(string \<times> string option) list \<Rightarrow> string set \<Rightarrow> string option \<Rightarrow> string list" where
  "unread_path parents seen current =
     (case current of
        None \<Rightarrow> []
      | Some i \<Rightarrow>
          if i = [] \<or> i \<in> seen then []
          else i # unread_path parents (insert i seen)
            (case dget parents i of None \<Rightarrow> None | Some p \<Rightarrow> p))"
  by pat_completeness auto

lemma unread_measure:
  assumes "i \<notin> seen"
  shows "(case (case dget parents i of None \<Rightarrow> None | Some p \<Rightarrow> p) of None \<Rightarrow> 0
      | Some (j :: string) \<Rightarrow> Suc (Suc (card (set (dkeys parents) - insert i seen)))) <
    Suc (Suc (card (set (dkeys parents) - seen)))"
proof (cases "i \<in> set (dkeys parents)")
  case True
  with assms have "card (set (dkeys parents) - insert i seen) < card (set (dkeys parents) - seen)"
    by (intro psubset_card_mono) auto
  then show ?thesis by (simp split: option.split)
next
  case False
  then have "dget parents i = None" by (simp add: dget_None_keys)
  then show ?thesis by simp
qed

termination unread_path
proof (relation "measure (\<lambda>(parents, seen, current). case current of None \<Rightarrow> 0
    | Some (j :: string) \<Rightarrow> Suc (Suc (card (set (dkeys parents) - seen))))", goal_cases)
  case (2 parents seen current i)
  then show ?case using unread_measure [of i seen parents] unfolding set_map by simp
qed simp

declare unread_path.simps [simp del]

text \<open>\<open>direct\<close> is the result of \<open>Chats.count_unread_by_folder_ids\<close>: folders with their own counts.\<close>

definition get_folder_unread_counts ::
  "(string \<times> int) list \<Rightarrow> string \<Rightarrow> folders_db \<Rightarrow> (string \<times> int) list" where
  "get_folder_unread_counts direct user_id D =
     (let folders = get_folders_by_user_id user_id D;
          parents = foldl (\<lambda>acc f. dset (f_id f) (f_parent_id f) acc) [] folders;
          counts = map (\<lambda>i. (i, 0)) (dkeys parents)
      in foldl (\<lambda>counts (i, n).
             foldl (\<lambda>counts j. case dget counts j of
                 None \<Rightarrow> counts | Some m \<Rightarrow> dset j (m + n) counts)
               counts (unread_path parents {} (Some i)))
           counts direct)"

definition check_folders_permission ::
  "pydict \<Rightarrow> py \<Rightarrow> pydict \<Rightarrow> string \<Rightarrow> user_row \<Rightarrow> groups_db \<Rightarrow> unit result" where
  "check_folders_permission DEFAULTS folders_enable user_permissions prohibited user G =
     (if folders_enable = PBool False then Inl (HTTPException 403 prohibited)
      else if u_role user = ''admin'' then Inr ()
      else bindR (has_permission DEFAULTS (u_id user) ''features.folders'' user_permissions G)
        (\<lambda>b. if b then Inr () else Inl (HTTPException 403 prohibited)))"

text \<open>Moving a folder, after the permission check: the new parent is not looked at.\<close>

definition update_folder_parent_id_by_id ::
  "int \<Rightarrow> string \<Rightarrow> string option \<Rightarrow> string \<Rightarrow> folders_db \<Rightarrow> folder_row option result \<times> folders_db" where
  "update_folder_parent_id_by_id now i parent_id user_id D =
     (case get_folder_by_id_and_user_id i user_id D of
        None \<Rightarrow> (Inl (HTTPException 404 ''We could not find what you're looking for :/''), D)
      | Some f \<Rightarrow>
          (case get_folder_by_parent_id_and_user_id_and_name parent_id user_id (f_name f) D of
             Some g \<Rightarrow> (Inl (HTTPException 400 ''[ERROR: Folder already exists]''), D)
           | None \<Rightarrow>
               (case update_folder_parent_id_by_id_and_user_id now i user_id parent_id D of
                  (r, D') \<Rightarrow> (Inr r, D'))))"

section \<open>Access through ancestors\<close>

definition parent_of :: "folders_db \<Rightarrow> (folder_row \<times> folder_row) set" where
  "parent_of D = {(f, g). \<exists>p. f_parent_id f = Some p \<and> p \<noteq> [] \<and> get_folder_by_id p D = Some g}"

definition folder_open :: "string \<Rightarrow> string \<Rightarrow> groups_db \<Rightarrow> grants_db \<Rightarrow> folder_row \<Rightarrow> bool" where
  "folder_open u perm G A f = (f_user_id f = u \<or> has_access u ''folder'' (f_id f) perm None G A)"

lemma parent_of_fun: "(f, g) \<in> parent_of D \<Longrightarrow> (f, h) \<in> parent_of D \<Longrightarrow> g = h"
  by (auto simp: parent_of_def)

lemma ancestors_rows: "{g. (f, g) \<in> (parent_of D)\<^sup>+} \<subseteq> set D"
proof
  fix g assume "g \<in> {g. (f, g) \<in> (parent_of D)\<^sup>+}"
  then obtain h where "(h, g) \<in> parent_of D" by (auto dest: tranclD2)
  then show "g \<in> set D" by (auto simp: parent_of_def get_folder_by_id_def dest: find_SomeD)
qed

lemma ancestors_finite: "finite {g. (f, g) \<in> (parent_of D)\<^sup>+}"
  by (rule finite_subset [OF ancestors_rows]) simp

lemma ancestors_card: "card {g. (f, g) \<in> (parent_of D)\<^sup>+} \<le> length D"
  by (rule order_trans [OF card_mono [OF _ ancestors_rows] card_length]) simp

lemma ancestors_less:
  assumes "acyclic (parent_of D)" and "(f, g) \<in> parent_of D"
  shows "card {h. (g, h) \<in> (parent_of D)\<^sup>+} < card {h. (f, h) \<in> (parent_of D)\<^sup>+}"
proof (rule psubset_card_mono [OF ancestors_finite])
  have "g \<notin> {h. (g, h) \<in> (parent_of D)\<^sup>+}" using assms(1) by (simp add: acyclic_def)
  moreover have "g \<in> {h. (f, h) \<in> (parent_of D)\<^sup>+}" using assms(2) by auto
  moreover have "{h. (g, h) \<in> (parent_of D)\<^sup>+} \<subseteq> {h. (f, h) \<in> (parent_of D)\<^sup>+}"
    using assms(2) by (auto intro: trancl_into_trancl2)
  ultimately show "{h. (g, h) \<in> (parent_of D)\<^sup>+} \<subset> {h. (f, h) \<in> (parent_of D)\<^sup>+}" by blast
qed

text \<open>One step of the recursion, over the parent relation.\<close>

lemma has_folder_access_step:
  "has_folder_access (Suc d) u f perm D G A =
     (if folder_open u perm G A f then Inr True
      else if (\<exists>g. (f, g) \<in> parent_of D)
      then has_folder_access d u (THE g. (f, g) \<in> parent_of D) perm D G A
      else Inr False)"
proof (cases "\<exists>g. (f, g) \<in> parent_of D")
  case True
  then obtain g where g: "(f, g) \<in> parent_of D" by blast
  then have the: "(THE h. (f, h) \<in> parent_of D) = g" by (blast intro: the_equality dest: parent_of_fun)
  from g obtain p where "f_parent_id f = Some p" "p \<noteq> []" "get_folder_by_id p D = Some g"
    unfolding parent_of_def by blast
  then show ?thesis unfolding the has_folder_access.simps folder_open_def by (simp add: True)
next
  case False
  then have "f_parent_id f = Some p \<Longrightarrow> p = [] \<or> get_folder_by_id p D = None" for p
    unfolding parent_of_def by blast
  then show ?thesis
    unfolding has_folder_access.simps folder_open_def
    by (cases "f_parent_id f") (auto simp: False)
qed

lemma ancestors_split:
  assumes "(f, g) \<in> parent_of D"
  shows "(\<exists>h. (f, h) \<in> (parent_of D)\<^sup>* \<and> P h) \<longleftrightarrow> P f \<or> (\<exists>h. (g, h) \<in> (parent_of D)\<^sup>* \<and> P h)"
proof -
  have "(f, h) \<in> (parent_of D)\<^sup>* \<longleftrightarrow> h = f \<or> (g, h) \<in> (parent_of D)\<^sup>*" for h
    by (metis assms converse_rtrancl_into_rtrancl converse_rtranclE parent_of_fun rtrancl.rtrancl_refl)
  then show ?thesis by auto
qed

text \<open>C7: when the parents form no cycle and the recursion may go deeper than there are folders, the
  check returns, and lets a user in exactly when the folder or one of its ancestors is the user's
  own or is granted to the user.\<close>

theorem folder_access_is_inherited:
  assumes "acyclic (parent_of D)" and "length D < depth"
  shows "has_folder_access depth u f perm D G A =
    Inr (\<exists>g. (f, g) \<in> (parent_of D)\<^sup>* \<and> folder_open u perm G A g)"
proof -
  have "card {h. (f, h) \<in> (parent_of D)\<^sup>+} < depth"
    using ancestors_card [of f D] assms(2) by simp
  then show ?thesis
  proof (induction depth arbitrary: f)
    case (Suc d)
    show ?case
    proof (cases "\<exists>g. (f, g) \<in> parent_of D")
      case False
      then have "(f, g) \<in> (parent_of D)\<^sup>* \<longleftrightarrow> g = f" for g by (auto elim: converse_rtranclE)
      with False show ?thesis unfolding has_folder_access_step by auto
    next
      case True
      then obtain g where g: "(f, g) \<in> parent_of D" by blast
      then have the: "(THE h. (f, h) \<in> parent_of D) = g" by (blast intro: the_equality dest: parent_of_fun)
      have "has_folder_access d u g perm D G A =
          Inr (\<exists>h. (g, h) \<in> (parent_of D)\<^sup>* \<and> folder_open u perm G A h)"
        using Suc.prems ancestors_less [OF assms(1) g] by (intro Suc.IH) simp
      with True show ?thesis
        unfolding has_folder_access_step the ancestors_split [OF g] by simp
    qed
  qed simp
qed

section \<open>Subtrees\<close>

definition child_of :: "folders_db \<Rightarrow> string \<Rightarrow> (string \<times> string) set" where
  "child_of D u = {(c, p). \<exists>f \<in> set D. f_user_id f = u \<and> f_parent_id f = Some p \<and> f_id f = c}"

lemma child_ids: "set (map f_id (children D u i)) = {c. (c, i) \<in> child_of D u}"
  by (auto simp: child_of_def get_folders_by_parent_id_and_user_id_def)

lemma finite_child_of: "finite (child_of D u)"
proof -
  have "child_of D u \<subseteq> (\<lambda>f. (f_id f, the (f_parent_id f))) ` set D"
    by (force simp: child_of_def)
  then show ?thesis by (rule finite_subset) simp
qed

lemma subtree_loop_result:
  assumes "wf (child_of D u)"
  shows "\<exists>res. subtree_loop D u stack ids = Some res \<and>
    set res = set ids \<union> {c. \<exists>s \<in> set stack. (c, s) \<in> (child_of D u)\<^sup>+}"
proof -
  let ?r = "child_of D u"
  have "\<forall>stack ids. mset stack = M \<longrightarrow> (\<exists>res. subtree_loop D u stack ids = Some res \<and>
    set res = set ids \<union> {c. \<exists>s \<in> set stack. (c, s) \<in> ?r\<^sup>+})" for M
    using wf_mult [OF assms]
  proof (induction M rule: wf_induct_rule)
    case (less M)
    show ?case
    proof (intro allI impI)
      fix stack ids
      assume M: "mset stack = M"
      show "\<exists>res. subtree_loop D u stack ids = Some res \<and>
        set res = set ids \<union> {c. \<exists>s \<in> set stack. (c, s) \<in> ?r\<^sup>+}"
      proof (cases stack rule: rev_cases)
        case Nil
        then show ?thesis by (simp add: subtree_loop.simps)
      next
        case (snoc xs x)
        define cs where "cs = map f_id (children D u x)"
        have cs: "set cs = {c. (c, x) \<in> ?r}" by (simp add: cs_def child_ids del: set_map)
        have "(mset xs + mset cs, mset xs + {#x#}) \<in> mult ?r"
          by (rule one_step_implies_mult) (auto simp: cs)
        then have "(mset (xs @ cs), M) \<in> mult ?r" using M snoc by simp
        from less [OF this] obtain res where res: "subtree_loop D u (xs @ cs) (ids @ cs) = Some res"
          "set res = set (ids @ cs) \<union> {c. \<exists>s \<in> set (xs @ cs). (c, s) \<in> ?r\<^sup>+}" by blast
        have "subtree_loop D u stack ids = Some res"
          using res(1) snoc by (subst subtree_loop.simps) (simp add: cs_def)
        moreover have "set res = set ids \<union> {c. \<exists>s \<in> set stack. (c, s) \<in> ?r\<^sup>+}"
          unfolding res(2) using snoc cs by (auto intro: trancl_into_trancl elim: tranclE)
        ultimately show ?thesis by blast
      qed
    qed
  qed
  then show ?thesis by blast
qed

text \<open>C8: when the user's folders form no cycle, the subtree loop returns, with exactly the folder and
  the folders below it; an unknown folder gives no ids.\<close>

theorem subtree_ids_exact:
  assumes "acyclic (child_of D u)"
  shows "\<exists>ids. get_folder_ids_by_id_and_user_id_in_subtree i u D = Some ids \<and>
    set ids = (if get_folder_by_id_and_user_id i u D = None then {} else {c. (c, i) \<in> (child_of D u)\<^sup>*})"
proof (cases "get_folder_by_id_and_user_id i u D")
  case None
  then show ?thesis by (simp add: get_folder_ids_by_id_and_user_id_in_subtree_def)
next
  case (Some f)
  then have "f_id f = i" by (auto simp: get_folder_by_id_and_user_id_def dest: find_SomeD)
  moreover from finite_acyclic_wf [OF finite_child_of assms] obtain res where
    "subtree_loop D u [i] [i] = Some res" "set res = {i} \<union> {c. (c, i) \<in> (child_of D u)\<^sup>+}"
    using subtree_loop_result [of D u "[i]" "[i]"] by auto
  moreover have "{i} \<union> {c. (c, i) \<in> (child_of D u)\<^sup>+} = {c. (c, i) \<in> (child_of D u)\<^sup>*}"
    by (auto simp: rtrancl_eq_or_trancl)
  ultimately show ?thesis using Some by (simp add: get_folder_ids_by_id_and_user_id_in_subtree_def)
qed

text \<open>A stack that holds a folder with a folder of the set below it, in a set closed so, never empties.\<close>

lemma subtree_loop_diverges:
  assumes "subtree_loop D u stack ids = Some res"
    and "\<forall>x \<in> X. \<exists>c \<in> X. (c, x) \<in> child_of D u"
  shows "set stack \<inter> X = {}"
proof -
  have "(\<forall>x \<in> X. \<exists>c \<in> X. (c, x) \<in> child_of D u) \<longrightarrow> set stack \<inter> X = {}"
  proof (rule subtree_loop.raw_induct [OF _ assms(1),
        where P = "\<lambda>D u stack ids res. (\<forall>x \<in> X. \<exists>c \<in> X. (c, x) \<in> child_of D u) \<longrightarrow> set stack \<inter> X = {}"])
    fix loop D u and stack ids res :: "string list"
    assume IH: "\<And>D u stack ids res. loop D u stack ids = Some res \<Longrightarrow>
        (\<forall>x \<in> X. \<exists>c \<in> X. (c, x) \<in> child_of D u) \<longrightarrow> set stack \<inter> X = {}"
      and res: "(if stack = [] then Some ids else
        let cs = map f_id (children D u (last stack)) in loop D u (butlast stack @ cs) (ids @ cs)) = Some res"
    show "(\<forall>x \<in> X. \<exists>c \<in> X. (c, x) \<in> child_of D u) \<longrightarrow> set stack \<inter> X = {}"
    proof (cases stack rule: rev_cases)
      case (snoc xs x)
      define cs where "cs = map f_id (children D u x)"
      have cs: "set cs = {c. (c, x) \<in> child_of D u}" by (simp add: cs_def child_ids del: set_map)
      have "loop D u (xs @ cs) (ids @ cs) = Some res" using res snoc by (simp add: cs_def Let_def)
      from IH [OF this] cs snoc show ?thesis by auto
    qed simp
  qed
  with assms(2) show ?thesis by blast
qed

text \<open>moving a folder under one of its own subfolders is accepted, unless a folder of that name
  is there already; from then on the loop over the folder's subtree never ends.\<close>

theorem move_under_child_loops:
  assumes "get_folder_by_id_and_user_id x u D = Some fx" and "get_folder_by_id_and_user_id y u D = Some fy"
    and "f_parent_id fy = Some x" and "x \<noteq> y"
    and "get_folder_by_parent_id_and_user_id_and_name (Some y) u (f_name fx) D = None"
  shows "(\<exists>f. fst (update_folder_parent_id_by_id now x (Some y) u D) = Inr (Some f)) \<and>
    get_folder_ids_by_id_and_user_id_in_subtree x u (snd (update_folder_parent_id_by_id now x (Some y) u D)) = None"
proof -
  define moved where "moved = (\<lambda>f. f\<lparr>f_parent_id := Some y, f_updated_at := now\<rparr> :: folder_row)"
  define D' where "D' = map (\<lambda>g. if f_id g = x \<and> f_user_id g = u then moved g else g) D"
  have ids: "fx \<in> set D" "f_id fx = x" "f_user_id fx = u" "fy \<in> set D" "f_id fy = y" "f_user_id fy = u"
    using assms(1,2) by (auto simp: get_folder_by_id_and_user_id_def dest: find_SomeD)
  have step: "update_folder_parent_id_by_id now x (Some y) u D = (Inr (Some (moved fx)), D')"
    using assms(1,5) by (simp add: update_folder_parent_id_by_id_def
        update_folder_parent_id_by_id_and_user_id_def change_folder_def moved_def D'_def)
  have rows: "moved fx \<in> set D'" "fy \<in> set D'"
    using ids assms(4) by (auto simp: D'_def intro!: image_eqI [of _ _ fx] image_eqI [of _ _ fy])
  have cycle: "\<forall>z \<in> {x, y}. \<exists>c \<in> {x, y}. (c, z) \<in> child_of D' u"
    using rows ids assms(3) by (fastforce simp: child_of_def moved_def)
  have "get_folder_by_id_and_user_id x u D' \<noteq> None"
    unfolding get_folder_by_id_and_user_id_def find_None
    using rows(1) ids(2,3) by (auto simp: moved_def intro!: bexI [OF _ rows(1)])
  then obtain f where f: "get_folder_by_id_and_user_id x u D' = Some f" by blast
  then have "f_id f = x" by (auto simp: get_folder_by_id_and_user_id_def dest: find_SomeD)
  moreover have "subtree_loop D' u [x] [x] = None"
    using subtree_loop_diverges [OF _ cycle, of "[x]" "[x]"] by (cases "subtree_loop D' u [x] [x]") auto
  ultimately show ?thesis
    using f by (simp add: step get_folder_ids_by_id_and_user_id_in_subtree_def)
qed

section \<open>Unread counts\<close>

definition pointer_in :: "(string \<times> string option) list \<Rightarrow> string \<Rightarrow> string option" where
  "pointer_in parents i = (if i = [] then None else case dget parents i of None \<Rightarrow> None | Some p \<Rightarrow> p)"

lemma unread_path_facts:
  "distinct (unread_path parents seen b) \<and> set (unread_path parents seen b) \<inter> insert [] seen = {}"
proof (induction parents seen b rule: unread_path.induct)
  case (1 parents seen b)
  show ?case
  proof (cases "b = None \<or> the b = [] \<or> the b \<in> seen")
    case True
    then have "unread_path parents seen b = []"
      by (subst unread_path.simps) (cases b; simp)
    then show ?thesis by simp
  next
    case False
    then obtain i where i: "b = Some i" "\<not> (i = [] \<or> i \<in> seen)" by auto
    then have "unread_path parents seen b = i # unread_path parents (insert i seen)
        (case dget parents i of None \<Rightarrow> None | Some p \<Rightarrow> p)"
      by (simp add: unread_path.simps [of _ _ "Some i"])
    with "1" [OF i] i(2) show ?thesis by auto
  qed
qed

text \<open>The path of the inner loop is a pointer walk that looks for one folder.\<close>

interpretation unread: pointer_walk "pointer_in parents" "\<lambda>x. x = [] \<or> x \<noteq> t"
  "\<lambda>seen b. t = [] \<or> t \<notin> set (unread_path parents seen b)" "set (dkeys parents)"
  for parents t
proof unfold_locales
  show "x \<notin> seen \<Longrightarrow> (t = [] \<or> t \<notin> set (unread_path parents seen (Some x))) \<longleftrightarrow>
      (x = [] \<or> x \<noteq> t) \<and> (t = [] \<or> t \<notin> set (unread_path parents (insert x seen) (pointer_in parents x)))"
    for x seen
    by (subst unread_path.simps) (auto simp: pointer_in_def unread_path.simps [of _ _ None])
  show "pointer_in parents x \<noteq> None \<Longrightarrow> x \<in> set (dkeys parents)" for x
    unfolding dget_in_keys [symmetric] by (auto simp: pointer_in_def split: if_splits option.splits)
qed (auto simp: unread_path.simps)

lemma unread_path_reach:
  assumes "t \<noteq> []" and "i \<noteq> []"
  shows "t \<in> set (unread_path parents {} (Some i)) \<longleftrightarrow>
    (i, t) \<in> {(x, y). pointer_in parents x = Some y}\<^sup>*"
proof -
  have "t \<in> set (unread_path parents {} (Some i)) \<longleftrightarrow>
      t = i \<or> t \<in> set (unread_path parents {i} (pointer_in parents i))"
    using assms(2) by (subst unread_path.simps) (simp add: pointer_in_def)
  with unread.walk_iff [of t parents i] assms show ?thesis
    unfolding unread.hop_def by auto
qed

lemma add_along_path:
  "distinct path \<Longrightarrow> dget (foldl (\<lambda>counts j. case dget counts j of
      None \<Rightarrow> counts | Some m \<Rightarrow> dset j (m + n) counts) counts path) t =
   map_option (\<lambda>m. if t \<in> set path then m + n else m) (dget counts t)"
proof (induction path arbitrary: counts)
  case (Cons j path)
  then show ?case by (cases "dget counts j"; cases "dget counts t") auto
qed (simp add: option.map_ident)

lemma add_all_paths:
  fixes direct :: "(string \<times> int) list"
  shows "(\<And>i. distinct (path i)) \<Longrightarrow>
   dget (foldl (\<lambda>counts (i, n). foldl (\<lambda>counts j. case dget counts j of
        None \<Rightarrow> counts | Some m \<Rightarrow> dset j (m + n) counts) counts (path i)) counts direct) t =
   map_option (\<lambda>m. m + (\<Sum>(i, n) \<leftarrow> direct. if t \<in> set (path i) then n else 0)) (dget counts t)"
  by (induction direct arbitrary: counts)
     (auto simp: add_along_path option.map_comp option.map_ident comp_def add.assoc
       intro!: option.map_cong0)

lemma dset_fold: "distinct (dkeys acc @ map f_id fs) \<Longrightarrow>
  foldl (\<lambda>acc f. dset (f_id f) (f_parent_id f) acc) acc fs = acc @ map (\<lambda>f. (f_id f, f_parent_id f)) fs"
proof (induction fs arbitrary: acc)
  case (Cons f fs)
  then have "dset (f_id f) (f_parent_id f) acc = acc @ [(f_id f, f_parent_id f)]"
    by (induction acc) auto
  with Cons show ?case by simp
qed simp

definition folder_above :: "folders_db \<Rightarrow> string \<Rightarrow> (string \<times> string) set" where
  "folder_above D u = {(c, p). \<exists>f \<in> set D. f_user_id f = u \<and> f_id f = c \<and> f_parent_id f = Some p \<and> p \<noteq> []}"

text \<open>the unread count of each folder of a user is the sum of the direct counts of the folders from
  which it is reached going up, itself included, each counted once, also when the parents form a
  cycle.\<close>

theorem unread_counts_sum_descendants:
  assumes "unique_on f_id D" and "[] \<notin> f_id ` set D" and "[] \<notin> fst ` set direct"
    and "f \<in> set D" and "f_user_id f = u"
  shows "dget (get_folder_unread_counts direct u D) (f_id f) =
    Some (\<Sum>(i, n) \<leftarrow> direct. if (i, f_id f) \<in> (folder_above D u)\<^sup>* then n else 0)"
proof -
  define fs where "fs = get_folders_by_user_id u D"
  define parents where "parents = map (\<lambda>f. (f_id f, f_parent_id f)) fs"
  have dist: "distinct (map f_id fs)"
    using assms(1) by (simp add: fs_def get_folders_by_user_id_def unique_on_def distinct_map_filter)
  have keys: "dkeys parents = map f_id fs" by (simp add: parents_def comp_def)
  have counts: "get_folder_unread_counts direct u D = foldl (\<lambda>counts (i, n).
      foldl (\<lambda>counts j. case dget counts j of None \<Rightarrow> counts | Some m \<Rightarrow> dset j (m + n) counts)
        counts (unread_path parents {} (Some i))) (map (\<lambda>i. (i, 0)) (map f_id fs)) direct"
    using dset_fold [of "[]" fs] dist keys
    by (simp add: get_folder_unread_counts_def Let_def fs_def parents_def comp_def)
  have zero: "dget (map (\<lambda>i. (i, 0 :: int)) (map f_id fs)) (f_id f) = Some 0"
    using assms(4,5) by (simp only: map_of_map_restrict)
      (auto simp: fs_def get_folders_by_user_id_def restrict_map_def)
  have ne: "f_id f \<noteq> []" using assms(2,4) by (metis image_eqI)
  have reach: "f_id f \<in> set (unread_path parents {} (Some i)) \<longleftrightarrow> (i, f_id f) \<in> (folder_above D u)\<^sup>*"
    if "(i, n) \<in> set direct" for i n
  proof -
    have "i \<noteq> []" using that assms(3) by force
    have above: "pointer_in parents x = Some y \<and> y \<noteq> [] \<longleftrightarrow> (x, y) \<in> folder_above D u" for x y
    proof -
      have "dget parents x = Some p \<longleftrightarrow> (\<exists>g \<in> set fs. f_id g = x \<and> f_parent_id g = p)" for p
        using dist keys by (auto simp: parents_def image_iff comp_def)
      moreover have "pointer_in parents x = Some y \<longleftrightarrow> x \<noteq> [] \<and> dget parents x = Some (Some y)"
        by (simp add: pointer_in_def split: option.split)
      moreover have "g \<in> set D \<Longrightarrow> f_id g \<noteq> []" for g using assms(2) by (metis image_eqI)
      ultimately show ?thesis
        by (simp add: folder_above_def fs_def get_folders_by_user_id_def) blast
    qed
    have "(i, y) \<in> {(x, y). pointer_in parents x = Some y}\<^sup>* \<Longrightarrow> y \<noteq> [] \<Longrightarrow> (i, y) \<in> (folder_above D u)\<^sup>*" for y
    proof (induction rule: rtrancl_induct)
      case (step y z)
      then have "y \<noteq> []" by (auto simp: pointer_in_def split: if_splits)
      with step above show ?case by (auto intro: rtrancl_into_rtrancl)
    qed simp
    moreover have "folder_above D u \<subseteq> {(x, y). pointer_in parents x = Some y}" using above by auto
    ultimately show ?thesis
      unfolding unread_path_reach [OF ne \<open>i \<noteq> []\<close>] using ne rtrancl_mono by blast
  qed
  have sums: "(\<Sum>(i, n) \<leftarrow> direct. if f_id f \<in> set (unread_path parents {} (Some i)) then n else 0) =
      (\<Sum>(i, n) \<leftarrow> direct. if (i, f_id f) \<in> (folder_above D u)\<^sup>* then n else 0)"
    by (rule arg_cong [of _ _ sum_list], rule map_cong) (auto simp: reach)
  show ?thesis
    unfolding counts by (subst add_all_paths) (simp_all only: unread_path_facts zero option.map sums add_0)
qed

section \<open>Concrete folders\<close>

abbreviation sample_folder :: "string \<Rightarrow> string option \<Rightarrow> string \<Rightarrow> folder_row" where
  "sample_folder i p n \<equiv> \<lparr>f_id = i, f_parent_id = p, f_user_id = ''u'', f_name = n, f_items = PNone,
     f_meta = None, f_data = None, f_is_expanded = False, f_created_at = 0, f_updated_at = 0\<rparr>"

definition two_folders :: folders_db where
  "two_folders = [sample_folder ''a'' None ''A'', sample_folder ''b'' (Some ''a'') ''B'']"

lemma two_folders_acyclic: "acyclic (parent_of two_folders)" "acyclic (child_of two_folders u)"
proof -
  have "wf (inv_image less_than (\<lambda>f. case f_parent_id f of None \<Rightarrow> 0 | Some p \<Rightarrow> if p = ''a'' then (1::nat) else 2))"
    by simp
  moreover have "(parent_of two_folders)\<inverse> \<subseteq> inv_image less_than
      (\<lambda>f. case f_parent_id f of None \<Rightarrow> 0 | Some p \<Rightarrow> if p = ''a'' then (1::nat) else 2)"
    by (auto simp: parent_of_def two_folders_def get_folder_by_id_def split: if_splits)
  ultimately show "acyclic (parent_of two_folders)"
    by (metis wf_subset wf_acyclic acyclic_converse)
  have "child_of two_folders u \<subseteq> {(''b'', ''a'')}"
    by (auto simp: child_of_def two_folders_def)
  moreover have "acyclic {(''b'', ''a'')}" by (auto simp: acyclic_def elim: tranclE converse_tranclE)
  ultimately show "acyclic (child_of two_folders u)" by (metis acyclic_subset)
qed

theorem folder_access_is_inherited_witness:
  "has_folder_access 3 ''v'' (sample_folder ''b'' (Some ''a'') ''B'') ''read'' two_folders
     \<lparr>group_rows = [], member_rows = []\<rparr> [mk_grant ''1'' ''folder'' ''a'' 0 (''user'', ''v'', ''read'')] = Inr True"
proof -
  let ?b = "sample_folder ''b'' (Some ''a'') ''B''" and ?a = "sample_folder ''a'' None ''A''"
  let ?G = "\<lparr>group_rows = [], member_rows = []\<rparr> :: groups_db"
  let ?A = "[mk_grant ''1'' ''folder'' ''a'' 0 (''user'', ''v'', ''read'')]"
  have "(?b, ?a) \<in> parent_of two_folders"
    by (simp add: parent_of_def get_folder_by_id_def two_folders_def)
  moreover have "folder_open ''v'' ''read'' ?G ?A ?a"
    by (simp add: folder_open_def has_access_def principal_matches_def mk_grant_def)
  ultimately have "\<exists>g. (?b, g) \<in> (parent_of two_folders)\<^sup>* \<and> folder_open ''v'' ''read'' ?G ?A g" by blast
  then show ?thesis
    by (subst folder_access_is_inherited [OF two_folders_acyclic(1)]) (simp_all add: two_folders_def)
qed

theorem subtree_ids_exact_witness:
  "\<exists>ids. get_folder_ids_by_id_and_user_id_in_subtree ''a'' ''u'' two_folders = Some ids \<and> ''b'' \<in> set ids"
proof -
  have "(''b'', ''a'') \<in> (child_of two_folders ''u'')\<^sup>*"
    by (rule r_into_rtrancl) (simp add: child_of_def two_folders_def)
  moreover have "get_folder_by_id_and_user_id ''a'' ''u'' two_folders \<noteq> None"
    by (simp add: get_folder_by_id_and_user_id_def two_folders_def)
  ultimately show ?thesis using subtree_ids_exact [OF two_folders_acyclic(2), of "''a''" "''u''"] by auto
qed

theorem move_under_child_loops_witness:
  "get_folder_ids_by_id_and_user_id_in_subtree ''a'' ''u''
     (snd (update_folder_parent_id_by_id 7 ''a'' (Some ''b'') ''u'' two_folders)) = None"
proof -
  have "get_folder_by_id_and_user_id ''a'' ''u'' two_folders = Some (two_folders ! 0)"
    "get_folder_by_id_and_user_id ''b'' ''u'' two_folders = Some (two_folders ! 1)"
    "f_parent_id (two_folders ! 1) = Some ''a''"
    "get_folder_by_parent_id_and_user_id_and_name (Some ''b'') ''u'' (f_name (two_folders ! 0)) two_folders = None"
    by (simp_all add: two_folders_def get_folder_by_id_and_user_id_def
        get_folder_by_parent_id_and_user_id_and_name_def)
  from move_under_child_loops [OF this(1-3) _ this(4)] show ?thesis by simp
qed

theorem unread_counts_sum_descendants_witness:
  "dget (get_folder_unread_counts [(''b'', 2), (''a'', 1)] ''u'' two_folders) ''a'' = Some 3"
proof -
  have above: "(''b'', ''a'') \<in> (folder_above two_folders ''u'')\<^sup>*"
    by (rule r_into_rtrancl) (simp add: folder_above_def two_folders_def)
  have "two_folders ! 0 \<in> set two_folders" "f_user_id (two_folders ! 0) = ''u''"
    "f_id (two_folders ! 0) = ''a''" "unique_on f_id two_folders" "[] \<notin> f_id ` set two_folders"
    "[] \<notin> fst ` set [(''b'', 2 :: int), (''a'', 1)]"
    by (simp_all add: two_folders_def unique_on_def)
  from unread_counts_sum_descendants [OF this(4,5,6,1,2)] this(3) above show ?thesis by simp
qed

end
