(* ===== verification/File_Access.thy ===== *)
theory File_Access
  imports Permissions
begin

text \<open>
  Who may read or change a file, \<open>utils/access_control/files.py\<close>, with the lookups that it makes in
  \<open>models/knowledge.py\<close>, \<open>models/channels.py\<close>, \<open>models/chats.py\<close> and \<open>models/models.py\<close>. The tables are
  lists of rows with the columns that these lookups read.
\<close>

section \<open>Tables\<close>

record file_row =
  fi_id :: string
  fi_user_id :: string
  fi_meta :: "pydict option"

record knowledge_row =
  k_id :: string
  k_user_id :: string

record knowledge_file_row =
  kf_knowledge_id :: string
  kf_file_id :: string

record channel_row =
  c_id :: string
  c_user_id :: string
  c_type :: "string option"
  c_archived_at :: "int option"
  c_deleted_at :: "int option"

record active_member_row = channel_member_row +
  cm_is_active :: bool

record channel_file_row =
  cf_channel_id :: string
  cf_file_id :: string

record chat_row =
  ch_id :: string
  ch_share_id :: "string option"

record chat_file_row =
  chf_chat_id :: string
  chf_file_id :: string

text \<open>A workspace model with the list \<open>meta.knowledge\<close>.\<close>

record workspace_model = model_row +
  m_knowledge :: "py list option"

record objects_db =
  o_files :: "file_row list"
  o_knowledge :: "knowledge_row list"
  o_knowledge_files :: "knowledge_file_row list"
  o_channels :: "channel_row list"
  o_channel_members :: "active_member_row list"
  o_channel_files :: "channel_file_row list"
  o_chats :: "chat_row list"
  o_chat_files :: "chat_file_row list"
  o_models :: "workspace_model list"

section \<open>Lookups\<close>

definition get_file_by_id :: "string \<Rightarrow> objects_db \<Rightarrow> file_row option" where
  "get_file_by_id i B = find (\<lambda>f. fi_id f = i) (o_files B)"

definition get_knowledge_by_id :: "string \<Rightarrow> objects_db \<Rightarrow> knowledge_row option" where
  "get_knowledge_by_id i B = find (\<lambda>k. k_id k = i) (o_knowledge B)"

definition get_knowledges_by_file_id :: "string \<Rightarrow> objects_db \<Rightarrow> knowledge_row list" where
  "get_knowledges_by_file_id file_id B =
     [k. k \<leftarrow> o_knowledge B, kf \<leftarrow> o_knowledge_files B, kf_knowledge_id kf = k_id k \<and> kf_file_id kf = file_id]"

definition check_access_by_user_id ::
  "string \<Rightarrow> string \<Rightarrow> string \<Rightarrow> objects_db \<Rightarrow> groups_db \<Rightarrow> grants_db \<Rightarrow> bool" where
  "check_access_by_user_id i user_id permission B G A =
     (case get_knowledge_by_id i B of
        None \<Rightarrow> False
      | Some k \<Rightarrow> k_user_id k = user_id
          \<or> has_access user_id ''knowledge'' (k_id k) permission (Some (groups_of_user None user_id G)) G A)"

text \<open>
  Channels that are neither deleted nor archived: a group or direct channel needs an active
  membership, any other the read permission of the filter.
\<close>

definition get_channels_by_file_id_and_user_id ::
  "string \<Rightarrow> string \<Rightarrow> objects_db \<Rightarrow> groups_db \<Rightarrow> grants_db \<Rightarrow> channel_row list" where
  "get_channels_by_file_id_and_user_id file_id user_id B G A =
     (let channel_ids = map cf_channel_id (filter (\<lambda>r. cf_file_id r = file_id) (o_channel_files B));
          channels = filter (\<lambda>c. c_id c \<in> set channel_ids \<and> c_deleted_at c = None \<and> c_archived_at c = None)
            (o_channels B);
          group_ids = map g_id (get_groups_by_member_id user_id G)
      in filter (\<lambda>c.
           if c_type c = Some ''group'' \<or> c_type c = Some ''dm''
           then list_ex (\<lambda>m. cm_channel_id m = c_id c \<and> cm_user_id m = user_id \<and> cm_is_active m)
             (o_channel_members B)
           else has_permission_filter group_ids user_id ''channel'' ''read'' A
             [\<lparr>doc_id = c_id c, doc_user_id = c_user_id c\<rparr>] \<noteq> []) channels)"

definition get_shared_chat_ids_by_file_id :: "string \<Rightarrow> objects_db \<Rightarrow> string list" where
  "get_shared_chat_ids_by_file_id file_id B =
     [ch_id c. c \<leftarrow> o_chats B, r \<leftarrow> o_chat_files B,
        chf_chat_id r = ch_id c \<and> chf_file_id r = file_id \<and> ch_share_id c \<noteq> None]"

definition get_models :: "objects_db \<Rightarrow> workspace_model list" where
  "get_models B = filter (\<lambda>m. m_base_model_id m \<noteq> None) (o_models B)"

definition get_models_by_user_id ::
  "string \<Rightarrow> string \<Rightarrow> string set option \<Rightarrow> objects_db \<Rightarrow> groups_db \<Rightarrow> grants_db \<Rightarrow> workspace_model list" where
  "get_models_by_user_id user_id permission user_group_ids B G A =
     (let models = get_models B;
          groups = groups_of_user user_group_ids user_id G;
          accessible = get_accessible_resource_ids user_id ''model''
            (map m_id (filter (\<lambda>m. m_user_id m \<noteq> user_id) models)) permission (Some groups) G A
      in filter (\<lambda>m. m_user_id m = user_id \<or> m_id m \<in> accessible) models)"

section \<open>Access to a file\<close>

definition attaches_file :: "string \<Rightarrow> py \<Rightarrow> bool" where
  "attaches_file file_id item = (case item of
     PDict d \<Rightarrow> field d ''type'' = PStr ''file'' \<and> field d ''id'' = PStr file_id
   | _ \<Rightarrow> False)"

definition has_access_to_file ::
  "string \<Rightarrow> string \<Rightarrow> user_row \<Rightarrow> string set option \<Rightarrow> objects_db \<Rightarrow> groups_db \<Rightarrow> grants_db \<Rightarrow> bool" where
  "has_access_to_file file_id access_type user user_group_ids B G A =
     (case get_file_by_id file_id B of
        None \<Rightarrow> False
      | Some file \<Rightarrow>
          if fi_user_id file = u_id user then True
          else (let groups = groups_of_user user_group_ids (u_id user) G;
                    may = (\<lambda>rt rid. has_access (u_id user) rt rid access_type (Some groups) G A);
                    kb_ok = (\<lambda>k. (k_user_id k = u_id user \<or> may ''knowledge'' (k_id k))
                      \<and> (access_type = ''read'' \<or> k_user_id k = fi_user_id file))
                in if list_ex kb_ok (get_knowledges_by_file_id file_id B) then True
                else if (case fi_meta file of
                       None \<Rightarrow> False
                     | Some meta \<Rightarrow> (case field meta ''collection_name'' of
                           PStr i \<Rightarrow> i \<noteq> [] \<and>
                             (case get_knowledge_by_id i B of None \<Rightarrow> False | Some k \<Rightarrow> kb_ok k)
                         | _ \<Rightarrow> False))
                then True
                else if access_type = ''read''
                  \<and> get_channels_by_file_id_and_user_id file_id (u_id user) B G A \<noteq> [] then True
                else if access_type = ''read'' \<and> get_shared_chat_ids_by_file_id file_id B \<noteq> []
                  \<and> get_accessible_resource_ids (u_id user) ''shared_chat''
                      (get_shared_chat_ids_by_file_id file_id B) ''read'' (Some groups) G A \<noteq> {} then True
                else list_ex (\<lambda>m.
                    list_ex (attaches_file (fi_id file)) (case m_knowledge m of None \<Rightarrow> [] | Some xs \<Rightarrow> xs)
                    \<and> (access_type = ''read'' \<or> m_user_id m = fi_user_id file))
                  (get_models_by_user_id (u_id user) access_type (Some groups) B G A)))"

section \<open>The files of a folder\<close>

text \<open>An entry that the code checks: its \<open>type\<close> must be hashable to be looked up in the set.\<close>

definition folder_entry_ok :: "py \<Rightarrow> bool result" where
  "folder_entry_ok entry = (case entry of
     PDict d \<Rightarrow>
       if \<not> hashable (field d ''type'') then Inl TypeError
       else Inr (field d ''type'' \<in> {PStr ''file'', PStr ''collection''} \<and> truthy (field d ''id''))
   | _ \<Rightarrow> Inr False)"

definition entry_accessible ::
  "user_row \<Rightarrow> string set \<Rightarrow> objects_db \<Rightarrow> groups_db \<Rightarrow> grants_db \<Rightarrow> py \<Rightarrow> bool" where
  "entry_accessible user groups B G A entry = (case entry of
     PDict d \<Rightarrow> (case field d ''id'' of
         PStr i \<Rightarrow>
           (if field d ''type'' = PStr ''file'' then has_access_to_file i ''read'' user (Some groups) B G A
            else check_access_by_user_id i (u_id user) ''read'' B G A)
       | _ \<Rightarrow> False)
   | _ \<Rightarrow> False)"

definition get_accessible_folder_files ::
  "py \<Rightarrow> user_row \<Rightarrow> objects_db \<Rightarrow> groups_db \<Rightarrow> grants_db \<Rightarrow> py list result" where
  "get_accessible_folder_files entries user B G A =
     (case entries of
        PList xs \<Rightarrow> bindR (filterR folder_entry_ok xs) (\<lambda>es.
          if u_role user = ''admin'' then Inr es
          else Inr (filter (entry_accessible user (groups_of_user None (u_id user) G) B G A) es))
      | _ \<Rightarrow> Inr [])"

definition can_read_all_folder_files ::
  "py \<Rightarrow> user_row \<Rightarrow> objects_db \<Rightarrow> groups_db \<Rightarrow> grants_db \<Rightarrow> bool result" where
  "can_read_all_folder_files entries user B G A =
     (case entries of
        PNone \<Rightarrow> Inr True
      | PList xs \<Rightarrow>
          if xs = [] then Inr True
          else mapR (\<lambda>es. length es = length xs) (get_accessible_folder_files entries user B G A)
      | _ \<Rightarrow> Inr False)"

definition get_owner_accessible_folder_files ::
  "pydict option \<Rightarrow> string \<Rightarrow> users_db \<Rightarrow> objects_db \<Rightarrow> groups_db \<Rightarrow> grants_db \<Rightarrow> py list result" where
  "get_owner_accessible_folder_files data owner_id U B G A =
     (let files = py_or (field (case data of None \<Rightarrow> [] | Some d \<Rightarrow> d) ''files'') (PList []) in
      if \<not> truthy files then Inr []
      else (case get_user_by_id owner_id U of
              None \<Rightarrow> Inr []
            | Some owner \<Rightarrow> get_accessible_folder_files files owner B G A))"

section \<open>Properties\<close>

text \<open>A model that the listing gives a user, by the interface of the access check.\<close>

lemma models_by_user:
  "m \<in> set (get_models_by_user_id u perm (Some gs) B G A) \<longleftrightarrow>
     m \<in> set (o_models B) \<and> m_base_model_id m \<noteq> None \<and>
     (m_user_id m = u \<or> has_access u ''model'' (m_id m) perm (Some gs) G A)"
  unfolding get_models_by_user_id_def Let_def grants.batch_pointwise
  by (auto simp: get_models_def groups_of_user_def)

lemma knowledge_by_file:
  "k \<in> set (get_knowledges_by_file_id i B) \<longleftrightarrow> k \<in> set (o_knowledge B) \<and>
     (\<exists>r \<in> set (o_knowledge_files B). kf_knowledge_id r = k_id k \<and> kf_file_id r = i)"
  by (auto simp: get_knowledges_by_file_id_def)

text \<open>The knowledge bases that hold a file: by a row of the join table, or named in its metadata.\<close>

definition file_knowledge :: "file_row \<Rightarrow> objects_db \<Rightarrow> knowledge_row set" where
  "file_knowledge f B = set (get_knowledges_by_file_id (fi_id f) B) \<union>
     {k. \<exists>meta i. fi_meta f = Some meta \<and> field meta ''collection_name'' = PStr i \<and> i \<noteq> [] \<and>
        get_knowledge_by_id i B = Some k}"

text \<open>C9: any access but reading that a user has to the file of somebody else comes from a knowledge base
  that holds the file or a workspace model that attaches it, whose owner owns the file, by a grant
  of that access on it; an object of the user's own never gives it.\<close>

theorem write_access_needs_owner_object:
  assumes "get_file_by_id i B = Some f" and "fi_user_id f \<noteq> u_id user" and "access \<noteq> ''read''"
  shows "has_access_to_file i access user (Some gs) B G A \<longleftrightarrow>
    (\<exists>k \<in> file_knowledge f B. k_user_id k = fi_user_id f \<and>
       has_access (u_id user) ''knowledge'' (k_id k) access (Some gs) G A) \<or>
    (\<exists>m \<in> set (get_models B). list_ex (attaches_file i) (case m_knowledge m of None \<Rightarrow> [] | Some xs \<Rightarrow> xs) \<and>
       m_user_id m = fi_user_id f \<and> has_access (u_id user) ''model'' (m_id m) access (Some gs) G A)"
proof -
  have "fi_id f = i" using assms(1) by (auto simp: get_file_by_id_def dest: find_SomeD)
  define may where "may = (\<lambda>k :: knowledge_row. k_user_id k = fi_user_id f \<and>
      has_access (u_id user) ''knowledge'' (k_id k) access (Some gs) G A)"
  have kb: "(k_user_id k = u_id user \<or> has_access (u_id user) ''knowledge'' (k_id k) access (Some gs) G A)
      \<and> (access = ''read'' \<or> k_user_id k = fi_user_id f) \<longleftrightarrow> may k" for k
    using assms(2,3) by (auto simp: may_def)
  define by_row where "by_row = list_ex may (get_knowledges_by_file_id i B)"
  define by_meta where "by_meta = (case fi_meta f of None \<Rightarrow> False | Some meta \<Rightarrow> (case field meta ''collection_name'' of
      PStr i \<Rightarrow> i \<noteq> [] \<and> (case get_knowledge_by_id i B of None \<Rightarrow> False | Some k \<Rightarrow> may k) | _ \<Rightarrow> False))"
  define by_model where "by_model = list_ex (\<lambda>m. list_ex (attaches_file i) (case m_knowledge m of None \<Rightarrow> [] | Some xs \<Rightarrow> xs)
          \<and> m_user_id m = fi_user_id f) (get_models_by_user_id (u_id user) access (Some gs) B G A)"
  have access: "has_access_to_file i access user (Some gs) B G A \<longleftrightarrow> (by_row \<or> by_meta) \<or> by_model"
    unfolding has_access_to_file_def assms(1) Let_def option.case groups_of_user_def kb
      by_row_def [symmetric] by_meta_def [symmetric]
    using assms(2,3) \<open>fi_id f = i\<close> by (simp add: by_model_def)
  have kbs: "by_row \<or> by_meta \<longleftrightarrow> (\<exists>k \<in> file_knowledge f B. may k)"
    using \<open>fi_id f = i\<close>
    by (auto simp: by_row_def by_meta_def file_knowledge_def list_ex_iff split: option.splits py.splits)
  have models: "by_model \<longleftrightarrow> (\<exists>m \<in> set (get_models B).
      list_ex (attaches_file i) (case m_knowledge m of None \<Rightarrow> [] | Some xs \<Rightarrow> xs) \<and>
      m_user_id m = fi_user_id f \<and> has_access (u_id user) ''model'' (m_id m) access (Some gs) G A)"
  proof -
    define Q where "Q = (\<lambda>m :: workspace_model. list_ex (attaches_file i) (case m_knowledge m of None \<Rightarrow> [] | Some xs \<Rightarrow> xs)
        \<and> m_user_id m = fi_user_id f)"
    have "by_model \<longleftrightarrow> (\<exists>m. m \<in> set (get_models_by_user_id (u_id user) access (Some gs) B G A) \<and> Q m)"
      unfolding by_model_def Q_def list_ex_iff Bex_def by (rule refl)
    also have "\<dots> \<longleftrightarrow> (\<exists>m \<in> set (get_models B). Q m \<and>
        has_access (u_id user) ''model'' (m_id m) access (Some gs) G A)"
      unfolding models_by_user using assms(2) by (auto simp: get_models_def Q_def)
    finally show ?thesis by (simp add: Q_def conj_assoc)
  qed
  show ?thesis unfolding access kbs models may_def by (rule refl)
qed

theorem write_access_needs_owner_object_witness:
  "let f = \<lparr>fi_id = ''f'', fi_user_id = ''owner'', fi_meta = None\<rparr>;
       k = \<lparr>k_id = ''k'', k_user_id = ''u''\<rparr>;
       B = \<lparr>o_files = [f], o_knowledge = [k],
         o_knowledge_files = [\<lparr>kf_knowledge_id = ''k'', kf_file_id = ''f''\<rparr>], o_channels = [],
         o_channel_members = [], o_channel_files = [], o_chats = [], o_chat_files = [], o_models = []\<rparr>;
       user = \<lparr>u_id = ''u'', u_email = ''e'', u_username = None, u_role = ''user'', u_name = ''n'',
         u_profile_image_url = None, u_settings = None, u_oauth = None, u_scim = None,
         u_last_active_at = 0, u_updated_at = 0, u_created_at = 0\<rparr>;
       G = \<lparr>group_rows = [], member_rows = []\<rparr> in
   \<not> has_access_to_file ''f'' ''write'' user (Some {}) B G [] \<and> has_access_to_file ''f'' ''read'' user (Some {}) B G []"
proof -
  define f where "f = (\<lparr>fi_id = ''f'', fi_user_id = ''owner'', fi_meta = None\<rparr> :: file_row)"
  define B where "B = (\<lparr>o_files = [f], o_knowledge = [\<lparr>k_id = ''k'', k_user_id = ''u''\<rparr>],
         o_knowledge_files = [\<lparr>kf_knowledge_id = ''k'', kf_file_id = ''f''\<rparr>], o_channels = [],
         o_channel_members = [], o_channel_files = [], o_chats = [], o_chat_files = [], o_models = []\<rparr> :: objects_db)"
  define user where "user = (\<lparr>u_id = ''u'', u_email = ''e'', u_username = None, u_role = ''user'', u_name = ''n'',
         u_profile_image_url = None, u_settings = None, u_oauth = None, u_scim = None,
         u_last_active_at = 0, u_updated_at = 0, u_created_at = 0\<rparr> :: user_row)"
  let ?G = "\<lparr>group_rows = [], member_rows = []\<rparr> :: groups_db"
  have f: "get_file_by_id ''f'' B = Some f" "fi_user_id f \<noteq> u_id user" "''write'' \<noteq> ''read''"
    by (simp_all add: get_file_by_id_def B_def f_def user_def)
  have "\<not> has_access_to_file ''f'' ''write'' user (Some {}) B ?G []"
    unfolding write_access_needs_owner_object [OF f] by (simp add: has_access_def)
  moreover have "has_access_to_file ''f'' ''read'' user (Some {}) B ?G []"
    unfolding has_access_to_file_def f(1)
    by (simp add: get_knowledges_by_file_id_def B_def user_def f_def Let_def)
  ultimately show ?thesis unfolding B_def f_def user_def Let_def by blast
qed

text \<open>The two filters together, when every type is hashable.\<close>

lemma length_filter_all: "length (filter P xs) = length xs \<longleftrightarrow> (\<forall>x \<in> set xs. P x)"
  by (metis filter_True length_filter_less less_irrefl)

text \<open>a caller may read all the files of a folder exactly when each entry has a known type and an
  id and, unless the caller is an admin, is readable by the caller on its own.\<close>

theorem can_read_all_iff_each:
  assumes "\<forall>e \<in> set xs. folder_entry_ok e = Inr (ok e)"
  shows "can_read_all_folder_files (PList xs) user B G A =
    Inr (\<forall>e \<in> set xs. ok e \<and> (u_role user = ''admin'' \<or>
      entry_accessible user (groups_of_user None (u_id user) G) B G A e))"
proof -
  have "filterR folder_entry_ok xs = Inr (filter ok xs)" using assms by (rule filterR_total)
  then show ?thesis
    by (auto simp: can_read_all_folder_files_def get_accessible_folder_files_def length_filter_all)
qed

theorem can_read_all_iff_each_witness:
  "\<forall>B G A. can_read_all_folder_files (PList [PDict [(''type'', PStr ''file''), (''id'', PStr ''f'')], PStr ''x''])
     \<lparr>u_id = ''u'', u_email = ''e'', u_username = None, u_role = ''admin'', u_name = ''n'',
       u_profile_image_url = None, u_settings = None, u_oauth = None, u_scim = None,
       u_last_active_at = 0, u_updated_at = 0, u_created_at = 0\<rparr> B G A = Inr False"
  by (intro allI, subst can_read_all_iff_each [where ok = "\<lambda>e. e \<noteq> PStr ''x''"])
     (simp_all add: folder_entry_ok_def field_def)

end
