(* ===== verification/Task_Registry.thy ===== *)
theory Task_Registry
  imports Py_Prelude
begin

text \<open>
  The registry of running tasks, \<open>tasks.py\<close>, without Redis: the dicts \<open>tasks\<close> and \<open>item_tasks\<close>, the
  task objects of the event loop, and the clean-ups that their done callbacks have scheduled and
  that run at later turns of the loop. How a cancelled coroutine ends is an argument.
\<close>

section \<open>State\<close>

datatype task_end = Cancelled | Finished | Failed string

record task_handle =
  h_task_id :: string
  h_item :: "string option"
  h_end :: "task_end option"

record task_state =
  t_tasks :: "(string \<times> nat) list"
  t_items :: "(string option \<times> string list) list"
  t_handles :: "task_handle list"
  t_pending :: "nat list"

definition no_tasks :: task_state where
  "no_tasks = \<lparr>t_tasks = [], t_items = [], t_handles = [], t_pending = []\<rparr>"

text \<open>\<open>item_tasks.get(id, [])\<close>.\<close>

definition item_list :: "string option \<Rightarrow> task_state \<Rightarrow> string list" where
  "item_list i S = (case dget (t_items S) i of None \<Rightarrow> [] | Some ts \<Rightarrow> ts)"

section \<open>Operations\<close>

definition create_task_local ::
  "string \<Rightarrow> string option \<Rightarrow> string option \<Rightarrow> task_state \<Rightarrow> (string \<times> nat) \<times> task_state" where
  "create_task_local uuid i task_id S =
     (let tid = (case task_id of None \<Rightarrow> uuid | Some t \<Rightarrow> if t = [] then uuid else t);
          h = length (t_handles S)
      in ((tid, h), S\<lparr>
        t_handles := t_handles S @ [\<lparr>h_task_id = tid, h_item = i, h_end = None\<rparr>],
        t_tasks := dset tid h (t_tasks S),
        t_items := dset i (if item_list i S \<noteq> [] then item_list i S @ [tid] else [tid]) (t_items S)\<rparr>))"

text \<open>A task that ends schedules its clean-up.\<close>

definition end_task :: "nat \<Rightarrow> task_end \<Rightarrow> task_state \<Rightarrow> task_state" where
  "end_task h e S =
     (if h < length (t_handles S) \<and> h_end (t_handles S ! h) = None
      then S\<lparr>t_handles := (t_handles S)[h := (t_handles S ! h)\<lparr>h_end := Some e\<rparr>],
             t_pending := t_pending S @ [h]\<rparr>
      else S)"

definition cleanup_task_local :: "string \<Rightarrow> string option \<Rightarrow> task_state \<Rightarrow> task_state" where
  "cleanup_task_local tid i S =
     (let S1 = S\<lparr>t_tasks := dpop tid (t_tasks S)\<rparr> in
      if i \<noteq> None \<and> i \<noteq> Some [] \<and> tid \<in> set (item_list i S1)
      then (let ts = remove1 tid (item_list i S1)
            in S1\<lparr>t_items := (if ts = [] then dpop i (t_items S1) else dset i ts (t_items S1))\<rparr>)
      else S1)"

text \<open>The first scheduled clean-up runs.\<close>

definition run_cleanup :: "task_state \<Rightarrow> task_state" where
  "run_cleanup S = (case t_pending S of
     [] \<Rightarrow> S
   | h # hs \<Rightarrow> cleanup_task_local (h_task_id (t_handles S ! h)) (h_item (t_handles S ! h)) (S\<lparr>t_pending := hs\<rparr>))"

definition list_tasks_local :: "task_state \<Rightarrow> string list" where
  "list_tasks_local S = dkeys (t_tasks S)"

definition list_task_ids_by_item_id_local :: "string option \<Rightarrow> task_state \<Rightarrow> string list" where
  "list_task_ids_by_item_id_local i S = item_list i S"

definition has_active_tasks_local :: "string \<Rightarrow> task_state \<Rightarrow> bool" where
  "has_active_tasks_local chat_id S = (0 < length (list_task_ids_by_item_id_local (Some chat_id) S))"

text \<open>The result of a stop: its status and message. A coroutine that fails makes it raise.\<close>

definition stop_task_local ::
  "(nat \<Rightarrow> task_end) \<Rightarrow> string \<Rightarrow> task_state \<Rightarrow> (bool \<times> string) result \<times> task_state" where
  "stop_task_local on_cancel tid S =
     (case dget (t_tasks S) tid of
        None \<Rightarrow> (Inr (False, ''Task with ID '' @ tid @ '' not found.''), S)
      | Some h \<Rightarrow>
          (let S1 = end_task h (on_cancel h) (S\<lparr>t_tasks := dpop tid (t_tasks S)\<rparr>) in
           case h_end (t_handles S1 ! h) of
             Some (Failed e) \<Rightarrow> (Inl (RuntimeError e), S1)
           | Some Finished \<Rightarrow> (Inr (True, ''Task '' @ tid @ '' successfully cancelled.''), S1)
           | _ \<Rightarrow> (Inr (True, ''Task '' @ tid @ '' successfully stopped.''), S1)))"

text \<open>
  \<open>stop_item_tasks\<close> walks by position over the live list of the item, from which clean-ups remove
  tasks meanwhile: \<open>runs k\<close> of them run while the task at position \<open>k\<close> is awaited.
\<close>

lemma item_list_cleanup_length: "length (item_list i (cleanup_task_local tid j S)) \<le> length (item_list i S)"
  by (auto simp: cleanup_task_local_def item_list_def Let_def length_remove1 split: option.split)

lemma run_cleanups_length: "length (item_list i ((run_cleanup ^^ n) S)) \<le> length (item_list i S)"
proof (induction n)
  case (Suc n)
  have "length (item_list i (run_cleanup T)) \<le> length (item_list i T)" for T
    using item_list_cleanup_length [of i _ _ "T\<lparr>t_pending := _\<rparr>"]
    by (auto simp: run_cleanup_def item_list_def split: list.split)
  from order_trans [OF this Suc] show ?case by simp
qed simp

lemma item_list_stop [simp]: "item_list i (snd (stop_task_local c tid S)) = item_list i S"
  by (auto simp: stop_task_local_def item_list_def end_task_def Let_def split: option.split task_end.split)

function stop_loop ::
  "(nat \<Rightarrow> task_end) \<Rightarrow> (nat \<Rightarrow> nat) \<Rightarrow> nat \<Rightarrow> string \<Rightarrow> task_state \<Rightarrow> (bool \<times> string) result \<times> task_state" where
  "stop_loop on_cancel runs k item_id S =
     (if k < length (item_list (Some item_id) S)
      then (case stop_task_local on_cancel (item_list (Some item_id) S ! k) S of
          (Inl e, S1) \<Rightarrow> (Inl e, S1)
        | (Inr (False, m), S1) \<Rightarrow> (Inr (False, m), S1)
        | (Inr (True, m), S1) \<Rightarrow> stop_loop on_cancel runs (Suc k) item_id ((run_cleanup ^^ runs k) S1))
      else (Inr (True, ''All tasks for item '' @ item_id @ '' stopped.''), S))"
  by pat_completeness auto
termination
proof (relation "measure (\<lambda>(c, r, k, i, S). length (item_list (Some i) S) - k)", goal_cases)
  case (2 c runs k i S r S1 b m)
  then have "S1 = snd (stop_task_local c (item_list (Some i) S ! k) S)" by (metis snd_conv)
  then have "item_list (Some i) S1 = item_list (Some i) S" by simp
  moreover have "length (item_list (Some i) ((run_cleanup ^^ runs k) S1)) \<le> length (item_list (Some i) S)"
    using run_cleanups_length [of "Some i" "runs k" S1] calculation by simp
  ultimately show ?case using 2 by simp
qed simp

declare stop_loop.simps [simp del]

definition stop_item_tasks ::
  "(nat \<Rightarrow> task_end) \<Rightarrow> (nat \<Rightarrow> nat) \<Rightarrow> string \<Rightarrow> task_state \<Rightarrow> (bool \<times> string) result \<times> task_state" where
  "stop_item_tasks on_cancel runs item_id S =
     (if list_task_ids_by_item_id_local (Some item_id) S = []
      then (Inr (True, ''No tasks found for item '' @ item_id @ ''.''), S)
      else stop_loop on_cancel runs 0 item_id S)"

section \<open>The registry as a state machine\<close>

inductive task_step :: "task_state \<Rightarrow> task_state \<Rightarrow> bool" where
  create: "task_step S (snd (create_task_local uuid i tid S))"
| finish: "task_step S (end_task h e S)"
| clean: "task_step S (run_cleanup S)"
| stop: "task_step S (snd (stop_task_local on_cancel tid S))"

inductive tasks_reachable :: "task_state \<Rightarrow> bool" where
  start: "tasks_reachable no_tasks"
| step: "tasks_reachable S \<Longrightarrow> task_step S S' \<Longrightarrow> tasks_reachable S'"

text \<open>A task is registered while it runs or while its clean-up waits.\<close>

definition registered :: "task_state \<Rightarrow> nat \<Rightarrow> bool" where
  "registered S h = (h < length (t_handles S) \<and> (h_end (t_handles S ! h) = None \<or> h \<in> set (t_pending S)))"

definition registered_as :: "task_state \<Rightarrow> string option \<Rightarrow> string \<Rightarrow> nat set" where
  "registered_as S i t = {h. registered S h \<and> h_item (t_handles S ! h) = i \<and> h_task_id (t_handles S ! h) = t}"

definition wf_tasks :: "task_state \<Rightarrow> bool" where
  "wf_tasks S = (distinct (t_pending S) \<and>
     (\<forall>h \<in> set (t_pending S). h < length (t_handles S) \<and> h_end (t_handles S ! h) \<noteq> None) \<and>
     (\<forall>i t. i \<noteq> [] \<longrightarrow> count_list (item_list (Some i) S) t = card (registered_as S (Some i) t)))"

lemma finite_registered: "finite (registered_as S i t)"
  by (rule finite_subset [of _ "{..<length (t_handles S)}"]) (auto simp: registered_as_def registered_def)

lemma wf_create:
  assumes "wf_tasks S"
  shows "wf_tasks (snd (create_task_local uuid i tid S))"
proof -
  obtain t h S' where S': "create_task_local uuid i tid S = ((t, h), S')" by (metis prod.exhaust)
  have S'_eq: "h = length (t_handles S)" "t_pending S' = t_pending S"
    "t_handles S' = t_handles S @ [\<lparr>h_task_id = t, h_item = i, h_end = None\<rparr>]"
    "item_list j S' = (if j = i then item_list i S @ [t] else item_list j S)" for j
    using S' by (auto simp: create_task_local_def Let_def item_list_def)
  have old: "\<forall>h' \<in> set (t_pending S). h' < length (t_handles S)" using assms by (simp add: wf_tasks_def)
  have reg: "registered_as S' j s = registered_as S j s \<union> (if j = i \<and> s = t then {h} else {})" for j s
    using old by (auto simp: registered_as_def registered_def S'_eq nth_append less_Suc_eq split: if_splits)
  have new: "h \<notin> registered_as S j s" for j s
    by (simp add: registered_as_def registered_def S'_eq(1))
  have "count_list (item_list (Some j) S') s = card (registered_as S' (Some j) s)" if "j \<noteq> []" for j s
    using assms that new finite_registered [of S]
    by (auto simp: wf_tasks_def S'_eq(4) reg)
  moreover have "\<forall>h \<in> set (t_pending S'). h < length (t_handles S') \<and> h_end (t_handles S' ! h) \<noteq> None"
    using assms by (auto simp: wf_tasks_def S'_eq nth_append less_SucI)
  ultimately show ?thesis
    using assms S' by (simp add: wf_tasks_def S'_eq(2))
qed

lemma wf_end:
  assumes "wf_tasks S"
  shows "wf_tasks (end_task h e S)"
proof (cases "h < length (t_handles S) \<and> h_end (t_handles S ! h) = None")
  case True
  define S' where "S' = end_task h e S"
  have S': "t_handles S' = (t_handles S)[h := (t_handles S ! h)\<lparr>h_end := Some e\<rparr>]"
    "t_pending S' = t_pending S @ [h]" "item_list j S' = item_list j S" for j
    using True by (simp_all add: S'_def end_task_def item_list_def)
  have "registered_as S' j s = registered_as S j s" for j s
    using True by (auto simp: registered_as_def registered_def S' nth_list_update)
  moreover have "h \<notin> set (t_pending S)" using assms True by (auto simp: wf_tasks_def)
  ultimately show ?thesis
    using assms True unfolding S'_def [symmetric] by (auto simp: wf_tasks_def S' nth_list_update)
next
  case False
  then show ?thesis using assms unfolding end_task_def by (simp only: if_False)
qed

lemma count_remove1: "count_list (remove1 x xs) y = (if y = x then count_list xs y - 1 else count_list xs y)"
  by (induction xs) auto

lemma item_list_cleanup: "item_list j (cleanup_task_local t i S) =
    (if i = j \<and> i \<noteq> None \<and> i \<noteq> Some [] then remove1 t (item_list j S) else item_list j S)"
  by (auto simp: cleanup_task_local_def item_list_def Let_def remove1_idem split: option.split)

lemma item_list_pending: "item_list j (S\<lparr>t_pending := hs\<rparr>) = item_list j S"
  by (simp add: item_list_def)

lemma cleanup_fields [simp]:
  "t_handles (cleanup_task_local t i S) = t_handles S" "t_pending (cleanup_task_local t i S) = t_pending S"
  by (simp_all add: cleanup_task_local_def Let_def)

lemma wf_cleanup:
  assumes "wf_tasks S"
  shows "wf_tasks (run_cleanup S)"
proof (cases "t_pending S")
  case (Cons h hs)
  define t i where "t = h_task_id (t_handles S ! h)" and "i = h_item (t_handles S ! h)"
  define S' where "S' = run_cleanup S"
  have S': "t_handles S' = t_handles S" "t_pending S' = hs"
    "item_list j S' = (if i = j \<and> i \<noteq> None \<and> i \<noteq> Some [] then remove1 t (item_list j S) else item_list j S)" for j
    by (auto simp: S'_def run_cleanup_def Cons t_def i_def item_list_cleanup item_list_pending)
  have h: "h < length (t_handles S)" "h_end (t_handles S ! h) \<noteq> None" "h \<notin> set hs"
    using assms Cons by (auto simp: wf_tasks_def)
  have reg: "registered_as S j s = registered_as S' j s \<union> (if j = i \<and> s = t then {h} else {})" for j s
    using h by (auto simp: registered_as_def registered_def S' Cons t_def i_def)
  have gone: "h \<notin> registered_as S' j s" for j s
    using h by (simp add: registered_as_def registered_def S')
  have "count_list (item_list (Some j) S') s = card (registered_as S' (Some j) s)" if "j \<noteq> []" for j s
  proof -
    have "count_list (item_list (Some j) S) s = card (registered_as S (Some j) s)"
      using assms that by (simp add: wf_tasks_def)
    with gone [of "Some j" s] finite_registered [of S' "Some j" s] that show ?thesis
      by (auto simp: reg S'(3) count_remove1)
  qed
  then show ?thesis
    using assms Cons unfolding S'_def [symmetric] by (auto simp: wf_tasks_def S')
qed (use assms in \<open>simp add: run_cleanup_def\<close>)

lemma wf_drop_task: "wf_tasks S \<Longrightarrow> wf_tasks (S\<lparr>t_tasks := d\<rparr>)"
  by (simp add: wf_tasks_def registered_as_def registered_def item_list_def)

lemma wf_stop: "wf_tasks S \<Longrightarrow> wf_tasks (snd (stop_task_local c tid S))"
  by (auto simp: stop_task_local_def Let_def intro: wf_end wf_drop_task split: option.split task_end.split)

lemma tasks_reachable_wf: "tasks_reachable S \<Longrightarrow> wf_tasks S"
proof (induction rule: tasks_reachable.induct)
  case start
  show ?case by (simp add: wf_tasks_def no_tasks_def item_list_def registered_as_def registered_def)
next
  case (step S S')
  from step(2,3) show ?case
    by cases (auto intro: wf_create wf_end wf_cleanup wf_stop)
qed

section \<open>Properties\<close>

text \<open>C13: in a process that runs without Redis, in every state that creating, ending, cleaning up and
  stopping tasks can reach, a chat (whose id is not empty) has active tasks exactly when a task created for it still
  runs or waits for its clean-up.\<close>

theorem active_iff_registered:
  assumes "tasks_reachable S" and "i \<noteq> []"
  shows "has_active_tasks_local i S \<longleftrightarrow>
    (\<exists>h < length (t_handles S). h_item (t_handles S ! h) = Some i \<and>
       (h_end (t_handles S ! h) = None \<or> h \<in> set (t_pending S)))"
proof -
  have "has_active_tasks_local i S \<longleftrightarrow> (\<exists>t. count_list (item_list (Some i) S) t \<noteq> 0)"
    by (cases "item_list (Some i) S")
       (auto simp: has_active_tasks_local_def list_task_ids_by_item_id_local_def intro: exI [of _ "hd _"])
  also have "\<dots> \<longleftrightarrow> (\<exists>t. registered_as S (Some i) t \<noteq> {})"
    using tasks_reachable_wf [OF assms(1)] assms(2) finite_registered [of S "Some i"]
    by (auto simp: wf_tasks_def)
  finally show ?thesis by (auto simp: registered_as_def registered_def)
qed

theorem active_iff_registered_witness:
  "has_active_tasks_local ''c'' (snd (create_task_local ''t1'' (Some ''c'') None no_tasks)) \<and>
   \<not> has_active_tasks_local ''c'' (run_cleanup (end_task 0 Finished (snd (create_task_local ''t1'' (Some ''c'') None no_tasks))))"
proof -
  let ?S = "snd (create_task_local ''t1'' (Some ''c'') None no_tasks)"
  have r1: "tasks_reachable ?S"
    by (rule tasks_reachable.step, rule tasks_reachable.start, rule task_step.create)
  have r2: "tasks_reachable (run_cleanup (end_task 0 Finished ?S))"
    by (rule tasks_reachable.step, rule tasks_reachable.step, rule r1, rule task_step.finish, rule task_step.clean)
  have h1: "t_handles ?S = [\<lparr>h_task_id = ''t1'', h_item = Some ''c'', h_end = None\<rparr>]"
    by (simp add: create_task_local_def no_tasks_def item_list_def Let_def)
  have h2: "t_handles (run_cleanup (end_task 0 Finished ?S)) =
      [\<lparr>h_task_id = ''t1'', h_item = Some ''c'', h_end = Some Finished\<rparr>]"
    "t_pending (run_cleanup (end_task 0 Finished ?S)) = []"
    by (simp_all add: create_task_local_def no_tasks_def item_list_def end_task_def run_cleanup_def Let_def)
  show ?thesis
    unfolding active_iff_registered [OF r1, of "''c''", simplified] active_iff_registered [OF r2, of "''c''", simplified]
    by (simp add: h1 h2)
qed

text \<open>stopping the tasks of a chat walks over the list that the clean-ups shorten: when the
  clean-up of each stopped task runs while the next one is awaited, as the event loop schedules it,
  the third of three running tasks is skipped and keeps running, and the call reports success.\<close>

theorem stop_item_tasks_skips_third:
  assumes "distinct [t1, t2, t3]" and "i \<noteq> []" and "[] \<notin> {t1, t2, t3}"
    and "S = snd (create_task_local u (Some i) (Some t3) (snd (create_task_local u (Some i) (Some t2)
             (snd (create_task_local u (Some i) (Some t1) no_tasks)))))"
    and "stop_item_tasks (\<lambda>h. Cancelled) (\<lambda>k. if k = 0 then 0 else 1) i S = (r, S')"
  shows "r = Inr (True, ''All tasks for item '' @ i @ '' stopped.'') \<and>
    dget (t_tasks S') t3 = Some 2 \<and> h_end (t_handles S' ! 2) = None"
proof -
  have t: "t1 \<noteq> t2" "t1 \<noteq> t3" "t2 \<noteq> t3" "t2 \<noteq> t1" "t3 \<noteq> t1" "t3 \<noteq> t2" "t1 \<noteq> []" "t2 \<noteq> []" "t3 \<noteq> []"
    using assms(1,3) by auto
  let ?h = "\<lambda>t e. \<lparr>h_task_id = t, h_item = Some i, h_end = e\<rparr>"
  have S: "S = \<lparr>t_tasks = [(t1, 0), (t2, 1), (t3, 2)], t_items = [(Some i, [t1, t2, t3])],
      t_handles = [?h t1 None, ?h t2 None, ?h t3 None], t_pending = []\<rparr>"
    unfolding assms(4) by (simp add: create_task_local_def no_tasks_def item_list_def Let_def t)
  define S1 where "S1 = \<lparr>t_tasks = [(t2, 1), (t3, 2 :: nat)], t_items = [(Some i, [t1, t2, t3])],
      t_handles = [?h t1 (Some Cancelled), ?h t2 None, ?h t3 None], t_pending = [0 :: nat]\<rparr>"
  define S2 where "S2 = \<lparr>t_tasks = [(t3, 2 :: nat)], t_items = [(Some i, [t2, t3])],
      t_handles = [?h t1 (Some Cancelled), ?h t2 (Some Cancelled), ?h t3 None], t_pending = [1 :: nat]\<rparr>"
  have one: "snd (stop_task_local (\<lambda>h. Cancelled) t1 S) = S1" "\<exists>m. fst (stop_task_local (\<lambda>h. Cancelled) t1 S) = Inr (True, m)"
    by (simp_all add: S S1_def stop_task_local_def end_task_def t Let_def)
  have two: "run_cleanup (snd (stop_task_local (\<lambda>h. Cancelled) t2 S1)) = S2"
    "\<exists>m. fst (stop_task_local (\<lambda>h. Cancelled) t2 S1) = Inr (True, m)"
    by (simp_all add: S1_def S2_def stop_task_local_def end_task_def run_cleanup_def cleanup_task_local_def item_list_def
        t Let_def assms(2))
  have "stop_item_tasks (\<lambda>h. Cancelled) (\<lambda>k. if k = 0 then 0 else 1) i S =
      (Inr (True, ''All tasks for item '' @ i @ '' stopped.''), S2)"
  proof -
    let ?loop = "stop_loop (\<lambda>h. Cancelled) (\<lambda>k. if k = 0 then 0 else 1)"
    have "?loop 2 i S2 = (Inr (True, ''All tasks for item '' @ i @ '' stopped.''), S2)"
      by (subst stop_loop.simps) (simp add: S2_def item_list_def)
    moreover have "?loop 1 i S1 = ?loop 2 i S2"
      using two by (subst stop_loop.simps)
        (auto simp: S1_def item_list_def numeral_2_eq_2 split: prod.split sum.split)
    moreover have "?loop 0 i S = ?loop 1 i S1"
      using one by (subst stop_loop.simps)
        (auto simp: S item_list_def split: prod.split sum.split)
    ultimately show ?thesis
      by (simp add: stop_item_tasks_def list_task_ids_by_item_id_local_def S item_list_def)
  qed
  with assms(5) have "r = Inr (True, ''All tasks for item '' @ i @ '' stopped.'')" "S' = S2" by simp_all
  then show ?thesis by (simp add: S2_def)
qed

theorem stop_item_tasks_skips_third_witness:
  "let S = snd (create_task_local ''u'' (Some ''c'') (Some ''3'') (snd (create_task_local ''u'' (Some ''c'') (Some ''2'')
             (snd (create_task_local ''u'' (Some ''c'') (Some ''1'') no_tasks)))));
       S' = snd (stop_item_tasks (\<lambda>h. Cancelled) (\<lambda>k. if k = 0 then 0 else 1) ''c'' S) in
   h_end (t_handles S' ! 2) = None"
  unfolding Let_def
  using stop_item_tasks_skips_third [OF _ _ _ refl surjective_pairing, of "''1''" "''2''" "''3''" "''c''" "''u''"]
  by simp

end
