(* ===== verification/Bedrock_Tools.thy ===== *)
theory Bedrock_Tools
  imports Py_Prelude
begin

text \<open>
  From an OpenAI chat request to an AWS Converse request, the first half of \<open>routers/bedrock.py\<close>:
  model ids, text blocks, messages, tool names and their maps, tool schemas and the tool
  configuration. The request is JSON, hence \<open>py\<close> values; the content blocks that the code builds
  are a datatype. Parameters: \<open>str_of\<close> is \<open>str()\<close> of a value that is no string, \<open>loads\<close> is
  \<open>json.loads\<close> (\<open>None\<close> for a decoding error) and \<open>sha8\<close> the first eight hexadecimal digits of
  SHA-256.
\<close>

section \<open>Models\<close>

record model_summary =
  ms_model_id :: "string option"
  ms_model_arn :: "string option"
  ms_model_name :: "string option"
  ms_provider_name :: "string option"
  ms_input_modalities :: "string list option"
  ms_output_modalities :: "string list option"
  ms_inference_types :: "string list option"
  ms_streaming :: "bool option"

record inference_profile =
  ip_id :: "string option"
  ip_name :: "string option"
  ip_type :: "string option"
  ip_models :: "model_summary list option"

definition foundation_model_id :: "model_summary \<Rightarrow> string" where
  "foundation_model_id m =
     (case ms_model_id m of
        Some (c # i) \<Rightarrow> c # i
      | _ \<Rightarrow> (case split_at ''foundation-model/'' (case ms_model_arn m of None \<Rightarrow> [] | Some a \<Rightarrow> a) of
          None \<Rightarrow> [] | Some (_, i) \<Rightarrow> i))"

definition supports_converse :: "string list \<Rightarrow> string \<Rightarrow> bool" where
  "supports_converse allowed model_id = (model_id \<noteq> [] \<and> list_ex (starts_with model_id) allowed)"

definition supports_text_chat :: "string list \<Rightarrow> model_summary \<Rightarrow> bool" where
  "supports_text_chat allowed m =
     (supports_converse allowed (foundation_model_id m)
      \<and> ''TEXT'' \<in> set (case ms_input_modalities m of None \<Rightarrow> [] | Some x \<Rightarrow> x)
      \<and> ''TEXT'' \<in> set (case ms_output_modalities m of None \<Rightarrow> [] | Some x \<Rightarrow> x))"

definition profile_supports_text_chat ::
  "string list \<Rightarrow> inference_profile \<Rightarrow> (string \<times> model_summary) list \<Rightarrow> bool" where
  "profile_supports_text_chat allowed p summaries_by_id =
     list_ex (\<lambda>m. case dget summaries_by_id (foundation_model_id m) of
         None \<Rightarrow> False | Some s \<Rightarrow> supports_text_chat allowed s)
       (case ip_models p of None \<Rightarrow> [] | Some ms \<Rightarrow> ms)"

definition bedrock_model_id :: "string \<Rightarrow> string" where
  "bedrock_model_id i = (if starts_with i ''bedrock:'' then drop 8 i else i)"

section \<open>Values of a request\<close>

definition py_str :: "(py \<Rightarrow> string) \<Rightarrow> py \<Rightarrow> string" where
  "py_str str_of v = (case v of PStr s \<Rightarrow> s | _ \<Rightarrow> str_of v)"

text \<open>\<open>form_data.get(k) or []\<close> and a loop over it.\<close>

definition form_list :: "pydict \<Rightarrow> string \<Rightarrow> py list result" where
  "form_list form k = py_iter (py_or (field form k) (PList []))"

text \<open>\<open>(tool.get('function') or {})\<close> and its name.\<close>

definition fn_of :: "py \<Rightarrow> py result" where
  "fn_of tool = mapR (\<lambda>f. py_or f (PDict [])) (py_get tool ''function'')"

definition fn_name :: "py \<Rightarrow> py \<Rightarrow> py result" where
  "fn_name dflt tool = bindR (fn_of tool) (\<lambda>f. py_get_or f ''name'' dflt)"

text \<open>The texts of the text blocks of a message content.\<close>

definition text_item :: "(py \<Rightarrow> string) \<Rightarrow> py \<Rightarrow> string list" where
  "text_item str_of item = (case item of
     PDict d \<Rightarrow> if field d ''type'' = PStr ''text'' \<and> field d ''text'' \<noteq> PNone
                then [py_str str_of (field d ''text'')] else []
   | _ \<Rightarrow> [])"

definition text_blocks :: "(py \<Rightarrow> string) \<Rightarrow> py \<Rightarrow> string list" where
  "text_blocks str_of content = (case content of
     PList items \<Rightarrow> concat (map (text_item str_of) items)
   | PNone \<Rightarrow> []
   | _ \<Rightarrow> [py_str str_of content])"

definition json_arguments :: "(string \<Rightarrow> py option) \<Rightarrow> py \<Rightarrow> pydict" where
  "json_arguments loads v = (case v of
     PDict d \<Rightarrow> d
   | _ \<Rightarrow> (case (if truthy v then v else PStr ''{}'') of
       PStr s \<Rightarrow> (case loads s of Some (PDict d) \<Rightarrow> d | _ \<Rightarrow> [])
     | _ \<Rightarrow> []))"

section \<open>Messages\<close>

datatype content_block =
    TextBlock string
  | ToolUseBlock py py pydict
  | ToolResultBlock py "string list"

record converse_message =
  cv_role :: string
  cv_content :: "content_block list"

fun is_tool_result :: "content_block \<Rightarrow> bool" where
  "is_tool_result (ToolResultBlock i c) = True"
| "is_tool_result _ = False"

text \<open>\<open>tool_names.get(name, name)\<close>.\<close>

definition rename_tool :: "(string \<times> string) list \<Rightarrow> py \<Rightarrow> py result" where
  "rename_tool tool_names v = (case v of
     PStr s \<Rightarrow> Inr (PStr (case dget tool_names s of None \<Rightarrow> s | Some t \<Rightarrow> t))
   | _ \<Rightarrow> if hashable v then Inr v else Inl TypeError)"

definition tool_use_block ::
  "(string \<Rightarrow> py option) \<Rightarrow> (string \<times> string) list \<Rightarrow> py \<Rightarrow> content_block result" where
  "tool_use_block loads tool_names call =
     bindR (py_get_or call ''id'' (PStr [])) (\<lambda>i.
     bindR (fn_name (PStr []) call) (\<lambda>name.
     bindR (rename_tool tool_names name) (\<lambda>name'.
     bindR (fn_of call) (\<lambda>f.
     bindR (py_get_or f ''arguments'' (PStr ''{}'')) (\<lambda>arguments.
     Inr (ToolUseBlock i name' (json_arguments loads arguments)))))))"

text \<open>A tool result joins the last message when that is a user message of tool results only.\<close>

definition add_tool_result :: "content_block \<Rightarrow> converse_message list \<Rightarrow> converse_message list" where
  "add_tool_result b ms =
     (if ms \<noteq> [] \<and> cv_role (last ms) = ''user'' \<and> list_all is_tool_result (cv_content (last ms))
      then butlast ms @ [(last ms)\<lparr>cv_content := cv_content (last ms) @ [b]\<rparr>]
      else ms @ [\<lparr>cv_role = ''user'', cv_content = [b]\<rparr>])"

definition tool_result_block :: "(py \<Rightarrow> string) \<Rightarrow> py \<Rightarrow> content_block result" where
  "tool_result_block str_of message =
     bindR (py_get_or message ''tool_call_id'' (PStr [])) (\<lambda>i.
     bindR (py_get_or message ''content'' (PStr [])) (\<lambda>content.
     let texts = text_blocks str_of content in
     Inr (ToolResultBlock i (if texts = [] then [[]] else texts))))"

text \<open>The blocks of a message that is no tool result: its texts, then its tool calls.\<close>

definition plain_blocks ::
  "(py \<Rightarrow> string) \<Rightarrow> (string \<Rightarrow> py option) \<Rightarrow> (string \<times> string) list \<Rightarrow> py \<Rightarrow>
   content_block list result" where
  "plain_blocks str_of loads tool_names message =
     bindR (py_get_or message ''role'' (PStr ''user'')) (\<lambda>role.
     bindR (py_get_or message ''content'' (PStr [])) (\<lambda>content.
     let texts = map TextBlock (text_blocks str_of content) in
     if role = PStr ''assistant''
     then bindR (py_get message ''tool_calls'') (\<lambda>calls.
          bindR (py_iter (py_or calls (PList []))) (\<lambda>cs.
          bindR (listR (tool_use_block loads tool_names) cs) (\<lambda>uses. Inr (texts @ uses))))
     else Inr texts))"

definition convert_message ::
  "(py \<Rightarrow> string) \<Rightarrow> (string \<Rightarrow> py option) \<Rightarrow> (string \<times> string) list \<Rightarrow>
   string list \<times> converse_message list \<Rightarrow> py \<Rightarrow> (string list \<times> converse_message list) result" where
  "convert_message str_of loads tool_names acc message =
     (case acc of (system, converted) \<Rightarrow>
        bindR (py_get_or message ''role'' (PStr ''user'')) (\<lambda>role.
        bindR (py_get_or message ''content'' (PStr [])) (\<lambda>content.
        let texts = text_blocks str_of content in
        if role = PStr ''system'' then Inr (system @ texts, converted)
        else if role = PStr ''tool'' then
          bindR (tool_result_block str_of message) (\<lambda>b. Inr (system, add_tool_result b converted))
        else
          bindR (plain_blocks str_of loads tool_names message) (\<lambda>blocks.
            Inr (system, converted @ [\<lparr>
              cv_role = (if role = PStr ''assistant'' then ''assistant'' else ''user''),
              cv_content = blocks\<rparr>])))))"

definition converse_messages ::
  "(py \<Rightarrow> string) \<Rightarrow> (string \<Rightarrow> py option) \<Rightarrow> (string \<times> string) list \<Rightarrow> py list \<Rightarrow>
   (string list \<times> converse_message list) result" where
  "converse_messages str_of loads tool_names messages =
     foldR (convert_message str_of loads tool_names) ([], []) messages"

section \<open>Tool names\<close>

definition safe_char :: "char \<Rightarrow> bool" where
  "safe_char c = (ascii_alpha c \<or> is_decimal c \<or> c = CHR ''_'')"

definition safe_name :: "string \<Rightarrow> string" where
  "safe_name original = take 64 (map (\<lambda>c. if safe_char c then c else CHR ''_'') original)"

definition suffixed_name :: "(string \<Rightarrow> string) \<Rightarrow> string \<Rightarrow> string" where
  "suffixed_name sha8 original = take 55 (safe_name original) @ ''_'' @ sha8 original"

type_synonym name_maps = "(string \<times> string) list \<times> (string \<times> string) list"

definition add_tool_name :: "(string \<Rightarrow> string) \<Rightarrow> name_maps \<Rightarrow> string \<Rightarrow> name_maps" where
  "add_tool_name sha8 maps original =
     (case maps of (forward, reverse) \<Rightarrow>
        let safe = safe_name original;
            safe' = (if dget reverse safe \<noteq> None \<and> dget reverse safe \<noteq> Some original
                     then suffixed_name sha8 original else safe)
        in (dset original safe' forward, dset safe' original reverse))"

text \<open>A name that is no string makes \<open>re.sub\<close> raise.\<close>

definition bedrock_tool_name_maps :: "(string \<Rightarrow> string) \<Rightarrow> pydict \<Rightarrow> name_maps result" where
  "bedrock_tool_name_maps sha8 form =
     bindR (form_list form ''tools'') (foldR (\<lambda>maps tool.
       bindR (fn_name PNone tool) (\<lambda>original.
         if \<not> truthy original then Inr maps
         else (case original of PStr s \<Rightarrow> Inr (add_tool_name sha8 maps s) | _ \<Rightarrow> Inl TypeError)))
       ([], []))"

section \<open>Tool configuration\<close>

definition nova_tool_schema :: "py \<Rightarrow> py result" where
  "nova_tool_schema schema =
     bindR (py_get schema ''properties'') (\<lambda>properties.
     bindR (py_get schema ''required'') (\<lambda>required.
     Inr (PDict ([(''type'', PStr ''object''),
                  (''properties'', if is_dict properties then properties else PDict [])]
       @ (if is_list required \<and> truthy required then [(''required'', required)] else [])))))"

definition tool_spec :: "(string \<times> string) list \<Rightarrow> py \<Rightarrow> py \<Rightarrow> py result" where
  "tool_spec tool_names function name =
     bindR (py_get function ''parameters'') (\<lambda>parameters.
     bindR (rename_tool tool_names name) (\<lambda>name'.
     bindR (nova_tool_schema (py_or parameters
         (PDict [(''type'', PStr ''object''), (''properties'', PDict [])]))) (\<lambda>schema.
     bindR (py_get function ''description'') (\<lambda>description.
     Inr (PDict [(''toolSpec'', PDict ([(''name'', name'), (''inputSchema'', PDict [(''json'', schema)])]
       @ (if truthy description then [(''description'', description)] else [])))])))))"

text \<open>The specifications of the tools of a request, the excluded ones left out.\<close>

fun tool_specs :: "(string \<times> string) list \<Rightarrow> string list \<Rightarrow> py list \<Rightarrow> py list result" where
  "tool_specs tool_names excluded [] = Inr []"
| "tool_specs tool_names excluded (tool # tools) =
     bindR (fn_of tool) (\<lambda>function.
     bindR (py_get function ''name'') (\<lambda>name.
     bindR (if \<not> truthy name then Inr True
            else if hashable name then Inr (\<exists>s \<in> set excluded. name = PStr s) else Inl TypeError) (\<lambda>skip.
     if skip then tool_specs tool_names excluded tools
     else bindR (tool_spec tool_names function name) (\<lambda>spec.
          bindR (tool_specs tool_names excluded tools) (\<lambda>specs. Inr (spec # specs))))))"

definition tool_choice :: "(string \<times> string) list \<Rightarrow> py \<Rightarrow> py result" where
  "tool_choice tool_names choice =
     (if choice = PStr ''required'' then Inr (PDict [(''any'', PDict [])])
      else (case choice of
          PDict d \<Rightarrow>
            bindR (fn_name PNone choice) (\<lambda>name.
              if truthy name
              then mapR (\<lambda>n. PDict [(''tool'', PDict [(''name'', n)])]) (rename_tool tool_names name)
              else Inr (PDict [(''auto'', PDict [])]))
        | _ \<Rightarrow> Inr (PDict [(''auto'', PDict [])])))"

record tool_config =
  tc_tools :: "py list"
  tc_choice :: py

definition converse_tool_config ::
  "pydict \<Rightarrow> (string \<times> string) list \<Rightarrow> string list \<Rightarrow> tool_config option result" where
  "converse_tool_config form tool_names excluded =
     bindR (form_list form ''tools'') (\<lambda>tools.
     bindR (tool_specs tool_names excluded tools) (\<lambda>specs.
     if specs = [] then Inr None
     else mapR (\<lambda>c. Some \<lparr>tc_tools = specs, tc_choice = c\<rparr>)
       (tool_choice tool_names (field form ''tool_choice''))))"

section \<open>What the maps of tool names promise\<close>

text \<open>The names of the tools of a request, in order.\<close>

definition tool_originals :: "pydict \<Rightarrow> string set" where
  "tool_originals form = {s. \<exists>tools tool. form_list form ''tools'' = Inr tools
     \<and> tool \<in> set tools \<and> fn_name PNone tool = Inr (PStr s) \<and> s \<noteq> []}"

text \<open>A name is known to Bedrock by one of its two images, and the reverse map knows its owner.\<close>

definition maps_inv :: "(string \<Rightarrow> string) \<Rightarrow> string set \<Rightarrow> name_maps \<Rightarrow> bool" where
  "maps_inv sha8 names maps = (case maps of (forward, reverse) \<Rightarrow>
     (\<forall>n s. dget forward n = Some s \<longrightarrow> dget reverse s = Some n) \<and>
     (\<forall>n s. dget reverse s = Some n \<longrightarrow> n \<in> names \<and> s \<in> {safe_name n, suffixed_name sha8 n}))"

definition suffixes_free :: "(string \<Rightarrow> string) \<Rightarrow> string set \<Rightarrow> bool" where
  "suffixes_free sha8 names = (\<forall>a \<in> names. \<forall>b \<in> names. a \<noteq> b \<longrightarrow>
     suffixed_name sha8 a \<noteq> suffixed_name sha8 b \<and> suffixed_name sha8 a \<noteq> safe_name b)"

lemma add_tool_name_inv:
  assumes "maps_inv sha8 names maps" and "suffixes_free sha8 names" and "original \<in> names"
  shows "maps_inv sha8 names (add_tool_name sha8 maps original)"
proof -
  obtain fwd rv where maps: "maps = (fwd, rv)" by fastforce
  define s where "s = (if dget rv (safe_name original) \<noteq> None \<and> dget rv (safe_name original) \<noteq> Some original
    then suffixed_name sha8 original else safe_name original)"
  have step: "add_tool_name sha8 maps original = (dset original s fwd, dset s original rv)"
    by (simp add: add_tool_name_def maps s_def Let_def)
  have inv: "dget fwd n = Some t \<Longrightarrow> dget rv t = Some n"
    "dget rv t = Some n \<Longrightarrow> n \<in> names \<and> (t = safe_name n \<or> t = suffixed_name sha8 n)" for n t
    using assms(1) by (auto simp: maps_inv_def maps)
  have owner: "n = original" if n: "dget rv s = Some n" for n
  proof (cases "s = safe_name original \<and> (dget rv s = None \<or> dget rv s = Some original)")
    case True
    with n show ?thesis by auto
  next
    case False
    then have "s = suffixed_name sha8 original" by (auto simp: s_def split: if_splits)
    with inv(2) [OF n] assms(2) [unfolded suffixes_free_def, rule_format, OF assms(3), of n]
    show ?thesis by auto
  qed
  have "s = safe_name original \<or> s = suffixed_name sha8 original" by (simp add: s_def)
  moreover have "t \<noteq> s" if "dget fwd n = Some t" "n \<noteq> original" for n t
    using inv(1) [OF that(1)] owner that(2) by auto
  ultimately show ?thesis
    unfolding step maps_inv_def using inv assms(3) by (auto split: if_split_asm)
qed

lemma name_maps_fold:
  assumes "bedrock_tool_name_maps sha8 form = Inr maps" and "I ([], [])"
    and "\<And>m n. n \<in> tool_originals form \<Longrightarrow> I m \<Longrightarrow> I (add_tool_name sha8 m n)"
  shows "I maps"
proof -
  obtain tools where tools: "form_list form ''tools'' = Inr tools"
    using assms(1) by (auto simp: bedrock_tool_name_maps_def)
  show ?thesis
  proof (rule foldR_invariant [where I = I])
    show "foldR (\<lambda>maps tool. bindR (fn_name PNone tool) (\<lambda>original.
        if \<not> truthy original then Inr maps
        else (case original of PStr s \<Rightarrow> Inr (add_tool_name sha8 maps s) | _ \<Rightarrow> Inl TypeError)))
       ([], []) tools = Inr maps"
      using assms(1) tools by (simp add: bedrock_tool_name_maps_def)
    show "I s'" if tool: "tool \<in> set tools" and I: "I s" and run: "bindR (fn_name PNone tool) (\<lambda>original.
        if \<not> truthy original then Inr s
        else (case original of PStr n \<Rightarrow> Inr (add_tool_name sha8 s n) | _ \<Rightarrow> Inl TypeError)) = Inr s'"
      for s tool s'
    proof -
      obtain v where v: "fn_name PNone tool = Inr v" using run by auto
      show ?thesis
      proof (cases "truthy v")
        case True
        with run v obtain n where n: "v = PStr n" "s' = add_tool_name sha8 s n"
          by (cases v) auto
        with True v tools tool have "n \<in> tool_originals form" by (auto simp: tool_originals_def)
        with n I show ?thesis by (simp add: assms(3))
      qed (use run v I in simp)
    qed
  qed (rule assms(2))
qed

text \<open>C15: A tool name sent to Bedrock leads back to the tool: when no suffixed name of a tool of the
  request is the sanitised or the suffixed name of another one, the reverse map undoes the
  forward map.\<close>

theorem tool_names_roundtrip:
  assumes "bedrock_tool_name_maps sha8 form = Inr (forward, reverse)"
    and "suffixes_free sha8 (tool_originals form)"
    and "dget forward n = Some s"
  shows "dget reverse s = Some n"
proof -
  have "maps_inv sha8 (tool_originals form) (forward, reverse)"
  proof (rule name_maps_fold [OF assms(1)])
    show "maps_inv sha8 (tool_originals form) ([], [])" by (simp add: maps_inv_def)
  qed (rule add_tool_name_inv [OF _ assms(2)])
  with assms(3) show ?thesis by (simp add: maps_inv_def)
qed

text \<open>What Bedrock accepts as a tool name.\<close>

definition bedrock_name :: "string \<Rightarrow> bool" where
  "bedrock_name s = (s \<noteq> [] \<and> length s \<le> 64 \<and> list_all safe_char s)"

lemma safe_name_chars: "list_all safe_char (safe_name n)"
  by (auto simp: safe_name_def list_all_iff safe_char_def dest!: in_set_takeD)

lemma safe_name_ok: "n \<noteq> [] \<Longrightarrow> bedrock_name (safe_name n)"
  using safe_name_chars [of n] by (simp add: bedrock_name_def) (simp add: safe_name_def)

lemma suffixed_name_ok:
  assumes "length (sha8 n) = 8" "list_all safe_char (sha8 n)"
  shows "bedrock_name (suffixed_name sha8 n)"
proof -
  have "list_all safe_char (take 55 (safe_name n))"
    using safe_name_chars [of n] by (auto simp: list_all_iff dest: in_set_takeD)
  with assms show ?thesis
    by (simp add: bedrock_name_def suffixed_name_def safe_char_def)
qed

section \<open>What the messages promise\<close>

text \<open>The blocks of one message of the request, on its own.\<close>

definition own_blocks ::
  "(py \<Rightarrow> string) \<Rightarrow> (string \<Rightarrow> py option) \<Rightarrow> (string \<times> string) list \<Rightarrow> py \<Rightarrow>
   content_block list result" where
  "own_blocks str_of loads tool_names message =
     bindR (py_get_or message ''role'' (PStr ''user'')) (\<lambda>role.
       if role = PStr ''system'' then Inr []
       else if role = PStr ''tool'' then mapR (\<lambda>b. [b]) (tool_result_block str_of message)
       else plain_blocks str_of loads tool_names message)"

lemma concat_add_tool_result:
  "concat (map cv_content (add_tool_result b ms)) = concat (map cv_content ms) @ [b]"
  by (cases ms rule: rev_cases) (auto simp: add_tool_result_def)

lemma convert_message_blocks:
  assumes "convert_message str_of loads names (system, ms) message = Inr (system', ms')"
  shows "\<exists>bs. own_blocks str_of loads names message = Inr bs
    \<and> concat (map cv_content ms') = concat (map cv_content ms) @ bs"
proof -
  obtain role where role: "py_get_or message ''role'' (PStr ''user'') = Inr role"
    using assms by (auto simp: convert_message_def)
  consider "role = PStr ''system''" | "role = PStr ''tool''"
    | "role \<noteq> PStr ''system''" "role \<noteq> PStr ''tool''" by blast
  then show ?thesis
    using assms role
    by cases (auto simp: convert_message_def own_blocks_def concat_add_tool_result Let_def)
qed

text \<open>Converting the messages loses no block and reorders none: the blocks of the converted
  messages, in order, are the blocks of the messages of the request, in order.\<close>

theorem converse_messages_blocks:
  assumes "converse_messages str_of loads names messages = Inr (system, ms)"
  shows "\<exists>bs. listR (own_blocks str_of loads names) messages = Inr bs
    \<and> concat (map cv_content ms) = concat bs"
proof -
  have "\<exists>bs. listR (own_blocks str_of loads names) messages = Inr bs
      \<and> concat (map cv_content ms) = concat (map cv_content ms0) @ concat bs"
    if "foldR (convert_message str_of loads names) (system0, ms0) messages = Inr (system, ms)"
    for system0 ms0
    using that
  proof (induction messages arbitrary: system0 ms0)
    case (Cons m messages)
    then obtain s1 m1 where 1: "convert_message str_of loads names (system0, ms0) m = Inr (s1, m1)"
      and 2: "foldR (convert_message str_of loads names) (s1, m1) messages = Inr (system, ms)" by auto
    from convert_message_blocks [OF 1] Cons.IH [OF 2] show ?case by auto
  qed simp
  from this [of "[]" "[]"] assms show ?thesis by (simp add: converse_messages_def)
qed

text \<open>A user message that holds given tool results next to each other.\<close>

definition holds :: "content_block list \<Rightarrow> converse_message \<Rightarrow> bool" where
  "holds rs m = (cv_role m = ''user'' \<and> (\<exists>xs ys. cv_content m = xs @ rs @ ys \<and> list_all is_tool_result xs))"

lemma holds_later:
  assumes "m \<in> set ms" and "holds rs m"
    and "convert_message str_of loads names (system, ms) message = Inr (system', ms')"
  shows "\<exists>m' \<in> set ms'. holds rs m'"
proof -
  have "\<exists>m' \<in> set (add_tool_result b ms). holds rs m'" for b
  proof (cases ms rule: rev_cases)
    case (snoc init l)
    have "holds rs (l\<lparr>cv_content := cv_content l @ [b]\<rparr>)" if "holds rs l"
      using that unfolding holds_def by simp (metis append_assoc)
    with assms(1,2) snoc show ?thesis by (auto simp: add_tool_result_def)
  qed (use assms(1) in simp)
  with assms show ?thesis
    by (auto simp: convert_message_def split: if_splits)
qed

lemma convert_tool_message:
  assumes "py_get_or m ''role'' (PStr ''user'') = Inr (PStr ''tool'')"
    and "tool_result_block str_of m = Inr b"
  shows "convert_message str_of loads names (system, ms) m = Inr (system, add_tool_result b ms)"
proof -
  obtain c where "py_get_or m ''content'' (PStr []) = Inr c"
    using assms(2) by (auto simp: tool_result_block_def)
  with assms show ?thesis by (simp add: convert_message_def Let_def)
qed

lemma run_of_tool_messages:
  assumes "foldR (convert_message str_of loads names) (system, ms) run = Inr (system', ms')"
    and "\<forall>m \<in> set run. py_get_or m ''role'' (PStr ''user'') = Inr (PStr ''tool'')"
    and "listR (tool_result_block str_of) run = Inr rs"
    and "ms \<noteq> [] \<and> cv_role (last ms) = ''user'' \<and> cv_content (last ms) = xs @ rs0
         \<and> list_all is_tool_result (xs @ rs0)"
  shows "\<exists>m \<in> set ms'. holds (rs0 @ rs) m"
  using assms
proof (induction run arbitrary: system ms rs rs0)
  case Nil
  then have "holds rs0 (last ms')"
    unfolding holds_def by (simp, intro exI [of _ xs]) simp
  with Nil show ?case by auto
next
  case (Cons message run)
  then obtain b rs1 where b: "tool_result_block str_of message = Inr b"
    "listR (tool_result_block str_of) run = Inr rs1" "rs = b # rs1" by auto
  let ?ms1 = "butlast ms @ [(last ms)\<lparr>cv_content := cv_content (last ms) @ [b]\<rparr>]"
  have "add_tool_result b ms = ?ms1" using Cons.prems(4) by (simp add: add_tool_result_def)
  with Cons.prems(1,2) b have *:
    "foldR (convert_message str_of loads names) (system, ?ms1) run = Inr (system', ms')"
    by (simp add: convert_tool_message)
  have "is_tool_result b" using b(1) by (auto simp: tool_result_block_def Let_def)
  with Cons.prems(2,4) Cons.IH [OF * _ b(2), of "rs0 @ [b]"] b(3) show ?case by simp
qed

text \<open>C17: The results of parallel tool calls, a run of tool messages, reach Bedrock next to each
  other in one user message that has nothing but tool results before them.\<close>

theorem tool_results_in_one_turn:
  assumes "converse_messages str_of loads names (before @ run @ after) = Inr (system, ms)"
    and "run \<noteq> []" and "\<forall>m \<in> set run. py_get_or m ''role'' (PStr ''user'') = Inr (PStr ''tool'')"
    and "listR (tool_result_block str_of) run = Inr rs"
  shows "\<exists>m \<in> set ms. holds rs m"
proof -
  let ?f = "convert_message str_of loads names"
  obtain s1 m1 s2 m2 where 1: "foldR ?f ([], []) before = Inr (s1, m1)"
    and 2: "foldR ?f (s1, m1) run = Inr (s2, m2)" and 3: "foldR ?f (s2, m2) after = Inr (system, ms)"
    using assms(1) by (auto simp: converse_messages_def foldR_append)
  obtain t run' where run: "run = t # run'" using assms(2) by (cases run) auto
  obtain b rs' where b: "tool_result_block str_of t = Inr b"
    "listR (tool_result_block str_of) run' = Inr rs'" "rs = b # rs'"
    using assms(4) run by auto
  have "is_tool_result b" using b(1) by (auto simp: tool_result_block_def Let_def)
  then obtain xs where m: "add_tool_result b m1 \<noteq> []" "cv_role (last (add_tool_result b m1)) = ''user''"
    "cv_content (last (add_tool_result b m1)) = xs @ [b]" "list_all is_tool_result (xs @ [b])"
    by (cases "m1 \<noteq> [] \<and> cv_role (last m1) = ''user'' \<and> list_all is_tool_result (cv_content (last m1))")
       (auto simp: add_tool_result_def that [of "[]"] that [of "cv_content (last m1)"])
  have "foldR ?f (s1, add_tool_result b m1) run' = Inr (s2, m2)"
    using 2 run b(1) assms(3) by (simp add: convert_tool_message)
  from run_of_tool_messages [OF this _ b(2), of xs "[b]"] m assms(3) run b(3)
  have "\<exists>m \<in> set m2. holds rs m" by simp
  then show ?thesis
    using foldR_invariant [OF 3, of "\<lambda>(s, ms). \<exists>m \<in> set ms. holds rs m"] holds_later
    by fastforce
qed

section \<open>What the tool configuration promises\<close>

definition offered :: "string list \<Rightarrow> py \<Rightarrow> bool" where
  "offered excluded tool = (case fn_name PNone tool of
     Inr n \<Rightarrow> truthy n \<and> (\<forall>s \<in> set excluded. n \<noteq> PStr s) | Inl e \<Rightarrow> False)"

definition spec_of_tool :: "(string \<times> string) list \<Rightarrow> py \<Rightarrow> py result" where
  "spec_of_tool tool_names tool =
     bindR (fn_of tool) (\<lambda>f. bindR (py_get f ''name'') (tool_spec tool_names f))"

text \<open>The name and the root of the schema of a tool specification.\<close>

fun spec_name :: "py \<Rightarrow> py" where
  "spec_name (PDict d) = (case field d ''toolSpec'' of PDict s \<Rightarrow> field s ''name'' | _ \<Rightarrow> PNone)"
| "spec_name _ = PNone"

fun spec_root :: "py \<Rightarrow> string list" where
  "spec_root (PDict d) = (case field d ''toolSpec'' of
     PDict s \<Rightarrow> (case field s ''inputSchema'' of
       PDict i \<Rightarrow> (case field i ''json'' of PDict j \<Rightarrow> dkeys j | _ \<Rightarrow> []) | _ \<Rightarrow> []) | _ \<Rightarrow> [])"
| "spec_root _ = []"

lemma tool_specs_filter:
  "tool_specs names excluded tools = Inr specs \<Longrightarrow>
   listR (spec_of_tool names) (filter (offered excluded) tools) = Inr specs"
proof (induction tools arbitrary: specs)
  case (Cons tool tools)
  then obtain f n where fn: "fn_of tool = Inr f" "py_get f ''name'' = Inr n" by auto
  then have n: "fn_name PNone tool = Inr n" by (simp add: fn_name_def)
  show ?case
  proof (cases "offered excluded tool")
    case True
    then have "truthy n" "\<not> (\<exists>s \<in> set excluded. n = PStr s)" using n by (auto simp: offered_def)
    with Cons True fn show ?thesis by (auto simp: spec_of_tool_def split: if_splits)
  next
    case False
    then have "\<not> truthy n \<or> (\<exists>s \<in> set excluded. n = PStr s)" using n by (auto simp: offered_def)
    with Cons False fn show ?thesis by (auto split: if_splits)
  qed
qed simp

lemma tool_spec_shape:
  assumes "tool_spec names f name = Inr spec"
  shows "rename_tool names name = Inr (spec_name spec)
    \<and> (spec_root spec = [''type'', ''properties''] \<or> spec_root spec = [''type'', ''properties'', ''required''])"
  using assms by (auto simp: tool_spec_def nova_tool_schema_def field_def)

lemma spec_of_tool_shape:
  assumes "spec_of_tool names tool = Inr spec"
  obtains n where "fn_name PNone tool = Inr n" and "rename_tool names n = Inr (spec_name spec)"
    and "spec_root spec = [''type'', ''properties''] \<or> spec_root spec = [''type'', ''properties'', ''required'']"
  using assms tool_spec_shape by (auto simp: spec_of_tool_def fn_name_def)

lemma config_tools:
  assumes "converse_tool_config form names excluded = Inr (Some c)"
  obtains tools where "form_list form ''tools'' = Inr tools"
    and "listR (spec_of_tool names) (filter (offered excluded) tools) = Inr (tc_tools c)"
    and "tool_choice names (field form ''tool_choice'') = Inr (tc_choice c)" and "tc_tools c \<noteq> []"
  using assms tool_specs_filter
  by (auto simp: converse_tool_config_def split: if_splits)

lemma config_spec_source:
  assumes "converse_tool_config form names excluded = Inr (Some c)" and "spec \<in> set (tc_tools c)"
  shows "\<exists>tools tool name. form_list form ''tools'' = Inr tools \<and> tool \<in> set tools
    \<and> fn_name PNone tool = Inr name \<and> truthy name \<and> name \<notin> PStr ` set excluded
    \<and> rename_tool names name = Inr (spec_name spec)
    \<and> set (spec_root spec) \<subseteq> {''type'', ''properties'', ''required''}"
proof -
  obtain tools where tools: "form_list form ''tools'' = Inr tools"
    and l: "listR (spec_of_tool names) (filter (offered excluded) tools) = Inr (tc_tools c)"
    by (rule config_tools [OF assms(1)])
  from listR_out [OF l assms(2)] obtain tool where t: "tool \<in> set tools" "offered excluded tool"
    and spec: "spec_of_tool names tool = Inr spec" by auto
  from spec obtain n where n: "fn_name PNone tool = Inr n"
    "rename_tool names n = Inr (spec_name spec)"
    "set (spec_root spec) \<subseteq> {''type'', ''properties'', ''required''}"
    by (rule spec_of_tool_shape) auto
  moreover from n(1) t(2) have "truthy n" "n \<notin> PStr ` set excluded" by (auto simp: offered_def)
  ultimately show ?thesis using tools t(1) by blast
qed

text \<open>Bedrock is offered only tools of the request: each specification stands for one of the
  request's tools, not an excluded one, under the name the maps give it, and the root of its
  schema has only the keys Nova accepts.\<close>

theorem tool_config_spec:
  assumes "converse_tool_config form names excluded = Inr (Some c)" and "spec \<in> set (tc_tools c)"
  shows "\<exists>tools tool name. form_list form ''tools'' = Inr tools \<and> tool \<in> set tools
    \<and> fn_name PNone tool = Inr name \<and> truthy name \<and> name \<notin> PStr ` set excluded
    \<and> rename_tool names name = Inr (spec_name spec)
    \<and> set (spec_root spec) \<subseteq> {''type'', ''properties'', ''required''}"
  using assms by (rule config_spec_source)

lemma offered_tool_in_config:
  assumes "converse_tool_config form names excluded = Inr (Some c)"
    and "form_list form ''tools'' = Inr tools" and "tool \<in> set tools" and "offered excluded tool"
  shows "\<exists>spec n. spec \<in> set (tc_tools c) \<and> fn_name PNone tool = Inr n
    \<and> rename_tool names n = Inr (spec_name spec)"
proof -
  from assms(1) have l: "listR (spec_of_tool names) (filter (offered excluded) tools) = Inr (tc_tools c)"
    by (rule config_tools) (use assms(2) in simp)
  from listR_in [OF l, of tool] assms(3,4) obtain spec where
    "spec \<in> set (tc_tools c)" "spec_of_tool names tool = Inr spec" by auto
  then show ?thesis by (metis spec_of_tool_shape)
qed

section \<open>The names that are sent\<close>

lemma named_tools_mapped:
  assumes "foldR (\<lambda>maps tool. bindR (fn_name PNone tool) (\<lambda>original.
      if \<not> truthy original then Inr maps
      else (case original of PStr s \<Rightarrow> Inr (add_tool_name sha8 maps s) | _ \<Rightarrow> Inl TypeError))) m tools = Inr maps"
  shows "set (dkeys (fst m)) \<subseteq> set (dkeys (fst maps)) \<and>
    (\<forall>tool \<in> set tools. \<forall>v. fn_name PNone tool = Inr v \<longrightarrow> truthy v \<longrightarrow> (\<exists>n. v = PStr n \<and> n \<in> set (dkeys (fst maps))))"
  using assms
proof (induction tools arbitrary: m)
  case (Cons tool tools)
  obtain v where v: "fn_name PNone tool = Inr v" using Cons.prems by auto
  show ?case
  proof (cases "truthy v")
    case True
    with Cons.prems v obtain n where n: "v = PStr n" by (cases v) auto
    with True Cons.prems v Cons.IH [of "add_tool_name sha8 m n"] show ?thesis
      by (cases m) (auto simp: add_tool_name_def Let_def)
  next
    case False
    with Cons.prems v Cons.IH [of m] show ?thesis by auto
  qed
qed simp

lemma mapped_names_accepted:
  assumes "bedrock_tool_name_maps sha8 form = Inr (forward, reverse)"
    and "\<And>x. length (sha8 x) = 8 \<and> list_all safe_char (sha8 x)"
    and "dget forward n = Some s"
  shows "bedrock_name s"
proof -
  let ?I = "\<lambda>m :: name_maps. \<forall>n s. dget (fst m) n = Some s \<longrightarrow> bedrock_name s"
  have "?I (forward, reverse)"
  proof (rule name_maps_fold [OF assms(1)])
    fix m n assume n: "n \<in> tool_originals form" and I: "?I m"
    have "n \<noteq> []" using n by (auto simp: tool_originals_def)
    with I show "?I (add_tool_name sha8 m n)"
      by (auto simp: add_tool_name_def Let_def safe_name_ok suffixed_name_ok assms(2) split: prod.splits if_splits)
  qed simp
  with assms(3) show ?thesis by simp
qed

text \<open>C16: every name under which a tool is offered to Bedrock, in a \<open>toolSpec\<close> of the tool configuration built
  from the maps of the request, is accepted there, whatever the tool was called: it is not empty, has at most 64 characters,
  and all of them are letters, digits and underscores. Names elsewhere, of calls in the history and of the tool choice,
  are mapped only when a tool of the request has them and otherwise sent as they are.\<close>

theorem tool_names_accepted:
  assumes "bedrock_tool_name_maps sha8 form = Inr (forward, reverse)"
    and "\<And>x. length (sha8 x) = 8 \<and> list_all safe_char (sha8 x)"
    and "converse_tool_config form forward excluded = Inr (Some c)" and "spec \<in> set (tc_tools c)"
  shows "\<exists>s. spec_name spec = PStr s \<and> bedrock_name s"
proof -
  obtain tools tool name where tool: "form_list form ''tools'' = Inr tools" "tool \<in> set tools"
    "fn_name PNone tool = Inr name" "truthy name" "rename_tool forward name = Inr (spec_name spec)"
    using config_spec_source [OF assms(3,4)] by blast
  have "\<exists>n. name = PStr n \<and> n \<in> set (dkeys forward)"
    using named_tools_mapped [of sha8 "([], [])" tools "(forward, reverse)"] assms(1) tool
    by (simp add: bedrock_tool_name_maps_def)
  then obtain n s where n: "name = PStr n" "dget forward n = Some s" by (metis weak_map_of_SomeI imageE list.set_map surjective_pairing)
  with tool(5) have "spec_name spec = PStr s" by (simp add: rename_tool_def)
  with mapped_names_accepted [OF assms(1,2) n(2)] show ?thesis by blast
qed

text \<open>A call in the history of a tool that the request does not have keeps its name.\<close>

lemma unmapped_call_sent_as_it_is:
  "tool_use_block (\<lambda>_. None) [] (PDict [(''id'', PStr ''1''), (''function'', PDict [(''name'', PStr ''a.b'')])]) =
    Inr (ToolUseBlock (PStr ''1'') (PStr ''a.b'') [])" and "\<not> bedrock_name ''a.b''"
  by code_simp+

section \<open>Concrete requests\<close>

definition demo_tool :: "string \<Rightarrow> py" where
  "demo_tool n = PDict [(''type'', PStr ''function''), (''function'', PDict [(''name'', PStr n)])]"

definition demo_form :: pydict where
  "demo_form = [(''tools'', PList [demo_tool ''a.b'', demo_tool ''a-b''])]"

definition demo_sha8 :: "string \<Rightarrow> string" where
  "demo_sha8 n = (if n = ''a.b'' then ''00000001'' else ''00000002'')"

lemma demo_tools: "form_list demo_form ''tools'' = Inr [demo_tool ''a.b'', demo_tool ''a-b'']"
  by (simp add: form_list_def demo_form_def field_def py_or_def)

lemma demo_fn: "fn_of (demo_tool n) = Inr (PDict [(''name'', PStr n)])"
  "fn_name d (demo_tool n) = Inr (PStr n)"
  by (simp_all add: fn_name_def fn_of_def demo_tool_def py_or_def)

lemma demo_safe: "safe_name ''a.b'' = ''a_b''" "safe_name ''a-b'' = ''a_b''"
  by (simp_all add: safe_name_def safe_char_def ascii_alpha_def is_decimal_def code_def)

lemma demo_suffixed: "suffixed_name demo_sha8 ''a.b'' = ''a_b_00000001''"
  "suffixed_name demo_sha8 ''a-b'' = ''a_b_00000002''"
  by (simp_all add: suffixed_name_def demo_safe demo_sha8_def)

lemma demo_maps: "bedrock_tool_name_maps demo_sha8 demo_form =
    Inr ([(''a.b'', ''a_b''), (''a-b'', ''a_b_00000002'')],
         [(''a_b'', ''a.b''), (''a_b_00000002'', ''a-b'')])"
  by (simp add: bedrock_tool_name_maps_def demo_tools demo_fn add_tool_name_def demo_safe demo_suffixed Let_def)

lemma demo_originals: "tool_originals demo_form = {''a.b'', ''a-b''}"
  unfolding tool_originals_def demo_tools by (force simp: demo_fn)

theorem tool_names_roundtrip_witness:
  "dget [(''a_b'', ''a.b''), (''a_b_00000002'', ''a-b'')] ''a_b_00000002'' = Some ''a-b''"
proof (rule tool_names_roundtrip [OF demo_maps])
  show "suffixes_free demo_sha8 (tool_originals demo_form)"
    by (simp add: demo_originals suffixes_free_def demo_suffixed demo_safe)
qed simp

definition demo_message :: "string \<Rightarrow> string \<Rightarrow> py" where
  "demo_message role text = PDict [(''role'', PStr role), (''content'', PStr text)]"

definition demo_result :: "string \<Rightarrow> string \<Rightarrow> py" where
  "demo_result i text =
     PDict [(''role'', PStr ''tool''), (''tool_call_id'', PStr i), (''content'', PStr text)]"

definition demo_messages :: "py list" where
  "demo_messages = [demo_message ''system'' ''s'', demo_message ''user'' ''u''] @
     [demo_result ''1'' ''x'', demo_result ''2'' ''y''] @ [demo_message ''user'' ''v'']"

lemma demo_converted: "converse_messages str_of loads names demo_messages = Inr ([''s''],
    [\<lparr>cv_role = ''user'', cv_content = [TextBlock ''u'']\<rparr>,
     \<lparr>cv_role = ''user'', cv_content = [ToolResultBlock (PStr ''1'') [''x''], ToolResultBlock (PStr ''2'') [''y'']]\<rparr>,
     \<lparr>cv_role = ''user'', cv_content = [TextBlock ''v'']\<rparr>])"
  by (simp add: converse_messages_def demo_messages_def demo_message_def demo_result_def convert_message_def
      tool_result_block_def plain_blocks_def add_tool_result_def text_blocks_def py_str_def)

theorem converse_messages_blocks_witness:
  "\<exists>bs. listR (own_blocks (\<lambda>_. []) (\<lambda>_. None) []) demo_messages = Inr bs
    \<and> concat bs = [TextBlock ''u'', ToolResultBlock (PStr ''1'') [''x''],
        ToolResultBlock (PStr ''2'') [''y''], TextBlock ''v'']"
  using converse_messages_blocks [OF demo_converted, of "\<lambda>_. []" "\<lambda>_. None" "[]"] by auto

theorem tool_results_in_one_turn_witness:
  "\<exists>m \<in> set [\<lparr>cv_role = ''user'', cv_content = [TextBlock ''u'']\<rparr>,
     \<lparr>cv_role = ''user'', cv_content = [ToolResultBlock (PStr ''1'') [''x''], ToolResultBlock (PStr ''2'') [''y'']]\<rparr>,
     \<lparr>cv_role = ''user'', cv_content = [TextBlock ''v'']\<rparr>].
   holds [ToolResultBlock (PStr ''1'') [''x''], ToolResultBlock (PStr ''2'') [''y'']] m"
  by (rule tool_results_in_one_turn [OF demo_converted [unfolded demo_messages_def,
        of "\<lambda>_. []" "\<lambda>_. None" "[]"]])
     (simp_all add: demo_result_def tool_result_block_def text_blocks_def py_str_def)

definition demo_config :: tool_config where
  "demo_config = \<lparr>tc_tools = [PDict [(''toolSpec'', PDict [(''name'', PStr ''a_b_00000002''),
      (''inputSchema'', PDict [(''json'', PDict [(''type'', PStr ''object''), (''properties'', PDict [])])])])]],
     tc_choice = PDict [(''auto'', PDict [])]\<rparr>"

lemma demo_choice: "field demo_form ''tool_choice'' = PNone"
  by (simp add: field_def demo_form_def)

lemma demo_tool_config:
  "converse_tool_config demo_form [(''a.b'', ''a_b''), (''a-b'', ''a_b_00000002'')] [''a.b''] = Inr (Some demo_config)"
  by (simp add: converse_tool_config_def demo_tools demo_fn tool_spec_def rename_tool_def nova_tool_schema_def
      py_or_def tool_choice_def demo_config_def demo_choice)

theorem tool_names_accepted_witness: "bedrock_name ''a_b_00000002''"
proof -
  have "length (demo_sha8 x) = 8 \<and> list_all safe_char (demo_sha8 x)" for x
    by (simp add: demo_sha8_def safe_char_def is_decimal_def code_def)
  from tool_names_accepted [OF demo_maps this demo_tool_config, of "hd (tc_tools demo_config)"] show ?thesis
    by (simp add: demo_config_def field_def)
qed

theorem tool_config_spec_witness:
  "\<exists>tool \<in> set [demo_tool ''a.b'', demo_tool ''a-b'']. fn_name PNone tool = Inr (PStr ''a-b'')"
  using tool_config_spec [OF demo_tool_config, of "hd (tc_tools demo_config)"]
  by (auto simp: demo_config_def demo_tools demo_fn)

text \<open>Leaving a tool out does not take it out of the tool choice: a request that chooses an
  excluded tool is sent with a choice that names a tool that is not offered.\<close>

theorem excluded_tool_still_chosen:
  "\<exists>c. converse_tool_config ((''tool_choice'', demo_tool ''a.b'') # demo_form)
        [(''a.b'', ''a_b''), (''a-b'', ''a_b_00000002'')] [''a.b''] = Inr (Some c)
     \<and> tc_choice c = PDict [(''tool'', PDict [(''name'', PStr ''a_b'')])]
     \<and> map spec_name (tc_tools c) = [PStr ''a_b_00000002'']"
proof -
  have "form_list ((''tool_choice'', demo_tool ''a.b'') # demo_form) ''tools''
      = Inr [demo_tool ''a.b'', demo_tool ''a-b'']"
    using demo_tools by (simp add: form_list_def field_def)
  moreover have "tool_choice [(''a.b'', ''a_b''), (''a-b'', ''a_b_00000002'')] (demo_tool ''a.b'')
      = Inr (PDict [(''tool'', PDict [(''name'', PStr ''a_b'')])])"
    using demo_fn(2) [of PNone "''a.b''"] by (simp add: tool_choice_def demo_tool_def rename_tool_def)
  ultimately show ?thesis
    by (simp add: converse_tool_config_def demo_fn tool_spec_def rename_tool_def nova_tool_schema_def
        py_or_def field_def)
qed

end
