(* ===== verification/Bedrock_Calendar.thy ===== *)
theory Bedrock_Calendar
  imports Bedrock_Tools Py_Regex
begin

text \<open>
  The calendar routing of \<open>routers/bedrock.py\<close> and the whole Converse request: detecting a bulk
  deletion, routing a deletion by exact event id, keeping Nova from repeating a mutation within
  one user turn, forcing one retry of an empty creation, and \<open>_converse_request\<close>. The regular
  expressions are the patterns of the source; the texts they read are lower case, so that
  \<open>re.IGNORECASE\<close> changes nothing.
\<close>

section \<open>Calendar tools\<close>

definition calendar_name :: "string \<Rightarrow> string \<Rightarrow> bool" where
  "calendar_name operation name = (name \<noteq> [] \<and> (name = operation \<or> ends_with name (''_'' @ operation)))"

text \<open>\<open>endswith\<close> is a method of strings only.\<close>

definition is_calendar_tool :: "string \<Rightarrow> py \<Rightarrow> bool result" where
  "is_calendar_tool operation name = (case name of
     PStr s \<Rightarrow> Inr (calendar_name operation s)
   | _ \<Rightarrow> if truthy name then Inl AttributeError else Inr False)"

fun first_calendar_tool :: "string \<Rightarrow> py list \<Rightarrow> string option result" where
  "first_calendar_tool operation [] = Inr None"
| "first_calendar_tool operation (tool # tools) =
     bindR (fn_name PNone tool) (\<lambda>name.
     bindR (is_calendar_tool operation name) (\<lambda>b.
     if b then (case name of PStr s \<Rightarrow> Inr (Some s) | _ \<Rightarrow> Inl AttributeError)
     else first_calendar_tool operation tools))"

definition calendar_tool_name :: "pydict \<Rightarrow> string \<Rightarrow> string option result" where
  "calendar_tool_name form operation =
     bindR (form_list form ''tools'') (first_calendar_tool operation)"

section \<open>The latest user message\<close>

text \<open>\<open>form_data.get('messages') or []\<close>; the functions below index the list.\<close>

definition form_messages :: "pydict \<Rightarrow> py list result" where
  "form_messages form = (case py_or (field form ''messages'') (PList []) of
     PList ms \<Rightarrow> Inr ms | _ \<Rightarrow> Inl TypeError)"

fun last_user :: "py list \<Rightarrow> nat \<Rightarrow> nat option result" where
  "last_user ms 0 = Inr None"
| "last_user ms (Suc i) =
     bindR (py_get (ms ! i) ''role'') (\<lambda>role.
       if role = PStr ''user'' then Inr (Some i) else last_user ms i)"

definition latest_user_index :: "py list \<Rightarrow> nat option result" where
  "latest_user_index ms = last_user ms (length ms)"

definition message_text :: "(py \<Rightarrow> string) \<Rightarrow> py \<Rightarrow> string result" where
  "message_text str_of m = mapR (\<lambda>c. str_join '' '' (text_blocks str_of c)) (py_get m ''content'')"

definition normalize_text :: "string \<Rightarrow> string" where
  "normalize_text text = str_strip (collapse_ws (str_lower text))"

text \<open>The tool calls of the assistant's messages that follow a position.\<close>

definition message_calls :: "py \<Rightarrow> py list result" where
  "message_calls m =
     bindR (py_get m ''role'') (\<lambda>role.
       if role \<noteq> PStr ''assistant'' then Inr []
       else bindR (py_get m ''tool_calls'') (\<lambda>calls. py_iter (py_or calls (PList []))))"

definition calls_after :: "py list \<Rightarrow> nat \<Rightarrow> py list result" where
  "calls_after ms i = mapR concat (listR message_calls (drop (Suc i) ms))"

text \<open>The names called there, as the elements of a Python set.\<close>

definition attempted_names :: "py list \<Rightarrow> py list result" where
  "attempted_names calls = bindR (listR (fn_name PNone) calls) (\<lambda>names.
     if list_all hashable names then Inr names else Inl TypeError)"

section \<open>The patterns\<close>

definition rx_words :: "string list \<Rightarrow> rx" where
  "rx_words ws = rx_any (map rx_word ws)"

definition rx_spaces :: rx where
  "rx_spaces = rx_plus (RCls py_space)"

definition delete_verb :: rx where
  "delete_verb = rx_words [''delete'', ''remove'', ''cancel'']"

definition rx_delete :: rx where
  "rx_delete = rx_list [RBound, delete_verb, RBound]"

definition rx_negated :: rx where
  "rx_negated = rx_list [RBound, rx_words [''do not'', ''don'' @ [CHR 0x27] @ ''t'', ''dont'', ''not''],
     rx_spaces, delete_verb, RBound]"

definition rx_all :: rx where
  "rx_all = rx_list [RBound, rx_words [''all'', ''every''], RBound]"

definition rx_entries :: rx where
  "rx_entries = rx_list [RBound, rx_words [''appointment'', ''event'', ''calendar entry'', ''reminder''],
     rx_opt (rx_word ''s''), RBound]"

definition rx_calendar :: rx where
  "rx_calendar = rx_list [RBound, rx_words [''appointment'', ''event'', ''calendar'', ''reminder''],
     rx_opt (rx_word ''s''), RBound]"

definition rx_how_to :: rx where
  "rx_how_to = rx_list [RBound,
     rx_any [rx_list [rx_word ''how'', rx_spaces, rx_words [''do'', ''can'', ''could'', ''would'']],
             rx_word ''can'', rx_word ''could'', rx_word ''would''],
     rx_spaces, rx_words [''i'', ''you''], rx_spaces, delete_verb, RBound]"

definition hex_digit :: "char \<Rightarrow> bool" where
  "hex_digit c = (is_decimal c \<or> 97 \<le> code c \<and> code c \<le> 102)"

definition rx_hex :: "nat \<Rightarrow> rx" where
  "rx_hex n = rx_times n (RCls hex_digit)"

definition rx_uuid :: rx where
  "rx_uuid = rx_list [RBound, rx_hex 8, rx_char (CHR ''-''), rx_hex 4, rx_char (CHR ''-''), rx_hex 4,
     rx_char (CHR ''-''), rx_hex 4, rx_char (CHR ''-''), rx_hex 12, RBound]"

definition found :: "rx \<Rightarrow> string \<Rightarrow> bool" where
  "found r s = (rx_search r s \<noteq> None)"

section \<open>Routing\<close>

definition calendar_delete_all_requested :: "(py \<Rightarrow> string) \<Rightarrow> pydict \<Rightarrow> bool result" where
  "calendar_delete_all_requested str_of form =
     bindR (form_messages form) (\<lambda>ms.
     bindR (latest_user_index ms) (\<lambda>i. case i of
       None \<Rightarrow> Inr False
     | Some i \<Rightarrow>
         mapR (\<lambda>text. let normalized = normalize_text text in
             \<not> found rx_negated normalized \<and> found rx_delete normalized
             \<and> found rx_all normalized \<and> found rx_entries normalized)
           (message_text str_of (ms ! i))))"

text \<open>\<open>any(...)\<close> stops at the first element that holds.\<close>

fun anyR :: "('a \<Rightarrow> bool result) \<Rightarrow> 'a list \<Rightarrow> bool result" where
  "anyR f [] = Inr False"
| "anyR f (x # xs) = bindR (f x) (\<lambda>b. if b then Inr True else anyR f xs)"

definition deletion_attempted :: "py list \<Rightarrow> bool result" where
  "deletion_attempted names =
     anyR (\<lambda>name. anyR (\<lambda>operation. is_calendar_tool operation name)
       [''delete_calendar_event'', ''delete_calendar_events'']) names"

definition delete_context :: "(py \<Rightarrow> string) \<Rightarrow> py list \<Rightarrow> nat \<Rightarrow> string result" where
  "delete_context str_of ms i =
     mapR (\<lambda>texts. str_lower (str_join '' '' texts))
       (listR (message_text str_of) (drop (i - 6) (take (Suc i) ms)))"

text \<open>The texts that ask for the deletion of one event.\<close>

definition asks_single_delete :: "string \<Rightarrow> bool" where
  "asks_single_delete normalized = (found rx_delete normalized \<and> \<not> found rx_negated normalized
     \<and> \<not> found rx_how_to normalized)"

definition explicit_calendar_delete_tool :: "(py \<Rightarrow> string) \<Rightarrow> pydict \<Rightarrow> string option result" where
  "explicit_calendar_delete_tool str_of form =
     bindR (calendar_tool_name form ''delete_calendar_event'') (\<lambda>tool. case tool of
       None \<Rightarrow> Inr None
     | Some t \<Rightarrow>
       bindR (form_messages form) (\<lambda>ms.
       bindR (latest_user_index ms) (\<lambda>i. case i of
         None \<Rightarrow> Inr None
       | Some i \<Rightarrow>
         bindR (calls_after ms i) (\<lambda>calls.
         bindR (attempted_names calls) (\<lambda>names.
         bindR (deletion_attempted names) (\<lambda>attempted.
         if attempted then Inr None
         else bindR (message_text str_of (ms ! i)) (\<lambda>text.
           if \<not> asks_single_delete (normalize_text text) then Inr None
           else bindR (delete_context str_of ms i) (\<lambda>ctx.
             if \<not> found rx_calendar ctx then Inr None
             else Inr (if found rx_uuid (normalize_text text) then Some t else None)))))))))"

definition call_arguments :: "(string \<Rightarrow> py option) \<Rightarrow> py \<Rightarrow> pydict result" where
  "call_arguments loads call =
     bindR (fn_of call) (\<lambda>f. mapR (json_arguments loads) (py_get f ''arguments''))"

text \<open>The calls of the creation tool.\<close>

fun create_calls :: "py list \<Rightarrow> py list result" where
  "create_calls [] = Inr []"
| "create_calls (call # calls) =
     bindR (fn_name PNone call) (\<lambda>name.
     bindR (is_calendar_tool ''create_calendar_event'' name) (\<lambda>b.
     mapR (\<lambda>cs. if b then call # cs else cs) (create_calls calls)))"

definition suppress_create ::
  "(string \<Rightarrow> py option) \<Rightarrow> py list \<Rightarrow> py \<Rightarrow> string list result" where
  "suppress_create loads calls name =
     bindR (is_calendar_tool ''create_calendar_event'' name) (\<lambda>b.
     if \<not> b then Inr []
     else bindR (create_calls calls) (\<lambda>cs.
          if 2 \<le> length cs then Inr (case name of PStr s \<Rightarrow> [s] | _ \<Rightarrow> [])
          else mapR (\<lambda>populated. if populated then (case name of PStr s \<Rightarrow> [s] | _ \<Rightarrow> []) else [])
            (anyR (\<lambda>call. mapR (\<lambda>args. args \<noteq> []) (call_arguments loads call)) cs)))"

definition calendar_operations :: "string list" where
  "calendar_operations = [''search_calendar_events'', ''delete_calendar_event'', ''delete_calendar_events'']"

definition suppress_delete :: "pydict \<Rightarrow> py \<Rightarrow> string list result" where
  "suppress_delete form name =
     bindR (deletion_attempted [name]) (\<lambda>b.
     if \<not> b then Inr []
     else mapR (\<lambda>ts. concat (map (\<lambda>t. case t of None \<Rightarrow> [] | Some s \<Rightarrow> [s]) ts))
            (listR (calendar_tool_name form) calendar_operations))"

text \<open>The set of suppressed names, as a list; the names called are taken in the order of the calls,
  where Python's set has an order of its own that decides which of two exceptions is raised.\<close>

definition suppressed_tools :: "(string \<Rightarrow> py option) \<Rightarrow> pydict \<Rightarrow> string list result" where
  "suppressed_tools loads form =
     bindR (form_messages form) (\<lambda>ms.
     bindR (latest_user_index ms) (\<lambda>i. case i of
       None \<Rightarrow> Inr []
     | Some i \<Rightarrow>
       bindR (calls_after ms i) (\<lambda>calls.
       bindR (attempted_names calls) (\<lambda>names.
       mapR concat (listR (\<lambda>name.
         bindR (suppress_create loads calls name) (\<lambda>cs.
         mapR (\<lambda>ds. cs @ ds) (suppress_delete form name))) names)))))"

definition empty_create_retry_tool :: "(string \<Rightarrow> py option) \<Rightarrow> pydict \<Rightarrow> string option result" where
  "empty_create_retry_tool loads form =
     bindR (calendar_tool_name form ''create_calendar_event'') (\<lambda>tool. case tool of
       None \<Rightarrow> Inr None
     | Some t \<Rightarrow>
       bindR (form_messages form) (\<lambda>ms.
       bindR (latest_user_index ms) (\<lambda>i. case i of
         None \<Rightarrow> Inr None
       | Some i \<Rightarrow>
         bindR (calls_after ms i) (\<lambda>calls.
         bindR (create_calls calls) (\<lambda>cs.
         if length cs = 1
         then mapR (\<lambda>args. if args = [] then Some t else None) (call_arguments loads (cs ! 0))
         else Inr None)))))"

text \<open>The exact arguments of a safe deletion: the event id of the latest user message.\<close>

definition calendar_route_arguments :: "(py \<Rightarrow> string) \<Rightarrow> pydict \<Rightarrow> string \<Rightarrow> pydict option result" where
  "calendar_route_arguments str_of form tool_name =
     bindR (form_messages form) (\<lambda>ms.
     bindR (latest_user_index ms) (\<lambda>i. case i of
       None \<Rightarrow> Inr None
     | Some i \<Rightarrow>
       mapR (\<lambda>text.
           if calendar_name ''delete_calendar_event'' tool_name
           then map_option (\<lambda>u. [(''event_id'', PStr u)]) (rx_group0 rx_uuid (str_lower text))
           else None)
         (message_text str_of (ms ! i))))"

section \<open>The Converse request\<close>

text \<open>An absent key is an empty list, \<open>None\<close> or \<open>False\<close>; \<open>cr_greedy\<close> is the field
  \<open>additionalModelRequestFields\<close> with \<open>topK\<close> 1.\<close>

record bedrock_request =
  cr_model_id :: string
  cr_messages :: "converse_message list"
  cr_system :: "string list"
  cr_inference :: pydict
  cr_tool_config :: "tool_config option"
  cr_greedy :: bool

definition inference_keys :: "(string \<times> string) list" where
  "inference_keys = [(''max_tokens'', ''maxTokens''), (''temperature'', ''temperature''),
     (''top_p'', ''topP''), (''stop'', ''stopSequences'')]"

definition inference_config :: "pydict \<Rightarrow> pydict result" where
  "inference_config form =
     (let params = py_or (field form ''params'') (PDict []) in
      foldR (\<lambda>config (source, target).
          mapR (\<lambda>d. let v = (case dget form source of None \<Rightarrow> d | Some x \<Rightarrow> x) in
                    if v = PNone then config else dset target v config)
            (py_get params source)) [] inference_keys)"

definition setdefault :: "string \<Rightarrow> py \<Rightarrow> pydict \<Rightarrow> pydict" where
  "setdefault k v d = (if dget d k = None then dset k v d else d)"

definition is_nova :: "string \<Rightarrow> bool" where
  "is_nova model_id = str_in ''amazon.nova'' model_id"

text \<open>The tool whose use is forced, and whether it is a retry of an empty creation.\<close>

definition forced_tool ::
  "(py \<Rightarrow> string) \<Rightarrow> (string \<Rightarrow> py option) \<Rightarrow> pydict \<Rightarrow> (string option \<times> bool) result" where
  "forced_tool str_of loads form =
     bindR (empty_create_retry_tool loads form) (\<lambda>retry.
     mapR (\<lambda>explicit. (case explicit of None \<Rightarrow> retry | Some t \<Rightarrow> Some t, retry \<noteq> None))
       (explicit_calendar_delete_tool str_of form))"

definition force_choice ::
  "(string \<times> string) list \<Rightarrow> string option \<times> bool \<Rightarrow> tool_config \<Rightarrow> tool_config" where
  "force_choice tool_names forced c =
     (case forced of
        (None, _) \<Rightarrow> c
      | (Some t, retry) \<Rightarrow>
          let safe = (case dget tool_names t of None \<Rightarrow> t | Some s \<Rightarrow> s) in
          \<lparr>tc_tools = (if retry then filter (\<lambda>tool. spec_name tool = PStr safe) (tc_tools c) else tc_tools c),
           tc_choice = PDict [(''tool'', PDict [(''name'', PStr safe)])]\<rparr>)"

definition request_model_id :: "pydict \<Rightarrow> string result" where
  "request_model_id form = (case dget form ''model'' of
     None \<Rightarrow> Inl (KeyError ''model'')
   | Some (PStr s) \<Rightarrow> Inr (bedrock_model_id s)
   | Some _ \<Rightarrow> Inl AttributeError)"

definition request_messages :: "pydict \<Rightarrow> py list result" where
  "request_messages form =
     py_iter (case dget form ''messages'' of None \<Rightarrow> PList [] | Some m \<Rightarrow> m)"

text \<open>What is added to a request that has tools, when the model is a Nova model.\<close>

definition nova_request ::
  "(py \<Rightarrow> string) \<Rightarrow> (string \<Rightarrow> py option) \<Rightarrow> (string \<times> string) list \<Rightarrow> pydict \<Rightarrow> tool_config \<Rightarrow>
   bedrock_request \<Rightarrow> bedrock_request result" where
  "nova_request str_of loads tool_names form c request =
     mapR (\<lambda>forced. request\<lparr>
         cr_inference := setdefault ''maxTokens'' (PInt 3000)
           (dset ''temperature'' (PInt 0) (cr_inference request)),
         cr_greedy := True,
         cr_tool_config := Some (force_choice tool_names forced c)\<rparr>)
       (forced_tool str_of loads form)"

definition with_tools ::
  "(py \<Rightarrow> string) \<Rightarrow> (string \<Rightarrow> py option) \<Rightarrow> (string \<times> string) list \<Rightarrow> pydict \<Rightarrow>
   bedrock_request \<Rightarrow> bedrock_request result" where
  "with_tools str_of loads tool_names form request =
     (case cr_tool_config request of
        None \<Rightarrow> Inr request
      | Some c \<Rightarrow> if is_nova (cr_model_id request) then nova_request str_of loads tool_names form c request
                  else Inr request)"

definition converse_request ::
  "(py \<Rightarrow> string) \<Rightarrow> (string \<Rightarrow> py option) \<Rightarrow> (string \<Rightarrow> string) \<Rightarrow> pydict \<Rightarrow>
   (bedrock_request \<times> (string \<times> string) list) result" where
  "converse_request str_of loads sha8 form =
     bindR (request_model_id form) (\<lambda>model_id.
     bindR (bedrock_tool_name_maps sha8 form) (\<lambda>(tool_names, returned).
     bindR (request_messages form) (\<lambda>messages.
     bindR (converse_messages str_of loads tool_names messages) (\<lambda>(system, ms).
     bindR (inference_config form) (\<lambda>inference.
     bindR (if is_nova model_id then suppressed_tools loads form else Inr []) (\<lambda>excluded.
     bindR (converse_tool_config form tool_names excluded) (\<lambda>config.
     mapR (\<lambda>r. (r, returned))
       (with_tools str_of loads tool_names form
         \<lparr>cr_model_id = model_id, cr_messages = ms, cr_system = system,
          cr_inference = inference, cr_tool_config = config, cr_greedy = False\<rparr>))))))))"

section \<open>Event ids in a text\<close>

text \<open>A string that stands in a text as a word of its own.\<close>

definition stands_in :: "string \<Rightarrow> string \<Rightarrow> bool" where
  "stands_in u s = (\<exists>a b. s = a @ u @ b \<and> (a = [] \<or> \<not> word_char (last a))
     \<and> (b = [] \<or> \<not> word_char (hd b)))"

definition uuid_class :: "nat \<Rightarrow> char \<Rightarrow> bool" where
  "uuid_class k c = (if k \<in> {8, 13, 18, 23} then c = CHR ''-'' else hex_digit c)"

definition uuid_shape :: "string \<Rightarrow> bool" where
  "uuid_shape u = (length u = 36 \<and> (\<forall>k < 36. uuid_class k (u ! k)))"

lemma space_not_word: "py_space c \<Longrightarrow> \<not> word_char c"
  by (auto simp: py_space_def word_char_def ascii_alpha_def is_decimal_def)

lemma hex_word: "hex_digit c \<Longrightarrow> word_char c"
  by (auto simp: hex_digit_def word_char_def ascii_alpha_def is_decimal_def)

lemma uuid_class_not_space: "uuid_class k c \<Longrightarrow> \<not> py_space c"
  by (auto simp: uuid_class_def hex_digit_def py_space_def is_decimal_def code_def split: if_splits)

lemma rx_hex_rel: "rx_rel (rx_hex n) s i j \<longleftrightarrow>
    j = i + n \<and> (n = 0 \<or> i + n \<le> length s) \<and> (\<forall>k < n. hex_digit (s ! (i + k)))"
  by (simp add: rx_hex_def rx_times_cls)

lemma rx_char_rel: "rx_rel (rx_char c) s i j \<longleftrightarrow> i < length s \<and> s ! i = c \<and> j = Suc i"
  by (auto simp: rx_char_def rx_rel_simps)

lemma rx_uuid_rel:
  assumes "rx_rel rx_uuid s i j"
  shows "j = i + 36 \<and> i + 36 \<le> length s \<and> at_bound s i \<and> at_bound s (i + 36)
    \<and> (\<forall>k < 36. uuid_class k (s ! (i + k)))"
proof -
  have h: "\<forall>k < 8. hex_digit (s ! (i + k))" "s ! (i + 8) = CHR ''-''"
    "\<forall>k < 4. hex_digit (s ! (9 + (i + k)))" "s ! (13 + i) = CHR ''-''"
    "\<forall>k < 4. hex_digit (s ! (14 + (i + k)))" "s ! (18 + i) = CHR ''-''"
    "\<forall>k < 4. hex_digit (s ! (19 + (i + k)))" "s ! (23 + i) = CHR ''-''"
    "\<forall>k < 12. hex_digit (s ! (24 + (i + k)))"
    and b: "j = 36 + i" "36 + i \<le> length s" "at_bound s i" "at_bound s (36 + i)"
    using assms by (auto simp: rx_uuid_def rx_list_Cons rx_rel_simps rx_hex_rel rx_char_rel add.assoc
        simp del: rx_list.simps(3))
  have shift: "m \<le> k \<Longrightarrow> m + (i + (k - m)) = i + k" for m k by simp
  have "uuid_class k (s ! (i + k))" if "k < 36" for k
  proof -
    consider "k < 8" | "k = 8" | "9 \<le> k" "k < 13" | "k = 13" | "14 \<le> k" "k < 18" | "k = 18"
      | "19 \<le> k" "k < 23" | "k = 23" | "24 \<le> k" using \<open>k < 36\<close> by linarith
    then show ?thesis
      using h(1) [rule_format, of k] h(3) [rule_format, of "k - 9"] h(5) [rule_format, of "k - 14"]
        h(7) [rule_format, of "k - 19"] h(9) [rule_format, of "k - 24"] h(2,4,6,8) \<open>k < 36\<close>
      by cases (simp_all add: uuid_class_def shift add.commute [of i])
  qed
  with b show ?thesis by (simp add: add.commute)
qed

lemma rx_list_ConsI:
  "rx_rel r s i j \<Longrightarrow> rx_rel (rx_list rs) s j k \<Longrightarrow> rx_rel (rx_list (r # rs)) s i k"
  by (auto simp: rx_list_Cons)

lemma uuid_match_shape:
  assumes "rx_rel rx_uuid s i j"
  shows "uuid_shape (slice i j s) \<and> stands_in (slice i j s) s"
proof -
  note u = rx_uuid_rel [OF assms]
  let ?u = "slice i j s"
  have j: "j = i + 36" "i + 36 \<le> length s" using u by auto
  have len: "length ?u = 36" using j by (simp add: slice_def)
  have nth: "?u ! k = s ! (i + k)" if "k < 36" for k
    using u that by (simp add: slice_def)
  have shape: "uuid_shape ?u" using u len nth by (simp add: uuid_shape_def)
  have ends: "word_char (s ! i)" "word_char (s ! (i + 35))"
    using u [THEN conjunct2, THEN conjunct2, THEN conjunct2, THEN conjunct2, rule_format, of 0]
      u [THEN conjunct2, THEN conjunct2, THEN conjunct2, THEN conjunct2, rule_format, of 35]
    by (simp_all add: uuid_class_def hex_word)
  have "s = take i s @ ?u @ drop j s"
    using u by (simp add: slice_def) (metis append_take_drop_id drop_drop add.commute)
  moreover have "take i s = [] \<or> \<not> word_char (last (take i s))"
    using u ends(1) by (cases i) (auto simp: at_bound_def word_at_def take_Suc_conv_app_nth)
  moreover have "drop j s = [] \<or> \<not> word_char (hd (drop j s))"
    using u ends(2) by (auto simp: at_bound_def word_at_def hd_drop_conv_nth add.commute [of i 35])
  ultimately show ?thesis using shape unfolding stands_in_def by blast
qed

lemma uuid_match_exists:
  assumes "uuid_shape u" and "stands_in u s"
  shows "\<exists>i j. i \<le> length s \<and> rx_rel rx_uuid s i j"
proof -
  obtain a b where s: "s = a @ u @ b" and a: "a = [] \<or> \<not> word_char (last a)"
    and b: "b = [] \<or> \<not> word_char (hd b)" using assms(2) unfolding stands_in_def by blast
  let ?i = "length a"
  have len: "length u = 36" and cls: "\<And>k. k < 36 \<Longrightarrow> uuid_class k (s ! (?i + k))"
    using assms(1) by (auto simp: uuid_shape_def s nth_append)
  have hex: "k < 36 \<Longrightarrow> k \<notin> {8, 13, 18, 23} \<Longrightarrow> hex_digit (s ! (?i + k))" for k
    using cls [of k] by (simp add: uuid_class_def)
  have dash: "s ! (?i + 8) = CHR ''-''" "s ! (?i + 13) = CHR ''-''" "s ! (?i + 18) = CHR ''-''"
    "s ! (?i + 23) = CHR ''-''"
    using cls [of 8] cls [of 13] cls [of 18] cls [of 23] by (simp_all add: uuid_class_def)
  have w: "word_char (s ! ?i)" "word_char (s ! (?i + 35))"
    using hex [of 0] hex [of 35] by (simp_all add: hex_word)
  have b1: "at_bound s ?i"
    using a w(1) len by (cases a rule: rev_cases) (auto simp: at_bound_def word_at_def s nth_append)
  have b2: "at_bound s (?i + 36)"
    using b w(2) len by (cases b) (auto simp: at_bound_def word_at_def s nth_append)
  have run: "rx_rel (rx_hex n) s (?i + k) (?i + k + n)"
    if "k + n \<le> 36" "\<forall>m \<in> {k..<k + n}. m \<notin> {8, 13, 18, 23}" for k n
    using that len hex by (auto simp: rx_hex_rel s add.assoc)
  have ch: "rx_rel (rx_char (CHR ''-'')) s (?i + k) (?i + k + 1)" if "k \<in> {8, 13, 18, 23}" for k
    using that dash len by (auto simp: rx_char_rel s)
  have parts: "rx_rel (rx_hex 8) s ?i (?i + 8)" "rx_rel (rx_char (CHR ''-'')) s (?i + 8) (?i + 9)"
    "rx_rel (rx_hex 4) s (?i + 9) (?i + 13)" "rx_rel (rx_char (CHR ''-'')) s (?i + 13) (?i + 14)"
    "rx_rel (rx_hex 4) s (?i + 14) (?i + 18)" "rx_rel (rx_char (CHR ''-'')) s (?i + 18) (?i + 19)"
    "rx_rel (rx_hex 4) s (?i + 19) (?i + 23)" "rx_rel (rx_char (CHR ''-'')) s (?i + 23) (?i + 24)"
    "rx_rel (rx_hex 12) s (?i + 24) (?i + 36)"
    using run [of 0 8] ch [of 8] run [of 9 4] ch [of 13] run [of 14 4] ch [of 18] run [of 19 4]
      ch [of 23] run [of 24 12]
    by (simp_all add: add.assoc add.commute)
  have "rx_rel rx_uuid s ?i (?i + 36)"
    unfolding rx_uuid_def
    by (intro rx_list_ConsI [OF rx_rel.bound [OF b1]] rx_list_ConsI [OF parts(1)]
        rx_list_ConsI [OF parts(2)] rx_list_ConsI [OF parts(3)] rx_list_ConsI [OF parts(4)]
        rx_list_ConsI [OF parts(5)] rx_list_ConsI [OF parts(6)] rx_list_ConsI [OF parts(7)]
        rx_list_ConsI [OF parts(8)] rx_list_ConsI [OF parts(9)]) (simp add: rx_rel_simps b2)
  then show ?thesis by (intro exI conjI) (simp_all add: s)
qed

text \<open>Collapsing the white space of a text creates no word.\<close>

lemma blank_space: "py_space (CHR '' '')"
  by (simp add: py_space_def code_def)

lemma collapse_runs_prefix:
  "collapse_runs py_space False s = u @ b \<Longrightarrow> list_all (\<lambda>c. \<not> py_space c) u \<Longrightarrow>
   b = [] \<or> \<not> word_char (hd b) \<Longrightarrow>
   \<exists>b'. s = u @ b' \<and> (b' = [] \<or> \<not> word_char (hd b'))"
proof (induction u arbitrary: s)
  case Nil
  then show ?case
    by (cases s) (auto split: if_splits simp: space_not_word)
next
  case (Cons c u)
  then obtain s' where "s = c # s'" "collapse_runs py_space False s' = u @ b"
    by (cases s) (auto split: if_splits simp: blank_space)
  with Cons.IH [of s'] Cons.prems show ?case by auto
qed

lemma collapse_runs_word:
  assumes "collapse_runs py_space inside s = a @ u @ b"
    and "u \<noteq> []" and "list_all (\<lambda>c. \<not> py_space c) u"
    and "a = [] \<or> \<not> word_char (last a)" and "b = [] \<or> \<not> word_char (hd b)"
  shows "\<exists>a' b'. s = a' @ u @ b' \<and> (a' = [] \<or> \<not> word_char (last a'))
    \<and> (b' = [] \<or> \<not> word_char (hd b')) \<and> (a \<noteq> [] \<longrightarrow> a' \<noteq> [])"
  using assms(1,4)
proof (induction s arbitrary: inside a)
  case Nil
  with assms(2) show ?case by simp
next
  case (Cons c s)
  have skip: ?case if "collapse_runs py_space True s = a1 @ u @ b" "a1 = [] \<or> \<not> word_char (last a1)"
    "py_space c" for a1
  proof -
    from Cons.IH [OF that(1,2)] obtain a' b' where "s = a' @ u @ b'"
      "a' = [] \<or> \<not> word_char (last a')" "b' = [] \<or> \<not> word_char (hd b')" by blast
    with space_not_word [OF that(3)] show ?thesis
      by (intro exI [of _ "c # a'"] exI [of _ b']) auto
  qed
  show ?case
  proof (cases "py_space c")
    case True
    show ?thesis
    proof (cases inside)
      case True
      with \<open>py_space c\<close> Cons.prems show ?thesis by (intro skip [of a]) auto
    next
      case False
      with \<open>py_space c\<close> Cons.prems(1)
      have eq: "CHR '' '' # collapse_runs py_space True s = a @ u @ b" by simp
      have "a \<noteq> []"
        using eq assms(2,3) blank_space by (cases u) auto
      then obtain a1 where "a = CHR '' '' # a1" using eq by (cases a) auto
      with eq Cons.prems(2) \<open>py_space c\<close> show ?thesis
        by (intro skip [of a1]) (auto split: if_splits)
    qed
  next
    case False
    with Cons.prems(1) have eq: "c # collapse_runs py_space False s = a @ u @ b" by simp
    show ?thesis
    proof (cases a)
      case Nil
      with eq assms(2) obtain u' where u: "u = c # u'" "collapse_runs py_space False s = u' @ b"
        by (cases u) auto
      then have "list_all (\<lambda>c. \<not> py_space c) u'" using assms(3) by simp
      from collapse_runs_prefix [OF u(2) this assms(5)]
      obtain b' where "s = u' @ b'" "b' = [] \<or> \<not> word_char (hd b')" by blast
      with u Nil show ?thesis by (intro exI [of _ "[]"] exI [of _ b']) auto
    next
      case (Cons d a1)
      with eq have a1: "d = c" "collapse_runs py_space False s = a1 @ u @ b" by auto
      have "a1 = [] \<or> \<not> word_char (last a1)" using Cons Cons.prems(2) by auto
      from Cons.IH [OF a1(2) this] obtain a' b' where r: "s = a' @ u @ b'"
        "a' = [] \<or> \<not> word_char (last a')" "b' = [] \<or> \<not> word_char (hd b')" "a1 \<noteq> [] \<longrightarrow> a' \<noteq> []"
        by blast
      have "\<not> word_char (last (c # a'))" using r(2,4) Cons a1(1) Cons.prems(2) by auto
      with r(1,3) show ?thesis by (intro exI [of _ "c # a'"] exI [of _ b']) auto
    qed
  qed
qed

lemma stands_in_normalize:
  assumes "stands_in u (normalize_text text)" and "u \<noteq> []" and "list_all (\<lambda>c. \<not> py_space c) u"
  shows "stands_in u (str_lower text)"
proof -
  let ?c = "collapse_ws (str_lower text)"
  obtain a b where n: "normalize_text text = a @ u @ b" and a: "a = [] \<or> \<not> word_char (last a)"
    and b: "b = [] \<or> \<not> word_char (hd b)" using assms(1) unfolding stands_in_def by blast
  define l where "l = takeWhile py_space ?c"
  define m where "m = dropWhile py_space ?c"
  define r where "r = rev (takeWhile py_space (rev m))"
  have "?c = l @ normalize_text text @ r"
    unfolding normalize_text_def strip_by_def lstrip_by_def rstrip_by_def l_def r_def m_def
    by (metis rev_append rev_rev_ident takeWhile_dropWhile_id)
  then have c: "?c = (l @ a) @ u @ (b @ r)" using n by simp
  have l: "\<forall>x \<in> set l. \<not> word_char x" and r: "\<forall>x \<in> set r. \<not> word_char x"
    by (auto simp: l_def r_def dest!: set_takeWhileD space_not_word)
  have "l @ a = [] \<or> \<not> word_char (last (l @ a))"
    using a l by (cases a) auto
  moreover have "b @ r = [] \<or> \<not> word_char (hd (b @ r))"
    using b r by (cases b) auto
  ultimately show ?thesis
    using collapse_runs_word [of False "str_lower text" "l @ a" u "b @ r"] c assms(2,3)
    unfolding collapse_ws_def stands_in_def by blast
qed

lemma uuid_no_space: "uuid_shape u \<Longrightarrow> u \<noteq> [] \<and> list_all (\<lambda>c. \<not> py_space c) u"
  by (auto simp: uuid_shape_def list_all_length dest: uuid_class_not_space)

lemma found_uuid: "found rx_uuid s \<Longrightarrow> \<exists>u. uuid_shape u \<and> stands_in u s"
  unfolding found_def rx_search_None using uuid_match_shape by blast

lemma group0_uuid: "rx_group0 rx_uuid s = Some u \<Longrightarrow> uuid_shape u \<and> stands_in u s"
  by (auto simp: rx_group0_def dest!: rx_search_Some uuid_match_shape)

lemma stands_group0:
  assumes "uuid_shape u" and "stands_in u s"
  shows "\<exists>v. rx_group0 rx_uuid s = Some v"
proof -
  have "rx_search rx_uuid s \<noteq> None"
    unfolding rx_search_None using uuid_match_exists [OF assms] by blast
  then show ?thesis by (auto simp: rx_group0_def)
qed

section \<open>What the routing promises\<close>

lemma first_calendar_tool_name:
  "first_calendar_tool operation tools = Inr (Some t) \<Longrightarrow>
   calendar_name operation t \<and> (\<exists>tool \<in> set tools. fn_name PNone tool = Inr (PStr t))"
proof (induction tools)
  case (Cons tool tools)
  then obtain n b where "fn_name PNone tool = Inr n" "is_calendar_tool operation n = Inr b" by auto
  with Cons show ?case
    by (cases b) (auto simp: is_calendar_tool_def split: py.splits if_splits)
qed simp

lemma calendar_tool_name_Some:
  assumes "calendar_tool_name form operation = Inr (Some t)"
  obtains tools tool where "calendar_name operation t" "form_list form ''tools'' = Inr tools"
    "tool \<in> set tools" "fn_name PNone tool = Inr (PStr t)"
  using assms first_calendar_tool_name unfolding calendar_tool_name_def by auto blast

text \<open>What a routed deletion went through.\<close>

lemma explicit_delete_facts:
  assumes "explicit_calendar_delete_tool str_of form = Inr (Some t)"
  obtains ms i calls names said where
    "calendar_tool_name form ''delete_calendar_event'' = Inr (Some t)"
    "form_messages form = Inr ms" "latest_user_index ms = Inr (Some i)" "calls_after ms i = Inr calls"
    "attempted_names calls = Inr names" "deletion_attempted names = Inr False"
    "message_text str_of (ms ! i) = Inr said" "asks_single_delete (normalize_text said)"
    "found rx_uuid (normalize_text said)"
  using assms
  by (auto simp: explicit_calendar_delete_tool_def split: option.splits if_splits)

lemma routed_deletion_arguments:
  assumes "explicit_calendar_delete_tool str_of form = Inr (Some t)"
  shows "\<exists>ms i said u. form_messages form = Inr ms \<and> latest_user_index ms = Inr (Some i)
    \<and> message_text str_of (ms ! i) = Inr said
    \<and> calendar_route_arguments str_of form t = Inr (Some [(''event_id'', PStr u)])
    \<and> uuid_shape u \<and> stands_in u (str_lower said)"
proof -
  obtain ms i said where ms: "calendar_tool_name form ''delete_calendar_event'' = Inr (Some t)"
      "form_messages form = Inr ms" "latest_user_index ms = Inr (Some i)"
      "message_text str_of (ms ! i) = Inr said" and f: "found rx_uuid (normalize_text said)"
    by (rule explicit_delete_facts [OF assms])
  from found_uuid [OF f] obtain w where w: "uuid_shape w" "stands_in w (normalize_text said)" by blast
  with uuid_no_space have "stands_in w (str_lower said)" by (blast intro: stands_in_normalize)
  from stands_group0 [OF w(1) this] obtain u where u: "rx_group0 rx_uuid (str_lower said) = Some u" ..
  have "calendar_name ''delete_calendar_event'' t"
    by (rule calendar_tool_name_Some [OF ms(1)])
  with ms u have "calendar_route_arguments str_of form t = Inr (Some [(''event_id'', PStr u)])"
    by (simp add: calendar_route_arguments_def)
  with ms group0_uuid [OF u] show ?thesis by blast
qed

text \<open>C18: A deletion is routed only with an exact event id: whenever the routing picks the deletion
  tool, the arguments it builds are one event id, and that id is a UUID that stands as a word of its
  own in the latest user message; it never falls back on deleting without one.\<close>

theorem routed_deletion_has_exact_id:
  assumes "explicit_calendar_delete_tool str_of form = Inr (Some t)"
  shows "\<exists>ms i said u. form_messages form = Inr ms \<and> latest_user_index ms = Inr (Some i)
    \<and> message_text str_of (ms ! i) = Inr said
    \<and> calendar_route_arguments str_of form t = Inr (Some [(''event_id'', PStr u)])
    \<and> uuid_shape u \<and> stands_in u (str_lower said)"
  using assms by (rule routed_deletion_arguments)

lemma suffix_ConsD': "suffix (c # a) t \<Longrightarrow> suffix a t"
  by (auto simp: suffix_def)

lemma calendar_name_suffix: "calendar_name operation t \<Longrightarrow> suffix operation t"
  by (auto simp: calendar_name_def dest: suffix_ConsD')

lemma calendar_name_clash:
  assumes "calendar_name a t" and "calendar_name b t"
    and "\<not> suffix a b" and "\<not> suffix b a"
  shows False
  using assms calendar_name_suffix suffix_same_cases by blast

lemma anyR_False: "anyR f xs = Inr False \<longleftrightarrow> (\<forall>x \<in> set xs. f x = Inr False)"
  by (induction xs) auto



text \<open>The suppressed names are creation tools that were called, or tools of the three operations
  that a deletion suppresses.\<close>

lemma suppress_create_names:
  assumes "suppress_create loads calls name = Inr ss" and "s \<in> set ss"
  shows "calendar_name ''create_calendar_event'' s"
  using assms
  by (auto simp: suppress_create_def is_calendar_tool_def split: if_splits py.splits)

lemma suppress_delete_names:
  assumes "suppress_delete form name = Inr ss" and "s \<in> set ss"
  shows "\<exists>operation \<in> set calendar_operations. calendar_name operation s"
proof -
  from assms obtain ts where ts: "listR (calendar_tool_name form) calendar_operations = Inr ts"
    "Some s \<in> set ts"
    by (auto simp: suppress_delete_def split: if_splits option.splits)
  from listR_out [OF this] show ?thesis by (auto elim: calendar_tool_name_Some)
qed

text \<open>No tool name is one of a creation and one of a search or a deletion.\<close>

lemma create_delete_disjoint:
  "calendar_name ''create_calendar_event'' t \<Longrightarrow> operation \<in> set calendar_operations \<Longrightarrow>
   \<not> calendar_name operation t"
  using calendar_name_clash [of "''create_calendar_event''" t operation]
  by (auto simp: calendar_operations_def suffix_def Cons_eq_append_conv)

lemma suppressed_name_cases:
  assumes "suppressed_tools loads form = Inr supp" and "s \<in> set supp"
  obtains ms i calls names name where "form_messages form = Inr ms"
    "latest_user_index ms = Inr (Some i)" "calls_after ms i = Inr calls" "attempted_names calls = Inr names"
    "name \<in> set names"
    "(\<exists>ss. suppress_create loads calls name = Inr ss \<and> s \<in> set ss) \<or>
     (\<exists>ss. suppress_delete form name = Inr ss \<and> s \<in> set ss)"
proof -
  from assms obtain ms i calls names l where *: "form_messages form = Inr ms"
    "latest_user_index ms = Inr (Some i)" "calls_after ms i = Inr calls" "attempted_names calls = Inr names"
    and l: "listR (\<lambda>name. bindR (suppress_create loads calls name) (\<lambda>cs.
        mapR (\<lambda>ds. cs @ ds) (suppress_delete form name))) names = Inr l" "supp = concat l"
    by (auto simp: suppressed_tools_def split: option.splits)
  from l(2) assms(2) obtain ss where ss: "ss \<in> set l" "s \<in> set ss" by auto
  from listR_out [OF l(1) ss(1)] ss(2) * show thesis by (auto intro: that)
qed

lemma forced_tool_cases:
  assumes "forced_tool str_of loads form = Inr (Some t, retry)"
  obtains (deletion) "explicit_calendar_delete_tool str_of form = Inr (Some t)"
  | (retry) "empty_create_retry_tool loads form = Inr (Some t)"
  using assms by (auto simp: forced_tool_def split: option.splits)

lemma retry_facts:
  assumes "empty_create_retry_tool loads form = Inr (Some t)"
  obtains ms i calls c where "calendar_tool_name form ''create_calendar_event'' = Inr (Some t)"
    "form_messages form = Inr ms" "latest_user_index ms = Inr (Some i)" "calls_after ms i = Inr calls"
    "create_calls calls = Inr [c]" "call_arguments loads c = Inr []"
  using assms
  by (auto simp: empty_create_retry_tool_def length_Suc_conv split: option.splits if_splits)

lemma deletion_attempted_member:
  "deletion_attempted names = Inr False \<Longrightarrow> name \<in> set names \<Longrightarrow> deletion_attempted [name] = Inr False"
  by (auto simp: deletion_attempted_def anyR_False)

lemma forced_not_suppressed:
  assumes "forced_tool str_of loads form = Inr (Some t, retry)"
    and "suppressed_tools loads form = Inr supp"
  shows "t \<notin> set supp"
proof
  assume "t \<in> set supp"
  then obtain ms i calls names name where s: "form_messages form = Inr ms"
    "latest_user_index ms = Inr (Some i)" "calls_after ms i = Inr calls" "attempted_names calls = Inr names"
    "name \<in> set names"
    and t: "(\<exists>ss. suppress_create loads calls name = Inr ss \<and> t \<in> set ss) \<or>
     (\<exists>ss. suppress_delete form name = Inr ss \<and> t \<in> set ss)"
    by (rule suppressed_name_cases [OF assms(2)])
  from assms(1) show False
  proof (cases rule: forced_tool_cases)
    case deletion
    then have d: "calendar_name ''delete_calendar_event'' t" "deletion_attempted names = Inr False"
      using s(1-4) by (auto elim!: explicit_delete_facts calendar_tool_name_Some)
    from t show False
    proof (elim disjE exE conjE)
      fix ss assume "suppress_create loads calls name = Inr ss" "t \<in> set ss"
      then have "calendar_name ''create_calendar_event'' t" by (rule suppress_create_names)
      with d(1) create_delete_disjoint [of t "''delete_calendar_event''"] show False
        by (simp add: calendar_operations_def)
    next
      fix ss assume "suppress_delete form name = Inr ss" "t \<in> set ss"
      with deletion_attempted_member [OF d(2) s(5)] show False by (simp add: suppress_delete_def)
    qed
  next
    case retry
    then obtain c where c: "calendar_name ''create_calendar_event'' t" "create_calls calls = Inr [c]"
      "call_arguments loads c = Inr []"
      using s(1-3) by (auto elim!: retry_facts calendar_tool_name_Some)
    from t show False
    proof (elim disjE exE conjE)
      fix ss assume "suppress_create loads calls name = Inr ss" "t \<in> set ss"
      with c(2,3) show False by (auto simp: suppress_create_def split: if_splits)
    next
      fix ss assume "suppress_delete form name = Inr ss" "t \<in> set ss"
      with suppress_delete_names create_delete_disjoint [OF c(1)] show False by blast
    qed
  qed
qed

lemma forced_tool_in_request:
  assumes "forced_tool str_of loads form = Inr (Some t, retry)"
  obtains tools tool where "form_list form ''tools'' = Inr tools" "tool \<in> set tools"
    "fn_name PNone tool = Inr (PStr t)" "t \<noteq> []"
  using assms
proof (cases rule: forced_tool_cases)
  case deletion
  then show thesis
    by (auto elim!: explicit_delete_facts calendar_tool_name_Some simp: calendar_name_def intro: that)
next
  case retry
  then show thesis
    by (auto elim!: retry_facts calendar_tool_name_Some simp: calendar_name_def intro: that)
qed

lemma offered_tool_config_Some:
  assumes "converse_tool_config form names excluded = Inr cfg"
    and "form_list form ''tools'' = Inr tools" and "tool \<in> set tools" and "offered excluded tool"
  obtains c spec where "cfg = Some c" "spec \<in> set (tc_tools c)"
    "bindR (fn_name PNone tool) (rename_tool names) = Inr (spec_name spec)"
proof -
  obtain specs where specs: "tool_specs names excluded tools = Inr specs"
    using assms(1,2) by (auto simp: converse_tool_config_def)
  from listR_in [OF tool_specs_filter [OF this], of tool] assms(3,4) have "specs \<noteq> []" by auto
  with assms(1,2) specs obtain c where "cfg = Some c" by (auto simp: converse_tool_config_def)
  with offered_tool_in_config [of form names excluded c tools tool] assms that show thesis by auto
qed

text \<open>The parts of a Nova request that has been built.\<close>

lemma nova_request_parts:
  assumes "converse_request str_of loads sha8 form = Inr (request, returned)"
    and "is_nova (cr_model_id request)"
  obtains tool_names excluded config where "bedrock_tool_name_maps sha8 form = Inr (tool_names, returned)"
    "suppressed_tools loads form = Inr excluded" "converse_tool_config form tool_names excluded = Inr config"
    "\<And>c. config = Some c \<Longrightarrow> \<exists>forced. forced_tool str_of loads form = Inr forced
       \<and> cr_tool_config request = Some (force_choice tool_names forced c)"
    "config = None \<Longrightarrow> cr_tool_config request = None"
proof -
  obtain mid tool_names rv ms0 system ms inf excluded config where p: "request_model_id form = Inr mid"
    "bedrock_tool_name_maps sha8 form = Inr (tool_names, rv)" "request_messages form = Inr ms0"
    "converse_messages str_of loads tool_names ms0 = Inr (system, ms)" "inference_config form = Inr inf"
    "(if is_nova mid then suppressed_tools loads form else Inr []) = Inr excluded"
    "converse_tool_config form tool_names excluded = Inr config" "rv = returned"
    and r: "with_tools str_of loads tool_names form
         \<lparr>cr_model_id = mid, cr_messages = ms, cr_system = system,
          cr_inference = inf, cr_tool_config = config, cr_greedy = False\<rparr> = Inr request"
    using assms(1) by (simp add: converse_request_def) blast
  have mid: "cr_model_id request = mid"
    using r by (auto simp: with_tools_def nova_request_def split: option.splits if_splits)
  with assms(2) have nova: "is_nova mid" by simp
  with p(6) have supp: "suppressed_tools loads form = Inr excluded" by simp
  show thesis
    by (rule that [OF _ supp p(7)])
       (use p(2,8) r nova in \<open>auto simp: with_tools_def nova_request_def split: if_splits\<close>)
qed

text \<open>A tool whose use is forced is offered: when a calendar tool is forced on a Nova request, the
  tool choice names one of the specifications that are sent, the one of that tool, also after the
  retry has reduced them.\<close>

theorem forced_tool_is_offered:
  assumes "converse_request str_of loads sha8 form = Inr (request, returned)"
    and "is_nova (cr_model_id request)"
    and "forced_tool str_of loads form = Inr (Some t, retry)"
  shows "\<exists>c spec s. cr_tool_config request = Some c \<and> spec \<in> set (tc_tools c)
    \<and> spec_name spec = PStr s \<and> tc_choice c = PDict [(''tool'', PDict [(''name'', PStr s)])]"
proof -
  obtain tool_names excluded config where p: "suppressed_tools loads form = Inr excluded"
      "converse_tool_config form tool_names excluded = Inr config"
    and c: "\<And>c. config = Some c \<Longrightarrow> \<exists>forced. forced_tool str_of loads form = Inr forced
       \<and> cr_tool_config request = Some (force_choice tool_names forced c)"
    by (rule nova_request_parts [OF assms(1,2)]) (rule that)
  obtain tools tool where tool: "form_list form ''tools'' = Inr tools" "tool \<in> set tools"
    "fn_name PNone tool = Inr (PStr t)" "t \<noteq> []"
    by (rule forced_tool_in_request [OF assms(3)])
  have "offered excluded tool"
    using tool(3,4) forced_not_suppressed [OF assms(3) p(1)] by (auto simp: offered_def)
  then obtain d spec where d: "config = Some d" "spec \<in> set (tc_tools d)"
    "bindR (fn_name PNone tool) (rename_tool tool_names) = Inr (spec_name spec)"
    by (rule offered_tool_config_Some [OF p(2) tool(1,2)])
  from c [OF d(1)] assms(3) have "cr_tool_config request = Some (force_choice tool_names (Some t, retry) d)"
    by simp
  moreover define s where "s = (case dget tool_names t of None \<Rightarrow> t | Some s \<Rightarrow> s)"
  moreover have "spec_name spec = PStr s" using d(3) tool(3) by (simp add: rename_tool_def s_def)
  ultimately show ?thesis
    using d(2) by (intro exI [of _ "force_choice tool_names (Some t, retry) d"] exI [of _ spec] exI [of _ s])
      (simp add: force_choice_def Let_def)
qed



section \<open>Concrete requests\<close>

definition plain_str :: "py \<Rightarrow> string" where
  "plain_str v = []"

definition no_json :: "string \<Rightarrow> py option" where
  "no_json s = Some (PDict [])"

definition demo_uuid :: string where
  "demo_uuid = ''0123abcd-0123-0123-0123-0123456789ab''"

definition demo_text :: string where
  "demo_text = ''Delete event '' @ demo_uuid"

definition demo_normal :: string where
  "demo_normal = ''delete event '' @ demo_uuid"

definition demo_delete_form :: pydict where
  "demo_delete_form = [(''model'', PStr ''amazon.nova-pro''),
     (''messages'', PList [demo_message ''user'' demo_text]),
     (''tools'', PList [demo_tool ''delete_calendar_event''])]"

lemma demo_normalize: "normalize_text demo_text = demo_normal" "str_lower demo_text = demo_normal"
  by code_simp+

lemma demo_found: "found rx_delete demo_normal" "found rx_uuid demo_normal" "found rx_calendar demo_normal"
    "\<not> found rx_negated demo_normal" "\<not> found rx_how_to demo_normal"
  by code_simp+

lemma demo_message_parts: "py_get_or (demo_message r t) ''role'' d = Inr (PStr r)"
    "message_text plain_str (demo_message r t) = Inr t"
  by (simp_all add: demo_message_def message_text_def text_blocks_def py_str_def)

lemma demo_delete_parts: "form_messages demo_delete_form = Inr [demo_message ''user'' demo_text]"
    "form_list demo_delete_form ''tools'' = Inr [demo_tool ''delete_calendar_event'']"
  by (simp_all add: form_messages_def form_list_def demo_delete_form_def field_def py_or_def)

lemma demo_delete_name: "calendar_name ''delete_calendar_event'' ''delete_calendar_event''"
  by (simp add: calendar_name_def)

lemma demo_routed:
  "explicit_calendar_delete_tool plain_str demo_delete_form = Inr (Some ''delete_calendar_event'')"
  by (simp add: explicit_calendar_delete_tool_def calendar_tool_name_def demo_delete_parts demo_fn
      is_calendar_tool_def demo_delete_name latest_user_index_def demo_message_parts calls_after_def
      attempted_names_def deletion_attempted_def asks_single_delete_def demo_normalize demo_found
      delete_context_def)

theorem routed_deletion_has_exact_id_witness:
  "\<exists>u. calendar_route_arguments plain_str demo_delete_form ''delete_calendar_event''
     = Inr (Some [(''event_id'', PStr u)]) \<and> uuid_shape u"
  using routed_deletion_has_exact_id [OF demo_routed] by blast

definition demo_spec :: "string \<Rightarrow> py" where
  "demo_spec n = PDict [(''toolSpec'', PDict [(''name'', PStr n), (''inputSchema'', PDict [(''json'',
     PDict [(''type'', PStr ''object''), (''properties'', PDict [])])])])]"

definition demo_request :: bedrock_request where
  "demo_request = \<lparr>cr_model_id = ''amazon.nova-pro'',
     cr_messages = [\<lparr>cv_role = ''user'', cv_content = [TextBlock (demo_text)]\<rparr>],
     cr_system = [], cr_inference = [(''temperature'', PInt 0), (''maxTokens'', PInt 3000)],
     cr_tool_config = Some \<lparr>tc_tools = [demo_spec ''delete_calendar_event''],
       tc_choice = PDict [(''tool'', PDict [(''name'', PStr ''delete_calendar_event'')])]\<rparr>,
     cr_greedy = True\<rparr>"

lemma demo_forced: "forced_tool plain_str no_json demo_delete_form = Inr (Some ''delete_calendar_event'', False)"
proof -
  have "empty_create_retry_tool no_json demo_delete_form = Inr None" by code_simp
  then show ?thesis by (simp add: forced_tool_def demo_routed)
qed

lemma demo_converse_request:
  "converse_request plain_str no_json demo_sha8 demo_delete_form =
     Inr (demo_request, [(''delete_calendar_event'', ''delete_calendar_event'')])"
proof -
  let ?m = "[(''delete_calendar_event'', ''delete_calendar_event'')]"
  have p: "request_model_id demo_delete_form = Inr ''amazon.nova-pro''" "is_nova ''amazon.nova-pro''"
    "bedrock_tool_name_maps demo_sha8 demo_delete_form = Inr (?m, ?m)"
    "request_messages demo_delete_form = Inr [demo_message ''user'' demo_text]"
    "converse_messages plain_str no_json ?m [demo_message ''user'' demo_text] = Inr ([], cr_messages demo_request)"
    "inference_config demo_delete_form = Inr []" "suppressed_tools no_json demo_delete_form = Inr []"
    "converse_tool_config demo_delete_form ?m [] = Inr (Some \<lparr>tc_tools = [demo_spec ''delete_calendar_event''],
       tc_choice = PDict [(''auto'', PDict [])]\<rparr>)"
    by code_simp+
  show ?thesis
    by (simp add: converse_request_def p with_tools_def nova_request_def demo_forced force_choice_def
        demo_request_def setdefault_def Let_def)
qed

theorem forced_tool_is_offered_witness:
  "\<exists>c spec s. cr_tool_config demo_request = Some c \<and> spec \<in> set (tc_tools c)
    \<and> spec_name spec = PStr s \<and> tc_choice c = PDict [(''tool'', PDict [(''name'', PStr s)])]"
proof (rule forced_tool_is_offered [OF demo_converse_request])
  show "is_nova (cr_model_id demo_request)" by code_simp
  show "forced_tool plain_str no_json demo_delete_form = Inr (Some ''delete_calendar_event'', False)"
    by (rule demo_forced)
qed

text \<open>The same conversation after a call of the deletion tool, with a second tool on offer.\<close>

definition demo_call :: "string \<Rightarrow> py" where
  "demo_call n = PDict [(''id'', PStr ''1''), (''function'', PDict [(''name'', PStr n)])]"

definition demo_after :: "string \<Rightarrow> string list \<Rightarrow> pydict" where
  "demo_after called tools = [(''model'', PStr ''amazon.nova-pro''),
     (''messages'', PList [demo_message ''user'' (demo_text),
        PDict [(''role'', PStr ''assistant''), (''content'', PNone), (''tool_calls'', PList [demo_call called])],
        demo_result ''1'' ''no such event'']),
     (''tools'', PList (map demo_tool tools))]"





text \<open>Only the first tool of each operation is suppressed: with two calendar servers, the deletion
  tool that was called is offered again when it is not the first one of the request.\<close>

theorem second_server_deletion_offered_again:
  "mapR (\<lambda>(request, _). map_option (\<lambda>c. map spec_name (tc_tools c)) (cr_tool_config request))
     (converse_request plain_str no_json demo_sha8
       (demo_after ''b_delete_calendar_event'' [''a_delete_calendar_event'', ''b_delete_calendar_event'']))
   = Inr (Some [PStr ''b_delete_calendar_event''])"
  by code_simp

end
