(* ===== verification/Bedrock_Response.thy ===== *)
theory Bedrock_Response
  imports Bedrock_Calendar
begin

text \<open>
  From the answer of AWS back to OpenAI: the administrator's system block, responses and tool calls,
  the events of a Converse stream and \<open>generate_chat_completion\<close> as a whole. Parameters: the answers
  of AWS (\<open>converse\<close>, and \<open>converse_stream\<close> as the events it delivers and the exception that
  may end them), \<open>dumps\<close> for \<open>json.dumps\<close>, the identifiers that \<open>uuid4\<close> makes and the clock.
\<close>

section \<open>The administrator's system block\<close>

definition without_prefix :: "string \<Rightarrow> string \<Rightarrow> string" where
  "without_prefix prompt t =
     (if t = prompt then []
      else if starts_with t (prompt @ [CHR 0x0A]) then lstrip_by py_space (drop (length prompt) t)
      else t)"

definition prepend_global_system_block :: "string \<Rightarrow> string list \<Rightarrow> string list" where
  "prepend_global_system_block global system =
     (let prompt = str_strip global in
      if prompt = [] then system
      else prompt # filter (\<lambda>t. t \<noteq> []) (case system of [] \<Rightarrow> [] | t # ts \<Rightarrow> without_prefix prompt t # ts))"

section \<open>Responses\<close>

record openai_call =
  oc_id :: py
  oc_name :: py
  oc_arguments :: string

definition call_json :: "openai_call \<Rightarrow> py" where
  "call_json c = PDict [(''id'', oc_id c), (''type'', PStr ''function''),
     (''function'', PDict [(''name'', oc_name c), (''arguments'', PStr (oc_arguments c))])]"

definition usage_json :: "py \<Rightarrow> py result" where
  "usage_json usage =
     bindR (py_get_or usage ''inputTokens'' (PInt 0)) (\<lambda>i.
     bindR (py_get_or usage ''outputTokens'' (PInt 0)) (\<lambda>out.
     mapR (\<lambda>t. PDict [(''prompt_tokens'', i), (''completion_tokens'', out), (''total_tokens'', t)])
       (py_get_or usage ''totalTokens'' (PInt 0))))"

definition openai_response ::
  "string \<Rightarrow> int \<Rightarrow> string \<Rightarrow> string \<Rightarrow> py \<Rightarrow> openai_call list \<Rightarrow> py result" where
  "openai_response uid now model_id content usage calls =
     (let message = [(''role'', PStr ''assistant''), (''content'', if content = [] then PNone else PStr content)]
            @ (if calls = [] then [] else [(''tool_calls'', PList (map call_json calls))]);
          response = [(''id'', PStr (''chatcmpl-'' @ uid)), (''object'', PStr ''chat.completion''),
            (''created'', PInt now), (''model'', PStr (''bedrock:'' @ model_id)),
            (''choices'', PList [PDict [(''index'', PInt 0), (''message'', PDict message),
               (''finish_reason'', PStr (if calls = [] then ''stop'' else ''tool_calls''))]])]
      in if truthy usage then mapR (\<lambda>u. PDict (response @ [(''usage'', u)])) (usage_json usage)
         else Inr (PDict response))"

text \<open>A block of the answer without a \<open>toolUse\<close> is no tool call.\<close>

definition call_from_block ::
  "(py \<Rightarrow> string) \<Rightarrow> (string \<times> string) list \<Rightarrow> py \<Rightarrow> openai_call option result" where
  "call_from_block dumps returned block =
     bindR (py_get block ''toolUse'') (\<lambda>use.
     if \<not> truthy use then Inr None
     else bindR (py_item use ''toolUseId'') (\<lambda>i.
          bindR (py_item use ''name'') (\<lambda>name.
          bindR (rename_tool returned name) (\<lambda>name'.
          mapR (\<lambda>input. Some \<lparr>oc_id = i, oc_name = name',
                 oc_arguments = dumps (py_or input (PDict []))\<rparr>) (py_get use ''input'')))))"

definition somes :: "'a option list \<Rightarrow> 'a list" where
  "somes xs = concat (map (\<lambda>x. case x of None \<Rightarrow> [] | Some y \<Rightarrow> [y]) xs)"

definition tool_calls_from_content ::
  "(py \<Rightarrow> string) \<Rightarrow> (string \<times> string) list \<Rightarrow> py list \<Rightarrow> openai_call list result" where
  "tool_calls_from_content dumps returned blocks =
     mapR somes (listR (call_from_block dumps returned) blocks)"

section \<open>Stream events\<close>

text \<open>The deltas sent to the client. The first fragment of a tool call carries its index, id, name
  and arguments so far, a later one its index and more of the arguments.\<close>

datatype delta =
    ContentDelta py
  | CallDelta nat py py string
  | ArgumentsDelta nat py

type_synonym tool_indexes = "(py \<times> nat) list"

text \<open>\<open>event.get(a, {}).get(b, {}) \<dots>\<close>, the chain of lookups that ends in \<open>.get(last)\<close>.\<close>

fun get_path :: "py \<Rightarrow> string list \<Rightarrow> string \<Rightarrow> py result" where
  "get_path v [] k = py_get v k"
| "get_path v (a # path) k = bindR (py_get_or v a (PDict [])) (\<lambda>w. get_path w path k)"

definition text_deltas :: "py \<Rightarrow> delta list result" where
  "text_deltas event = mapR (\<lambda>t. if truthy t then [ContentDelta t] else [])
     (get_path event [''contentBlockDelta'', ''delta''] ''text'')"

definition start_deltas ::
  "(string \<times> string) list \<Rightarrow> py \<Rightarrow> tool_indexes \<Rightarrow> (delta list \<times> tool_indexes) result" where
  "start_deltas returned event indexes =
     bindR (py_get_or event ''contentBlockStart'' (PDict [])) (\<lambda>block_start.
     bindR (get_path block_start [''start''] ''toolUse'') (\<lambda>tool_start.
     if \<not> truthy tool_start then Inr ([], indexes)
     else bindR (py_get_or block_start ''contentBlockIndex'' (PInt (int (length indexes)))) (\<lambda>block_index.
          if \<not> hashable block_index then Inl TypeError
          else bindR (py_item tool_start ''toolUseId'') (\<lambda>i.
               bindR (py_item tool_start ''name'') (\<lambda>name.
               mapR (\<lambda>name'. ([CallDelta (length indexes) i name' []],
                              dset block_index (length indexes) indexes))
                 (rename_tool returned name))))))"

definition argument_deltas :: "py \<Rightarrow> tool_indexes \<Rightarrow> delta list result" where
  "argument_deltas event indexes =
     bindR (py_get_or event ''contentBlockDelta'' (PDict [])) (\<lambda>block_delta.
     bindR (get_path block_delta [''delta''] ''toolUse'') (\<lambda>tool_delta.
     if \<not> truthy tool_delta then Inr []
     else bindR (py_get block_delta ''contentBlockIndex'') (\<lambda>block_index.
          if \<not> hashable block_index then Inl TypeError
          else (case dget indexes block_index of
              None \<Rightarrow> Inr []
            | Some k \<Rightarrow> mapR (\<lambda>a. [ArgumentsDelta k a]) (py_get_or tool_delta ''input'' (PStr []))))))"

definition event_finish :: "py \<Rightarrow> string option result" where
  "event_finish event = mapR (\<lambda>r. if \<not> truthy r then None
       else Some (if r = PStr ''tool_use'' then ''tool_calls'' else ''stop''))
     (get_path event [''messageStop''] ''stopReason'')"

definition stream_event_deltas ::
  "(string \<times> string) list \<Rightarrow> py \<Rightarrow> tool_indexes \<Rightarrow> (delta list \<times> string option \<times> tool_indexes) result" where
  "stream_event_deltas returned event indexes =
     bindR (text_deltas event) (\<lambda>ds1.
     bindR (start_deltas returned event indexes) (\<lambda>(ds2, indexes').
     bindR (argument_deltas event indexes') (\<lambda>ds3.
     mapR (\<lambda>finish. (ds1 @ ds2 @ ds3, finish, indexes')) (event_finish event))))"

text \<open>What the client receives: the deltas, the finish reason and the end mark. An exception ends the
  stream where it is raised, so the second component says how the stream ended.\<close>

datatype chunk = Chunk delta | Finish string | Done

fun stream_loop ::
  "(string \<times> string) list \<Rightarrow> py list \<Rightarrow> tool_indexes \<Rightarrow> string \<Rightarrow> chunk list \<times> string result" where
  "stream_loop returned [] indexes finish = ([], Inr finish)"
| "stream_loop returned (event # events) indexes finish =
     (case stream_event_deltas returned event indexes of
        Inl e \<Rightarrow> ([], Inl e)
      | Inr (ds, f, indexes') \<Rightarrow>
          (case stream_loop returned events indexes' (case f of None \<Rightarrow> finish | Some r \<Rightarrow> r) of
             (cs, r) \<Rightarrow> (map Chunk ds @ cs, r)))"

text \<open>\<open>await worker\<close> raises what ended the reading, after the events that were read.\<close>

definition stream_reply ::
  "(string \<times> string) list \<Rightarrow> py list \<times> py_exc option \<Rightarrow> chunk list \<times> py_exc option" where
  "stream_reply returned source =
     (case stream_loop returned (fst source) [] ''stop'' of
        (cs, Inl e) \<Rightarrow> (cs, Some e)
      | (cs, Inr finish) \<Rightarrow>
          (case snd source of
             Some e \<Rightarrow> (cs, Some e)
           | None \<Rightarrow> (cs @ [Finish finish, Done], None)))"

section \<open>A chat completion\<close>

datatype reply = JsonReply py | StreamReply "chunk list" "py_exc option"

definition refusal :: string where
  "refusal = ''Bulk deletion of all calendar appointments is disabled. ''
     @ ''Delete appointments individually using their exact event IDs.''"

record bedrock_client =
  bc_converse :: "bedrock_request \<Rightarrow> py result"
  bc_stream :: "bedrock_request \<Rightarrow> py list \<times> py_exc option"
  bc_uuid :: "nat \<Rightarrow> string"
  bc_time :: int

text \<open>The text of the blocks of an answer, \<open>''.join(\<dots>)\<close>, which takes strings only.\<close>

definition block_text :: "py \<Rightarrow> string result" where
  "block_text block = bindR (py_get block ''text'') (\<lambda>t.
     if \<not> truthy t then Inr [] else (case t of PStr s \<Rightarrow> Inr s | _ \<Rightarrow> Inl TypeError))"

definition answer_reply ::
  "bedrock_client \<Rightarrow> (py \<Rightarrow> string) \<Rightarrow> (string \<times> string) list \<Rightarrow> string \<Rightarrow> py \<Rightarrow> reply result" where
  "answer_reply client dumps returned model_id response =
     bindR (py_get_or response ''output'' (PDict [])) (\<lambda>out.
     bindR (py_get_or out ''message'' (PDict [])) (\<lambda>message.
     bindR (py_get_or message ''content'' (PList [])) (\<lambda>content.
     bindR (py_iter content) (\<lambda>blocks.
     bindR (listR block_text blocks) (\<lambda>texts.
     bindR (tool_calls_from_content dumps returned blocks) (\<lambda>calls.
     bindR (py_get response ''usage'') (\<lambda>usage.
     mapR JsonReply
       (openai_response (bc_uuid client 0) (bc_time client) model_id (concat texts) usage calls))))))))"

definition refuse_reply :: "bedrock_client \<Rightarrow> bool \<Rightarrow> string \<Rightarrow> reply result" where
  "refuse_reply client stream model_id =
     (if stream then Inr (StreamReply [Chunk (ContentDelta (PStr refusal)), Finish ''stop'', Done] None)
      else mapR JsonReply (openai_response (bc_uuid client 0) (bc_time client) model_id refusal PNone []))"

definition routed_reply ::
  "bedrock_client \<Rightarrow> (py \<Rightarrow> string) \<Rightarrow> bool \<Rightarrow> string \<Rightarrow> string \<Rightarrow> pydict \<Rightarrow> reply result" where
  "routed_reply client dumps stream model_id tool arguments =
     (let call = \<lparr>oc_id = PStr (''tooluse_'' @ bc_uuid client 0), oc_name = PStr tool,
                 oc_arguments = dumps (PDict arguments)\<rparr> in
      if stream
      then Inr (StreamReply [Chunk (CallDelta 0 (oc_id call) (oc_name call) (oc_arguments call)),
             Finish ''tool_calls'', Done] None)
      else mapR JsonReply (openai_response (bc_uuid client 1) (bc_time client) model_id [] PNone [call]))"

text \<open>The requests sent to AWS, and the reply. \<open>global\<close> is the administrator's prompt after
  \<open>resolve_system_prompt\<close>.\<close>

definition generate_chat_completion ::
  "bedrock_client \<Rightarrow> (py \<Rightarrow> string) \<Rightarrow> (string \<Rightarrow> py option) \<Rightarrow> (py \<Rightarrow> string) \<Rightarrow> (string \<Rightarrow> string) \<Rightarrow>
   string \<Rightarrow> pydict \<Rightarrow> (bedrock_request list \<times> reply) result" where
  "generate_chat_completion client str_of loads dumps sha8 global form =
     bindR (converse_request str_of loads sha8 form) (\<lambda>(request, returned).
     let payload = request\<lparr>cr_system := prepend_global_system_block (str_strip global) (cr_system request)\<rparr>;
         model_id = cr_model_id request; stream = truthy (field form ''stream'') in
     bindR (calendar_delete_all_requested str_of form) (\<lambda>bulk.
     if bulk then mapR (\<lambda>r. ([], r)) (refuse_reply client stream model_id)
     else
       bindR (if is_nova model_id then explicit_calendar_delete_tool str_of form else Inr None) (\<lambda>routed.
       bindR (case routed of None \<Rightarrow> Inr None | Some t \<Rightarrow> calendar_route_arguments str_of form t) (\<lambda>arguments.
       case (routed, arguments) of
         (Some t, Some a) \<Rightarrow> mapR (\<lambda>r. ([], r)) (routed_reply client dumps stream model_id t a)
       | _ \<Rightarrow>
           if stream
           then (case stream_reply returned (bc_stream client payload) of
                   (cs, e) \<Rightarrow> Inr ([payload], StreamReply cs e))
           else bindR (bc_converse client payload) (\<lambda>response.
                mapR (\<lambda>r. ([payload], r)) (answer_reply client dumps returned model_id response))))))"

section \<open>Available models\<close>

text \<open>\<open>'ON_DEMAND' in summary.get('inferenceTypesSupported', ['ON_DEMAND'])\<close>.\<close>

definition on_demand :: "model_summary \<Rightarrow> bool" where
  "on_demand s = (case ms_inference_types s of None \<Rightarrow> True | Some ts \<Rightarrow> ''ON_DEMAND'' \<in> set ts)"

datatype model_origin = FoundationModel model_summary | InferenceProfile inference_profile

text \<open>An entry of the model list: its id and name, and the summary or profile it stands for, from which
  its field \<open>bedrock\<close> copies. The other fields are the same for every entry of a kind.\<close>

record model_entry =
  me_id :: string
  me_name :: string
  me_origin :: model_origin

definition name_or :: "string option \<Rightarrow> string \<Rightarrow> string" where
  "name_or n dflt = (case n of None \<Rightarrow> dflt | Some [] \<Rightarrow> dflt | Some s \<Rightarrow> s)"

definition summaries_by_id :: "model_summary list \<Rightarrow> (string \<times> model_summary) list" where
  "summaries_by_id summaries =
     foldl (\<lambda>d s. if foundation_model_id s = [] then d else dset (foundation_model_id s) s d) [] summaries"

definition foundation_entry :: "string list \<Rightarrow> model_summary \<Rightarrow> model_entry list" where
  "foundation_entry allowed s = (case ms_model_id s of
     None \<Rightarrow> [] | Some [] \<Rightarrow> []
   | Some i \<Rightarrow> if supports_text_chat allowed s \<and> on_demand s
              then [\<lparr>me_id = ''bedrock:'' @ i, me_name = name_or (ms_model_name s) i,
                    me_origin = FoundationModel s\<rparr>]
              else [])"

definition profile_entry ::
  "string list \<Rightarrow> (string \<times> model_summary) list \<Rightarrow> inference_profile \<Rightarrow> model_entry list" where
  "profile_entry allowed by_id p = (case ip_id p of
     None \<Rightarrow> [] | Some [] \<Rightarrow> []
   | Some i \<Rightarrow> if profile_supports_text_chat allowed p by_id
              then [\<lparr>me_id = ''bedrock:'' @ i, me_name = name_or (ip_name p) i,
                    me_origin = InferenceProfile p\<rparr>]
              else [])"

text \<open>\<open>None\<close> stands for an AWS error: without the model list there are no models, without the
  profiles there are the foundation models.\<close>

definition get_all_models ::
  "string list \<Rightarrow> model_summary list option \<Rightarrow> inference_profile list option \<Rightarrow> model_entry list" where
  "get_all_models allowed summaries profiles = (case summaries of
     None \<Rightarrow> []
   | Some ss \<Rightarrow> concat (map (foundation_entry allowed) ss)
       @ concat (map (profile_entry allowed (summaries_by_id ss))
           (case profiles of None \<Rightarrow> [] | Some ps \<Rightarrow> ps)))"

text \<open>The pages of inference profiles: a page is its profiles and the next token, and the requests
  stop at a falsy token. \<open>None\<close>: the pages never end.\<close>

partial_function (option) list_profiles ::
  "(string option \<Rightarrow> 'p list \<times> string option) \<Rightarrow> string option \<Rightarrow> 'p list \<Rightarrow> 'p list option" where
  "list_profiles page token profiles =
     (case page token of (ps, next_token) \<Rightarrow>
        (case next_token of
           None \<Rightarrow> Some (profiles @ ps)
         | Some [] \<Rightarrow> Some (profiles @ ps)
         | Some (c # cs) \<Rightarrow> list_profiles page (Some (c # cs)) (profiles @ ps)))"

section \<open>Streaming agrees with the answer at once\<close>

text \<open>An answer of a model, and the documented events by which Converse streams it: a text block as
  text deltas, a tool call as a start with id and name and deltas with fragments of its input, each
  with the index of its block.\<close>

datatype answer_block =
    TextAnswer "string list"
  | CallAnswer string string "string list"

definition delta_event :: "nat \<Rightarrow> py \<Rightarrow> py" where
  "delta_event i d = PDict [(''contentBlockDelta'',
     PDict [(''delta'', d), (''contentBlockIndex'', PInt (int i))])]"

definition text_event :: "nat \<Rightarrow> string \<Rightarrow> py" where
  "text_event i c = delta_event i (PDict [(''text'', PStr c)])"

definition input_event :: "nat \<Rightarrow> string \<Rightarrow> py" where
  "input_event i c = delta_event i (PDict [(''toolUse'', PDict [(''input'', PStr c)])])"

definition start_event :: "nat \<Rightarrow> string \<Rightarrow> string \<Rightarrow> py" where
  "start_event i uid name = PDict [(''contentBlockStart'', PDict [
     (''start'', PDict [(''toolUse'', PDict [(''toolUseId'', PStr uid), (''name'', PStr name)])]),
     (''contentBlockIndex'', PInt (int i))])]"

definition stop_event :: "nat \<Rightarrow> py" where
  "stop_event i = PDict [(''contentBlockStop'', PDict [(''contentBlockIndex'', PInt (int i))])]"

fun block_events :: "nat \<Rightarrow> answer_block \<Rightarrow> py list" where
  "block_events i (TextAnswer cs) = map (text_event i) cs @ [stop_event i]"
| "block_events i (CallAnswer uid name cs) = start_event i uid name # map (input_event i) cs @ [stop_event i]"

fun events_from :: "nat \<Rightarrow> answer_block list \<Rightarrow> py list" where
  "events_from i [] = []"
| "events_from i (b # bs) = block_events i b @ events_from (Suc i) bs"

definition answer_events :: "answer_block list \<Rightarrow> string \<Rightarrow> py list" where
  "answer_events bs reason =
     PDict [(''messageStart'', PDict [(''role'', PStr ''assistant'')])] # events_from 0 bs
     @ [PDict [(''messageStop'', PDict [(''stopReason'', PStr reason)])]]"

text \<open>What a client that follows the protocol puts together: the content, and the calls by index.\<close>

fun take_chunk :: "string \<times> openai_call list \<Rightarrow> chunk \<Rightarrow> string \<times> openai_call list" where
  "take_chunk (content, calls) (Chunk (ContentDelta (PStr s))) = (content @ s, calls)"
| "take_chunk (content, calls) (Chunk (CallDelta k i n a)) =
     (content, if k = length calls then calls @ [\<lparr>oc_id = i, oc_name = n, oc_arguments = a\<rparr>] else calls)"
| "take_chunk (content, calls) (Chunk (ArgumentsDelta k (PStr a))) =
     (content, if k < length calls
               then calls[k := (calls ! k)\<lparr>oc_arguments := oc_arguments (calls ! k) @ a\<rparr>] else calls)"
| "take_chunk acc c = acc"

definition reassemble :: "chunk list \<Rightarrow> string \<times> openai_call list" where
  "reassemble cs = foldl take_chunk ([], []) cs"

text \<open>The same answer without streaming: its content blocks.\<close>

fun content_of_block :: "(string \<Rightarrow> py) \<Rightarrow> answer_block \<Rightarrow> py" where
  "content_of_block parse (TextAnswer cs) = PDict [(''text'', PStr (concat cs))]"
| "content_of_block parse (CallAnswer uid name cs) =
     PDict [(''toolUse'', PDict [(''toolUseId'', PStr uid), (''name'', PStr name),
       (''input'', parse (concat cs))])]"

definition renamed :: "(string \<times> string) list \<Rightarrow> string \<Rightarrow> py" where
  "renamed returned name = PStr (case dget returned name of None \<Rightarrow> name | Some t \<Rightarrow> t)"

lemma rename_renamed: "rename_tool returned (PStr name) = Inr (renamed returned name)"
  by (simp add: rename_tool_def renamed_def)

lemmas stream_defs = stream_event_deltas_def text_deltas_def start_deltas_def argument_deltas_def
  event_finish_def delta_event_def

lemma text_event_deltas: "stream_event_deltas returned (text_event i c) indexes =
    Inr (if c = [] then [] else [ContentDelta (PStr c)], None, indexes)"
  by (simp add: stream_defs text_event_def)

lemma input_event_deltas: "dget indexes (PInt (int i)) = Some k \<Longrightarrow>
    stream_event_deltas returned (input_event i c) indexes = Inr ([ArgumentsDelta k (PStr c)], None, indexes)"
  by (simp add: stream_defs input_event_def)

lemma start_event_deltas: "stream_event_deltas returned (start_event i uid name) indexes =
    Inr ([CallDelta (length indexes) (PStr uid) (renamed returned name) []], None,
         dset (PInt (int i)) (length indexes) indexes)"
  by (simp add: stream_defs start_event_def rename_renamed)

lemma stop_event_deltas: "stream_event_deltas returned (stop_event i) indexes = Inr ([], None, indexes)"
  by (simp add: stream_defs stop_event_def)

text \<open>Events that emit chunks and change the indexes, whatever follows.\<close>

definition emits ::
  "(string \<times> string) list \<Rightarrow> tool_indexes \<Rightarrow> py list \<Rightarrow> chunk list \<Rightarrow> tool_indexes \<Rightarrow> bool" where
  "emits returned indexes events cs indexes' = (\<forall>rest finish.
     stream_loop returned (events @ rest) indexes finish =
       (cs @ fst (stream_loop returned rest indexes' finish),
        snd (stream_loop returned rest indexes' finish)))"

lemma emits_Nil: "emits returned indexes [] [] indexes"
  by (simp add: emits_def)

lemma emits_Cons:
  assumes "stream_event_deltas returned e indexes = Inr (ds, None, indexes1)"
    and "emits returned indexes1 events cs indexes'"
  shows "emits returned indexes (e # events) (map Chunk ds @ cs) indexes'"
  using assms by (simp add: emits_def split: prod.splits)

lemma emits_append:
  "emits returned i0 xs cs i1 \<Longrightarrow> emits returned i1 ys cs' i2 \<Longrightarrow> emits returned i0 (xs @ ys) (cs @ cs') i2"
  by (simp add: emits_def)

fun block_chunks :: "(string \<times> string) list \<Rightarrow> nat \<Rightarrow> answer_block \<Rightarrow> chunk list" where
  "block_chunks returned k (TextAnswer cs) = map (\<lambda>c. Chunk (ContentDelta (PStr c))) (filter (\<lambda>c. c \<noteq> []) cs)"
| "block_chunks returned k (CallAnswer uid name cs) =
     Chunk (CallDelta k (PStr uid) (renamed returned name) [])
     # map (\<lambda>c. Chunk (ArgumentsDelta k (PStr c))) cs"

fun is_call :: "answer_block \<Rightarrow> bool" where
  "is_call (TextAnswer cs) = False"
| "is_call (CallAnswer uid name cs) = True"

fun chunks_from :: "(string \<times> string) list \<Rightarrow> nat \<Rightarrow> answer_block list \<Rightarrow> chunk list" where
  "chunks_from returned k [] = []"
| "chunks_from returned k (b # bs) =
     block_chunks returned k b @ chunks_from returned (if is_call b then Suc k else k) bs"

lemma emits_texts: "emits returned indexes (map (text_event i) cs)
    (map (\<lambda>c. Chunk (ContentDelta (PStr c))) (filter (\<lambda>c. c \<noteq> []) cs)) indexes"
proof (induction cs)
  case (Cons c cs)
  from emits_Cons [OF text_event_deltas [of returned i c indexes] Cons] show ?case
    by (cases c) auto
qed (simp add: emits_Nil)

lemma emits_inputs:
  assumes "dget indexes (PInt (int i)) = Some k"
  shows "emits returned indexes (map (input_event i) cs)
    (map (\<lambda>c. Chunk (ArgumentsDelta k (PStr c))) cs) indexes"
proof (induction cs)
  case (Cons c cs)
  from emits_Cons [OF input_event_deltas [OF assms] Cons] show ?case by simp
qed (simp add: emits_Nil)

lemma emits_stop: "emits returned indexes [stop_event i] [] indexes"
  using emits_Cons [OF stop_event_deltas emits_Nil] by simp

lemma emits_block:
  assumes "PInt (int i) \<notin> fst ` set indexes"
  shows "emits returned indexes (block_events i b) (block_chunks returned (length indexes) b)
    (if is_call b then indexes @ [(PInt (int i), length indexes)] else indexes)"
proof (cases b)
  case (TextAnswer cs)
  with emits_append [OF emits_texts emits_stop] show ?thesis by simp
next
  case (CallAnswer uid name cs)
  let ?i = "indexes @ [(PInt (int i), length indexes)]"
  have "dget ?i (PInt (int i)) = Some (length indexes)"
    using dget_dset [of "PInt (int i)" "length indexes" indexes "PInt (int i)"]
    unfolding dset_new [OF assms] by simp
  from emits_append [OF emits_inputs [OF this] emits_stop]
  have "emits returned ?i (map (input_event i) cs @ [stop_event i])
      (map (\<lambda>c. Chunk (ArgumentsDelta (length indexes) (PStr c))) cs) ?i" by simp
  from emits_Cons [OF start_event_deltas this [folded dset_new [OF assms]]] CallAnswer
  show ?thesis by (simp add: dset_new [OF assms])
qed

lemma emits_blocks:
  assumes "\<forall>k \<in> fst ` set indexes. \<exists>j < i. k = PInt (int j)"
  shows "\<exists>indexes'. emits returned indexes (events_from i bs) (chunks_from returned (length indexes) bs) indexes'"
  using assms
proof (induction bs arbitrary: i indexes)
  case Nil
  show ?case using emits_Nil by auto
next
  case (Cons b bs)
  let ?i = "if is_call b then indexes @ [(PInt (int i), length indexes)] else indexes"
  have new: "PInt (int i) \<notin> fst ` set indexes" using Cons.prems by fastforce
  have "\<forall>k \<in> fst ` set ?i. \<exists>j < Suc i. k = PInt (int j)"
    using Cons.prems by (auto intro: less_SucI)
  from Cons.IH [OF this] obtain i' where
    "emits returned ?i (events_from (Suc i) bs) (chunks_from returned (length ?i) bs) i'" ..
  from emits_append [OF emits_block [OF new] this] show ?case by auto
qed

text \<open>Reading the chunks of one block, then of all.\<close>

fun block_content :: "answer_block \<Rightarrow> string" where
  "block_content (TextAnswer cs) = concat cs"
| "block_content (CallAnswer uid name cs) = []"

fun block_call :: "(string \<times> string) list \<Rightarrow> answer_block \<Rightarrow> openai_call list" where
  "block_call returned (TextAnswer cs) = []"
| "block_call returned (CallAnswer uid name cs) =
     [\<lparr>oc_id = PStr uid, oc_name = renamed returned name, oc_arguments = concat cs\<rparr>]"

lemma take_texts: "foldl take_chunk (content, calls)
    (map (\<lambda>c. Chunk (ContentDelta (PStr c))) (filter (\<lambda>c. c \<noteq> []) cs)) = (content @ concat cs, calls)"
  by (induction cs arbitrary: content) auto

lemma take_inputs: "foldl take_chunk (content, calls @ [call])
    (map (\<lambda>c. Chunk (ArgumentsDelta (length calls) (PStr c))) cs)
    = (content, calls @ [call\<lparr>oc_arguments := oc_arguments call @ concat cs\<rparr>])"
  by (induction cs arbitrary: call) auto

lemma take_block: "foldl take_chunk (content, calls) (block_chunks returned (length calls) b)
    = (content @ block_content b, calls @ block_call returned b)"
  by (cases b) (simp_all add: take_texts take_inputs)

lemma take_blocks: "foldl take_chunk (content, calls) (chunks_from returned (length calls) bs)
    = (content @ concat (map block_content bs), calls @ concat (map (block_call returned) bs))"
proof (induction bs arbitrary: content calls)
  case (Cons b bs)
  have "length (calls @ block_call returned b) = (if is_call b then Suc (length calls) else length calls)"
    by (cases b) auto
  with Cons [of "content @ block_content b" "calls @ block_call returned b"] show ?case
    by (simp add: take_block split: if_splits)
qed simp

lemma take_finish: "foldl take_chunk acc [Finish r, Done] = acc"
  by (cases acc) simp

lemma stream_reply_answer:
  "stream_reply returned (answer_events bs reason, None) =
     (chunks_from returned 0 bs
      @ [Finish (if reason = [] then ''stop'' else if reason = ''tool_use'' then ''tool_calls'' else ''stop''),
         Done], None)"
proof -
  obtain i' where e: "emits returned [] (events_from 0 bs) (chunks_from returned 0 bs) i'"
    using emits_blocks [of "[]" 0 returned bs] by auto
  show ?thesis
    using e by (simp add: stream_reply_def answer_events_def emits_def stream_defs)
qed

lemma calls_of_blocks:
  "tool_calls_from_content dumps returned (map (content_of_block parse) bs) =
    Inr (map (\<lambda>c. c\<lparr>oc_arguments := dumps (py_or (parse (oc_arguments c)) (PDict []))\<rparr>) (concat (map (block_call returned) bs)))"
proof -
  let ?whole = "\<lambda>c. c\<lparr>oc_arguments := dumps (py_or (parse (oc_arguments c)) (PDict []))\<rparr>"
  have b: "call_from_block dumps returned (content_of_block parse b) =
      Inr (case block_call returned b of [] \<Rightarrow> None | c # _ \<Rightarrow> Some (?whole c))" for b
    by (cases b) (simp_all add: call_from_block_def rename_renamed)
  have "listR (call_from_block dumps returned) (map (content_of_block parse) bs)
      = Inr (map (\<lambda>b. case block_call returned b of [] \<Rightarrow> None | c # _ \<Rightarrow> Some (?whole c)) bs)"
    using b by (induction bs) simp_all
  moreover have "somes (map (\<lambda>b. case block_call returned b of [] \<Rightarrow> None | c # _ \<Rightarrow> Some (?whole c)) bs)
      = map ?whole (concat (map (block_call returned) bs))"
  proof (induction bs)
    case (Cons b bs)
    then show ?case by (cases b) (simp_all add: somes_def)
  qed (simp add: somes_def)
  ultimately show ?thesis by (simp add: tool_calls_from_content_def)
qed

lemma texts_of_blocks:
  "mapR concat (listR block_text (map (content_of_block parse) bs)) = Inr (concat (map block_content bs))"
proof -
  have b: "block_text (content_of_block parse b) = Inr (block_content b)" for b
    by (cases b) (simp_all add: block_text_def)
  have "listR block_text (map (content_of_block parse) bs) = Inr (map block_content bs)"
    by (induction bs) (simp_all add: b)
  then show ?thesis by simp
qed

lemma block_contents: "concat (map block_content bs) = concat (concat [pieces. TextAnswer pieces \<leftarrow> bs])"
proof (induction bs)
  case (Cons b bs)
  then show ?case by (cases b) simp_all
qed simp

lemma block_calls: "concat (map (block_call returned) bs) =
    [\<lparr>oc_id = PStr uid, oc_name = PStr (case dget returned name of None \<Rightarrow> name | Some tool \<Rightarrow> tool),
      oc_arguments = concat pieces\<rparr>. CallAnswer uid name pieces \<leftarrow> bs]"
proof (induction bs)
  case (Cons b bs)
  then show ?case by (cases b) (simp_all add: renamed_def)
qed simp

text \<open>C20: streaming and answering at once agree, for whatever text and tool calls AWS answers with, cut into whatever
  deltas: the chunks put together by the client give the text of the whole answer, which is that of the text blocks joined,
  and as many tool calls in the same order, one for each block that is a call, with its id and with the tool's own name for
  the name that AWS uses (this name itself when the request has no such tool). The arguments of a call that was streamed are the input as the model wrote it, deltas
  joined; those of the whole answer are what \<open>json.dumps\<close> prints for the object that AWS parsed from this very
  input, or \<open>{}\<close> when it is none.\<close>

theorem stream_agrees_with_answer:
  "\<exists>cs text calls. stream_reply returned (answer_events bs reason, None) = (cs, None)
    \<and> reassemble cs = (text, calls)
    \<and> text = concat (concat [pieces. TextAnswer pieces \<leftarrow> bs])
    \<and> calls = [\<lparr>oc_id = PStr uid, oc_name = PStr (case dget returned name of None \<Rightarrow> name | Some tool \<Rightarrow> tool),
        oc_arguments = concat pieces\<rparr>. CallAnswer uid name pieces \<leftarrow> bs]
    \<and> mapR concat (listR block_text (map (content_of_block parse) bs)) = Inr text
    \<and> tool_calls_from_content dumps returned (map (content_of_block parse) bs) =
        Inr (map (\<lambda>c. c\<lparr>oc_arguments := dumps (py_or (parse (oc_arguments c)) (PDict []))\<rparr>) calls)"
  using take_blocks [of "[]" "[]" returned bs]
  by (simp add: stream_reply_answer reassemble_def take_finish texts_of_blocks
      calls_of_blocks block_contents block_calls del: foldl.simps)

section \<open>The requests sent to AWS\<close>

lemma strip_strip: "str_strip (str_strip s) = str_strip s"
proof -
  have drop_take: "dropWhile p (rev (dropWhile p xs)) = rev (dropWhile p xs)"
    if "xs = [] \<or> \<not> p (last xs)" for p and xs :: string
  proof (cases "dropWhile p xs" rule: rev_cases)
    case (snoc ys y)
    then have "last xs = y" by (metis append_is_Nil_conv last_snoc last_appendR takeWhile_dropWhile_id list.discI)
    moreover have "xs \<noteq> []" using snoc by auto
    ultimately show ?thesis using that snoc by simp
  next
    case Nil
    show ?thesis unfolding Nil by simp
  qed
  have ends: "zs = [] \<or> \<not> p (last (rev zs))" if "zs = dropWhile p ws" for p and zs ws :: string
    using that hd_dropWhile [of p ws] by (cases zs) (auto simp: last_rev)
  define t where "t = dropWhile py_space s"
  define u where "u = rev (dropWhile py_space (rev t))"
  have u: "str_strip s = u" by (simp add: strip_by_def lstrip_by_def rstrip_by_def t_def u_def)
  have "rev t = [] \<or> \<not> py_space (last (rev t))" using ends [of t py_space s] by (simp add: t_def)
  then have 1: "dropWhile py_space u = u" unfolding u_def by (rule drop_take)
  have "dropWhile py_space (rev u) = rev u" by (simp add: u_def)
  with 1 show ?thesis unfolding u by (simp add: strip_by_def lstrip_by_def rstrip_by_def)
qed

lemma prepend_first:
  "str_strip g \<noteq> [] \<Longrightarrow> \<exists>ts. prepend_global_system_block g system = str_strip g # ts \<and> [] \<notin> set ts"
  by (auto simp: prepend_global_system_block_def Let_def)

lemma prepend_idempotent:
  "prepend_global_system_block g (prepend_global_system_block g system) = prepend_global_system_block g system"
proof (cases "str_strip g = []")
  case False
  from prepend_first [OF this] obtain ts where
    "prepend_global_system_block g system = str_strip g # ts" "[] \<notin> set ts" by blast
  then show ?thesis
    by (auto simp: prepend_global_system_block_def Let_def without_prefix_def filter_id_conv)
qed (simp add: prepend_global_system_block_def Let_def)

text \<open>At most one request goes to AWS, with the administrator's prompt first: none for a bulk
  deletion or for a routed one, and otherwise the converted request, its system blocks preceded by
  the stripped prompt, which is not repeated when the blocks already begin with it.\<close>

theorem requests_of_completion:
  assumes "generate_chat_completion client str_of loads dumps sha8 global form = Inr (requests, reply)"
    and "converse_request str_of loads sha8 form = Inr (request, returned)"
  shows "requests = [] \<or>
    (calendar_delete_all_requested str_of form = Inr False \<and>
     (is_nova (cr_model_id request) \<longrightarrow> explicit_calendar_delete_tool str_of form = Inr None) \<and>
     (\<exists>system. requests = [request\<lparr>cr_system := system\<rparr>] \<and>
        prepend_global_system_block global system = system \<and>
        (str_strip global \<noteq> [] \<longrightarrow> system \<noteq> [] \<and> hd system = str_strip global)))"
proof -
  let ?s = "prepend_global_system_block (str_strip global) (cr_system request)"
  let ?nova = "is_nova (cr_model_id request)"
  obtain bulk where bulk: "calendar_delete_all_requested str_of form = Inr bulk"
    using assms by (auto simp: generate_chat_completion_def Let_def)
  have fix_s: "prepend_global_system_block global ?s = ?s"
    using prepend_idempotent [of "str_strip global"]
    by (simp add: prepend_global_system_block_def [of global] strip_strip
        prepend_global_system_block_def [of "str_strip global", symmetric, unfolded strip_strip])
  show ?thesis
  proof (cases bulk)
    case True
    with assms bulk show ?thesis by (auto simp: generate_chat_completion_def Let_def)
  next
    case False
    obtain routed where routed: "(if ?nova then explicit_calendar_delete_tool str_of form else Inr None) = Inr routed"
      using assms bulk False by (auto simp: generate_chat_completion_def Let_def)
    show ?thesis
    proof (cases routed)
      case (Some t)
      with routed have "explicit_calendar_delete_tool str_of form = Inr (Some t)" by (simp split: if_splits)
      then obtain u where "calendar_route_arguments str_of form t = Inr (Some [(''event_id'', PStr u)])"
        using routed_deletion_arguments by blast
      with assms bulk False routed Some show ?thesis
        by (auto simp: generate_chat_completion_def Let_def)
    next
      case None
      with assms bulk False routed have "requests = [request\<lparr>cr_system := ?s\<rparr>]"
        by (auto simp: generate_chat_completion_def Let_def split: if_splits prod.splits)
      moreover have "str_strip global \<noteq> [] \<longrightarrow> ?s \<noteq> [] \<and> hd ?s = str_strip global"
        using prepend_first [of "str_strip global" "cr_system request"] by (auto simp: strip_strip)
      ultimately show ?thesis using bulk False routed None fix_s by auto
    qed
  qed
qed

text \<open>The demonstration request of the calendar, with a deletion by id.\<close>

definition demo_client :: bedrock_client where
  "demo_client = \<lparr>bc_converse = (\<lambda>_. Inr (PDict [])), bc_stream = (\<lambda>_. ([], None)), bc_uuid = (\<lambda>_. ''u''), bc_time = 0\<rparr>"

definition demo_prompt :: pydict where
  "demo_prompt = [(''model'', PStr ''amazon.titan''), (''messages'', PList [demo_message ''user'' ''hi'']),
     (''stream'', PBool True)]"

definition demo_prompt_request :: bedrock_request where
  "demo_prompt_request = \<lparr>cr_model_id = ''amazon.titan'',
     cr_messages = [\<lparr>cv_role = ''user'', cv_content = [TextBlock ''hi'']\<rparr>], cr_system = [], cr_inference = [],
     cr_tool_config = None, cr_greedy = False\<rparr>"

lemma demo_prompt_converse: "converse_request plain_str no_json demo_sha8 demo_prompt = Inr (demo_prompt_request, [])"
  by code_simp

lemma demo_prompt_reply:
  "generate_chat_completion demo_client plain_str no_json demo_dumps demo_sha8 '' rules '' demo_prompt
     = Inr ([demo_prompt_request\<lparr>cr_system := [''rules'']\<rparr>], StreamReply [Finish ''stop'', Done] None)"
  by code_simp

theorem requests_of_completion_witness:
  "\<exists>system. demo_prompt_request\<lparr>cr_system := [''rules'']\<rparr> = demo_prompt_request\<lparr>cr_system := system\<rparr>
     \<and> prepend_global_system_block '' rules '' system = system"
  using requests_of_completion [OF demo_prompt_reply demo_prompt_converse] by auto

section \<open>Listing inference profiles\<close>

text \<open>The pages, from a token on, until the first one without a next token.\<close>

fun pages_from :: "(string option \<Rightarrow> 'p list \<times> string option) \<Rightarrow> string option \<Rightarrow> 'p list list \<Rightarrow> bool" where
  "pages_from page token [] = False"
| "pages_from page token (ps # rest) =
     (fst (page token) = ps \<and>
      (case snd (page token) of
         None \<Rightarrow> rest = [] | Some [] \<Rightarrow> rest = [] | Some (c # cs) \<Rightarrow> pages_from page (Some (c # cs)) rest))"

lemma list_profiles_acc:
  "pages_from page token pss \<Longrightarrow> list_profiles page token acc = Some (acc @ concat pss)"
proof (induction pss arbitrary: token acc)
  case (Cons ps pss)
  obtain next_token where p: "page token = (ps, next_token)"
    using Cons.prems by (cases "page token") auto
  show ?case
    using Cons p
    by (subst list_profiles.simps) (auto split: option.splits list.splits)
qed simp

text \<open>Listing the inference profiles returns every page once: when AWS ends its pages, the loop
  ends and gives the concatenation of all of them, however many there are.\<close>

theorem list_profiles_complete:
  assumes "pages_from page None pss"
  shows "list_profiles page None [] = Some (concat pss)"
  using list_profiles_acc [OF assms, of "[]"] by simp

theorem list_profiles_complete_witness:
  "list_profiles (\<lambda>t. if t = None then ([1 :: nat, 2], Some ''x'') else ([3], None)) None [] = Some [1, 2, 3]"
  using list_profiles_complete [of "\<lambda>t. if t = None then ([1 :: nat, 2], Some ''x'') else ([3], None)" "[[1, 2], [3]]"]
  by simp

end
