(* ===== verification/Chat_History.thy ===== *)
theory Chat_History
  imports Py_Prelude
begin

text \<open>
  Branches of a chat: \<open>get_message_list\<close> of \<open>utils/misc.py\<close> and \<open>build_fork_history\<close> of
  \<open>utils/chat_fork.py\<close>. A chat is a dict from
  message ids to messages that point to their parents. The walk to the root is a
  \<open>partial_function\<close>, for it may run for ever; \<open>None\<close> is that outcome. Ids are compared as
  values, so that a number and an equal boolean count as different.
\<close>

section \<open>Walking to the root\<close>

text \<open>\<open>messages_map.get(key)\<close> for a key of any type; the keys of the map are strings.\<close>

definition py_lookup :: "pydict \<Rightarrow> py \<Rightarrow> py result" where
  "py_lookup d k = (case k of
     PStr s \<Rightarrow> Inr (field d s)
   | _ \<Rightarrow> if hashable k then Inr PNone else Inl TypeError)"

definition parent_message :: "pydict \<Rightarrow> py \<Rightarrow> py result" where
  "parent_message messages_map message =
     bindR (py_get message ''parentId'') (\<lambda>p.
       if truthy p then py_lookup messages_map p else Inr PNone)"

partial_function (option) message_loop ::
  "pydict \<Rightarrow> py \<Rightarrow> py list \<Rightarrow> py list \<Rightarrow> py list result option" where
  "message_loop messages_map current visited acc =
     (if \<not> truthy current then Some (Inr acc)
      else (case py_get current ''id'' of
          Inl e \<Rightarrow> Some (Inl e)
        | Inr mid \<Rightarrow>
            if \<not> hashable mid then Some (Inl TypeError)
            else if mid \<in> set visited then Some (Inr acc)
            else (case parent_message messages_map current of
                Inl e \<Rightarrow> Some (Inl e)
              | Inr parent \<Rightarrow>
                  message_loop messages_map parent
                    (if mid = PNone then visited else mid # visited) (acc @ [current]))))"

definition get_message_list :: "pydict \<Rightarrow> py \<Rightarrow> py list result option" where
  "get_message_list messages_map message_id =
     (if messages_map = [] then Some (Inr [])
      else (case py_lookup messages_map message_id of
          Inl e \<Rightarrow> Some (Inl e)
        | Inr current \<Rightarrow>
            if \<not> truthy current then Some (Inr [])
            else map_option (mapR rev) (message_loop messages_map current [] [])))"

section \<open>Forking a branch\<close>

text \<open>The branch from a message up to its root, the message first. A branch has no id twice, so that
  it ends.\<close>

function branch_loop :: "pydict \<Rightarrow> py \<Rightarrow> (string \<times> pydict) list \<Rightarrow> (string \<times> pydict) list result" where
  "branch_loop messages_map message_id branch =
     (if \<not> truthy message_id then Inr branch
      else if \<not> hashable message_id then Inl TypeError
      else (case message_id of
          PStr i \<Rightarrow>
            if i \<in> fst ` set branch then Inl (ValueError ''message branch contains a cycle'')
            else (case dget messages_map i of
                Some (PDict m) \<Rightarrow> branch_loop messages_map (field m ''parentId'') (branch @ [(i, m)])
              | _ \<Rightarrow> Inl (ValueError ''message not found''))
        | _ \<Rightarrow> Inl (ValueError ''message not found'')))"
  by pat_completeness auto

termination branch_loop
proof (relation "measure (\<lambda>(d, i, b). card (fst ` set d - fst ` set b))")
  fix d m :: pydict and i :: py and b :: "(string \<times> pydict) list" and s and v :: py
  assume "s \<notin> fst ` set b" and "dget d s = Some v"
  then have "s \<in> fst ` set d - fst ` set b" by (force dest: map_of_SomeD)
  moreover have "finite (fst ` set d - fst ` set b)" by simp
  moreover have "fst ` set d - insert s (fst ` set b) = (fst ` set d - fst ` set b) - {s}" by blast
  ultimately have "card (fst ` set d - insert s (fst ` set b)) < card (fst ` set d - fst ` set b)"
    by (metis card_Diff1_less)
  then show "((d, field m ''parentId'', b @ [(s, m)]), d, i, b)
      \<in> measure (\<lambda>(d, i, b). card (fst ` set d - fst ` set b))" by simp
qed simp

declare branch_loop.simps [simp del]

text \<open>A copy of a message. \<open>set_children\<close> changes a copy that is already in both collections of the
  fork: the dict of messages and the ordered list hold the same object.\<close>

definition copy_message :: "pydict \<Rightarrow> string \<Rightarrow> py \<Rightarrow> pydict" where
  "copy_message m i parent =
     dset ''childrenIds'' (PList []) (dset ''parentId'' parent (dset ''id'' (PStr i) m))"

definition set_children :: "string \<Rightarrow> pydict \<Rightarrow> pydict" where
  "set_children i m = dset ''childrenIds'' (PList [PStr i]) m"

record fork_state =
  fk_messages :: "(string \<times> pydict) list"
  fk_ordered :: "pydict list"
  fk_parent :: "string option"

definition parent_value :: "string option \<Rightarrow> py" where
  "parent_value p = (case p of None \<Rightarrow> PNone | Some i \<Rightarrow> PStr i)"

definition fork_step :: "fork_state \<Rightarrow> string \<times> pydict \<Rightarrow> fork_state" where
  "fork_step s item =
     (case item of (i, m) \<Rightarrow>
        let copied = copy_message m i (parent_value (fk_parent s));
            linked = (case fk_parent s of
                None \<Rightarrow> s
              | Some p \<Rightarrow> s\<lparr>fk_messages := map (\<lambda>(k, c). (k, if k = p then set_children i c else c)) (fk_messages s),
                             fk_ordered := butlast (fk_ordered s) @ [set_children i (last (fk_ordered s))]\<rparr>)
        in \<lparr>fk_messages = dset i copied (fk_messages linked),
            fk_ordered = fk_ordered linked @ [copied], fk_parent = Some i\<rparr>)"

text \<open>The messages of the fork, its current id and the messages in order.\<close>

definition build_fork_history ::
  "pydict \<Rightarrow> string \<Rightarrow> ((string \<times> pydict) list \<times> string \<times> pydict list) result" where
  "build_fork_history messages_map source_message_id =
     (if messages_map = [] then Inl (ValueError ''chat has no messages to fork'')
      else mapR (\<lambda>branch.
          let s = foldl fork_step \<lparr>fk_messages = [], fk_ordered = [], fk_parent = None\<rparr> (rev branch)
          in (fk_messages s, source_message_id, fk_ordered s))
        (branch_loop messages_map (PStr source_message_id) []))"

section \<open>A fork reads back\<close>

text \<open>The fork of a branch, from its root on: each copy points to the one before and lists the one
  after as its only child.\<close>

fun linked_copies :: "string option \<Rightarrow> (string \<times> pydict) list \<Rightarrow> (string \<times> pydict) list" where
  "linked_copies parent [] = []"
| "linked_copies parent [(i, m)] = [(i, copy_message m i (parent_value parent))]"
| "linked_copies parent ((i, m) # (j, n) # rest) =
     (i, set_children j (copy_message m i (parent_value parent))) # linked_copies (Some i) ((j, n) # rest)"

lemma linked_copies_snoc:
  "linked_copies parent (xs @ [(i, m), (j, n)]) =
     butlast (linked_copies parent (xs @ [(i, m)]))
     @ [(i, set_children j (snd (last (linked_copies parent (xs @ [(i, m)]))))),
        (j, copy_message n j (PStr i))]"
proof (induction parent "xs @ [(i, m)]" arbitrary: xs rule: linked_copies.induct)
  case (3 parent k l k' n' rest)
  then obtain ys where ys: "xs = (k, l) # ys" "ys @ [(i, m)] = (k', n') # rest"
    by (cases xs) auto
  then obtain zs where "linked_copies (Some k) (ys @ [(i, m)]) = zs" "zs \<noteq> []"
    by (cases rest) auto
  with 3(1) [of ys] 3(2) ys show ?case
    by (cases ys) (auto simp: butlast_append)
qed (auto simp: parent_value_def)

lemma fst_linked: "map fst (linked_copies parent cs) = map fst cs"
  by (induction parent cs rule: linked_copies.induct) auto

lemma length_linked [simp]: "length (linked_copies parent cs) = length cs"
  using fst_linked [of parent cs] by (metis length_map)

lemma linked_fields:
  assumes "k < length cs"
  shows "dget (snd (linked_copies parent cs ! k)) ''id'' = Some (PStr (fst (cs ! k)))
    \<and> dget (snd (linked_copies parent cs ! k)) ''parentId''
      = Some (parent_value (if k = 0 then parent else Some (fst (cs ! (k - 1)))))"
  using assms
proof (induction parent cs arbitrary: k rule: linked_copies.induct)
  case (2 parent i m)
  then show ?case by (simp add: copy_message_def)
next
  case (3 parent i m j n rest)
  show ?case
  proof (cases k)
    case 0
    then show ?thesis by (simp add: copy_message_def set_children_def)
  next
    case (Suc k')
    with 3 show ?thesis by (cases k') auto
  qed
qed simp

lemma fork_fold:
  "distinct (map fst cs) \<Longrightarrow>
   foldl fork_step \<lparr>fk_messages = [], fk_ordered = [], fk_parent = None\<rparr> cs =
     \<lparr>fk_messages = linked_copies None cs, fk_ordered = map snd (linked_copies None cs),
      fk_parent = (if cs = [] then None else Some (fst (last cs)))\<rparr>"
proof (induction cs rule: rev_induct)
  case (snoc c cs)
  note IH = snoc.IH and dist = snoc.prems
  obtain j n where c: "c = (j, n)" by fastforce
  show ?case
  proof (cases cs rule: rev_cases)
    case Nil
    with c show ?thesis by (simp add: fork_step_def Let_def)
  next
    case (snoc xs b)
    obtain i m where b: "b = (i, m)" by fastforce
    obtain L k x where L: "linked_copies None cs = L @ [(k, x)]"
      using snoc fst_linked [of None cs] by (cases "linked_copies None cs" rule: rev_cases) auto
    have ids: "k = i" "map fst L = map fst xs"
      using fst_linked [of None cs] L snoc b by auto
    have fresh: "j \<notin> fst ` set L" "i \<notin> fst ` set L" "j \<noteq> i"
      using dist ids snoc b c by (auto simp: set_map [symmetric] simp del: set_map)
    have keep: "map (\<lambda>(k, c). (k, if k = i then set_children j c else c)) L = L"
      by (intro map_idI) (use fresh(2) in force)
    have lk: "linked_copies None (cs @ [c]) = L @ [(i, set_children j x), (j, copy_message n j (PStr i))]"
      using linked_copies_snoc [of None xs i m j n] L ids(1) snoc b c by simp
    have eq: "foldl fork_step \<lparr>fk_messages = [], fk_ordered = [], fk_parent = None\<rparr> (cs @ [c])
        = fork_step \<lparr>fk_messages = L @ [(i, x)], fk_ordered = map snd L @ [x], fk_parent = Some i\<rparr> (j, n)"
      using IH dist L ids(1) snoc b c by simp
    show ?thesis
      unfolding eq lk using fresh keep by (simp add: fork_step_def Let_def parent_value_def dset_new c)
  qed
qed simp

lemma linked_lookup:
  assumes "distinct (map fst cs)" and "k < length cs"
  shows "dget (linked_copies None cs) (fst (cs ! k)) = Some (snd (linked_copies None cs ! k))"
proof -
  have "linked_copies None cs ! k \<in> set (linked_copies None cs)" using assms(2) by simp
  moreover have "fst (linked_copies None cs ! k) = fst (cs ! k)"
    using fst_linked [of None cs] assms(2) by (metis length_linked nth_map)
  moreover have "distinct (map fst (linked_copies None cs))" using assms(1) by (simp add: fst_linked)
  ultimately show ?thesis by (metis map_of_is_SomeI prod.collapse)
qed

text \<open>The messages of a fork as values, and the walk over them from the \<open>k\<close>-th up.\<close>

definition as_map :: "(string \<times> pydict) list \<Rightarrow> pydict" where
  "as_map ms = map (\<lambda>(i, m). (i, PDict m)) ms"

lemma dget_as_map: "dget (as_map ms) i = map_option PDict (dget ms i)"
  by (induction ms) (auto simp: as_map_def)

lemma walk_linked:
  assumes "distinct (map fst cs)" and "k < length cs" and "\<forall>(i, m) \<in> set cs. i \<noteq> []"
    and "set visited \<subseteq> PStr ` fst ` set (drop (Suc k) cs)"
  shows "message_loop (as_map (linked_copies None cs)) (PDict (snd (linked_copies None cs ! k))) visited acc
    = Some (Inr (acc @ rev (map (PDict \<circ> snd) (take (Suc k) (linked_copies None cs)))))"
  using assms(2,4)
proof (induction k arbitrary: visited acc)
  case 0
  let ?L = "linked_copies None cs"
  note f = linked_fields [OF 0(1), of None]
  have "truthy (PDict (snd (?L ! 0)))" using f by (cases "snd (?L ! 0)") auto
  moreover have "PStr (fst (cs ! 0)) \<notin> set visited"
    using 0 assms(1) by (cases cs) auto
  moreover have "take (Suc 0) ?L = [?L ! 0]" using 0(1) by (simp add: take_Suc_conv_app_nth)
  ultimately show ?case
    using f by (subst message_loop.simps)
      (simp add: parent_message_def parent_value_def message_loop.simps [of _ PNone])
next
  case (Suc k)
  let ?L = "linked_copies None cs"
  note f = linked_fields [OF Suc.prems(1), of None]
  have k: "k < length cs" using Suc.prems(1) by simp
  have t: "truthy (PDict (snd (?L ! Suc k)))" using f by (cases "snd (?L ! Suc k)") auto
  have "distinct (map fst (drop (Suc k) cs))" using assms(1) by (simp add: drop_map [symmetric])
  then have "fst (cs ! Suc k) \<notin> fst ` set (drop (Suc (Suc k)) cs)"
    using Suc.prems(1) by (simp add: Cons_nth_drop_Suc [symmetric])
  with Suc.prems(2) have new: "PStr (fst (cs ! Suc k)) \<notin> set visited" by auto
  have ne: "fst (cs ! k) \<noteq> []" using assms(3) nth_mem [OF k] by (cases "cs ! k") auto
  have parent: "parent_message (as_map ?L) (PDict (snd (?L ! Suc k))) = Inr (PDict (snd (?L ! k)))"
    using f ne linked_lookup [OF assms(1) k]
    by (simp add: parent_message_def parent_value_def py_lookup_def field_def dget_as_map)
  have "set (PStr (fst (cs ! Suc k)) # visited) \<subseteq> PStr ` fst ` set (drop (Suc k) cs)"
    using Suc.prems by (auto simp: Cons_nth_drop_Suc [symmetric])
  from Suc.IH [OF k this, of "acc @ [PDict (snd (?L ! Suc k))]"] show ?case
    using t new f parent Suc.prems(1) by (subst message_loop.simps) (simp add: take_Suc_conv_app_nth)
qed

text \<open>What a branch is made of.\<close>

lemma branch_loop_props:
  "branch_loop d i b = Inr branch \<Longrightarrow>
   distinct (map fst b) \<Longrightarrow> \<forall>(j, m) \<in> set b. j \<noteq> [] \<and> dget d j = Some (PDict m) \<Longrightarrow>
   distinct (map fst branch) \<and> (\<forall>(j, m) \<in> set branch. j \<noteq> [] \<and> dget d j = Some (PDict m))
   \<and> (\<exists>more. branch = b @ more \<and> (truthy i \<longrightarrow> more \<noteq> [] \<and> PStr (fst (hd more)) = i))"
proof (induction d i b rule: branch_loop.induct)
  case (1 d i b)
  show ?case
  proof (cases "truthy i")
    case False
    with 1 show ?thesis by (subst (asm) (2) branch_loop.simps) auto
  next
    case True
    with "1.prems"(1) obtain j m where j: "hashable i" "i = PStr j" "j \<notin> fst ` set b" "dget d j = Some (PDict m)"
      and rest: "branch_loop d (field m ''parentId'') (b @ [(j, m)]) = Inr branch"
      by (subst (asm) branch_loop.simps) (auto split: if_splits py.splits option.splits)
    have "j \<noteq> []" using True j(2) by simp
    from "1.IH" [OF _ _ j(2,3) j(4) refl rest] True j "1.prems"(2,3) \<open>j \<noteq> []\<close> show ?thesis by auto
  qed
qed

text \<open>The way up from a message of a chat, by the rows: the message itself first, its root last.\<close>

inductive way_to_root :: "pydict \<Rightarrow> py \<Rightarrow> (string \<times> pydict) list \<Rightarrow> bool" for chat where
  top: "\<not> truthy i \<Longrightarrow> way_to_root chat i []"
| up: "j \<noteq> [] \<Longrightarrow> dget chat j = Some (PDict m) \<Longrightarrow> way_to_root chat (field m ''parentId'') way \<Longrightarrow>
    way_to_root chat (PStr j) ((j, m) # way)"

lemma branch_loop_way:
  "branch_loop d i b = Inr branch \<Longrightarrow> \<exists>way. branch = b @ way \<and> way_to_root d i way"
proof (induction d i b rule: branch_loop.induct)
  case (1 d i b)
  show ?case
  proof (cases "truthy i")
    case False
    with 1 show ?thesis by (subst (asm) (2) branch_loop.simps) (auto intro: way_to_root.top)
  next
    case True
    with "1.prems"(1) obtain j m where j: "hashable i" "i = PStr j" "j \<notin> fst ` set b" "dget d j = Some (PDict m)"
      and rest: "branch_loop d (field m ''parentId'') (b @ [(j, m)]) = Inr branch"
      by (subst (asm) branch_loop.simps) (auto split: if_splits py.splits option.splits)
    from "1.IH" [OF _ _ j(2,3) j(4) refl rest] True j obtain way
      where "branch = (b @ [(j, m)]) @ way" "way_to_root d (field m ''parentId'') way" by auto
    with True j show ?thesis by (auto intro: way_to_root.up)
  qed
qed

lemma copied_fields:
  "k < length cs \<Longrightarrow> key \<notin> {''id'', ''parentId'', ''childrenIds''} \<Longrightarrow>
   dget (snd (linked_copies parent cs ! k)) key = dget (snd (cs ! k)) key"
  "k < length cs \<Longrightarrow> dget (snd (linked_copies parent cs ! k)) ''childrenIds'' =
     Some (PList (if Suc k < length cs then [PStr (fst (cs ! Suc k))] else []))"
proof (induction parent cs arbitrary: k rule: linked_copies.induct)
  case (3 parent i m j n rest)
  {
    case 1
    with 3 show ?case by (cases k) (auto simp: copy_message_def set_children_def)
  next
    case 2
    with 3 show ?case by (cases k) (auto simp: copy_message_def set_children_def)
  }
qed (auto simp: copy_message_def)

text \<open>C21: a forked chat reads back as what was forked. Let the branch be the messages of the chat from the root down to
  the forked message, along the parent ids. The fork has one message for each of them, under the same ids and in this order,
  and walking up the fork from its current message ends and gives exactly these, root first. Each has the contents of the
  message it stands for: all its fields but \<open>id\<close>, \<open>parentId\<close> and \<open>childrenIds\<close>, which are its own id, the one before (none at
  the root) and the one after (none at the end).\<close>

theorem fork_reads_back:
  assumes "build_fork_history chat source = Inr (messages, current, ordered)" and "source \<noteq> []"
  shows "get_message_list (as_map messages) (PStr current) = Some (Inr (map PDict ordered)) \<and> map snd messages = ordered \<and>
    (\<exists>branch. way_to_root chat (PStr source) (rev branch) \<and> map fst messages = map fst branch \<and> current = source \<and>
      (\<forall>k < length branch.
        dget (ordered ! k) ''id'' = Some (PStr (fst (branch ! k))) \<and>
        dget (ordered ! k) ''parentId'' = Some (if k = 0 then PNone else PStr (fst (branch ! (k - 1)))) \<and>
        dget (ordered ! k) ''childrenIds'' = Some (PList (if Suc k < length branch then [PStr (fst (branch ! Suc k))] else [])) \<and>
        (\<forall>key. key \<notin> {''id'', ''parentId'', ''childrenIds''} \<longrightarrow> dget (ordered ! k) key = dget (snd (branch ! k)) key)))"
proof -
  obtain branch where branch: "branch_loop chat (PStr source) [] = Inr branch"
    and r: "let s = foldl fork_step \<lparr>fk_messages = [], fk_ordered = [], fk_parent = None\<rparr> (rev branch)
       in (messages, current, ordered) = (fk_messages s, source, fk_ordered s)"
    using assms(1) by (auto simp: build_fork_history_def Let_def split: if_splits)
  from branch_loop_props [OF branch] assms(2)
  have b: "distinct (map fst branch)" "\<forall>(j, m) \<in> set branch. j \<noteq> []" "branch \<noteq> []" "fst (hd branch) = source"
    by auto
  let ?cs = "rev branch" and ?L = "linked_copies None (rev branch)"
  have d: "distinct (map fst ?cs)" using b(1) by (simp add: rev_map [symmetric])
  have out: "messages = ?L" "ordered = map snd ?L" "current = source"
    using r by (simp_all add: fork_fold [OF d] Let_def)
  let ?k = "length branch - 1"
  have k: "?k < length ?cs" "Suc ?k = length ?cs" using b(3) by auto
  have last: "fst (?cs ! ?k) = source"
    using b(3,4) by (simp add: rev_nth hd_conv_nth)
  have walk: "message_loop (as_map ?L) (PDict (snd (?L ! ?k))) [] []
      = Some (Inr (rev (map (PDict \<circ> snd) ?L)))"
    using walk_linked [OF d k(1), of "[]" "[]"] b(2) k(2) by simp
  have Lne: "?L \<noteq> []" using b(3) length_linked [of None ?cs] by (metis length_0_conv length_rev)
  then have ne: "as_map ?L \<noteq> []" "truthy (PDict (snd (?L ! ?k)))"
    using linked_fields [OF k(1), of None] by (auto simp: as_map_def)
  have "get_message_list (as_map ?L) (PStr source) = Some (Inr (map PDict (map snd ?L)))"
    using walk ne linked_lookup [OF d k(1)] last
    by (simp add: get_message_list_def py_lookup_def field_def dget_as_map rev_map)
  moreover have "way_to_root chat (PStr source) (rev ?cs)" using branch_loop_way [OF branch] by simp
  ultimately show ?thesis
    unfolding out using linked_fields copied_fields
    by (intro conjI exI [of _ ?cs]) (simp_all add: fst_linked parent_value_def)
qed

definition demo_chat :: pydict where
  "demo_chat = [(''a'', PDict [(''id'', PStr ''a''), (''parentId'', PNone), (''content'', PStr ''hi'')]),
     (''b'', PDict [(''id'', PStr ''b''), (''parentId'', PStr ''a''), (''childrenIds'', PList [PStr ''c''])]),
     (''c'', PDict [(''id'', PStr ''c''), (''parentId'', PStr ''b'')])]"

definition demo_fork :: "(string \<times> pydict) list" where
  "demo_fork = [(''a'', [(''id'', PStr ''a''), (''parentId'', PNone), (''content'', PStr ''hi''),
       (''childrenIds'', PList [PStr ''b''])]),
     (''b'', [(''id'', PStr ''b''), (''parentId'', PStr ''a''), (''childrenIds'', PList [])])]"

lemma demo_fork_built: "build_fork_history demo_chat ''b'' = Inr (demo_fork, ''b'', map snd demo_fork)"
  by (simp add: build_fork_history_def demo_chat_def demo_fork_def branch_loop.simps [of _ "PStr _"]
      branch_loop.simps [of _ PNone] field_def fork_step_def copy_message_def set_children_def
      parent_value_def Let_def)

theorem fork_reads_back_witness:
  "get_message_list (as_map demo_fork) (PStr ''b'') = Some (Inr (map (PDict \<circ> snd) demo_fork))"
  using fork_reads_back [OF demo_fork_built] by simp

section \<open>Whether the walk ends\<close>

text \<open>The ids of the messages of a chat; a value that is no dict stands for no id.\<close>

definition message_id_of :: "py \<Rightarrow> py" where
  "message_id_of v = (case v of PDict m \<Rightarrow> field m ''id'' | _ \<Rightarrow> PNone)"

definition all_have_ids :: "pydict \<Rightarrow> bool" where
  "all_have_ids d = (\<forall>v \<in> snd ` set d. truthy v \<longrightarrow> message_id_of v \<noteq> PNone \<or> \<not> is_dict v)"

lemma parent_message_in:
  assumes "parent_message d m = Inr v" and "truthy v"
  shows "v \<in> snd ` set d"
proof -
  obtain p where p: "py_lookup d p = Inr v" using assms by (auto simp: parent_message_def split: if_splits)
  then obtain i where "dget d i = Some v"
    using assms(2) by (auto simp: py_lookup_def field_def split: py.splits option.splits if_splits)
  then show ?thesis by (metis map_of_SomeD snd_conv image_eqI)
qed

lemma message_loop_ends:
  assumes "all_have_ids d"
  shows "(truthy current \<longrightarrow> current \<in> snd ` set d) \<Longrightarrow>
    \<exists>r. message_loop d current visited acc = Some r"
proof (induction "card (message_id_of ` snd ` set d - set visited)" arbitrary: current visited acc rule: less_induct)
  case less
  let ?ids = "message_id_of ` snd ` set d"
  show ?case
  proof (cases "truthy current \<and> is_dict current")
    case False
    then show ?thesis by (subst message_loop.simps) (cases current; auto)
  next
    case True
    then obtain m where m: "current = PDict m" by (cases current) auto
    define mid where "mid = field m ''id''"
    have get: "py_get current ''id'' = Inr mid" by (simp add: m mid_def field_def)
    have mid: "mid \<noteq> PNone" "mid \<in> ?ids"
      using less.prems assms True m unfolding all_have_ids_def mid_def
      by (force simp: message_id_of_def)+
    show ?thesis
    proof (cases "hashable mid \<and> mid \<notin> set visited")
      case False
      then show ?thesis using True get by (subst message_loop.simps) auto
    next
      case new: True
      show ?thesis
      proof (cases "parent_message d current")
        case (Inl e)
        then show ?thesis using True get new by (subst message_loop.simps) auto
      next
        case (Inr parent)
        have "?ids - set (mid # visited) = (?ids - set visited) - {mid}" by auto
        then have "card (?ids - set (mid # visited)) < card (?ids - set visited)"
          using mid(2) new by (simp only:) (intro card_Diff1_less; simp)
        from less.hyps [OF this, of parent] parent_message_in [OF Inr]
        obtain r where "message_loop d parent (mid # visited) (acc @ [current]) = Some r" by blast
        then show ?thesis using True get new mid(1) Inr by (subst message_loop.simps) auto
      qed
    qed
  qed
qed

text \<open>Reading a branch ends: in a chat whose messages all have an id, the walk to the root
  returns, also when the parent links form a cycle.\<close>

theorem get_message_list_ends:
  assumes "all_have_ids d"
  shows "\<exists>r. get_message_list d i = Some r"
proof (cases "py_lookup d i")
  case (Inr current)
  then have "truthy current \<Longrightarrow> current \<in> snd ` set d"
    by (auto simp: py_lookup_def field_def split: py.splits option.splits if_splits
        dest!: map_of_SomeD intro: rev_image_eqI)
  with message_loop_ends [OF assms, of current "[]" "[]"] Inr show ?thesis
    by (auto simp: get_message_list_def)
qed (simp add: get_message_list_def)

definition demo_cycle :: pydict where
  "demo_cycle = [(''a'', PDict [(''id'', PStr ''a''), (''parentId'', PStr ''b'')]),
     (''b'', PDict [(''id'', PStr ''b''), (''parentId'', PStr ''a'')])]"

theorem get_message_list_ends_witness: "\<exists>r. get_message_list demo_cycle (PStr ''b'') = Some r"
  by (rule get_message_list_ends) (simp add: all_have_ids_def demo_cycle_def message_id_of_def field_def)

text \<open>A message without an id is never taken for visited: one that is its own parent keeps the walk
  going for ever.\<close>

definition demo_orphan :: pydict where
  "demo_orphan = [(''a'', PDict [(''parentId'', PStr ''a'')])]"

theorem message_without_id_walks_for_ever: "get_message_list demo_orphan (PStr ''a'') = None"
proof -
  let ?m = "PDict [(''parentId'', PStr ''a'')]"
  have "d = demo_orphan \<and> current = ?m \<and> visited = [] \<longrightarrow> False"
    if "message_loop d current visited acc = Some r" for d current visited acc r
    by (rule message_loop.raw_induct [where P = "\<lambda>d current visited acc r.
          d = demo_orphan \<and> current = ?m \<and> visited = [] \<longrightarrow> False", OF _ that])
       (auto simp: demo_orphan_def parent_message_def py_lookup_def field_def, blast)
  then have "message_loop demo_orphan ?m [] [] = None"
    by (metis option.exhaust)
  then show ?thesis
    by (simp add: get_message_list_def py_lookup_def field_def demo_orphan_def)
qed

end
