(* ===== verification/Host_Filter.thy ===== *)
theory Host_Filter
  imports Py_Prelude
begin

text \<open>
  The allow and block lists of \<open>utils/misc.py\<close>: \<open>get_allow_block_lists\<close>, \<open>is_string_allowed\<close>
  for tool names and \<open>is_host_allowed\<close> for the hosts that the server fetches from. An entry of a
  list may be \<open>None\<close>. Host names are strings; the comparison with a pattern is on DNS labels.
\<close>

section \<open>The lists\<close>

definition quote_char :: "char \<Rightarrow> bool" where
  "quote_char c = (c = CHR 0x22 \<or> c = CHR 0x27)"

definition strip_filter_entry :: "string option \<Rightarrow> string" where
  "strip_filter_entry entry =
     str_strip (strip_by quote_char (str_strip (case entry of None \<Rightarrow> [] | Some e \<Rightarrow> e)))"

fun get_allow_block_lists :: "string option list \<Rightarrow> string list \<times> string list" where
  "get_allow_block_lists [] = ([], [])"
| "get_allow_block_lists (raw # entries) =
     (let entry = strip_filter_entry raw;
          is_blocked = starts_with entry ''!'';
          entry' = (if is_blocked then strip_filter_entry (Some (drop 1 entry)) else entry)
      in case get_allow_block_lists entries of (allow, block) \<Rightarrow>
           if entry' = [] then (allow, block)
           else if is_blocked then (allow, entry' # block)
           else (entry' # allow, block))"

text \<open>One string, or several.\<close>

datatype target = One string | Many "string list"

fun targets :: "target \<Rightarrow> string list" where
  "targets (One s) = [s]"
| "targets (Many ss) = ss"

definition is_string_allowed :: "target \<Rightarrow> string option list \<Rightarrow> bool" where
  "is_string_allowed t filter_list =
     (if filter_list = [] then True
      else (case get_allow_block_lists filter_list of (allow, block) \<Rightarrow>
        if allow \<noteq> [] \<and> \<not> list_ex (\<lambda>s. list_ex (\<lambda>a. ends_with s a) allow) (targets t) then False
        else if list_ex (\<lambda>s. list_ex (\<lambda>b. ends_with s b) block) (targets t) then False
        else True))"

section \<open>Hosts\<close>

definition normal_host :: "string \<Rightarrow> string" where
  "normal_host h = rstrip_by (\<lambda>c. c = CHR ''.'') (str_lower (str_strip h))"

definition host_matches_pattern :: "string \<Rightarrow> string \<Rightarrow> bool" where
  "host_matches_pattern host pattern =
     (let h = normal_host host; p = normal_host pattern in
      if h = [] \<or> p = [] then False else h = p \<or> ends_with h (''.'' @ p))"

definition is_host_allowed :: "target \<Rightarrow> string option list \<Rightarrow> bool" where
  "is_host_allowed t filter_list =
     (if filter_list = [] then True
      else (case get_allow_block_lists filter_list of (allow, block) \<Rightarrow>
        if allow \<noteq> [] \<and> \<not> list_ex (\<lambda>h. list_ex (\<lambda>a. host_matches_pattern h a) allow) (targets t) then False
        else if list_ex (\<lambda>h. list_ex (\<lambda>b. host_matches_pattern h b) block) (targets t) then False
        else True))"

section \<open>Label boundaries\<close>

text \<open>A host is a domain or lies below it: the labels of the domain end the labels of the host.\<close>

definition host_labels :: "string \<Rightarrow> string list" where
  "host_labels h = split_on (CHR ''.'') h"

definition within_domain :: "string \<Rightarrow> string \<Rightarrow> bool" where
  "within_domain host domain =
     (normal_host host \<noteq> [] \<and> normal_host domain \<noteq> []
      \<and> suffix (host_labels (normal_host domain)) (host_labels (normal_host host)))"

lemma split_on_append: "split_on sep (a @ sep # b) = split_on sep a @ split_on sep b"
  by (induction a) (auto split: list.splits)

lemma str_join_append: "xs \<noteq> [] \<Longrightarrow> ys \<noteq> [] \<Longrightarrow> str_join sep (xs @ ys) = str_join sep xs @ sep @ str_join sep ys"
proof (induction sep xs rule: str_join.induct)
  case (2 sep w)
  then show ?case by (cases ys) auto
qed auto

lemma suffix_labels: "suffix (split_on sep p) (split_on sep h) \<longleftrightarrow> h = p \<or> suffix (sep # p) h"
proof
  assume "suffix (split_on sep p) (split_on sep h)"
  then obtain xs where xs: "split_on sep h = xs @ split_on sep p" by (auto simp: suffix_def)
  have "h = str_join [sep] (xs @ split_on sep p)" by (simp add: xs [symmetric] join_split)
  then show "h = p \<or> suffix (sep # p) h"
    by (cases "xs = []") (auto simp: join_split str_join_append suffix_def)
next
  assume "h = p \<or> suffix (sep # p) h"
  then show "suffix (split_on sep p) (split_on sep h)"
    by (auto simp: split_on_append suffix_def)
qed

lemma host_matches_within: "host_matches_pattern h p \<longleftrightarrow> within_domain h p"
  by (simp add: host_matches_pattern_def within_domain_def host_labels_def suffix_labels Let_def)

text \<open>The entries of a list that allow, and those that block.\<close>

definition allow_entry :: "string option \<Rightarrow> string option" where
  "allow_entry raw = (let e = strip_filter_entry raw in if e = [] \<or> starts_with e ''!'' then None else Some e)"

definition block_entry :: "string option \<Rightarrow> string option" where
  "block_entry raw = (let e = strip_filter_entry raw; b = strip_filter_entry (Some (drop 1 e)) in
     if starts_with e ''!'' \<and> b \<noteq> [] then Some b else None)"

lemma allow_block_entries:
  "set (fst (get_allow_block_lists xs)) = {a. \<exists>raw \<in> set xs. allow_entry raw = Some a}"
  "set (snd (get_allow_block_lists xs)) = {b. \<exists>raw \<in> set xs. block_entry raw = Some b}"
  by (induction xs) (auto simp: allow_entry_def block_entry_def Let_def split: prod.splits if_splits)

text \<open>C23: The host filter respects label boundaries and blocking wins: with a non-empty list, hosts pass
  exactly when none of them lies within a blocked domain and, if some entry allows, one of them lies
  within an allowed domain; a host lies within a domain when the labels of the domain end its own.\<close>

theorem host_filter_on_labels:
  "is_host_allowed t filter_list \<longleftrightarrow> filter_list = [] \<or>
     (\<not> (\<exists>h \<in> set (targets t). \<exists>raw \<in> set filter_list. \<exists>b. block_entry raw = Some b \<and> within_domain h b) \<and>
      ((\<forall>raw \<in> set filter_list. allow_entry raw = None) \<or>
       (\<exists>h \<in> set (targets t). \<exists>raw \<in> set filter_list. \<exists>a. allow_entry raw = Some a \<and> within_domain h a)))"
proof -
  obtain allow block where ab: "get_allow_block_lists filter_list = (allow, block)" by fastforce
  have a: "set allow = {a. \<exists>raw \<in> set filter_list. allow_entry raw = Some a}"
    and b: "set block = {b. \<exists>raw \<in> set filter_list. block_entry raw = Some b}"
    using allow_block_entries [of filter_list] ab by simp_all
  have "allow = [] \<longleftrightarrow> (\<forall>raw \<in> set filter_list. allow_entry raw = None)"
  proof
    assume "allow = []"
    with a have "\<nexists>x. \<exists>raw \<in> set filter_list. allow_entry raw = Some x" by (auto simp: set_eq_iff)
    then show "\<forall>raw \<in> set filter_list. allow_entry raw = None" by (metis option.exhaust)
  next
    assume "\<forall>raw \<in> set filter_list. allow_entry raw = None"
    with a have "set allow = {}" by auto
    then show "allow = []" by simp
  qed
  moreover have "list_ex (\<lambda>h. list_ex (\<lambda>x. host_matches_pattern h x) allow) (targets t) \<longleftrightarrow>
      (\<exists>h \<in> set (targets t). \<exists>raw \<in> set filter_list. \<exists>x. allow_entry raw = Some x \<and> within_domain h x)"
    by (auto simp: list_ex_iff host_matches_within a)
  moreover have "list_ex (\<lambda>h. list_ex (\<lambda>x. host_matches_pattern h x) block) (targets t) \<longleftrightarrow>
      (\<exists>h \<in> set (targets t). \<exists>raw \<in> set filter_list. \<exists>x. block_entry raw = Some x \<and> within_domain h x)"
    by (auto simp: list_ex_iff host_matches_within b)
  ultimately show ?thesis by (simp add: is_host_allowed_def ab)
qed

theorem host_filter_on_labels_witness:
  "is_host_allowed (One ''API.corp.com.'') [Some ''corp.com'']
   \<and> \<not> is_host_allowed (One ''evilcorp.com'') [Some ''corp.com'']
   \<and> \<not> is_host_allowed (Many [''api.corp.com'', ''10.0.0.1'']) [Some ''corp.com'', Some ''!10.0.0.1'']"
proof -
  have e: "allow_entry (Some ''corp.com'') = Some ''corp.com''" "block_entry (Some ''corp.com'') = None"
    "block_entry (Some ''!10.0.0.1'') = Some ''10.0.0.1''"
    by code_simp+
  have w: "within_domain ''API.corp.com.'' ''corp.com''" "\<not> within_domain ''evilcorp.com'' ''corp.com''"
    "within_domain ''10.0.0.1'' ''10.0.0.1''"
    by code_simp+
  show ?thesis
    unfolding host_filter_on_labels using e w by simp
qed

end
