(* ===== verification/Mcp_Package.thy ===== *)
theory Mcp_Package
  imports Py_Regex "HOL-Library.Char_ord" "HOL-Library.List_Lexorder" "HOL-Library.Multiset"
begin

text \<open>
  The packages of the managed MCP runtime: the schemas of \<open>mcp_runtime/schemas.py\<close> with their
  validators, \<open>package_digest\<close>, \<open>resolve_package\<close> and \<open>_validate_environment\<close> of
  \<open>mcp_runtime/registry.py\<close>. The file system, SHA-256, the YAML parser and pydantic's reading of
  typed data are the record \<open>host\<close>: what the code asks of them, as functions.
\<close>

section \<open>Schemas\<close>

record environment_setting =
  es_default :: "string option"
  es_description :: string
  es_secret :: bool

record runtime_spec =
  rt_type :: string
  command :: string
  args :: "string list"
  working_directory :: string

record limits_spec =
  startup_timeout_seconds :: rat
  call_timeout_seconds :: rat
  memory_mb :: int
  restart :: string
  max_restarts :: int

record security_spec =
  profile :: string
  filesystem_roots :: "string list"
  read_only :: bool
  root_write :: bool

record mcp_manifest =
  schema_version :: int
  mf_id :: string
  mf_name :: string
  mf_description :: string
  mf_version :: string
  runtime :: runtime_spec
  transport :: string
  mf_environment :: "(string \<times> environment_setting) list"
  limits :: limits_spec
  security :: security_spec

text \<open>\<open>SERVER_ID_RE\<close> and the pattern of environment names.\<close>

definition id_first :: "char \<Rightarrow> bool" where
  "id_first c = (97 \<le> code c \<and> code c \<le> 122 \<or> is_decimal c)"

definition id_rest :: "char \<Rightarrow> bool" where
  "id_rest c = (id_first c \<or> c = CHR ''.'' \<or> c = CHR ''_'' \<or> c = CHR ''-'')"

text \<open>\<open>r{0,n}\<close>: up to \<open>n\<close> repetitions, greedy.\<close>

fun rx_upto :: "nat \<Rightarrow> rx \<Rightarrow> rx" where
  "rx_upto 0 r = REps"
| "rx_upto (Suc n) r = RAlt (RSeq r (rx_upto n r)) REps"

definition server_id_rx :: rx where
  "server_id_rx = rx_list [RBegin, RCls id_first, rx_upto 63 (RCls id_rest), REnd]"

definition env_first :: "char \<Rightarrow> bool" where
  "env_first c = (65 \<le> code c \<and> code c \<le> 90 \<or> c = CHR ''_'')"

definition env_rest :: "char \<Rightarrow> bool" where
  "env_rest c = (env_first c \<or> is_decimal c)"

definition env_name_rx :: rx where
  "env_name_rx = RSeq (RCls env_first) (RStar (RCls env_rest))"

section \<open>Validators\<close>

definition command_is_a_program :: "string \<Rightarrow> bool" where
  "command_is_a_program v = (v \<noteq> [] \<and> \<not> list_ex py_space v)"

definition limits_ok :: "limits_spec \<Rightarrow> bool" where
  "limits_ok l =
     (0 < startup_timeout_seconds l \<and> startup_timeout_seconds l \<le> 300
      \<and> 0 < call_timeout_seconds l \<and> call_timeout_seconds l \<le> 3600
      \<and> 32 \<le> memory_mb l \<and> memory_mb l \<le> 65536
      \<and> (restart l = ''never'' \<or> restart l = ''on-failure'')
      \<and> 0 \<le> max_restarts l \<and> max_restarts l \<le> 20)"

definition validate_capabilities :: "security_spec \<Rightarrow> unit result" where
  "validate_capabilities s =
     (if root_write s \<and> (profile s \<noteq> ''system-admin'' \<or> read_only s)
      then Inl (ValueError ''root_write requires system-admin with read_only=false'')
      else if profile s = ''system-admin'' \<and> \<not> read_only s \<and> \<not> root_write s
      then Inl (ValueError ''writable system-admin requires root_write=true'')
      else Inr ())"

definition security_ok :: "security_spec \<Rightarrow> bool" where
  "security_ok s = ((profile s = ''confined'' \<or> profile s = ''system-admin'')
                    \<and> validate_capabilities s = Inr ())"

definition valid_id :: "string \<Rightarrow> bool" where
  "valid_id v = rx_fullmatch server_id_rx v"

definition valid_environment_names :: "(string \<times> environment_setting) list \<Rightarrow> bool" where
  "valid_environment_names d = list_all (\<lambda>name. rx_fullmatch env_name_rx name) (dkeys d)"

definition manifest_ok :: "mcp_manifest \<Rightarrow> bool" where
  "manifest_ok m =
     (schema_version m = 1 \<and> valid_id (mf_id m)
      \<and> rt_type (runtime m) = ''python'' \<and> command_is_a_program (command (runtime m))
      \<and> transport m = ''stdio''
      \<and> valid_environment_names (mf_environment m)
      \<and> limits_ok (limits m) \<and> security_ok (security m))"

record mcp_grant =
  g_principal_type :: string
  g_principal_id :: string
  g_permission :: string

definition grant_ok :: "mcp_grant \<Rightarrow> bool" where
  "grant_ok g = ((g_principal_type g = ''user'' \<or> g_principal_type g = ''group'')
                 \<and> g_principal_id g \<noteq> [] \<and> g_permission g = ''read'')"

section \<open>Paths\<close>

text \<open>A \<open>PurePosixPath\<close>: its root (empty for a relative path) and its parts.\<close>

record pure_path =
  proot :: string
  parts :: "string list"

definition path_of :: "string \<Rightarrow> pure_path" where
  "path_of s =
     \<lparr>proot = (if \<not> starts_with s ''/'' then []
               else if starts_with s ''//'' \<and> \<not> starts_with s ''///'' then ''//'' else ''/''),
      parts = filter (\<lambda>w. w \<noteq> [] \<and> w \<noteq> ''.'') (split_on (CHR ''/'') s)\<rparr>"

definition posix :: "pure_path \<Rightarrow> string" where
  "posix p = (if proot p = [] \<and> parts p = [] then ''.'' else proot p @ str_join ''/'' (parts p))"

definition is_absolute :: "pure_path \<Rightarrow> bool" where
  "is_absolute p = (proot p \<noteq> [])"

definition path_join :: "pure_path \<Rightarrow> pure_path \<Rightarrow> pure_path" where
  "path_join a b = (if is_absolute b then b else a\<lparr>parts := parts a @ parts b\<rparr>)"

definition is_relative_to :: "pure_path \<Rightarrow> pure_path \<Rightarrow> bool" where
  "is_relative_to p r = (proot p = proot r \<and> prefix (parts r) (parts p))"

text \<open>What \<open>rglob('*')\<close> lists: the parts below the package, and the kind of the entry.\<close>

datatype entry_kind = Symlink | File string | Other

type_synonym listing = "(string list \<times> entry_kind) list"

record host =
  expanduser :: "pure_path \<Rightarrow> pure_path"
  resolve :: "pure_path \<Rightarrow> pure_path"
  is_dir :: "pure_path \<Rightarrow> bool"
  rglob :: "pure_path \<Rightarrow> listing"
  iterdir :: "pure_path \<Rightarrow> pure_path list"
  read_text :: "pure_path \<Rightarrow> string option"
  yaml_safe_load :: "string \<Rightarrow> py option"
  model_validate :: "pydict \<Rightarrow> mcp_manifest option"
  sha256_hex :: "string \<Rightarrow> string"

text \<open>\<open>is_file\<close> follows links, so a link to a file counts: the text can be read.\<close>

definition is_file :: "host \<Rightarrow> pure_path \<Rightarrow> bool" where
  "is_file H p = (read_text H p \<noteq> None)"

section \<open>The digest\<close>

text \<open>\<open>str.encode()\<close> for code points below 256.\<close>

definition utf8_char :: "char \<Rightarrow> string" where
  "utf8_char c = (if code c < 128 then [c] else [char_of (192 + code c div 64), char_of (128 + code c mod 64)])"

definition encode :: "string \<Rightarrow> string" where
  "encode s = concat (map utf8_char s)"

definition excluded_directories :: "string list" where
  "excluded_directories = [''.git'', ''.venv'', ''__pycache__'', ''data'', ''sandbox'']"

definition excluded :: "string list \<Rightarrow> bool" where
  "excluded rel = list_ex (\<lambda>part. part \<in> set excluded_directories) rel"

definition as_posix :: "string list \<Rightarrow> string" where
  "as_posix rel = str_join ''/'' rel"

fun digest_files :: "listing \<Rightarrow> (string list \<times> string) list result" where
  "digest_files [] = Inr []"
| "digest_files ((rel, kind) # es) =
     (if excluded rel then digest_files es
      else case kind of
          Symlink \<Rightarrow> Inl (RegistryError (''package source may not contain symlinks: '' @ as_posix rel))
        | File bytes \<Rightarrow> mapR ((#) (rel, bytes)) (digest_files es)
        | Other \<Rightarrow> digest_files es)"

definition digest_input :: "(string list \<times> string) list \<Rightarrow> string" where
  "digest_input files =
     concat (map (\<lambda>(rel, bytes). encode (as_posix rel) @ [CHR 0x00] @ bytes)
                 (sort_key (as_posix \<circ> fst) files))"

definition package_digest :: "host \<Rightarrow> pure_path \<Rightarrow> string result" where
  "package_digest H package =
     mapR (\<lambda>files. sha256_hex H (digest_input files)) (digest_files (rglob H package))"

section \<open>Packages\<close>

definition load_manifest :: "host \<Rightarrow> pure_path \<Rightarrow> mcp_manifest result" where
  "load_manifest H path =
     (case read_text H path of
        None \<Rightarrow> Inl (ValueError ''cannot read manifest'')
      | Some t \<Rightarrow> (case yaml_safe_load H t of
          None \<Rightarrow> Inl (ValueError ''cannot read manifest'')
        | Some (PDict d) \<Rightarrow> (case model_validate H d of
            None \<Rightarrow> Inl (ValueError ''validation error'')
          | Some m \<Rightarrow> if manifest_ok m then Inr m else Inl (ValueError ''validation error''))
        | Some v \<Rightarrow> Inl (ValueError ''manifest must contain a YAML object'')))"

definition required_files :: "string list" where
  "required_files = [''mcp.yaml'', ''pyproject.toml'', ''uv.lock'']"

definition resolve_package :: "host \<Rightarrow> pure_path list \<Rightarrow> string \<Rightarrow> pure_path result" where
  "resolve_package H package_roots value =
     (let candidate = resolve H (expanduser H (path_of value)) in
      if \<not> list_ex (\<lambda>r. candidate = r \<or> is_relative_to candidate r) package_roots
      then Inl (RegistryError ''package path is outside MANAGED_MCP_PACKAGE_ROOTS'')
      else if \<not> is_dir H candidate then Inl (RegistryError ''package path is not a directory'')
      else case find (\<lambda>required. \<not> is_file H (path_join candidate (path_of required))) required_files of
          Some required \<Rightarrow> Inl (RegistryError (''package is missing '' @ required))
        | None \<Rightarrow> mapR (\<lambda>_. candidate) (package_digest H candidate))"

text \<open>\<open>', '.join(sorted(names))\<close> for a set of names.\<close>

definition name_list :: "string list \<Rightarrow> string" where
  "name_list names = str_join '', '' (sort (remdups names))"

text \<open>A path of the configuration, relative paths below the package.\<close>

definition resolve_below :: "host \<Rightarrow> pure_path \<Rightarrow> string \<Rightarrow> pure_path" where
  "resolve_below H package value = resolve H (path_join package (path_of value))"

definition check_filesystem_root ::
    "host \<Rightarrow> mcp_manifest \<Rightarrow> pure_path \<Rightarrow> (string \<times> string) list \<Rightarrow> unit result" where
  "check_filesystem_root H manifest package environment =
     (case (filesystem_roots (security manifest), dget (mf_environment manifest) ''MCP_FILESYSTEM_ROOT'') of
        (_ # _, Some definition) \<Rightarrow>
          (case (case dget environment ''MCP_FILESYSTEM_ROOT'' of
                   Some v \<Rightarrow> Some v | None \<Rightarrow> es_default definition) of
             Some (c # cs) \<Rightarrow>
               (let configured = resolve_below H package (c # cs);
                    roots = map (resolve_below H package) (filesystem_roots (security manifest))
                in if \<not> list_ex (\<lambda>r. configured = r \<or> is_relative_to configured r) roots
                   then Inl (RegistryError ''MCP_FILESYSTEM_ROOT is outside manifest filesystem_roots'')
                   else Inr ())
           | _ \<Rightarrow> Inr ())
      | _ \<Rightarrow> Inr ())"

definition validate_environment ::
    "host \<Rightarrow> mcp_manifest \<Rightarrow> pure_path \<Rightarrow> (string \<times> string) list \<Rightarrow> (string \<times> string) list \<Rightarrow> unit result" where
  "validate_environment H manifest package environment secret_environment =
     (let definitions = mf_environment manifest;
          unknown = filter (\<lambda>n. n \<notin> set (dkeys definitions)) (dkeys environment @ dkeys secret_environment);
          overlap = filter (\<lambda>n. n \<in> set (dkeys secret_environment)) (dkeys environment)
      in if unknown \<noteq> [] then Inl (RegistryError (''undeclared environment variables: '' @ name_list unknown))
         else if overlap \<noteq> [] then Inl (RegistryError
           (''environment variables cannot be both regular and secret: '' @ name_list overlap))
         else case find (\<lambda>(name, d). es_secret d \<and> name \<in> set (dkeys environment)) definitions of
             Some (name, d) \<Rightarrow> Inl (RegistryError (name @ '' must be supplied as a secret environment reference''))
           | None \<Rightarrow> check_filesystem_root H manifest package environment)"

section \<open>Lemmas\<close>

text \<open>A server id has between 1 and 64 characters, the first a letter or a digit.\<close>

lemma rx_upto_cls:
  "rx_rel (rx_upto n (RCls p)) s i j \<longleftrightarrow>
     i \<le> j \<and> j \<le> i + n \<and> (i < j \<longrightarrow> j \<le> length s) \<and> (\<forall>k. i \<le> k \<and> k < j \<longrightarrow> p (s ! k))"
proof (induction n arbitrary: i)
  case 0
  then show ?case by (auto simp: rx_rel_simps)
next
  case (Suc n)
  have split: "(\<forall>k. i \<le> k \<and> k < j \<longrightarrow> p (s ! k)) \<longleftrightarrow>
      p (s ! i) \<and> (\<forall>k. Suc i \<le> k \<and> k < j \<longrightarrow> p (s ! k))" if "i < j"
    using that by (metis Suc_leI Suc_le_eq le_eq_less_or_eq)
  show ?case
  proof (cases "i < j")
    case True
    then show ?thesis by (auto simp: rx_rel_simps Suc split)
  next
    case False
    then show ?thesis by (auto simp: rx_rel_simps Suc)
  qed
qed

lemma valid_id_iff:
  "valid_id v \<longleftrightarrow> (\<exists>c cs. v = c # cs \<and> id_first c \<and> length cs \<le> 63 \<and> (\<forall>d \<in> set cs. id_rest d))"
proof -
  have "valid_id v \<longleftrightarrow> v \<noteq> [] \<and> id_first (v ! 0) \<and> length v \<le> 64 \<and> (\<forall>k. 1 \<le> k \<and> k < length v \<longrightarrow> id_rest (v ! k))"
    by (cases v) (auto simp: valid_id_def rx_fullmatch_iff server_id_rx_def rx_rel_simps rx_upto_cls at_end_def)
  also have "\<dots> \<longleftrightarrow> (\<exists>c cs. v = c # cs \<and> id_first c \<and> length cs \<le> 63 \<and> (\<forall>d \<in> set cs. id_rest d))"
  proof (cases v)
    case (Cons c cs)
    have "(\<forall>k. 1 \<le> k \<and> k < length v \<longrightarrow> id_rest (v ! k)) \<longleftrightarrow> (\<forall>k < length cs. id_rest (cs ! k))"
      unfolding Cons by (metis One_nat_def Suc_le_eq Suc_less_eq length_Cons nth_Cons_Suc zero_less_Suc less_Suc_eq_0_disj not_less_zero)
    then show ?thesis unfolding Cons by (auto simp: all_set_conv_all_nth)
  qed simp
  finally show ?thesis .
qed

text \<open>The order in which the file system lists the files does not matter.\<close>

lemma digest_files_mset:
  "mset es = mset es' \<Longrightarrow> digest_files es = Inr fs \<Longrightarrow> \<exists>fs'. digest_files es' = Inr fs' \<and> mset fs' = mset fs"
proof -
  let ?keep = "\<lambda>(rel, kind). \<not> excluded rel \<and> kind \<noteq> Other"
  have ok: "(\<exists>fs. digest_files es = Inr fs) \<longleftrightarrow> (\<forall>(rel, kind) \<in> set es. kind = Symlink \<longrightarrow> excluded rel)" for es
    by (induction es rule: digest_files.induct) (auto split: entry_kind.splits)
  have files: "digest_files es = Inr fs \<Longrightarrow>
      fs = map (\<lambda>(rel, kind). (rel, case kind of File b \<Rightarrow> b | _ \<Rightarrow> [])) (filter ?keep es)" for es fs
    by (induction es arbitrary: fs rule: digest_files.induct) (auto split: entry_kind.splits if_splits)
  assume m: "mset es = mset es'" and d: "digest_files es = Inr fs"
  from m have "set es = set es'" by (rule mset_eq_setD)
  with ok [of es] ok [of es'] d obtain fs' where d': "digest_files es' = Inr fs'" by blast
  moreover from m files [OF d] files [OF d'] have "mset fs' = mset fs" by simp
  ultimately show ?thesis by blast
qed

lemma digest_input_mset:
  assumes "mset fs = mset fs'" and "inj_on (as_posix \<circ> fst) (set fs)"
  shows "digest_input fs = digest_input fs'"
proof -
  have "sort_key (as_posix \<circ> fst) fs = sort_key (as_posix \<circ> fst) fs'"
    by (rule sort_key_inj_key_eq) (use assms in simp_all)
  then show ?thesis by (simp add: digest_input_def)
qed

text \<open>What a validated environment guarantees.\<close>

definition environment_ok :: "mcp_manifest \<Rightarrow> (string \<times> string) list \<Rightarrow> (string \<times> string) list \<Rightarrow> bool" where
  "environment_ok manifest environment secret_environment \<longleftrightarrow>
     (\<forall>n \<in> fst ` set environment \<union> fst ` set secret_environment. n \<in> fst ` set (mf_environment manifest))
     \<and> fst ` set environment \<inter> fst ` set secret_environment = {}
     \<and> (\<forall>(n, d) \<in> set (mf_environment manifest). es_secret d \<longrightarrow> n \<notin> fst ` set environment)"

lemma validate_environment_ok:
  "validate_environment H manifest package env senv = Inr () \<longleftrightarrow>
     environment_ok manifest env senv \<and> check_filesystem_root H manifest package env = Inr ()"
  by (auto simp: validate_environment_def environment_ok_def Let_def filter_empty_conv find_None
      split: option.splits if_splits dest!: find_SomeD)

lemma resolve_package_below:
  "resolve_package H package_roots value = Inr p \<Longrightarrow>
     (\<exists>r \<in> set package_roots. p = r \<or> is_relative_to p r) \<and> is_dir H p
     \<and> (\<exists>g. package_digest H p = Inr g)"
  by (auto simp: resolve_package_def Let_def list_ex_iff split: if_splits option.splits)

text \<open>
  The digest does not delimit the files: the end of one file and the name of the next can be
  exchanged. Both packages below have the same digest, whatever the hash function.
\<close>

theorem digest_does_not_delimit_files:
  "digest_input [([''a''], ''x''), ([''b''], ''y'')] = digest_input [([''a''], ''xb'' @ [CHR 0x00] @ ''y'')]"
  by (simp add: digest_input_def as_posix_def encode_def utf8_char_def code_def)

end
