(* ===== verification/Mcp_Registry.thy ===== *)
theory Mcp_Registry
  imports Mcp_Package
begin

text \<open>
  \<open>JSONRegistry\<close> of \<open>mcp_runtime/registry.py\<close>: the document in memory, the registry file and its
  backup on disk, and the operations that \<open>_lock\<close> makes atomic. A write goes through the states
  that \<open>write_trace\<close> lists; an exception or a crash can stop it in any of them. How a document
  is printed and read is the pair \<open>model_dump_json\<close>, \<open>model_validate_json\<close> of \<open>codec\<close>; the
  texts are lists over an arbitrary type of bytes, which the code never looks into.
\<close>

section \<open>Documents\<close>

record managed_server =
  ms_id :: string
  package_path :: string
  digest :: string
  manifest :: mcp_manifest
  environment :: "(string \<times> string) list"
  secret_environment :: "(string \<times> string) list"
  access_grants :: "mcp_grant list"
  enabled :: bool
  created_by :: string
  created_at :: int
  updated_at :: int

record registry_document =
  doc_schema_version :: int
  revision :: int
  servers :: "(string \<times> managed_server) list"

definition empty_document :: registry_document where
  "empty_document = \<lparr>doc_schema_version = 1, revision = 0, servers = []\<rparr>"

record server_create =
  c_package_path :: string
  c_environment :: "(string \<times> string) list"
  c_secret_environment :: "(string \<times> string) list"
  c_access_grants :: "mcp_grant list"
  c_enabled :: bool

record server_update =
  u_environment :: "(string \<times> string) list option"
  u_secret_environment :: "(string \<times> string) list option"
  u_access_grants :: "mcp_grant list option"
  u_enabled :: "bool option"

record 'b codec =
  model_dump_json :: "registry_document \<Rightarrow> 'b list"
  model_validate_json :: "'b list \<Rightarrow> registry_document option"

section \<open>The disk\<close>

record 'b disk =
  primary :: "'b list option"
  backup :: "'b list option"
  temporary :: "'b list option"

definition load_from_disk :: "'b codec \<Rightarrow> 'b disk \<Rightarrow> registry_document result" where
  "load_from_disk J d =
     (case primary d of
        None \<Rightarrow> Inr empty_document
      | Some t \<Rightarrow> (case model_validate_json J t of
          Some doc \<Rightarrow> Inr doc
        | None \<Rightarrow> (case Option.bind (backup d) (model_validate_json J) of
            Some doc \<Rightarrow> Inr doc
          | None \<Rightarrow> Inl (RegistryError ''registry is invalid and no valid backup exists''))))"

text \<open>
  The states of the disk during \<open>_write\<close>: the temporary file is made and grows, the backup is
  truncated and grows when there is a registry file, the temporary file replaces the registry.
\<close>

definition growing :: "'b list \<Rightarrow> 'b list list" where
  "growing t = map (\<lambda>k. take k t) [0..<Suc (length t)]"

definition write_trace :: "'b list \<Rightarrow> 'b disk \<Rightarrow> 'b disk list" where
  "write_trace payload d =
     (let d1 = d\<lparr>temporary := Some payload\<rparr>;
          backups = (case primary d of None \<Rightarrow> [] | Some old \<Rightarrow> map (\<lambda>t. d1\<lparr>backup := Some t\<rparr>) (growing old))
      in [d] @ map (\<lambda>t. d\<lparr>temporary := Some t\<rparr>) (growing payload) @ backups
         @ [(last (d1 # backups))\<lparr>primary := Some payload, temporary := None\<rparr>])"

text \<open>
  A write that ends (\<open>None\<close>), or one that raises in the state of that index (\<open>Some i\<close>); the
  \<open>finally\<close> clause removes the temporary file.
\<close>

type_synonym fault = "nat option"

definition write_document :: "'b codec \<Rightarrow> fault \<Rightarrow> registry_document \<Rightarrow> 'b disk \<Rightarrow> 'b disk \<times> unit result" where
  "write_document J f doc d =
     (let states = write_trace (model_dump_json J doc) d in
      case f of
        None \<Rightarrow> ((last states)\<lparr>temporary := None\<rparr>, Inr ())
      | Some i \<Rightarrow> ((states ! min i (length states - 1))\<lparr>temporary := None\<rparr>, Inl (OSError ''write'')))"

section \<open>The registry\<close>

record 'b registry =
  memory :: "registry_document option"
  on_disk :: "'b disk"

definition load :: "'b codec \<Rightarrow> 'b registry \<Rightarrow> 'b registry \<times> registry_document result" where
  "load J R =
     (case load_from_disk J (on_disk R) of
        Inl e \<Rightarrow> (R, Inl e)
      | Inr doc \<Rightarrow> (R\<lparr>memory := Some doc\<rparr>, Inr doc))"

definition snapshot :: "'b codec \<Rightarrow> 'b registry \<Rightarrow> 'b registry \<times> registry_document result" where
  "snapshot J R = (case memory R of Some doc \<Rightarrow> (R, Inr doc) | None \<Rightarrow> load J R)"

text \<open>\<open>self._document or self._load_from_disk()\<close>; a document is always truthy.\<close>

definition current_document :: "'b codec \<Rightarrow> 'b registry \<Rightarrow> registry_document result" where
  "current_document J R = (case memory R of Some doc \<Rightarrow> Inr doc | None \<Rightarrow> load_from_disk J (on_disk R))"

text \<open>
  The end of the three operations: the document was changed in place, so the memory shows the
  change when the document came from there, even when the write raises.
\<close>

definition commit :: "'b codec \<Rightarrow> fault \<Rightarrow> registry_document \<Rightarrow> 'b registry \<Rightarrow> 'b registry \<times> unit result" where
  "commit J f doc R =
     (case write_document J f doc (on_disk R) of
        (d, Inr _) \<Rightarrow> (R\<lparr>memory := Some doc, on_disk := d\<rparr>, Inr ())
      | (d, Inl e) \<Rightarrow> (R\<lparr>memory := (case memory R of None \<Rightarrow> None | Some _ \<Rightarrow> Some doc), on_disk := d\<rparr>, Inl e))"

definition put_server :: "string \<Rightarrow> managed_server \<Rightarrow> registry_document \<Rightarrow> registry_document" where
  "put_server k s doc = doc\<lparr>servers := dset k s (servers doc), revision := revision doc + 1\<rparr>"

definition del_server :: "string \<Rightarrow> registry_document \<Rightarrow> registry_document" where
  "del_server k doc = doc\<lparr>servers := dpop k (servers doc), revision := revision doc + 1\<rparr>"

definition new_server :: "host \<Rightarrow> pure_path list \<Rightarrow> server_create \<Rightarrow> string \<Rightarrow> int \<Rightarrow> managed_server result" where
  "new_server H roots form actor_id now =
     bindR (resolve_package H roots (c_package_path form)) (\<lambda>package.
     bindR (load_manifest H (path_join package (path_of ''mcp.yaml''))) (\<lambda>m.
     bindR (validate_environment H m package (c_environment form) (c_secret_environment form)) (\<lambda>_.
     bindR (package_digest H package) (\<lambda>g.
     Inr \<lparr>ms_id = mf_id m, package_path = posix package, digest = g, manifest = m,
          environment = c_environment form, secret_environment = c_secret_environment form,
          access_grants = c_access_grants form, enabled = c_enabled form,
          created_by = actor_id, created_at = now, updated_at = now\<rparr>))))"

definition registry_create ::
    "'b codec \<Rightarrow> host \<Rightarrow> pure_path list \<Rightarrow> fault \<Rightarrow> int \<Rightarrow> server_create \<Rightarrow> string \<Rightarrow> 'b registry \<Rightarrow>
     'b registry \<times> managed_server result" where
  "registry_create J H roots f now form actor_id R =
     (case new_server H roots form actor_id now of
        Inl e \<Rightarrow> (R, Inl e)
      | Inr server \<Rightarrow> (case current_document J R of
          Inl e \<Rightarrow> (R, Inl e)
        | Inr doc \<Rightarrow>
            if ms_id server \<in> set (dkeys (servers doc))
            then (R, Inl (RegistryError (''server '' @ ms_id server @ '' is already registered'')))
            else (case commit J f (put_server (ms_id server) server doc) R of
                (R', Inr _) \<Rightarrow> (R', Inr server)
              | (R', Inl e) \<Rightarrow> (R', Inl e))))"

text \<open>\<open>values.update(form.model_dump(exclude_none=True))\<close>\<close>

definition updated_server :: "server_update \<Rightarrow> int \<Rightarrow> managed_server \<Rightarrow> managed_server" where
  "updated_server form now s =
     s\<lparr>environment := (case u_environment form of None \<Rightarrow> environment s | Some v \<Rightarrow> v),
       secret_environment := (case u_secret_environment form of None \<Rightarrow> secret_environment s | Some v \<Rightarrow> v),
       access_grants := (case u_access_grants form of None \<Rightarrow> access_grants s | Some v \<Rightarrow> v),
       enabled := (case u_enabled form of None \<Rightarrow> enabled s | Some v \<Rightarrow> v),
       updated_at := now\<rparr>"

definition not_found :: "string \<Rightarrow> py_exc" where
  "not_found server_id = RegistryError (''server '' @ server_id @ '' not found'')"

definition registry_update ::
    "'b codec \<Rightarrow> host \<Rightarrow> fault \<Rightarrow> int \<Rightarrow> string \<Rightarrow> server_update \<Rightarrow> 'b registry \<Rightarrow> 'b registry \<times> managed_server result" where
  "registry_update J H f now server_id form R =
     (case current_document J R of
        Inl e \<Rightarrow> (R, Inl e)
      | Inr doc \<Rightarrow> (case dget (servers doc) server_id of
          None \<Rightarrow> (R, Inl (not_found server_id))
        | Some server \<Rightarrow>
            (let updated = updated_server form now server in
             case validate_environment H (manifest updated) (path_of (package_path updated))
                    (environment updated) (secret_environment updated) of
               Inl e \<Rightarrow> (R, Inl e)
             | Inr _ \<Rightarrow> (case commit J f (put_server server_id updated doc) R of
                 (R', Inr _) \<Rightarrow> (R', Inr updated)
               | (R', Inl e) \<Rightarrow> (R', Inl e)))))"

definition registry_delete :: "'b codec \<Rightarrow> fault \<Rightarrow> string \<Rightarrow> 'b registry \<Rightarrow> 'b registry \<times> unit result" where
  "registry_delete J f server_id R =
     (case current_document J R of
        Inl e \<Rightarrow> (R, Inl e)
      | Inr doc \<Rightarrow>
          if server_id \<notin> set (dkeys (servers doc)) then (R, Inl (not_found server_id))
          else commit J f (del_server server_id doc) R)"

section \<open>Discovery\<close>

record service =
  sv_id :: string
  sv_name :: string
  sv_description :: string
  sv_version :: string
  sv_package_path :: string
  sv_package_digest :: string
  discovery_state :: string
  sv_enabled :: bool
  runtime_state :: "string option"
  sv_environment :: "(string \<times> environment_setting) list"
  sv_security :: security_spec

record discovery =
  seen_paths :: "pure_path list"
  services :: "service list"
  discovery_errors :: "(string \<times> py_exc) list"

definition service_of :: "registry_document \<Rightarrow> pure_path \<Rightarrow> mcp_manifest \<Rightarrow> string \<Rightarrow> service" where
  "service_of doc package m g =
     (let registered = dget (servers doc) (mf_id m) in
      \<lparr>sv_id = mf_id m, sv_name = mf_name m, sv_description = mf_description m, sv_version = mf_version m,
       sv_package_path = posix package, sv_package_digest = g,
       discovery_state = (case registered of
           Some r \<Rightarrow> if path_of (package_path r) = package then ''registered'' else ''conflict''
         | None \<Rightarrow> ''available''),
       sv_enabled = (case registered of Some r \<Rightarrow> enabled r | None \<Rightarrow> False),
       runtime_state = None,
       sv_environment = mf_environment m, sv_security = security m\<rparr>)"

definition discover_candidate ::
    "host \<Rightarrow> pure_path list \<Rightarrow> registry_document \<Rightarrow> discovery \<Rightarrow> pure_path \<Rightarrow> discovery" where
  "discover_candidate H roots doc D candidate =
     (let failed = (\<lambda>D e. D\<lparr>discovery_errors := discovery_errors D @ [(posix candidate, e)]\<rparr>) in
      case resolve_package H roots (posix candidate) of
        Inl e \<Rightarrow> failed D e
      | Inr package \<Rightarrow>
          if package \<in> set (seen_paths D) then D
          else (let D' = D\<lparr>seen_paths := seen_paths D @ [package]\<rparr> in
            case load_manifest H (path_join package (path_of ''mcp.yaml'')) of
              Inl e \<Rightarrow> failed D' e
            | Inr m \<Rightarrow> (case package_digest H package of
                Inl e \<Rightarrow> failed D' e
              | Inr g \<Rightarrow> D'\<lparr>services := services D' @ [service_of doc package m g]\<rparr>)))"

definition has_manifest :: "host \<Rightarrow> pure_path \<Rightarrow> bool" where
  "has_manifest H p = is_file H (path_join p (path_of ''mcp.yaml''))"

definition candidates :: "host \<Rightarrow> pure_path \<Rightarrow> pure_path list" where
  "candidates H base =
     sort_key posix (remdups ((if has_manifest H base then [base] else [])
       @ filter (\<lambda>p. is_dir H p \<and> has_manifest H p) (iterdir H base)))"

definition discover_root ::
    "host \<Rightarrow> pure_path list \<Rightarrow> registry_document \<Rightarrow> discovery \<Rightarrow> pure_path \<Rightarrow> discovery" where
  "discover_root H roots doc D base =
     (if \<not> is_dir H base
      then D\<lparr>discovery_errors := discovery_errors D @ [(posix base, RegistryError ''package root is not a directory'')]\<rparr>
      else foldl (discover_candidate H roots doc) D (candidates H base))"

definition discover :: "host \<Rightarrow> pure_path list \<Rightarrow> registry_document \<Rightarrow> discovery" where
  "discover H roots doc =
     foldl (discover_root H roots doc) \<lparr>seen_paths = [], services = [], discovery_errors = []\<rparr> roots"

text \<open>
  Discovery looks at each package once, lists only packages below a root, and calls a package
  registered exactly when the document has its id with its path.
\<close>

definition service_ok :: "registry_document \<Rightarrow> pure_path list \<Rightarrow> service \<Rightarrow> bool" where
  "service_ok doc seen s \<longleftrightarrow> (\<exists>p \<in> set seen. sv_package_path s = posix p
     \<and> (discovery_state s = ''registered'' \<longleftrightarrow>
          (\<exists>r. dget (servers doc) (sv_id s) = Some r \<and> path_of (package_path r) = p)))"

definition discovery_ok :: "pure_path list \<Rightarrow> registry_document \<Rightarrow> discovery \<Rightarrow> bool" where
  "discovery_ok roots doc D \<longleftrightarrow> distinct (seen_paths D)
     \<and> (\<forall>p \<in> set (seen_paths D). \<exists>r \<in> set roots. p = r \<or> is_relative_to p r)
     \<and> length (services D) \<le> length (seen_paths D)
     \<and> (\<forall>s \<in> set (services D). service_ok doc (seen_paths D) s)"

lemma service_of_ok: "service_ok doc (seen @ [p]) (service_of doc p m g)"
proof -
  have "discovery_state (service_of doc p m g) = ''registered'' \<longleftrightarrow>
      (\<exists>r. dget (servers doc) (sv_id (service_of doc p m g)) = Some r \<and> path_of (package_path r) = p)"
    by (simp add: service_of_def Let_def split: option.split)
  then show ?thesis by (simp add: service_ok_def service_of_def Let_def)
qed

lemma discovery_ok_seen:
  assumes "discovery_ok roots doc D" "p \<notin> set (seen_paths D)" "\<exists>r \<in> set roots. p = r \<or> is_relative_to p r"
  shows "discovery_ok roots doc (D\<lparr>seen_paths := seen_paths D @ [p]\<rparr>)"
  using assms by (auto simp: discovery_ok_def service_ok_def)

lemma discover_candidate_ok:
  assumes ok: "discovery_ok roots doc D"
  shows "discovery_ok roots doc (discover_candidate H roots doc D c)"
proof (cases "resolve_package H roots (posix c)")
  case (Inl e)
  with ok show ?thesis by (simp add: discover_candidate_def discovery_ok_def)
next
  case (Inr p)
  show ?thesis
  proof (cases "p \<in> set (seen_paths D)")
    case True
    with Inr ok show ?thesis by (simp add: discover_candidate_def)
  next
    case False
    from discovery_ok_seen [OF ok False] resolve_package_below [OF Inr]
    have seen: "discovery_ok roots doc (D\<lparr>seen_paths := seen_paths D @ [p]\<rparr>)" by blast
    then have "length (services D) \<le> length (seen_paths D)"
      using ok by (simp add: discovery_ok_def)
    with Inr False seen service_of_ok show ?thesis
      by (simp add: discover_candidate_def Let_def discovery_ok_def split: sum.splits)
  qed
qed

lemma discover_root_ok:
  assumes "discovery_ok roots doc D"
  shows "discovery_ok roots doc (discover_root H roots doc D b)"
proof -
  have "discovery_ok roots doc (foldl (discover_candidate H roots doc) D cs)" for cs
    by (rule foldl_invariant [where I = "discovery_ok roots doc"]) (use assms discover_candidate_ok in auto)
  with assms show ?thesis by (simp add: discover_root_def discovery_ok_def)
qed

lemma discover_ok: "discovery_ok roots doc (discover H roots doc)"
  unfolding discover_def
  by (rule foldl_invariant [where I = "discovery_ok roots doc"])
     (use discover_root_ok in \<open>auto simp: discovery_ok_def\<close>)

section \<open>Writing\<close>

definition sound_codec :: "'b codec \<Rightarrow> bool" where
  "sound_codec J \<longleftrightarrow> (\<forall>doc. model_validate_json J (model_dump_json J doc) = Some doc)"

text \<open>Whether a registry file holds a document.\<close>

definition holds_document :: "'b codec \<Rightarrow> 'b disk \<Rightarrow> registry_document \<Rightarrow> bool" where
  "holds_document J d doc \<longleftrightarrow>
     (case primary d of None \<Rightarrow> doc = empty_document | Some t \<Rightarrow> t = model_dump_json J doc)"

lemma holds_document_load: "sound_codec J \<Longrightarrow> holds_document J d doc \<Longrightarrow> load_from_disk J d = Inr doc"
  by (auto simp: holds_document_def load_from_disk_def sound_codec_def split: option.splits)

lemma last_growing [simp]: "last (growing t) = t"
  by (simp add: growing_def)

lemma growing_ne [simp]: "growing t \<noteq> []"
  by (simp add: growing_def)

lemma write_trace_last:
  "last (write_trace t d) =
     d\<lparr>primary := Some t, temporary := None, backup := (case primary d of None \<Rightarrow> backup d | p \<Rightarrow> p)\<rparr>"
  by (cases "primary d") (auto simp: write_trace_def Let_def last_map)

lemma write_trace_butlast: "x \<in> set (butlast (write_trace t d)) \<Longrightarrow> primary x = primary d"
  by (cases "primary d") (auto simp: write_trace_def Let_def butlast_append growing_def split: if_splits)

lemma write_trace_ne [simp]: "write_trace t d \<noteq> []"
  by (simp add: write_trace_def Let_def)

lemma write_trace_primary:
  assumes "i < length (write_trace t d)"
  shows "primary (write_trace t d ! i) = (if Suc i = length (write_trace t d) then Some t else primary d)"
proof (cases "Suc i = length (write_trace t d)")
  case True
  then have "write_trace t d ! i = last (write_trace t d)" by (metis diff_Suc_1 last_conv_nth write_trace_ne)
  with True show ?thesis by (simp add: write_trace_last)
next
  case False
  with assms have "i < length (butlast (write_trace t d))" by simp
  then have "write_trace t d ! i \<in> set (butlast (write_trace t d))"
    by (metis nth_butlast nth_mem)
  then show ?thesis using write_trace_butlast False by auto
qed

text \<open>A write keeps a document on disk whatever happens: the old one, or the new one.\<close>

lemma write_document_holds:
  assumes "holds_document J d old" and "write_document J f doc d = (d', r)"
  shows "holds_document J d' old \<or> holds_document J d' doc"
    and "r = Inr () \<Longrightarrow> holds_document J d' doc"
proof -
  let ?w = "write_trace (model_dump_json J doc) d"
  show "holds_document J d' old \<or> holds_document J d' doc"
  proof (cases f)
    case None
    with assms show ?thesis by (auto simp: write_document_def Let_def write_trace_last holds_document_def)
  next
    case (Some i)
    let ?i = "min i (length ?w - 1)"
    have "?i < length ?w" by (simp add: min.strict_coboundedI2)
    from write_trace_primary [OF this] Some assms show ?thesis
      by (auto simp: write_document_def Let_def holds_document_def split: if_splits)
  qed
  assume "r = Inr ()"
  with assms show "holds_document J d' doc"
    by (cases f) (auto simp: write_document_def Let_def write_trace_last holds_document_def)
qed

section \<open>Reachable registries\<close>

definition server_wf :: "string \<Rightarrow> managed_server \<Rightarrow> bool" where
  "server_wf k s \<longleftrightarrow> ms_id s = k \<and> mf_id (manifest s) = k \<and> manifest_ok (manifest s)
     \<and> environment_ok (manifest s) (environment s) (secret_environment s)"

definition registry_wf :: "registry_document \<Rightarrow> bool" where
  "registry_wf doc \<longleftrightarrow> wf_dict (servers doc) \<and> (\<forall>(k, s) \<in> set (servers doc). server_wf k s)"

text \<open>
  What can happen to a registry: its operations, each with any fault of the write, and a crash of
  the runtime, which loses the memory and may leave a temporary file.
\<close>

inductive registry_reachable :: "'b codec \<Rightarrow> host \<Rightarrow> pure_path list \<Rightarrow> 'b registry \<Rightarrow> bool"
  for J H roots where
  start: "registry_reachable J H roots
      \<lparr>memory = None, on_disk = \<lparr>primary = None, backup = None, temporary = None\<rparr>\<rparr>"
| load: "registry_reachable J H roots R \<Longrightarrow> registry_reachable J H roots (fst (load J R))"
| snapshot: "registry_reachable J H roots R \<Longrightarrow> registry_reachable J H roots (fst (snapshot J R))"
| create: "registry_reachable J H roots R \<Longrightarrow>
      registry_reachable J H roots (fst (registry_create J H roots f now form actor_id R))"
| update: "registry_reachable J H roots R \<Longrightarrow>
      registry_reachable J H roots (fst (registry_update J H f now server_id u R))"
| delete: "registry_reachable J H roots R \<Longrightarrow>
      registry_reachable J H roots (fst (registry_delete J f server_id R))"
| crash: "registry_reachable J H roots R \<Longrightarrow>
      registry_reachable J H roots \<lparr>memory = None, on_disk = (on_disk R)\<lparr>temporary := t\<rparr>\<rparr>"

definition registry_inv :: "'b codec \<Rightarrow> 'b registry \<Rightarrow> bool" where
  "registry_inv J R \<longleftrightarrow> (\<exists>doc. registry_wf doc \<and> holds_document J (on_disk R) doc)
     \<and> (\<forall>doc. memory R = Some doc \<longrightarrow> registry_wf doc)"

lemma registry_wf_empty [simp]: "registry_wf empty_document"
  by (simp add: registry_wf_def empty_document_def)

lemma registry_wf_get: "registry_wf doc \<Longrightarrow> dget (servers doc) k = Some s \<Longrightarrow> server_wf k s"
  by (auto simp: registry_wf_def dest: map_of_SomeD)

lemma registry_wf_put: "registry_wf doc \<Longrightarrow> server_wf k s \<Longrightarrow> registry_wf (put_server k s doc)"
  by (auto simp: registry_wf_def put_server_def dest!: dset_set)

lemma dpop_set: "x \<in> set (dpop k d) \<Longrightarrow> x \<in> set d"
  by (simp add: AList.delete_eq)

lemma registry_wf_del: "registry_wf doc \<Longrightarrow> registry_wf (del_server k doc)"
  using dpop_set by (fastforce simp: registry_wf_def del_server_def)

lemma load_manifest_ok: "load_manifest H p = Inr m \<Longrightarrow> manifest_ok m"
  by (auto simp: load_manifest_def split: option.splits py.splits if_splits)

lemma new_server_wf: "new_server H roots form actor_id now = Inr s \<Longrightarrow> server_wf (ms_id s) s"
  by (auto simp: new_server_def server_wf_def validate_environment_ok dest: load_manifest_ok)

lemma current_document_wf:
  assumes "sound_codec J" "registry_inv J R" "current_document J R = Inr doc"
  shows "registry_wf doc"
  using assms by (auto simp: registry_inv_def current_document_def holds_document_load split: option.splits)

lemma commit_inv:
  assumes "registry_inv J R" "registry_wf doc"
  shows "registry_inv J (fst (commit J f doc R))"
proof -
  from assms(1) obtain old where old: "registry_wf old" "holds_document J (on_disk R) old"
    by (auto simp: registry_inv_def)
  obtain d r where w: "write_document J f doc (on_disk R) = (d, r)" by fastforce
  from write_document_holds [OF old(2) w] old assms show ?thesis
    by (auto simp: commit_def w registry_inv_def split: sum.splits option.splits)
qed

lemma load_inv: "sound_codec J \<Longrightarrow> registry_inv J R \<Longrightarrow> registry_inv J (fst (load J R))"
  by (auto simp: load_def registry_inv_def holds_document_load split: sum.splits)

lemma fst_result: "fst (case p of (R', Inl e) \<Rightarrow> (R', Inl e) | (R', Inr u) \<Rightarrow> (R', Inr v)) = fst p"
  by (cases p) (auto split: sum.splits)

lemma registry_create_inv:
  assumes "sound_codec J" "registry_inv J R"
  shows "registry_inv J (fst (registry_create J H roots f now form actor_id R))"
  using assms
  by (auto simp: registry_create_def fst_result split: sum.splits
      intro!: commit_inv registry_wf_put new_server_wf intro: current_document_wf)

lemma registry_update_inv:
  assumes "sound_codec J" "registry_inv J R"
  shows "registry_inv J (fst (registry_update J H f now server_id u R))"
proof -
  have *: "server_wf k (updated_server u now s)"
    if "server_wf k s" "validate_environment H (manifest (updated_server u now s)) p
      (environment (updated_server u now s)) (secret_environment (updated_server u now s)) = Inr ()" for k s p
    using that by (simp add: server_wf_def validate_environment_ok updated_server_def)
  show ?thesis
    using assms
    by (auto simp: registry_update_def fst_result Let_def split: sum.splits option.splits
        intro!: commit_inv registry_wf_put * intro: current_document_wf registry_wf_get)
qed

lemma registry_delete_inv:
  assumes "sound_codec J" "registry_inv J R"
  shows "registry_inv J (fst (registry_delete J f server_id R))"
  using assms
  by (auto simp: registry_delete_def split: sum.splits intro!: commit_inv registry_wf_del
      intro: current_document_wf)

lemmas registry_ops_inv [inv_intros] = load_inv registry_create_inv registry_update_inv registry_delete_inv

lemma registry_reachable_inv: "registry_reachable J H roots R \<Longrightarrow> sound_codec J \<Longrightarrow> registry_inv J R"
proof (induction rule: registry_reachable.induct)
  case start
  then show ?case
    by (auto simp: registry_inv_def holds_document_def intro!: exI [of _ empty_document])
next
  case (snapshot R)
  then show ?case by (auto simp: snapshot_def load_inv split: option.splits)
next
  case (crash R t)
  then show ?case by (auto simp: registry_inv_def holds_document_def)
qed (auto intro: inv_intros)

section \<open>Properties\<close>

text \<open>What an operation committed: the document is in memory and on disk.\<close>

definition durably :: "'b codec \<Rightarrow> 'b registry \<Rightarrow> registry_document \<Rightarrow> bool" where
  "durably J R doc \<longleftrightarrow> memory R = Some doc \<and> load_from_disk J (on_disk R) = Inr doc"

lemma commit_durably:
  assumes "sound_codec J"
  shows "commit J None doc R = (R', r) \<Longrightarrow> r = Inr () \<and> durably J R' doc"
  using assms
  by (auto simp: commit_def write_document_def Let_def write_trace_last durably_def load_from_disk_def sound_codec_def)

text \<open>Concrete data for the witnesses.\<close>

definition demo_codec :: "registry_document option codec" where
  "demo_codec = \<lparr>model_dump_json = (\<lambda>doc. [None, Some doc, None]),
     model_validate_json = (\<lambda>t. case t of [None, Some doc, None] \<Rightarrow> Some doc | _ \<Rightarrow> None)\<rparr>"

definition demo_manifest :: mcp_manifest where
  "demo_manifest = \<lparr>schema_version = 1, mf_id = ''weather'', mf_name = ''Weather'', mf_description = [],
     mf_version = ''1.0'',
     runtime = \<lparr>rt_type = ''python'', command = ''uv'', args = [''run'', ''weather''], working_directory = ''.''\<rparr>,
     transport = ''stdio'',
     mf_environment = [(''REGION'', \<lparr>es_default = Some ''eu'', es_description = [], es_secret = False\<rparr>),
                       (''API_KEY'', \<lparr>es_default = None, es_description = [], es_secret = True\<rparr>)],
     limits = \<lparr>startup_timeout_seconds = 30, call_timeout_seconds = 30, memory_mb = 256,
               restart = ''on-failure'', max_restarts = 1\<rparr>,
     security = \<lparr>profile = ''confined'', filesystem_roots = [], read_only = True, root_write = False\<rparr>\<rparr>"

definition demo_host :: host where
  "demo_host = \<lparr>expanduser = (\<lambda>p. p), resolve = (\<lambda>p. p), is_dir = (\<lambda>p. parts p = [''srv'', ''weather'']),
     rglob = (\<lambda>p. [([''mcp.yaml''], File ''m''), ([''uv.lock''], File ''l''), ([''pyproject.toml''], File ''p'')]),
     iterdir = (\<lambda>p. []), read_text = (\<lambda>p. Some ''text''), yaml_safe_load = (\<lambda>t. Some (PDict [])),
     model_validate = (\<lambda>d. Some demo_manifest), sha256_hex = (\<lambda>t. t)\<rparr>"

definition demo_roots :: "pure_path list" where
  "demo_roots = [path_of ''/srv'']"

definition demo_create :: server_create where
  "demo_create = \<lparr>c_package_path = ''/srv/weather'', c_environment = [(''REGION'', ''us'')],
     c_secret_environment = [(''API_KEY'', ''WEATHER_KEY'')], c_access_grants = [], c_enabled = True\<rparr>"

definition empty_registry :: "'b registry" where
  "empty_registry = \<lparr>memory = None, on_disk = \<lparr>primary = None, backup = None, temporary = None\<rparr>\<rparr>"

lemma demo_codec_sound [simp]: "sound_codec demo_codec"
  by (simp add: sound_codec_def demo_codec_def)

lemma demo_new_server: "isl (new_server demo_host demo_roots demo_create ''admin'' 7) = False"
  by code_simp

text \<open>C27: take a registry file that is as the runtime wrote it for a document, or that is not there yet, for the empty
  document. A registry write is then atomic for a reader of the disk: when the runtime dies in any state of the write,
  loading gives this old document, except in the last state, where it gives the new one; and when the registry file is
  damaged after a write that replaced one, the backup gives the old document. (A registry file that is already damaged when
  it is replaced is not covered: the write copies it over the backup.)\<close>

theorem registry_write_is_atomic:
  assumes "sound_codec J" and "holds_document J d old"
  shows "(\<forall>i < length (write_trace (model_dump_json J doc) d).
      load_from_disk J (write_trace (model_dump_json J doc) d ! i)
        = Inr (if Suc i = length (write_trace (model_dump_json J doc) d) then doc else old))
    \<and> (primary d \<noteq> None \<and> model_validate_json J damaged = None \<longrightarrow>
      load_from_disk J ((fst (write_document J None doc d))\<lparr>primary := Some damaged\<rparr>) = Inr old)"
proof (intro conjI impI)
  show "\<forall>i < length (write_trace (model_dump_json J doc) d).
      load_from_disk J (write_trace (model_dump_json J doc) d ! i)
        = Inr (if Suc i = length (write_trace (model_dump_json J doc) d) then doc else old)"
    using assms
    by (auto intro!: holds_document_load simp: write_trace_primary holds_document_def)
  show "load_from_disk J ((fst (write_document J None doc d))\<lparr>primary := Some damaged\<rparr>) = Inr old"
    if "primary d \<noteq> None \<and> model_validate_json J damaged = None"
    using assms that
    by (auto simp: write_document_def Let_def write_trace_last load_from_disk_def holds_document_def
        sound_codec_def)
qed

definition demo_disk :: "registry_document option disk" where
  "demo_disk = \<lparr>primary = Some (model_dump_json demo_codec empty_document), backup = None, temporary = None\<rparr>"

text \<open>A damaged registry file is loaded from its backup, which the next write overwrites with the damaged file
  before it replaces it: a crash in between leaves nothing that can be loaded.\<close>

lemma damaged_file_overwrites_backup:
  "load_from_disk demo_codec \<lparr>primary = Some [], backup = Some (model_dump_json demo_codec empty_document), temporary = None\<rparr> =
     Inr empty_document \<and>
   (\<exists>d \<in> set (write_trace (model_dump_json demo_codec empty_document)
       \<lparr>primary = Some [], backup = Some (model_dump_json demo_codec empty_document), temporary = None\<rparr>).
     load_from_disk demo_codec d = Inl (RegistryError ''registry is invalid and no valid backup exists''))"
  by (auto simp: demo_codec_def load_from_disk_def write_trace_def growing_def Let_def)

definition demo_states :: "registry_document option disk list" where
  "demo_states = write_trace (model_dump_json demo_codec (empty_document\<lparr>revision := 1\<rparr>)) demo_disk"

lemma registry_write_is_atomic_witness:
  "length demo_states = 10
   \<and> load_from_disk demo_codec (demo_states ! 3) = Inr empty_document
   \<and> load_from_disk demo_codec (demo_states ! 9) = Inr (empty_document\<lparr>revision := 1\<rparr>)
   \<and> load_from_disk demo_codec
        ((fst (write_document demo_codec None (empty_document\<lparr>revision := 1\<rparr>) demo_disk))\<lparr>primary := Some []\<rparr>)
      = Inr empty_document"
proof -
  have "length demo_states = 10" by code_simp
  moreover have "holds_document demo_codec demo_disk empty_document"
    by (simp add: holds_document_def demo_disk_def demo_codec_def)
  note registry_write_is_atomic [OF demo_codec_sound this, of "empty_document\<lparr>revision := 1\<rparr>" "[]"]
  moreover have "primary demo_disk \<noteq> None" "model_validate_json demo_codec [] = None"
    by (simp_all add: demo_disk_def demo_codec_def)
  ultimately show ?thesis by (simp add: demo_states_def)
qed

text \<open>Every document that a reachable registry shows, in memory or on disk, has each server
  once, under the id of its manifest, with a valid manifest and an environment that names only
  declared variables and keeps the secret ones out of the plain ones. Faults of a write and
  crashes do not change this, and the registry can always be loaded.\<close>

theorem registry_servers_ok:
  assumes "registry_reachable J H roots R" and "sound_codec J"
  shows "\<exists>doc. load_from_disk J (on_disk R) = Inr doc \<and> registry_wf doc"
    and "\<exists>R' doc. snapshot J R = (R', Inr doc) \<and> registry_wf doc"
proof -
  from registry_reachable_inv [OF assms] obtain doc where
    doc: "registry_wf doc" "load_from_disk J (on_disk R) = Inr doc"
    by (auto simp: registry_inv_def holds_document_load assms(2))
  then show "\<exists>doc. load_from_disk J (on_disk R) = Inr doc \<and> registry_wf doc" by blast
  from doc registry_reachable_inv [OF assms]
  show "\<exists>R' doc. snapshot J R = (R', Inr doc) \<and> registry_wf doc"
    by (auto simp: snapshot_def load_def registry_inv_def split: option.splits)
qed

lemma registry_servers_ok_witness:
  "\<exists>R' doc. snapshot demo_codec (fst (registry_create demo_codec demo_host demo_roots (Some 3) 7 demo_create ''admin''
      (fst (load demo_codec empty_registry)))) = (R', Inr doc) \<and> registry_wf doc"
proof -
  have "registry_reachable demo_codec demo_host demo_roots empty_registry"
    unfolding empty_registry_def by (rule registry_reachable.start)
  then show ?thesis
    by (intro registry_servers_ok(2) [where H = demo_host and roots = demo_roots]
        registry_reachable.create registry_reachable.load) simp_all
qed

text \<open>One server of a document is now \<open>entry\<close>, in memory and on disk: the others are as before, and there is one more revision.\<close>

definition durably_changed :: "'b codec \<Rightarrow> registry_document \<Rightarrow> 'b registry \<Rightarrow> string \<Rightarrow> managed_server option \<Rightarrow> bool" where
  "durably_changed J doc R server_id entry \<longleftrightarrow> (\<exists>doc'. memory R = Some doc' \<and> load_from_disk J (on_disk R) = Inr doc' \<and>
     doc_schema_version doc' = doc_schema_version doc \<and> revision doc' = revision doc + 1 \<and>
     (\<forall>i. dget (servers doc') i = (if i = server_id then entry else dget (servers doc) i)))"

lemma durably_put: "durably J R (put_server k s doc) \<Longrightarrow> durably_changed J doc R k (Some s)"
  by (auto simp: durably_def durably_changed_def put_server_def)

lemma durably_del: "durably J R (del_server k doc) \<Longrightarrow> durably_changed J doc R k None"
  by (auto simp: durably_def durably_changed_def del_server_def)

lemma new_server_fields:
  "new_server H roots form actor_id now = Inr s \<longleftrightarrow> (\<exists>package. resolve_package H roots (c_package_path form) = Inr package \<and>
     load_manifest H (path_join package (path_of ''mcp.yaml'')) = Inr (manifest s) \<and>
     validate_environment H (manifest s) package (c_environment form) (c_secret_environment form) = Inr () \<and>
     package_digest H package = Inr (digest s) \<and> package_path s = posix package \<and> ms_id s = mf_id (manifest s) \<and>
     environment s = c_environment form \<and> secret_environment s = c_secret_environment form \<and>
     access_grants s = c_access_grants form \<and> enabled s = c_enabled form \<and> created_by s = actor_id \<and>
     created_at s = now \<and> updated_at s = now)"
  by (cases s) (auto simp: new_server_def)

lemma create_exact:
  assumes "sound_codec J" and "current_document J R = Inr doc"
  shows "case registry_create J H roots None now form actor_id R of
      (R', Inr s) \<Rightarrow> new_server H roots form actor_id now = Inr s \<and> dget (servers doc) (ms_id s) = None
        \<and> durably_changed J doc R' (ms_id s) (Some s)
    | (R', Inl e) \<Rightarrow> R' = R \<and> (\<forall>s. new_server H roots form actor_id now = Inr s \<longrightarrow> dget (servers doc) (ms_id s) \<noteq> None)"
  using commit_durably [OF assms(1), of _ R]
  by (auto simp: registry_create_def assms(2) dget_None_keys intro: durably_put split: sum.splits prod.splits)

lemma update_exact:
  assumes "sound_codec J" and "current_document J R = Inr doc"
  shows "case registry_update J H None now server_id u R of
      (R', Inr s) \<Rightarrow> (\<exists>old. dget (servers doc) server_id = Some old \<and> s = updated_server u now old)
        \<and> durably_changed J doc R' server_id (Some s)
    | (R', Inl e) \<Rightarrow> R' = R \<and> (\<forall>old. dget (servers doc) server_id = Some old \<longrightarrow> (let s = updated_server u now old in
        validate_environment H (manifest s) (path_of (package_path s)) (environment s) (secret_environment s) \<noteq> Inr ()))"
  using commit_durably [OF assms(1), of _ R]
  by (auto simp: registry_update_def assms(2) Let_def intro: durably_put split: sum.splits prod.splits option.splits)

lemma updated_is_valid:
  "registry_update J H f now server_id u R = (R', Inr s) \<Longrightarrow>
     validate_environment H (manifest s) (path_of (package_path s)) (environment s) (secret_environment s) = Inr ()"
  by (simp add: registry_update_def Let_def split: sum.splits prod.splits option.splits)

text \<open>C28: without a fault of the disk, and with a document that can be read, the operations are exact.
  Creating registers the package under the id of its manifest, with the resolved path, its digest, what the form gives and
  the actor and time; it is refused exactly when the path, the manifest, the environment or the digest is refused or the
  id is taken. Updating replaces what the form gives and the time and keeps all else of the server; it is refused exactly
  when there is no such server or the environment would not be valid. Deleting removes the server; it is refused exactly
  when there is none. What succeeds is in memory and on disk, every other server is as before, and there is one more revision; what is
  refused changes nothing.\<close>

theorem registry_operations_exact:
  assumes "sound_codec J" and "current_document J R = Inr doc"
  shows "(case registry_create J H roots None now form actor_id R of
      (R', Inr s) \<Rightarrow> (\<exists>package. resolve_package H roots (c_package_path form) = Inr package \<and> package_path s = posix package \<and>
            load_manifest H (path_join package (path_of ''mcp.yaml'')) = Inr (manifest s) \<and>
            validate_environment H (manifest s) package (environment s) (secret_environment s) = Inr () \<and>
            package_digest H package = Inr (digest s)) \<and>
          ms_id s = mf_id (manifest s) \<and> environment s = c_environment form \<and> secret_environment s = c_secret_environment form \<and>
          access_grants s = c_access_grants form \<and> enabled s = c_enabled form \<and> created_by s = actor_id \<and>
          created_at s = now \<and> updated_at s = now \<and>
          dget (servers doc) (ms_id s) = None \<and> durably_changed J doc R' (ms_id s) (Some s)
    | (R', Inl e) \<Rightarrow> R' = R \<and> (\<forall>package m g. resolve_package H roots (c_package_path form) = Inr package \<and>
          load_manifest H (path_join package (path_of ''mcp.yaml'')) = Inr m \<and>
          validate_environment H m package (c_environment form) (c_secret_environment form) = Inr () \<and>
          package_digest H package = Inr g \<longrightarrow> dget (servers doc) (mf_id m) \<noteq> None)) \<and>
    (case registry_update J H None now server_id u R of
      (R', Inr s) \<Rightarrow> (\<exists>old. dget (servers doc) server_id = Some old \<and>
          environment s = (case u_environment u of None \<Rightarrow> environment old | Some v \<Rightarrow> v) \<and>
          secret_environment s = (case u_secret_environment u of None \<Rightarrow> secret_environment old | Some v \<Rightarrow> v) \<and>
          access_grants s = (case u_access_grants u of None \<Rightarrow> access_grants old | Some v \<Rightarrow> v) \<and>
          enabled s = (case u_enabled u of None \<Rightarrow> enabled old | Some v \<Rightarrow> v) \<and> updated_at s = now \<and>
          ms_id s = ms_id old \<and> package_path s = package_path old \<and> digest s = digest old \<and> manifest s = manifest old \<and>
          created_by s = created_by old \<and> created_at s = created_at old \<and>
          validate_environment H (manifest s) (path_of (package_path s)) (environment s) (secret_environment s) = Inr ()) \<and>
          durably_changed J doc R' server_id (Some s)
    | (R', Inl e) \<Rightarrow> R' = R \<and> (\<forall>old. dget (servers doc) server_id = Some old \<longrightarrow>
          validate_environment H (manifest old) (path_of (package_path old))
            (case u_environment u of None \<Rightarrow> environment old | Some v \<Rightarrow> v)
            (case u_secret_environment u of None \<Rightarrow> secret_environment old | Some v \<Rightarrow> v) \<noteq> Inr ())) \<and>
    (case registry_delete J None server_id R of
      (R', Inr _) \<Rightarrow> dget (servers doc) server_id \<noteq> None \<and> durably_changed J doc R' server_id None
    | (R', Inl e) \<Rightarrow> R' = R \<and> dget (servers doc) server_id = None)"
    (is "?create \<and> ?update \<and> ?delete")
proof (intro conjI)
  show ?create
  proof (cases "registry_create J H roots None now form actor_id R")
    case (Pair R' r)
    have taken: "dget (servers doc) (mf_id m) \<noteq> None"
      if refused: "\<forall>s. new_server H roots form actor_id now = Inr s \<longrightarrow> dget (servers doc) (ms_id s) \<noteq> None"
        and "resolve_package H roots (c_package_path form) = Inr package"
        "load_manifest H (path_join package (path_of ''mcp.yaml'')) = Inr m"
        "validate_environment H m package (c_environment form) (c_secret_environment form) = Inr ()"
        "package_digest H package = Inr g" for package m g
    proof -
      let ?s = "\<lparr>ms_id = mf_id m, package_path = posix package, digest = g, manifest = m,
          environment = c_environment form, secret_environment = c_secret_environment form,
          access_grants = c_access_grants form, enabled = c_enabled form,
          created_by = actor_id, created_at = now, updated_at = now\<rparr>"
      have "new_server H roots form actor_id now = Inr ?s" using that(2-) by (simp add: new_server_def)
      with refused show ?thesis by force
    qed
    show ?thesis
    proof (cases r)
      case (Inl e)
      with create_exact [OF assms, where H = H and roots = roots and now = now and form = form and actor_id = actor_id] Pair taken show ?thesis by auto
    next
      case (Inr s)
      with create_exact [OF assms, where H = H and roots = roots and now = now and form = form and actor_id = actor_id] Pair show ?thesis by (auto simp: new_server_fields)
    qed
  qed
  show ?update
  proof (cases "registry_update J H None now server_id u R")
    case (Pair R' r)
    note exact = update_exact [OF assms, where H = H and now = now and server_id = server_id and u = u, unfolded Pair]
    show ?thesis
    proof (cases r)
      case (Inl e)
      with exact Pair show ?thesis by (simp add: updated_server_def Let_def)
    next
      case (Inr s)
      note valid = updated_is_valid [OF Pair [unfolded Inr]]
      from exact Inr obtain old where old: "dget (servers doc) server_id = Some old" "s = updated_server u now old"
        "durably_changed J doc R' server_id (Some s)" by auto
      from valid show ?thesis
        unfolding Pair Inr prod.case sum.case
        by (intro conjI exI [of _ old]) (use old in \<open>simp_all add: updated_server_def\<close>)
    qed
  qed
  show ?delete
    using commit_durably [OF assms(1), of _ R]
    by (auto simp: registry_delete_def assms(2) dget_None_keys intro: durably_del split: sum.splits prod.splits)
qed

lemma registry_operations_exact_witness:
  "\<exists>R' s. registry_create demo_codec demo_host demo_roots None 7 demo_create ''admin'' empty_registry = (R', Inr s)
     \<and> enabled s = c_enabled demo_create \<and> durably_changed demo_codec empty_document R' (ms_id s) (Some s)"
proof -
  obtain s0 where new: "new_server demo_host demo_roots demo_create ''admin'' 7 = Inr s0"
    using demo_new_server by (cases "new_server demo_host demo_roots demo_create ''admin'' 7") auto
  have "current_document demo_codec empty_registry = Inr empty_document"
    by (simp add: current_document_def empty_registry_def load_from_disk_def)
  note exact = conjunct1 [OF registry_operations_exact [OF demo_codec_sound this, where H = demo_host and
      roots = demo_roots and form = demo_create and actor_id = "''admin''" and now = 7]]
  obtain R' r where r: "registry_create demo_codec demo_host demo_roots None 7 demo_create ''admin'' empty_registry = (R', r)"
    by (cases "registry_create demo_codec demo_host demo_roots None 7 demo_create ''admin'' empty_registry")
  show ?thesis
  proof (cases r)
    case (Inl e)
    with exact r new show ?thesis by (auto simp: new_server_fields empty_document_def)
  next
    case (Inr s)
    with exact r show ?thesis by auto
  qed
qed

text \<open>
  A write that raises before it touched the disk leaves its change in the memory: the document was
  changed in place, and a snapshot shows a server that is not in the registry file.
\<close>

theorem failed_write_shows_in_memory:
  assumes "memory R = Some doc" and "new_server H roots form actor_id now = Inr s"
    and "ms_id s \<notin> set (dkeys (servers doc))"
  shows "case registry_create J H roots (Some 0) now form actor_id R of (R', r) \<Rightarrow>
      r = Inl (OSError ''write'') \<and> on_disk R' = (on_disk R)\<lparr>temporary := None\<rparr>
      \<and> snapshot J R' = (R', Inr (put_server (ms_id s) s doc))"
  using assms
  by (simp add: registry_create_def current_document_def commit_def write_document_def Let_def
      write_trace_def snapshot_def)

end
