(* ===== verification/Py_Matches.thy ===== *)
theory Py_Matches
  imports Py_Regex
begin

text \<open>
  Strings of the standard library: \<open>int\<close> of a string, \<open>str.replace\<close>, and \<open>finditer\<close> and \<open>sub\<close> of \<open>re\<close> for patterns with groups,
  where a match is a value of its own and \<open>ms i\<close> are the matches at a position in the order of the engine.
\<close>

text \<open>\<open>s.replace(t, r)\<close> for a non-empty \<open>t\<close>.\<close>

function str_replace :: "string \<Rightarrow> string \<Rightarrow> string \<Rightarrow> string" where
  "str_replace t r [] = []"
| "str_replace t r (c # s) =
     (if t \<noteq> [] \<and> prefix t (c # s) then r @ str_replace t r (drop (length t) (c # s))
      else c # str_replace t r s)"
  by pat_completeness auto
termination
  by (relation "measure (\<lambda>(t, r, s). length s)") (auto simp: le_imp_less_Suc)

declare str_replace.simps(2) [simp del]

lemmas str_replace_Cons = str_replace.simps(2)

lemma str_replace_absent: "\<not> str_in t s \<Longrightarrow> str_replace t r s = s"
  proof (induction s)
  case (Cons c s)
  have "\<not> prefix t (c # s)" using Cons.prems by (metis str_in_def drop0 le0)
  moreover have "\<not> str_in t s"
    using Cons.prems unfolding str_in_def by (metis Suc_le_mono drop_Suc_Cons length_Cons)
  ultimately show ?case using Cons.IH by (simp add: str_replace_Cons)
qed simp

text \<open>\<open>s[-n:]\<close>: for \<open>n = 0\<close> this is the whole of \<open>s\<close>.\<close>

definition from_end :: "nat \<Rightarrow> 'a list \<Rightarrow> 'a list" where
  "from_end n xs = (if n = 0 then xs else last_n n xs)"

text \<open>\<open>finditer\<close>: from the left, the first match at the first position that has one, then on from its
  end. The patterns of the program match no empty text.\<close>

function find_all :: "(nat \<Rightarrow> 'm list) \<Rightarrow> ('m \<Rightarrow> nat) \<Rightarrow> nat \<Rightarrow> nat \<Rightarrow> 'm list" where
  "find_all ms end_of n i =
     (if n \<le> i then []
      else (case ms i of
          [] \<Rightarrow> find_all ms end_of n (Suc i)
        | m # _ \<Rightarrow> m # find_all ms end_of n (max (Suc i) (end_of m))))"
  by pat_completeness auto
termination by (relation "measure (\<lambda>(ms, end_of, n, i). n - i)") auto

declare find_all.simps [simp del]

text \<open>\<open>sub\<close>: each match is replaced, the text between stays.\<close>

fun replace_all :: "('m \<Rightarrow> nat) \<Rightarrow> ('m \<Rightarrow> nat) \<Rightarrow> ('m \<Rightarrow> string) \<Rightarrow> string \<Rightarrow> nat \<Rightarrow> 'm list \<Rightarrow> string" where
  "replace_all start_of end_of f s i [] = drop i s"
| "replace_all start_of end_of f s i (m # ms) =
     slice i (start_of m) s @ f m @ replace_all start_of end_of f s (end_of m) ms"

text \<open>\<open>int(v)\<close>; a string may have blanks around it, a sign and underscores between digits.\<close>

definition grouped_digits :: "string \<Rightarrow> int result" where
  "grouped_digits s = (let parts = split_on (CHR ''_'') s in
     if (\<forall>p \<in> set parts. p \<noteq> [] \<and> (\<forall>c \<in> set p. is_decimal c))
     then Inr (foldl (\<lambda>n c. 10 * n + int (code c - 48)) 0 (concat parts))
     else Inl (ValueError s))"

definition parse_int :: "string \<Rightarrow> int result" where
  "parse_int s = (case str_strip s of
       [] \<Rightarrow> Inl (ValueError s)
     | c # t \<Rightarrow> if c = CHR ''-'' then mapR uminus (grouped_digits t)
               else if c = CHR ''+'' then grouped_digits t else grouped_digits (c # t))"

fun py_int_of :: "py \<Rightarrow> int result" where
  "py_int_of (PInt i) = Inr i"
| "py_int_of (PBool b) = Inr (of_bool b)"
| "py_int_of (PFloat r) = Inr (if r < 0 then - \<lfloor>- r\<rfloor> else \<lfloor>r\<rfloor>)"
| "py_int_of (PStr s) = parse_int s"
| "py_int_of _ = Inl TypeError"

end
