(* ===== verification/Mcp_Log.thy ===== *)
theory Mcp_Log
  imports Py_Matches
begin

text \<open>
  \<open>BoundedLog\<close> of \<open>mcp_runtime/supervisor.py\<close>: the last lines of what a managed server writes,
  with the values of its secrets replaced. Reading the pipe (\<open>_drain\<close>) appends the decoded chunks.
  The set of secrets is a list in the order in which the code iterates it, which is any order.
\<close>

section \<open>Strings\<close>

text \<open>The line boundaries of \<open>str.splitlines\<close> below code point 256.\<close>

definition line_break :: "char \<Rightarrow> bool" where
  "line_break c = (code c \<in> {10, 11, 12, 13, 28, 29, 30, 133})"

fun splitlines :: "string \<Rightarrow> string list" where
  "splitlines [] = []"
| "splitlines (c # s) =
     (if c = CHR 0x0D \<and> s \<noteq> [] \<and> hd s = CHR 0x0A then [c, CHR 0x0A] # splitlines (tl s)
      else if line_break c then [c] # splitlines s
      else (case splitlines s of [] \<Rightarrow> [[c]] | l # ls \<Rightarrow> (c # l) # ls))"

definition redaction_mark :: string where
  "redaction_mark = ''[REDACTED]''"

section \<open>The log\<close>

record bounded_log =
  log_lines :: "string list"
  partial :: string
  redactions :: "string list"
  max_lines :: nat

definition new_log :: "nat \<Rightarrow> bounded_log" where
  "new_log n = \<lparr>log_lines = [], partial = [], redactions = [], max_lines = n\<rparr>"

definition set_redactions :: "string list \<Rightarrow> bounded_log \<Rightarrow> bounded_log" where
  "set_redactions values l = l\<lparr>redactions := remdups (filter (\<lambda>v. v \<noteq> []) values)\<rparr>"

definition redact :: "string list \<Rightarrow> string \<Rightarrow> string" where
  "redact secrets v = foldl (\<lambda>v secret. str_replace secret redaction_mark v) v secrets"

definition ends_line :: "string \<Rightarrow> bool" where
  "ends_line part = (ends_with part [CHR 0x0A] \<or> ends_with part [CHR 0x0D])"

definition is_crlf :: "char \<Rightarrow> bool" where
  "is_crlf c = (c = CHR 0x0D \<or> c = CHR 0x0A)"

definition add_part :: "bounded_log \<Rightarrow> string \<Rightarrow> bounded_log" where
  "add_part l part =
     (if ends_line part
      then l\<lparr>log_lines := last_n (max_lines l) (log_lines l @ [rstrip_by is_crlf part])\<rparr>
      else l\<lparr>partial := part\<rparr>)"

definition log_append :: "bounded_log \<Rightarrow> string \<Rightarrow> bounded_log" where
  "log_append l v =
     foldl add_part (l\<lparr>partial := []\<rparr>) (splitlines (redact (redactions l) (partial l @ v)))"

definition log_write :: "bounded_log \<Rightarrow> string \<Rightarrow> bounded_log \<times> nat" where
  "log_write l v = (log_append l v, length v)"

definition drain :: "(string \<Rightarrow> string) \<Rightarrow> bounded_log \<Rightarrow> string list \<Rightarrow> bounded_log" where
  "drain decode l chunks = foldl log_append l (map decode chunks)"

definition lines :: "bounded_log \<Rightarrow> int \<Rightarrow> string list" where
  "lines l limit =
     from_end (nat (max 0 (min limit 500)))
       (log_lines l @ (if partial l = [] then [] else [partial l]))"

section \<open>Redaction\<close>

text \<open>
  A secret that the text \<open>[REDACTED]\<close> cannot bring back: it has no square bracket and is not a
  part of the word between them.
\<close>

definition coverable :: "string \<Rightarrow> bool" where
  "coverable t = (t \<noteq> [] \<and> CHR ''['' \<notin> set t \<and> CHR '']'' \<notin> set t \<and> \<not> sublist t ''REDACTED'')"

lemma sublist_across:
  assumes "sublist t (xs @ c # ys)" "c \<notin> set t"
  shows "sublist t xs \<or> sublist t ys"
proof -
  from assms(1) obtain u v where uv: "xs @ c # ys = u @ t @ v" by (auto simp: sublist_def)
  show ?thesis
  proof (cases "length u \<le> length xs")
    case True
    have "length u + length t \<le> length xs"
    proof (rule ccontr)
      assume "\<not> ?thesis"
      with True have "(u @ t @ v) ! length xs = t ! (length xs - length u)"
        and "length xs - length u < length t"
        by (auto simp: nth_append)
      then have "c \<in> set t" unfolding uv [symmetric] by (auto simp: nth_append)
      with assms(2) show False by simp
    qed
    then have "take (length u + length t) xs = u @ t"
      using arg_cong [OF uv, of "take (length u + length t)"] by simp
    then show ?thesis by (metis sublist_append_rightI sublist_appendI sublist_order.order_trans sublist_take append_Nil2 sublist_append_leftI)
  next
    case False
    then have "drop (Suc (length xs)) u @ t @ v = ys"
      using arg_cong [OF uv, of "drop (Suc (length xs))"] by (simp add: drop_append)
    then show ?thesis by (auto simp: sublist_def)
  qed
qed

lemma sublist_redacted:
  assumes "coverable t" "sublist t (redaction_mark @ w)"
  shows "sublist t w"
proof -
  have "sublist t ([] @ CHR ''['' # (''REDACTED'' @ CHR '']'' # w))" using assms(2) by (simp add: redaction_mark_def)
  from sublist_across [OF this] assms(1) have "sublist t (''REDACTED'' @ CHR '']'' # w)"
    by (auto simp: coverable_def)
  from sublist_across [OF this] assms(1) show ?thesis by (auto simp: coverable_def)
qed

lemma prefix_str_replace:
  "prefix p (str_replace s redaction_mark v) \<Longrightarrow> CHR ''['' \<notin> set p \<Longrightarrow> prefix p v"
proof (induction s redaction_mark v arbitrary: p rule: str_replace.induct)
  case (2 s c v)
  then show ?case
    by (cases p) (auto simp: str_replace_Cons redaction_mark_def split: if_splits)
qed simp

text \<open>Replacing one secret does not make another appear, and leaves none of its own.\<close>

lemma str_replace_no_new:
  "sublist t (str_replace s redaction_mark v) \<Longrightarrow> coverable t \<Longrightarrow> sublist t v"
proof (induction s redaction_mark v rule: str_replace.induct)
  case (2 s c v)
  show ?case
  proof (cases "s \<noteq> [] \<and> prefix s (c # v)")
    case True
    with 2 have "sublist t (drop (length s) (c # v))"
      by (auto simp: str_replace_Cons intro: "2.hyps"(1) sublist_redacted)
    then show ?thesis by (meson sublist_drop sublist_order.order_trans)
  next
    case False
    with "2.prems"(1) have "prefix t (c # str_replace s redaction_mark v) \<or> sublist t (str_replace s redaction_mark v)"
      by (auto simp: str_replace_Cons sublist_Cons_right)
    then show ?thesis
    proof
      assume "prefix t (c # str_replace s redaction_mark v)"
      with "2.prems"(2) have "prefix t (c # v)"
        by (cases t) (auto simp: coverable_def intro: prefix_str_replace)
      then show ?thesis by (rule prefix_imp_sublist)
    next
      assume "sublist t (str_replace s redaction_mark v)"
      with False "2.prems"(2) have "sublist t v" by (intro "2.hyps"(2)) auto
      then show ?thesis by (simp add: sublist_Cons_right)
    qed
  qed
qed simp

lemma str_replace_removes: "coverable s \<Longrightarrow> \<not> sublist s (str_replace s redaction_mark v)"
proof (induction s redaction_mark v rule: str_replace.induct)
  case (2 s c v)
  show ?case
  proof (cases "prefix s (c # v)")
    case True
    with 2 show ?thesis
      by (auto simp: str_replace_Cons coverable_def dest!: sublist_redacted [rotated])
  next
    case False
    then have "\<not> prefix s (c # str_replace s redaction_mark v)"
      using "2.prems" by (cases s) (auto simp: coverable_def dest: prefix_str_replace)
    moreover have "\<not> sublist s (str_replace s redaction_mark v)"
      using False "2.prems" by (intro "2.hyps"(2)) auto
    ultimately show ?thesis using False by (simp add: str_replace_Cons sublist_Cons_right)
  qed
qed (simp add: coverable_def)

lemma redact_hides: "t \<in> set secrets \<Longrightarrow> coverable t \<Longrightarrow> \<not> sublist t (redact secrets v)"
proof (induction secrets rule: rev_induct)
  case (snoc r rs)
  then show ?case
    by (cases "t = r") (auto simp: redact_def str_replace_removes dest: str_replace_no_new)
qed simp

lemma concat_splitlines: "concat (splitlines s) = s"
proof (induction s rule: splitlines.induct)
  case (2 c s)
  then show ?case by (auto split: list.splits simp: neq_Nil_conv)
qed simp

lemma splitlines_part: "part \<in> set (splitlines s) \<Longrightarrow> sublist part s"
  by (metis concat_append concat.simps(2) concat_splitlines in_set_conv_decomp sublist_def)

lemma rstrip_by_prefix: "prefix (rstrip_by p s) s"
  unfolding rstrip_by_def by (metis rev_rev_ident suffix_dropWhile suffix_to_prefix)

definition hides :: "string \<Rightarrow> string set \<Rightarrow> bounded_log \<Rightarrow> bool" where
  "hides t old l \<longleftrightarrow> (\<forall>x \<in> set (log_lines l) - old. \<not> sublist t x) \<and> \<not> sublist t (partial l)"

lemma add_part_hides: "hides t old l \<Longrightarrow> \<not> sublist t part \<Longrightarrow> hides t old (add_part l part)"
proof -
  assume l: "hides t old l" and part: "\<not> sublist t part"
  from part have "\<not> sublist t (rstrip_by is_crlf part)"
    by (meson prefix_imp_sublist rstrip_by_prefix sublist_order.order_trans)
  with l part set_last_n show ?thesis by (fastforce simp: hides_def add_part_def)
qed

lemma add_part_frame [simp]: "redactions (add_part l part) = redactions l" "max_lines (add_part l part) = max_lines l"
  by (simp_all add: add_part_def)

lemma log_append_frame [simp]: "redactions (log_append l v) = redactions l" "max_lines (log_append l v) = max_lines l"
proof -
  have "redactions (foldl add_part l ps) = redactions l" "max_lines (foldl add_part l ps) = max_lines l" for l ps
    by (induction ps arbitrary: l) simp_all
  then show "redactions (log_append l v) = redactions l" "max_lines (log_append l v) = max_lines l"
    by (simp_all add: log_append_def)
qed

lemma log_append_hides:
  assumes "hides t old l" "t \<in> set (redactions l)" "coverable t"
  shows "hides t old (log_append l v)"
proof -
  have part: "\<not> sublist t x" if "x \<in> set (splitlines (redact (redactions l) (partial l @ v)))" for x
    using redact_hides [OF assms(2,3)] splitlines_part [OF that] sublist_order.order_trans by blast
  have "hides t old (l\<lparr>partial := []\<rparr>)" using assms(1,3) by (auto simp: hides_def coverable_def)
  then show ?thesis
    unfolding log_append_def
    by (rule foldl_invariant [where I = "hides t old"]) (use part add_part_hides in auto)
qed

section \<open>Lines\<close>

definition only_newlines :: "string \<Rightarrow> bool" where
  "only_newlines s = (\<forall>c \<in> set s. line_break c \<longrightarrow> c = CHR 0x0A)"

lemma line_break_newline [simp]: "line_break (CHR 0x0A)" "line_break (CHR 0x0D)"
  by (simp_all add: line_break_def code_def)

lemma splitlines_split_on:
  "only_newlines s \<Longrightarrow> splitlines s =
     map (\<lambda>w. w @ [CHR 0x0A]) (butlast (split_on (CHR 0x0A) s))
     @ (if last (split_on (CHR 0x0A) s) = [] then [] else [last (split_on (CHR 0x0A) s)])"
proof (induction s rule: splitlines.induct)
  case (2 c s)
  have c: "c \<noteq> CHR 0x0D" using 2(4) by (auto simp: only_newlines_def)
  have s: "only_newlines s" using 2(4) by (simp add: only_newlines_def)
  show ?case
  proof (cases "line_break c")
    case True
    with 2(4) have "c = CHR 0x0A" by (auto simp: only_newlines_def)
    with True c 2(2) s show ?thesis by simp
  next
    case False
    then have "c \<noteq> CHR 0x0A" by auto
    obtain w ws where ws: "split_on (CHR 0x0A) s = w # ws" by (cases "split_on (CHR 0x0A) s") auto
    from False c \<open>c \<noteq> CHR 0x0A\<close> 2(3) [OF _ _ s] ws show ?thesis
      by (cases ws) auto
  qed
qed simp

lemma last_n_append_last_n: "last_n n (last_n n a @ b) = last_n n (a @ b)"
  by (cases "length a \<le> n") (auto simp: last_n_def add.commute)

lemma add_whole_lines:
  assumes "\<forall>w \<in> set ws. \<forall>c \<in> set w. \<not> is_crlf c"
  shows "foldl add_part l (map (\<lambda>w. w @ [CHR 0x0A]) ws)
      = l\<lparr>log_lines := (if ws = [] then log_lines l else last_n (max_lines l) (log_lines l @ ws))\<rparr>"
  using assms
proof (induction ws rule: rev_induct)
  case (snoc w ws)
  have strip: "rstrip_by is_crlf (w @ [CHR 0x0A]) = w"
  proof (cases w rule: rev_cases)
    case (snoc v d)
    with snoc.prems show ?thesis by (simp add: rstrip_by_def is_crlf_def)
  qed (simp add: rstrip_by_def is_crlf_def)
  from snoc show ?case
    by (auto simp: add_part_def ends_line_def strip last_n_append_last_n [of _ "_ @ _", simplified])
qed simp

lemma split_on_append_last:
  "split_on c (a @ b) = butlast (split_on c a) @ split_on c (last (split_on c a) @ b)"
proof (induction a)
  case (Cons d a)
  obtain w ws where ws: "split_on c a = w # ws" by (cases "split_on c a") auto
  obtain v vs where vs: "split_on c (w @ b) = v # vs" by (cases "split_on c (w @ b)") auto
  from Cons ws vs show ?case by (cases ws) auto
qed simp

text \<open>A log without secrets: the last whole lines of the text, and what follows the last newline.\<close>

definition shows_text :: "string \<Rightarrow> bounded_log \<Rightarrow> bool" where
  "shows_text s l \<longleftrightarrow> redactions l = []
     \<and> log_lines l = last_n (max_lines l) (butlast (split_on (CHR 0x0A) s))
     \<and> partial l = last (split_on (CHR 0x0A) s)"

lemma split_on_chars: "\<forall>w \<in> set (split_on k s). set w \<subseteq> set s"
proof (induction s)
  case (Cons c s)
  obtain w ws where ws: "split_on k s = w # ws" by (cases "split_on k s") auto
  with Cons show ?case by auto
qed simp

lemma split_on_no_crlf:
  assumes "only_newlines s" "w \<in> set (split_on (CHR 0x0A) s)" "c \<in> set w"
  shows "\<not> is_crlf c"
proof -
  from assms split_on_chars [of "CHR 0x0A" s] have "c \<in> set s" by blast
  with assms split_on_no_sep [of "CHR 0x0A" s] show ?thesis
    by (fastforce simp: is_crlf_def only_newlines_def)
qed

lemma log_append_shows:
  assumes l: "shows_text s l" and nl: "only_newlines (s @ v)"
  shows "shows_text (s @ v) (log_append l v)"
proof -
  let ?p = "last (split_on (CHR 0x0A) s)"
  have "set ?p \<subseteq> set s"
    using split_on_chars last_in_set [OF split_on_ne] by blast
  with nl have nl': "only_newlines (?p @ v)" by (auto simp: only_newlines_def)
  let ?ws = "split_on (CHR 0x0A) (?p @ v)"
  have whole: "\<forall>w \<in> set ?ws. \<forall>c \<in> set w. \<not> is_crlf c"
    using split_on_no_crlf [OF nl'] by blast
  have last: "\<not> ends_line (last ?ws)"
  proof (cases "last ?ws" rule: rev_cases)
    case (snoc u d)
    with whole last_in_set [OF split_on_ne, of "CHR 0x0A" "?p @ v"] have "\<not> is_crlf d" by auto
    with snoc show ?thesis by (auto simp: ends_line_def is_crlf_def)
  qed (simp add: ends_line_def)
  have idem: "last_n n (last_n n a) = last_n n a" for n and a :: "string list"
    using last_n_append_last_n [of n a "[]"] by simp
  have lines: "butlast (split_on (CHR 0x0A) (s @ v)) = butlast (split_on (CHR 0x0A) s) @ butlast ?ws"
    by (simp add: split_on_append_last [of _ s v] butlast_append)
  have "\<forall>w \<in> set (butlast ?ws). \<forall>c \<in> set w. \<not> is_crlf c"
    using whole by (auto dest: in_set_butlastD)
  from add_whole_lines [OF this, of "l\<lparr>partial := []\<rparr>"] l
  have "foldl add_part (l\<lparr>partial := []\<rparr>) (map (\<lambda>w. w @ [CHR 0x0A]) (butlast ?ws))
      = l\<lparr>partial := [], log_lines := last_n (max_lines l) (butlast (split_on (CHR 0x0A) (s @ v)))\<rparr>"
    by (cases "butlast ?ws = []") (simp_all add: shows_text_def lines last_n_append_last_n idem)
  then have "log_append l v = l\<lparr>partial := last ?ws,
      log_lines := last_n (max_lines l) (butlast (split_on (CHR 0x0A) (s @ v)))\<rparr>"
    using l last splitlines_split_on [OF nl']
    by (simp add: log_append_def shows_text_def redact_def add_part_def)
  with l show ?thesis
    by (simp add: shows_text_def split_on_append_last [of _ s v])
qed

lemma log_run_shows:
  "only_newlines (concat vs) \<Longrightarrow> shows_text (concat vs) (foldl log_append (new_log n) vs)"
proof (induction vs rule: rev_induct)
  case Nil
  show ?case by (simp add: shows_text_def new_log_def last_n_def)
next
  case (snoc v vs)
  from snoc.prems have "only_newlines (concat vs)" by (auto simp: only_newlines_def)
  with snoc show ?case by (simp add: log_append_shows)
qed

lemma log_run_frame [simp]:
  "redactions (foldl log_append l vs) = redactions l" "max_lines (foldl log_append l vs) = max_lines l"
  by (induction vs arbitrary: l) simp_all

lemma lines_member: "x \<in> set (lines l limit) \<Longrightarrow> x \<in> set (log_lines l) \<or> x = partial l"
  by (auto simp: lines_def from_end_def split: if_splits dest!: set_last_n [THEN subsetD])

section \<open>Properties\<close>

text \<open>C29: once the secrets of a server are set, no line that the log returns has one of them as a part, however the
  output is cut into chunks, but for lines finished before; this is for a secret without brackets that is no part of
  \<open>REDACTED\<close>, so that the mark \<open>[REDACTED]\<close> cannot contribute to it, and a log whose unfinished line does not
  have it when the secrets are set (a fresh log has neither lines).\<close>

theorem secrets_never_shown:
  assumes "x \<in> set (lines (drain decode (set_redactions values l) chunks) limit)"
    and "t \<in> set values" and "coverable t" and "\<not> sublist t (partial l)" and "x \<notin> set (log_lines l)"
  shows "\<not> sublist t x"
proof -
  let ?l = "set_redactions values l"
  have t: "t \<in> set (redactions ?l)" using assms(2,3) by (simp add: set_redactions_def coverable_def)
  have "hides t (set (log_lines l)) ?l" using assms(4) by (auto simp: set_redactions_def hides_def)
  then have "hides t (set (log_lines l)) (foldl log_append ?l vs)" for vs
    by (induction vs rule: rev_induct) (auto simp: t assms(3) intro: log_append_hides)
  then have "hides t (set (log_lines l)) (drain decode ?l chunks)" by (simp add: drain_def)
  with lines_member [OF assms(1)] assms(5) show ?thesis by (auto simp: hides_def)
qed

lemma secrets_never_shown_witness:
  "\<exists>x \<in> set (lines (drain (\<lambda>b. b) (set_redactions [''hunter2''] (new_log 500)) [''pw hun'', ''ter2'' @ [CHR 0x0A]]) 200).
     \<not> sublist ''hunter2'' x"
proof -
  let ?l = "drain (\<lambda>b. b) (set_redactions [''hunter2''] (new_log 500)) [''pw hun'', ''ter2'' @ [CHR 0x0A]]"
  have "lines ?l 200 = [''pw [REDACTED]'']" by code_simp
  then have mem: "''pw [REDACTED]'' \<in> set (lines ?l 200)" by simp
  moreover have "\<not> sublist ''hunter2'' ''pw [REDACTED]''"
    by (rule secrets_never_shown [OF mem]) (simp_all add: coverable_def sublist_code new_log_def)
  ultimately show ?thesis by blast
qed

text \<open>A secret with a bracket may be completed by the mark that covers another occurrence of it.\<close>

lemma mark_completes_secret:
  "lines (drain (\<lambda>b. b) (set_redactions [''p[R''] (new_log 500)) [''pp[R'']) 200 = [''p[REDACTED]'']"
  "sublist ''p[R'' ''p[REDACTED]''"
  by (code_simp, simp add: sublist_code)

text \<open>However the output of a server is cut into chunks, the log returns the last lines of the
  whole text, as many as asked for and at most 500, the unfinished one included, as long as no
  secret is set and lines end in a newline.\<close>

theorem log_returns_last_lines:
  assumes "only_newlines (concat chunks)" and "1 \<le> limit"
  shows "lines (foldl log_append (new_log 500) chunks) limit =
      last_n (nat (min limit 500)) (let ls = split_on (CHR 0x0A) (concat chunks) in
        if last ls = [] then butlast ls else ls)"
proof -
  let ?ls = "split_on (CHR 0x0A) (concat chunks)"
  let ?l = "foldl log_append (new_log 500) chunks"
  from log_run_shows [OF assms(1), of 500]
  have l: "log_lines ?l = last_n 500 (butlast ?ls)" "partial ?l = last ?ls"
    by (simp_all add: shows_text_def new_log_def)
  have cut: "last_n m (last_n 500 a @ b) = last_n m (a @ b)" if "m \<le> 500" for m and a b :: "string list"
    using that by (cases "length a \<le> 500") (auto simp: last_n_def add.commute)
  have "nat (min limit 500) \<le> 500" "nat (min limit 500) \<noteq> 0" using assms(2) by auto
  moreover have "nat (max 0 (min limit 500)) = nat (min limit 500)" using assms(2) by simp
  ultimately show ?thesis
    by (simp add: lines_def from_end_def l cut cut [where b = "[]", simplified] Let_def)
qed

lemma log_returns_last_lines_witness:
  "lines (foldl log_append (new_log 500) [''up'' @ [CHR 0x0A] @ ''li'', ''sten'' @ [CHR 0x0A] @ ''o'']) 2 = [''listen'', ''o'']"
  by (subst log_returns_last_lines) (simp_all add: only_newlines_def line_break_def code_def last_n_def)

text \<open>A limit of 0 returns every line, as \<open>values[-0:]\<close> does.\<close>

theorem limit_zero_returns_all:
  "lines l 0 = log_lines l @ (if partial l = [] then [] else [partial l])"
  by (simp add: lines_def from_end_def)

text \<open>
  A separator other than the newline characters ends a part that is kept as the unfinished line,
  and the next one replaces it: the text before a form feed is lost.
\<close>

theorem form_feed_loses_text:
  "lines (log_append (new_log 500) (''a'' @ [CHR 0x0C] @ ''b'' @ [CHR 0x0C] @ ''c'')) 200 = [''c'']"
  by code_simp

end
