(* ===== verification/Mcp_Actor.thy ===== *)
theory Mcp_Actor
  imports Mcp_Registry Mcp_Log
begin

text \<open>
  \<open>ServerActor\<close> of \<open>mcp_runtime/supervisor.py\<close>: one managed server, the task that runs its session
  and the requests to it. The coroutines interleave at their awaits, so the actor is a step
  relation: each step is what runs between two awaits. A task of \<open>_run\<close> is an entry of \<open>runs\<close>
  with the await it stands at (\<open>phase\<close>); more than one may be alive. The subprocess and the MCP
  session are the environment: they decide which step comes next and what a call returns.
\<close>

section \<open>Data\<close>

datatype server_state = Stopped | Starting | Ready | Failed | Stopping

text \<open>An exception: its type, \<open>str(exc)\<close>, and the members of an exception group.\<close>

datatype exn = Exn (exn_type: string) (exn_str: string) (exn_nested: "exn list")

fun describe_exception :: "exn \<Rightarrow> string" where
  "describe_exception (Exn ty msg nested) =
     (if nested \<noteq> []
      then (let details = str_join ''; '' (map describe_exception nested) in
            if msg \<noteq> [] then msg @ '': '' @ details else details)
      else if msg \<noteq> [] then msg else ty)"

abbreviation supervisor_error :: "string \<Rightarrow> exn" where
  "supervisor_error msg \<equiv> Exn ''SupervisorError'' msg []"

definition cancelled_error :: exn where
  "cancelled_error = Exn ''CancelledError'' [] []"

record request =
  future :: nat
  operation :: string
  rq_name :: "string option"
  arguments :: py

datatype answer = Pending | Done py | Raised exn | Abandoned

text \<open>
  Where a run stands: created and not yet begun, starting the session, waiting for a request or
  the exit of the process, in a tool call, closing the session after an exception or a
  cancellation, or asleep before a restart.
\<close>

datatype cause = Error exn | Cancel
datatype phase = Created | Launching | Serving | is_Calling: Calling request | Unwinding cause | Backoff

record run =
  phase :: phase
  attempts :: nat

text \<open>
  Who waits in \<open>Queue.get\<close>: a run, or a task that nobody awaits any more. \<open>asyncio.wait\<close> does not
  cancel the tasks it waits for when it is cancelled itself.
\<close>

datatype getter = Live nat | Orphan

record actor =
  server :: managed_server
  base_environment :: "(string \<times> string) list"
  launch_uid :: "int option"
  launch_gid :: "int option"
  state :: server_state
  last_error :: "string option"
  tools :: "py list"
  logs :: bounded_log
  queue :: "request list"
  getters :: "getter list"
  task :: "nat option"
  ready :: bool
  futures :: "answer list"
  runs :: "(nat \<times> run) list"
  next_task :: nat
  stops :: "nat list"

definition new_actor ::
    "managed_server \<Rightarrow> (string \<times> string) list \<Rightarrow> int option \<Rightarrow> int option \<Rightarrow> actor" where
  "new_actor s env uid gid =
     \<lparr>server = s, base_environment = env, launch_uid = uid, launch_gid = gid, state = Stopped,
      last_error = None, tools = [], logs = new_log 500, queue = [], getters = [], task = None,
      ready = False, futures = [], runs = [], next_task = 0, stops = []\<rparr>"

section \<open>Launching\<close>

text \<open>\<open>values.update(pairs)\<close>\<close>

definition dict_update :: "('k \<times> 'v) list \<Rightarrow> ('k \<times> 'v) list \<Rightarrow> ('k \<times> 'v) list" where
  "dict_update d pairs = foldl (\<lambda>d (k, v). dset k v d) d pairs"

definition default_values :: "(string \<times> environment_setting) list \<Rightarrow> (string \<times> string) list" where
  "default_values definitions =
     concat (map (\<lambda>(name, d). case es_default d of None \<Rightarrow> [] | Some v \<Rightarrow> [(name, v)]) definitions)"

fun add_secrets ::
    "(string \<Rightarrow> string option) \<Rightarrow> (string \<times> string) list \<Rightarrow> (string \<times> string) list \<Rightarrow> (exn + (string \<times> string) list)" where
  "add_secrets environ values [] = Inr values"
| "add_secrets environ values ((name, reference) # rest) =
     (case environ reference of
        None \<Rightarrow> Inl (supervisor_error (''secret environment reference '' @ reference @ '' for '' @ name @ '' is unset''))
      | Some v \<Rightarrow> add_secrets environ (dset name v values) rest)"

definition read_only_value :: "managed_server \<Rightarrow> string" where
  "read_only_value s = (if read_only (security (manifest s)) then ''true'' else ''false'')"

definition actor_environment :: "(string \<Rightarrow> string option) \<Rightarrow> actor \<Rightarrow> exn + (string \<times> string) list" where
  "actor_environment environ a =
     (let s = server a;
          values = dset ''OPEN_WEBUI_MCP_READ_ONLY'' (read_only_value s) (base_environment a);
          values = dict_update values (default_values (mf_environment (manifest s)));
          values = dict_update values (environment s)
      in add_secrets environ values (secret_environment s))"

text \<open>The values that \<open>_environment\<close> gives to \<open>set_redactions\<close>.\<close>

definition secret_values :: "managed_server \<Rightarrow> (string \<times> string) list \<Rightarrow> string list" where
  "secret_values s values =
     concat (map (\<lambda>name. case dget values name of None \<Rightarrow> [] | Some v \<Rightarrow> [v]) (dkeys (secret_environment s)))"

definition working_path :: "host \<Rightarrow> managed_server \<Rightarrow> exn + pure_path" where
  "working_path H s =
     (let package = resolve H (path_of (package_path s));
          working = resolve H (path_join package (path_of (working_directory (runtime (manifest s)))))
      in if working \<noteq> package \<and> \<not> is_relative_to working package
         then Inl (supervisor_error ''runtime working directory escapes package directory'')
         else Inr working)"

text \<open>What is executed: the parameters of the subprocess.\<close>

record launch =
  l_command :: string
  l_args :: "string list"
  l_cwd :: pure_path
  l_env :: "(string \<times> string) list"
  l_user :: "int option"
  l_group :: "int option"

definition launch_parameters :: "host \<Rightarrow> (string \<Rightarrow> string option) \<Rightarrow> actor \<Rightarrow> exn + launch" where
  "launch_parameters H environ a =
     (case working_path H (server a) of
        Inl e \<Rightarrow> Inl e
      | Inr w \<Rightarrow> (case actor_environment environ a of
          Inl e \<Rightarrow> Inl e
        | Inr values \<Rightarrow> Inr
            \<lparr>l_command = command (runtime (manifest (server a))), l_args = args (runtime (manifest (server a))),
             l_cwd = w, l_env = values, l_user = launch_uid a, l_group = launch_gid a\<rparr>))"

section \<open>Steps\<close>

definition set_phase :: "nat \<Rightarrow> phase \<Rightarrow> actor \<Rightarrow> actor" where
  "set_phase t p a =
     (case dget (runs a) t of None \<Rightarrow> a | Some r \<Rightarrow> a\<lparr>runs := dset t (r\<lparr>phase := p\<rparr>) (runs a)\<rparr>)"

definition end_run :: "nat \<Rightarrow> actor \<Rightarrow> actor" where
  "end_run t a = a\<lparr>runs := dpop t (runs a)\<rparr>"

text \<open>\<open>if not future.done(): future.set_result(...)\<close>, or \<open>set_exception\<close>.\<close>

definition settle :: "answer \<Rightarrow> answer list \<Rightarrow> request \<Rightarrow> answer list" where
  "settle ans fs rq = (if fs ! future rq = Pending then fs[future rq := ans] else fs)"

definition settle_request :: "answer \<Rightarrow> request \<Rightarrow> actor \<Rightarrow> actor" where
  "settle_request ans rq a = a\<lparr>futures := settle ans (futures a) rq\<rparr>"

definition fail_pending :: "exn \<Rightarrow> actor \<Rightarrow> actor" where
  "fail_pending e a = a\<lparr>futures := foldl (settle (Raised e)) (futures a) (queue a), queue := []\<rparr>"

text \<open>\<open>start\<close> with no task running and an unchanged package: \<open>create_task(self._run())\<close>.\<close>

definition begin_run :: "actor \<Rightarrow> actor" where
  "begin_run a = a\<lparr>state := Starting, last_error := None, ready := False, task := Some (next_task a),
     runs := runs a @ [(next_task a, \<lparr>phase = Created, attempts = 0\<rparr>)], next_task := Suc (next_task a)\<rparr>"

definition task_done :: "actor \<Rightarrow> bool" where
  "task_done a = (case task a of None \<Rightarrow> True | Some t \<Rightarrow> dget (runs a) t = None)"

text \<open>The \<open>finally\<close> clause of \<open>_run_session\<close>.\<close>

definition session_finally :: "actor \<Rightarrow> actor" where
  "session_finally a = (if state a = Failed \<or> state a = Stopping then a else a\<lparr>state := Stopped\<rparr>)"

text \<open>\<open>min(2 ** (attempts - 1), 30)\<close> seconds before the next session.\<close>

definition backoff_seconds :: "nat \<Rightarrow> nat" where
  "backoff_seconds n = min (2 ^ (n - 1)) 30"

text \<open>The exception handler of \<open>_run\<close>.\<close>

definition run_failed :: "nat \<Rightarrow> exn \<Rightarrow> actor \<Rightarrow> actor" where
  "run_failed t e a =
     (let msg = describe_exception e;
          a = a\<lparr>last_error := Some msg,
                logs := log_append (logs a) (''Managed runtime failure: '' @ msg @ [CHR 0x0A]), state := Failed\<rparr>;
          a = fail_pending e a;
          l = limits (manifest (server a))
      in case dget (runs a) t of
           None \<Rightarrow> a
         | Some r \<Rightarrow>
             if restart l = ''on-failure'' \<and> int (attempts r) < max_restarts l
             then a\<lparr>state := Starting, runs := dset t \<lparr>phase = Backoff, attempts = Suc (attempts r)\<rparr> (runs a)\<rparr>
             else end_run t (a\<lparr>ready := True\<rparr>))"

text \<open>The start of \<open>_run_session\<close>, up to the creation of the subprocess.\<close>

definition enter_session :: "host \<Rightarrow> (string \<Rightarrow> string option) \<Rightarrow> nat \<Rightarrow> actor \<Rightarrow> actor" where
  "enter_session H environ t a =
     (case launch_parameters H environ a of
        Inl e \<Rightarrow> run_failed t e (session_finally a)
      | Inr l \<Rightarrow> set_phase t Launching
          (a\<lparr>logs := set_redactions (secret_values (server a) (l_env l)) (logs a)\<rparr>))"

text \<open>The loop of the session begins, or begins again: a new \<open>Queue.get\<close> is waited for.\<close>

definition await_request :: "nat \<Rightarrow> actor \<Rightarrow> actor" where
  "await_request t a = set_phase t Serving (a\<lparr>getters := getters a @ [Live t]\<rparr>)"

record mcp_tool =
  t_name :: string
  t_description :: "string option"
  input_schema :: py
  output_schema :: "py option"

definition tool_dict :: "mcp_tool \<Rightarrow> py" where
  "tool_dict mt =
     PDict ([(''name'', PStr (t_name mt)),
             (''description'', PStr (case t_description mt of None \<Rightarrow> [] | Some d \<Rightarrow> d)),
             (''parameters'', input_schema mt)]
            @ (case output_schema mt of None \<Rightarrow> [] | Some sc \<Rightarrow> [(''outputSchema'', sc)]))"

definition session_up :: "nat \<Rightarrow> mcp_tool list \<Rightarrow> actor \<Rightarrow> actor" where
  "session_up t listed a =
     await_request t (a\<lparr>tools := map tool_dict listed, last_error := None, state := Ready, ready := True\<rparr>)"

definition submit :: "string \<Rightarrow> string option \<Rightarrow> py \<Rightarrow> actor \<Rightarrow> actor" where
  "submit op name given a =
     a\<lparr>queue := queue a @ [\<lparr>future = length (futures a), operation = op, rq_name = name,
                           arguments = (if truthy given then given else PDict [])\<rparr>],
       futures := futures a @ [Pending]\<rparr>"

text \<open>A run that got a request from the queue.\<close>

definition serve :: "nat \<Rightarrow> request \<Rightarrow> actor \<Rightarrow> actor" where
  "serve t rq a =
     (if operation rq = ''list_tools''
      then await_request t (settle_request (Done (PList (tools a))) rq a)
      else if operation rq = ''call_tool'' \<and> rq_name rq \<noteq> None \<and> rq_name rq \<noteq> Some []
      then set_phase t (Calling rq) a
      else (let e = supervisor_error (''unsupported actor operation: '' @ operation rq)
            in set_phase t (Unwinding (Error e)) (settle_request (Raised e) rq a)))"

definition exit_error :: "actor \<Rightarrow> int \<Rightarrow> exn" where
  "exit_error a status =
     supervisor_error (''server '' @ ms_id (server a) @ '' exited with status '' @ str_int status)"

text \<open>\<open>task.cancel()\<close> and the next step of the task, at the await where it stands.\<close>

definition cancel_run :: "nat \<Rightarrow> actor \<Rightarrow> actor" where
  "cancel_run t a =
     (case map_option phase (dget (runs a) t) of
        None \<Rightarrow> a
      | Some Created \<Rightarrow> end_run t a
      | Some Backoff \<Rightarrow> end_run t a
      | Some Serving \<Rightarrow> set_phase t (Unwinding Cancel)
          (a\<lparr>getters := map (\<lambda>g. if g = Live t then Orphan else g) (getters a)\<rparr>)
      | Some (Calling rq) \<Rightarrow> set_phase t (Unwinding Cancel) (settle_request (Raised cancelled_error) rq a)
      | Some _ \<Rightarrow> set_phase t (Unwinding Cancel) a)"

definition stop_begin :: "actor \<Rightarrow> actor" where
  "stop_begin a =
     (case task a of
        None \<Rightarrow> a\<lparr>state := Stopped\<rparr>
      | Some t \<Rightarrow> (cancel_run t (a\<lparr>state := Stopping\<rparr>))\<lparr>stops := stops a @ [t]\<rparr>)"

definition stop_end :: "nat \<Rightarrow> actor \<Rightarrow> actor" where
  "stop_end t a =
     fail_pending (supervisor_error (''server '' @ ms_id (server a) @ '' stopped''))
       (a\<lparr>task := None, state := Stopped, stops := remove1 t (stops a)\<rparr>)"

definition unwound :: "nat \<Rightarrow> cause \<Rightarrow> actor \<Rightarrow> actor" where
  "unwound t c a =
     (case c of Cancel \<Rightarrow> end_run t (session_finally a) | Error e \<Rightarrow> run_failed t e (session_finally a))"

datatype event =
    Start_Run
  | Enter nat
  | Up nat "mcp_tool list"
  | Launch_Error nat exn
  | Submit string "string option" py
  | Take nat
  | Reply nat py
  | Call_Error nat exn
  | Exit nat int
  | Exit_With_Request nat int
  | Orphan_Take
  | Unwound nat
  | Stop_Begin
  | Stop_With_Request
  | Stop_End nat
  | Abandon nat
  | Assign managed_server

abbreviation at_phase :: "actor \<Rightarrow> nat \<Rightarrow> phase \<Rightarrow> bool" where
  "at_phase a t p \<equiv> \<exists>r. dget (runs a) t = Some r \<and> phase r = p"

text \<open>
  A getter is served when the queue has an item; asyncio wakes the first one that waits, and one
  that asks in the same turn of the loop may come before it, so the relation lets any of them take
  the item. When the item and the exit of the process are there in the same turn, the session
  raises and the item is lost (\<open>Exit_With_Request\<close>). Between the turn in which \<open>Queue.get\<close> takes
  an item and the turn in which the session serves it, \<open>stop\<close> may cancel the run, in
  \<open>asyncio.wait\<close> or in \<open>gather\<close>; then the item is lost too (\<open>Stop_With_Request\<close>).
\<close>

inductive actor_step ::
    "host \<Rightarrow> (string \<Rightarrow> string option) \<Rightarrow> actor \<Rightarrow> event \<Rightarrow> actor \<Rightarrow> bool"
  for H environ where
  start_run: "task_done a \<Longrightarrow> package_digest H (path_of (package_path (server a))) = Inr (digest (server a)) \<Longrightarrow>
      actor_step H environ a Start_Run (begin_run a)"
| enter: "at_phase a t Created \<or> at_phase a t Backoff \<Longrightarrow>
      actor_step H environ a (Enter t) (enter_session H environ t a)"
| up: "at_phase a t Launching \<Longrightarrow> actor_step H environ a (Up t listed) (session_up t listed a)"
| launch_error: "at_phase a t Launching \<Longrightarrow>
      actor_step H environ a (Launch_Error t e) (set_phase t (Unwinding (Error e)) a)"
| submit: "state a = Ready \<Longrightarrow> actor_step H environ a (Submit op name given) (submit op name given a)"
| take: "at_phase a t Serving \<Longrightarrow> Live t \<in> set (getters a) \<Longrightarrow> queue a = rq # q \<Longrightarrow>
      actor_step H environ a (Take t) (serve t rq (a\<lparr>queue := q, getters := remove1 (Live t) (getters a)\<rparr>))"
| reply: "at_phase a t (Calling rq) \<Longrightarrow>
      actor_step H environ a (Reply t v) (await_request t (settle_request (Done v) rq a))"
| call_error: "at_phase a t (Calling rq) \<Longrightarrow>
      actor_step H environ a (Call_Error t e)
        (set_phase t (Unwinding (Error e)) (settle_request (Raised e) rq a))"
| exit: "at_phase a t Serving \<Longrightarrow> Live t \<in> set (getters a) \<Longrightarrow>
      actor_step H environ a (Exit t status)
        (set_phase t (Unwinding (Error (exit_error a status))) (a\<lparr>getters := remove1 (Live t) (getters a)\<rparr>))"
| exit_with_request: "at_phase a t Serving \<Longrightarrow> Live t \<in> set (getters a) \<Longrightarrow> queue a = rq # q \<Longrightarrow>
      actor_step H environ a (Exit_With_Request t status)
        (set_phase t (Unwinding (Error (exit_error a status)))
           (a\<lparr>queue := q, getters := remove1 (Live t) (getters a)\<rparr>))"
| orphan_take: "Orphan \<in> set (getters a) \<Longrightarrow> queue a = rq # q \<Longrightarrow>
      actor_step H environ a Orphan_Take (a\<lparr>queue := q, getters := remove1 Orphan (getters a)\<rparr>)"
| unwound: "at_phase a t (Unwinding c) \<Longrightarrow> actor_step H environ a (Unwound t) (unwound t c a)"
| stop_begin: "actor_step H environ a Stop_Begin (stop_begin a)"
| stop_with_request: "task a = Some t \<Longrightarrow> at_phase a t Serving \<Longrightarrow> Live t \<in> set (getters a) \<Longrightarrow>
      queue a = rq # q \<Longrightarrow>
      actor_step H environ a Stop_With_Request
        (stop_begin (a\<lparr>queue := q, getters := remove1 (Live t) (getters a)\<rparr>))"
| stop_end: "t \<in> set (stops a) \<Longrightarrow> dget (runs a) t = None \<Longrightarrow>
      actor_step H environ a (Stop_End t) (stop_end t a)"
| abandon: "i < length (futures a) \<Longrightarrow> futures a ! i = Pending \<Longrightarrow>
      actor_step H environ a (Abandon i) (a\<lparr>futures := (futures a)[i := Abandoned]\<rparr>)"
| assign: "actor_step H environ a (Assign s) (a\<lparr>server := s\<rparr>)"

text \<open>A history: the events since the actor was made.\<close>

inductive actor_trace ::
    "host \<Rightarrow> (string \<Rightarrow> string option) \<Rightarrow> actor \<Rightarrow> event list \<Rightarrow> actor \<Rightarrow> bool"
  for H environ a0 where
  nil: "actor_trace H environ a0 [] a0"
| snoc: "actor_trace H environ a0 es a \<Longrightarrow> actor_step H environ a e b \<Longrightarrow> actor_trace H environ a0 (es @ [e]) b"

text \<open>The result of \<open>wait_ready\<close> once the event \<open>_ready\<close> is set.\<close>

definition wait_ready_result :: "actor \<Rightarrow> exn + unit" where
  "wait_ready_result a =
     (if state a \<noteq> Ready
      then Inl (supervisor_error (case last_error a of
          Some (c # cs) \<Rightarrow> c # cs
        | _ \<Rightarrow> ''server '' @ ms_id (server a) @ '' failed to start''))
      else Inr ())"

section \<open>What the operations change\<close>

lemma dget_set_phase [simp]:
  "dget (runs (set_phase t p a)) t' =
     (if t' = t then map_option (\<lambda>r. r\<lparr>phase := p\<rparr>) (dget (runs a) t) else dget (runs a) t')"
  by (auto simp: set_phase_def split: option.splits)

lemma set_phase_frame [simp]:
  "state (set_phase t p a) = state a" "queue (set_phase t p a) = queue a" "stops (set_phase t p a) = stops a"
  "futures (set_phase t p a) = futures a" "next_task (set_phase t p a) = next_task a"
  "server (set_phase t p a) = server a" "getters (set_phase t p a) = getters a" "task (set_phase t p a) = task a"
  by (simp_all add: set_phase_def split: option.splits)

lemma keys_set_phase [simp]: "fst ` set (runs (set_phase t p a)) = fst ` set (runs a)"
  using dget_in_keys [of "runs a" t] by (auto simp: set_phase_def image_iff split: option.splits)

lemma wf_set_phase [simp]: "wf_dict (runs a) \<Longrightarrow> wf_dict (runs (set_phase t p a))"
  by (simp add: set_phase_def split: option.splits)

lemma end_run_frame [simp]:
  "runs (end_run t a) = dpop t (runs a)" "state (end_run t a) = state a" "queue (end_run t a) = queue a"
  "stops (end_run t a) = stops a" "futures (end_run t a) = futures a" "next_task (end_run t a) = next_task a"
  "server (end_run t a) = server a" "getters (end_run t a) = getters a" "task (end_run t a) = task a"
  by (simp_all add: end_run_def)

lemma settle_request_frame [simp]:
  "runs (settle_request ans rq a) = runs a" "state (settle_request ans rq a) = state a"
  "queue (settle_request ans rq a) = queue a" "stops (settle_request ans rq a) = stops a"
  "next_task (settle_request ans rq a) = next_task a" "server (settle_request ans rq a) = server a"
  "getters (settle_request ans rq a) = getters a" "task (settle_request ans rq a) = task a"
  "futures (settle_request ans rq a) = settle ans (futures a) rq"
  by (simp_all add: settle_request_def)

lemma fail_pending_frame [simp]:
  "runs (fail_pending e a) = runs a" "state (fail_pending e a) = state a" "queue (fail_pending e a) = []"
  "stops (fail_pending e a) = stops a" "next_task (fail_pending e a) = next_task a"
  "server (fail_pending e a) = server a" "getters (fail_pending e a) = getters a" "task (fail_pending e a) = task a"
  "futures (fail_pending e a) = foldl (settle (Raised e)) (futures a) (queue a)"
  by (simp_all add: fail_pending_def)

lemma session_finally_frame [simp]:
  "runs (session_finally a) = runs a" "queue (session_finally a) = queue a"
  "stops (session_finally a) = stops a" "next_task (session_finally a) = next_task a"
  "server (session_finally a) = server a" "getters (session_finally a) = getters a"
  "task (session_finally a) = task a" "futures (session_finally a) = futures a"
  by (simp_all add: session_finally_def)

lemma session_finally_state: "state (session_finally a) \<noteq> Ready"
  by (simp add: session_finally_def)

lemma await_request_frame [simp]:
  "state (await_request t a) = state a" "queue (await_request t a) = queue a" "stops (await_request t a) = stops a"
  "futures (await_request t a) = futures a" "next_task (await_request t a) = next_task a"
  "server (await_request t a) = server a" "task (await_request t a) = task a"
  "wf_dict (runs a) \<Longrightarrow> wf_dict (runs (await_request t a))"
  "fst ` set (runs (await_request t a)) = fst ` set (runs a)"
  "dget (runs (await_request t a)) t' =
     (if t' = t then map_option (\<lambda>r. r\<lparr>phase := Serving\<rparr>) (dget (runs a) t) else dget (runs a) t')"
  using wf_set_phase [of "a\<lparr>getters := getters a @ [Live t]\<rparr>"]
    keys_set_phase [of t Serving "a\<lparr>getters := getters a @ [Live t]\<rparr>"]
  by (simp_all add: await_request_def)

lemma run_failed_frame [simp]:
  "queue (run_failed t e a) = []" "stops (run_failed t e a) = stops a" "next_task (run_failed t e a) = next_task a"
  "server (run_failed t e a) = server a" "getters (run_failed t e a) = getters a"
  "futures (run_failed t e a) = foldl (settle (Raised e)) (futures a) (queue a)"
  by (simp_all add: run_failed_def Let_def split: option.splits)

lemma run_failed_state: "state (run_failed t e a) \<noteq> Ready"
  by (simp add: run_failed_def Let_def split: option.splits)

lemma wf_run_failed [simp]: "wf_dict (runs a) \<Longrightarrow> wf_dict (runs (run_failed t e a))"
  by (simp add: run_failed_def Let_def split: option.splits)

lemma dget_run_failed: "dget (runs (run_failed t e a)) t' =
    (if t' \<noteq> t then dget (runs a) t'
     else case dget (runs a) t of
         None \<Rightarrow> None
       | Some r \<Rightarrow>
           if restart (limits (manifest (server a))) = ''on-failure''
              \<and> int (attempts r) < max_restarts (limits (manifest (server a)))
           then Some \<lparr>phase = Backoff, attempts = Suc (attempts r)\<rparr> else None)"
  by (simp add: run_failed_def Let_def split: option.splits)

lemma dget_update_runs: "dget (runs a) t = Some r \<Longrightarrow> t \<in> fst ` set (runs a)"
  by (force dest: map_of_SomeD)

text \<open>Which runs are there after a step: those that were, and the one that begins.\<close>

definition session_phase :: "phase \<Rightarrow> bool" where
  "session_phase p = (case p of Serving \<Rightarrow> True | Calling _ \<Rightarrow> True | Unwinding _ \<Rightarrow> True | _ \<Rightarrow> False)"

lemma session_phase_simps [simp]:
  "session_phase Serving" "session_phase (Calling rq)" "session_phase (Unwinding c)"
  "\<not> session_phase Created" "\<not> session_phase Launching" "\<not> session_phase Backoff"
  by (simp_all add: session_phase_def)

abbreviation in_session :: "actor \<Rightarrow> bool" where
  "in_session a \<equiv> \<exists>t r. dget (runs a) t = Some r \<and> session_phase (phase r)"

definition actor_inv :: "actor \<Rightarrow> bool" where
  "actor_inv a \<longleftrightarrow> (\<forall>t r. dget (runs a) t = Some r \<longrightarrow> t < next_task a)
     \<and> (state a = Ready \<longrightarrow> in_session a)
     \<and> (queue a \<noteq> [] \<longrightarrow> in_session a \<or> stops a \<noteq> [])
     \<and> (\<forall>t r. dget (runs a) t = Some r \<and> phase r = Unwinding Cancel \<longrightarrow> t \<in> set (stops a))"

lemma actor_inv_new: "actor_inv (new_actor s env uid gid)"
  by (simp add: actor_inv_def new_actor_def)

lemma actor_inv_run_failed:
  assumes "actor_inv a" "dget (runs a) t = Some r"
  shows "actor_inv (run_failed t e a)"
  using assms run_failed_state [of t e a]
  by (auto simp: actor_inv_def dget_run_failed split: if_splits option.splits)

lemma actor_inv_session_finally: "actor_inv a \<Longrightarrow> actor_inv (session_finally a)"
  by (simp add: actor_inv_def session_finally_state)

text \<open>Moving one run to another await of its session.\<close>

lemma actor_inv_move:
  assumes "actor_inv a" "dget (runs a) t = Some r" "session_phase p"
    and "p = Unwinding Cancel \<Longrightarrow> t \<in> set (stops b)"
    and "runs b = runs a" "next_task b = next_task a" "set (stops a) \<subseteq> set (stops b)"
  shows "actor_inv (set_phase t p b)"
  using assms by (auto simp: actor_inv_def split: if_splits)

lemma actor_inv_await:
  assumes "actor_inv a" "dget (runs a) t = Some r"
    and "runs b = runs a" "next_task b = next_task a" "set (stops a) \<subseteq> set (stops b)"
  shows "actor_inv (await_request t b)"
  unfolding await_request_def by (rule actor_inv_move [OF assms(1,2)]) (use assms in auto)

text \<open>A run that is in no session moves to another phase outside, or begins.\<close>

lemma actor_inv_outside:
  assumes "actor_inv a"
    and b: "\<And>t'. dget (runs b) t' = (if t' = t then Some r' else dget (runs a) t')"
    and t: "t < next_task b" "next_task a \<le> next_task b" "phase r' \<noteq> Unwinding Cancel"
    and out: "\<And>r. dget (runs a) t = Some r \<Longrightarrow> \<not> session_phase (phase r)"
    and same: "state b = Ready \<Longrightarrow> state a = Ready" "queue b = queue a" "stops b = stops a"
  shows "actor_inv b"
proof -
  have in_b: "in_session b" if "in_session a"
  proof -
    from that obtain t0 r0 where "dget (runs a) t0 = Some r0" "session_phase (phase r0)" by blast
    with out b show ?thesis by (intro exI [of _ t0] exI [of _ r0]) auto
  qed
  moreover from assms(1) have inv: "\<And>t r. dget (runs a) t = Some r \<Longrightarrow> t < next_task a"
      "state a = Ready \<Longrightarrow> in_session a" "queue a \<noteq> [] \<Longrightarrow> in_session a \<or> stops a \<noteq> []"
      "\<And>t r. dget (runs a) t = Some r \<Longrightarrow> phase r = Unwinding Cancel \<Longrightarrow> t \<in> set (stops a)"
    by (auto simp: actor_inv_def)
  ultimately have "state b = Ready \<Longrightarrow> in_session b"
    using same(1) by blast
  moreover have "queue b \<noteq> [] \<Longrightarrow> in_session b \<or> stops b \<noteq> []"
    unfolding same(2,3) using in_b inv(3) by blast
  moreover have "t' < next_task b" if "dget (runs b) t' = Some r" for t' r
    using that t inv(1) by (cases "t' = t") (auto simp: b intro: less_le_trans)
  moreover have "t' \<in> set (stops b)" if "dget (runs b) t' = Some r" "phase r = Unwinding Cancel" for t' r
    using that b t inv(4) same by (auto split: if_splits)
  ultimately show ?thesis unfolding actor_inv_def by blast
qed

lemma actor_inv_begin:
  assumes "actor_inv a"
  shows "actor_inv (begin_run a)"
proof -
  have "dget (runs a) (next_task a) = None"
    using assms by (cases "dget (runs a) (next_task a)") (auto simp: actor_inv_def)
  then have "dget (runs (begin_run a)) t =
      (if t = next_task a then Some \<lparr>phase = Created, attempts = 0\<rparr> else dget (runs a) t)" for t
    by (auto simp: begin_run_def map_add_def split: option.splits)
  with assms \<open>dget (runs a) (next_task a) = None\<close> show ?thesis
    by (intro actor_inv_outside [OF assms]) (auto simp: begin_run_def)
qed

lemma actor_inv_enter:
  assumes "actor_inv a" "dget (runs a) t = Some r" "phase r = Created \<or> phase r = Backoff"
  shows "actor_inv (enter_session H environ t a)"
proof (cases "launch_parameters H environ a")
  case (Inl e)
  with assms show ?thesis
    by (auto simp: enter_session_def intro: actor_inv_run_failed actor_inv_session_finally)
next
  case (Inr l)
  from assms have "\<not> session_phase (phase r)" by auto
  with Inr assms(1,2) show ?thesis
    by (intro actor_inv_outside [OF assms(1), where t = t and r' = "r\<lparr>phase := Launching\<rparr>"])
       (auto simp: enter_session_def actor_inv_def)
qed

lemma actor_inv_serve:
  assumes "actor_inv a" "dget (runs a) t = Some r"
    and "runs b = runs a" "next_task b = next_task a" "stops b = stops a"
  shows "actor_inv (serve t rq b)"
  using assms
  by (auto simp: serve_def Let_def intro!: actor_inv_move [OF assms(1,2)] actor_inv_await [OF assms(1,2)])

lemma actor_inv_unwound:
  assumes "actor_inv a" "dget (runs a) t = Some r" "phase r = Unwinding c"
  shows "actor_inv (unwound t c a)"
proof (cases c)
  case (Error e)
  with assms show ?thesis
    by (auto simp: unwound_def intro: actor_inv_run_failed actor_inv_session_finally)
next
  case Cancel
  with assms have "stops a \<noteq> []" by (auto simp: actor_inv_def)
  with Cancel assms session_finally_state [of a] show ?thesis
    by (auto simp: unwound_def actor_inv_def)
qed

lemma cancel_run_frame [simp]:
  "state (cancel_run t a) = state a" "queue (cancel_run t a) = queue a" "stops (cancel_run t a) = stops a"
  "next_task (cancel_run t a) = next_task a" "server (cancel_run t a) = server a"
  by (simp_all add: cancel_run_def split: option.splits phase.splits)

lemma dget_cancel_run:
  "dget (runs (cancel_run t a)) t' =
     (if t' \<noteq> t then dget (runs a) t'
      else case dget (runs a) t of
          None \<Rightarrow> None
        | Some r \<Rightarrow> if phase r = Created \<or> phase r = Backoff then None else Some (r\<lparr>phase := Unwinding Cancel\<rparr>))"
  by (auto simp: cancel_run_def split: option.splits phase.splits)

lemma actor_inv_stop_begin:
  assumes "actor_inv a"
  shows "actor_inv (stop_begin a)"
  using assms
  by (auto simp: stop_begin_def actor_inv_def dget_cancel_run split: option.splits if_splits)

lemma actor_inv_stop_end:
  assumes "actor_inv a" "dget (runs a) t = None"
  shows "actor_inv (stop_end t a)"
proof -
  have "t' \<in> set (remove1 t (stops a))" if "dget (runs a) t' = Some r" "phase r = Unwinding Cancel" for t' r
  proof -
    from that assms have "t' \<in> set (stops a)" "t' \<noteq> t" by (auto simp: actor_inv_def)
    then show ?thesis by simp
  qed
  with assms show ?thesis by (simp add: stop_end_def actor_inv_def)
qed

lemma actor_step_inv: "actor_step H environ a e b \<Longrightarrow> actor_inv a \<Longrightarrow> actor_inv b"
proof (induction rule: actor_step.induct)
  case (start_run a)
  then show ?case by (simp add: actor_inv_begin)
next
  case (enter a t)
  then show ?case by (auto intro: actor_inv_enter)
next
  case (up a t listed)
  then show ?case by (auto simp: session_up_def intro: actor_inv_await)
next
  case (submit a op name given)
  then show ?case by (auto simp: submit_def actor_inv_def)
next
  case (take a t rq q)
  then show ?case by (auto intro: actor_inv_serve)
next
  case (orphan_take a rq q)
  then show ?case by (auto simp: actor_inv_def)
next
  case (unwound a t c)
  then show ?case by (auto intro: actor_inv_unwound)
next
  case (stop_begin a)
  then show ?case by (simp add: actor_inv_stop_begin)
next
  case (stop_with_request a t rq q)
  then show ?case by (intro actor_inv_stop_begin) (auto simp: actor_inv_def)
next
  case (stop_end t a)
  then show ?case by (simp add: actor_inv_stop_end)
qed (auto simp: actor_inv_def intro: actor_inv_move actor_inv_await)

section \<open>Requests\<close>

text \<open>The requests that a run is calling, the futures somebody will answer, and the unanswered ones.\<close>

definition calls :: "actor \<Rightarrow> request set" where
  "calls a = {rq. \<exists>t. at_phase a t (Calling rq)}"

definition waiting :: "actor \<Rightarrow> nat set" where
  "waiting a = future ` set (queue a) \<union> future ` calls a"

definition pending :: "actor \<Rightarrow> nat set" where
  "pending a = {i. i < length (futures a) \<and> futures a ! i = Pending}"

definition requests_ok :: "actor \<Rightarrow> bool" where
  "requests_ok a \<longleftrightarrow> waiting a \<subseteq> {..< length (futures a)}"

lemma settle_length [simp]: "length (settle ans fs rq) = length fs"
  by (simp add: settle_def)

lemma settle_all_length [simp]: "length (foldl (settle ans) fs q) = length fs"
  by (induction q arbitrary: fs) simp_all

lemma settle_Pending:
  "ans \<noteq> Pending \<Longrightarrow> future rq < length fs \<Longrightarrow>
     settle ans fs rq ! i = Pending \<longleftrightarrow> fs ! i = Pending \<and> i \<noteq> future rq"
  by (auto simp: settle_def nth_list_update)

lemma settle_all_Pending:
  "ans \<noteq> Pending \<Longrightarrow> \<forall>rq \<in> set q. future rq < length fs \<Longrightarrow>
     foldl (settle ans) fs q ! i = Pending \<longleftrightarrow> fs ! i = Pending \<and> i \<notin> future ` set q"
  by (induction q arbitrary: fs) (auto simp: settle_Pending)

lemma pending_settle:
  "ans \<noteq> Pending \<Longrightarrow> future rq < length (futures a) \<Longrightarrow> futures b = settle ans (futures a) rq \<Longrightarrow>
     pending b = pending a - {future rq}"
  by (auto simp: pending_def settle_Pending)

lemma pending_settle_all:
  "requests_ok a \<Longrightarrow> futures b = foldl (settle (Raised e)) (futures a) (queue a) \<Longrightarrow>
     pending b = pending a - future ` set (queue a)"
proof -
  assume "requests_ok a" and b: "futures b = foldl (settle (Raised e)) (futures a) (queue a)"
  then have "\<forall>rq \<in> set (queue a). future rq < length (futures a)"
    by (auto simp: requests_ok_def waiting_def)
  from settle_all_Pending [OF _ this, of "Raised e"] show ?thesis by (auto simp: pending_def b)
qed

lemma calling_is: "Calling rq = p \<Longrightarrow> is_Calling p"
  by auto

lemma calls_cong: "runs b = runs a \<Longrightarrow> calls b = calls a"
  by (simp add: calls_def)

text \<open>A change of one run \<open>t\<close>: only its own call can end or begin.\<close>

lemma calls_upper:
  assumes "\<And>t'. t' \<noteq> t \<Longrightarrow> dget (runs b) t' = dget (runs a) t'"
    and "\<And>r' rq. dget (runs b) t = Some r' \<Longrightarrow> phase r' = Calling rq \<Longrightarrow> rq \<in> C"
  shows "calls b \<subseteq> calls a \<union> C"
proof
  fix rq assume "rq \<in> calls b"
  then obtain t' r' where r': "dget (runs b) t' = Some r'" "phase r' = Calling rq" by (auto simp: calls_def)
  then show "rq \<in> calls a \<union> C" using assms by (cases "t' = t") (auto simp: calls_def)
qed

lemma calls_lower:
  assumes "\<And>t'. t' \<noteq> t \<Longrightarrow> dget (runs b) t' = dget (runs a) t'"
    and "\<And>r rq. dget (runs a) t = Some r \<Longrightarrow> phase r = Calling rq \<Longrightarrow> rq \<in> C"
  shows "calls a \<subseteq> calls b \<union> C"
  using calls_upper [of t a b C] assms by auto

text \<open>
  What a step does to the requests, in one lemma for all steps: some futures are answered
  (\<open>S\<close>), and what somebody will answer may shrink by those and grow by nothing unknown.
\<close>

definition requests_step :: "nat set \<Rightarrow> actor \<Rightarrow> actor \<Rightarrow> bool" where
  "requests_step S a b \<longleftrightarrow> length (futures b) = length (futures a)
     \<and> pending b = pending a - S \<and> waiting b \<subseteq> waiting a \<and> waiting a \<subseteq> waiting b \<union> S"

lemma requests_step_ok: "requests_step S a b \<Longrightarrow> requests_ok a \<Longrightarrow> requests_ok b"
  by (auto simp: requests_step_def requests_ok_def)

lemma requests_step_waited: "requests_step S a b \<Longrightarrow> pending a \<subseteq> waiting a \<Longrightarrow> pending b \<subseteq> waiting b"
  by (auto simp: requests_step_def)

lemma requests_step_queue:
  assumes "calls b \<subseteq> calls a" "calls a \<subseteq> calls b \<union> C" "queue b = queue a"
    and "futures b = futures a" "C = {}"
  shows "requests_step {} a b"
  using assms by (auto simp: requests_step_def waiting_def pending_def)

text \<open>A run outside a call moves to another phase outside a call.\<close>

lemma requests_step_move:
  assumes "at_phase a t p" "\<not> is_Calling p" "\<not> is_Calling p'"
    and "runs b = runs a" "queue b = queue a" "futures b = futures a"
  shows "requests_step {} a (set_phase t p' b)"
proof -
  have "calls (set_phase t p' b) \<subseteq> calls a \<union> {}"
    by (rule calls_upper [where t = t]) (use assms in auto)
  moreover have "calls a \<subseteq> calls (set_phase t p' b) \<union> {}"
    by (rule calls_lower [where t = t]) (use assms in \<open>auto dest: calling_is\<close>)
  ultimately show ?thesis using assms by (intro requests_step_queue) auto
qed

text \<open>A call that ends with an answer.\<close>

lemma requests_step_answer:
  assumes "requests_ok a" "at_phase a t (Calling rq)" "ans \<noteq> Pending" "\<not> is_Calling p'"
    and "runs b = runs a" "queue b = queue a" "futures b = settle ans (futures a) rq"
  shows "requests_step {future rq} a (set_phase t p' b)"
proof -
  have "calls (set_phase t p' b) \<subseteq> calls a \<union> {}"
    by (rule calls_upper [where t = t]) (use assms in auto)
  moreover have "calls a \<subseteq> calls (set_phase t p' b) \<union> {rq}"
    by (rule calls_lower [where t = t]) (use assms in auto)
  moreover have "rq \<in> calls a" using assms(2) by (auto simp: calls_def)
  then have "future rq < length (futures a)" using assms(1) by (auto simp: requests_ok_def waiting_def)
  then have "pending (set_phase t p' b) = pending a - {future rq}"
    by (intro pending_settle [OF assms(3)]) (use assms in simp_all)
  ultimately show ?thesis using assms by (auto simp: requests_step_def waiting_def)
qed

lemma requests_step_failed:
  assumes "requests_ok a" "at_phase a t p" "\<not> is_Calling p"
    and "runs b = runs a" "queue b = queue a" "futures b = futures a"
  shows "requests_step (future ` set (queue a)) a (run_failed t e b)"
proof -
  have "calls (run_failed t e b) \<subseteq> calls a \<union> {}"
    by (rule calls_upper [where t = t]) (use assms in \<open>auto simp: dget_run_failed split: option.splits if_splits\<close>)
  moreover have "calls a \<subseteq> calls (run_failed t e b) \<union> {}"
    by (rule calls_lower [where t = t]) (use assms in \<open>auto simp: dget_run_failed dest: calling_is\<close>)
  moreover have "pending (run_failed t e b) = pending a - future ` set (queue a)"
    by (rule pending_settle_all [OF assms(1)]) (use assms in simp)
  ultimately show ?thesis using assms by (auto simp: requests_step_def waiting_def)
qed

lemma requests_step_same:
  "runs b = runs a \<Longrightarrow> queue b = queue a \<Longrightarrow> futures b = futures a \<Longrightarrow> requests_step {} a b"
  by (auto simp: requests_step_def waiting_def pending_def calls_def)

lemma requests_step_begin:
  assumes "actor_inv a"
  shows "requests_step {} a (begin_run a)"
proof -
  have new: "dget (runs a) (next_task a) = None"
    using assms by (cases "dget (runs a) (next_task a)") (auto simp: actor_inv_def)
  then have lookup: "dget (runs (begin_run a)) t =
      (if t = next_task a then Some \<lparr>phase = Created, attempts = 0\<rparr> else dget (runs a) t)" for t
    by (auto simp: begin_run_def map_add_def split: option.splits)
  have "calls (begin_run a) \<subseteq> calls a \<union> {}"
    by (rule calls_upper [where t = "next_task a"]) (auto simp: lookup)
  moreover have "calls a \<subseteq> calls (begin_run a) \<union> {}"
    by (rule calls_lower [where t = "next_task a"]) (auto simp: lookup new)
  ultimately show ?thesis by (intro requests_step_queue) (auto simp: begin_run_def)
qed

text \<open>The item at the head of the queue: answered at once, or called.\<close>

lemma requests_step_take:
  assumes ok: "requests_ok a" and t: "at_phase a t Serving" and q: "queue a = rq # q"
  shows "\<exists>S. requests_step S a (serve t rq (a\<lparr>queue := q, getters := gs\<rparr>))"
proof -
  let ?a = "a\<lparr>queue := q, getters := gs\<rparr>"
  have len: "future rq < length (futures a)" using ok q by (auto simp: requests_ok_def waiting_def)
  have answered: "requests_step {future rq} a (set_phase t p b)"
    if "\<not> is_Calling p" "runs b = runs a" "queue b = q" "futures b = settle ans (futures a) rq" "ans \<noteq> Pending" for p b ans
  proof -
    have "calls (set_phase t p b) \<subseteq> calls a \<union> {}"
      by (rule calls_upper [where t = t]) (use that t in auto)
    moreover have "calls a \<subseteq> calls (set_phase t p b) \<union> {}"
      by (rule calls_lower [where t = t]) (use that t in auto)
    moreover have "pending (set_phase t p b) = pending a - {future rq}"
      by (rule pending_settle [OF that(5) len]) (use that in simp)
    ultimately show ?thesis using that q by (auto simp: requests_step_def waiting_def)
  qed
  have called: "requests_step {} a (set_phase t (Calling rq) ?a)"
  proof -
    have "calls (set_phase t (Calling rq) ?a) \<subseteq> calls a \<union> {rq}"
      by (rule calls_upper [where t = t]) (use t in auto)
    moreover have "calls a \<subseteq> calls (set_phase t (Calling rq) ?a) \<union> {}"
      by (rule calls_lower [where t = t]) (use t in auto)
    moreover have "rq \<in> calls (set_phase t (Calling rq) ?a)"
      using t by (auto simp: calls_def intro!: exI [of _ t])
    ultimately show ?thesis using q by (auto simp: requests_step_def waiting_def pending_def)
  qed
  show ?thesis
  proof (cases "operation rq = ''call_tool'' \<and> rq_name rq \<noteq> None \<and> rq_name rq \<noteq> Some []")
    case True
    then have "serve t rq ?a = set_phase t (Calling rq) ?a" by (simp add: serve_def)
    with called show ?thesis by auto
  next
    case False
    then have "requests_step {future rq} a (serve t rq ?a)"
      unfolding serve_def await_request_def Let_def if_not_P [OF False]
      by (auto intro!: answered)
    then show ?thesis by blast
  qed
qed

lemma requests_step_cong:
  "requests_step S a b \<Longrightarrow> runs b' = runs b \<Longrightarrow> queue b' = queue b \<Longrightarrow> futures b' = futures b \<Longrightarrow>
     requests_step S a b'"
proof -
  assume same: "runs b' = runs b" "queue b' = queue b" "futures b' = futures b"
  then have "waiting b' = waiting b" "pending b' = pending b"
    by (simp_all add: waiting_def pending_def calls_cong [OF same(1)])
  with same show "requests_step S a b \<Longrightarrow> requests_step S a b'" by (simp add: requests_step_def)
qed

lemma requests_step_cancel:
  assumes "requests_ok a"
  shows "\<exists>S. requests_step S a (cancel_run t (a\<lparr>state := s\<rparr>))"
proof (cases "dget (runs a) t")
  case None
  then show ?thesis by (auto simp: cancel_run_def intro!: exI [of _ "{}"] requests_step_same)
next
  case (Some r)
  have gone: "requests_step {} a (end_run t (a\<lparr>state := s\<rparr>))" if "\<not> is_Calling (phase r)"
  proof -
    have "calls (end_run t (a\<lparr>state := s\<rparr>)) \<subseteq> calls a \<union> {}"
      by (rule calls_upper [where t = t]) auto
    moreover have "calls a \<subseteq> calls (end_run t (a\<lparr>state := s\<rparr>)) \<union> {}"
      by (rule calls_lower [where t = t]) (use Some that in auto)
    ultimately show ?thesis by (intro requests_step_queue) auto
  qed
  show ?thesis
  proof (cases "is_Calling (phase r)")
    case True
    then obtain rq where rq: "phase r = Calling rq" by (cases "phase r") auto
    have "requests_step {future rq} a (set_phase t (Unwinding Cancel)
        (settle_request (Raised cancelled_error) rq (a\<lparr>state := s\<rparr>)))"
      by (rule requests_step_answer [OF assms, where ans = "Raised cancelled_error"]) (use Some rq in auto)
    then show ?thesis by (auto simp: cancel_run_def Some rq)
  next
    case False
    then have "requests_step {} a (set_phase t (Unwinding Cancel) b)"
      if "runs b = runs a" "queue b = queue a" "futures b = futures a" for b
      by (intro requests_step_move [where p = "phase r"]) (use Some that in auto)
    with gone False show ?thesis
      by (auto simp: cancel_run_def Some split: phase.splits intro!: exI [of _ "{}"])
  qed
qed

lemma requests_step_stop:
  assumes "requests_ok a"
  shows "\<exists>S. requests_step S a (stop_begin a)"
proof (cases "task a")
  case None
  then show ?thesis by (auto simp: stop_begin_def intro!: exI [of _ "{}"] requests_step_same)
next
  case (Some t)
  from requests_step_cancel [OF assms, of t Stopping] obtain S
    where "requests_step S a (cancel_run t (a\<lparr>state := Stopping\<rparr>))" by blast
  then have "requests_step S a ((cancel_run t (a\<lparr>state := Stopping\<rparr>))\<lparr>stops := stops a @ [t]\<rparr>)"
    by (rule requests_step_cong) simp_all
  with Some show ?thesis by (auto simp: stop_begin_def)
qed

fun loses_request :: "event \<Rightarrow> bool" where
  "loses_request (Exit_With_Request t s) = True"
| "loses_request Orphan_Take = True"
| "loses_request Stop_With_Request = True"
| "loses_request _ = False"

fun is_submit :: "event \<Rightarrow> bool" where
  "is_submit (Submit op name given) = True"
| "is_submit _ = False"

lemma requests_step_intro: "requests_step S a b \<Longrightarrow> \<exists>S. requests_step S a b"
  by blast

lemma actor_step_requests:
  "actor_step H environ a e b \<Longrightarrow> actor_inv a \<Longrightarrow> requests_ok a \<Longrightarrow> \<not> loses_request e \<Longrightarrow> \<not> is_submit e \<Longrightarrow>
     \<exists>S. requests_step S a b"
proof (induction rule: actor_step.induct)
  case (start_run a)
  then show ?case by (blast intro: requests_step_begin)
next
  case (enter a t)
  then obtain p where p: "at_phase a t p" "\<not> is_Calling p" by auto
  show ?case
  proof (cases "launch_parameters H environ a")
    case (Inl e)
    with p enter.prems show ?thesis
      by (auto simp: enter_session_def intro!: exI requests_step_failed [where p = p])
  next
    case (Inr l)
    with p show ?thesis
      by (auto simp: enter_session_def intro!: exI [of _ "{}"] requests_step_move [where p = p])
  qed
next
  case (up a t listed)
  then show ?case
    by (auto simp: session_up_def await_request_def intro!: exI [of _ "{}"] requests_step_move [where p = Launching])
next
  case (launch_error a t e)
  then show ?case by (auto intro!: exI [of _ "{}"] requests_step_move [where p = Launching])
next
  case (take a t rq q)
  then show ?case by (intro requests_step_take) auto
next
  case (reply a t rq v)
  then show ?case unfolding await_request_def
    by (intro requests_step_intro [OF requests_step_answer [where ans = "Done v"]]) auto
next
  case (call_error a t rq e)
  then show ?case
    by (intro requests_step_intro [OF requests_step_answer [where ans = "Raised e"]]) auto
next
  case (exit a t status)
  then show ?case by (auto intro!: exI [of _ "{}"] requests_step_move [where p = Serving])
next
  case (unwound a t c)
  then obtain r where r: "dget (runs a) t = Some r" "phase r = Unwinding c" by auto
  show ?case
  proof (cases c)
    case (Error e)
    with r unwound.prems show ?thesis
      by (auto simp: unwound_def intro!: exI requests_step_failed [where p = "Unwinding c"])
  next
    case Cancel
    have "calls (end_run t (session_finally a)) \<subseteq> calls a \<union> {}"
      by (rule calls_upper [where t = t]) auto
    moreover have "calls a \<subseteq> calls (end_run t (session_finally a)) \<union> {}"
      by (rule calls_lower [where t = t]) (use r in auto)
    ultimately show ?thesis
      unfolding unwound_def Cancel cause.case
      by (intro requests_step_intro [OF requests_step_queue]) auto
  qed
next
  case (stop_begin a)
  then show ?case by (blast intro: requests_step_stop)
next
  case (stop_end t a)
  have "pending (stop_end t a) = pending a - future ` set (queue a)"
    by (rule pending_settle_all [OF stop_end.prems(2)]) (simp add: stop_end_def)
  then show ?case
    by (intro exI [of _ "future ` set (queue a)"])
       (auto simp: requests_step_def waiting_def stop_end_def calls_def)
next
  case (abandon i a)
  then have "pending (a\<lparr>futures := (futures a)[i := Abandoned]\<rparr>) = pending a - {i}"
    by (auto simp: pending_def nth_list_update)
  moreover have "calls (a\<lparr>futures := (futures a)[i := Abandoned]\<rparr>) = calls a" by (rule calls_cong) simp
  ultimately show ?case
    by (intro exI [of _ "{i}"]) (auto simp: requests_step_def waiting_def)
next
  case (assign a s)
  show ?case by (intro exI [of _ "{}"] requests_step_same) simp_all
qed auto

lemma submit_requests:
  assumes "requests_ok a"
  shows "requests_ok (submit op name given a)" "waiting (submit op name given a) = insert (length (futures a)) (waiting a)"
    and "pending (submit op name given a) = insert (length (futures a)) (pending a)"
proof -
  have c: "calls (submit op name given a) = calls a" by (rule calls_cong) (simp add: submit_def)
  show w: "waiting (submit op name given a) = insert (length (futures a)) (waiting a)"
    unfolding waiting_def c by (auto simp: submit_def)
  have "length (futures (submit op name given a)) = Suc (length (futures a))" by (simp add: submit_def)
  with w assms show "requests_ok (submit op name given a)" by (auto simp: requests_ok_def)
  show "pending (submit op name given a) = insert (length (futures a)) (pending a)"
    by (auto simp: pending_def submit_def nth_append less_Suc_eq split: if_splits)
qed

lemma lost_requests_ok:
  assumes "requests_ok a" "queue a = rq # q" "calls b \<subseteq> calls a" "queue b = q" "futures b = futures a"
  shows "requests_ok b"
proof -
  have "waiting b \<subseteq> waiting a" using image_mono [OF assms(3), of future] assms(2,4) by (auto simp: waiting_def)
  with assms(1,5) show ?thesis by (auto simp: requests_ok_def)
qed

lemma actor_step_requests_ok:
  assumes "actor_step H environ a e b" "actor_inv a" "requests_ok a"
  shows "requests_ok b"
proof (cases "loses_request e \<or> is_submit e")
  case False
  with actor_step_requests [OF assms] show ?thesis using assms(3) requests_step_ok by blast
next
  case True
  from assms(1) show ?thesis
  proof cases
    case (submit op name given)
    with assms(3) show ?thesis by (simp add: submit_requests)
  next
    case (exit_with_request t rq q status)
    have "calls b \<subseteq> calls a \<union> {}"
      by (rule calls_upper [where t = t]) (use exit_with_request in auto)
    with exit_with_request show ?thesis by (intro lost_requests_ok [OF assms(3)]) auto
  next
    case (orphan_take rq q)
    then have "calls b = calls a" by (intro calls_cong) simp
    with orphan_take show ?thesis by (intro lost_requests_ok [OF assms(3)]) auto
  next
    case (stop_with_request t rq q)
    let ?a = "a\<lparr>queue := q, getters := remove1 (Live t) (getters a)\<rparr>"
    have "requests_ok ?a"
      by (rule lost_requests_ok [OF assms(3) stop_with_request(6)]) (simp_all add: calls_cong [of ?a a])
    with requests_step_stop [OF this] stop_with_request show ?thesis by (auto intro: requests_step_ok)
  qed (use True in simp_all)
qed

lemma actor_step_waited:
  assumes "actor_step H environ a e b" "actor_inv a" "requests_ok a" "\<not> loses_request e" "pending a \<subseteq> waiting a"
  shows "pending b \<subseteq> waiting b"
proof (cases "is_submit e")
  case False
  with actor_step_requests [OF assms(1-4)] assms(5) requests_step_waited show ?thesis by blast
next
  case True
  from assms(1) show ?thesis
    by cases (use True assms(3,5) in \<open>auto simp: submit_requests\<close>)
qed

lemma actor_trace_inv:
  assumes "actor_trace H environ (new_actor s env uid gid) es a"
  shows "actor_inv a \<and> requests_ok a"
  using assms
proof (induction rule: actor_trace.induct)
  case nil
  show ?case
    by (simp add: actor_inv_new) (simp add: requests_ok_def waiting_def calls_def new_actor_def)
next
  case (snoc es a e b)
  then show ?case by (blast intro: actor_step_inv actor_step_requests_ok)
qed

lemma actor_trace_waited:
  assumes "actor_trace H environ (new_actor s env uid gid) es a" "\<forall>e \<in> set es. \<not> loses_request e"
  shows "pending a \<subseteq> waiting a"
  using assms
proof (induction rule: actor_trace.induct)
  case nil
  show ?case by (simp add: pending_def new_actor_def)
next
  case (snoc es a e b)
  with actor_trace_inv [OF snoc.hyps(1)] show ?case
    by (intro actor_step_waited [OF snoc.hyps(2)]) simp_all
qed

section \<open>Sessions\<close>

text \<open>How often a task began a session.\<close>

definition sessions :: "nat \<Rightarrow> event list \<Rightarrow> nat" where
  "sessions t es = length (filter (\<lambda>e. e = Enter t) es)"

text \<open>What the count is for a run, by its phase.\<close>

fun sessions_of :: "run \<Rightarrow> nat" where
  "sessions_of r = (if phase r = Created \<or> phase r = Backoff then attempts r else Suc (attempts r))"

lemma dget_serve:
  obtains p where "p \<noteq> Created" "p \<noteq> Backoff" "\<And>t'. dget (runs (serve t rq a)) t' =
    (if t' = t then map_option (\<lambda>r. r\<lparr>phase := p\<rparr>) (dget (runs a) t) else dget (runs a) t')"
proof (cases "operation rq = ''list_tools''")
  case True
  with that [of Serving] show thesis by (simp add: serve_def)
next
  case False
  show thesis
  proof (cases "operation rq = ''call_tool'' \<and> rq_name rq \<noteq> None \<and> rq_name rq \<noteq> Some []")
    case True
    with False that [of "Calling rq"] show thesis by (simp add: serve_def)
  next
    case False': False
    show thesis
      by (rule that [of "Unwinding (Error (supervisor_error (''unsupported actor operation: '' @ operation rq)))"])
         (unfold serve_def Let_def if_not_P [OF False] if_not_P [OF False'], simp_all)
  qed
qed

lemma enter_run:
  assumes "dget (runs (enter_session H environ t a)) t' = Some r'"
    and "dget (runs a) t = Some r" "phase r = Created \<or> phase r = Backoff"
  shows "if t' = t
     then sessions_of r' = Suc (sessions_of r)
       \<and> (attempts r' = attempts r
          \<or> attempts r' = Suc (attempts r) \<and> int (attempts r) < max_restarts (limits (manifest (server a))))
     else dget (runs a) t' = Some r'"
  using assms
  by (auto simp: enter_session_def dget_run_failed split: sum.splits if_splits option.splits)

text \<open>How a step changes a run: only \<open>Enter\<close> begins a session of it, within the limit.\<close>

definition run_change :: "actor \<Rightarrow> event \<Rightarrow> nat \<Rightarrow> run \<Rightarrow> run \<Rightarrow> bool" where
  "run_change a e t r r' \<longleftrightarrow>
     sessions_of r' = sessions_of r + (if e = Enter t then 1 else 0)
     \<and> (attempts r' = attempts r
        \<or> attempts r' = Suc (attempts r) \<and> int (attempts r) < max_restarts (limits (manifest (server a))))"

lemma run_change_same: "e \<noteq> Enter t \<Longrightarrow> run_change a e t r r"
  by (simp add: run_change_def)

lemma run_change_move:
  assumes "dget (runs b) t = Some r'" "at_phase a t0 p0" "p0 \<noteq> Created" "p0 \<noteq> Backoff" "p \<noteq> Created" "p \<noteq> Backoff"
    and "dget (runs b) t = (if t = t0 then map_option (\<lambda>r. r\<lparr>phase := p\<rparr>) (dget (runs a) t0) else dget (runs a) t)"
    and "e \<noteq> Enter t"
  shows "\<exists>r. dget (runs a) t = Some r \<and> run_change a e t r r'"
proof (cases "t = t0")
  case True
  from assms(2) obtain r0 where r0: "dget (runs a) t0 = Some r0" "phase r0 = p0" by blast
  with True assms(1,7) have "r' = r0\<lparr>phase := p\<rparr>" by simp
  with r0 True assms(3-6,8) show ?thesis by (simp add: run_change_def)
next
  case False
  with assms(1,7) have "dget (runs a) t = Some r'" by simp
  with run_change_same [OF assms(8)] show ?thesis by blast
qed

lemma run_change_stop:
  assumes "dget (runs (stop_begin c)) t = Some r'" "runs c = runs a" "e \<noteq> Enter t"
  shows "\<exists>r. dget (runs a) t = Some r \<and> run_change a e t r r'"
proof (cases "task c")
  case None
  with assms show ?thesis by (simp add: stop_begin_def run_change_same)
next
  case (Some t0)
  have lookup: "dget (runs (cancel_run t0 (c\<lparr>state := Stopping\<rparr>))) t = Some r'"
    using assms(1) Some by (simp add: stop_begin_def)
  show ?thesis
  proof (cases "t = t0")
    case True
    with lookup assms(2) obtain r where "dget (runs a) t = Some r" "r' = r\<lparr>phase := Unwinding Cancel\<rparr>"
        "phase r \<noteq> Created" "phase r \<noteq> Backoff"
      by (auto simp: dget_cancel_run split: option.splits if_splits)
    with assms(3) show ?thesis by (simp add: run_change_def)
  next
    case False
    with lookup assms(2) have "dget (runs a) t = Some r'" by (simp add: dget_cancel_run)
    with assms(3) show ?thesis by (simp add: run_change_same)
  qed
qed

lemma actor_step_run:
  assumes "actor_step H environ a e b" "dget (runs b) t = Some r'"
  shows "e = Start_Run \<and> t = next_task a \<and> r' = \<lparr>phase = Created, attempts = 0\<rparr>
    \<or> (\<exists>r. dget (runs a) t = Some r \<and> run_change a e t r r')"
  using assms(1)
proof cases
  case start_run
  with assms(2) show ?thesis
    by (auto simp: begin_run_def map_add_Some_iff run_change_same split: if_splits)
next
  case (enter t0)
  then obtain r0 where r0: "dget (runs a) t0 = Some r0" "phase r0 = Created \<or> phase r0 = Backoff" by blast
  have "dget (runs (enter_session H environ t0 a)) t = Some r'" using assms(2) enter(2) by simp
  from enter_run [OF this r0] r0(1) enter(1) show ?thesis
    by (auto simp: run_change_def simp del: sessions_of.simps split: if_splits)
next
  case (up t0 listed)
  show ?thesis
    by (rule disjI2, rule run_change_move [OF assms(2) up(3), where p = Serving]) (simp_all add: up session_up_def)
next
  case (launch_error t0 e0)
  show ?thesis
    by (rule disjI2, rule run_change_move [OF assms(2) launch_error(3), where p = "Unwinding (Error e0)"])
       (simp_all add: launch_error)
next
  case (take t0 rq q)
  obtain p where p: "p \<noteq> Created" "p \<noteq> Backoff" "\<And>t'. dget (runs b) t' =
      (if t' = t0 then map_option (\<lambda>r. r\<lparr>phase := p\<rparr>) (dget (runs a) t0) else dget (runs a) t')"
    unfolding take(2) by (rule dget_serve [of t0 rq "a\<lparr>queue := q, getters := remove1 (Live t0) (getters a)\<rparr>"]) auto
  show ?thesis
    by (rule disjI2, rule run_change_move [OF assms(2) take(3) _ _ p(1,2) p(3)]) (simp_all add: take)
next
  case (reply t0 rq v)
  show ?thesis
    by (rule disjI2, rule run_change_move [OF assms(2) reply(3), where p = Serving]) (simp_all add: reply)
next
  case (call_error t0 rq e0)
  show ?thesis
    by (rule disjI2, rule run_change_move [OF assms(2) call_error(3), where p = "Unwinding (Error e0)"])
       (simp_all add: call_error)
next
  case (exit t0 status)
  show ?thesis
    by (rule disjI2, rule run_change_move [OF assms(2) exit(3), where p = "Unwinding (Error (exit_error a status))"])
       (simp_all add: exit)
next
  case (exit_with_request t0 rq q status)
  show ?thesis
    by (rule disjI2, rule run_change_move [OF assms(2) exit_with_request(3),
          where p = "Unwinding (Error (exit_error a status))"]) (simp_all add: exit_with_request)
next
  case (unwound t0 c)
  then obtain r0 where r0: "dget (runs a) t0 = Some r0" "phase r0 = Unwinding c" by blast
  show ?thesis
  proof (cases c)
    case Cancel
    with assms(2) unwound(1,2) show ?thesis
      by (simp add: unwound_def run_change_same split: if_splits)
  next
    case (Error e0)
    have b: "b = run_failed t0 e0 (session_finally a)" using unwound(2) Error by (simp add: unwound_def)
    show ?thesis
    proof (cases "t = t0")
      case True
      from assms(2) b True r0 have "r' = \<lparr>phase = Backoff, attempts = Suc (attempts r0)\<rparr>"
          "int (attempts r0) < max_restarts (limits (manifest (server a)))"
        by (simp_all add: dget_run_failed split: if_splits)
      with r0 True Error unwound(1) show ?thesis by (simp add: run_change_def)
    next
      case False
      with assms(2) b have "dget (runs a) t = Some r'" by (simp add: dget_run_failed)
      with unwound(1) show ?thesis by (simp add: run_change_same)
    qed
  qed
next
  case stop_begin
  with assms(2) show ?thesis by (intro disjI2 run_change_stop [where c = a]) simp_all
next
  case (stop_with_request t0 rq q)
  show ?thesis
    by (rule disjI2, rule run_change_stop [where c = "a\<lparr>queue := q, getters := remove1 (Live t0) (getters a)\<rparr>"])
       (use assms(2) stop_with_request in simp_all)
next
  case (stop_end t0)
  with assms(2) show ?thesis by (simp add: stop_end_def run_change_same)
next
  case (submit op name given)
  with assms(2) show ?thesis by (simp add: submit_def run_change_same)
qed (use assms(2) in \<open>simp_all add: run_change_same\<close>)

lemma serve_frame [simp]: "next_task (serve t rq a) = next_task a" "server (serve t rq a) = server a"
  by (simp_all add: serve_def Let_def)

lemma enter_session_frame [simp]:
  "next_task (enter_session H environ t a) = next_task a" "server (enter_session H environ t a) = server a"
  by (simp_all add: enter_session_def split: sum.splits)

lemma actor_step_frame:
  assumes "actor_step H environ a e b"
  shows "next_task a \<le> next_task b" "server b = server a \<or> (\<exists>s. e = Assign s \<and> server b = s)"
    and "e = Enter t \<Longrightarrow> \<exists>r. dget (runs a) t = Some r \<and> sessions_of r = attempts r"
  using assms
  by (cases, auto simp: begin_run_def session_up_def submit_def unwound_def stop_begin_def stop_end_def
      split: cause.splits option.splits)+

definition sessions_inv :: "int \<Rightarrow> event list \<Rightarrow> actor \<Rightarrow> bool" where
  "sessions_inv m es a \<longleftrightarrow>
     (\<forall>t r. dget (runs a) t = Some r \<longrightarrow> sessions t es = sessions_of r \<and> attempts r \<le> nat m)
     \<and> (\<forall>t. sessions t es \<le> Suc (nat m)) \<and> (\<forall>t \<ge> next_task a. sessions t es = 0)
     \<and> max_restarts (limits (manifest (server a))) = m"

lemma sessions_snoc: "sessions t (es @ [e]) = sessions t es + (if e = Enter t then 1 else 0)"
  by (simp add: sessions_def)

lemma actor_step_sessions:
  assumes step: "actor_step H environ a e b" and inv: "actor_inv a" "sessions_inv m es a"
    and assign: "\<And>s. e = Assign s \<Longrightarrow> max_restarts (limits (manifest s)) = m"
  shows "sessions_inv m (es @ [e]) b"
proof -
  from inv(2) have old: "\<And>t r. dget (runs a) t = Some r \<Longrightarrow> sessions t es = sessions_of r \<and> attempts r \<le> nat m"
      "\<And>t. sessions t es \<le> Suc (nat m)" "\<And>t. next_task a \<le> t \<Longrightarrow> sessions t es = 0"
      "max_restarts (limits (manifest (server a))) = m"
    by (auto simp: sessions_inv_def)
  have enter: "dget (runs a) t \<noteq> None \<and> sessions t es \<le> nat m" if "e = Enter t" for t
    using actor_step_frame(3) [OF step that] old(1) by fastforce
  have "sessions t (es @ [e]) = sessions_of r' \<and> attempts r' \<le> nat m" if r': "dget (runs b) t = Some r'" for t r'
    using actor_step_run [OF step r']
  proof
    assume "e = Start_Run \<and> t = next_task a \<and> r' = \<lparr>phase = Created, attempts = 0\<rparr>"
    then show ?thesis using old(3) by (simp add: sessions_snoc)
  next
    assume "\<exists>r. dget (runs a) t = Some r \<and> run_change a e t r r'"
    then obtain r where r: "dget (runs a) t = Some r" and ch: "run_change a e t r r'" by blast
    from ch old(1) [OF r] have "sessions t (es @ [e]) = sessions_of r'"
      by (simp add: run_change_def sessions_snoc del: sessions_of.simps)
    moreover from ch old(1) [OF r] old(4) have "attempts r' \<le> nat m" unfolding run_change_def by linarith
    ultimately show ?thesis by blast
  qed
  moreover have "sessions t (es @ [e]) \<le> Suc (nat m)" for t
    using enter [of t] old(2) [of t] by (auto simp: sessions_snoc)
  moreover have "sessions t (es @ [e]) = 0" if "next_task b \<le> t" for t
  proof -
    have "next_task a \<le> t" using that actor_step_frame(1) [OF step] by simp
    moreover have "e \<noteq> Enter t"
      using enter [of t] calculation inv(1) by (fastforce simp: actor_inv_def)
    ultimately show ?thesis using old(3) by (simp add: sessions_snoc)
  qed
  moreover have "max_restarts (limits (manifest (server b))) = m"
    using actor_step_frame(2) [OF step] old(4) assign by auto
  ultimately show ?thesis unfolding sessions_inv_def by blast
qed

section \<open>Running a history\<close>

text \<open>The step relation as a function of the event, for evaluating concrete histories.\<close>

definition phase_of :: "actor \<Rightarrow> nat \<Rightarrow> phase option" where
  "phase_of a t = map_option phase (dget (runs a) t)"

fun apply_event :: "host \<Rightarrow> (string \<Rightarrow> string option) \<Rightarrow> event \<Rightarrow> actor \<Rightarrow> actor option" where
  "apply_event H environ Start_Run a =
     (if task_done a \<and> package_digest H (path_of (package_path (server a))) = Inr (digest (server a))
      then Some (begin_run a) else None)"
| "apply_event H environ (Enter t) a =
     (if phase_of a t = Some Created \<or> phase_of a t = Some Backoff then Some (enter_session H environ t a) else None)"
| "apply_event H environ (Up t listed) a =
     (if phase_of a t = Some Launching then Some (session_up t listed a) else None)"
| "apply_event H environ (Launch_Error t e) a =
     (if phase_of a t = Some Launching then Some (set_phase t (Unwinding (Error e)) a) else None)"
| "apply_event H environ (Submit op name given) a =
     (if state a = Ready then Some (submit op name given a) else None)"
| "apply_event H environ (Take t) a =
     (case queue a of
        rq # q \<Rightarrow> if phase_of a t = Some Serving \<and> Live t \<in> set (getters a)
          then Some (serve t rq (a\<lparr>queue := q, getters := remove1 (Live t) (getters a)\<rparr>)) else None
      | [] \<Rightarrow> None)"
| "apply_event H environ (Reply t v) a =
     (case phase_of a t of
        Some (Calling rq) \<Rightarrow> Some (await_request t (settle_request (Done v) rq a))
      | _ \<Rightarrow> None)"
| "apply_event H environ (Call_Error t e) a =
     (case phase_of a t of
        Some (Calling rq) \<Rightarrow> Some (set_phase t (Unwinding (Error e)) (settle_request (Raised e) rq a))
      | _ \<Rightarrow> None)"
| "apply_event H environ (Exit t status) a =
     (if phase_of a t = Some Serving \<and> Live t \<in> set (getters a)
      then Some (set_phase t (Unwinding (Error (exit_error a status)))
        (a\<lparr>getters := remove1 (Live t) (getters a)\<rparr>)) else None)"
| "apply_event H environ (Exit_With_Request t status) a =
     (case queue a of
        rq # q \<Rightarrow> if phase_of a t = Some Serving \<and> Live t \<in> set (getters a)
          then Some (set_phase t (Unwinding (Error (exit_error a status)))
            (a\<lparr>queue := q, getters := remove1 (Live t) (getters a)\<rparr>)) else None
      | [] \<Rightarrow> None)"
| "apply_event H environ Orphan_Take a =
     (case queue a of
        rq # q \<Rightarrow> if Orphan \<in> set (getters a)
          then Some (a\<lparr>queue := q, getters := remove1 Orphan (getters a)\<rparr>) else None
      | [] \<Rightarrow> None)"
| "apply_event H environ (Unwound t) a =
     (case phase_of a t of Some (Unwinding c) \<Rightarrow> Some (unwound t c a) | _ \<Rightarrow> None)"
| "apply_event H environ Stop_Begin a = Some (stop_begin a)"
| "apply_event H environ Stop_With_Request a =
     (case (task a, queue a) of
        (Some t, rq # q) \<Rightarrow> if phase_of a t = Some Serving \<and> Live t \<in> set (getters a)
          then Some (stop_begin (a\<lparr>queue := q, getters := remove1 (Live t) (getters a)\<rparr>)) else None
      | _ \<Rightarrow> None)"
| "apply_event H environ (Stop_End t) a =
     (if t \<in> set (stops a) \<and> dget (runs a) t = None then Some (stop_end t a) else None)"
| "apply_event H environ (Abandon i) a =
     (if i < length (futures a) \<and> futures a ! i = Pending
      then Some (a\<lparr>futures := (futures a)[i := Abandoned]\<rparr>) else None)"
| "apply_event H environ (Assign s) a = Some (a\<lparr>server := s\<rparr>)"

lemma phase_of_Some: "phase_of a t = Some p \<longleftrightarrow> at_phase a t p"
  by (auto simp: phase_of_def)

lemma apply_event_step: "apply_event H environ e a = Some b \<Longrightarrow> actor_step H environ a e b"
  by (cases e) (auto simp: phase_of_Some intro: actor_step.intros
      split: if_splits list.splits option.splits phase.splits)

fun run_events :: "host \<Rightarrow> (string \<Rightarrow> string option) \<Rightarrow> event list \<Rightarrow> actor \<Rightarrow> actor option" where
  "run_events H environ [] a = Some a"
| "run_events H environ (e # es) a = Option.bind (apply_event H environ e a) (run_events H environ es)"

lemma run_events_trace:
  "run_events H environ es a = Some b \<Longrightarrow> actor_trace H environ a0 es0 a \<Longrightarrow> actor_trace H environ a0 (es0 @ es) b"
proof (induction es arbitrary: a es0)
  case (Cons e es)
  then obtain c where c: "apply_event H environ e a = Some c" "run_events H environ es c = Some b"
    by (auto split: bind_splits)
  from Cons.IH [OF c(2) actor_trace.snoc [OF Cons.prems(2) apply_event_step [OF c(1)]]]
  show ?case by simp
qed simp

lemmas run_events_from = run_events_trace [OF _ actor_trace.nil, simplified]

definition demo_server :: managed_server where
  "demo_server =
     \<lparr>ms_id = ''weather'', package_path = ''/srv/weather'',
      digest = ''mcp.yaml'' @ [CHR 0x00] @ ''mpyproject.toml'' @ [CHR 0x00] @ ''puv.lock'' @ [CHR 0x00] @ ''l'',
      manifest = demo_manifest, environment = [(''REGION'', ''us'')],
      secret_environment = [(''API_KEY'', ''WEATHER_KEY'')], access_grants = [], enabled = True,
      created_by = ''admin'', created_at = 7, updated_at = 7\<rparr>"

definition demo_environ :: "string \<Rightarrow> string option" where
  "demo_environ name = (if name = ''WEATHER_KEY'' then Some ''hunter2'' else None)"

definition demo_actor :: actor where
  "demo_actor = new_actor demo_server [(''PATH'', ''/bin'')] None None"

definition demo_restart :: "event list" where
  "demo_restart =
     [Start_Run, Enter 0, Up 0 [], Stop_Begin, Unwound 0, Stop_End 0,
      Start_Run, Enter 1, Up 1 [], Submit ''list_tools'' None PNone]"

definition demo_double_restart :: "event list" where
  "demo_double_restart =
     [Start_Run, Enter 0, Up 0 [], Stop_Begin, Stop_Begin, Unwound 0, Stop_End 0, Start_Run, Stop_End 0,
      Start_Run, Enter 1, Enter 2, Up 1 [], Up 2 []]"

section \<open>Properties\<close>

lemma no_session_no_calls: "\<not> in_session a \<Longrightarrow> calls a = {}"
  by (force simp: calls_def)

text \<open>C25: No request is forgotten: in every history in which no item of the queue is lost (to an
  orphaned getter, to an exit of the process or a stop that comes between \<open>Queue.get\<close> and the serving
  of its item; the events \<open>loses_request\<close>), an accepted request without an answer waits in the queue
  or is in a call, and a request that waits has a session or a pending stop that will take it; so when
  no session is left and no stop is pending, every accepted request has an answer.\<close>

theorem requests_answered:
  assumes "actor_trace H environ (new_actor s env uid gid) es a"
    and "\<forall>e \<in> set es. \<not> loses_request e"
  shows "pending a \<subseteq> waiting a
    \<and> (queue a = [] \<or> in_session a \<or> stops a \<noteq> [])
    \<and> (\<not> in_session a \<and> stops a = [] \<longrightarrow> pending a = {})"
proof (intro conjI impI)
  show w: "pending a \<subseteq> waiting a" by (rule actor_trace_waited [OF assms])
  from actor_trace_inv [OF assms(1)] have inv: "actor_inv a" ..
  then show q: "queue a = [] \<or> in_session a \<or> stops a \<noteq> []" by (auto simp: actor_inv_def)
  show "pending a = {}" if none: "\<not> in_session a \<and> stops a = []"
  proof -
    from q none have "queue a = []" by blast
    with w no_session_no_calls none show ?thesis by (simp add: waiting_def)
  qed
qed

lemma requests_answered_witness:
  "\<exists>a. run_events demo_host demo_environ (demo_restart @ [Stop_Begin, Unwound 1, Stop_End 1]) demo_actor = Some a
     \<and> futures a = [Raised (supervisor_error ''server weather stopped'')] \<and> pending a = {}"
proof -
  have "map_option (\<lambda>a. (futures a, stops a, runs a)) (run_events demo_host demo_environ
      (demo_restart @ [Stop_Begin, Unwound 1, Stop_End 1]) demo_actor)
      = Some ([Raised (supervisor_error ''server weather stopped'')], [], [])"
    by code_simp
  then obtain a where a: "run_events demo_host demo_environ
      (demo_restart @ [Stop_Begin, Unwound 1, Stop_End 1]) demo_actor = Some a"
      "futures a = [Raised (supervisor_error ''server weather stopped'')]" "stops a = []" "runs a = []"
    by auto
  have "actor_trace demo_host demo_environ (new_actor demo_server [(''PATH'', ''/bin'')] None None)
      (demo_restart @ [Stop_Begin, Unwound 1, Stop_End 1]) a"
    using a(1) unfolding demo_actor_def by (rule run_events_from)
  from requests_answered [OF this] a show ?thesis by (auto simp: demo_restart_def)
qed

text \<open>A task restarts its session at most as often as the manifest allows: it begins at most
  one session more than \<open>max_restarts\<close>, whatever fails, as long as the server of the actor is
  only replaced by one with the same limit.\<close>

theorem sessions_bounded:
  assumes "actor_trace H environ (new_actor s env uid gid) es a"
    and "max_restarts (limits (manifest s)) = m"
    and "\<forall>s'. Assign s' \<in> set es \<longrightarrow> max_restarts (limits (manifest s')) = m"
  shows "sessions t es \<le> Suc (nat m)"
proof -
  from assms have "sessions_inv m es a"
  proof (induction rule: actor_trace.induct)
    case nil
    then show ?case by (simp add: sessions_inv_def sessions_def new_actor_def)
  next
    case (snoc es a e b)
    with actor_trace_inv [OF snoc.hyps(1)] show ?case
      by (intro actor_step_sessions [OF snoc.hyps(2)]) auto
  qed
  then show ?thesis by (simp add: sessions_inv_def)
qed

lemma sessions_bounded_witness:
  "sessions 0 [Start_Run, Enter 0, Launch_Error 0 cancelled_error, Unwound 0, Enter 0, Launch_Error 0 cancelled_error, Unwound 0]
     \<le> Suc (nat 1)"
proof -
  have "map_option state (run_events demo_host demo_environ [Start_Run, Enter 0, Launch_Error 0 cancelled_error,
      Unwound 0, Enter 0, Launch_Error 0 cancelled_error, Unwound 0] demo_actor) = Some Failed"
    by code_simp
  then obtain a where "run_events demo_host demo_environ [Start_Run, Enter 0, Launch_Error 0 cancelled_error,
      Unwound 0, Enter 0, Launch_Error 0 cancelled_error, Unwound 0] demo_actor = Some a"
    by (auto simp del: run_events.simps)
  then have "actor_trace demo_host demo_environ (new_actor demo_server [(''PATH'', ''/bin'')] None None)
      [Start_Run, Enter 0, Launch_Error 0 cancelled_error, Unwound 0, Enter 0, Launch_Error 0 cancelled_error,
       Unwound 0] a"
    unfolding demo_actor_def by (rule run_events_from)
  then show ?thesis
    by (rule sessions_bounded) (simp_all add: demo_server_def demo_manifest_def)
qed

text \<open>
  After a stop of a waiting session its \<open>Queue.get\<close> is still there. When the server is started
  again, it takes the first request, which nobody answers: the request is pending and waits nowhere.
\<close>

theorem restart_loses_request:
  "\<exists>a. run_events demo_host demo_environ (demo_restart @ [Orphan_Take]) demo_actor = Some a
     \<and> state a = Ready \<and> futures a = [Pending] \<and> queue a = [] \<and> map (phase \<circ> snd) (runs a) = [Serving]"
proof -
  have "map_option (\<lambda>a. (state a, futures a, queue a, map (phase \<circ> snd) (runs a)))
      (run_events demo_host demo_environ (demo_restart @ [Orphan_Take]) demo_actor)
      = Some (Ready, [Pending], [], [Serving])"
    by code_simp
  then show ?thesis by auto
qed

text \<open>
  A stop that arrives after \<open>Queue.get\<close> took a request and before the session serves it: the
  server is stopped, nothing runs and nothing waits, and the caller has no answer.
\<close>

theorem stop_loses_taken_request:
  "\<exists>a. run_events demo_host demo_environ
       (demo_restart @ [Stop_With_Request, Unwound 1, Stop_End 1]) demo_actor = Some a
     \<and> state a = Stopped \<and> futures a = [Pending] \<and> queue a = [] \<and> runs a = [] \<and> stops a = []"
proof -
  have "map_option (\<lambda>a. (state a, futures a, queue a, runs a, stops a))
      (run_events demo_host demo_environ
        (demo_restart @ [Stop_With_Request, Unwound 1, Stop_End 1]) demo_actor)
      = Some (Stopped, [Pending], [], [], [])"
    by code_simp
  then show ?thesis by auto
qed

text \<open>
  Two restarts of a ready server at the same time leave two sessions, so two processes, of which
  the actor knows only one.
\<close>

theorem double_restart_leaves_two_sessions:
  "\<exists>a. run_events demo_host demo_environ demo_double_restart demo_actor = Some a
     \<and> task a = Some 2 \<and> map (\<lambda>(t, r). (t, phase r)) (runs a) = [(1, Serving), (2, Serving)]"
proof -
  have "map_option (\<lambda>a. (task a, map (\<lambda>(t, r). (t, phase r)) (runs a)))
      (run_events demo_host demo_environ demo_double_restart demo_actor)
      = Some (Some 2, [(1, Serving), (2, Serving)])"
    by code_simp
  then show ?thesis by auto
qed

end
