(* ===== verification/Mcp_Supervisor.thy ===== *)
theory Mcp_Supervisor
  imports Mcp_Actor
begin

text \<open>
  \<open>Supervisor\<close> of \<open>mcp_runtime/supervisor.py\<close>: the actors by server id, the authorisation of
  privileged servers and the identity under which a server is launched. An operation is split at
  its awaits: \<open>start_begin\<close> is what \<open>start\<close> does before it waits, and \<open>sup_step\<close> lets the
  operations of all callers and the steps of the actors interleave.
\<close>

section \<open>State\<close>

record supervisor =
  actors :: "(string \<times> actor) list"
  privilege_policy :: py
  allow_root_runtime :: bool
  unprivileged_uid :: "int option"
  unprivileged_gid :: "int option"
  sup_environment :: "(string \<times> string) list"

definition safe_environment_names :: "string list" where
  "safe_environment_names = [''PATH'', ''LANG'', ''LC_ALL'', ''TMPDIR'', ''UV_CACHE_DIR'']"

definition safe_environment :: "(string \<Rightarrow> string option) \<Rightarrow> (string \<times> string) list" where
  "safe_environment environ =
     concat (map (\<lambda>name. case environ name of None \<Rightarrow> [] | Some v \<Rightarrow> [(name, v)]) safe_environment_names)"

definition new_supervisor ::
    "(string \<Rightarrow> string option) \<Rightarrow> py \<Rightarrow> bool \<Rightarrow> int option \<Rightarrow> int option \<Rightarrow> supervisor" where
  "new_supervisor environ policy allow_root uid gid =
     \<lparr>actors = [], privilege_policy = py_or policy (PDict [(''servers'', PDict [])]),
      allow_root_runtime = allow_root, unprivileged_uid = uid, unprivileged_gid = gid,
      sup_environment = safe_environment environ\<rparr>"

text \<open>\<open>RuntimeSettings.load_privilege_policy\<close>; \<open>loads\<close> is the JSON parser on the file, if one is set.\<close>

definition load_privilege_policy :: "py result option \<Rightarrow> py result" where
  "load_privilege_policy file =
     (case file of
        None \<Rightarrow> Inr (PDict [(''schema_version'', PInt 1), (''servers'', PDict [])])
      | Some (Inl e) \<Rightarrow> Inl e
      | Some (Inr data) \<Rightarrow>
          bindR (py_get data ''schema_version'') (\<lambda>v.
          bindR (py_get data ''servers'') (\<lambda>servers.
          if (v \<noteq> PInt 1 \<and> v \<noteq> PBool True \<and> v \<noteq> PFloat 1) \<or> \<not> is_dict servers
          then Inl (RuntimeError ''invalid managed MCP privilege policy'') else Inr data)))"

section \<open>Authorisation\<close>

text \<open>\<open>set(policy.get('capabilities') or [])\<close>: the elements must be hashable.\<close>

definition capability_set :: "py \<Rightarrow> py list result" where
  "capability_set v =
     bindR (py_iter (py_or v (PList []))) (\<lambda>xs. if list_all hashable xs then Inr xs else Inl TypeError)"

definition required_capabilities :: "managed_server \<Rightarrow> string list" where
  "required_capabilities s =
     ''system-read'' # (if root_write (security (manifest s)) then [''system-write''] else [])"

definition authorize :: "int \<Rightarrow> supervisor \<Rightarrow> managed_server \<Rightarrow> unit result" where
  "authorize euid S s =
     (if profile (security (manifest s)) \<noteq> ''system-admin'' then Inr ()
      else
        bindR (py_get (privilege_policy S) ''servers'') (\<lambda>policies.
        bindR (py_get (py_or policies (PDict [])) (ms_id s)) (\<lambda>entry.
        bindR (py_get (py_or entry (PDict [])) ''package_path'') (\<lambda>p.
        if p \<noteq> PStr (package_path s)
        then Inl (SupervisorError ''system-admin package path is not authorized'')
        else bindR (py_get (py_or entry (PDict [])) ''package_digest'') (\<lambda>d.
        if d \<noteq> PStr (digest s)
        then Inl (SupervisorError ''system-admin package digest is not authorized'')
        else bindR (py_get (py_or entry (PDict [])) ''capabilities'') (\<lambda>c.
        bindR (capability_set c) (\<lambda>capabilities.
        if \<not> list_all (\<lambda>r. PStr r \<in> set capabilities) (required_capabilities s)
        then Inl (SupervisorError ''system-admin capabilities are not authorized'')
        else if \<not> allow_root_runtime S \<or> euid \<noteq> 0
        then Inl (SupervisorError ''system-admin requires an explicitly enabled root runtime service'')
        else Inr ())))))))"

section \<open>Operations\<close>

definition put_actor :: "string \<Rightarrow> actor \<Rightarrow> supervisor \<Rightarrow> supervisor" where
  "put_actor k a S = S\<lparr>actors := dset k a (actors S)\<rparr>"

text \<open>The user and group of a new actor.\<close>

definition launch_identity :: "int \<Rightarrow> supervisor \<Rightarrow> managed_server \<Rightarrow> (int option \<times> int option) result" where
  "launch_identity euid S s =
     (if euid = 0 \<and> profile (security (manifest s)) = ''confined''
      then if unprivileged_uid S = None \<or> unprivileged_gid S = None
        then Inl (SupervisorError ''root runtime requires an unprivileged UID and GID for confined servers'')
        else Inr (unprivileged_uid S, unprivileged_gid S)
      else Inr (None, None))"

text \<open>
  \<open>ServerActor.start\<close> up to its wait: nothing while a task runs, else the digest is checked and a
  task is made.
\<close>

definition actor_start :: "host \<Rightarrow> actor \<Rightarrow> actor \<times> unit result" where
  "actor_start H a =
     (if \<not> task_done a then (a, Inr ())
      else case package_digest H (path_of (package_path (server a))) of
          Inl e \<Rightarrow> (a, Inl e)
        | Inr g \<Rightarrow> if g \<noteq> digest (server a)
            then (a, Inl (SupervisorError ''package digest changed after registration''))
            else (begin_run a, Inr ()))"

text \<open>The part of \<open>Supervisor.start\<close> after the old actor is out of the way.\<close>

definition start_actor :: "host \<Rightarrow> int \<Rightarrow> actor option \<Rightarrow> managed_server \<Rightarrow> supervisor \<Rightarrow> supervisor \<times> unit result" where
  "start_actor H euid found s S =
     (case found of
        None \<Rightarrow> (case launch_identity euid S s of
            Inl e \<Rightarrow> (S, Inl e)
          | Inr (uid, gid) \<Rightarrow>
              (case actor_start H (new_actor s (sup_environment S) uid gid) of
                 (a, r) \<Rightarrow> (put_actor (ms_id s) a S, r)))
      | Some a \<Rightarrow> (case actor_start H (a\<lparr>server := s\<rparr>) of (a, r) \<Rightarrow> (put_actor (ms_id s) a S, r)))"

text \<open>
  A whole \<open>start\<close> in which \<open>stopped\<close> is what the old actor of a changed package becomes until its
  \<open>stop\<close> returns, and \<open>waited\<close> what the actor becomes, and \<open>wait_ready\<close> returns, after the start.
\<close>

definition supervisor_start ::
    "host \<Rightarrow> int \<Rightarrow> (actor \<Rightarrow> actor) \<Rightarrow> (actor \<Rightarrow> actor \<times> unit result) \<Rightarrow> managed_server \<Rightarrow> supervisor \<Rightarrow>
     supervisor \<times> unit result" where
  "supervisor_start H euid stopped waited s S =
     (case authorize euid S s of
        Inl e \<Rightarrow> (S, Inl e)
      | Inr _ \<Rightarrow>
          (let old = dget (actors S) (ms_id s);
               changed = (case old of Some a \<Rightarrow> digest (server a) \<noteq> digest s | None \<Rightarrow> False);
               S1 = (case old of Some a \<Rightarrow> if changed then put_actor (ms_id s) (stopped a) S else S | None \<Rightarrow> S)
           in case start_actor H euid (if changed then None else old) s S1 of
                (S2, Inl e) \<Rightarrow> (S2, Inl e)
              | (S2, Inr _) \<Rightarrow> (case dget (actors S2) (ms_id s) of
                  None \<Rightarrow> (S2, Inr ())
                | Some a \<Rightarrow> (case waited a of (a', r) \<Rightarrow> (put_actor (ms_id s) a' S2, r)))))"

definition supervisor_stop :: "(actor \<Rightarrow> actor) \<Rightarrow> string \<Rightarrow> supervisor \<Rightarrow> supervisor" where
  "supervisor_stop stopped k S =
     (case dget (actors S) k of None \<Rightarrow> S | Some a \<Rightarrow> put_actor k (stopped a) S)"

definition supervisor_remove :: "(actor \<Rightarrow> actor) \<Rightarrow> string \<Rightarrow> supervisor \<Rightarrow> supervisor" where
  "supervisor_remove stopped k S =
     (let S' = supervisor_stop stopped k S in S'\<lparr>actors := dpop k (actors S')\<rparr>)"

definition supervisor_shutdown :: "(actor \<Rightarrow> actor) \<Rightarrow> supervisor \<Rightarrow> supervisor" where
  "supervisor_shutdown stopped S = S\<lparr>actors := map (\<lambda>(k, a). (k, stopped a)) (actors S)\<rparr>"

text \<open>\<open>list_tools\<close> and \<open>call_tool\<close>: the request of the actor that is submitted, if it is ready.\<close>

definition not_running :: "string \<Rightarrow> py_exc" where
  "not_running k = SupervisorError (''server '' @ k @ '' is not running'')"

definition actor_request :: "string \<Rightarrow> string option \<Rightarrow> py \<Rightarrow> actor \<Rightarrow> actor result" where
  "actor_request op name given a =
     (if state a \<noteq> Ready then Inl (SupervisorError (''server '' @ ms_id (server a) @ '' is not ready''))
      else Inr (submit op name given a))"

definition supervisor_request :: "string \<Rightarrow> string \<Rightarrow> string option \<Rightarrow> py \<Rightarrow> supervisor \<Rightarrow> supervisor result" where
  "supervisor_request op k name given S =
     (case dget (actors S) k of
        None \<Rightarrow> Inl (not_running k)
      | Some a \<Rightarrow> mapR (\<lambda>a. put_actor k a S) (actor_request op name given a))"

definition supervisor_list_tools :: "string \<Rightarrow> supervisor \<Rightarrow> supervisor result" where
  "supervisor_list_tools k S = supervisor_request ''list_tools'' k None PNone S"

definition supervisor_call_tool :: "string \<Rightarrow> string \<Rightarrow> py \<Rightarrow> supervisor \<Rightarrow> supervisor result" where
  "supervisor_call_tool k name given S = supervisor_request ''call_tool'' k (Some name) given S"

definition supervisor_logs :: "string \<Rightarrow> int \<Rightarrow> supervisor \<Rightarrow> string list result" where
  "supervisor_logs k limit S =
     (case dget (actors S) k of None \<Rightarrow> Inl (not_running k) | Some a \<Rightarrow> Inr (lines (logs a) limit))"

record server_view =
  v_server :: managed_server
  v_state :: server_state
  v_last_error :: "string option"
  v_tools :: "py list"

text \<open>\<open>ManagedServerView\<close>: fields of the server, and the state of its actor.\<close>

definition view :: "supervisor \<Rightarrow> managed_server \<Rightarrow> server_view" where
  "view S s =
     (case dget (actors S) (ms_id s) of
        None \<Rightarrow> \<lparr>v_server = s, v_state = Stopped, v_last_error = None, v_tools = []\<rparr>
      | Some a \<Rightarrow> \<lparr>v_server = s, v_state = state a, v_last_error = last_error a, v_tools = tools a\<rparr>)"

section \<open>Interleaving\<close>

text \<open>
  The steps of a supervisor with effective user \<open>euid\<close> whose callers start servers of \<open>R\<close>. The
  second half of a replacement may come at any time after its authorisation, so a new actor may be
  put in the place of any other; the steps of an actor are those of \<open>actor_step\<close>.
\<close>

inductive sup_step ::
    "host \<Rightarrow> (string \<Rightarrow> string option) \<Rightarrow> int \<Rightarrow> managed_server set \<Rightarrow> supervisor \<Rightarrow> supervisor \<Rightarrow> bool"
  for H environ euid R where
  start_found: "s \<in> R \<Longrightarrow> authorize euid S s = Inr () \<Longrightarrow> dget (actors S) (ms_id s) = Some a \<Longrightarrow>
      digest (server a) = digest s \<Longrightarrow>
      sup_step H environ euid R S (fst (start_actor H euid (Some a) s S))"
| start_new: "s \<in> R \<Longrightarrow> authorize euid S s = Inr () \<Longrightarrow>
      sup_step H environ euid R S (fst (start_actor H euid None s S))"
| event: "dget (actors S) k = Some a \<Longrightarrow> actor_step H environ a e b \<Longrightarrow> \<forall>s. e \<noteq> Assign s \<Longrightarrow>
      sup_step H environ euid R S (put_actor k b S)"
| remove: "sup_step H environ euid R S (S\<lparr>actors := dpop k (actors S)\<rparr>)"

inductive sup_reachable ::
    "host \<Rightarrow> (string \<Rightarrow> string option) \<Rightarrow> int \<Rightarrow> managed_server set \<Rightarrow> supervisor \<Rightarrow> supervisor \<Rightarrow> bool"
  for H environ euid R S0 where
  init: "sup_reachable H environ euid R S0 S0"
| step: "sup_reachable H environ euid R S0 S \<Longrightarrow> sup_step H environ euid R S T \<Longrightarrow>
      sup_reachable H environ euid R S0 T"

section \<open>Launches\<close>

definition identity_ok :: "int \<Rightarrow> supervisor \<Rightarrow> actor \<Rightarrow> bool" where
  "identity_ok euid S a \<longleftrightarrow> (euid = 0 \<and> profile (security (manifest (server a))) = ''confined'' \<longrightarrow>
     launch_uid a = unprivileged_uid S \<and> launch_gid a = unprivileged_gid S
     \<and> unprivileged_uid S \<noteq> None \<and> unprivileged_gid S \<noteq> None)"

definition actor_ok :: "int \<Rightarrow> managed_server set \<Rightarrow> supervisor \<Rightarrow> actor \<Rightarrow> bool" where
  "actor_ok euid R S a \<longleftrightarrow> server a \<in> R \<and> authorize euid S (server a) = Inr () \<and> identity_ok euid S a"

definition supervisor_ok :: "int \<Rightarrow> managed_server set \<Rightarrow> supervisor \<Rightarrow> bool" where
  "supervisor_ok euid R S \<longleftrightarrow> (\<forall>k a. dget (actors S) k = Some a \<longrightarrow> actor_ok euid R S a)"

lemma put_actor_frame [simp]:
  "actors (put_actor k a S) = dset k a (actors S)" "privilege_policy (put_actor k a S) = privilege_policy S"
  "allow_root_runtime (put_actor k a S) = allow_root_runtime S"
  "unprivileged_uid (put_actor k a S) = unprivileged_uid S" "unprivileged_gid (put_actor k a S) = unprivileged_gid S"
  by (simp_all add: put_actor_def)

lemma authorize_actors [simp]: "authorize euid (S\<lparr>actors := A\<rparr>) s = authorize euid S s"
  by (cases S) (simp only: authorize_def supervisor.simps)

lemma authorize_put_actor [simp]: "authorize euid (put_actor k a S) s = authorize euid S s"
  by (simp add: put_actor_def)

lemma actor_ok_actors [simp]: "actor_ok euid R (S\<lparr>actors := A\<rparr>) a = actor_ok euid R S a"
  by (simp add: actor_ok_def identity_ok_def)

lemma supervisor_ok_put: "supervisor_ok euid R S \<Longrightarrow> actor_ok euid R S a \<Longrightarrow> supervisor_ok euid R (put_actor k a S)"
  by (simp add: supervisor_ok_def put_actor_def)

text \<open>What a step of an actor keeps: its server, and the identity it was made with.\<close>

lemma run_failed_identity [simp]: "launch_uid (run_failed t e a) = launch_uid a" "launch_gid (run_failed t e a) = launch_gid a"
  by (simp_all add: run_failed_def Let_def fail_pending_def end_run_def split: option.splits)

lemma set_phase_identity [simp]: "launch_uid (set_phase t p a) = launch_uid a" "launch_gid (set_phase t p a) = launch_gid a"
  by (simp_all add: set_phase_def split: option.splits)

lemma settle_request_identity [simp]:
  "launch_uid (settle_request ans rq a) = launch_uid a" "launch_gid (settle_request ans rq a) = launch_gid a"
  by (simp_all add: settle_request_def)

lemma session_finally_identity [simp]:
  "launch_uid (session_finally a) = launch_uid a" "launch_gid (session_finally a) = launch_gid a"
  by (simp_all add: session_finally_def)

lemma cancel_run_identity [simp]:
  "launch_uid (cancel_run t a) = launch_uid a" "launch_gid (cancel_run t a) = launch_gid a"
  by (simp_all add: cancel_run_def end_run_def split: option.splits phase.splits)

lemmas step_unfolds = begin_run_def enter_session_def session_up_def await_request_def submit_def serve_def
  unwound_def stop_begin_def stop_end_def fail_pending_def end_run_def Let_def

lemma actor_step_identity:
  "actor_step H environ a e b \<Longrightarrow> launch_uid b = launch_uid a \<and> launch_gid b = launch_gid a"
  by (induction rule: actor_step.induct)
     (auto simp: step_unfolds split: sum.splits cause.splits option.splits)

lemma actor_step_ok:
  assumes "actor_step H environ a e b" "\<forall>s. e \<noteq> Assign s" "actor_ok euid R S a"
  shows "actor_ok euid R S b"
  using actor_step_identity [OF assms(1)] actor_step_frame(2) [OF assms(1)] assms(2,3)
  by (auto simp: actor_ok_def identity_ok_def)

lemma actor_start_frame:
  "actor_start H a = (b, r) \<Longrightarrow> server b = server a \<and> launch_uid b = launch_uid a \<and> launch_gid b = launch_gid a"
  by (auto simp: actor_start_def begin_run_def split: if_splits sum.splits)

definition one_profile_per_digest :: "managed_server set \<Rightarrow> bool" where
  "one_profile_per_digest R \<longleftrightarrow> (\<forall>s \<in> R. \<forall>t \<in> R. digest s = digest t \<longrightarrow>
     profile (security (manifest s)) = profile (security (manifest t)))"

lemma sup_step_ok:
  assumes "sup_step H environ euid R S T" "supervisor_ok euid R S" "one_profile_per_digest R"
  shows "supervisor_ok euid R T"
  using assms(1)
proof cases
  case (start_found s a)
  with assms(2) have a: "actor_ok euid R S a" by (auto simp: supervisor_ok_def)
  obtain b r where b: "actor_start H (a\<lparr>server := s\<rparr>) = (b, r)" by fastforce
  from actor_start_frame [OF b] have eq: "server b = s" "launch_uid b = launch_uid a" "launch_gid b = launch_gid a"
    by simp_all
  have "profile (security (manifest (server a))) = profile (security (manifest s))"
    using assms(3) a start_found(2,5) unfolding one_profile_per_digest_def actor_ok_def by blast
  with a start_found(2,3) have "actor_ok euid R S b"
    by (simp add: actor_ok_def identity_ok_def eq)
  with start_found b assms(2) show ?thesis by (simp add: start_actor_def supervisor_ok_put)
next
  case (start_new s)
  show ?thesis
  proof (cases "launch_identity euid S s")
    case (Inl e)
    with start_new assms(2) show ?thesis by (simp add: start_actor_def)
  next
    case (Inr i)
    obtain uid gid where i: "i = (uid, gid)" by fastforce
    obtain b r where b: "actor_start H (new_actor s (sup_environment S) uid gid) = (b, r)" by fastforce
    from actor_start_frame [OF b] start_new Inr i have "actor_ok euid R S b"
      by (auto simp: actor_ok_def identity_ok_def new_actor_def launch_identity_def split: if_splits)
    with start_new Inr i b assms(2) show ?thesis by (simp add: start_actor_def supervisor_ok_put)
  qed
next
  case (event k a e b)
  with assms(2) have "actor_ok euid R S b" by (auto simp: supervisor_ok_def intro: actor_step_ok)
  with event assms(2) show ?thesis by (simp add: supervisor_ok_put)
next
  case (remove k)
  with assms(2) show ?thesis by (simp add: supervisor_ok_def)
qed

lemma sup_reachable_ok:
  assumes "sup_reachable H environ euid R S0 S" "actors S0 = []" "one_profile_per_digest R"
  shows "supervisor_ok euid R S"
  using assms(1)
proof (induction rule: sup_reachable.induct)
  case init
  from assms(2) show ?case by (simp add: supervisor_ok_def)
next
  case (step S T)
  with assms(3) show ?case by (blast intro: sup_step_ok)
qed

lemma authorize_admin:
  assumes "authorize euid S s = Inr ()" "profile (security (manifest s)) = ''system-admin''"
  shows "euid = 0" "allow_root_runtime S"
    and "\<exists>policies entry. py_get (privilege_policy S) ''servers'' = Inr policies
      \<and> py_get (py_or policies (PDict [])) (ms_id s) = Inr entry
      \<and> py_get (py_or entry (PDict [])) ''package_path'' = Inr (PStr (package_path s))
      \<and> py_get (py_or entry (PDict [])) ''package_digest'' = Inr (PStr (digest s))"
  using assms by (auto simp: authorize_def split: if_splits)

lemma dict_update_other: "k \<notin> fst ` set pairs \<Longrightarrow> dget (dict_update d pairs) k = dget d k"
  unfolding dict_update_def by (induction pairs arbitrary: d) auto

lemma add_secrets_other:
  "add_secrets environ values secrets = Inr values' \<Longrightarrow> k \<notin> fst ` set secrets \<Longrightarrow> dget values' k = dget values k"
  by (induction environ "values" secrets rule: add_secrets.induct) (auto split: option.splits)

lemma default_values_names: "fst ` set (default_values d) \<subseteq> fst ` set d"
  by (force simp: default_values_def split: option.splits)

text \<open>The read-only mark reaches the process when the manifest does not declare a variable of that name.\<close>

lemma read_only_reaches_process:
  assumes "actor_environment environ a = Inr values"
    and "environment_ok (manifest (server a)) (environment (server a)) (secret_environment (server a))"
    and "''OPEN_WEBUI_MCP_READ_ONLY'' \<notin> fst ` set (mf_environment (manifest (server a)))"
  shows "dget values ''OPEN_WEBUI_MCP_READ_ONLY'' = Some (read_only_value (server a))"
proof -
  let ?k = "''OPEN_WEBUI_MCP_READ_ONLY''"
  have "?k \<notin> fst ` set (environment (server a))" "?k \<notin> fst ` set (secret_environment (server a))"
    using assms(2,3) unfolding environment_ok_def by blast+
  moreover have "?k \<notin> fst ` set (default_values (mf_environment (manifest (server a))))"
    using assms(3) default_values_names by blast
  ultimately show ?thesis
    using assms(1) by (simp add: actor_environment_def Let_def add_secrets_other dict_update_other)
qed

lemma working_path_below:
  "working_path H s = Inr w \<Longrightarrow> w = resolve H (path_of (package_path s))
     \<or> is_relative_to w (resolve H (path_of (package_path s)))"
  by (auto simp: working_path_def Let_def split: if_splits)

section \<open>Whole operations\<close>

text \<open>What can become of an actor while a caller waits: steps other than a change of its server.\<close>

definition actor_becomes :: "host \<Rightarrow> (string \<Rightarrow> string option) \<Rightarrow> actor \<Rightarrow> actor \<Rightarrow> bool" where
  "actor_becomes H environ a b \<longleftrightarrow> (\<exists>es. actor_trace H environ a es b \<and> (\<forall>s. Assign s \<notin> set es))"

lemma actor_becomes_ok:
  assumes "actor_becomes H environ a b" "actor_ok euid R S a"
  shows "actor_ok euid R S b"
proof -
  from assms(1) obtain es where "actor_trace H environ a es b" "\<forall>s. Assign s \<notin> set es"
    by (auto simp: actor_becomes_def)
  then show ?thesis
  proof (induction rule: actor_trace.induct)
    case nil
    from assms(2) show ?case .
  next
    case (snoc es c e d)
    then show ?case by (auto intro!: actor_step_ok [OF snoc.hyps(2)])
  qed
qed

lemma start_actor_ok:
  assumes "supervisor_ok euid R S" "s \<in> R" "authorize euid S s = Inr ()" "one_profile_per_digest R"
    and "found = None \<or> (\<exists>a. found = Some a \<and> dget (actors S) (ms_id s) = Some a \<and> digest (server a) = digest s)"
  shows "supervisor_ok euid R (fst (start_actor H euid found s S))"
  using assms(5)
proof
  assume "found = None"
  with sup_step.start_new [OF assms(2,3)] sup_step_ok assms(1,4) show ?thesis by blast
next
  assume "\<exists>a. found = Some a \<and> dget (actors S) (ms_id s) = Some a \<and> digest (server a) = digest s"
  with sup_step.start_found [OF assms(2,3)] sup_step_ok assms(1,4) show ?thesis by blast
qed

lemma start_actor_frame:
  assumes "start_actor H euid found s S = (T, r)"
  shows "\<exists>A. T = S\<lparr>actors := A\<rparr>"
proof -
  have "\<exists>A. S = S\<lparr>actors := A\<rparr>" by (rule exI [of _ "actors S"]) simp
  with assms show ?thesis
    by (auto simp: start_actor_def put_actor_def split: option.splits sum.splits prod.splits)
qed

lemma supervisor_start_ok:
  assumes "supervisor_ok euid R S" "s \<in> R" "one_profile_per_digest R"
    and stopped: "\<And>a. actor_becomes H environ a (stopped a)"
    and waited: "\<And>a. actor_becomes H environ a (fst (waited a))"
  shows "supervisor_ok euid R (fst (supervisor_start H euid stopped waited s S))"
proof (cases "authorize euid S s")
  case (Inl e)
  with assms(1) show ?thesis by (simp add: supervisor_start_def)
next
  case (Inr u)
  let ?old = "dget (actors S) (ms_id s)"
  let ?changed = "case ?old of Some a \<Rightarrow> digest (server a) \<noteq> digest s | None \<Rightarrow> False"
  let ?S1 = "case ?old of Some a \<Rightarrow> if ?changed then put_actor (ms_id s) (stopped a) S else S | None \<Rightarrow> S"
  let ?found = "if ?changed then None else ?old"
  have S1: "supervisor_ok euid R ?S1"
    using assms(1)
    by (auto simp: supervisor_ok_def put_actor_def split: option.split intro!: actor_becomes_ok [OF stopped])
  have auth: "authorize euid ?S1 s = Inr ()" using Inr by (simp split: option.split)
  have found: "?found = None \<or> (\<exists>a. ?found = Some a \<and> dget (actors ?S1) (ms_id s) = Some a \<and> digest (server a) = digest s)"
    by (cases ?old) auto
  obtain S2 r where S2: "start_actor H euid ?found s ?S1 = (S2, r)" by fastforce
  from start_actor_ok [OF S1 assms(2) auth assms(3) found, of H] S2 have ok2: "supervisor_ok euid R S2" by simp
  have "supervisor_ok euid R (put_actor (ms_id s) (fst (waited a)) S2)" if "dget (actors S2) (ms_id s) = Some a" for a
    using ok2 that actor_becomes_ok [OF waited] supervisor_ok_put unfolding supervisor_ok_def by blast
  with ok2 show ?thesis
    unfolding supervisor_start_def Let_def Inr S2
    by (auto simp: S2 split: sum.splits option.splits prod.splits)
qed

lemma supervisor_stop_ok:
  assumes "supervisor_ok euid R S" "\<And>a. actor_becomes H environ a (stopped a)"
  shows "supervisor_ok euid R (supervisor_stop stopped k S)"
  using assms(1)
  by (auto simp: supervisor_stop_def supervisor_ok_def put_actor_def split: option.splits
      intro!: actor_becomes_ok [OF assms(2)])

lemma supervisor_remove_ok:
  assumes "supervisor_ok euid R S" "\<And>a. actor_becomes H environ a (stopped a)"
  shows "supervisor_ok euid R (supervisor_remove stopped k S)"
  using supervisor_stop_ok [OF assms, of k] by (simp add: supervisor_remove_def Let_def supervisor_ok_def)

lemmas supervisor_ops_ok [inv_intros] = supervisor_start_ok supervisor_stop_ok supervisor_remove_ok

text \<open>An uninterrupted stop of an actor whose task closes its session is such a becoming.\<close>

definition actor_stop :: "actor \<Rightarrow> actor" where
  "actor_stop a =
     (case task a of
        None \<Rightarrow> stop_begin a
      | Some t \<Rightarrow>
          (let b = stop_begin a in
           stop_end t (if phase_of b t = Some (Unwinding Cancel) then unwound t Cancel b else b)))"

lemma actor_stop_becomes: "actor_becomes H environ a (actor_stop a)"
proof (cases "task a")
  case None
  have "actor_trace H environ a ([] @ [Stop_Begin]) (stop_begin a)"
    by (rule actor_trace.snoc [OF actor_trace.nil actor_step.stop_begin])
  with None show ?thesis unfolding actor_becomes_def actor_stop_def by (intro exI [of _ "[Stop_Begin]"]) simp
next
  case (Some t)
  let ?b = "stop_begin a"
  have first: "actor_trace H environ a [Stop_Begin] ?b"
    using actor_trace.snoc [OF actor_trace.nil actor_step.stop_begin] by simp
  have stops: "t \<in> set (stops ?b)" using Some by (simp add: stop_begin_def)
  show ?thesis
  proof (cases "phase_of ?b t = Some (Unwinding Cancel)")
    case True
    then have "actor_step H environ ?b (Unwound t) (unwound t Cancel ?b)"
      unfolding phase_of_Some by (rule actor_step.unwound)
    from actor_trace.snoc [OF first this]
    have "actor_trace H environ a ([Stop_Begin] @ [Unwound t]) (unwound t Cancel ?b)" .
    moreover have "t \<in> set (stops (unwound t Cancel ?b))" "dget (runs (unwound t Cancel ?b)) t = None"
      using stops by (simp_all add: unwound_def)
    ultimately have "actor_trace H environ a (([Stop_Begin] @ [Unwound t]) @ [Stop_End t]) (stop_end t (unwound t Cancel ?b))"
      by (rule actor_trace.snoc [OF _ actor_step.stop_end])
    with Some True show ?thesis
      unfolding actor_becomes_def actor_stop_def by (intro exI [of _ "[Stop_Begin, Unwound t, Stop_End t]"]) simp
  next
    case False
    have "dget (runs ?b) t = None"
      using False Some
      by (auto simp: stop_begin_def dget_cancel_run phase_of_def split: option.splits if_splits)
    then have "actor_trace H environ a ([Stop_Begin] @ [Stop_End t]) (stop_end t ?b)"
      by (rule actor_trace.snoc [OF first actor_step.stop_end [OF stops]])
    with Some False show ?thesis
      unfolding actor_becomes_def actor_stop_def by (intro exI [of _ "[Stop_Begin, Stop_End t]"]) simp
  qed
qed

section \<open>Properties\<close>

text \<open>C24: take servers of which those with the same package digest declare the same profile. Whatever the order of
  starts, stops, removals and failures, what a supervisor launches is permitted: a system-admin server only under root, when
  the runtime allows it and the policy names its path and digest; under root a confined server only as the unprivileged user
  and group; and each in the directory of its package or under it. A server whose environment passed the check of the registry
  and whose manifest does not itself declare \<open>OPEN_WEBUI_MCP_READ_ONLY\<close> is told by this variable whether it is
  read-only.\<close>

theorem launches_permitted:
  assumes "sup_reachable H environ euid R (new_supervisor env0 policy allow_root uid gid) S"
    and "one_profile_per_digest R"
    and "dget (actors S) k = Some a" and "launch_parameters H environ a = Inr l"
  shows "(profile (security (manifest (server a))) = ''system-admin'' \<longrightarrow>
      euid = 0 \<and> allow_root_runtime S
      \<and> (\<exists>policies entry. py_get (privilege_policy S) ''servers'' = Inr policies
        \<and> py_get (py_or policies (PDict [])) (ms_id (server a)) = Inr entry
        \<and> py_get (py_or entry (PDict [])) ''package_path'' = Inr (PStr (package_path (server a)))
        \<and> py_get (py_or entry (PDict [])) ''package_digest'' = Inr (PStr (digest (server a)))))
    \<and> (euid = 0 \<and> profile (security (manifest (server a))) = ''confined'' \<longrightarrow>
      (\<exists>u g. unprivileged_uid S = Some u \<and> unprivileged_gid S = Some g \<and> l_user l = Some u \<and> l_group l = Some g))
    \<and> (l_cwd l = resolve H (path_of (package_path (server a)))
      \<or> is_relative_to (l_cwd l) (resolve H (path_of (package_path (server a)))))
    \<and> (environment_ok (manifest (server a)) (environment (server a)) (secret_environment (server a))
      \<and> ''OPEN_WEBUI_MCP_READ_ONLY'' \<notin> fst ` set (mf_environment (manifest (server a))) \<longrightarrow>
      dget (l_env l) ''OPEN_WEBUI_MCP_READ_ONLY'' = Some (read_only_value (server a)))"
proof (intro conjI impI)
  have "supervisor_ok euid R S"
    using sup_reachable_ok [OF assms(1) _ assms(2)] by (simp add: new_supervisor_def)
  with assms(3) have ok: "authorize euid S (server a) = Inr ()" "identity_ok euid S a"
    by (auto simp: supervisor_ok_def actor_ok_def)
  from assms(4) obtain w vs where l: "working_path H (server a) = Inr w"
      "actor_environment environ a = Inr vs" "l_cwd l = w" "l_env l = vs"
      "l_user l = launch_uid a" "l_group l = launch_gid a"
    by (auto simp: launch_parameters_def split: sum.splits)
  show "euid = 0" "allow_root_runtime S"
      "\<exists>policies entry. py_get (privilege_policy S) ''servers'' = Inr policies
        \<and> py_get (py_or policies (PDict [])) (ms_id (server a)) = Inr entry
        \<and> py_get (py_or entry (PDict [])) ''package_path'' = Inr (PStr (package_path (server a)))
        \<and> py_get (py_or entry (PDict [])) ''package_digest'' = Inr (PStr (digest (server a)))"
    if "profile (security (manifest (server a))) = ''system-admin''"
    using authorize_admin [OF ok(1) that] by blast+
  show "\<exists>u g. unprivileged_uid S = Some u \<and> unprivileged_gid S = Some g \<and> l_user l = Some u \<and> l_group l = Some g"
    if "euid = 0 \<and> profile (security (manifest (server a))) = ''confined''"
    using ok(2) that l by (auto simp: identity_ok_def)
  show "l_cwd l = resolve H (path_of (package_path (server a)))
      \<or> is_relative_to (l_cwd l) (resolve H (path_of (package_path (server a))))"
    using working_path_below [OF l(1)] l(3) by simp
  show "dget (l_env l) ''OPEN_WEBUI_MCP_READ_ONLY'' = Some (read_only_value (server a))"
    if "environment_ok (manifest (server a)) (environment (server a)) (secret_environment (server a))
      \<and> ''OPEN_WEBUI_MCP_READ_ONLY'' \<notin> fst ` set (mf_environment (manifest (server a)))"
    using read_only_reaches_process [OF l(2)] that l(4) by simp
qed

definition demo_supervisor :: supervisor where
  "demo_supervisor = new_supervisor demo_environ PNone False (Some 1000) (Some 1000)"

lemma launches_permitted_witness:
  "\<exists>(S :: supervisor) a l. dget (actors S) ''weather'' = Some a \<and> launch_parameters demo_host demo_environ a = Inr l
     \<and> l_user l = Some 1000 \<and> l_group l = Some 1000"
proof -
  let ?S = "fst (start_actor demo_host 0 None demo_server demo_supervisor)"
  have "(case dget (actors ?S) ''weather'' of
      None \<Rightarrow> False
    | Some a \<Rightarrow> \<not> isl (launch_parameters demo_host demo_environ a)
        \<and> profile (security (manifest (server a))) = ''confined''
        \<and> unprivileged_uid ?S = Some 1000 \<and> unprivileged_gid ?S = Some 1000)"
    by code_simp
  then obtain a l where a: "dget (actors ?S) ''weather'' = Some a" "launch_parameters demo_host demo_environ a = Inr l"
      "profile (security (manifest (server a))) = ''confined''"
      and ids: "unprivileged_uid ?S = Some 1000" "unprivileged_gid ?S = Some 1000"
    by (auto simp: isl_def split: option.splits) (metis isl_def sum.exhaust)
  have auth: "authorize 0 demo_supervisor demo_server = Inr ()"
    by (simp add: authorize_def demo_server_def demo_manifest_def)
  have "sup_reachable demo_host demo_environ 0 {demo_server} demo_supervisor ?S"
    by (intro sup_reachable.step [OF sup_reachable.init] sup_step.start_new auth) simp
  then have reach: "sup_reachable demo_host demo_environ 0 {demo_server}
      (new_supervisor demo_environ PNone False (Some 1000) (Some 1000)) ?S"
    by (simp add: demo_supervisor_def)
  have "one_profile_per_digest {demo_server}" by (simp add: one_profile_per_digest_def)
  from launches_permitted [OF reach this a(1,2)] a(3) ids
  have "l_user l = Some 1000 \<and> l_group l = Some 1000" by simp
  with a(1,2) show ?thesis by (intro exI [of _ ?S] exI [of _ a] exI [of _ l]) simp
qed

end
