(* ===== verification/Mcp_App.thy ===== *)
theory Mcp_App
  imports Mcp_Supervisor
begin

text \<open>
  The HTTP interface of the managed MCP runtime, \<open>mcp_runtime/app.py\<close>: the handlers, which compose
  the registry and the supervisor, their error responses, and the dispatcher of MCP traffic. A
  handler is a function on both states; what happens to an actor while the handler waits for its
  stop or its readiness is given by the functions \<open>stopped\<close> and \<open>waited\<close> of \<open>world\<close>.
\<close>

section \<open>State\<close>

record 'b runtime_state =
  reg :: "'b registry"
  sup :: supervisor

record 'b world =
  json :: "'b codec"
  hst :: host
  package_roots :: "pure_path list"
  process_euid :: int
  stopped :: "actor \<Rightarrow> actor"
  waited :: "actor \<Rightarrow> actor \<times> unit result"
  fault :: fault
  now :: int

section \<open>Errors\<close>

text \<open>\<open>except (RegistryError, SupervisorError, ValueError) as exc: error(exc)\<close>; others are not caught.\<close>

fun exc_message :: "py_exc \<Rightarrow> string option" where
  "exc_message (RegistryError m) = Some m"
| "exc_message (SupervisorError m) = Some m"
| "exc_message (ValueError m) = Some m"
| "exc_message _ = None"

definition http_error :: "py_exc \<Rightarrow> py_exc" where
  "http_error e =
     (case exc_message e of
        None \<Rightarrow> e
      | Some m \<Rightarrow> HTTPException (if str_in ''not found'' m then 404 else 400) m)"

definition error_detail ::
    "string \<Rightarrow> string \<Rightarrow> string \<Rightarrow> bool \<Rightarrow> (string \<times> py) list \<Rightarrow> pydict" where
  "error_detail kind message request_id retryable context =
     dict_update [(''code'', PStr kind), (''message'', PStr message), (''request_id'', PStr request_id),
                  (''retryable'', PBool retryable)] (filter (\<lambda>(k, v). v \<noteq> PNone) context)"

text \<open>\<open>http_error_handler\<close>: status, and the detail of the body.\<close>

definition http_error_handler :: "string \<Rightarrow> int \<Rightarrow> py \<Rightarrow> int \<times> pydict" where
  "http_error_handler trace_id status detail =
     (let d = (case detail of
          PDict d \<Rightarrow> if truthy (field d ''message'') then d
            else error_detail ''runtime_http_error'' ''Request failed'' trace_id (500 \<le> status) []
        | PStr m \<Rightarrow> error_detail ''runtime_http_error'' m trace_id (500 \<le> status) []
        | _ \<Rightarrow> error_detail ''runtime_http_error'' ''Request failed'' trace_id (500 \<le> status) [])
      in (status, if ''request_id'' \<in> set (dkeys d) then d else dset ''request_id'' (PStr trace_id) d))"

section \<open>Authentication\<close>

definition expected_authorization :: "string \<Rightarrow> string" where
  "expected_authorization token = ''Bearer '' @ token"

text \<open>\<open>hmac.compare_digest\<close> takes strings of ASCII characters only.\<close>

definition is_ascii :: "string \<Rightarrow> bool" where
  "is_ascii s = list_all (\<lambda>c. code c < 128) s"

definition authenticate :: "string \<Rightarrow> string option \<Rightarrow> unit result" where
  "authenticate token authorization =
     (case authorization of
        Some (c # cs) \<Rightarrow> if \<not> is_ascii (c # cs) \<or> \<not> is_ascii token then Inl TypeError
          else if c # cs = expected_authorization token then Inr ()
          else Inl (HTTPException 401 ''invalid runtime token'')
      | _ \<Rightarrow> Inl (HTTPException 401 ''invalid runtime token''))"

section \<open>Handlers\<close>

abbreviation start_in :: "'b world \<Rightarrow> managed_server \<Rightarrow> supervisor \<Rightarrow> supervisor \<times> unit result" where
  "start_in W s S \<equiv> supervisor_start (hst W) (process_euid W) (stopped W) (waited W) s S"

text \<open>The end of a handler: start the server, then answer its view.\<close>

definition start_and_view ::
    "'b world \<Rightarrow> managed_server \<Rightarrow> 'b runtime_state \<Rightarrow> 'b runtime_state \<times> server_view result" where
  "start_and_view W s X =
     (case start_in W s (sup X) of
        (S, Inl e) \<Rightarrow> (X\<lparr>sup := S\<rparr>, Inl (http_error e))
      | (S, Inr _) \<Rightarrow> (X\<lparr>sup := S\<rparr>, Inr (view S s)))"

definition create_server ::
    "'b world \<Rightarrow> server_create \<Rightarrow> string \<Rightarrow> 'b runtime_state \<Rightarrow> 'b runtime_state \<times> server_view result" where
  "create_server W form x_actor_id X =
     (case registry_create (json W) (hst W) (package_roots W) (fault W) (now W) form x_actor_id (reg X) of
        (R, Inl e) \<Rightarrow> (X\<lparr>reg := R\<rparr>, Inl (http_error e))
      | (R, Inr s) \<Rightarrow>
          (let X' = X\<lparr>reg := R\<rparr> in
           if enabled s then start_and_view W s X' else (X', Inr (view (sup X') s))))"

definition update_server ::
    "'b world \<Rightarrow> string \<Rightarrow> server_update \<Rightarrow> 'b runtime_state \<Rightarrow> 'b runtime_state \<times> server_view result" where
  "update_server W k form X =
     (case snapshot (json W) (reg X) of
        (R, Inl e) \<Rightarrow> (X\<lparr>reg := R\<rparr>, Inl (http_error e))
      | (R, Inr doc) \<Rightarrow>
          (case dget (servers doc) k of
             None \<Rightarrow> (X\<lparr>reg := R\<rparr>, Inl (http_error (not_found k)))
           | Some before \<Rightarrow>
               (case registry_update (json W) (hst W) (fault W) (now W) k form R of
                  (R', Inl e) \<Rightarrow> (X\<lparr>reg := R'\<rparr>, Inl (http_error e))
                | (R', Inr s) \<Rightarrow>
                    (let X' = X\<lparr>reg := R'\<rparr> in
                     if enabled s
                     then start_and_view W s
                       (if enabled before \<and> (u_environment form \<noteq> None \<or> u_secret_environment form \<noteq> None)
                        then X'\<lparr>sup := supervisor_stop (stopped W) k (sup X')\<rparr> else X')
                     else
                       (let X'' = (if enabled before
                          then X'\<lparr>sup := supervisor_stop (stopped W) k (sup X')\<rparr> else X')
                        in (X'', Inr (view (sup X'') s)))))))"

definition enable_form :: "bool \<Rightarrow> server_update" where
  "enable_form b = \<lparr>u_environment = None, u_secret_environment = None, u_access_grants = None, u_enabled = Some b\<rparr>"

definition start_server :: "'b world \<Rightarrow> string \<Rightarrow> 'b runtime_state \<Rightarrow> 'b runtime_state \<times> server_view result" where
  "start_server W k X =
     (case registry_update (json W) (hst W) (fault W) (now W) k (enable_form True) (reg X) of
        (R, Inl e) \<Rightarrow> (X\<lparr>reg := R\<rparr>, Inl (http_error e))
      | (R, Inr s) \<Rightarrow> start_and_view W s (X\<lparr>reg := R\<rparr>))"

definition stop_server :: "'b world \<Rightarrow> string \<Rightarrow> 'b runtime_state \<Rightarrow> 'b runtime_state \<times> server_view result" where
  "stop_server W k X =
     (case registry_update (json W) (hst W) (fault W) (now W) k (enable_form False) (reg X) of
        (R, Inl e) \<Rightarrow> (X\<lparr>reg := R\<rparr>, Inl (http_error e))
      | (R, Inr s) \<Rightarrow>
          (let S = supervisor_stop (stopped W) k (sup X) in (X\<lparr>reg := R, sup := S\<rparr>, Inr (view S s))))"

definition restart_server :: "'b world \<Rightarrow> string \<Rightarrow> 'b runtime_state \<Rightarrow> 'b runtime_state \<times> server_view result" where
  "restart_server W k X =
     (case snapshot (json W) (reg X) of
        (R, Inl e) \<Rightarrow> (X\<lparr>reg := R\<rparr>, Inl (http_error e))
      | (R, Inr doc) \<Rightarrow>
          (case dget (servers doc) k of
             None \<Rightarrow> (X\<lparr>reg := R\<rparr>, Inl (http_error (not_found k)))
           | Some s \<Rightarrow> start_and_view W s (X\<lparr>reg := R, sup := supervisor_stop (stopped W) k (sup X)\<rparr>)))"

text \<open>Only \<open>RegistryError\<close> is caught; the actor is gone in any case.\<close>

definition registry_only :: "py_exc \<Rightarrow> py_exc" where
  "registry_only e = (case e of RegistryError m \<Rightarrow> http_error e | _ \<Rightarrow> e)"

definition delete_server :: "'b world \<Rightarrow> string \<Rightarrow> 'b runtime_state \<Rightarrow> 'b runtime_state \<times> unit result" where
  "delete_server W k X =
     (let S = supervisor_remove (stopped W) k (sup X) in
      case registry_delete (json W) (fault W) k (reg X) of
        (R, Inl e) \<Rightarrow> (X\<lparr>reg := R, sup := S\<rparr>, Inl (registry_only e))
      | (R, Inr _) \<Rightarrow> (X\<lparr>reg := R, sup := S\<rparr>, Inr ()))"

definition get_servers :: "'b world \<Rightarrow> 'b runtime_state \<Rightarrow> 'b runtime_state \<times> server_view list result" where
  "get_servers W X =
     (case snapshot (json W) (reg X) of
        (R, r) \<Rightarrow> (X\<lparr>reg := R\<rparr>, mapR (\<lambda>doc. map (view (sup X) \<circ> snd) (servers doc)) r))"

definition get_server :: "'b world \<Rightarrow> string \<Rightarrow> 'b runtime_state \<Rightarrow> 'b runtime_state \<times> server_view result" where
  "get_server W k X =
     (case snapshot (json W) (reg X) of
        (R, Inl e) \<Rightarrow> (X\<lparr>reg := R\<rparr>, Inl e)
      | (R, Inr doc) \<Rightarrow> (X\<lparr>reg := R\<rparr>, (case dget (servers doc) k of
          None \<Rightarrow> Inl (HTTPException 404 ''server not found'')
        | Some s \<Rightarrow> Inr (view (sup X) s))))"

text \<open>\<open>/readyz\<close>: the enabled servers whose actor is not ready.\<close>

definition failed_servers :: "supervisor \<Rightarrow> registry_document \<Rightarrow> string list" where
  "failed_servers S doc =
     map ms_id (filter (\<lambda>s. enabled s \<and> (case dget (actors S) (ms_id s) of
          None \<Rightarrow> True | Some a \<Rightarrow> state a \<noteq> Ready)) (map snd (servers doc)))"

definition get_ready :: "'b world \<Rightarrow> 'b runtime_state \<Rightarrow> 'b runtime_state \<times> (string \<times> string list) result" where
  "get_ready W X =
     (case snapshot (json W) (reg X) of
        (R, r) \<Rightarrow> (X\<lparr>reg := R\<rparr>, mapR (\<lambda>doc. let failed = failed_servers (sup X) doc in
          (if failed = [] then ''ready'' else ''degraded'', failed)) r))"

definition state_name :: "server_state \<Rightarrow> string" where
  "state_name st = (case st of Stopped \<Rightarrow> ''stopped'' | Starting \<Rightarrow> ''starting'' | Ready \<Rightarrow> ''ready''
     | Failed \<Rightarrow> ''failed'' | Stopping \<Rightarrow> ''stopping'')"

definition with_runtime_state :: "supervisor \<Rightarrow> service \<Rightarrow> service \<times> string option" where
  "with_runtime_state S sv =
     (if discovery_state sv \<noteq> ''registered'' then (sv, None)
      else (case dget (actors S) (sv_id sv) of
          None \<Rightarrow> (sv\<lparr>runtime_state := Some (state_name Stopped)\<rparr>, None)
        | Some a \<Rightarrow> (sv\<lparr>runtime_state := Some (state_name (state a))\<rparr>, last_error a)))"

definition discover_servers ::
    "'b world \<Rightarrow> 'b runtime_state \<Rightarrow> 'b runtime_state \<times> ((service \<times> string option) list \<times> (string \<times> py_exc) list) result" where
  "discover_servers W X =
     (case snapshot (json W) (reg X) of
        (R, r) \<Rightarrow> (X\<lparr>reg := R\<rparr>, mapR (\<lambda>doc. let D = discover (hst W) (package_roots W) doc in
          (map (with_runtime_state (sup X)) (services D), discovery_errors D)) r))"

text \<open>The start of the application: load the registry, start the enabled servers.\<close>

definition restore :: "'b world \<Rightarrow> 'b registry \<Rightarrow> supervisor \<Rightarrow> 'b runtime_state result" where
  "restore W R0 S0 =
     (case load (json W) R0 of
        (R, Inl e) \<Rightarrow> Inl e
      | (R, Inr doc) \<Rightarrow> Inr
          \<lparr>reg = R, sup = foldl (\<lambda>S s. fst (start_in W s S)) S0 (filter enabled (map snd (servers doc)))\<rparr>)"

section \<open>Dispatching MCP requests\<close>

record scope =
  scope_type :: string
  headers :: "(string \<times> string) list"
  path :: string
  root_path :: string

datatype dispatch = Respond int pydict | Forward string

text \<open>\<open>{key.lower(): value for key, value in headers}.get(name, b'')\<close>: the last header wins.\<close>

definition header :: "string \<Rightarrow> (string \<times> string) list \<Rightarrow> string" where
  "header name hs = (case dget (rev (map (\<lambda>(k, v). (str_lower k, v)) hs)) name of None \<Rightarrow> [] | Some v \<Rightarrow> v)"

definition is_slash :: "char \<Rightarrow> bool" where
  "is_slash c = (c = CHR ''/'')"

definition server_of_path :: "scope \<Rightarrow> string" where
  "server_of_path sc =
     (let p = (if root_path sc \<noteq> [] \<and> starts_with (path sc) (root_path sc)
               then drop (length (root_path sc)) (path sc) else path sc)
      in takeWhile (\<lambda>c. \<not> is_slash c) (strip_by is_slash p))"

definition dispatch :: "string \<Rightarrow> string \<Rightarrow> supervisor \<Rightarrow> scope \<Rightarrow> dispatch" where
  "dispatch token trace_id S sc =
     (if scope_type sc \<noteq> ''http''
      then Respond 404 (error_detail ''unsupported_scope'' ''Managed MCP transport supports HTTP requests only''
        trace_id False [])
      else if header ''authorization'' (headers sc) \<noteq> expected_authorization token
      then Respond 401 (error_detail ''invalid_runtime_token'' ''Managed MCP runtime authentication failed''
        trace_id False [])
      else (let k = server_of_path sc; found = dget (actors S) k in
        case found of
          Some a \<Rightarrow> if state a = Ready then Forward k
            else Respond 503 (error_detail ''mcp_server_unavailable''
              (''Managed MCP server '' @ [CHR 0x27] @ k @ [CHR 0x27] @ '' is unavailable'') trace_id
              (state a = Starting \<or> state a = Failed)
              [(''server_id'', PStr k), (''state'', PStr (state_name (state a))),
               (''reason'', case last_error a of None \<Rightarrow> PNone | Some m \<Rightarrow> PStr m)])
        | None \<Rightarrow> Respond 503 (error_detail ''mcp_server_unavailable''
              (''Managed MCP server '' @ [CHR 0x27] @ k @ [CHR 0x27] @ '' is unavailable'') trace_id False
              [(''server_id'', PStr k), (''state'', PStr ''missing''),
               (''reason'', PStr ''server is not registered with the active supervisor'')])))"

section \<open>Runs of the application\<close>

text \<open>The waits of a handler let the actors make steps, and nothing else.\<close>

definition world_ok :: "'b world \<Rightarrow> bool" where
  "world_ok W \<longleftrightarrow> (\<exists>environ. (\<forall>a. actor_becomes (hst W) environ a (stopped W a))
     \<and> (\<forall>a. actor_becomes (hst W) environ a (fst (waited W a))))"

inductive runtime_reachable :: "'b codec \<Rightarrow> 'b registry \<Rightarrow> supervisor \<Rightarrow> 'b runtime_state \<Rightarrow> bool"
  for J R0 S0 where
  boot: "world_ok W \<Longrightarrow> json W = J \<Longrightarrow> restore W R0 S0 = Inr X \<Longrightarrow> runtime_reachable J R0 S0 X"
| create: "runtime_reachable J R0 S0 X \<Longrightarrow> world_ok W \<Longrightarrow>
      runtime_reachable J R0 S0 (fst (create_server W form actor_id X))"
| update: "runtime_reachable J R0 S0 X \<Longrightarrow> world_ok W \<Longrightarrow>
      runtime_reachable J R0 S0 (fst (update_server W k u X))"
| start: "runtime_reachable J R0 S0 X \<Longrightarrow> world_ok W \<Longrightarrow> runtime_reachable J R0 S0 (fst (start_server W k X))"
| stop: "runtime_reachable J R0 S0 X \<Longrightarrow> world_ok W \<Longrightarrow> runtime_reachable J R0 S0 (fst (stop_server W k X))"
| restart: "runtime_reachable J R0 S0 X \<Longrightarrow> world_ok W \<Longrightarrow> runtime_reachable J R0 S0 (fst (restart_server W k X))"
| delete: "runtime_reachable J R0 S0 X \<Longrightarrow> world_ok W \<Longrightarrow> runtime_reachable J R0 S0 (fst (delete_server W k X))"

text \<open>A server of the document is the server of an actor, up to what an update may change.\<close>

definition same_package :: "managed_server \<Rightarrow> managed_server \<Rightarrow> bool" where
  "same_package s t \<longleftrightarrow> ms_id s = ms_id t \<and> package_path s = package_path t \<and> digest s = digest t
     \<and> manifest s = manifest t"

definition actors_registered :: "registry_document \<Rightarrow> supervisor \<Rightarrow> bool" where
  "actors_registered doc S \<longleftrightarrow> (\<forall>k a. dget (actors S) k = Some a \<longrightarrow>
     (\<exists>s. dget (servers doc) k = Some s \<and> same_package s (server a)))"

definition keys_ok :: "registry_document \<Rightarrow> bool" where
  "keys_ok doc \<longleftrightarrow> (\<forall>k s. dget (servers doc) k = Some s \<longrightarrow> ms_id s = k)"

definition runtime_ok :: "'b runtime_state \<Rightarrow> bool" where
  "runtime_ok X \<longleftrightarrow> (\<exists>doc. memory (reg X) = Some doc \<and> keys_ok doc \<and> actors_registered doc (sup X))"

lemma same_package_refl [simp]: "same_package s s"
  by (simp add: same_package_def)

lemma actor_becomes_server:
  assumes "actor_becomes H environ a b"
  shows "server b = server a"
proof -
  from assms obtain es where "actor_trace H environ a es b" "\<forall>s. Assign s \<notin> set es"
    by (auto simp: actor_becomes_def)
  then show ?thesis
  proof (induction rule: actor_trace.induct)
    case (snoc es c e d)
    from actor_step_frame(2) [OF snoc.hyps(2)] snoc show ?case by auto
  qed simp
qed

lemma world_servers:
  assumes "world_ok W"
  shows "server (stopped W a) = server a" "server (fst (waited W a)) = server a"
  using assms actor_becomes_server unfolding world_ok_def by blast+

lemma start_actor_shape:
  "fst (start_actor H euid' found s S) = S
   \<or> (\<exists>b. server b = s \<and> fst (start_actor H euid' found s S) = put_actor (ms_id s) b S)"
proof -
  have started: "\<exists>b. server b = server a \<and> fst (case actor_start H a of (a, r) \<Rightarrow> (put_actor (ms_id s) a S, r)) = put_actor (ms_id s) b S" for a
    using actor_start_frame [of H a] by (cases "actor_start H a") fastforce
  show ?thesis
  proof (cases found)
    case (Some a)
    with started [of "a\<lparr>server := s\<rparr>"] show ?thesis by (simp add: start_actor_def)
  next
    case None
    show ?thesis
    proof (cases "launch_identity euid' S s")
      case (Inl e)
      with None show ?thesis by (simp add: start_actor_def)
    next
      case (Inr i)
      with None started [of "new_actor s (sup_environment S) (fst i) (snd i)"] show ?thesis
        by (cases i) (simp add: start_actor_def new_actor_def)
    qed
  qed
qed

lemma start_actor_lookup:
  assumes "dget (actors (fst (start_actor H euid' found s S))) k = Some a"
  shows "k = ms_id s \<and> server a = s \<or> dget (actors S) k = Some a"
  using start_actor_shape [of H euid' found s S]
proof
  assume "fst (start_actor H euid' found s S) = S"
  with assms show ?thesis by simp
next
  assume "\<exists>b. server b = s \<and> fst (start_actor H euid' found s S) = put_actor (ms_id s) b S"
  then obtain b where "server b = s" "fst (start_actor H euid' found s S) = put_actor (ms_id s) b S" by blast
  with assms show ?thesis by (cases "k = ms_id s") simp_all
qed

lemma supervisor_stop_lookup:
  assumes "world_ok W" "dget (actors (supervisor_stop (stopped W) k S)) k' = Some a"
  shows "\<exists>b. dget (actors S) k' = Some b \<and> server a = server b"
  using assms(2) by (auto simp: supervisor_stop_def world_servers [OF assms(1)] split: option.splits if_splits)

lemma start_in_lookup:
  assumes W: "world_ok W" and a: "dget (actors (fst (start_in W s S))) k = Some a"
  shows "k = ms_id s \<and> server a = s \<or> (\<exists>b. dget (actors S) k = Some b \<and> server a = server b)"
proof (cases "authorize (process_euid W) S s")
  case (Inl e)
  with a show ?thesis by (auto simp: supervisor_start_def)
next
  case (Inr u)
  let ?old = "dget (actors S) (ms_id s)"
  let ?changed = "case ?old of Some a \<Rightarrow> digest (server a) \<noteq> digest s | None \<Rightarrow> False"
  let ?S1 = "case ?old of Some a \<Rightarrow> if ?changed then put_actor (ms_id s) (stopped W a) S else S | None \<Rightarrow> S"
  obtain S2 r where S2: "start_actor (hst W) (process_euid W) (if ?changed then None else ?old) s ?S1 = (S2, r)" by fastforce
  have old: "\<exists>b. dget (actors S) k' = Some b \<and> server c = server b" if "dget (actors ?S1) k' = Some c" for k' c
    using that by (auto simp: world_servers [OF W] split: option.splits if_splits)
  have S2_lookup: "k' = ms_id s \<and> server c = s \<or> (\<exists>b. dget (actors S) k' = Some b \<and> server c = server b)"
    if "dget (actors S2) k' = Some c" for k' c
    using start_actor_lookup [of "hst W" "process_euid W" _ s ?S1 k' c] S2 that old by (metis fst_conv)
  have T: "fst (start_in W s S) = S2
      \<or> (\<exists>b. dget (actors S2) (ms_id s) = Some b \<and> fst (start_in W s S) = put_actor (ms_id s) (fst (waited W b)) S2)"
    by (cases r; cases "dget (actors S2) (ms_id s)")
       (simp_all add: supervisor_start_def Let_def Inr S2 split: prod.split)
  then show ?thesis
  proof
    assume "fst (start_in W s S) = S2"
    with a S2_lookup show ?thesis by simp
  next
    assume "\<exists>b. dget (actors S2) (ms_id s) = Some b \<and> fst (start_in W s S) = put_actor (ms_id s) (fst (waited W b)) S2"
    then obtain b where b: "dget (actors S2) (ms_id s) = Some b"
        "fst (start_in W s S) = put_actor (ms_id s) (fst (waited W b)) S2" by blast
    show ?thesis
    proof (cases "k = ms_id s")
      case True
      with a b(2) have "a = fst (waited W b)" by simp
      with S2_lookup [OF b(1)] True world_servers(2) [OF W, of b] show ?thesis by simp
    next
      case False
      with a b(2) have "dget (actors S2) k = Some a" by simp
      from S2_lookup [OF this] show ?thesis .
    qed
  qed
qed

lemma actors_registered_start:
  assumes "world_ok W" "actors_registered doc S" "dget (servers doc) (ms_id s) = Some s"
  shows "actors_registered doc (fst (start_in W s S))"
  unfolding actors_registered_def
proof (intro allI impI)
  fix k a assume "dget (actors (fst (start_in W s S))) k = Some a"
  from start_in_lookup [OF assms(1) this] assms(2,3) show "\<exists>s. dget (servers doc) k = Some s \<and> same_package s (server a)"
    by (auto simp: actors_registered_def)
qed

lemma actors_registered_stop:
  assumes "world_ok W" "actors_registered doc S"
  shows "actors_registered doc (supervisor_stop (stopped W) k S)"
  unfolding actors_registered_def
proof (intro allI impI)
  fix k' a assume "dget (actors (supervisor_stop (stopped W) k S)) k' = Some a"
  from supervisor_stop_lookup [OF assms(1) this] assms(2)
  show "\<exists>s. dget (servers doc) k' = Some s \<and> same_package s (server a)"
    by (auto simp: actors_registered_def)
qed

text \<open>What the operations of the registry leave in the memory.\<close>

lemma commit_memory: "memory R = Some d \<Longrightarrow> commit J f doc R = (R', r) \<Longrightarrow> memory R' = Some doc"
  by (auto simp: commit_def split: prod.splits sum.splits)

lemma create_memory:
  assumes "memory R = Some doc" "registry_create J H roots f t form actor_id R = (R', r)"
  shows "memory R' = Some doc \<and> (\<exists>e. r = Inl e)
    \<or> (\<exists>s. dget (servers doc) (ms_id s) = None \<and> memory R' = Some (put_server (ms_id s) s doc)
         \<and> (r = Inr s \<or> (\<exists>e. r = Inl e)))"
proof (cases "new_server H roots form actor_id t")
  case (Inl e)
  with assms have "R' = R" "r = Inl e" by (simp_all add: registry_create_def)
  with assms(1) show ?thesis by simp
next
  case (Inr s)
  with assms show ?thesis
    by (auto simp: registry_create_def current_document_def dget_None_keys
        split: sum.splits if_splits prod.splits dest: commit_memory)
qed

lemma update_memory:
  assumes "memory R = Some doc" "registry_update J H f t k u R = (R', r)"
  shows "memory R' = Some doc \<and> (\<exists>e. r = Inl e)
    \<or> (\<exists>old. dget (servers doc) k = Some old \<and> memory R' = Some (put_server k (updated_server u t old) doc)
         \<and> (r = Inr (updated_server u t old) \<or> (\<exists>e. r = Inl e)))"
  using assms
  by (auto simp: registry_update_def current_document_def Let_def
      split: sum.splits option.splits prod.splits dest: commit_memory)

lemma delete_memory:
  assumes "memory R = Some doc" "registry_delete J f k R = (R', r)"
  shows "memory R' = Some doc \<or> memory R' = Some (del_server k doc)"
  using assms
  by (auto simp: registry_delete_def current_document_def split: if_splits dest: commit_memory)

lemma snapshot_memory: "memory R = Some doc \<Longrightarrow> snapshot J R = (R, Inr doc)"
  by (simp add: snapshot_def)

lemma put_server_servers [simp]: "servers (put_server k s doc) = dset k s (servers doc)"
  by (simp add: put_server_def)

lemma del_server_servers [simp]: "servers (del_server k doc) = dpop k (servers doc)"
  by (simp add: del_server_def)

lemma registered_put_new:
  assumes "actors_registered doc S" "dget (servers doc) (ms_id s) = None"
  shows "actors_registered (put_server (ms_id s) s doc) S"
  using assms by (fastforce simp: actors_registered_def)

lemma same_package_updated [simp]: "same_package (updated_server u t old) s = same_package old s"
  by (simp add: same_package_def updated_server_def)

lemma ms_id_updated [simp]: "ms_id (updated_server u t old) = ms_id old"
  by (simp add: updated_server_def)

lemma registered_put_updated:
  assumes "actors_registered doc S" "dget (servers doc) k = Some old"
  shows "actors_registered (put_server k (updated_server u t old) doc) S"
  using assms by (fastforce simp: actors_registered_def)

lemma keys_ok_put: "keys_ok doc \<Longrightarrow> ms_id s = k \<Longrightarrow> keys_ok (put_server k s doc)"
  by (simp add: keys_ok_def)

lemma keys_ok_del: "keys_ok doc \<Longrightarrow> keys_ok (del_server k doc)"
  by (simp add: keys_ok_def)

text \<open>The state after a handler's last operation.\<close>

lemma start_and_view_ok:
  assumes "world_ok W" "memory (reg X) = Some doc" "keys_ok doc" "actors_registered doc (sup X)"
    and "dget (servers doc) (ms_id s) = Some s"
  shows "runtime_ok (fst (start_and_view W s X))"
proof -
  obtain S r where S: "start_in W s (sup X) = (S, r)" by fastforce
  from actors_registered_start [OF assms(1,4,5)] S have "actors_registered doc S" by simp
  with S assms(2,3) show ?thesis by (cases r) (simp_all add: start_and_view_def runtime_ok_def)
qed

lemma create_server_ok:
  assumes W: "world_ok W" and X: "runtime_ok X"
  shows "runtime_ok (fst (create_server W form actor_id X))"
proof -
  from X obtain doc where doc: "memory (reg X) = Some doc" "keys_ok doc" "actors_registered doc (sup X)"
    by (auto simp: runtime_ok_def)
  obtain R r where R: "registry_create (json W) (hst W) (package_roots W) (fault W) (now W) form actor_id (reg X) = (R, r)"
    by fastforce
  from create_memory [OF doc(1) R] show ?thesis
  proof
    assume "memory R = Some doc \<and> (\<exists>e. r = Inl e)"
    with doc R show ?thesis by (auto simp: create_server_def runtime_ok_def)
  next
    assume "\<exists>s. dget (servers doc) (ms_id s) = None \<and> memory R = Some (put_server (ms_id s) s doc)
         \<and> (r = Inr s \<or> (\<exists>e. r = Inl e))"
    then obtain s where s: "dget (servers doc) (ms_id s) = None" "memory R = Some (put_server (ms_id s) s doc)"
        "r = Inr s \<or> (\<exists>e. r = Inl e)" by blast
    let ?doc = "put_server (ms_id s) s doc"
    have ok: "keys_ok ?doc" "actors_registered ?doc (sup X)"
      using doc s(1) by (auto intro: keys_ok_put registered_put_new)
    have run: "runtime_ok (fst (start_and_view W s (X\<lparr>reg := R\<rparr>)))"
      by (rule start_and_view_ok [OF W, where doc = ?doc]) (use ok s(2) in simp_all)
    show ?thesis
    proof (cases r)
      case (Inl e)
      with R ok s(2) show ?thesis by (auto simp: create_server_def runtime_ok_def)
    next
      case (Inr s')
      with s(3) R ok s(2) run show ?thesis by (auto simp: create_server_def runtime_ok_def Let_def)
    qed
  qed
qed

lemma update_then_ok:
  assumes X: "runtime_ok X"
    and R: "registry_update (json W) (hst W) (fault W) (now W) k u (reg X) = (R, r)"
  obtains doc where "memory R = Some doc" "keys_ok doc" "actors_registered doc (sup X)"
    "\<And>s. r = Inr s \<Longrightarrow> dget (servers doc) (ms_id s) = Some s"
proof -
  from X obtain doc where doc: "memory (reg X) = Some doc" "keys_ok doc" "actors_registered doc (sup X)"
    by (auto simp: runtime_ok_def)
  from update_memory [OF doc(1) R] show thesis
  proof
    assume "memory R = Some doc \<and> (\<exists>e. r = Inl e)"
    with doc that [of doc] show thesis by auto
  next
    assume "\<exists>old. dget (servers doc) k = Some old \<and> memory R = Some (put_server k (updated_server u (now W) old) doc)
         \<and> (r = Inr (updated_server u (now W) old) \<or> (\<exists>e. r = Inl e))"
    then obtain old where old: "dget (servers doc) k = Some old"
        "memory R = Some (put_server k (updated_server u (now W) old) doc)"
        "r = Inr (updated_server u (now W) old) \<or> (\<exists>e. r = Inl e)" by blast
    have id: "ms_id old = k" using doc(2) old(1) by (simp add: keys_ok_def)
    show thesis
      by (rule that [OF old(2)])
         (use doc old id in \<open>auto intro: keys_ok_put registered_put_updated\<close>)
  qed
qed

lemma start_server_ok:
  assumes W: "world_ok W" and X: "runtime_ok X"
  shows "runtime_ok (fst (start_server W k X))"
proof -
  obtain R r where R: "registry_update (json W) (hst W) (fault W) (now W) k (enable_form True) (reg X) = (R, r)"
    by fastforce
  from update_then_ok [OF X R] obtain doc where doc: "memory R = Some doc" "keys_ok doc"
      "actors_registered doc (sup X)" "\<And>s. r = Inr s \<Longrightarrow> dget (servers doc) (ms_id s) = Some s" by blast
  show ?thesis
  proof (cases r)
    case (Inl e)
    with R doc show ?thesis by (auto simp: start_server_def runtime_ok_def)
  next
    case (Inr s)
    have "runtime_ok (fst (start_and_view W s (X\<lparr>reg := R\<rparr>)))"
      by (rule start_and_view_ok [OF W, where doc = doc]) (use doc Inr in simp_all)
    with R Inr show ?thesis by (simp add: start_server_def)
  qed
qed

lemma stop_server_ok:
  assumes W: "world_ok W" and X: "runtime_ok X"
  shows "runtime_ok (fst (stop_server W k X))"
proof -
  obtain R r where R: "registry_update (json W) (hst W) (fault W) (now W) k (enable_form False) (reg X) = (R, r)"
    by fastforce
  from update_then_ok [OF X R] obtain doc where doc: "memory R = Some doc" "keys_ok doc"
      "actors_registered doc (sup X)" by blast
  with actors_registered_stop [OF W doc(3)] R show ?thesis
    by (cases r) (auto simp: stop_server_def runtime_ok_def Let_def)
qed

lemma update_server_ok:
  assumes W: "world_ok W" and X: "runtime_ok X"
  shows "runtime_ok (fst (update_server W k u X))"
proof -
  from X obtain doc0 where doc0: "memory (reg X) = Some doc0" by (auto simp: runtime_ok_def)
  note snap = snapshot_memory [OF doc0, of "json W"]
  show ?thesis
  proof (cases "dget (servers doc0) k")
    case None
    with snap X show ?thesis by (simp add: update_server_def)
  next
    case (Some before)
    obtain R r where R: "registry_update (json W) (hst W) (fault W) (now W) k u (reg X) = (R, r)" by fastforce
    from update_then_ok [OF X R] obtain doc where doc: "memory R = Some doc" "keys_ok doc"
        "actors_registered doc (sup X)" "\<And>s. r = Inr s \<Longrightarrow> dget (servers doc) (ms_id s) = Some s" by blast
    note stopped = actors_registered_stop [OF W doc(3), of k]
    show ?thesis
    proof (cases r)
      case (Inl e)
      with R snap Some doc show ?thesis by (auto simp: update_server_def runtime_ok_def)
    next
      case (Inr s)
      have "runtime_ok (fst (start_and_view W s (X\<lparr>reg := R\<rparr>)))"
        "runtime_ok (fst (start_and_view W s (X\<lparr>reg := R, sup := supervisor_stop (stopped W) k (sup X)\<rparr>)))"
        by (rule start_and_view_ok [OF W, where doc = doc]; use doc Inr stopped in simp)+
      with R snap Some Inr doc stopped show ?thesis
        by (auto simp: update_server_def runtime_ok_def Let_def)
    qed
  qed
qed

lemma restart_server_ok:
  assumes W: "world_ok W" and X: "runtime_ok X"
  shows "runtime_ok (fst (restart_server W k X))"
proof -
  from X obtain doc where doc: "memory (reg X) = Some doc" "keys_ok doc" "actors_registered doc (sup X)"
    by (auto simp: runtime_ok_def)
  note snap = snapshot_memory [OF doc(1), of "json W"]
  show ?thesis
  proof (cases "dget (servers doc) k")
    case None
    with snap X show ?thesis by (simp add: restart_server_def)
  next
    case (Some s)
    have "ms_id s = k" using doc(2) Some by (simp add: keys_ok_def)
    then have "runtime_ok (fst (start_and_view W s (X\<lparr>reg := reg X, sup := supervisor_stop (stopped W) k (sup X)\<rparr>)))"
      by (intro start_and_view_ok [OF W, where doc = doc])
         (use doc Some actors_registered_stop [OF W doc(3)] in simp_all)
    with snap Some show ?thesis by (simp add: restart_server_def)
  qed
qed

lemma delete_server_ok:
  assumes W: "world_ok W" and X: "runtime_ok X"
  shows "runtime_ok (fst (delete_server W k X))"
proof -
  from X obtain doc where doc: "memory (reg X) = Some doc" "keys_ok doc" "actors_registered doc (sup X)"
    by (auto simp: runtime_ok_def)
  obtain R r where R: "registry_delete (json W) (fault W) k (reg X) = (R, r)" by fastforce
  let ?S = "supervisor_remove (stopped W) k (sup X)"
  have "actors_registered doc ?S" "actors_registered (del_server k doc) ?S"
    using actors_registered_stop [OF W doc(3), of k]
    by (auto simp: supervisor_remove_def Let_def actors_registered_def)
  with delete_memory [OF doc(1) R] R doc(2) keys_ok_del [OF doc(2), of k] show ?thesis
    by (cases r) (auto simp: delete_server_def Let_def runtime_ok_def)
qed

lemmas handlers_ok [inv_intros] = create_server_ok update_server_ok start_server_ok stop_server_ok
  restart_server_ok delete_server_ok

lemma restore_ok:
  assumes W: "world_ok W" and R0: "registry_inv (json W) R0" "sound_codec (json W)" and S0: "actors S0 = []"
    and X: "restore W R0 S0 = Inr X"
  shows "runtime_ok X"
proof -
  from X obtain R doc where R: "load (json W) R0 = (R, Inr doc)"
      and X': "X = \<lparr>reg = R, sup = foldl (\<lambda>S s. fst (start_in W s S)) S0 (filter enabled (map snd (servers doc)))\<rparr>"
    by (auto simp: restore_def split: prod.splits sum.splits)
  from R have mem: "memory R = Some doc" by (auto simp: load_def split: sum.splits)
  from load_inv [OF R0(2,1)] R mem have wf: "registry_wf doc" by (simp add: registry_inv_def)
  then have keys: "keys_ok doc" by (auto simp: keys_ok_def server_wf_def dest: registry_wf_get)
  have "actors_registered doc (foldl (\<lambda>S s. fst (start_in W s S)) S0 (filter enabled (map snd (servers doc))))"
  proof (rule foldl_invariant [where I = "actors_registered doc"])
    show "actors_registered doc S0" by (simp add: actors_registered_def S0)
  next
    fix S s assume "s \<in> set (filter enabled (map snd (servers doc)))" "actors_registered doc S"
    moreover from this obtain k where "(k, s) \<in> set (servers doc)" by auto
    then have "dget (servers doc) (ms_id s) = Some s"
      using wf by (auto simp: registry_wf_def server_wf_def)
    ultimately show "actors_registered doc (fst (start_in W s S))"
      by (intro actors_registered_start [OF W])
  qed
  with mem keys X' show ?thesis by (simp add: runtime_ok_def)
qed

section \<open>Properties\<close>

text \<open>C26: In every state that the runtime reaches by handling requests one after another, from the
  registry file of an earlier run and with any fault of the disk and any behaviour of the servers,
  each actor belongs to a registered server: same id, same package, same digest, same manifest.\<close>

theorem actors_are_registered:
  assumes "registry_reachable J H roots R0" and "sound_codec J" and "actors S0 = []"
    and "runtime_reachable J R0 S0 X" and "dget (actors (sup X)) k = Some a"
  shows "\<exists>doc s. snapshot J (reg X) = (reg X, Inr doc) \<and> dget (servers doc) k = Some s
    \<and> ms_id s = k \<and> same_package s (server a)"
proof -
  from assms(4) have "runtime_ok X"
  proof (induction rule: runtime_reachable.induct)
    case (boot W X)
    with registry_reachable_inv [OF assms(1,2)] assms(2,3) show ?case by (auto intro: restore_ok)
  qed (auto intro: inv_intros)
  then obtain doc where doc: "memory (reg X) = Some doc" "keys_ok doc" "actors_registered doc (sup X)"
    by (auto simp: runtime_ok_def)
  from doc(3) assms(5) obtain s where s: "dget (servers doc) k = Some s" "same_package s (server a)"
    unfolding actors_registered_def by blast
  moreover from doc(2) s(1) have "ms_id s = k" by (simp add: keys_ok_def)
  ultimately show ?thesis using doc(1) by (simp add: snapshot_def)
qed

definition demo_world :: "registry_document option world" where
  "demo_world = \<lparr>json = demo_codec, hst = demo_host, package_roots = demo_roots, process_euid = 1000,
     stopped = actor_stop, waited = (\<lambda>a. (a, Inr ())), fault = None, now = 7\<rparr>"

lemma demo_world_ok: "world_ok demo_world"
proof -
  have "actor_becomes demo_host demo_environ a a" for a
    unfolding actor_becomes_def by (intro exI [of _ "[]"]) (simp add: actor_trace.nil)
  then show ?thesis
    unfolding world_ok_def by (intro exI [of _ demo_environ]) (simp add: demo_world_def actor_stop_becomes)
qed

lemma actors_are_registered_witness:
  "\<exists>X k a. runtime_reachable demo_codec empty_registry demo_supervisor X \<and> dget (actors (sup X)) k = Some a
     \<and> (\<exists>doc s. snapshot demo_codec (reg X) = (reg X, Inr doc) \<and> dget (servers doc) k = Some s
          \<and> ms_id s = k \<and> same_package s (server a))"
proof -
  let ?Y = "\<lparr>reg = \<lparr>memory = Some empty_document, on_disk = \<lparr>primary = None, backup = None, temporary = None\<rparr>\<rparr>,
    sup = demo_supervisor\<rparr>"
  let ?X = "fst (create_server demo_world demo_create ''admin'' ?Y)"
  have "restore demo_world empty_registry demo_supervisor = Inr ?Y"
    by (simp add: restore_def demo_world_def load_def empty_registry_def load_from_disk_def empty_document_def)
  then have "runtime_reachable demo_codec empty_registry demo_supervisor ?Y"
    by (rule runtime_reachable.boot [OF demo_world_ok, rotated]) (simp add: demo_world_def)
  then have reach: "runtime_reachable demo_codec empty_registry demo_supervisor ?X"
    by (rule runtime_reachable.create [OF _ demo_world_ok])
  have "dget (actors (sup ?X)) ''weather'' \<noteq> None" by code_simp
  then obtain a where a: "dget (actors (sup ?X)) ''weather'' = Some a" by auto
  have "registry_reachable demo_codec demo_host demo_roots empty_registry"
    unfolding empty_registry_def by (rule registry_reachable.start)
  from actors_are_registered [OF this demo_codec_sound _ reach a] reach a show ?thesis
    by (intro exI [of _ ?X] exI [of _ "''weather''"] exI [of _ a])
       (simp add: demo_supervisor_def new_supervisor_def)
qed

text \<open>A request reaches an MCP session only with the token of the runtime, and only of the server
  that its path names, whose actor is ready; without the token the answer is the same whatever
  servers there are.\<close>

theorem dispatch_guarded:
  "dispatch token trace_id S sc = Forward k \<longleftrightarrow>
     scope_type sc = ''http'' \<and> header ''authorization'' (headers sc) = ''Bearer '' @ token
     \<and> k = server_of_path sc \<and> (\<exists>a. dget (actors S) k = Some a \<and> state a = Ready)"
  "header ''authorization'' (headers sc) \<noteq> ''Bearer '' @ token \<longrightarrow>
     dispatch token trace_id S sc = dispatch token trace_id T sc"
  by (auto simp: dispatch_def expected_authorization_def Let_def split: option.split)

lemma dispatch_guarded_witness:
  "dispatch ''s3cret'' ''t'' demo_supervisor
       \<lparr>scope_type = ''http'', headers = [(''Authorization'', ''Bearer x'')], path = ''/mcp/weather'', root_path = ''/mcp''\<rparr>
     = dispatch ''s3cret'' ''t'' (put_actor ''weather'' demo_actor demo_supervisor)
       \<lparr>scope_type = ''http'', headers = [(''Authorization'', ''Bearer x'')], path = ''/mcp/weather'', root_path = ''/mcp''\<rparr>"
  by (rule dispatch_guarded(2) [rule_format]) code_simp

end
