(* ===== verification/Task_Redis.thy ===== *)
theory Task_Redis
  imports Task_Registry
begin

text \<open>
  The registry of tasks when a Redis is shared by several processes, \<open>tasks.py\<close>: the hash of all
  tasks, a set per item, and the channel on which a stop is broadcast. Each process keeps its own
  \<open>tasks\<close> and \<open>item_tasks\<close> (\<open>Task_Registry\<close>). A coroutine gives way at every command it sends, so what
  it does after that is an action of its own; the actions of all processes interleave, and a command
  may raise, done or not done. The commands are arguments; the locale \<open>task_redis\<close> has their
  documented laws. A pipeline is one transaction, as by default.
\<close>

declare split_paired_All [simp del] split_paired_Ex [simp del]

section \<open>Commands\<close>

record 'r task_commands =
  tr_prefix :: string
  tr_hset :: "string \<Rightarrow> string \<Rightarrow> string \<Rightarrow> 'r \<Rightarrow> 'r"
  tr_hdel :: "string \<Rightarrow> string \<Rightarrow> 'r \<Rightarrow> 'r"
  tr_hget :: "string \<Rightarrow> string \<Rightarrow> 'r \<Rightarrow> string option"
  tr_hkeys :: "string \<Rightarrow> 'r \<Rightarrow> string list"
  tr_sadd :: "string \<Rightarrow> string \<Rightarrow> 'r \<Rightarrow> 'r"
  tr_srem :: "string \<Rightarrow> string \<Rightarrow> 'r \<Rightarrow> 'r"
  tr_scard :: "string \<Rightarrow> 'r \<Rightarrow> nat"
  tr_smembers :: "string \<Rightarrow> 'r \<Rightarrow> string list"
  tr_delete :: "string \<Rightarrow> 'r \<Rightarrow> 'r"

definition tasks_key :: "'r task_commands \<Rightarrow> string" where
  "tasks_key C = tr_prefix C @ '':tasks''"

definition item_key :: "'r task_commands \<Rightarrow> string \<Rightarrow> string" where
  "item_key C i = tr_prefix C @ '':tasks:item:'' @ i"

text \<open>An item id that counts: neither \<open>None\<close> nor empty.\<close>

definition item_or_none :: "string option \<Rightarrow> string option" where
  "item_or_none i = (if i = Some [] then None else i)"

definition redis_save_task :: "'r task_commands \<Rightarrow> string \<Rightarrow> string option \<Rightarrow> 'r \<Rightarrow> 'r" where
  "redis_save_task C tid item r =
     (let r1 = tr_hset C (tasks_key C) tid (case item of None \<Rightarrow> [] | Some i \<Rightarrow> i) r in
      case item_or_none item of None \<Rightarrow> r1 | Some i \<Rightarrow> tr_sadd C (item_key C i) tid r1)"

text \<open>\<open>redis_cleanup_task\<close> up to its first answer; the count and the deletion are commands of their own.\<close>

definition redis_cleanup_pipe :: "'r task_commands \<Rightarrow> string \<Rightarrow> string option \<Rightarrow> 'r \<Rightarrow> 'r" where
  "redis_cleanup_pipe C tid item r =
     (let r1 = tr_hdel C (tasks_key C) tid r in
      case item_or_none item of None \<Rightarrow> r1 | Some i \<Rightarrow> tr_srem C (item_key C i) tid r1)"

definition redis_list_tasks :: "'r task_commands \<Rightarrow> 'r \<Rightarrow> string list" where
  "redis_list_tasks C r = tr_hkeys C (tasks_key C) r"

definition redis_list_item_tasks :: "'r task_commands \<Rightarrow> string \<Rightarrow> 'r \<Rightarrow> string list" where
  "redis_list_item_tasks C i r = tr_smembers C (item_key C i) r"

definition redis_has_active_tasks :: "'r task_commands \<Rightarrow> string \<Rightarrow> 'r \<Rightarrow> bool" where
  "redis_has_active_tasks C chat_id r = (0 < length (redis_list_item_tasks C chat_id r))"

section \<open>Processes and their suspended coroutines\<close>

text \<open>
  A clean-up is started by the done callback of a task, or by a stop, which has no local part and goes
  on with the other tasks of the item that is stopped.
\<close>

datatype cleaner = Callback nat nat | Stopper "string list"

datatype task_action =
  Save nat nat string "string option"
| Pipe cleaner string "string option"
| Count cleaner string string
| Drop cleaner string string
| Forget nat string "string option"
| Lookup string "string list"
| Publish string "string option" "string list"
| Stop_items string
| Deliver nat string

record 'r cluster =
  cl_redis :: 'r
  cl_procs :: "nat \<Rightarrow> task_state"
  cl_actions :: "task_action list"
  cl_cancelled :: "(nat \<times> nat) list"

fun after_cleanup :: "cleaner \<Rightarrow> string \<Rightarrow> string option \<Rightarrow> task_action list" where
  "after_cleanup (Callback p h) tid item = [Forget p tid item]"
| "after_cleanup (Stopper []) tid item = []"
| "after_cleanup (Stopper (t # ts)) tid item = [Lookup t ts]"

text \<open>What an action does to the state, and the actions that follow it; \<open>n\<close> processes listen.\<close>

fun perform :: "'r task_commands \<Rightarrow> nat \<Rightarrow> task_action \<Rightarrow> 'r cluster \<Rightarrow> task_action list \<times> 'r cluster" where
  "perform C n (Save p h tid item) S = ([], S\<lparr>cl_redis := redis_save_task C tid item (cl_redis S)\<rparr>)"
| "perform C n (Pipe c tid item) S =
     (case item_or_none item of None \<Rightarrow> after_cleanup c tid item | Some i \<Rightarrow> [Count c tid i],
      S\<lparr>cl_redis := redis_cleanup_pipe C tid item (cl_redis S)\<rparr>)"
| "perform C n (Count c tid i) S =
     (if tr_scard C (item_key C i) (cl_redis S) = 0 then [Drop c tid i] else after_cleanup c tid (Some i), S)"
| "perform C n (Drop c tid i) S =
     (after_cleanup c tid (Some i), S\<lparr>cl_redis := tr_delete C (item_key C i) (cl_redis S)\<rparr>)"
| "perform C n (Forget p tid item) S =
     ([], S\<lparr>cl_procs := (cl_procs S)(p := cleanup_task_local tid item (cl_procs S p))\<rparr>)"
| "perform C n (Lookup tid rest) S = ([Publish tid (tr_hget C (tasks_key C) tid (cl_redis S)) rest], S)"
| "perform C n (Publish tid item rest) S =
     (map (\<lambda>p. Deliver p tid) [0..<n] @ [Pipe (Stopper rest) tid (item_or_none item)], S)"
| "perform C n (Stop_items i) S =
     (case redis_list_item_tasks C i (cl_redis S) of [] \<Rightarrow> [] | t # ts \<Rightarrow> [Lookup t ts], S)"
| "perform C n (Deliver p tid) S =
     ([], case dget (t_tasks (cl_procs S p)) tid of None \<Rightarrow> S
          | Some h \<Rightarrow> S\<lparr>cl_cancelled := cl_cancelled S @ [(p, h)]\<rparr>)"

definition resume :: "'r task_commands \<Rightarrow> nat \<Rightarrow> task_action \<Rightarrow> 'r cluster \<Rightarrow> 'r cluster" where
  "resume C n a S =
     (let (next, S') = perform C n a S in S'\<lparr>cl_actions := remove1 a (cl_actions S) @ next\<rparr>)"

text \<open>The command raises, \<open>is_done\<close> or not done by the server; the coroutine ends there.\<close>

definition break_off :: "'r task_commands \<Rightarrow> nat \<Rightarrow> bool \<Rightarrow> task_action \<Rightarrow> 'r cluster \<Rightarrow> 'r cluster" where
  "break_off C n is_done a S =
     (if is_done then snd (perform C n a S) else S)\<lparr>cl_actions := remove1 a (cl_actions S)\<rparr>"

definition create_on :: "nat \<Rightarrow> string \<Rightarrow> string option \<Rightarrow> string option \<Rightarrow> 'r cluster \<Rightarrow> 'r cluster" where
  "create_on p uuid item task_id S =
     (let ((tid, h), T) = create_task_local uuid item task_id (cl_procs S p) in
      S\<lparr>cl_procs := (cl_procs S)(p := T), cl_actions := cl_actions S @ [Save p h tid item]\<rparr>)"

definition end_on :: "nat \<Rightarrow> nat \<Rightarrow> task_end \<Rightarrow> 'r cluster \<Rightarrow> 'r cluster" where
  "end_on p h e S = S\<lparr>cl_procs := (cl_procs S)(p := end_task h e (cl_procs S p))\<rparr>"

text \<open>The event loop starts the clean-up that a done callback has scheduled.\<close>

definition callback_on :: "nat \<Rightarrow> 'r cluster \<Rightarrow> 'r cluster" where
  "callback_on p S = (let T = cl_procs S p in
     case t_pending T of [] \<Rightarrow> S
     | h # hs \<Rightarrow> S\<lparr>cl_procs := (cl_procs S)(p := T\<lparr>t_pending := hs\<rparr>),
         cl_actions := cl_actions S @
           [Pipe (Callback p h) (h_task_id (t_handles T ! h)) (h_item (t_handles T ! h))]\<rparr>)"

definition stop_on :: "string \<Rightarrow> 'r cluster \<Rightarrow> 'r cluster" where
  "stop_on tid S = S\<lparr>cl_actions := cl_actions S @ [Lookup tid []]\<rparr>"

definition stop_items_on :: "string \<Rightarrow> 'r cluster \<Rightarrow> 'r cluster" where
  "stop_items_on item S = S\<lparr>cl_actions := cl_actions S @ [Stop_items item]\<rparr>"

section \<open>Runs of the cluster\<close>

text \<open>
  What a run may do: how many processes there are, whether the first command of a clean-up waits for
  the command that saved its task, which tasks are stopped, and which actions may raise. Task ids are
  new, as uuids are.
\<close>

record setting =
  st_procs :: nat
  st_ordered :: bool
  st_stops :: "string set"
  st_raises :: "task_action set"

definition handle_of :: "'r cluster \<Rightarrow> nat \<times> nat \<Rightarrow> task_handle" where
  "handle_of S q = t_handles (cl_procs S (fst q)) ! snd q"

definition is_handle :: "nat \<Rightarrow> 'r cluster \<Rightarrow> nat \<times> nat \<Rightarrow> bool" where
  "is_handle n S q = (fst q < n \<and> snd q < length (t_handles (cl_procs S (fst q))))"

definition new_id :: "nat \<Rightarrow> 'r cluster \<Rightarrow> string \<Rightarrow> bool" where
  "new_id n S t = (\<forall>q. is_handle n S q \<longrightarrow> h_task_id (handle_of S q) \<noteq> t)"

definition save_of :: "'r cluster \<Rightarrow> nat \<times> nat \<Rightarrow> task_action" where
  "save_of S q = Save (fst q) (snd q) (h_task_id (handle_of S q)) (h_item (handle_of S q))"

definition pipe_of :: "'r cluster \<Rightarrow> nat \<times> nat \<Rightarrow> task_action" where
  "pipe_of S q = Pipe (Callback (fst q) (snd q)) (h_task_id (handle_of S q)) (h_item (handle_of S q))"

fun overtakes :: "task_action list \<Rightarrow> task_action \<Rightarrow> bool" where
  "overtakes as (Pipe (Callback p h) t i) = (Save p h t i \<in> set as)"
| "overtakes as a = False"

text \<open>The tasks of an item that are stopped are among those.\<close>

fun stops_only :: "string set \<Rightarrow> 'r task_commands \<Rightarrow> 'r cluster \<Rightarrow> task_action \<Rightarrow> bool" where
  "stops_only D C S (Stop_items i) = (set (redis_list_item_tasks C i (cl_redis S)) \<subseteq> D)"
| "stops_only D C S a = True"

inductive cluster_step :: "'r task_commands \<Rightarrow> setting \<Rightarrow> 'r cluster \<Rightarrow> 'r cluster \<Rightarrow> bool"
  for C :: "'r task_commands" and E :: setting where
  create: "p < st_procs E \<Longrightarrow> new_id (st_procs E) S (fst (fst (create_task_local uuid item task_id (cl_procs S p)))) \<Longrightarrow>
    cluster_step C E S (create_on p uuid item task_id S)"
| finish: "p < st_procs E \<Longrightarrow> cluster_step C E S (end_on p h e S)"
| callback: "p < st_procs E \<Longrightarrow> cluster_step C E S (callback_on p S)"
| stop: "tid \<in> st_stops E \<Longrightarrow> cluster_step C E S (stop_on tid S)"
| stop_items: "cluster_step C E S (stop_items_on i S)"
| go_on: "a \<in> set (cl_actions S) \<Longrightarrow> stops_only (st_stops E) C S a \<Longrightarrow> (st_ordered E \<longrightarrow> \<not> overtakes (cl_actions S) a) \<Longrightarrow>
    cluster_step C E S (resume C (st_procs E) a S)"
| raises: "a \<in> set (cl_actions S) \<Longrightarrow> a \<in> st_raises E \<Longrightarrow> cluster_step C E S (break_off C (st_procs E) d a S)"

inductive cluster_reachable :: "'r task_commands \<Rightarrow> setting \<Rightarrow> 'r \<Rightarrow> 'r cluster \<Rightarrow> bool"
  for C :: "'r task_commands" and E :: setting and r0 :: 'r where
  start: "cluster_reachable C E r0 \<lparr>cl_redis = r0, cl_procs = (\<lambda>p. no_tasks), cl_actions = [], cl_cancelled = []\<rparr>"
| step: "cluster_reachable C E r0 S \<Longrightarrow> cluster_step C E S S' \<Longrightarrow> cluster_reachable C E r0 S'"

section \<open>The ledger of a cluster\<close>

text \<open>
  What matters of a cluster: the id and item of every task, the tasks that run or whose callback
  waits, the suspended actions, the hash and the sets. A task is owed a clean-up while it is
  registered or its clean-up has not reached Redis; it is saved once the command for that is through.
\<close>

type_synonym owners = "nat \<times> nat \<Rightarrow> (string \<times> string option) option"

definition ids_of :: "nat \<Rightarrow> 'r cluster \<Rightarrow> owners" where
  "ids_of n S q = (if is_handle n S q then Some (h_task_id (handle_of S q), h_item (handle_of S q)) else None)"

definition regs_of :: "nat \<Rightarrow> 'r cluster \<Rightarrow> (nat \<times> nat) set" where
  "regs_of n S = {q. fst q < n \<and> registered (cl_procs S (fst q)) (snd q)}"

definition owed :: "(nat \<times> nat) set \<Rightarrow> task_action list \<Rightarrow> nat \<times> nat \<Rightarrow> bool" where
  "owed R as q = (q \<in> R \<or> (\<exists>t i. Pipe (Callback (fst q) (snd q)) t i \<in> set as))"

definition saved :: "task_action list \<Rightarrow> nat \<times> nat \<Rightarrow> bool" where
  "saved as q = (\<forall>t i. Save (fst q) (snd q) t i \<notin> set as)"

fun owned :: "task_action \<Rightarrow> bool" where
  "owned (Save p h t i) = True"
| "owned (Pipe (Callback p h) t i) = True"
| "owned a = False"

fun action_ok :: "string set \<Rightarrow> owners \<Rightarrow> (nat \<times> nat) set \<Rightarrow> task_action list \<Rightarrow> task_action \<Rightarrow> bool" where
  "action_ok D K R as (Save p h t i) = (K (p, h) = Some (t, i) \<and> owed R as (p, h))"
| "action_ok D K R as (Pipe (Callback p h) t i) = (K (p, h) = Some (t, i) \<and> (p, h) \<notin> R)"
| "action_ok D K R as (Pipe (Stopper ts) t i) = (t \<in> D \<and> set ts \<subseteq> D)"
| "action_ok D K R as (Count (Stopper ts) t i) = (set ts \<subseteq> D)"
| "action_ok D K R as (Drop (Stopper ts) t i) = (set ts \<subseteq> D)"
| "action_ok D K R as (Lookup t ts) = (t \<in> D \<and> set ts \<subseteq> D)"
| "action_ok D K R as (Publish t i ts) = (t \<in> D \<and> set ts \<subseteq> D)"
| "action_ok D K R as a = True"

definition ledger_ok :: "string set \<Rightarrow> owners \<Rightarrow> (nat \<times> nat) set \<Rightarrow> task_action list \<Rightarrow> bool" where
  "ledger_ok D K R as = (R \<subseteq> dom K \<and> distinct (filter owned as) \<and>
     (\<forall>q q' t i i'. K q = Some (t, i) \<longrightarrow> K q' = Some (t, i') \<longrightarrow> q = q') \<and>
     (\<forall>a \<in> set as. action_ok D K R as a))"

definition listing_ok :: "string set \<Rightarrow> owners \<Rightarrow> (nat \<times> nat) set \<Rightarrow> task_action list \<Rightarrow>
    string set \<Rightarrow> (string \<Rightarrow> string set) \<Rightarrow> bool" where
  "listing_ok D K R as H I =
     ((\<forall>t \<in> H. \<exists>q i. K q = Some (t, i) \<and> owed R as q \<and> saved as q) \<and>
      (\<forall>q t i. K q = Some (t, i) \<longrightarrow> owed R as q \<longrightarrow> saved as q \<longrightarrow> t \<notin> D \<longrightarrow> t \<in> H) \<and>
      (\<forall>j. \<forall>t \<in> I j. j \<noteq> [] \<and> (\<exists>q. K q = Some (t, Some j) \<and> owed R as q)))"

lemma remove1_owned:
  assumes "distinct (filter owned as)" and "owned b"
  shows "b \<in> set (remove1 a as) \<longleftrightarrow> b \<in> set as \<and> b \<noteq> a"
  using assms by (induction as) (auto split: if_splits)

lemma distinct_owned_remove1: "distinct (filter owned as) \<Longrightarrow> distinct (filter owned (remove1 a as))"
  by (induction as) (auto split: if_splits dest: notin_set_remove1)

lemma set_remove1_cases: "b \<in> set as \<Longrightarrow> b \<noteq> a \<Longrightarrow> b \<in> set (remove1 a as)"
  by (simp add: in_set_remove1)

lemma no_owned_after [simp]: "filter owned (after_cleanup c t i) = []"
  by (cases "(c, t, i)" rule: after_cleanup.cases) auto

lemma no_owned_deliver [simp]: "filter owned (map (\<lambda>p. Deliver p t) ps) = []"
  by (induction ps) auto

lemma no_owned_next: "filter owned (fst (perform C n a S)) = []"
  by (cases "(C, n, a, S)" rule: perform.cases) (auto split: option.splits list.splits)

subsection \<open>Starting, ending and stopping tasks\<close>

lemma ledger_create:
  assumes "ledger_ok D K R as" and "K (p, h) = None" and "\<forall>q i. K q \<noteq> Some (t, i)"
  shows "ledger_ok D (K((p, h) \<mapsto> (t, i))) (insert (p, h) R) (as @ [Save p h t i])"
proof -
  have "Save p h t i \<notin> set as"
    using assms(1,2) by (force simp: ledger_ok_def)
  moreover have "action_ok D (K((p, h) \<mapsto> (t, i))) (insert (p, h) R) (as @ [Save p h t i]) a"
    if "a \<in> set as" for a
  proof -
    from that assms(1) have "action_ok D K R as a" by (simp add: ledger_ok_def)
    with assms(2) show ?thesis
      by (cases "(D, K, R, as, a)" rule: action_ok.cases) (auto simp: owed_def)
  qed
  ultimately show ?thesis
    using assms by (auto simp: ledger_ok_def owed_def)
qed

lemma listing_create:
  assumes "ledger_ok D K R as" and "listing_ok D K R as H I" and "K (p, h) = None"
  shows "listing_ok D (K((p, h) \<mapsto> (t, i))) (insert (p, h) R) (as @ [Save p h t i]) H I"
proof -
  have o: "owed (insert (p, h) R) (as @ [Save p h t i]) q = owed R as q" if "q \<noteq> (p, h)" for q
    using that by (auto simp: owed_def)
  have s: "saved (as @ [Save p h t i]) q = saved as q" if "q \<noteq> (p, h)" for q
    using that by (cases q) (auto simp: saved_def)
  have n: "\<not> saved (as @ [Save p h t i]) (p, h)" by (auto simp: saved_def)
  show ?thesis
    unfolding listing_ok_def
  proof (intro conjI ballI allI impI)
    fix u assume "u \<in> H"
    then obtain q j where "K q = Some (u, j)" "owed R as q" "saved as q"
      using assms(2) unfolding listing_ok_def by blast
    moreover have "q \<noteq> (p, h)" using calculation assms(3) by auto
    ultimately show "\<exists>q j. (K((p, h) \<mapsto> (t, i))) q = Some (u, j) \<and>
        owed (insert (p, h) R) (as @ [Save p h t i]) q \<and> saved (as @ [Save p h t i]) q"
      using o s by (intro exI [of _ q] exI [of _ j]) auto
  next
    fix q u j
    assume "(K((p, h) \<mapsto> (t, i))) q = Some (u, j)" "owed (insert (p, h) R) (as @ [Save p h t i]) q"
      "saved (as @ [Save p h t i]) q" "u \<notin> D"
    then show "u \<in> H"
      using assms(2) o [of q] s [of q] n by (cases "q = (p, h)") (auto simp: listing_ok_def)
  next
    fix j u assume u: "u \<in> I j"
    with assms(2) show "j \<noteq> []" unfolding listing_ok_def by blast
    from u obtain q where "K q = Some (u, Some j)" "owed R as q"
      using assms(2) unfolding listing_ok_def by blast
    moreover have "q \<noteq> (p, h)" using calculation assms(3) by auto
    ultimately show "\<exists>q. (K((p, h) \<mapsto> (t, i))) q = Some (u, Some j) \<and>
        owed (insert (p, h) R) (as @ [Save p h t i]) q"
      using o by (intro exI [of _ q]) auto
  qed
qed

text \<open>A callback starts: the task is no longer registered, and its clean-up is under way.\<close>

lemma ledger_callback:
  assumes "ledger_ok D K R as" and "K (p, h) = Some (t, i)" and "(p, h) \<in> R"
  shows "ledger_ok D K (R - {(p, h)}) (as @ [Pipe (Callback p h) t i])"
proof -
  have "Pipe (Callback p h) t i \<notin> set as"
    using assms(1,3) by (force simp: ledger_ok_def)
  moreover have "action_ok D K (R - {(p, h)}) (as @ [Pipe (Callback p h) t i]) a" if "a \<in> set as" for a
  proof -
    from that assms(1) have "action_ok D K R as a" by (simp add: ledger_ok_def)
    then show ?thesis
      by (cases "(D, K, R, as, a)" rule: action_ok.cases) (auto simp: owed_def)
  qed
  ultimately show ?thesis
    using assms by (auto simp: ledger_ok_def)
qed

lemma listing_callback:
  assumes "listing_ok D K R as H I" and "(p, h) \<in> R"
  shows "listing_ok D K (R - {(p, h)}) (as @ [Pipe (Callback p h) t i]) H I"
proof -
  have "owed (R - {(p, h)}) (as @ [Pipe (Callback p h) t i]) = owed R as"
    using assms(2) by (auto simp: owed_def fun_eq_iff ex_disj_distrib)
  moreover have "saved (as @ [Pipe (Callback p h) t i]) = saved as"
    by (simp add: saved_def fun_eq_iff)
  ultimately show ?thesis using assms(1) by (simp add: listing_ok_def)
qed

lemma ledger_start:
  assumes "ledger_ok D K R as" and "action_ok D K R (as @ [b]) b" and "\<not> owned b"
  shows "ledger_ok D K R (as @ [b])"
proof -
  have "action_ok D K R (as @ [b]) a" if "a \<in> set as" for a
  proof -
    from that assms(1) have "action_ok D K R as a" by (simp add: ledger_ok_def)
    then show ?thesis by (cases "(D, K, R, as, a)" rule: action_ok.cases) (auto simp: owed_def)
  qed
  with assms show ?thesis by (auto simp: ledger_ok_def)
qed

lemma listing_start:
  assumes "listing_ok D K R as H I" and "\<not> owned b"
  shows "listing_ok D K R (as @ [b]) H I"
proof -
  have "owed R (as @ [b]) = owed R as" "saved (as @ [b]) = saved as"
    using assms(2) by (auto simp: owed_def saved_def fun_eq_iff)
  with assms(1) show ?thesis by (simp add: listing_ok_def)
qed

subsection \<open>Carrying out an action\<close>

lemma next_ok:
  assumes "action_ok D K R as a" and "stops_only D C S a"
  shows "\<forall>b \<in> set (fst (perform C n a S)). action_ok D K R bs b"
proof -
  have after: "\<forall>b \<in> set (after_cleanup c t i). action_ok D K R bs b"
    if "\<forall>ts. c = Stopper ts \<longrightarrow> set ts \<subseteq> D" for c t i
    using that by (cases "(c, t, i)" rule: after_cleanup.cases) auto
  show ?thesis
  proof (cases "(C, n, a, S)" rule: perform.cases)
    case (2 C' n' c t i S')
    with assms(1) have "\<forall>ts. c = Stopper ts \<longrightarrow> set ts \<subseteq> D" by (cases c) auto
    from after [OF this] 2 this show ?thesis by (cases c) (auto split: option.splits)
  next
    case (3 C' n' c t i S')
    with assms(1) have "\<forall>ts. c = Stopper ts \<longrightarrow> set ts \<subseteq> D" by (cases c) auto
    from after [OF this] 3 this show ?thesis by (cases c) (auto split: option.splits)
  next
    case (4 C' n' c t i S')
    with assms(1) have "\<forall>ts. c = Stopper ts \<longrightarrow> set ts \<subseteq> D" by (cases c) auto
    from after [OF this] 4 this show ?thesis by (cases c) (auto split: option.splits)
  next
    case (8 C' n' i S')
    with assms(2) show ?thesis by (cases "redis_list_item_tasks C i (cl_redis S)") auto
  qed (use assms in \<open>auto split: option.splits\<close>)
qed

lemma owed_remove1:
  assumes "owed R as q" and "\<And>t i. a \<noteq> Pipe (Callback (fst q) (snd q)) t i"
  shows "owed R (remove1 a as @ bs) q"
proof (cases "q \<in> R")
  case False
  with assms(1) obtain t i where "Pipe (Callback (fst q) (snd q)) t i \<in> set as" by (auto simp: owed_def)
  with assms(2) [of t i] have "Pipe (Callback (fst q) (snd q)) t i \<in> set (remove1 a as)"
    by (metis in_set_remove1)
  then show ?thesis by (auto simp: owed_def)
qed (simp add: owed_def)

lemma ledger_perform:
  assumes ok: "ledger_ok D K R as" and a: "a \<in> set as" and wait: "\<not> overtakes as a"
    and new: "filter owned bs = []" "\<forall>b \<in> set bs. action_ok D K R (remove1 a as @ bs) b"
  shows "ledger_ok D K R (remove1 a as @ bs)"
proof -
  have d: "distinct (filter owned as)" using ok by (simp add: ledger_ok_def)
  have "action_ok D K R (remove1 a as @ bs) b" if b: "b \<in> set (remove1 a as)" for b
  proof (cases "\<exists>p h t i. b = Save p h t i")
    case True
    then obtain p h t i where Save: "b = Save p h t i" by blast
    from b have "b \<in> set as" by (meson set_remove1_subset subsetD)
    with ok have b_ok: "action_ok D K R as b" by (simp add: ledger_ok_def)
    have "a \<noteq> Pipe (Callback p h) t' i'" for t' i'
    proof
      assume a_eq: "a = Pipe (Callback p h) t' i'"
      with ok a have "K (p, h) = Some (t', i')" by (force simp: ledger_ok_def)
      with b_ok Save have "t' = t" "i' = i" by simp_all
      with wait a_eq \<open>b \<in> set as\<close> Save show False by simp
    qed
    then have "owed R (remove1 a as @ bs) (p, h)"
      using b_ok Save by (intro owed_remove1) simp_all
    with b_ok Save show ?thesis by simp
  next
    case False
    from b have "b \<in> set as" by (meson set_remove1_subset subsetD)
    with ok have "action_ok D K R as b" by (simp add: ledger_ok_def)
    with False show ?thesis by (cases "(D, K, R, as, b)" rule: action_ok.cases) auto
  qed
  with ok new d show ?thesis
    by (auto simp: ledger_ok_def distinct_owned_remove1)
qed

lemma owed_perform:
  assumes "ledger_ok D K R as" and "filter owned bs = []" and "a \<in> set as"
  shows "owed R (remove1 a as @ bs) q \<longleftrightarrow>
    owed R as q \<and> (q \<in> R \<or> (\<forall>t i. a \<noteq> Pipe (Callback (fst q) (snd q)) t i))"
proof -
  have d: "distinct (filter owned as)" using assms(1) by (simp add: ledger_ok_def)
  have same: "t = t' \<and> i = i'" if "Pipe (Callback (fst q) (snd q)) t i \<in> set as"
    "Pipe (Callback (fst q) (snd q)) t' i' \<in> set as" for t i t' i'
  proof -
    from that assms(1) have "action_ok D K R as (Pipe (Callback (fst q) (snd q)) t i)"
      "action_ok D K R as (Pipe (Callback (fst q) (snd q)) t' i')" by (auto simp: ledger_ok_def)
    then show ?thesis by simp
  qed
  have "Pipe (Callback (fst q) (snd q)) t i \<notin> set bs" for t i
    using assms(2) by (auto simp: filter_empty_conv)
  then show ?thesis
    using same assms(3) by (auto simp: owed_def remove1_owned [OF d])
qed

lemma saved_perform:
  assumes "ledger_ok D K R as" and "filter owned bs = []" and "a \<in> set as"
  shows "saved (remove1 a as @ bs) q \<longleftrightarrow> saved as q \<or> (\<exists>t i. a = Save (fst q) (snd q) t i)"
proof -
  have d: "distinct (filter owned as)" using assms(1) by (simp add: ledger_ok_def)
  have same: "t = t' \<and> i = i'" if "Save (fst q) (snd q) t i \<in> set as"
    "Save (fst q) (snd q) t' i' \<in> set as" for t i t' i'
  proof -
    from that assms(1) have "action_ok D K R as (Save (fst q) (snd q) t i)"
      "action_ok D K R as (Save (fst q) (snd q) t' i')" by (auto simp: ledger_ok_def)
    then show ?thesis by simp
  qed
  have "Save (fst q) (snd q) t i \<notin> set bs" for t i
    using assms(2) by (auto simp: filter_empty_conv)
  then show ?thesis
    using same assms(3) by (auto simp: saved_def remove1_owned [OF d])
qed

lemma listing_less:
  assumes "ledger_ok D K R as" and "listing_ok D K R as H I" and "a \<in> set as" and "\<not> owned a"
    and "filter owned bs = []" and "H' \<subseteq> H" and "H - H' \<subseteq> D" and "\<And>j. I' j \<subseteq> I j"
  shows "listing_ok D K R (remove1 a as @ bs) H' I'"
proof -
  have o: "owed R (remove1 a as @ bs) = owed R as" and s: "saved (remove1 a as @ bs) = saved as"
    using assms(3,4) owed_perform [OF assms(1,5,3)] saved_perform [OF assms(1,5,3)] by (auto simp: fun_eq_iff)
  show ?thesis
    unfolding listing_ok_def o s
  proof (intro conjI ballI allI impI)
    fix t assume "t \<in> H'"
    with assms(6) have "t \<in> H" by blast
    with assms(2) show "\<exists>q i. K q = Some (t, i) \<and> owed R as q \<and> saved as q"
      unfolding listing_ok_def by blast
  next
    fix q t i assume "K q = Some (t, i)" "owed R as q" "saved as q" "t \<notin> D"
    with assms(2) have "t \<in> H" unfolding listing_ok_def by blast
    with assms(7) \<open>t \<notin> D\<close> show "t \<in> H'" by blast
  next
    fix j t assume "t \<in> I' j"
    with assms(8) have "t \<in> I j" by blast
    with assms(2) show "j \<noteq> []" and "\<exists>q. K q = Some (t, Some j) \<and> owed R as q"
      unfolding listing_ok_def by blast+
  qed
qed

definition add_member :: "string option \<Rightarrow> string \<Rightarrow> (string \<Rightarrow> string set) \<Rightarrow> string \<Rightarrow> string set" where
  "add_member i t I = (case item_or_none i of None \<Rightarrow> I | Some j \<Rightarrow> I(j := insert t (I j)))"

definition drop_member :: "string option \<Rightarrow> string \<Rightarrow> (string \<Rightarrow> string set) \<Rightarrow> string \<Rightarrow> string set" where
  "drop_member i t I = (case item_or_none i of None \<Rightarrow> I | Some j \<Rightarrow> I(j := I j - {t}))"

lemma item_or_none_Some [simp]: "item_or_none i = Some j \<longleftrightarrow> i = Some j \<and> j \<noteq> []"
  by (auto simp: item_or_none_def)

lemma item_or_none_None [simp]: "item_or_none i = None \<longleftrightarrow> i = None \<or> i = Some []"
  by (auto simp: item_or_none_def)

lemma listing_save:
  assumes ok: "ledger_ok D K R as" and list: "listing_ok D K R as H I" and a: "Save p h t i \<in> set as"
    and new: "filter owned bs = []"
  shows "listing_ok D K R (remove1 (Save p h t i) as @ bs) (insert t H) (add_member i t I)"
proof -
  let ?as = "remove1 (Save p h t i) as @ bs"
  have k: "K (p, h) = Some (t, i)" "owed R as (p, h)"
    using ok a by (force simp: ledger_ok_def)+
  have o: "owed R ?as = owed R as"
    using owed_perform [OF ok new a] by (auto simp: fun_eq_iff)
  have s: "saved ?as q \<longleftrightarrow> saved as q \<or> q = (p, h)" for q
    using saved_perform [OF ok new a] by (cases q) auto
  show ?thesis
    unfolding listing_ok_def o
  proof (intro conjI ballI allI impI)
    fix u assume "u \<in> insert t H"
    then show "\<exists>q i. K q = Some (u, i) \<and> owed R as q \<and> saved ?as q"
      using list k s unfolding listing_ok_def by (metis insertE)
  next
    fix q u j assume q: "K q = Some (u, j)" "owed R as q" "saved ?as q" "u \<notin> D"
    show "u \<in> insert t H"
    proof (cases "q = (p, h)")
      case False
      with q s have "saved as q" by simp
      with q list show ?thesis unfolding listing_ok_def by blast
    qed (use q k in simp)
  next
    fix j u assume "u \<in> add_member i t I j"
    then have "u \<in> I j \<or> (u = t \<and> i = Some j \<and> j \<noteq> [])"
      by (auto simp: add_member_def split: option.splits if_splits)
    then show "j \<noteq> []" and "\<exists>q. K q = Some (u, Some j) \<and> owed R as q"
      using list k unfolding listing_ok_def by blast+
  qed
qed

lemma listing_pipe:
  assumes ok: "ledger_ok D K R as" and list: "listing_ok D K R as H I"
    and a: "Pipe (Callback p h) t i \<in> set as" and new: "filter owned bs = []"
  shows "listing_ok D K R (remove1 (Pipe (Callback p h) t i) as @ bs) (H - {t}) (drop_member i t I)"
proof -
  let ?as = "remove1 (Pipe (Callback p h) t i) as @ bs"
  have k: "K (p, h) = Some (t, i)" "(p, h) \<notin> R"
    using ok a by (force simp: ledger_ok_def)+
  have only: "q = (p, h)" if "K q = Some (t, j)" for q j
    using ok k(1) that unfolding ledger_ok_def by blast
  have o: "owed R ?as q \<longleftrightarrow> owed R as q \<and> q \<noteq> (p, h)" for q
    using owed_perform [OF ok new a, of q] k(2) by (cases q) auto
  have s: "saved ?as = saved as"
    using saved_perform [OF ok new a] by (auto simp: fun_eq_iff)
  show ?thesis
    unfolding listing_ok_def s o
  proof (intro conjI ballI allI impI)
    fix u assume u: "u \<in> H - {t}"
    then obtain q j where "K q = Some (u, j)" "owed R as q" "saved as q"
      using list unfolding listing_ok_def by blast
    with u k show "\<exists>q i. K q = Some (u, i) \<and> (owed R as q \<and> q \<noteq> (p, h)) \<and> saved as q" by auto
  next
    fix q u j assume "K q = Some (u, j)" "owed R as q \<and> q \<noteq> (p, h)" "saved as q" "u \<notin> D"
    with list only show "u \<in> H - {t}" unfolding listing_ok_def by blast
  next
    fix j u assume "u \<in> drop_member i t I j"
    then have u: "u \<in> I j" "\<not> (u = t \<and> i = Some j \<and> j \<noteq> [])"
      by (auto simp: drop_member_def split: option.splits if_splits)
    from u(1) list show j: "j \<noteq> []" unfolding listing_ok_def by blast
    from u(1) list obtain q where q: "K q = Some (u, Some j)" "owed R as q"
      unfolding listing_ok_def by blast
    moreover have "q \<noteq> (p, h)" using q k(1) u(2) j by auto
    ultimately show "\<exists>q. K q = Some (u, Some j) \<and> owed R as q \<and> q \<noteq> (p, h)" by blast
  qed
qed

section \<open>What Redis promises\<close>

text \<open>
  \<open>hash\<close> and \<open>sets\<close> read what is stored under a key. The commands of hashes are only used on keys
  that hold no set, and the commands of sets on keys that hold no hash.
\<close>

locale task_redis =
  fixes C :: "'r task_commands" and hash :: "'r \<Rightarrow> string \<Rightarrow> string \<Rightarrow> string option"
    and sets :: "'r \<Rightarrow> string \<Rightarrow> string set"
  assumes hset: "sets r k = {} \<Longrightarrow>
      hash (tr_hset C k f v r) = (hash r)(k := (hash r k)(f \<mapsto> v)) \<and> sets (tr_hset C k f v r) = sets r"
    and hdel: "sets r k = {} \<Longrightarrow>
      hash (tr_hdel C k f r) = (hash r)(k := (hash r k)(f := None)) \<and> sets (tr_hdel C k f r) = sets r"
    and hget: "sets r k = {} \<Longrightarrow> tr_hget C k f r = hash r k f"
    and hkeys: "sets r k = {} \<Longrightarrow> set (tr_hkeys C k r) = dom (hash r k)"
    and sadd: "hash r k = Map.empty \<Longrightarrow>
      sets (tr_sadd C k m r) = (sets r)(k := insert m (sets r k)) \<and> hash (tr_sadd C k m r) = hash r"
    and srem: "hash r k = Map.empty \<Longrightarrow>
      sets (tr_srem C k m r) = (sets r)(k := sets r k - {m}) \<and> hash (tr_srem C k m r) = hash r"
    and scard: "hash r k = Map.empty \<Longrightarrow> tr_scard C k r = card (sets r k)"
    and smembers: "hash r k = Map.empty \<Longrightarrow> set (tr_smembers C k r) = sets r k"
    and delete: "sets (tr_delete C k r) = (sets r)(k := {}) \<and> hash (tr_delete C k r) = (hash r)(k := Map.empty)"

lemma item_key_eq [simp]: "item_key C i = item_key C j \<longleftrightarrow> i = j"
  by (simp add: item_key_def)

lemma item_key_tasks [simp]: "item_key C i \<noteq> tasks_key C" "tasks_key C \<noteq> item_key C i"
  by (simp_all add: item_key_def tasks_key_def)

context task_redis
begin

definition typed :: "'r \<Rightarrow> bool" where
  "typed r = (sets r (tasks_key C) = {} \<and> (\<forall>i. hash r (item_key C i) = Map.empty))"

definition ids :: "'r \<Rightarrow> string set" where
  "ids r = dom (hash r (tasks_key C))"

definition members :: "'r \<Rightarrow> string \<Rightarrow> string set" where
  "members r i = sets r (item_key C i)"

lemma listed: "typed r \<Longrightarrow> set (redis_list_tasks C r) = ids r"
  by (simp add: redis_list_tasks_def typed_def hkeys ids_def)

lemma listed_item: "typed r \<Longrightarrow> set (redis_list_item_tasks C i r) = members r i"
  by (simp add: redis_list_item_tasks_def typed_def smembers members_def)

lemma save_effect:
  assumes "typed r"
  shows "typed (redis_save_task C t i r) \<and> ids (redis_save_task C t i r) = insert t (ids r) \<and>
    members (redis_save_task C t i r) = add_member i t (members r)"
proof -
  define r1 where "r1 = tr_hset C (tasks_key C) t (case i of None \<Rightarrow> [] | Some i \<Rightarrow> i) r"
  have h: "hash r1 = (hash r)(tasks_key C := (hash r (tasks_key C))(t \<mapsto> (case i of None \<Rightarrow> [] | Some i \<Rightarrow> i)))"
    and m: "sets r1 = sets r"
    using assms by (simp_all add: r1_def typed_def hset)
  have e: "redis_save_task C t i r = (case item_or_none i of None \<Rightarrow> r1 | Some j \<Rightarrow> tr_sadd C (item_key C j) t r1)"
    unfolding redis_save_task_def r1_def Let_def ..
  show ?thesis
  proof (cases "item_or_none i")
    case None
    with assms show ?thesis
      by (simp add: e h m typed_def ids_def members_def add_member_def fun_eq_iff del: item_or_none_None)
  next
    case (Some j)
    have "hash r1 (item_key C j) = Map.empty" using assms by (simp add: h typed_def)
    with h m have "hash (tr_sadd C (item_key C j) t r1) = hash r1"
      "sets (tr_sadd C (item_key C j) t r1) = (sets r)(item_key C j := insert t (sets r (item_key C j)))"
      by (simp_all add: sadd del: fun_upd_apply)
    note this [simp] h [simp]
    from Some have i: "i = Some j" "j \<noteq> []" by simp_all
    have "members (tr_sadd C (item_key C j) t r1) = add_member i t (members r)"
      using i by (intro ext) (simp add: members_def add_member_def item_or_none_def)
    moreover have "ids (tr_sadd C (item_key C j) t r1) = insert t (ids r)"
      by (simp add: ids_def)
    ultimately show ?thesis
      using assms unfolding e Some by (simp add: typed_def)
  qed
qed

lemma pipe_effect:
  assumes "typed r"
  shows "typed (redis_cleanup_pipe C t i r) \<and> ids (redis_cleanup_pipe C t i r) = ids r - {t} \<and>
    members (redis_cleanup_pipe C t i r) = drop_member i t (members r)"
proof -
  define r1 where "r1 = tr_hdel C (tasks_key C) t r"
  have h: "hash r1 = (hash r)(tasks_key C := (hash r (tasks_key C))(t := None))" and m: "sets r1 = sets r"
    using assms by (simp_all add: r1_def typed_def hdel)
  have e: "redis_cleanup_pipe C t i r = (case item_or_none i of None \<Rightarrow> r1 | Some j \<Rightarrow> tr_srem C (item_key C j) t r1)"
    unfolding redis_cleanup_pipe_def r1_def Let_def ..
  show ?thesis
  proof (cases "item_or_none i")
    case None
    with assms show ?thesis
      by (simp add: e h m typed_def ids_def members_def drop_member_def fun_eq_iff del: item_or_none_None)
  next
    case (Some j)
    have "hash r1 (item_key C j) = Map.empty" using assms by (simp add: h typed_def)
    with h m have "hash (tr_srem C (item_key C j) t r1) = hash r1"
      "sets (tr_srem C (item_key C j) t r1) = (sets r)(item_key C j := sets r (item_key C j) - {t})"
      by (simp_all add: srem del: fun_upd_apply)
    note this [simp] h [simp]
    from Some have i: "i = Some j" "j \<noteq> []" by simp_all
    have "members (tr_srem C (item_key C j) t r1) = drop_member i t (members r)"
      using i by (intro ext) (simp add: members_def drop_member_def item_or_none_def)
    moreover have "ids (tr_srem C (item_key C j) t r1) = ids r - {t}"
      by (simp add: ids_def)
    ultimately show ?thesis
      using assms unfolding e Some by (simp add: typed_def)
  qed
qed

lemma delete_effect:
  assumes "typed r"
  shows "typed (tr_delete C (item_key C i) r) \<and> ids (tr_delete C (item_key C i) r) = ids r \<and>
    members (tr_delete C (item_key C i) r) = (members r)(i := {})"
  using assms delete [of "item_key C i" r] by (auto simp: typed_def ids_def members_def fun_eq_iff)

end

section \<open>Every step keeps the ledger\<close>

definition wf_pending :: "task_state \<Rightarrow> bool" where
  "wf_pending T = (distinct (t_pending T) \<and>
     (\<forall>h \<in> set (t_pending T). h < length (t_handles T) \<and> h_end (t_handles T ! h) \<noteq> None))"

lemma wf_pending_create: "wf_pending T \<Longrightarrow> wf_pending (snd (create_task_local u i t T))"
  by (auto simp: wf_pending_def create_task_local_def Let_def nth_append less_SucI)

lemma wf_pending_end: "wf_pending T \<Longrightarrow> wf_pending (end_task h e T)"
  by (auto simp: wf_pending_def end_task_def nth_list_update)

lemma ids_create:
  assumes "create_task_local u i tid (cl_procs S p) = ((t, h), T)" and "p < n" and "wf_pending (cl_procs S p)"
  shows "ids_of n (create_on p u i tid S) = (ids_of n S)((p, h) \<mapsto> (t, i)) \<and>
    regs_of n (create_on p u i tid S) = insert (p, h) (regs_of n S) \<and> ids_of n S (p, h) = None"
  using assms
  by (auto simp: create_on_def create_task_local_def Let_def ids_of_def regs_of_def is_handle_def handle_of_def
      registered_def wf_pending_def nth_append fun_eq_iff less_Suc_eq)

lemma ids_end: "ids_of n (end_on p h e S) = ids_of n S \<and> regs_of n (end_on p h e S) = regs_of n S"
  by (auto simp: end_on_def end_task_def ids_of_def regs_of_def is_handle_def handle_of_def
      registered_def nth_list_update fun_eq_iff)

lemma ids_callback:
  assumes "t_pending (cl_procs S p) = h # hs" and "p < n" and "wf_pending (cl_procs S p)"
  shows "ids_of n (callback_on p S) = ids_of n S \<and> regs_of n (callback_on p S) = regs_of n S - {(p, h)} \<and>
    ids_of n S (p, h) = Some (h_task_id (t_handles (cl_procs S p) ! h), h_item (t_handles (cl_procs S p) ! h)) \<and>
    (p, h) \<in> regs_of n S"
  using assms
  by (auto simp: callback_on_def Let_def ids_of_def regs_of_def is_handle_def handle_of_def
      registered_def wf_pending_def fun_eq_iff)

lemma perform_procs:
  "t_handles (cl_procs (snd (perform C m a S)) p) = t_handles (cl_procs S p) \<and>
   t_pending (cl_procs (snd (perform C m a S)) p) = t_pending (cl_procs S p)"
  by (cases "(C, m, a, S)" rule: perform.cases) (auto split: option.splits)

lemma same_handles:
  assumes "\<And>p. t_handles (cl_procs S' p) = t_handles (cl_procs S p) \<and>
    t_pending (cl_procs S' p) = t_pending (cl_procs S p)"
  shows "ids_of n S' = ids_of n S" "regs_of n S' = regs_of n S"
    "wf_pending (cl_procs S' p) = wf_pending (cl_procs S p)"
  using assms by (simp_all add: ids_of_def regs_of_def is_handle_def handle_of_def registered_def
      wf_pending_def fun_eq_iff)

text \<open>Clean-ups wait for what saved their task, and only actions that change no listing raise.\<close>

definition calm :: "setting \<Rightarrow> bool" where
  "calm E = (st_ordered E \<and> (\<forall>a \<in> st_raises E. \<not> owned a))"

context task_redis
begin

definition sound :: "setting \<Rightarrow> 'r cluster \<Rightarrow> bool" where
  "sound E S = ((\<forall>p. wf_pending (cl_procs S p)) \<and> typed (cl_redis S) \<and>
     ledger_ok (st_stops E) (ids_of (st_procs E) S) (regs_of (st_procs E) S) (cl_actions S) \<and>
     listing_ok (st_stops E) (ids_of (st_procs E) S) (regs_of (st_procs E) S) (cl_actions S)
       (ids (cl_redis S)) (members (cl_redis S)))"

lemma perform_typed: "typed (cl_redis S) \<Longrightarrow> typed (cl_redis (snd (perform C m a S)))"
  using save_effect pipe_effect delete_effect
  by (cases "(C, m, a, S)" rule: perform.cases) (auto split: option.splits)

lemma listing_perform:
  assumes ok: "ledger_ok D K R as" and list: "listing_ok D K R as (ids (cl_redis S)) (members (cl_redis S))"
    and a: "a \<in> set as" and new: "filter owned bs = []" and typed: "typed (cl_redis S)"
  shows "listing_ok D K R (remove1 a as @ bs) (ids (cl_redis (snd (perform C m a S))))
    (members (cl_redis (snd (perform C m a S))))"
proof (cases a)
  case (Save p h t i)
  with listing_save [OF ok list a [unfolded Save] new] save_effect [OF typed] show ?thesis by simp
next
  case (Pipe c t i)
  note pipe = this
  show ?thesis
  proof (cases c)
    case (Callback p h)
    with listing_pipe [OF ok list a [unfolded pipe Callback] new] pipe_effect [OF typed] pipe show ?thesis by simp
  next
    case (Stopper ts)
    with ok a pipe have "t \<in> D" by (force simp: ledger_ok_def)
    with pipe_effect [OF typed, of t i] pipe Stopper show ?thesis
      by (intro listing_less [OF ok list a _ new]) (auto simp: drop_member_def split: option.splits if_splits)
  qed
next
  case (Drop c t i)
  with delete_effect [OF typed, of i] show ?thesis
    by (intro listing_less [OF ok list a _ new]) (auto split: if_splits)
qed (use listing_less [OF ok list a _ new subset_refl] in \<open>auto split: option.splits\<close>)

lemma sound_start:
  assumes "typed r0" and "ids r0 = {}" and "\<forall>i. members r0 i = {}"
  shows "sound E \<lparr>cl_redis = r0, cl_procs = (\<lambda>p. no_tasks), cl_actions = [], cl_cancelled = []\<rparr>"
proof -
  let ?S = "\<lparr>cl_redis = r0, cl_procs = (\<lambda>p. no_tasks), cl_actions = [], cl_cancelled = []\<rparr>"
  have "ids_of n ?S q = None" for n q by (simp add: ids_of_def is_handle_def no_tasks_def)
  moreover have "regs_of n ?S = {}" for n by (simp add: regs_of_def registered_def no_tasks_def)
  ultimately show ?thesis
    using assms by (simp add: sound_def ledger_ok_def listing_ok_def wf_pending_def no_tasks_def)
qed

lemma sound_create:
  assumes S: "sound E S" and p: "p < st_procs E"
    and new: "new_id (st_procs E) S (fst (fst (create_task_local u i tid (cl_procs S p))))"
  shows "sound E (create_on p u i tid S)"
proof -
  obtain t h T where c: "create_task_local u i tid (cl_procs S p) = ((t, h), T)" by (metis prod.exhaust)
  have wf: "wf_pending (cl_procs S p')" for p' using S by (simp add: sound_def)
  note k = ids_create [OF c p wf]
  have "\<forall>q i. ids_of (st_procs E) S q \<noteq> Some (t, i)"
    using new c by (auto simp: new_id_def ids_of_def)
  with S k show ?thesis
    using wf_pending_create [OF wf, of u i tid p] c
      ledger_create [of "st_stops E" "ids_of (st_procs E) S"]
      listing_create [of "st_stops E" "ids_of (st_procs E) S"]
    by (simp add: sound_def create_on_def)
qed

lemma sound_end: "sound E S \<Longrightarrow> sound E (end_on p h e S)"
  using ids_end [of "st_procs E" p h e S] wf_pending_end [of "cl_procs S p" h e]
  by (simp add: sound_def end_on_def)

lemma sound_callback:
  assumes S: "sound E S" and p: "p < st_procs E"
  shows "sound E (callback_on p S)"
proof (cases "t_pending (cl_procs S p)")
  case (Cons h hs)
  have wf: "wf_pending (cl_procs S p')" for p' using S by (simp add: sound_def)
  note k = ids_callback [OF Cons p wf]
  have "wf_pending (cl_procs (callback_on p S) p')" for p'
    using wf [of p'] Cons by (auto simp: callback_on_def Let_def wf_pending_def)
  with S k Cons show ?thesis
    using ledger_callback [of "st_stops E" "ids_of (st_procs E) S"]
      listing_callback [of "st_stops E" "ids_of (st_procs E) S"]
    by (simp add: sound_def callback_on_def Let_def)
qed (use S in \<open>simp add: callback_on_def\<close>)

lemma sound_start_action:
  assumes "sound E S" and "\<And>as. action_ok (st_stops E) (ids_of (st_procs E) S) (regs_of (st_procs E) S) as b"
    and "\<not> owned b"
  shows "sound E (S\<lparr>cl_actions := cl_actions S @ [b]\<rparr>)"
proof -
  let ?S = "S\<lparr>cl_actions := cl_actions S @ [b]\<rparr>"
  have "t_handles (cl_procs ?S p) = t_handles (cl_procs S p) \<and>
      t_pending (cl_procs ?S p) = t_pending (cl_procs S p)" for p
    by simp
  from same_handles [of ?S S, OF this, simplified] assms show ?thesis
    using ledger_start listing_start by (simp add: sound_def)
qed

lemma sound_perform:
  assumes S: "sound E S" and a: "a \<in> set (cl_actions S)" and wait: "\<not> overtakes (cl_actions S) a"
    and new: "bs = fst (perform C n a S) \<and> stops_only (st_stops E) C S a \<or> bs = []"
  shows "sound E ((snd (perform C n a S))\<lparr>cl_actions := remove1 a (cl_actions S) @ bs\<rparr>)"
proof -
  let ?S = "(snd (perform C n a S))\<lparr>cl_actions := remove1 a (cl_actions S) @ bs\<rparr>"
  let ?D = "st_stops E" and ?K = "ids_of (st_procs E) S" and ?R = "regs_of (st_procs E) S"
  have ok: "ledger_ok ?D ?K ?R (cl_actions S)" and typed: "typed (cl_redis S)"
    and list: "listing_ok ?D ?K ?R (cl_actions S) (ids (cl_redis S)) (members (cl_redis S))"
    and wf: "\<forall>p. wf_pending (cl_procs S p)"
    using S by (simp_all add: sound_def)
  have own: "filter owned bs = []" using new no_owned_next by auto
  have "action_ok ?D ?K ?R (cl_actions S) a" using ok a by (simp add: ledger_ok_def)
  from next_ok [OF this, of C S n] new have "\<forall>b \<in> set bs. action_ok ?D ?K ?R (remove1 a (cl_actions S) @ bs) b"
    by auto
  note ledger = ledger_perform [OF ok a wait own this]
  have same: "t_handles (cl_procs ?S p) = t_handles (cl_procs S p) \<and>
      t_pending (cl_procs ?S p) = t_pending (cl_procs S p)" for p
    using perform_procs by simp
  show ?thesis
    using ledger listing_perform [OF ok list a own typed, of n] wf perform_typed [OF typed]
    by (simp add: sound_def same_handles [of ?S, OF same, simplified])
qed

lemma sound_drop:
  assumes S: "sound E S" and a: "a \<in> set (cl_actions S)" and wait: "\<not> overtakes (cl_actions S) a"
    and b: "\<not> owned a"
  shows "sound E (S\<lparr>cl_actions := remove1 a (cl_actions S)\<rparr>)"
proof -
  let ?S = "S\<lparr>cl_actions := remove1 a (cl_actions S)\<rparr>"
  let ?D = "st_stops E" and ?K = "ids_of (st_procs E) S" and ?R = "regs_of (st_procs E) S"
  have ok: "ledger_ok ?D ?K ?R (cl_actions S)"
    and list: "listing_ok ?D ?K ?R (cl_actions S) (ids (cl_redis S)) (members (cl_redis S))"
    using S by (simp_all add: sound_def)
  have same: "t_handles (cl_procs ?S p) = t_handles (cl_procs S p) \<and>
      t_pending (cl_procs ?S p) = t_pending (cl_procs S p)" for p by simp
  show ?thesis
    using S ledger_perform [OF ok a wait, of "[]"] listing_less [OF ok list a b, of "[]"]
    by (simp add: sound_def same_handles [of ?S, OF same, simplified])
qed

lemma sound_step:
  assumes "calm E" and "cluster_step C E S S'" and "sound E S"
  shows "sound E S'"
  using assms(2)
proof cases
  case (go_on a)
  with assms(1,3) sound_perform [of E S a "fst (perform C (st_procs E) a S)" "st_procs E"] show ?thesis
    by (simp add: resume_def calm_def case_prod_beta)
next
  case (raises a d)
  with assms(1) have "\<not> owned a" by (auto simp: calm_def)
  then have wait: "\<not> overtakes (cl_actions S) a" by (cases "(cl_actions S, a)" rule: overtakes.cases) auto
  have "sound E (S\<lparr>cl_actions := remove1 a (cl_actions S)\<rparr>)"
    using assms(3) raises wait \<open>\<not> owned a\<close> sound_drop by blast
  with raises wait assms(3) sound_perform [of E S a "[]" "st_procs E"] show ?thesis
    by (simp add: break_off_def)
qed (use assms(3) in \<open>auto intro: sound_create sound_end sound_callback sound_start_action simp: stop_on_def stop_items_on_def\<close>)

lemma sound_reachable:
  assumes "cluster_reachable C E r0 S" and "calm E" and "hash r0 = (\<lambda>k. Map.empty)" and "sets r0 = (\<lambda>k. {})"
  shows "sound E S"
  using assms(1)
proof induction
  case start
  show ?case by (rule sound_start) (simp_all add: assms(3,4) typed_def ids_def members_def)
qed (rule sound_step [OF assms(2)])

end

section \<open>A store that keeps the promises\<close>

type_synonym store = "((string \<times> string) \<times> string) list \<times> (string \<times> string) list"

definition store_commands :: "string \<Rightarrow> store task_commands" where
  "store_commands pre = \<lparr>tr_prefix = pre,
     tr_hset = (\<lambda>k f v (h, s). (dset (k, f) v h, s)),
     tr_hdel = (\<lambda>k f (h, s). (dpop (k, f) h, s)),
     tr_hget = (\<lambda>k f (h, s). dget h (k, f)),
     tr_hkeys = (\<lambda>k (h, s). map snd (filter (\<lambda>e. fst e = k) (map fst h))),
     tr_sadd = (\<lambda>k m (h, s). (h, List.insert (k, m) s)),
     tr_srem = (\<lambda>k m (h, s). (h, filter (\<lambda>e. e \<noteq> (k, m)) s)),
     tr_scard = (\<lambda>k (h, s). length (remdups (map snd (filter (\<lambda>e. fst e = k) s)))),
     tr_smembers = (\<lambda>k (h, s). map snd (filter (\<lambda>e. fst e = k) s)),
     tr_delete = (\<lambda>k (h, s). (filter (\<lambda>(q, v). fst q \<noteq> k) h, filter (\<lambda>e. fst e \<noteq> k) s))\<rparr>"

definition store_hash :: "store \<Rightarrow> string \<Rightarrow> string \<Rightarrow> string option" where
  "store_hash r k f = dget (fst r) (k, f)"

definition store_sets :: "store \<Rightarrow> string \<Rightarrow> string set" where
  "store_sets r k = {m. (k, m) \<in> set (snd r)}"

lemma store_keys: "set (map snd (filter (\<lambda>e. fst e = k) (map fst h))) = dom (\<lambda>f. dget h (k, f))"
proof -
  have "f \<in> set (map snd (filter (\<lambda>e. fst e = k) (map fst h))) \<longleftrightarrow> (k, f) \<in> set (dkeys h)" for f
    by force
  then show ?thesis using dget_in_keys [of h] by blast
qed

interpretation store: task_redis "store_commands pre" store_hash store_sets
proof (unfold_locales, goal_cases)
  case (4 r k)
  show ?case
    using store_keys [of k "fst r"] by (cases r) (simp add: store_commands_def store_hash_def fun_eq_iff dom_def)
next
  case (7 r k)
  have "card (store_sets r k) = card (set (map snd (filter (\<lambda>e. fst e = k) (snd r))))"
    by (rule arg_cong [of _ _ card]) (force simp: store_sets_def)
  then show ?case
    by (simp add: store_commands_def length_remdups_card_conv split: prod.split)
next
  case (9 k r)
  show ?case
    by (auto simp: store_commands_def store_hash_def store_sets_def fun_eq_iff dget_filter_key split: prod.split)
qed (force simp: store_commands_def store_hash_def store_sets_def fun_eq_iff split: prod.split)+

definition empty_cluster :: "store cluster" where
  "empty_cluster = \<lparr>cl_redis = ([], []), cl_procs = (\<lambda>p. no_tasks), cl_actions = [], cl_cancelled = []\<rparr>"

section \<open>Properties\<close>

text \<open>C14: in every interleaving in which the clean-up of a task waits for the command that saved it and
  no command that changes a listing raises, Redis lists a task only while its clean-up is owed, that is from the
  command that saved it on, through its run, until the clean-up is done; a saved task whose id is among those that
  nobody asks to stop is listed throughout that time; and a task listed for an item is a task of that item whose
  clean-up is owed. (A task that was stopped is taken off the list while it may still run; that the tasks of an item
  are all listed for it is not claimed.)\<close>

theorem redis_lists_owed_tasks:
  assumes "task_redis C hash sets" and "hash r0 = (\<lambda>k. Map.empty)" and "sets r0 = (\<lambda>k. {})"
    and "calm E" and "cluster_reachable C E r0 S"
  defines "due \<equiv> \<lambda>q. is_handle (st_procs E) S q \<and> owed (regs_of (st_procs E) S) (cl_actions S) q"
  shows "(\<forall>t \<in> set (redis_list_tasks C (cl_redis S)).
      \<exists>q. due q \<and> saved (cl_actions S) q \<and> h_task_id (handle_of S q) = t) \<and>
    (\<forall>q. due q \<and> saved (cl_actions S) q \<and> h_task_id (handle_of S q) \<notin> st_stops E \<longrightarrow>
      h_task_id (handle_of S q) \<in> set (redis_list_tasks C (cl_redis S))) \<and>
    (\<forall>i. \<forall>t \<in> set (redis_list_item_tasks C i (cl_redis S)).
      \<exists>q. due q \<and> h_task_id (handle_of S q) = t \<and> h_item (handle_of S q) = Some i)"
proof -
  have S: "task_redis.sound C hash sets E S"
    using task_redis.sound_reachable [OF assms(1,5,4,2,3)] .
  note S = S [unfolded task_redis.sound_def [OF assms(1)]]
  have k: "ids_of (st_procs E) S q = Some (t, i) \<longleftrightarrow>
      is_handle (st_procs E) S q \<and> h_task_id (handle_of S q) = t \<and> h_item (handle_of S q) = i" for q t i
    by (auto simp: ids_of_def)
  show ?thesis
    using S unfolding due_def listing_ok_def k
    by (simp add: task_redis.listed [OF assms(1)] task_redis.listed_item [OF assms(1)]) blast
qed

definition saved_task :: "store cluster" where
  "saved_task = resume (store_commands ''pre'') 1 (Save 0 0 ''t1'' (Some ''c''))
     (create_on 0 ''t1'' (Some ''c'') None empty_cluster)"

lemma saved_task_state:
  "t_handles (cl_procs saved_task 0) = [\<lparr>h_task_id = ''t1'', h_item = Some ''c'', h_end = None\<rparr>] \<and>
   cl_actions saved_task = []"
  unfolding saved_task_def empty_cluster_def by code_simp

definition one_process :: setting where
  "one_process = \<lparr>st_procs = 1, st_ordered = True, st_stops = {}, st_raises = {}\<rparr>"

lemma saved_task_reachable: "cluster_reachable (store_commands ''pre'') one_process ([], []) saved_task"
proof -
  let ?S = "create_on 0 ''t1'' (Some ''c'') None empty_cluster"
  have "cluster_reachable (store_commands ''pre'') one_process ([], []) empty_cluster"
    unfolding empty_cluster_def by (rule cluster_reachable.start)
  moreover have "new_id n empty_cluster t" for n t
    by (simp add: new_id_def is_handle_def empty_cluster_def no_tasks_def)
  then have "cluster_step (store_commands ''pre'') one_process empty_cluster ?S"
    by (intro cluster_step.create) (simp_all add: one_process_def)
  ultimately have r: "cluster_reachable (store_commands ''pre'') one_process ([], []) ?S"
    by (rule cluster_reachable.step)
  have "Save 0 0 ''t1'' (Some ''c'') \<in> set (cl_actions ?S)"
    unfolding empty_cluster_def by code_simp
  then have "cluster_step (store_commands ''pre'') one_process ?S
      (resume (store_commands ''pre'') (st_procs one_process) (Save 0 0 ''t1'' (Some ''c'')) ?S)"
    by (rule cluster_step.go_on) simp_all
  then have "cluster_step (store_commands ''pre'') one_process ?S saved_task"
    by (simp only: saved_task_def one_process_def setting.simps)
  with r show ?thesis by (rule cluster_reachable.step)
qed

theorem redis_lists_owed_tasks_witness:
  "''t1'' \<in> set (redis_list_tasks (store_commands ''pre'') (cl_redis saved_task))"
proof -
  have "store_hash ([], []) = (\<lambda>k. Map.empty)" "store_sets ([], []) = (\<lambda>k. {})" "calm one_process"
    by (simp_all add: store_hash_def store_sets_def calm_def one_process_def fun_eq_iff)
  note r = redis_lists_owed_tasks [OF store.task_redis_axioms this saved_task_reachable]
  have "is_handle (st_procs one_process) saved_task (0, 0)" "handle_of saved_task (0, 0) =
      \<lparr>h_task_id = ''t1'', h_item = Some ''c'', h_end = None\<rparr>"
    "owed (regs_of (st_procs one_process) saved_task) (cl_actions saved_task) (0, 0)"
    "saved (cl_actions saved_task) (0, 0)" "st_stops one_process = {}"
    using saved_task_state
    by (simp_all add: is_handle_def one_process_def handle_of_def owed_def regs_of_def registered_def saved_def)
  with r [THEN conjunct2, THEN conjunct1, rule_format, of "(0, 0)"] show ?thesis by simp
qed

subsection \<open>Two races\<close>

text \<open>A task that ends at once: its clean-up reaches Redis before the command that saves it, and the
  entry stays for good.\<close>

definition overtaken :: "store cluster" where
  "overtaken = fold (resume (store_commands ''pre'') 1)
     [Pipe (Callback 0 0) ''t1'' (Some ''c''), Count (Callback 0 0) ''t1'' ''c'', Drop (Callback 0 0) ''t1'' ''c'',
      Forget 0 ''t1'' (Some ''c''), Save 0 0 ''t1'' (Some ''c'')]
     (callback_on 0 (end_on 0 0 Finished (create_on 0 ''t1'' (Some ''c'') None empty_cluster)))"

lemma clean_up_before_save_leaves_entry:
  "cl_actions overtaken = [] \<and> t_tasks (cl_procs overtaken 0) = [] \<and>
   map h_end (t_handles (cl_procs overtaken 0)) = [Some Finished] \<and> t_pending (cl_procs overtaken 0) = [] \<and>
   redis_list_tasks (store_commands ''pre'') (cl_redis overtaken) = [''t1''] \<and>
   redis_has_active_tasks (store_commands ''pre'') ''c'' (cl_redis overtaken)"
  unfolding overtaken_def empty_cluster_def
  by code_simp

text \<open>A task that is saved between the count of a clean-up and the deletion of the set that the count
  found empty is lost from the set: its chat has no active task while it runs.\<close>

definition lost_member :: "store cluster" where
  "lost_member = fold (resume (store_commands ''pre'') 1)
     [Save 0 1 ''t2'' (Some ''c''), Drop (Callback 0 0) ''t1'' ''c'', Forget 0 ''t1'' (Some ''c'')]
     (create_on 0 ''t2'' (Some ''c'') None
       (fold (resume (store_commands ''pre'') 1)
         [Pipe (Callback 0 0) ''t1'' (Some ''c''), Count (Callback 0 0) ''t1'' ''c'']
         (callback_on 0 (end_on 0 0 Finished (resume (store_commands ''pre'') 1 (Save 0 0 ''t1'' (Some ''c''))
           (create_on 0 ''t1'' (Some ''c'') None empty_cluster))))))"

lemma deletion_loses_new_task:
  "cl_actions lost_member = [] \<and> t_tasks (cl_procs lost_member 0) = [(''t2'', 1)] \<and>
   map h_end (t_handles (cl_procs lost_member 0)) = [Some Finished, None] \<and>
   \<not> redis_has_active_tasks (store_commands ''pre'') ''c'' (cl_redis lost_member)"
  unfolding lost_member_def empty_cluster_def
  by code_simp

end
