(* ===== verification/Py_Action.thy ===== *)
theory Py_Action
  imports Py_Prelude
begin

text \<open>
  Code that changes a state and may raise. An action takes the state to the state it leaves and to
  its value or its exception: what was done before an exception stays done, as in Python. The
  rules below prove an action piece by piece: \<open>valid P f Q E\<close> says that from a state of \<open>P\<close> the
  action ends in \<open>Q\<close>, or raises in a state of \<open>E\<close>. The theory also holds the arithmetic and the
  key equality of Python's numbers.
\<close>

named_theorems valid_rules \<open>rules of \<open>valid\<close> for the actions of the program\<close>

section \<open>Actions\<close>

type_synonym ('s, 'a) action = "'s \<Rightarrow> 's \<times> 'a result"

definition retA :: "'a \<Rightarrow> ('s, 'a) action" where
  "retA x s = (s, Inr x)"

definition raiseA :: "py_exc \<Rightarrow> ('s, 'a) action" where
  "raiseA e s = (s, Inl e)"

text \<open>An expression that reads no state.\<close>

definition pureA :: "'a result \<Rightarrow> ('s, 'a) action" where
  "pureA r s = (s, r)"

definition getA :: "('s \<Rightarrow> 'a) \<Rightarrow> ('s, 'a) action" where
  "getA f s = (s, Inr (f s))"

definition modA :: "('s \<Rightarrow> 's) \<Rightarrow> ('s, unit) action" where
  "modA f s = (f s, Inr ())"

definition bindA :: "('s, 'a) action \<Rightarrow> ('a \<Rightarrow> ('s, 'b) action) \<Rightarrow> ('s, 'b) action" where
  "bindA f g s = (case f s of (t, Inl e) \<Rightarrow> (t, Inl e) | (t, Inr x) \<Rightarrow> g x t)"

definition thenA :: "('s, 'a) action \<Rightarrow> ('s, 'b) action \<Rightarrow> ('s, 'b) action" where
  "thenA f g s = bindA f (\<lambda>_. g) s"

definition whenA :: "bool \<Rightarrow> ('s, unit) action \<Rightarrow> ('s, unit) action" where
  "whenA b f = (if b then f else retA ())"

primrec forA :: "('a \<Rightarrow> ('s, unit) action) \<Rightarrow> 'a list \<Rightarrow> ('s, unit) action" where
  "forA f [] = retA ()"
| "forA f (x # xs) = thenA (f x) (forA f xs)"

lemma action_simps [simp]:
  "retA x s = (s, Inr x)" "raiseA e s = (s, Inl e)" "pureA r s = (s, r)" "getA f s = (s, Inr (f s))"
  "modA h s = (h s, Inr ())"
  by (simp_all add: retA_def raiseA_def pureA_def getA_def modA_def)

lemma bindA_simps [simp]:
  "bindA (retA x) g = g x"
  "bindA (pureA (Inr x)) g = g x" "bindA (getA f) g s = g (f s) s" "bindA (modA h) (\<lambda>_. k) s = k (h s)"
  by (auto simp: bindA_def fun_eq_iff)

lemma thenA_simps [simp]:
  "thenA (retA x) k = k" "thenA (modA h) k s = k (h s)"
  by (auto simp: thenA_def bindA_def fun_eq_iff)

lemma whenA_simps [simp]: "whenA True f = f" "whenA False f = retA ()"
  by (simp_all add: whenA_def)

lemma bindA_Inr: "f s = (t, Inr x) \<Longrightarrow> bindA f g s = g x t"
  by (simp add: bindA_def)

lemma thenA_Inr: "f s = (t, Inr x) \<Longrightarrow> thenA f g s = g t"
  by (simp add: thenA_def bindA_def)

lemma forA_append: "forA f (xs @ ys) = thenA (forA f xs) (forA f ys)"
proof
  show "forA f (xs @ ys) s = thenA (forA f xs) (forA f ys) s" for s
    by (induction xs arbitrary: s) (auto simp: thenA_def bindA_def split: prod.split sum.split)
qed

section \<open>Reasoning about actions\<close>

definition valid :: "('s \<Rightarrow> bool) \<Rightarrow> ('s, 'a) action \<Rightarrow> ('a \<Rightarrow> 's \<Rightarrow> bool) \<Rightarrow> ('s \<Rightarrow> bool) \<Rightarrow> bool" where
  "valid P f Q E \<longleftrightarrow> (\<forall>s. P s \<longrightarrow> (case f s of (t, Inr x) \<Rightarrow> Q x t | (t, Inl e) \<Rightarrow> E t))"

lemma validD: "valid P f Q E \<Longrightarrow> P s \<Longrightarrow> f s = (t, Inr x) \<Longrightarrow> Q x t"
  by (force simp: valid_def)

lemma valid_final: "valid P f (\<lambda>_. I) I \<Longrightarrow> P s \<Longrightarrow> I (fst (f s))"
  by (cases "f s"; cases "snd (f s)") (auto simp: valid_def)

lemma valid_weaken:
  "valid P' f Q' E' \<Longrightarrow> (\<And>s. P s \<Longrightarrow> P' s) \<Longrightarrow> (\<And>x s. Q' x s \<Longrightarrow> Q x s) \<Longrightarrow> (\<And>s. E' s \<Longrightarrow> E s) \<Longrightarrow> valid P f Q E"
  by (fastforce simp: valid_def split: prod.splits sum.splits)

lemma valid_ret: "(\<And>s. P s \<Longrightarrow> Q x s) \<Longrightarrow> valid P (retA x) Q E"
  by (simp add: valid_def)

lemma valid_raise: "(\<And>s. P s \<Longrightarrow> E s) \<Longrightarrow> valid P (raiseA e) Q E"
  by (simp add: valid_def)

lemma valid_pure: "(\<And>x s. r = Inr x \<Longrightarrow> P s \<Longrightarrow> Q x s) \<Longrightarrow> (\<And>s. P s \<Longrightarrow> E s) \<Longrightarrow> valid P (pureA r) Q E"
  by (simp add: valid_def split: sum.split)

lemma valid_get: "(\<And>s. P s \<Longrightarrow> Q (f s) s) \<Longrightarrow> valid P (getA f) Q E"
  by (simp add: valid_def)

lemma valid_mod: "(\<And>s. P s \<Longrightarrow> Q () (h s)) \<Longrightarrow> valid P (modA h) Q E"
  by (simp add: valid_def)

lemma valid_bind: "valid P f R E \<Longrightarrow> (\<And>x. valid (R x) (g x) Q E) \<Longrightarrow> valid P (bindA f g) Q E"
  by (fastforce simp: valid_def bindA_def split: prod.splits sum.splits)

lemma valid_then: "valid P f R E \<Longrightarrow> (\<And>x. valid (R x) g Q E) \<Longrightarrow> valid P (thenA f g) Q E"
  using valid_bind [of P f R E "\<lambda>_. g" Q] by (simp add: valid_def thenA_def)

lemma valid_when: "(b \<Longrightarrow> valid P f Q E) \<Longrightarrow> (\<And>s. \<not> b \<Longrightarrow> P s \<Longrightarrow> Q () s) \<Longrightarrow> valid P (whenA b f) Q E"
  by (cases b) (auto intro: valid_ret)

lemma valid_if: "(b \<Longrightarrow> valid P f Q E) \<Longrightarrow> (\<not> b \<Longrightarrow> valid P g Q E) \<Longrightarrow> valid P (if b then f else g) Q E"
  by simp

lemma valid_mod_then: "(\<And>s. P s \<Longrightarrow> R (h s)) \<Longrightarrow> valid R g Q E \<Longrightarrow> valid P (thenA (modA h) g) Q E"
  by (auto simp: valid_def)

lemma valid_pure_bind:
  "(\<And>s. P s \<Longrightarrow> E s) \<Longrightarrow> (\<And>x. r = Inr x \<Longrightarrow> valid P (g x) Q E) \<Longrightarrow> valid P (bindA (pureA r) g) Q E"
  by (cases r) (auto simp: valid_def bindA_def)

lemma valid_get_bind: "(\<And>x. valid (\<lambda>s. P s \<and> x = f s) (g x) Q E) \<Longrightarrow> valid P (bindA (getA f) g) Q E"
  by (auto simp: valid_def)

text \<open>A loop keeps what its body keeps.\<close>

lemma valid_for: "(\<And>x. x \<in> set xs \<Longrightarrow> valid I (f x) (\<lambda>_. I) E) \<Longrightarrow> valid I (forA f xs) (\<lambda>_. I) E"
proof (induction xs)
  case Nil
  show ?case unfolding forA.simps by (rule valid_ret)
next
  case (Cons x xs)
  have "valid I (f x) (\<lambda>_. I) E" by (rule Cons.prems) simp
  moreover have "valid I (forA f xs) (\<lambda>_. I) E" by (rule Cons.IH) (rule Cons.prems, simp)
  ultimately show ?case unfolding forA.simps by (rule valid_then)
qed

section \<open>Numbers and keys\<close>

fun py_number :: "py \<Rightarrow> rat option" where
  "py_number (PInt i) = Some (of_int i)"
| "py_number (PBool b) = Some (of_bool b)"
| "py_number (PFloat r) = Some r"
| "py_number _ = None"

fun py_int :: "py \<Rightarrow> int option" where
  "py_int (PInt i) = Some i"
| "py_int (PBool b) = Some (of_bool b)"
| "py_int _ = None"

text \<open>The difference \<open>a - b\<close>; a float is the rational it stands for, without rounding.\<close>

definition py_minus :: "py \<Rightarrow> py \<Rightarrow> py result" where
  "py_minus a b =
     (case (py_int a, py_int b) of
       (Some i, Some j) \<Rightarrow> Inr (PInt (i - j))
     | _ \<Rightarrow> (case (py_number a, py_number b) of
         (Some q, Some r) \<Rightarrow> Inr (PFloat (q - r))
       | _ \<Rightarrow> Inl TypeError))"

text \<open>\<open>max(a, 0)\<close> keeps its first argument when the two are equal.\<close>

definition py_max0 :: "py \<Rightarrow> py result" where
  "py_max0 a = (case py_number a of None \<Rightarrow> Inl TypeError | Some q \<Rightarrow> Inr (if q < 0 then PInt 0 else a))"

text \<open>What a dict compares: \<open>1\<close>, \<open>True\<close> and \<open>1.0\<close> are one key.\<close>

fun py_key :: "py \<Rightarrow> py" where
  "py_key (PBool b) = PInt (of_bool b)"
| "py_key (PFloat r) = (if of_int \<lfloor>r\<rfloor> = r then PInt \<lfloor>r\<rfloor> else PFloat r)"
| "py_key v = v"

text \<open>\<open>a or b\<close> where the right side is evaluated only when it is needed.\<close>

definition py_or_else :: "py result \<Rightarrow> py result \<Rightarrow> py result" where
  "py_or_else a b = bindR a (\<lambda>x. if truthy x then Inr x else b)"

text \<open>The element \<open>x[0]\<close> of a truthy value.\<close>

fun py_first :: "py \<Rightarrow> py result" where
  "py_first (PList (x # xs)) = Inr x"
| "py_first (PStr (c # s)) = Inr (PStr [c])"
| "py_first (PList []) = Inl IndexError"
| "py_first (PStr []) = Inl IndexError"
| "py_first (PDict d) = Inl (KeyError ''0'')"
| "py_first _ = Inl TypeError"

text \<open>A string stands somewhere in a value, other than as the key of a dict.\<close>

function mentions :: "string \<Rightarrow> py \<Rightarrow> bool" where
  "mentions t PNone = False"
| "mentions t (PBool b) = False"
| "mentions t (PInt i) = False"
| "mentions t (PFloat r) = False"
| "mentions t (PStr s) = (s = t)"
| "mentions t (PList xs) = (\<exists>x \<in> set xs. mentions t x)"
| "mentions t (PDict d) = (\<exists>v \<in> set (map snd d). mentions t v)"
| "mentions t (PObj c d) = (\<exists>v \<in> set (map snd d). mentions t v)"
  by pat_completeness auto

termination mentions
proof (relation "measure (size \<circ> snd)")
  show "((t, x), t, PList xs) \<in> measure (size \<circ> snd)" if "x \<in> set xs" for t x xs
    using that by (induction xs) auto
  show "((t, v), t, PDict d) \<in> measure (size \<circ> snd)" if "v \<in> set (map snd d)" for t v d
    using size_dict_value [OF that] by simp
  show "((t, v), t, PObj c d) \<in> measure (size \<circ> snd)" if "v \<in> set (map snd d)" for t v c d
    using size_dict_value [OF that] by simp
qed simp

lemma mentions_get: "py_get_or x k w = Inr v \<Longrightarrow> mentions t v \<Longrightarrow> mentions t x \<or> mentions t w"
  by (cases x) (force split: option.splits dest!: map_of_SomeD)+

lemma mentions_iter: "py_iter x = Inr ys \<Longrightarrow> y \<in> set ys \<Longrightarrow> is_dict y \<Longrightarrow> mentions t y \<Longrightarrow> mentions t x"
  by (cases x) auto

lemma mentions_or: "mentions t (py_or a b) \<Longrightarrow> mentions t a \<or> mentions t b"
  by (auto simp: py_or_def split: if_splits)

lemma mentions_or_else: "py_or_else a b = Inr v \<Longrightarrow> a = Inr v \<or> b = Inr v"
  by (auto simp: py_or_else_def split: if_splits)

lemma mentions_first: "py_first x = Inr v \<Longrightarrow> is_dict v \<Longrightarrow> mentions t v \<Longrightarrow> mentions t x"
  by (cases x rule: py_first.cases) auto

section \<open>Formatted text\<close>

definition line_feed :: string where
  "line_feed = [CHR 0x0A]"

text \<open>A value in an f-string: a string stands for itself, \<open>str_of\<close> is \<open>str\<close> on all others.\<close>

definition fmt :: "(py \<Rightarrow> string) \<Rightarrow> py \<Rightarrow> string" where
  "fmt str_of v = (case v of PStr s \<Rightarrow> s | _ \<Rightarrow> str_of v)"

lemma fmt_PStr [simp]: "fmt str_of (PStr s) = s"
  by (simp add: fmt_def)

text \<open>\<open>d.get(key, default)\<close> on the items of a dict.\<close>

definition get_or :: "pydict \<Rightarrow> string \<Rightarrow> py \<Rightarrow> py" where
  "get_or d k v = (case dget d k of Some x \<Rightarrow> x | None \<Rightarrow> v)"

text \<open>The texts joined by line feeds; another value raises.\<close>

fun the_str :: "py \<Rightarrow> string result" where
  "the_str (PStr s) = Inr s"
| "the_str _ = Inl TypeError"

definition join_lines :: "py list \<Rightarrow> string result" where
  "join_lines vs = mapR (str_join line_feed) (listR the_str vs)"

text \<open>Stripping: what is stripped begins and ends with another character.\<close>

lemma rstrip_append:
  "rstrip_by q (a @ b) = (if \<forall>c \<in> set b. q c then rstrip_by q a else a @ rstrip_by q b)"
  by (auto simp: rstrip_by_def dropWhile_append)

lemma lstrip_append:
  "lstrip_by q (a @ b) = (if \<forall>c \<in> set a. q c then lstrip_by q b else lstrip_by q a @ b)"
  by (auto simp: lstrip_by_def dropWhile_append)

lemma strip_ends:
  assumes "str_strip s \<noteq> []"
  shows "\<not> py_space (hd (str_strip s))" "\<not> py_space (last (str_strip s))"
proof -
  let ?x = "lstrip_by py_space s"
  have x: "?x \<noteq> []" using assms by (auto simp: strip_by_def rstrip_by_def)
  then have h: "\<not> py_space (hd ?x)" unfolding lstrip_by_def by (rule hd_dropWhile)
  have "rev (dropWhile py_space (rev ?x)) \<noteq> []" using assms by (simp add: strip_by_def rstrip_by_def)
  then have "dropWhile py_space (rev ?x) \<noteq> []" by simp
  from hd_dropWhile [OF this] this show "\<not> py_space (last (str_strip s))"
    by (simp add: strip_by_def rstrip_by_def last_rev)
  obtain ys where "rev ?x = ys @ dropWhile py_space (rev ?x)" by (metis takeWhile_dropWhile_id)
  then have "?x = str_strip s @ rev ys" by (simp add: strip_by_def rstrip_by_def) (metis rev_append rev_rev_ident)
  with assms h show "\<not> py_space (hd (str_strip s))" by (metis hd_append2)
qed

definition trimmed :: "string \<Rightarrow> bool" where
  "trimmed s \<longleftrightarrow> s \<noteq> [] \<and> \<not> py_space (hd s) \<and> \<not> py_space (last s)"

lemma trimmed_strip: "str_strip s \<noteq> [] \<Longrightarrow> trimmed (str_strip s)"
  by (simp add: trimmed_def strip_ends)

lemma lstrip_trimmed: "s \<noteq> [] \<Longrightarrow> \<not> q (hd s) \<Longrightarrow> lstrip_by q (s @ t) = s @ t"
  by (cases s) (simp_all add: lstrip_by_def)

lemma rstrip_trimmed: "s \<noteq> [] \<Longrightarrow> \<not> q (last s) \<Longrightarrow> rstrip_by q (t @ s) = t @ s"
  by (cases s rule: rev_cases) (simp_all add: rstrip_by_def)

lemma strip_trimmed: "trimmed s \<Longrightarrow> str_strip s = s"
  using lstrip_trimmed [of s py_space "[]"] rstrip_trimmed [of s py_space "[]"]
  by (simp add: trimmed_def strip_by_def)

lemma py_space_line_feed: "\<forall>c \<in> set line_feed. py_space c"
  by (simp add: line_feed_def py_space_def code_def)

lemma strip_before:
  assumes "trimmed p"
  shows "str_strip (p @ line_feed @ t) = p \<or> starts_with (str_strip (p @ line_feed @ t)) (p @ line_feed)"
proof -
  have l: "lstrip_by py_space (p @ line_feed @ t) = p @ line_feed @ t"
    using assms by (intro lstrip_trimmed) (auto simp: trimmed_def)
  have "rstrip_by py_space p = p" using rstrip_trimmed [of p py_space "[]"] assms by (simp add: trimmed_def)
  with rstrip_append [of py_space p "line_feed @ t"] rstrip_append [of py_space line_feed t] py_space_line_feed
  show ?thesis by (auto simp: strip_by_def l)
qed

lemma strip_after:
  assumes "trimmed p"
  shows "str_strip (t @ line_feed @ p) = p \<or> ends_with (str_strip (t @ line_feed @ p)) (line_feed @ p)"
proof -
  have r: "rstrip_by py_space (u @ p) = u @ p" for u
    using assms by (intro rstrip_trimmed) (auto simp: trimmed_def)
  have l: "lstrip_by py_space (line_feed @ p) = p"
    using py_space_line_feed lstrip_trimmed [of p py_space "[]"] assms by (simp add: lstrip_append trimmed_def)
  show ?thesis
  proof (cases "\<forall>c \<in> set t. py_space c")
    case True
    then show ?thesis using l r [of "[]"] by (simp add: strip_by_def lstrip_append)
  next
    case False
    with lstrip_append [of py_space t "line_feed @ p"]
    have "lstrip_by py_space (t @ line_feed @ p) = lstrip_by py_space t @ line_feed @ p" by auto
    with r [of "lstrip_by py_space t @ line_feed"] show ?thesis by (simp add: strip_by_def suffixI)
  qed
qed

end
