(* ===== verification/Anthropic_Stream.thy ===== *)
theory Anthropic_Stream
  imports Py_Action
begin

text \<open>
  The stream of \<open>utils/anthropic.py\<close>: \<open>openai_stream_to_anthropic_stream\<close> reads the server-sent
  events of an OpenAI completion and yields those of the Anthropic Messages API. The generator is
  an action on the state it keeps in its local variables, with the yielded events as a list; an
  exception while a chunk is read ends the reading, and what follows the \<open>try\<close> still runs.
  Parameters: \<open>decode\<close> (\<open>bytes.decode\<close> with errors ignored), \<open>loads\<close> (\<open>json.loads\<close>, \<open>None\<close> where it
  raises), \<open>dumps\<close> (\<open>json.dumps\<close>) and \<open>fresh\<close> (the digits of the uuid drawn at each call).
\<close>

section \<open>Events\<close>

datatype block =
    Thinking_Block
  | Text_Block
  | Tool_Block py py

datatype block_delta =
    Thinking_Delta py
  | Text_Delta py
  | Input_Delta string

datatype sse_event =
    Message_Start string string py
  | Block_Start nat block
  | Block_Delta nat block_delta
  | Block_Stop nat
  | Message_Delta string pydict
  | Message_Stop

fun block_json :: "block \<Rightarrow> py" where
  "block_json Thinking_Block = PDict [(''type'', PStr ''thinking''), (''thinking'', PStr [])]"
| "block_json Text_Block = PDict [(''type'', PStr ''text''), (''text'', PStr [])]"
| "block_json (Tool_Block i n) =
     PDict [(''type'', PStr ''tool_use''), (''id'', i), (''name'', n), (''input'', PDict [])]"

fun delta_json :: "block_delta \<Rightarrow> py" where
  "delta_json (Thinking_Delta t) = PDict [(''type'', PStr ''thinking_delta''), (''thinking'', t)]"
| "delta_json (Text_Delta t) = PDict [(''type'', PStr ''text_delta''), (''text'', t)]"
| "delta_json (Input_Delta t) = PDict [(''type'', PStr ''input_json_delta''), (''partial_json'', PStr t)]"

fun event_items :: "sse_event \<Rightarrow> string \<times> pydict" where
  "event_items (Message_Start mid model tokens) =
     (''message_start'', [(''message'', PDict [(''id'', PStr mid), (''type'', PStr ''message''),
        (''role'', PStr ''assistant''), (''content'', PList []), (''model'', PStr model),
        (''stop_reason'', PNone), (''stop_sequence'', PNone),
        (''usage'', PDict [(''input_tokens'', tokens), (''output_tokens'', PInt 0)])])])"
| "event_items (Block_Start i b) = (''content_block_start'', [(''index'', PInt (int i)), (''content_block'', block_json b)])"
| "event_items (Block_Delta i d) = (''content_block_delta'', [(''index'', PInt (int i)), (''delta'', delta_json d)])"
| "event_items (Block_Stop i) = (''content_block_stop'', [(''index'', PInt (int i))])"
| "event_items (Message_Delta r u) =
     (''message_delta'', [(''delta'', PDict [(''stop_reason'', PStr r), (''stop_sequence'', PNone)]), (''usage'', PDict u)])"
| "event_items Message_Stop = (''message_stop'', [])"

text \<open>The text of an event as it is yielded.\<close>

definition sse :: "(py \<Rightarrow> string) \<Rightarrow> sse_event \<Rightarrow> string" where
  "sse dumps e = (let (t, items) = event_items e in
     ''event: '' @ t @ line_feed @ ''data: '' @ dumps (PDict ((''type'', PStr t) # items)) @ line_feed @ line_feed)"

section \<open>State\<close>

record tool_call =
  tc_id :: py
  tc_name :: py
  tc_arguments :: string
  block_index :: int
  tc_started :: bool
  tc_stopped :: bool

text \<open>The local variables of the generator. \<open>tracked_tool_calls\<close> and \<open>index_to_tool_id\<close> are dicts.\<close>

record conversion =
  current_block_index :: nat
  thinking_block_open :: bool
  text_block_open :: bool
  tracked_tool_calls :: "(py \<times> tool_call) list"
  index_to_tool_id :: "(py \<times> py) list"
  has_tool_calls :: bool
  input_tokens :: py
  output_tokens :: py
  cache_creation :: py
  cache_read :: py
  output_tokens_details :: py
  server_tool_use :: py
  service_tier :: py
  stop_reason :: string
  uuids :: nat
  events :: "sse_event list"

definition new_conversion :: "(nat \<Rightarrow> string) \<Rightarrow> string \<Rightarrow> py \<Rightarrow> conversion" where
  "new_conversion fresh model tokens =
     \<lparr>current_block_index = 0, thinking_block_open = False, text_block_open = False,
      tracked_tool_calls = [], index_to_tool_id = [], has_tool_calls = False,
      input_tokens = tokens, output_tokens = PInt 0, cache_creation = PNone, cache_read = PNone,
      output_tokens_details = PNone, server_tool_use = PNone, service_tier = PNone,
      stop_reason = ''end_turn'', uuids = 1,
      events = [Message_Start (''msg_'' @ fresh 0) model (py_or tokens (PInt 0))]\<rparr>"

definition emit :: "sse_event \<Rightarrow> conversion \<Rightarrow> conversion" where
  "emit e s = s\<lparr>events := events s @ [e]\<rparr>"

section \<open>Reading a line\<close>

definition data_of_line :: "(string \<Rightarrow> py option) \<Rightarrow> string \<Rightarrow> py option" where
  "data_of_line loads line =
     (let line = str_strip line in
      if line = [] \<or> \<not> starts_with line ''data:'' then None
      else let data_string = str_strip (drop 5 line) in
        if data_string = ''[DONE]'' \<or> data_string = ''{}'' then None
        else loads data_string)"

datatype 'b stream_chunk =
    Chunk_Bytes "'b list"
  | Chunk_Text string

fun chunk_lines :: "('b list \<Rightarrow> string) \<Rightarrow> 'b stream_chunk \<Rightarrow> string list" where
  "chunk_lines decode (Chunk_Bytes b) = split_on (CHR 0x0A) (str_strip (decode b))"
| "chunk_lines decode (Chunk_Text t) = split_on (CHR 0x0A) (str_strip t)"

section \<open>Usage\<close>

record usage_counts =
  u_input :: py
  u_output :: py
  u_creation :: py
  u_read :: py

definition read_usage :: "pydict \<Rightarrow> usage_counts result" where
  "read_usage u =
     (let creation = field u ''cache_creation_input_tokens'';
          details = field u ''prompt_tokens_details'';
          cached = (case (field u ''cache_read_input_tokens'', details) of
              (PNone, PDict d) \<Rightarrow> field d ''cached_tokens''
            | (r, _) \<Rightarrow> r);
          prompt_tokens = field u ''prompt_tokens'';
          output = (if field u ''output_tokens'' = PNone then field u ''completion_tokens'' else field u ''output_tokens'')
      in bindR (if field u ''input_tokens'' \<noteq> PNone \<or> prompt_tokens = PNone then Inr (field u ''input_tokens'')
                else bindR (py_minus prompt_tokens (py_or creation (PInt 0))) (\<lambda>n.
                     bindR (py_minus n (py_or cached (PInt 0))) py_max0)) (\<lambda>input.
         Inr \<lparr>u_input = input, u_output = output, u_creation = creation, u_read = cached\<rparr>))"

definition keep_unless_none :: "py \<Rightarrow> py \<Rightarrow> py" where
  "keep_unless_none new old = (if new = PNone then old else new)"

definition keep_unless_dict :: "py \<Rightarrow> py \<Rightarrow> py" where
  "keep_unless_dict new old = (if is_dict new then new else old)"

definition note_usage :: "pydict \<Rightarrow> usage_counts \<Rightarrow> conversion \<Rightarrow> conversion" where
  "note_usage u c s = s\<lparr>input_tokens := keep_unless_none (u_input c) (input_tokens s),
     output_tokens := keep_unless_none (u_output c) (output_tokens s),
     cache_creation := keep_unless_none (u_creation c) (cache_creation s),
     cache_read := keep_unless_none (u_read c) (cache_read s),
     output_tokens_details := keep_unless_dict (field u ''output_tokens_details'') (output_tokens_details s),
     server_tool_use := keep_unless_dict (field u ''server_tool_use'') (server_tool_use s),
     service_tier := keep_unless_none (field u ''service_tier'') (service_tier s)\<rparr>"

fun usage_step :: "py \<Rightarrow> (conversion, unit) action" where
  "usage_step (PDict u) = bindA (pureA (read_usage u)) (\<lambda>c. modA (note_usage u c))"
| "usage_step _ = retA ()"

section \<open>Reasoning and text\<close>

fun first_thinking :: "py list \<Rightarrow> py \<Rightarrow> py result" where
  "first_thinking [] r = Inr r"
| "first_thinking (PDict b # bs) r =
     (let t = py_or (py_or (field b ''thinking'') (field b ''content'')) (field b ''text'') in
      if truthy t then Inr t else first_thinking bs t)"
| "first_thinking (_ # bs) r = first_thinking bs r"

definition reasoning_of :: "py \<Rightarrow> py \<Rightarrow> py result" where
  "reasoning_of delta message =
     bindR (py_or_else (py_get delta ''reasoning_content'') (py_or_else (py_get delta ''reasoning'')
       (py_or_else (py_get delta ''thinking'') (py_or_else (py_get message ''reasoning_content'')
         (py_get message ''reasoning''))))) (\<lambda>r.
     if truthy r then Inr r
     else bindR (py_or_else (py_get delta ''thinking_blocks'') (py_or_else (py_get message ''thinking_blocks'')
            (Inr (PList [])))) (\<lambda>bs.
          bindR (py_iter bs) (\<lambda>bs. first_thinking bs r)))"

definition open_thinking :: "conversion \<Rightarrow> conversion" where
  "open_thinking s = (if thinking_block_open s then s
     else (emit (Block_Start (current_block_index s) Thinking_Block) s)\<lparr>thinking_block_open := True\<rparr>)"

definition reasoning_step :: "py \<Rightarrow> conversion \<Rightarrow> conversion" where
  "reasoning_step r s =
     (if truthy r \<and> \<not> text_block_open s \<and> \<not> has_tool_calls s
      then emit (Block_Delta (current_block_index s) (Thinking_Delta r)) (open_thinking s)
      else s)"

definition close_thinking :: "conversion \<Rightarrow> conversion" where
  "close_thinking s = (if thinking_block_open s
     then (emit (Block_Stop (current_block_index s)) s)
            \<lparr>thinking_block_open := False, current_block_index := Suc (current_block_index s)\<rparr>
     else s)"

definition close_text :: "conversion \<Rightarrow> conversion" where
  "close_text s = (if text_block_open s
     then (emit (Block_Stop (current_block_index s)) s)
            \<lparr>text_block_open := False, current_block_index := Suc (current_block_index s)\<rparr>
     else s)"

definition open_text :: "conversion \<Rightarrow> conversion" where
  "open_text s = (if text_block_open s then s
     else (emit (Block_Start (current_block_index s) Text_Block) s)\<lparr>text_block_open := True\<rparr>)"

definition text_step :: "py \<Rightarrow> conversion \<Rightarrow> conversion" where
  "text_step content s =
     (if truthy content \<and> \<not> has_tool_calls s
      then let s1 = open_text (close_thinking s)
           in emit (Block_Delta (current_block_index s1) (Text_Delta content)) s1
      else s)"

section \<open>Tool calls\<close>

definition new_tool :: "py \<Rightarrow> py \<Rightarrow> tool_call" where
  "new_tool i n = \<lparr>tc_id = i, tc_name = n, tc_arguments = [], block_index = -1, tc_started = False, tc_stopped = False\<rparr>"

definition need_key :: "py \<Rightarrow> (conversion, unit) action" where
  "need_key k = (if hashable k then retA () else raiseA TypeError)"

definition track :: "py \<Rightarrow> py \<Rightarrow> conversion \<Rightarrow> conversion" where
  "track i n s = (if dget (tracked_tool_calls s) (py_key i) = None
     then s\<lparr>tracked_tool_calls := dset (py_key i) (new_tool i n) (tracked_tool_calls s)\<rparr> else s)"

definition set_index :: "py \<Rightarrow> py \<Rightarrow> conversion \<Rightarrow> conversion" where
  "set_index index i s = s\<lparr>index_to_tool_id := dset (py_key index) (py_key i) (index_to_tool_id s)\<rparr>"

text \<open>The key of the tool call that a delta belongs to.\<close>

definition find_tool :: "(nat \<Rightarrow> string) \<Rightarrow> py \<Rightarrow> py \<Rightarrow> py \<Rightarrow> (conversion, py) action" where
  "find_tool fresh index i name =
     (if truthy i
      then thenA (need_key i) (thenA (modA (track i name)) (thenA (need_key index)
             (thenA (modA (set_index index i)) (retA (py_key i)))))
      else thenA (need_key index) (bindA (getA (\<lambda>s. dget (index_to_tool_id s) (py_key index))) (\<lambda>known.
             case known of
               Some k \<Rightarrow> retA k
             | None \<Rightarrow> bindA (getA (\<lambda>s. PStr (''toolu_'' @ fresh (uuids s)))) (\<lambda>fallback.
                 thenA (modA (\<lambda>s. set_index index fallback (s\<lparr>uuids := Suc (uuids s),
                     tracked_tool_calls := dset fallback (new_tool fallback name) (tracked_tool_calls s)\<rparr>)))
                   (retA fallback)))))"

definition change_tool :: "py \<Rightarrow> (tool_call \<Rightarrow> tool_call) \<Rightarrow> conversion \<Rightarrow> conversion" where
  "change_tool k f s = s\<lparr>tracked_tool_calls := AList.map_entry k f (tracked_tool_calls s)\<rparr>"

definition tool_at :: "py \<Rightarrow> conversion \<Rightarrow> tool_call" where
  "tool_at k s = (case dget (tracked_tool_calls s) k of Some t \<Rightarrow> t | None \<Rightarrow> new_tool PNone PNone)"

definition name_tool :: "py \<Rightarrow> py \<Rightarrow> conversion \<Rightarrow> conversion" where
  "name_tool k name s = (if truthy name \<and> \<not> truthy (tc_name (tool_at k s))
     then change_tool k (\<lambda>t. t\<lparr>tc_name := name\<rparr>) s else s)"

definition begin_tool :: "py \<Rightarrow> conversion \<Rightarrow> conversion" where
  "begin_tool k s =
     (let t = tool_at k s; n = current_block_index s in
      if \<not> tc_started t \<and> truthy (tc_name t)
      then (emit (Block_Start n (Tool_Block (tc_id t) (tc_name t)))
             (change_tool k (\<lambda>t. t\<lparr>block_index := int n, tc_started := True\<rparr>) s))
           \<lparr>has_tool_calls := True, current_block_index := Suc n\<rparr>
      else s)"

definition running :: "tool_call \<Rightarrow> bool" where
  "running t \<longleftrightarrow> tc_started t \<and> \<not> tc_stopped t"

definition feed_tool :: "(string \<Rightarrow> py option) \<Rightarrow> py \<Rightarrow> string \<Rightarrow> conversion \<Rightarrow> conversion" where
  "feed_tool loads k piece s =
     (let s1 = change_tool k (\<lambda>t. t\<lparr>tc_arguments := tc_arguments t @ piece\<rparr>) s;
          t = tool_at k s1
      in if \<not> running t then s1
         else let s2 = emit (Block_Delta (nat (block_index t)) (Input_Delta piece)) s1
              in if loads (tc_arguments t) = None then s2
                 else emit (Block_Stop (nat (block_index t))) (change_tool k (\<lambda>t. t\<lparr>tc_stopped := True\<rparr>) s2))"

fun arguments_step :: "(string \<Rightarrow> py option) \<Rightarrow> py \<Rightarrow> py \<Rightarrow> (conversion, unit) action" where
  "arguments_step loads k (PStr piece) = modA (if piece = [] then id else feed_tool loads k piece)"
| "arguments_step loads k v = (if truthy v then raiseA TypeError else retA ())"

definition tool_step :: "(nat \<Rightarrow> string) \<Rightarrow> (string \<Rightarrow> py option) \<Rightarrow> py \<Rightarrow> (conversion, unit) action" where
  "tool_step fresh loads tc =
     bindA (pureA (py_get_or tc ''index'' (PInt 0))) (\<lambda>index.
     bindA (pureA (py_get_or tc ''id'' (PStr []))) (\<lambda>i.
     bindA (pureA (bindR (py_get tc ''function'') (\<lambda>f. py_get_or (py_or f (PDict [])) ''name'' (PStr [])))) (\<lambda>name.
     bindA (pureA (bindR (py_get tc ''function'') (\<lambda>f. py_get_or (py_or f (PDict [])) ''arguments'' (PStr [])))) (\<lambda>piece.
     bindA (find_tool fresh index i name) (\<lambda>k.
     thenA (modA (name_tool k name)) (thenA (modA (begin_tool k)) (arguments_step loads k piece)))))))"

definition delta_tool_calls :: "py \<Rightarrow> py \<Rightarrow> py result" where
  "delta_tool_calls delta message =
     py_or_else (py_get delta ''tool_calls'') (bindR (py_get message ''tool_calls'') (\<lambda>cs. Inr (py_or cs (PList []))))"

definition tools_step :: "(nat \<Rightarrow> string) \<Rightarrow> (string \<Rightarrow> py option) \<Rightarrow> py \<Rightarrow> (conversion, unit) action" where
  "tools_step fresh loads calls = whenA (truthy calls)
     (thenA (modA close_thinking) (thenA (modA close_text)
       (bindA (pureA (py_iter calls)) (forA (tool_step fresh loads)))))"

section \<open>The stream\<close>

definition stop_reason_of :: "py \<Rightarrow> string" where
  "stop_reason_of r = (if r = PStr ''length'' then ''max_tokens'' else if r = PStr ''tool_calls'' then ''tool_use''
     else ''end_turn'')"

definition finish_step :: "py \<Rightarrow> (conversion, unit) action" where
  "finish_step r = whenA (r \<noteq> PNone)
     (if hashable r then modA (\<lambda>s. s\<lparr>stop_reason := stop_reason_of r\<rparr>) else raiseA TypeError)"

definition choice_step :: "(nat \<Rightarrow> string) \<Rightarrow> (string \<Rightarrow> py option) \<Rightarrow> py \<Rightarrow> (conversion, unit) action" where
  "choice_step fresh loads c =
     bindA (pureA (py_get_or c ''delta'' (PDict []))) (\<lambda>delta.
     bindA (pureA (py_get c ''finish_reason'')) (\<lambda>r.
     bindA (pureA (py_get c ''message'')) (\<lambda>m. let message = py_or m (PDict []) in
     bindA (pureA (reasoning_of delta message)) (\<lambda>reasoning. thenA (modA (reasoning_step reasoning))
     (bindA (pureA (py_get delta ''content'')) (\<lambda>content. thenA (modA (text_step content))
     (bindA (pureA (delta_tool_calls delta message)) (\<lambda>calls. thenA (tools_step fresh loads calls)
     (finish_step r)))))))))"

definition data_step :: "(nat \<Rightarrow> string) \<Rightarrow> (string \<Rightarrow> py option) \<Rightarrow> py \<Rightarrow> (conversion, unit) action" where
  "data_step fresh loads data =
     bindA (pureA (py_get data ''usage'')) (\<lambda>u. thenA (usage_step u)
     (bindA (pureA (py_get_or data ''choices'' (PList []))) (\<lambda>cs.
      whenA (truthy cs) (bindA (pureA (py_first cs)) (choice_step fresh loads)))))"

definition line_step :: "(nat \<Rightarrow> string) \<Rightarrow> (string \<Rightarrow> py option) \<Rightarrow> string \<Rightarrow> (conversion, unit) action" where
  "line_step fresh loads line =
     (case data_of_line loads line of None \<Rightarrow> retA () | Some data \<Rightarrow> data_step fresh loads data)"

definition read_stream ::
  "(nat \<Rightarrow> string) \<Rightarrow> (string \<Rightarrow> py option) \<Rightarrow> ('b list \<Rightarrow> string) \<Rightarrow> 'b stream_chunk list \<Rightarrow> (conversion, unit) action" where
  "read_stream fresh loads decode chunks =
     forA (\<lambda>c. forA (line_step fresh loads) (chunk_lines decode c)) chunks"

text \<open>After the loop: open blocks are closed, in the order of the code.\<close>

definition flush_tool :: "conversion \<Rightarrow> py \<Rightarrow> conversion" where
  "flush_tool s k =
     (let t = tool_at k s; n = current_block_index s in
      if \<not> tc_started t \<and> truthy (tc_name t)
      then let s1 = (emit (Block_Start n (Tool_Block (tc_id t) (tc_name t)))
                      (change_tool k (\<lambda>t. t\<lparr>block_index := int n, tc_started := True\<rparr>) s))
                    \<lparr>current_block_index := Suc n\<rparr>
           in if tc_arguments t = [] then s1 else emit (Block_Delta n (Input_Delta (tc_arguments t))) s1
      else s)"

definition stop_text :: "conversion \<Rightarrow> conversion" where
  "stop_text s = (if text_block_open s then emit (Block_Stop (current_block_index s)) s else s)"

definition stop_tool :: "conversion \<Rightarrow> py \<Rightarrow> conversion" where
  "stop_tool s k = (let t = tool_at k s in
     if running t then emit (Block_Stop (nat (block_index t))) s else s)"

definition usage_items :: "conversion \<Rightarrow> pydict" where
  "usage_items s = (''output_tokens'', output_tokens s) #
     filter (\<lambda>(k, v). v \<noteq> PNone)
       [(''input_tokens'', input_tokens s), (''cache_creation_input_tokens'', cache_creation s),
        (''cache_read_input_tokens'', cache_read s), (''output_tokens_details'', output_tokens_details s),
        (''server_tool_use'', server_tool_use s), (''service_tier'', service_tier s)]"

definition finish_stream :: "conversion \<Rightarrow> conversion" where
  "finish_stream s =
     (let s1 = close_thinking s;
          s2 = foldl flush_tool s1 (dkeys (tracked_tool_calls s1));
          s3 = foldl stop_tool (stop_text s2) (dkeys (tracked_tool_calls s2))
      in emit Message_Stop (emit (Message_Delta (stop_reason s3) (usage_items s3)) s3))"

definition openai_stream_to_anthropic_stream ::
  "(nat \<Rightarrow> string) \<Rightarrow> (string \<Rightarrow> py option) \<Rightarrow> ('b list \<Rightarrow> string) \<Rightarrow> string \<Rightarrow> py \<Rightarrow> 'b stream_chunk list \<Rightarrow> sse_event list" where
  "openai_stream_to_anthropic_stream fresh loads decode model tokens chunks =
     events (finish_stream (fst (read_stream fresh loads decode chunks (new_conversion fresh model tokens))))"

section \<open>The protocol of the Messages API\<close>

text \<open>
  What a client of the Messages API expects between \<open>message_start\<close> and \<open>message_delta\<close>: blocks with
  the indexes 0, 1, 2 and so on, each started once, fed with deltas of its own type while it is open,
  and stopped once. Only tool blocks are open beside each other.
\<close>

type_synonym protocol = "nat \<times> (nat \<times> block) list"

fun is_tool :: "block \<Rightarrow> bool" where
  "is_tool (Tool_Block i n) = True"
| "is_tool _ = False"

fun delta_fits :: "block \<Rightarrow> block_delta \<Rightarrow> bool" where
  "delta_fits Thinking_Block (Thinking_Delta t) = True"
| "delta_fits Text_Block (Text_Delta t) = True"
| "delta_fits (Tool_Block i n) (Input_Delta t) = True"
| "delta_fits _ _ = False"

fun follow :: "protocol \<Rightarrow> sse_event \<Rightarrow> protocol option" where
  "follow (n, op) (Block_Start i b) =
     (if i = n \<and> (op = [] \<or> list_all is_tool (b # map snd op)) then Some (Suc n, (i, b) # op) else None)"
| "follow (n, op) (Block_Delta i d) =
     (case dget op i of None \<Rightarrow> None | Some b \<Rightarrow> if delta_fits b d then Some (n, op) else None)"
| "follow (n, op) (Block_Stop i) = (if dget op i = None then None else Some (n, dpop i op))"
| "follow _ _ = None"

primrec follows :: "protocol \<Rightarrow> sse_event list \<Rightarrow> protocol option" where
  "follows p [] = Some p"
| "follows p (e # es) = (case follow p e of None \<Rightarrow> None | Some q \<Rightarrow> follows q es)"

lemma follows_append: "follows p (es @ fs) = (case follows p es of None \<Rightarrow> None | Some q \<Rightarrow> follows q fs)"
  by (induction es arbitrary: p) (auto split: option.split)

section \<open>Lemmas\<close>

definition tool_entry :: "tool_call \<Rightarrow> nat \<times> block" where
  "tool_entry t = (nat (block_index t), Tool_Block (tc_id t) (tc_name t))"

definition open_entry :: "tool_call option \<Rightarrow> (nat \<times> block) set" where
  "open_entry x = (case x of None \<Rightarrow> {} | Some t \<Rightarrow> if running t then {tool_entry t} else {})"

definition running_set :: "(py \<times> tool_call) list \<Rightarrow> (nat \<times> block) set" where
  "running_set T = (\<Union>k. open_entry (dget T k))"

definition open_set :: "conversion \<Rightarrow> (nat \<times> block) set" where
  "open_set s = (if thinking_block_open s then {(current_block_index s, Thinking_Block)} else {})
     \<union> (if text_block_open s then {(current_block_index s, Text_Block)} else {})
     \<union> running_set (tracked_tool_calls s)"

definition next_index :: "conversion \<Rightarrow> nat" where
  "next_index s = current_block_index s + (if thinking_block_open s \<or> text_block_open s then 1 else 0)"

text \<open>The events so far follow the protocol, and the blocks that are open are those of the state.\<close>

definition in_step :: "sse_event \<Rightarrow> conversion \<Rightarrow> (nat \<times> block) list \<Rightarrow> bool" where
  "in_step e0 s op \<longleftrightarrow> (\<exists>body. events s = e0 # body \<and> follows (0, []) body = Some (next_index s, op))
     \<and> wf_dict op \<and> set op = open_set s"

definition tool_ok :: "nat \<Rightarrow> tool_call \<Rightarrow> bool" where
  "tool_ok n t \<longleftrightarrow> (tc_stopped t \<longrightarrow> tc_started t)
     \<and> (tc_started t \<longrightarrow> truthy (tc_name t) \<and> 0 \<le> block_index t \<and> nat (block_index t) < n)"

definition tools_ok :: "nat \<Rightarrow> (py \<times> tool_call) list \<Rightarrow> bool" where
  "tools_ok n T \<longleftrightarrow> wf_dict T \<and> (\<forall>k t. dget T k = Some t \<longrightarrow> tool_ok n t)
     \<and> (\<forall>k t k' t'. dget T k = Some t \<and> tc_started t \<and> dget T k' = Some t' \<and> tc_started t'
          \<and> block_index t = block_index t' \<longrightarrow> k = k')"

definition any_started :: "(py \<times> tool_call) list \<Rightarrow> bool" where
  "any_started T \<longleftrightarrow> (\<exists>k t. dget T k = Some t \<and> tc_started t)"

definition stream_ok :: "sse_event \<Rightarrow> conversion \<Rightarrow> bool" where
  "stream_ok e0 s \<longleftrightarrow> (\<exists>op. in_step e0 s op) \<and> tools_ok (current_block_index s) (tracked_tool_calls s)
     \<and> \<not> (thinking_block_open s \<and> text_block_open s)
     \<and> (any_started (tracked_tool_calls s) \<longrightarrow> \<not> thinking_block_open s \<and> \<not> text_block_open s)"

text \<open>While chunks are read: a tool block was started only if \<open>has_tool_calls\<close> says so, and the ids that
  an index leads to are tracked. All tool calls with a name are started, except one at hand.\<close>

definition unused :: "(nat \<Rightarrow> string) \<Rightarrow> nat \<Rightarrow> (py \<times> tool_call) list \<Rightarrow> bool" where
  "unused fresh n T \<longleftrightarrow> (\<forall>m \<ge> n. dget T (PStr (''toolu_'' @ fresh m)) = None)"

definition reading_ok :: "(nat \<Rightarrow> string) \<Rightarrow> sse_event \<Rightarrow> conversion \<Rightarrow> bool" where
  "reading_ok fresh e0 s \<longleftrightarrow> stream_ok e0 s \<and> unused fresh (uuids s) (tracked_tool_calls s) \<and> (any_started (tracked_tool_calls s) \<longrightarrow> has_tool_calls s)
     \<and> (\<forall>k \<in> snd ` set (index_to_tool_id s). dget (tracked_tool_calls s) k \<noteq> None)"

definition named_started :: "py set \<Rightarrow> (py \<times> tool_call) list \<Rightarrow> bool" where
  "named_started K T \<longleftrightarrow> (\<forall>k t. dget T k = Some t \<longrightarrow> k \<notin> K \<longrightarrow> truthy (tc_name t) \<longrightarrow> tc_started t)"

definition between :: "(nat \<Rightarrow> string) \<Rightarrow> sse_event \<Rightarrow> conversion \<Rightarrow> bool" where
  "between fresh e0 s \<longleftrightarrow> reading_ok fresh e0 s \<and> named_started {} (tracked_tool_calls s)"

definition in_tools :: "(nat \<Rightarrow> string) \<Rightarrow> sse_event \<Rightarrow> conversion \<Rightarrow> bool" where
  "in_tools fresh e0 s \<longleftrightarrow> between fresh e0 s \<and> \<not> thinking_block_open s \<and> \<not> text_block_open s"

definition at_tool :: "(nat \<Rightarrow> string) \<Rightarrow> sse_event \<Rightarrow> py \<Rightarrow> conversion \<Rightarrow> bool" where
  "at_tool fresh e0 k s \<longleftrightarrow> reading_ok fresh e0 s \<and> named_started {k} (tracked_tool_calls s) \<and> \<not> thinking_block_open s \<and> \<not> text_block_open s
     \<and> dget (tracked_tool_calls s) k \<noteq> None"

definition broken_off :: "sse_event \<Rightarrow> conversion \<Rightarrow> bool" where
  "broken_off e0 s \<longleftrightarrow> stream_ok e0 s \<and> (named_started {} (tracked_tool_calls s) \<or> \<not> thinking_block_open s \<and> \<not> text_block_open s)"

lemma emit_fields [simp]:
  "current_block_index (emit e s) = current_block_index s" "thinking_block_open (emit e s) = thinking_block_open s"
  "text_block_open (emit e s) = text_block_open s" "tracked_tool_calls (emit e s) = tracked_tool_calls s"
  "index_to_tool_id (emit e s) = index_to_tool_id s" "uuids (emit e s) = uuids s" "has_tool_calls (emit e s) = has_tool_calls s"
  "events (emit e s) = events s @ [e]"
  by (simp_all add: emit_def)

lemma in_step_start:
  assumes "in_step e0 s op" and "op = [] \<or> list_all is_tool (b # map snd op)"
    and "events s' = events s @ [Block_Start (next_index s) b]" and "next_index s' = Suc (next_index s)"
    and "open_set s' = insert (next_index s, b) (open_set s)" and "next_index s \<notin> fst ` open_set s"
  shows "\<exists>op'. in_step e0 s' op'"
  using assms unfolding in_step_def
  by (intro exI [of _ "(next_index s, b) # op"]) (auto simp: follows_append)

lemma in_step_delta:
  assumes "in_step e0 s op" and "(i, b) \<in> open_set s" and "delta_fits b d"
    and "events s' = events s @ [Block_Delta i d]" and "next_index s' = next_index s" and "open_set s' = open_set s"
  shows "\<exists>op'. in_step e0 s' op'"
proof -
  from assms(1,2) have "dget op i = Some b" by (auto simp: in_step_def)
  with assms show ?thesis unfolding in_step_def
    by (intro exI [of _ op]) (auto simp: follows_append)
qed

lemma in_step_stop:
  assumes "in_step e0 s op" and "(i, b) \<in> open_set s"
    and "events s' = events s @ [Block_Stop i]" and "next_index s' = next_index s"
    and "open_set s' = {p \<in> open_set s. fst p \<noteq> i}"
  shows "\<exists>op'. in_step e0 s' op'"
proof -
  from assms(1,2) have "dget op i = Some b" by (auto simp: in_step_def)
  moreover have "set (dpop i op) = {p \<in> set op. fst p \<noteq> i}" by (auto simp: AList.delete_eq)
  ultimately show ?thesis using assms unfolding in_step_def
    by (intro exI [of _ "dpop i op"]) (auto simp: follows_append)
qed

lemma in_step_same:
  "in_step e0 s op \<Longrightarrow> events s' = events s \<Longrightarrow> next_index s' = next_index s \<Longrightarrow> open_set s' = open_set s \<Longrightarrow>
    \<exists>op'. in_step e0 s' op'"
  unfolding in_step_def by auto

lemma running_none: "\<not> any_started T \<Longrightarrow> running_set T = {}"
  by (auto simp: any_started_def running_set_def open_entry_def running_def split: option.splits)

lemma running_less: "tools_ok n T \<Longrightarrow> (i, b) \<in> running_set T \<Longrightarrow> i < n \<and> is_tool b"
  by (auto simp: tools_ok_def tool_ok_def running_set_def open_entry_def tool_entry_def running_def split: option.splits if_splits)

lemma tools_ok_mono: "tools_ok n T \<Longrightarrow> n \<le> m \<Longrightarrow> tools_ok m T"
  unfolding tools_ok_def tool_ok_def by (metis order.strict_trans2)

lemma no_block_open:
  assumes "stream_ok e0 s" "\<not> thinking_block_open s" "\<not> text_block_open s"
  shows "open_set s = running_set (tracked_tool_calls s)" "next_index s = current_block_index s"
    "current_block_index s \<notin> fst ` open_set s"
  using assms by (auto simp: open_set_def next_index_def stream_ok_def dest: running_less)

lemma open_set_block:
  assumes "stream_ok e0 s"
  shows "thinking_block_open s \<Longrightarrow> open_set s = {(current_block_index s, Thinking_Block)}"
    and "text_block_open s \<Longrightarrow> open_set s = {(current_block_index s, Text_Block)}"
  using assms by (auto simp: stream_ok_def open_set_def running_none)

lemma stream_ok_delta:
  assumes "stream_ok e0 s" "(i, b) \<in> open_set s" "delta_fits b d"
  shows "stream_ok e0 (emit (Block_Delta i d) s)"
proof -
  from assms obtain op where "in_step e0 s op" by (auto simp: stream_ok_def)
  from in_step_delta [OF this assms(2,3), of "emit (Block_Delta i d) s"] assms(1)
  show ?thesis by (simp add: stream_ok_def next_index_def open_set_def)
qed

lemma stream_ok_open:
  assumes "stream_ok e0 s" "\<not> thinking_block_open s" "\<not> text_block_open s" "\<not> any_started (tracked_tool_calls s)"
  shows "stream_ok e0 ((emit (Block_Start (current_block_index s) Thinking_Block) s)\<lparr>thinking_block_open := True\<rparr>)"
    and "stream_ok e0 ((emit (Block_Start (current_block_index s) Text_Block) s)\<lparr>text_block_open := True\<rparr>)"
proof -
  note none = no_block_open [OF assms(1,2,3)] running_none [OF assms(4)]
  from assms(1) obtain op where op: "in_step e0 s op" by (auto simp: stream_ok_def)
  with none have e: "op = []" by (simp add: in_step_def)
  from in_step_start [OF op, of _ "(emit (Block_Start (current_block_index s) Thinking_Block) s)\<lparr>thinking_block_open := True\<rparr>"]
  show "stream_ok e0 ((emit (Block_Start (current_block_index s) Thinking_Block) s)\<lparr>thinking_block_open := True\<rparr>)"
    using assms e none by (simp add: stream_ok_def next_index_def open_set_def)
  from in_step_start [OF op, of _ "(emit (Block_Start (current_block_index s) Text_Block) s)\<lparr>text_block_open := True\<rparr>"]
  show "stream_ok e0 ((emit (Block_Start (current_block_index s) Text_Block) s)\<lparr>text_block_open := True\<rparr>)"
    using assms e none by (simp add: stream_ok_def next_index_def open_set_def)
qed

lemma stream_ok_close:
  assumes "stream_ok e0 s"
  shows "stream_ok e0 (close_thinking s)" "stream_ok e0 (close_text s)"
proof -
  from assms obtain op where op: "in_step e0 s op" by (auto simp: stream_ok_def)
  note set = open_set_block [OF assms]
  show "stream_ok e0 (close_thinking s)"
  proof (cases "thinking_block_open s")
    case True
    with assms have none: "\<not> text_block_open s" "\<not> any_started (tracked_tool_calls s)" by (auto simp: stream_ok_def)
    from in_step_stop [OF op, of _ Thinking_Block "close_thinking s"] set(1) True assms none tools_ok_mono
    show ?thesis
      by (auto simp: stream_ok_def close_thinking_def next_index_def open_set_def running_none)
  qed (use assms in \<open>simp add: close_thinking_def\<close>)
  show "stream_ok e0 (close_text s)"
  proof (cases "text_block_open s")
    case True
    with assms have none: "\<not> thinking_block_open s" "\<not> any_started (tracked_tool_calls s)" by (auto simp: stream_ok_def)
    from in_step_stop [OF op, of _ Text_Block "close_text s"] set(2) True assms none tools_ok_mono
    show ?thesis
      by (auto simp: stream_ok_def close_text_def next_index_def open_set_def running_none)
  qed (use assms in \<open>simp add: close_text_def\<close>)
qed

lemma close_fields [simp]:
  "tracked_tool_calls (close_thinking s) = tracked_tool_calls s" "tracked_tool_calls (close_text s) = tracked_tool_calls s"
  "index_to_tool_id (close_thinking s) = index_to_tool_id s" "index_to_tool_id (close_text s) = index_to_tool_id s"
  "uuids (close_thinking s) = uuids s" "uuids (close_text s) = uuids s"
  "has_tool_calls (close_thinking s) = has_tool_calls s" "has_tool_calls (close_text s) = has_tool_calls s"
  "\<not> thinking_block_open (close_thinking s)" "text_block_open (close_thinking s) = text_block_open s"
  "\<not> text_block_open (close_text s)" "thinking_block_open (close_text s) = thinking_block_open s"
  by (simp_all add: close_thinking_def close_text_def)

lemma between_close:
  "between fresh e0 s \<Longrightarrow> between fresh e0 (close_thinking s)" "between fresh e0 s \<Longrightarrow> between fresh e0 (close_text s)"
  by (simp_all add: between_def reading_ok_def stream_ok_close)

lemma between_reasoning: "between fresh e0 s \<Longrightarrow> between fresh e0 (reasoning_step r s)"
proof (cases "truthy r \<and> \<not> text_block_open s \<and> \<not> has_tool_calls s")
  case True
  assume b: "between fresh e0 s"
  with True have ok: "stream_ok e0 s" "\<not> any_started (tracked_tool_calls s)" by (auto simp: between_def reading_ok_def)
  let ?s = "open_thinking s"
  have s: "stream_ok e0 ?s" "thinking_block_open ?s" "current_block_index ?s = current_block_index s"
    using stream_ok_open(1) [OF ok(1)] ok True by (auto simp: open_thinking_def)
  have "stream_ok e0 (emit (Block_Delta (current_block_index s) (Thinking_Delta r)) ?s)"
    by (rule stream_ok_delta [OF s(1), of _ Thinking_Block]) (simp_all add: open_set_block(1) [OF s(1,2)] s(3))
  with b True show ?thesis
    by (simp add: reasoning_step_def between_def reading_ok_def open_thinking_def)
qed (auto simp: reasoning_step_def)

lemma between_text: "between fresh e0 s \<Longrightarrow> between fresh e0 (text_step c s)"
proof (cases "truthy c \<and> \<not> has_tool_calls s")
  case True
  assume b: "between fresh e0 s"
  let ?u = "close_thinking s"
  let ?s = "open_text ?u"
  from between_close(1) [OF b] True
  have ok: "stream_ok e0 ?u" "\<not> any_started (tracked_tool_calls ?u)" by (auto simp: between_def reading_ok_def)
  have s: "stream_ok e0 ?s" "text_block_open ?s" "current_block_index ?s = current_block_index ?u"
    using stream_ok_open(2) [OF ok(1)] ok by (auto simp: open_text_def)
  have "stream_ok e0 (emit (Block_Delta (current_block_index ?s) (Text_Delta c)) ?s)"
    by (rule stream_ok_delta [OF s(1), of _ Text_Block]) (simp_all add: open_set_block(2) [OF s(1,2)])
  with between_close(1) [OF b] True show ?thesis
    by (simp add: text_step_def Let_def between_def reading_ok_def open_text_def)
qed (auto simp: text_step_def)

text \<open>Changes of the tracked tool calls.\<close>

definition running_rest :: "py \<Rightarrow> (py \<times> tool_call) list \<Rightarrow> (nat \<times> block) set" where
  "running_rest k T = (\<Union>k' \<in> - {k}. open_entry (dget T k'))"

lemma dget_change [simp]:
  "dget (AList.map_entry k f T) k' = (if k' = k then map_option f (dget T k) else dget T k')"
  by (simp add: AList.map_of_map_entry split: option.split)

lemma running_set_at: "running_set T = running_rest k T \<union> open_entry (dget T k)"
proof -
  have "(UNIV :: py set) = insert k (- {k})" by blast
  then show ?thesis unfolding running_set_def running_rest_def by (metis UN_insert Un_commute)
qed

lemma running_rest_same [simp]:
  "running_rest k (AList.map_entry k f T) = running_rest k T" "running_rest k (dset k t T) = running_rest k T"
  by (simp_all add: running_rest_def)

lemma running_set_split:
  assumes "dget T k = Some t"
  shows "running_set T = running_rest k T \<union> (if running t then {tool_entry t} else {})"
    and "running_set (AList.map_entry k f T) = running_rest k T \<union> (if running (f t) then {tool_entry (f t)} else {})"
  using assms by (simp_all add: running_set_at [of _ k] open_entry_def)

lemma running_set_new:
  assumes "dget T k = None" "\<not> running t"
  shows "running_set (dset k t T) = running_set T"
  using assms by (simp add: running_set_at [of _ k] open_entry_def)

lemma running_rest_index:
  assumes "tools_ok n T" "dget T k = Some t" "tc_started t" "p \<in> running_rest k T"
  shows "fst p \<noteq> nat (block_index t)"
proof -
  from assms(4) obtain k' t' where t': "p = tool_entry t'" "k' \<noteq> k" "dget T k' = Some t'" "tc_started t'"
    by (auto simp: running_rest_def running_def open_entry_def split: option.splits if_splits)
  with assms have "block_index t' \<noteq> block_index t" "0 \<le> block_index t'" "0 \<le> block_index t"
    by (auto simp: tools_ok_def tool_ok_def)
  with t'(1) show ?thesis by (simp add: tool_entry_def nat_eq_iff)
qed

lemma tools_ok_change:
  assumes "tools_ok n T" "dget T k = Some t" "tool_ok n (f t)"
    and "tc_started (f t) \<longrightarrow> tc_started t \<and> block_index (f t) = block_index t"
  shows "tools_ok n (AList.map_entry k f T)"
  using assms unfolding tools_ok_def by (auto simp: AList.distinct_map_entry split: if_splits; metis)

lemma tools_ok_begin:
  assumes "tools_ok n T" "dget T k = Some t" "\<not> tc_started t" "block_index (f t) = int n" "tool_ok (Suc n) (f t)"
  shows "tools_ok (Suc n) (AList.map_entry k f T)"
proof -
  have less: "block_index t' \<noteq> int n" if "dget T k' = Some t'" "tc_started t'" for k' t'
    using assms(1) that by (force simp: tools_ok_def tool_ok_def)
  show ?thesis
    using tools_ok_mono [OF assms(1), of "Suc n"] less assms unfolding tools_ok_def
    by (auto simp: AList.distinct_map_entry split: if_splits; metis)
qed

lemma tools_ok_new:
  assumes "tools_ok n T" "dget T k = None"
  shows "tools_ok n (dset k (new_tool i m) T)"
  using assms unfolding tools_ok_def by (auto simp: tool_ok_def new_tool_def split: if_splits)

lemma any_started_new:
  assumes "dget T k = None"
  shows "any_started (dset k (new_tool i m) T) = any_started T"
proof -
  have "dget (dset k (new_tool i m) T) k' = Some t \<and> tc_started t \<longleftrightarrow> dget T k' = Some t \<and> tc_started t" for k' t
    using assms by (auto simp: new_tool_def)
  then show ?thesis by (simp add: any_started_def)
qed

lemma stream_ok_new:
  assumes "stream_ok e0 s" "dget (tracked_tool_calls s) k = None"
  shows "stream_ok e0 (s\<lparr>tracked_tool_calls := dset k (new_tool i m) (tracked_tool_calls s)\<rparr>)"
proof -
  from assms obtain op where op: "in_step e0 s op" by (auto simp: stream_ok_def)
  have "\<not> running (new_tool i m)" by (simp add: running_def new_tool_def)
  note set = running_set_new [OF assms(2) this]
  from in_step_same [OF op, of "s\<lparr>tracked_tool_calls := dset k (new_tool i m) (tracked_tool_calls s)\<rparr>"] assms
  show ?thesis
    by (simp add: stream_ok_def tools_ok_new any_started_new next_index_def open_set_def set)
qed

section \<open>The stream follows the protocol\<close>

text \<open>No value of the input contains an id that the conversion draws itself.\<close>

definition fresh_for :: "(nat \<Rightarrow> string) \<Rightarrow> py \<Rightarrow> bool" where
  "fresh_for fresh v \<longleftrightarrow> (\<forall>n. \<not> mentions (''toolu_'' @ fresh n) v)"

lemma py_key_PStr_iff: "py_key i = PStr x \<longleftrightarrow> i = PStr x"
  by (cases i) simp_all

lemma valid_need_then: "(\<And>s. P s \<Longrightarrow> E s) \<Longrightarrow> valid P g Q E \<Longrightarrow> valid P (thenA (need_key k) g) Q E"
  by (auto simp: need_key_def valid_def thenA_def bindA_def)

lemma in_tools_at: "in_tools fresh e0 s \<Longrightarrow> dget (tracked_tool_calls s) k \<noteq> None \<Longrightarrow> at_tool fresh e0 k s"
  by (auto simp: in_tools_def between_def at_tool_def named_started_def)

lemma broken_off_intros:
  "between fresh e0 s \<Longrightarrow> broken_off e0 s" "in_tools fresh e0 s \<Longrightarrow> broken_off e0 s" "at_tool fresh e0 k s \<Longrightarrow> broken_off e0 s"
  by (auto simp: in_tools_def between_def at_tool_def broken_off_def reading_ok_def)

lemma stream_ok_cong:
  assumes "events s' = events s" "current_block_index s' = current_block_index s"
    "thinking_block_open s' = thinking_block_open s" "text_block_open s' = text_block_open s"
    "tracked_tool_calls s' = tracked_tool_calls s"
  shows "stream_ok e0 s' = stream_ok e0 s"
  using assms by (simp add: stream_ok_def in_step_def next_index_def open_set_def)

lemma at_tool_add:
  assumes "in_tools fresh e0 s" "dget (tracked_tool_calls s) k = None"
    and "unused fresh u (dset k (new_tool i m) (tracked_tool_calls s))"
  shows "at_tool fresh e0 k (s\<lparr>uuids := u, tracked_tool_calls := dset k (new_tool i m) (tracked_tool_calls s)\<rparr>)"
proof -
  from assms(1) have "stream_ok e0 s" by (simp add: in_tools_def between_def reading_ok_def)
  from stream_ok_new [OF this assms(2), of i m]
  have "stream_ok e0 (s\<lparr>uuids := u, tracked_tool_calls := dset k (new_tool i m) (tracked_tool_calls s)\<rparr>)"
    by (subst stream_ok_cong [where s = "s\<lparr>tracked_tool_calls := dset k (new_tool i m) (tracked_tool_calls s)\<rparr>"]) simp_all
  with assms show ?thesis
    by (auto simp: in_tools_def at_tool_def between_def reading_ok_def named_started_def any_started_new)
qed

lemma at_tool_index:
  assumes "at_tool fresh e0 k s" "py_key i = k"
  shows "at_tool fresh e0 k (set_index index i s)"
proof -
  have "stream_ok e0 (set_index index i s) = stream_ok e0 s"
    by (rule stream_ok_cong) (simp_all add: set_index_def)
  moreover have "x = k \<or> x \<in> snd ` set (index_to_tool_id s)" if "x \<in> snd ` set (index_to_tool_id (set_index index i s))" for x
    using that assms(2) by (auto simp: set_index_def dest!: dset_values)
  ultimately show ?thesis using assms(1)
    by (fastforce simp: at_tool_def reading_ok_def set_index_def)
qed

lemma at_tool_track:
  assumes "in_tools fresh e0 s" "\<forall>n. py_key i \<noteq> PStr (''toolu_'' @ fresh n)"
  shows "at_tool fresh e0 (py_key i) (track i name s)"
proof (cases "dget (tracked_tool_calls s) (py_key i)")
  case None
  from assms have "unused fresh (uuids s) (dset (py_key i) (new_tool i name) (tracked_tool_calls s))"
    unfolding in_tools_def between_def reading_ok_def unused_def by (metis dget_dset)
  from at_tool_add [OF assms(1) None this] None show ?thesis by (simp add: track_def)
next
  case (Some t)
  with assms(1) show ?thesis by (simp add: track_def in_tools_at)
qed

lemma at_tool_fallback:
  assumes "in_tools fresh e0 s" "inj fresh"
  shows "at_tool fresh e0 (PStr (''toolu_'' @ fresh (uuids s)))
    (set_index index (PStr (''toolu_'' @ fresh (uuids s))) (s\<lparr>uuids := Suc (uuids s), tracked_tool_calls :=
        dset (PStr (''toolu_'' @ fresh (uuids s))) (new_tool (PStr (''toolu_'' @ fresh (uuids s))) name)
          (tracked_tool_calls s)\<rparr>))"
proof (rule at_tool_index)
  let ?k = "PStr (''toolu_'' @ fresh (uuids s))"
  from assms(1) have u: "unused fresh (uuids s) (tracked_tool_calls s)" by (simp add: in_tools_def between_def reading_ok_def)
  then have "dget (tracked_tool_calls s) ?k = None" by (simp add: unused_def)
  moreover have "unused fresh (Suc (uuids s)) (dset ?k (new_tool ?k name) (tracked_tool_calls s))"
    using u by (auto simp: unused_def dest: injD [OF assms(2)])
  ultimately show "at_tool fresh e0 ?k (s\<lparr>uuids := Suc (uuids s), tracked_tool_calls :=
      dset ?k (new_tool ?k name) (tracked_tool_calls s)\<rparr>)"
    by (rule at_tool_add [OF assms(1)])
qed simp

lemma valid_find_tool:
  assumes "\<forall>n. py_key i \<noteq> PStr (''toolu_'' @ fresh n)" and "inj fresh"
  shows "valid (in_tools fresh e0) (find_tool fresh index i name) (at_tool fresh e0) (broken_off e0)"
  unfolding find_tool_def
proof (intro valid_if)
  show "valid (in_tools fresh e0) (thenA (need_key i) (thenA (modA (track i name)) (thenA (need_key index)
          (thenA (modA (set_index index i)) (retA (py_key i)))))) (at_tool fresh e0) (broken_off e0)"
    by (intro valid_need_then valid_mod_then [where R = "at_tool fresh e0 (py_key i)"] valid_ret)
       (auto intro: at_tool_track [OF _ assms(1)] at_tool_index broken_off_intros)
next
  have known: "valid (\<lambda>s. in_tools fresh e0 s \<and> known = dget (index_to_tool_id s) (py_key index))
      (case known of Some k \<Rightarrow> retA k
       | None \<Rightarrow> bindA (getA (\<lambda>s. PStr (''toolu_'' @ fresh (uuids s)))) (\<lambda>fallback.
           thenA (modA (\<lambda>s. set_index index fallback (s\<lparr>uuids := Suc (uuids s),
               tracked_tool_calls := dset fallback (new_tool fallback name) (tracked_tool_calls s)\<rparr>)))
             (retA fallback)))
      (at_tool fresh e0) (broken_off e0)" for known
  proof (cases known)
    case None
    show ?thesis unfolding None option.case
    proof (rule valid_get_bind)
      show "valid (\<lambda>s. (in_tools fresh e0 s \<and> None = dget (index_to_tool_id s) (py_key index))
              \<and> fallback = PStr (''toolu_'' @ fresh (uuids s)))
          (thenA (modA (\<lambda>s. set_index index fallback (s\<lparr>uuids := Suc (uuids s),
               tracked_tool_calls := dset fallback (new_tool fallback name) (tracked_tool_calls s)\<rparr>)))
             (retA fallback)) (at_tool fresh e0) (broken_off e0)" for fallback
        by (intro valid_mod_then [where R = "at_tool fresh e0 fallback"] valid_ret)
           (use at_tool_fallback [OF _ assms(2)] in auto)
    qed
  next
    case (Some k)
    have "dget (tracked_tool_calls s) k \<noteq> None" if "in_tools fresh e0 s" "Some k = dget (index_to_tool_id s) (py_key index)" for s
      using that(1) map_of_SomeD [OF that(2) [symmetric]]
      by (force simp: in_tools_def between_def reading_ok_def)
    then show ?thesis unfolding Some option.case by (intro valid_ret) (auto intro: in_tools_at)
  qed
  show "valid (in_tools fresh e0) (thenA (need_key index) (bindA (getA (\<lambda>s. dget (index_to_tool_id s) (py_key index)))
      (\<lambda>known. case known of Some k \<Rightarrow> retA k
       | None \<Rightarrow> bindA (getA (\<lambda>s. PStr (''toolu_'' @ fresh (uuids s)))) (\<lambda>fallback.
           thenA (modA (\<lambda>s. set_index index fallback (s\<lparr>uuids := Suc (uuids s),
               tracked_tool_calls := dset fallback (new_tool fallback name) (tracked_tool_calls s)\<rparr>)))
             (retA fallback))))) (at_tool fresh e0) (broken_off e0)"
    by (intro valid_need_then valid_get_bind known) (rule broken_off_intros)
qed

text \<open>Naming and starting the tool call at hand: afterwards it is started if it has a name.\<close>

lemma start_tool_cases:
  assumes "dget (tracked_tool_calls s) k = Some t" "tool_ok n t"
  obtains (same) "begin_tool k (name_tool k name s) = s" "truthy (tc_name t) \<longrightarrow> tc_started t"
  | (start) f where "\<not> tc_started t" "truthy (tc_name (f t))" "tc_id (f t) = tc_id t" "tc_stopped (f t) = tc_stopped t"
      "block_index (f t) = int (current_block_index s)" "tc_started (f t)"
      "tracked_tool_calls (begin_tool k (name_tool k name s)) = AList.map_entry k f (tracked_tool_calls s)"
      "events (begin_tool k (name_tool k name s)) = events s
         @ [Block_Start (current_block_index s) (snd (tool_entry (f t)))]"
      "has_tool_calls (begin_tool k (name_tool k name s))"
      "current_block_index (begin_tool k (name_tool k name s)) = Suc (current_block_index s)"
proof (cases "tc_started t")
  case True
  with assms have "begin_tool k (name_tool k name s) = s" "truthy (tc_name t) \<longrightarrow> tc_started t"
    by (simp_all add: name_tool_def begin_tool_def tool_at_def tool_ok_def Let_def)
  then show ?thesis by (rule same)
next
  case False
  show ?thesis
  proof (cases "truthy (tc_name t)")
    case True
    with False assms show ?thesis
      by (intro start [of "\<lambda>t. t\<lparr>block_index := int (current_block_index s), tc_started := True\<rparr>"])
         (simp_all add: name_tool_def begin_tool_def tool_at_def Let_def change_tool_def tool_entry_def)
  next
    case unnamed: False
    show ?thesis
    proof (cases "truthy name")
      case True
      have "AList.map_entry k f (AList.map_entry k g T) = AList.map_entry k (f \<circ> g) T" for f g :: "tool_call \<Rightarrow> tool_call" and T
        by (induction T) auto
      with False unnamed True assms show ?thesis
        by (intro start [of "(\<lambda>t. t\<lparr>block_index := int (current_block_index s), tc_started := True\<rparr>)
              \<circ> (\<lambda>t. t\<lparr>tc_name := name\<rparr>)"])
           (simp_all add: name_tool_def begin_tool_def tool_at_def Let_def change_tool_def tool_entry_def)
    next
      case none: False
      from unnamed none assms show ?thesis
        by (intro same) (simp_all add: name_tool_def begin_tool_def tool_at_def Let_def)
    qed
  qed
qed

lemma start_tool_fields [simp]:
  "thinking_block_open (begin_tool k (name_tool k name s)) = thinking_block_open s"
  "text_block_open (begin_tool k (name_tool k name s)) = text_block_open s"
  "index_to_tool_id (begin_tool k (name_tool k name s)) = index_to_tool_id s"
  "uuids (begin_tool k (name_tool k name s)) = uuids s"
  by (simp_all add: name_tool_def begin_tool_def Let_def change_tool_def)

lemma stream_ok_begin:
  assumes "stream_ok e0 s" "\<not> thinking_block_open s" "\<not> text_block_open s" "dget (tracked_tool_calls s) k = Some t"
    and "\<not> tc_started t" "truthy (tc_name (f t))" "\<not> tc_stopped (f t)" "block_index (f t) = int (current_block_index s)"
      "tc_started (f t)"
    and "tracked_tool_calls s' = AList.map_entry k f (tracked_tool_calls s)"
      "events s' = events s @ [Block_Start (current_block_index s) (snd (tool_entry (f t)))]"
      "current_block_index s' = Suc (current_block_index s)" "\<not> thinking_block_open s'" "\<not> text_block_open s'"
  shows "stream_ok e0 s'"
proof -
  from assms(1) obtain op where op: "in_step e0 s op" by (auto simp: stream_ok_def)
  note none = no_block_open [OF assms(1,2,3)]
  have "tools_ok (Suc (current_block_index s)) (tracked_tool_calls s')"
    unfolding assms(10) by (rule tools_ok_begin) (use assms in \<open>auto simp: stream_ok_def tool_ok_def\<close>)
  moreover have "\<exists>op'. in_step e0 s' op'"
  proof (rule in_step_start [OF op])
    show "op = [] \<or> list_all is_tool (snd (tool_entry (f t)) # map snd op)"
      using op running_less assms(1)
      by (fastforce simp: in_step_def none(1) stream_ok_def list_all_iff tool_entry_def)
    show "open_set s' = insert (next_index s, snd (tool_entry (f t))) (open_set s)"
      using assms running_set_split [OF assms(4)]
      by (simp add: open_set_def none(2) running_def tool_entry_def)
  qed (use assms none in \<open>simp_all add: next_index_def\<close>)
  ultimately show ?thesis using assms by (simp add: stream_ok_def)
qed

lemma at_tool_start:
  assumes "at_tool fresh e0 k s"
  shows "in_tools fresh e0 (begin_tool k (name_tool k name s))
    \<and> dget (tracked_tool_calls (begin_tool k (name_tool k name s))) k \<noteq> None"
proof -
  from assms obtain t where t: "dget (tracked_tool_calls s) k = Some t" by (auto simp: at_tool_def)
  have ok: "tool_ok (current_block_index s) t"
    using assms t by (auto simp: at_tool_def reading_ok_def stream_ok_def tools_ok_def)
  from t ok show ?thesis
  proof (cases rule: start_tool_cases [where name = name])
    case same
    have "named_started {} (tracked_tool_calls s)"
      using assms t same(2) unfolding at_tool_def named_started_def by (metis option.inject singletonD)
    with assms t same(1) show ?thesis by (simp add: in_tools_def between_def at_tool_def)
  next
    case (start f)
    have "stream_ok e0 (begin_tool k (name_tool k name s))"
      by (rule stream_ok_begin [where s = s and k = k and t = t and f = f])
         (use assms t ok start in \<open>auto simp: at_tool_def reading_ok_def tool_ok_def\<close>)
    moreover have "named_started {} (tracked_tool_calls (begin_tool k (name_tool k name s)))"
      using assms t start(6) unfolding start(7) by (auto simp: at_tool_def named_started_def split: if_splits)
    ultimately show ?thesis using assms t start(9)
      by (auto simp: in_tools_def between_def at_tool_def reading_ok_def start(7) unused_def split: if_splits)
  qed
qed

lemma stream_ok_change:
  assumes "stream_ok e0 s" "dget (tracked_tool_calls s) k = Some t"
    and "\<And>t. tc_id (f t) = tc_id t \<and> tc_name (f t) = tc_name t \<and> block_index (f t) = block_index t
           \<and> tc_started (f t) = tc_started t \<and> tc_stopped (f t) = tc_stopped t"
  shows "stream_ok e0 (change_tool k f s)"
proof -
  from assms(1) obtain op where op: "in_step e0 s op" by (auto simp: stream_ok_def)
  have "open_set (change_tool k f s) = open_set s"
    using running_set_split [OF assms(2)] assms(3) [of t]
    by (simp add: change_tool_def open_set_def running_def tool_entry_def)
  moreover have "tools_ok (current_block_index s) (AList.map_entry k f (tracked_tool_calls s))"
    by (rule tools_ok_change [OF _ assms(2)])
       (use assms in \<open>auto simp: stream_ok_def tools_ok_def tool_ok_def\<close>)
  moreover have "any_started (AList.map_entry k f (tracked_tool_calls s)) \<longrightarrow> any_started (tracked_tool_calls s)"
    using assms(2,3) by (auto simp: any_started_def split: if_splits)
  ultimately show ?thesis
    using in_step_same [OF op, of "change_tool k f s"] assms(1)
    by (auto simp: stream_ok_def change_tool_def next_index_def)
qed

lemma stream_ok_stop_tool:
  assumes "stream_ok e0 s" "\<not> thinking_block_open s" "\<not> text_block_open s" "dget (tracked_tool_calls s) k = Some t" "running t"
  shows "stream_ok e0 (emit (Block_Stop (nat (block_index t))) (change_tool k (\<lambda>t. t\<lparr>tc_stopped := True\<rparr>) s))"
    (is "stream_ok e0 ?s")
proof -
  from assms(1) obtain op where op: "in_step e0 s op" by (auto simp: stream_ok_def)
  note none = no_block_open [OF assms(1,2,3)]
  have ok: "tools_ok (current_block_index s) (tracked_tool_calls s)" using assms(1) by (simp add: stream_ok_def)
  have "open_set ?s = {p \<in> open_set s. fst p \<noteq> nat (block_index t)}"
    using running_set_split [OF assms(4)] running_rest_index [OF ok assms(4)] assms
    by (auto simp: open_set_def change_tool_def running_def tool_entry_def)
  moreover have "(nat (block_index t), Tool_Block (tc_id t) (tc_name t)) \<in> open_set s"
    using running_set_split(1) [OF assms(4)] assms(5) by (simp add: none(1) tool_entry_def)
  moreover have "tools_ok (current_block_index s) (tracked_tool_calls ?s)"
    unfolding change_tool_def
    by (simp, rule tools_ok_change [OF ok assms(4)])
       (use ok assms in \<open>auto simp: tools_ok_def tool_ok_def running_def\<close>)
  ultimately show ?thesis
    using in_step_stop [OF op, of "nat (block_index t)" "Tool_Block (tc_id t) (tc_name t)" ?s] assms
    by (auto simp: stream_ok_def change_tool_def next_index_def)
qed

lemma change_tool_fields [simp]:
  "thinking_block_open (change_tool k f s) = thinking_block_open s" "text_block_open (change_tool k f s) = text_block_open s"
  "index_to_tool_id (change_tool k f s) = index_to_tool_id s" "uuids (change_tool k f s) = uuids s"
  "has_tool_calls (change_tool k f s) = has_tool_calls s" "current_block_index (change_tool k f s) = current_block_index s"
  "tracked_tool_calls (change_tool k f s) = AList.map_entry k f (tracked_tool_calls s)"
  by (simp_all add: change_tool_def)

lemma stream_ok_feed:
  assumes "stream_ok e0 s" "\<not> thinking_block_open s" "\<not> text_block_open s" "dget (tracked_tool_calls s) k = Some t"
  shows "stream_ok e0 (feed_tool loads k piece s)"
proof -
  let ?g = "\<lambda>t. t\<lparr>tc_arguments := tc_arguments t @ piece\<rparr>"
  let ?s = "change_tool k ?g s"
  have s: "stream_ok e0 ?s" by (rule stream_ok_change [OF assms(1,4)]) simp
  have t: "dget (tracked_tool_calls ?s) k = Some (?g t)" "tool_at k ?s = ?g t"
    using assms(4) by (simp_all add: tool_at_def)
  show ?thesis
  proof (cases "running t")
    case True
    let ?u = "emit (Block_Delta (nat (block_index t)) (Input_Delta piece)) ?s"
    have "(nat (block_index t), Tool_Block (tc_id t) (tc_name t)) \<in> open_set ?s"
      using running_set_split(1) [OF t(1)] True by (simp add: open_set_def running_def tool_entry_def)
    from stream_ok_delta [OF s this, of "Input_Delta piece"] have u: "stream_ok e0 ?u" by simp
    have "stream_ok e0 (emit (Block_Stop (nat (block_index t))) (change_tool k (\<lambda>t. t\<lparr>tc_stopped := True\<rparr>) ?u))"
      using stream_ok_stop_tool [OF u, of k "?g t"] True assms t(1) by (simp add: running_def)
    with u True t(2) show ?thesis by (simp add: feed_tool_def Let_def running_def)
  next
    case False
    with s t(2) show ?thesis by (simp add: feed_tool_def Let_def running_def)
  qed
qed

lemma feed_tool_fields [simp]:
  "thinking_block_open (feed_tool loads k p s) = thinking_block_open s" "text_block_open (feed_tool loads k p s) = text_block_open s"
  "index_to_tool_id (feed_tool loads k p s) = index_to_tool_id s" "uuids (feed_tool loads k p s) = uuids s"
  "has_tool_calls (feed_tool loads k p s) = has_tool_calls s" "current_block_index (feed_tool loads k p s) = current_block_index s"
  "fst ` set (tracked_tool_calls (feed_tool loads k p s)) = fst ` set (tracked_tool_calls s)"
  by (simp_all add: feed_tool_def Let_def AList.dom_map_entry)

lemma tracked_feed:
  "\<exists>f. (\<forall>t. tc_started (f t) = tc_started t \<and> tc_name (f t) = tc_name t)
     \<and> tracked_tool_calls (feed_tool loads k p s) = AList.map_entry k f (tracked_tool_calls s)"
proof -
  have comp: "AList.map_entry k f (AList.map_entry k g T) = AList.map_entry k (f \<circ> g) T" for f g :: "tool_call \<Rightarrow> tool_call" and T
    by (induction T) auto
  let ?g = "\<lambda>t. t\<lparr>tc_arguments := tc_arguments t @ p\<rparr>" and ?h = "\<lambda>t. t\<lparr>tc_stopped := True\<rparr>"
  have "tracked_tool_calls (feed_tool loads k p s) = AList.map_entry k ?g (tracked_tool_calls s)
      \<or> tracked_tool_calls (feed_tool loads k p s) = AList.map_entry k (?h \<circ> ?g) (tracked_tool_calls s)"
    by (simp add: feed_tool_def Let_def comp)
  then show ?thesis by (elim disjE) (rule exI, rule conjI [rotated], assumption, simp)+
qed

lemma in_tools_feed:
  assumes "in_tools fresh e0 s" "dget (tracked_tool_calls s) k \<noteq> None"
  shows "in_tools fresh e0 (feed_tool loads k p s)"
proof -
  from assms(2) obtain t where t: "dget (tracked_tool_calls s) k = Some t" by auto
  obtain f where f: "\<And>t. tc_started (f t) = tc_started t \<and> tc_name (f t) = tc_name t"
    and T: "tracked_tool_calls (feed_tool loads k p s) = AList.map_entry k f (tracked_tool_calls s)"
    using tracked_feed [of loads k p s] by blast
  have "stream_ok e0 (feed_tool loads k p s)"
    by (rule stream_ok_feed [OF _ _ _ t]) (use assms(1) in \<open>auto simp: in_tools_def between_def reading_ok_def\<close>)
  moreover have "any_started (AList.map_entry k f (tracked_tool_calls s)) \<longrightarrow> any_started (tracked_tool_calls s)"
    using f t by (auto simp: any_started_def split: if_splits)
  moreover have "named_started {} (AList.map_entry k f (tracked_tool_calls s)) = named_started {} (tracked_tool_calls s)"
    using f t by (auto simp: named_started_def split: if_splits)
  moreover have "unused fresh u (AList.map_entry k f (tracked_tool_calls s)) = unused fresh u (tracked_tool_calls s)" for u
    using t by (auto simp: unused_def)
  moreover have "dget (AList.map_entry k f (tracked_tool_calls s)) k' = None \<longleftrightarrow> dget (tracked_tool_calls s) k' = None" for k'
    using t by simp
  ultimately show ?thesis
    using assms(1) T by (auto simp: in_tools_def between_def reading_ok_def)
qed

text \<open>The steps of a chunk, as actions.\<close>

lemma fresh_id:
  assumes "fresh_for fresh tc" "py_get_or tc k (PStr []) = Inr i"
  shows "\<forall>n. py_key i \<noteq> PStr (''toolu_'' @ fresh n)"
proof
  fix n
  from assms(1) mentions_get [OF assms(2), of "''toolu_'' @ fresh n"]
  have "\<not> mentions (''toolu_'' @ fresh n) i" unfolding fresh_for_def by auto
  then show "py_key i \<noteq> PStr (''toolu_'' @ fresh n)" unfolding py_key_PStr_iff by auto
qed

lemma valid_arguments:
  "valid (\<lambda>s. in_tools fresh e0 s \<and> dget (tracked_tool_calls s) k \<noteq> None) (arguments_step loads k piece)
     (\<lambda>_. in_tools fresh e0) (broken_off e0)"
proof (cases piece)
  case (PStr p)
  then show ?thesis
    by (cases "p = []") (auto intro!: valid_mod simp: in_tools_feed)
qed (auto intro!: valid_if valid_ret valid_raise intro: broken_off_intros)

lemma valid_tool_step:
  assumes "inj fresh" "is_dict tc \<longrightarrow> fresh_for fresh tc"
  shows "valid (in_tools fresh e0) (tool_step fresh loads tc) (\<lambda>_. in_tools fresh e0) (broken_off e0)"
  unfolding tool_step_def
proof (intro valid_pure_bind)
  fix index i name piece
  assume i: "py_get_or tc ''id'' (PStr []) = Inr i"
  then have "is_dict tc" by (cases tc) auto
  with assms(2) have f: "fresh_for fresh tc" by simp
  show "valid (in_tools fresh e0) (bindA (find_tool fresh index i name) (\<lambda>k.
      thenA (modA (name_tool k name)) (thenA (modA (begin_tool k)) (arguments_step loads k piece))))
      (\<lambda>_. in_tools fresh e0) (broken_off e0)"
  proof (rule valid_bind [OF valid_find_tool [OF fresh_id [OF f i] assms(1)]])
    fix k
    have "thenA (modA (name_tool k name)) (thenA (modA (begin_tool k)) (arguments_step loads k piece))
        = thenA (modA (begin_tool k \<circ> name_tool k name)) (arguments_step loads k piece)"
      by auto
    then show "valid (at_tool fresh e0 k)
        (thenA (modA (name_tool k name)) (thenA (modA (begin_tool k)) (arguments_step loads k piece)))
        (\<lambda>_. in_tools fresh e0) (broken_off e0)"
      using valid_mod_then [OF _ valid_arguments [of fresh e0 k loads piece], where P = "at_tool fresh e0 k"
          and h = "begin_tool k \<circ> name_tool k name"] at_tool_start by simp
  qed
qed (auto intro: broken_off_intros)

lemma valid_tools_step:
  assumes "inj fresh" "\<And>cs c. py_iter calls = Inr cs \<Longrightarrow> c \<in> set cs \<Longrightarrow> is_dict c \<Longrightarrow> fresh_for fresh c"
  shows "valid (between fresh e0) (tools_step fresh loads calls) (\<lambda>_. between fresh e0) (broken_off e0)"
  unfolding tools_step_def
proof (rule valid_when)
  have loop: "valid (in_tools fresh e0) (bindA (pureA (py_iter calls)) (forA (tool_step fresh loads)))
      (\<lambda>_. in_tools fresh e0) (broken_off e0)"
    by (intro valid_pure_bind valid_for valid_tool_step) (use assms in \<open>auto intro: broken_off_intros\<close>)
  show "valid (between fresh e0) (thenA (modA close_thinking) (thenA (modA close_text)
      (bindA (pureA (py_iter calls)) (forA (tool_step fresh loads))))) (\<lambda>_. between fresh e0) (broken_off e0)"
    by (rule valid_mod_then [where R = "\<lambda>s. between fresh e0 s \<and> \<not> thinking_block_open s"],
        simp add: between_close,
        rule valid_mod_then [where R = "in_tools fresh e0"], simp add: in_tools_def between_close,
        rule valid_weaken [OF loop]) (simp_all add: in_tools_def)
qed

lemma between_same:
  assumes "stream_ok e0 s' = stream_ok e0 s" "uuids s' = uuids s" "tracked_tool_calls s' = tracked_tool_calls s"
    "has_tool_calls s' = has_tool_calls s" "index_to_tool_id s' = index_to_tool_id s"
  shows "between fresh e0 s' = between fresh e0 s"
  using assms by (simp add: between_def reading_ok_def)

lemma valid_finish: "valid (between fresh e0) (finish_step r) (\<lambda>_. between fresh e0) (broken_off e0)"
proof -
  have "between fresh e0 (s\<lparr>stop_reason := x\<rparr>) = between fresh e0 s" for s x
    by (intro between_same stream_ok_cong) simp_all
  then show ?thesis
    unfolding finish_step_def by (intro valid_when valid_if valid_mod valid_raise) (auto intro: broken_off_intros)
qed

lemma valid_usage: "valid (between fresh e0) (usage_step u) (\<lambda>_. between fresh e0) (broken_off e0)"
proof (cases u)
  case (PDict d)
  have "between fresh e0 (note_usage d c s) = between fresh e0 s" for c s
    by (intro between_same stream_ok_cong) (simp_all add: note_usage_def)
  with PDict show ?thesis
    by (auto intro!: valid_pure_bind valid_mod intro: broken_off_intros)
qed (auto intro: valid_ret)

lemma delta_calls_fresh:
  assumes "delta_tool_calls delta message = Inr calls" "py_iter calls = Inr cs" "c \<in> set cs" "is_dict c"
    and "fresh_for fresh delta" "fresh_for fresh message"
  shows "fresh_for fresh c"
  unfolding fresh_for_def
proof
  fix n
  let ?m = "mentions (''toolu_'' @ fresh n)"
  have none: "\<not> ?m delta" "\<not> ?m message" using assms(5,6) unfolding fresh_for_def by blast+
  have "\<not> ?m calls"
  proof
    assume "?m calls"
    moreover have "?m x" if "py_get x k = Inr v" "?m v" for x k v
      using mentions_get [OF that] by (simp del: append_Cons append_Nil)
    moreover have "?m x" if "?m (py_or x (PList []))" for x
      using mentions_or [OF that] by (simp del: append_Cons append_Nil)
    ultimately show False
      using assms(1) none unfolding delta_tool_calls_def
      by (auto dest!: mentions_or_else simp del: append_Cons append_Nil)
  qed
  with mentions_iter [OF assms(2-4)] show "\<not> ?m c" by blast
qed

lemma fresh_get:
  assumes "py_get_or x k w = Inr v" "fresh_for fresh x" "fresh_for fresh w"
  shows "fresh_for fresh v"
  using assms mentions_get [OF assms(1)] unfolding fresh_for_def by blast

lemma fresh_empty [simp]: "fresh_for fresh (PDict [])" "fresh_for fresh PNone" "fresh_for fresh (PList [])"
  by (simp_all add: fresh_for_def)

lemma valid_choice:
  assumes "inj fresh" "is_dict c \<longrightarrow> fresh_for fresh c"
  shows "valid (between fresh e0) (choice_step fresh loads c) (\<lambda>_. between fresh e0) (broken_off e0)"
  unfolding choice_step_def Let_def
proof (intro valid_pure_bind valid_mod_then [where R = "between fresh e0"] valid_then [OF valid_tools_step valid_finish])
  fix delta r m reasoning content calls cs d
  assume delta: "py_get_or c ''delta'' (PDict []) = Inr delta" and m: "py_get c ''message'' = Inr m"
    and calls: "delta_tool_calls delta (py_or m (PDict [])) = Inr calls"
    and d: "py_iter calls = Inr cs" "d \<in> set cs" "is_dict d"
  from delta have "is_dict c" by (cases c) auto
  with assms(2) have "fresh_for fresh c" by simp
  then have "fresh_for fresh delta" "fresh_for fresh m"
    using fresh_get [OF delta] fresh_get [OF m] by simp_all
  then show "fresh_for fresh d"
    by (intro delta_calls_fresh [OF calls d]) (auto simp: py_or_def)
qed (use assms in \<open>auto intro: broken_off_intros between_reasoning between_text\<close>)

lemma valid_data:
  assumes "inj fresh" "fresh_for fresh data"
  shows "valid (between fresh e0) (data_step fresh loads data) (\<lambda>_. between fresh e0) (broken_off e0)"
  unfolding data_step_def
proof (intro valid_pure_bind valid_then [OF valid_usage] valid_when valid_choice)
  fix cs c
  assume cs: "py_get_or data ''choices'' (PList []) = Inr cs" and c: "py_first cs = Inr c"
  have "fresh_for fresh cs" by (rule fresh_get [OF cs assms(2)]) simp
  then show "is_dict c \<longrightarrow> fresh_for fresh c"
    using mentions_first [OF c] by (auto simp: fresh_for_def simp del: append_Cons append_Nil)
qed (use assms in \<open>auto intro: broken_off_intros\<close>)

lemma valid_read:
  assumes "inj fresh"
    and "\<And>c l d. c \<in> set chunks \<Longrightarrow> l \<in> set (chunk_lines decode c) \<Longrightarrow> data_of_line loads l = Some d \<Longrightarrow> fresh_for fresh d"
  shows "valid (between fresh e0) (read_stream fresh loads decode chunks) (\<lambda>_. between fresh e0) (broken_off e0)"
  unfolding read_stream_def line_step_def
  by (intro valid_for) (use assms in \<open>auto intro!: valid_ret valid_data split: option.split\<close>)

lemma between_new: "between fresh (Message_Start (''msg_'' @ fresh 0) model (py_or tokens (PInt 0)))
    (new_conversion fresh model tokens)"
  by (simp add: between_def reading_ok_def stream_ok_def in_step_def new_conversion_def next_index_def open_set_def
      running_set_def open_entry_def tools_ok_def any_started_def unused_def named_started_def)

text \<open>After the loop.\<close>

lemma broken_off_flush:
  assumes "broken_off e0 s" "\<not> thinking_block_open s" "k \<in> set (dkeys (tracked_tool_calls s))"
  shows "broken_off e0 (flush_tool s k) \<and> \<not> thinking_block_open (flush_tool s k)
    \<and> dkeys (tracked_tool_calls (flush_tool s k)) = dkeys (tracked_tool_calls s)"
proof -
  from assms(3) obtain t where t: "dget (tracked_tool_calls s) k = Some t"
    by (metis dget_in_keys option.exhaust)
  have ok: "stream_ok e0 s" "tool_ok (current_block_index s) t"
    using assms(1) t by (auto simp: broken_off_def stream_ok_def tools_ok_def)
  show ?thesis
  proof (cases "\<not> tc_started t \<and> truthy (tc_name t)")
    case False
    with t have "flush_tool s k = s" by (auto simp: flush_tool_def tool_at_def Let_def)
    with assms show ?thesis by simp
  next
    case True
    with assms t have no_text: "\<not> text_block_open s" by (auto simp: broken_off_def named_started_def)
    let ?f = "\<lambda>t :: tool_call. t\<lparr>block_index := int (current_block_index s), tc_started := True\<rparr>"
    let ?s = "(emit (Block_Start (current_block_index s) (Tool_Block (tc_id t) (tc_name t))) (change_tool k ?f s))
        \<lparr>current_block_index := Suc (current_block_index s)\<rparr>"
    have s: "stream_ok e0 ?s"
      by (rule stream_ok_begin [where s = s and k = k and t = t and f = ?f])
         (use True ok t assms(2) no_text in \<open>auto simp: tool_ok_def tool_entry_def change_tool_def\<close>)
    have "(current_block_index s, Tool_Block (tc_id t) (tc_name t)) \<in> open_set ?s"
      using running_set_split(2) [OF t, of ?f] True ok(2)
      by (simp add: open_set_def running_def tool_entry_def tool_ok_def)
    from stream_ok_delta [OF s this, of "Input_Delta (tc_arguments t)"]
    have d: "stream_ok e0 (emit (Block_Delta (current_block_index s) (Input_Delta (tc_arguments t))) ?s)" by simp
    have keys: "map fst (AList.map_entry k ?f T) = map fst T" for T :: "(py \<times> tool_call) list"
      by (induction T) auto
    from s d True t assms(2) no_text keys show ?thesis
      by (simp add: flush_tool_def tool_at_def Let_def broken_off_def)
  qed
qed

lemma flush_all:
  assumes "broken_off e0 s" "\<not> thinking_block_open s" "set ks \<subseteq> set (dkeys (tracked_tool_calls s))"
  shows "broken_off e0 (foldl flush_tool s ks) \<and> \<not> thinking_block_open (foldl flush_tool s ks)
    \<and> dkeys (tracked_tool_calls (foldl flush_tool s ks)) = dkeys (tracked_tool_calls s)"
  using assms
proof (induction ks arbitrary: s)
  case (Cons k ks)
  from Cons.prems have step: "broken_off e0 (flush_tool s k)" "\<not> thinking_block_open (flush_tool s k)"
      "dkeys (tracked_tool_calls (flush_tool s k)) = dkeys (tracked_tool_calls s)"
    using broken_off_flush [of e0 s k] by simp_all
  from Cons.prems(3) have "set ks \<subseteq> set (dkeys (tracked_tool_calls (flush_tool s k)))" unfolding step(3) by simp
  from Cons.IH [OF step(1,2) this] step(3) show ?case by simp
qed simp

lemma running_set_keys: "running_set T = (\<Union>k \<in> set (dkeys T). open_entry (dget T k))"
proof -
  have "open_entry (dget T k) = {}" if "k \<notin> set (dkeys T)" for k
    using that unfolding dget_None_keys [symmetric] by (simp add: open_entry_def)
  then have "k \<in> set (dkeys T)" if "p \<in> open_entry (dget T k)" for p k
    using that by blast
  then show ?thesis unfolding running_set_def by blast
qed

text \<open>Stopping what runs: each key of the tracked tool calls once.\<close>

lemma stop_tools:
  assumes "events s = e0 # body" "follows (0, []) body = Some (n, op)" "wf_dict op"
    and "set op = (\<Union>k \<in> set ks. open_entry (dget (tracked_tool_calls s) k))" "distinct ks"
    and "tools_ok m (tracked_tool_calls s)" "set ks \<subseteq> set (dkeys (tracked_tool_calls s))"
  shows "\<exists>body'. events (foldl stop_tool s ks) = e0 # body' \<and> follows (0, []) body' = Some (n, [])"
  using assms
proof (induction ks arbitrary: s body op)
  case (Cons k ks)
  let ?T = "tracked_tool_calls s"
  from Cons.prems(7) have "k \<in> set (dkeys ?T)" by simp
  then obtain t where t: "dget ?T k = Some t" by (metis dget_in_keys option.exhaust)
  show ?case
  proof (cases "running t")
    case False
    with t have same: "stop_tool s k = s" "open_entry (dget ?T k) = {}"
      by (simp_all add: stop_tool_def tool_at_def open_entry_def)
    from Cons.IH [OF Cons.prems(1-3)] Cons.prems same show ?thesis by simp
  next
    case True
    let ?i = "nat (block_index t)"
    let ?s = "emit (Block_Stop ?i) s"
    have step: "stop_tool s k = ?s" using True t by (simp add: stop_tool_def tool_at_def)
    have entry: "open_entry (dget ?T k) = {tool_entry t}" using True t by (simp add: open_entry_def)
    with Cons.prems(3,4) have at: "dget op ?i = Some (snd (tool_entry t))" by (simp add: tool_entry_def)
    have rest: "fst p \<noteq> ?i" if "p \<in> (\<Union>k' \<in> set ks. open_entry (dget ?T k'))" for p
    proof -
      from Cons.prems(5) have "k \<notin> set ks" by simp
      with that have "p \<in> running_rest k ?T" by (auto simp: running_rest_def)
      with running_rest_index [OF Cons.prems(6) t] True show ?thesis by (simp add: running_def)
    qed
    have "follows (0, []) (body @ [Block_Stop ?i]) = Some (n, dpop ?i op)"
      using Cons.prems(2) at by (simp add: follows_append)
    moreover have "set (dpop ?i op) = (\<Union>k' \<in> set ks. open_entry (dget ?T k'))"
    proof -
      have split: "{p \<in> insert (tool_entry t) R. fst p \<noteq> ?i} = R" if "\<And>p. p \<in> R \<Longrightarrow> fst p \<noteq> ?i" for R
        using that by (auto simp: tool_entry_def)
      have "set op = insert (tool_entry t) (\<Union>k' \<in> set ks. open_entry (dget ?T k'))"
        using Cons.prems(4) entry by simp
      with split [of "\<Union>k' \<in> set ks. open_entry (dget ?T k')", OF rest]
      have "{p \<in> set op. fst p \<noteq> ?i} = (\<Union>k' \<in> set ks. open_entry (dget ?T k'))" by (simp only:)
      moreover have "set (dpop ?i op) = {p \<in> set op. fst p \<noteq> ?i}" by (auto simp: AList.delete_eq)
      ultimately show ?thesis by (simp only:)
    qed
    ultimately show ?thesis
      using Cons.IH [of ?s "body @ [Block_Stop ?i]" "dpop ?i op"] Cons.prems step by simp
  qed
qed simp

lemma finish_follows:
  assumes "broken_off e0 s"
  shows "\<exists>body n r u. events (finish_stream s) = e0 # body @ [Message_Delta r u, Message_Stop]
    \<and> follows (0, []) body = Some (n, [])"
proof -
  let ?s1 = "close_thinking s"
  have s1: "broken_off e0 ?s1" "\<not> thinking_block_open ?s1"
    using assms by (auto simp: broken_off_def stream_ok_close)
  let ?s2 = "foldl flush_tool ?s1 (dkeys (tracked_tool_calls ?s1))"
  have s2: "stream_ok e0 ?s2" "\<not> thinking_block_open ?s2"
    using flush_all [OF s1 order.refl] by (simp_all add: broken_off_def)
  then obtain op body where op: "in_step e0 ?s2 op" "events ?s2 = e0 # body" "follows (0, []) body = Some (next_index ?s2, op)"
      "wf_dict op" "set op = open_set ?s2"
    by (auto simp: stream_ok_def in_step_def)
  let ?s3 = "stop_text ?s2"
  let ?T = "tracked_tool_calls ?s2"
  have T: "tracked_tool_calls ?s3 = ?T" by (simp add: stop_text_def)
  have keys: "running_set ?T = (\<Union>k \<in> set (dkeys ?T). open_entry (dget ?T k))" by (rule running_set_keys)
  have "\<exists>body op. events ?s3 = e0 # body \<and> follows (0, []) body = Some (next_index ?s2, op) \<and> wf_dict op
      \<and> set op = running_set ?T"
  proof (cases "text_block_open ?s2")
    case True
    note set = open_set_block(2) [OF s2(1) True]
    from s2(1) True have "running_set ?T = {}" by (auto simp: stream_ok_def running_none)
    moreover have "dget op (current_block_index ?s2) = Some Text_Block" using op(4,5) set by simp
    moreover have "set (dpop (current_block_index ?s2) op) = {}" using op(5) set by (simp add: AList.delete_eq)
    ultimately show ?thesis using op(2,3,4) True
      by (intro exI [of _ "body @ [Block_Stop (current_block_index ?s2)]"] exI [of _ "dpop (current_block_index ?s2) op"])
         (simp add: stop_text_def follows_append)
  next
    case False
    with op no_block_open(1) [OF s2 False] show ?thesis by (auto simp: stop_text_def)
  qed
  then obtain body3 op3 where op3: "events ?s3 = e0 # body3" "follows (0, []) body3 = Some (next_index ?s2, op3)"
      "wf_dict op3" "set op3 = running_set ?T" by blast
  have ok: "tools_ok (current_block_index ?s2) ?T" using s2(1) by (simp add: stream_ok_def)
  from stop_tools [OF op3(1-3), of "dkeys ?T" "current_block_index ?s2"] op3(4) ok keys T
  obtain body4 where "events (foldl stop_tool ?s3 (dkeys ?T)) = e0 # body4"
      "follows (0, []) body4 = Some (next_index ?s2, [])"
    by (auto simp: tools_ok_def)
  then show ?thesis by (auto simp: finish_stream_def Let_def)
qed

section \<open>Properties\<close>

text \<open>C30: Whatever the upstream sends, and wherever its reading raises, the events are a complete
  message of the Messages API: one \<open>message_start\<close>, blocks with consecutive indexes, each started
  once, fed with deltas of its type and stopped once, then \<open>message_delta\<close> and \<open>message_stop\<close>; as long
  as no id that the conversion draws is in the data.\<close>

theorem stream_follows_protocol:
  assumes "inj fresh"
    and "\<And>c l d. c \<in> set chunks \<Longrightarrow> l \<in> set (chunk_lines decode c) \<Longrightarrow> data_of_line loads l = Some d \<Longrightarrow> fresh_for fresh d"
  shows "\<exists>body n r u. openai_stream_to_anthropic_stream fresh loads decode model tokens chunks
      = Message_Start (''msg_'' @ fresh 0) model (py_or tokens (PInt 0)) # body @ [Message_Delta r u, Message_Stop]
    \<and> follows (0, []) body = Some (n, [])"
  unfolding openai_stream_to_anthropic_stream_def
proof (rule finish_follows, rule valid_final)
  show "valid (between fresh (Message_Start (''msg_'' @ fresh 0) model (py_or tokens (PInt 0))))
      (read_stream fresh loads decode chunks)
      (\<lambda>_. broken_off (Message_Start (''msg_'' @ fresh 0) model (py_or tokens (PInt 0))))
      (broken_off (Message_Start (''msg_'' @ fresh 0) model (py_or tokens (PInt 0))))"
    by (rule valid_weaken [OF valid_read [OF assms]]) (auto intro: broken_off_intros)
  show "between fresh (Message_Start (''msg_'' @ fresh 0) model (py_or tokens (PInt 0))) (new_conversion fresh model tokens)"
    by (rule between_new)
qed

text \<open>A stream with two calls, the second one broken off by a chunk that is not a dict.\<close>

definition demo_fresh :: "nat \<Rightarrow> string" where
  "demo_fresh n = replicate n (CHR ''a'')"

definition demo_delta :: "pydict \<Rightarrow> py" where
  "demo_delta d = PDict [(''choices'', PList [PDict [(''delta'', PDict d)]])]"

definition demo_call_delta :: "int \<Rightarrow> string \<Rightarrow> string \<Rightarrow> string \<Rightarrow> py" where
  "demo_call_delta index i name piece = demo_delta [(''tool_calls'', PList [PDict [(''index'', PInt index), (''id'', PStr i),
     (''function'', PDict [(''name'', PStr name), (''arguments'', PStr piece)])]])]"

definition demo_loads :: "string \<Rightarrow> py option" where
  "demo_loads t =
     (if t = ''1'' then Some (demo_delta [(''reasoning_content'', PStr ''why'')])
      else if t = ''2'' then Some (demo_delta [(''content'', PStr ''Hi'')])
      else if t = ''3'' then Some (demo_call_delta 0 ''c1'' ''f'' ''{}'')
      else if t = ''4'' then Some (demo_call_delta 1 ''c2'' ''g'' ''{'')
      else if t = ''5'' then Some (PList [])
      else if t = ''{}'' then Some (PDict [])
      else None)"

definition demo_chunks :: "unit stream_chunk list" where
  "demo_chunks = map (\<lambda>t. Chunk_Text (''data: '' @ t)) [''1'', ''2'', ''3'', ''4'', ''5'', ''2'']"

lemma demo_fresh_for [simp]: "demo_loads t = Some d \<Longrightarrow> fresh_for demo_fresh d"
  by (auto simp: demo_loads_def demo_delta_def demo_call_delta_def fresh_for_def split: if_splits)

lemma stream_follows_protocol_witness:
  "\<exists>body n r u. openai_stream_to_anthropic_stream demo_fresh demo_loads (\<lambda>_. []) ''m'' PNone demo_chunks
      = Message_Start ''msg_'' ''m'' (PInt 0) # body @ [Message_Delta r u, Message_Stop]
    \<and> follows (0, []) body = Some (n, [])"
proof -
  have "inj demo_fresh" by (rule injI) (simp add: demo_fresh_def)
  moreover have "fresh_for demo_fresh d" if "data_of_line demo_loads l = Some d" for l d
    using that by (auto simp: data_of_line_def Let_def split: if_splits)
  ultimately show ?thesis
    using stream_follows_protocol [of demo_fresh demo_chunks "\<lambda>_. []" demo_loads "''m''" PNone]
    by (simp add: demo_fresh_def py_or_def)
qed

text \<open>Arguments that arrive before the name of their call are kept and never sent: the block of the
  tool call starts with the name, and only later pieces follow.\<close>

lemma arguments_before_name_are_lost:
  "events (finish_stream (fst (forA (data_step demo_fresh demo_loads)
      [demo_call_delta 1 ''c2'' [] ''{'', demo_call_delta 1 [] ''g'' ''}''] (new_conversion demo_fresh ''m'' PNone))))
    = [Message_Start ''msg_'' ''m'' (PInt 0), Block_Start 0 (Tool_Block (PStr ''c2'') (PStr ''g'')),
       Block_Delta 0 (Input_Delta ''}''), Block_Stop 0,
       Message_Delta ''end_turn'' [(''output_tokens'', PInt 0)], Message_Stop]"
  by code_simp

end
