(* ===== verification/Anthropic_Response.thy ===== *)
theory Anthropic_Response
  imports Anthropic_Stream
begin

text \<open>
  \<open>convert_openai_to_anthropic_response\<close> of \<open>utils/anthropic.py\<close>: the answer that was not streamed,
  and its agreement with the stream. \<open>loads\<close> and \<open>fresh\<close> are the parameters of the stream.
\<close>

section \<open>The answer as one response\<close>

definition response_choice :: "pydict \<Rightarrow> py result" where
  "response_choice r = (let cs = field r ''choices'' in if truthy cs then py_first cs else Inr (PDict []))"

text \<open>The blocks of the \<open>thinking_blocks\<close> of a message.\<close>

fun thinking_items :: "py \<Rightarrow> py list" where
  "thinking_items (PDict b) =
     (if field b ''type'' = PStr ''redacted_thinking''
      then [PDict (filter (\<lambda>(k, v). k = ''type'' \<or> k = ''data'') b)]
      else let t = py_or (py_or (field b ''thinking'') (field b ''content'')) (field b ''text'') in
        if \<not> truthy t then []
        else [PDict ([(''type'', PStr ''thinking''), (''thinking'', t)]
                @ (if truthy (field b ''signature'') then [(''signature'', field b ''signature'')] else []))])"
| "thinking_items _ = []"

definition thinking_content :: "pydict \<Rightarrow> py list result" where
  "thinking_content m =
     (let message_thinking = field m ''thinking'';
          blocks = py_or (field m ''thinking_blocks'') (PList []);
          blocks = (case (truthy blocks, message_thinking) of
              (False, PDict t) \<Rightarrow> py_or (field t ''blocks'') (PList [])
            | _ \<Rightarrow> blocks);
          reasoning = py_or (field m ''reasoning_content'') (field m ''reasoning'');
          reasoning = (if \<not> truthy reasoning \<and> is_str message_thinking then message_thinking else reasoning)
      in bindR (py_iter blocks) (\<lambda>bs.
         let content = concat (map thinking_items bs) in
         Inr (content @ (if truthy reasoning \<and> content = []
                then [PDict [(''type'', PStr ''thinking''), (''thinking'', reasoning)]] else []))))"

definition text_content :: "pydict \<Rightarrow> py list" where
  "text_content m = (let c = field m ''content'' in
     if truthy c then [PDict [(''type'', PStr ''text''), (''text'', c)]] else [])"

definition load_arguments :: "(string \<Rightarrow> py option) \<Rightarrow> py \<Rightarrow> py" where
  "load_arguments loads v =
     (case v of PStr t \<Rightarrow> (case loads t of Some x \<Rightarrow> x | None \<Rightarrow> PDict []) | _ \<Rightarrow> PDict [])"

definition tool_use_item :: "(string \<Rightarrow> py option) \<Rightarrow> string \<Rightarrow> py \<Rightarrow> py result" where
  "tool_use_item loads uuid tc =
     bindR (py_get_or tc ''function'' (PDict [])) (\<lambda>f.
     bindR (py_get_or f ''arguments'' (PStr ''{}'')) (\<lambda>a.
     bindR (py_get_or tc ''id'' (PStr (''toolu_'' @ uuid))) (\<lambda>i.
     bindR (py_get_or f ''name'' (PStr [])) (\<lambda>n.
     Inr (PDict [(''type'', PStr ''tool_use''), (''id'', i), (''name'', n), (''input'', load_arguments loads a)])))))"

definition tool_content :: "(nat \<Rightarrow> string) \<Rightarrow> (string \<Rightarrow> py option) \<Rightarrow> pydict \<Rightarrow> py list result" where
  "tool_content fresh loads m =
     bindR (py_iter (py_or (field m ''tool_calls'') (PList []))) (\<lambda>tcs.
     listR (\<lambda>(k, tc). tool_use_item loads (fresh k) tc) (enumerate 0 tcs))"

definition response_usage :: "pydict \<Rightarrow> py \<Rightarrow> pydict result" where
  "response_usage u tokens =
     bindR (read_usage u) (\<lambda>c.
     Inr ([(''input_tokens'', keep_unless_none (u_input c) (keep_unless_none tokens (PInt 0))),
           (''output_tokens'', keep_unless_none (u_output c) (PInt 0))]
        @ filter (\<lambda>(k, v). v \<noteq> PNone)
            [(''cache_creation_input_tokens'', u_creation c), (''cache_read_input_tokens'', u_read c),
             (''output_tokens_details'', keep_unless_dict (field u ''output_tokens_details'') PNone),
             (''server_tool_use'', keep_unless_dict (field u ''server_tool_use'') PNone),
             (''service_tier'', field u ''service_tier'')]))"

definition convert_openai_to_anthropic_response ::
  "(nat \<Rightarrow> string) \<Rightarrow> (string \<Rightarrow> py option) \<Rightarrow> pydict \<Rightarrow> string \<Rightarrow> py \<Rightarrow> pydict result" where
  "convert_openai_to_anthropic_response fresh loads r model tokens =
     bindR (response_choice r) (\<lambda>choice.
     bindR (py_get_or choice ''message'' (PDict [])) (\<lambda>message.
     bindR (py_get_or choice ''finish_reason'' (PStr ''stop'')) (\<lambda>finish.
     if \<not> hashable finish then Inl TypeError
     else case message of
       PDict m \<Rightarrow>
         bindR (thinking_content m) (\<lambda>thinking.
         bindR (tool_content fresh loads m) (\<lambda>tools.
         bindR (case py_or (field r ''usage'') (PDict []) of
             PDict u \<Rightarrow> response_usage u tokens | _ \<Rightarrow> Inl AttributeError) (\<lambda>usage.
         Inr [(''id'', case dget r ''id'' of Some i \<Rightarrow> i | None \<Rightarrow> PStr (''msg_'' @ fresh (length tools))),
              (''type'', PStr ''message''), (''role'', PStr ''assistant''),
              (''content'', PList (thinking @ text_content m @ tools)),
              (''model'', if model \<noteq> [] then PStr model else case dget r ''model'' of Some x \<Rightarrow> x | None \<Rightarrow> PStr []),
              (''stop_reason'', PStr (stop_reason_of finish)),
              (''stop_sequence'', PNone), (''usage'', PDict usage)])))
     | _ \<Rightarrow> Inl AttributeError)))"

section \<open>What a client assembles from the events\<close>

fun delta_text :: "block_delta \<Rightarrow> string" where
  "delta_text (Thinking_Delta (PStr t)) = t"
| "delta_text (Text_Delta (PStr t)) = t"
| "delta_text (Input_Delta t) = t"
| "delta_text _ = []"

type_synonym assembled = "(block \<times> string) list"

fun take_event :: "assembled \<Rightarrow> sse_event \<Rightarrow> assembled" where
  "take_event B (Block_Start i b) = B @ [(b, [])]"
| "take_event B (Block_Delta i d) = B[i := (fst (B ! i), snd (B ! i) @ delta_text d)]"
| "take_event B _ = B"

definition assemble :: "sse_event list \<Rightarrow> assembled" where
  "assemble es = foldl take_event [] es"

fun block_value :: "(string \<Rightarrow> py option) \<Rightarrow> block \<times> string \<Rightarrow> py" where
  "block_value loads (Thinking_Block, t) = PDict [(''type'', PStr ''thinking''), (''thinking'', PStr t)]"
| "block_value loads (Text_Block, t) = PDict [(''type'', PStr ''text''), (''text'', PStr t)]"
| "block_value loads (Tool_Block i n, t) =
     PDict [(''type'', PStr ''tool_use''), (''id'', i), (''name'', n), (''input'', case loads t of None \<Rightarrow> PDict [] | Some v \<Rightarrow> v)]"

section \<open>A completion and its two forms\<close>

record completion_call =
  cc_id :: string
  cc_name :: string
  cc_pieces :: "string list"

record completion =
  reasoning_pieces :: "string list"
  text_pieces :: "string list"
  calls :: "completion_call list"
  reason :: string

definition delta_data :: "pydict \<Rightarrow> py" where
  "delta_data d = PDict [(''choices'', PList [PDict [(''delta'', PDict d)]])]"

definition call_delta :: "nat \<Rightarrow> pydict \<Rightarrow> pydict \<Rightarrow> py" where
  "call_delta i extra f = delta_data [(''tool_calls'', PList [PDict ((''index'', PInt (int i)) # extra @ [(''function'', PDict f)])])]"

definition call_data :: "nat \<Rightarrow> completion_call \<Rightarrow> py list" where
  "call_data i c =
     call_delta i [(''id'', PStr (cc_id c)), (''type'', PStr ''function'')]
         [(''name'', PStr (cc_name c)), (''arguments'', PStr (hd (cc_pieces c)))]
     # map (\<lambda>p. call_delta i [] [(''arguments'', PStr p)]) (tl (cc_pieces c))"

definition finish_data :: "string \<Rightarrow> py" where
  "finish_data r = PDict [(''choices'', PList [PDict [(''delta'', PDict []), (''finish_reason'', PStr r)]])]"

text \<open>The data of the stream, and the response that is not streamed.\<close>

definition completion_data :: "completion \<Rightarrow> py list" where
  "completion_data c =
     map (\<lambda>p. delta_data [(''reasoning_content'', PStr p)]) (reasoning_pieces c)
     @ map (\<lambda>p. delta_data [(''content'', PStr p)]) (text_pieces c)
     @ concat (map (\<lambda>(i, k). call_data i k) (enumerate 0 (calls c)))
     @ [finish_data (reason c)]"

definition call_value :: "completion_call \<Rightarrow> py" where
  "call_value c = PDict [(''id'', PStr (cc_id c)), (''type'', PStr ''function''),
     (''function'', PDict [(''name'', PStr (cc_name c)), (''arguments'', PStr (concat (cc_pieces c)))])]"

definition completion_response :: "completion \<Rightarrow> pydict" where
  "completion_response c = [(''choices'', PList [PDict [(''message'', PDict
       [(''role'', PStr ''assistant''), (''reasoning_content'', PStr (concat (reasoning_pieces c))),
        (''content'', PStr (concat (text_pieces c))), (''tool_calls'', PList (map call_value (calls c)))]),
      (''finish_reason'', PStr (reason c))]])]"

text \<open>Distinct calls with a name, whose arguments are complete only as a whole, as the text of a JSON
  object is.\<close>

definition call_ok :: "(string \<Rightarrow> py option) \<Rightarrow> completion_call \<Rightarrow> bool" where
  "call_ok loads c \<longleftrightarrow> cc_id c \<noteq> [] \<and> cc_name c \<noteq> [] \<and> cc_pieces c \<noteq> []
     \<and> (\<forall>p. strict_prefix p (concat (cc_pieces c)) \<longrightarrow> loads p = None)"

definition completion_ok :: "(string \<Rightarrow> py option) \<Rightarrow> completion \<Rightarrow> bool" where
  "completion_ok loads c \<longleftrightarrow> distinct (map cc_id (calls c)) \<and> (\<forall>k \<in> set (calls c). call_ok loads k)"

definition stream_data :: "(string \<Rightarrow> py option) \<Rightarrow> ('b list \<Rightarrow> string) \<Rightarrow> 'b stream_chunk list \<Rightarrow> py list" where
  "stream_data loads decode chunks =
     concat (map (\<lambda>c. List.map_filter (data_of_line loads) (chunk_lines decode c)) chunks)"

section \<open>Lemmas\<close>

lemma forA_map_filter:
  "forA (line_step fresh loads) ls = forA (data_step fresh loads) (List.map_filter (data_of_line loads) ls)"
  by (induction ls) (auto simp: line_step_def map_filter_simps split: option.split)

lemma read_stream_data:
  "read_stream fresh loads decode chunks = forA (data_step fresh loads) (stream_data loads decode chunks)"
  by (induction chunks) (simp_all add: read_stream_def stream_data_def forA_append forA_map_filter)

lemma assemble_append: "assemble (es @ fs) = foldl take_event (assemble es) fs"
  by (simp add: assemble_def)

definition r_blocks :: "string \<Rightarrow> assembled" where
  "r_blocks r = (if r = [] then [] else [(Thinking_Block, r)])"

definition t_blocks :: "string \<Rightarrow> assembled" where
  "t_blocks t = (if t = [] then [] else [(Text_Block, t)])"

text \<open>After the reasoning \<open>r\<close> and the text \<open>t\<close>.\<close>

definition said :: "conversion \<Rightarrow> string \<Rightarrow> string \<Rightarrow> bool" where
  "said s r t \<longleftrightarrow> assemble (events s) = r_blocks r @ t_blocks t \<and> tracked_tool_calls s = [] \<and> \<not> has_tool_calls s
     \<and> thinking_block_open s = (r \<noteq> [] \<and> t = []) \<and> text_block_open s = (t \<noteq> [])
     \<and> current_block_index s = (if r \<noteq> [] \<and> t \<noteq> [] then 1 else 0)"

lemma reasoning_delta:
  assumes "said s r []"
  shows "\<exists>s'. data_step fresh loads (delta_data [(''reasoning_content'', PStr p)]) s = (s', Inr ()) \<and> said s' (r @ p) []"
proof -
  have "data_step fresh loads (delta_data [(''reasoning_content'', PStr p)]) s = (reasoning_step (PStr p) s, Inr ())"
    by (cases "p = []") (simp_all add: data_step_def choice_step_def delta_data_def reasoning_of_def py_or_else_def
        py_or_def Let_def delta_tool_calls_def tools_step_def finish_step_def text_step_def reasoning_step_def)
  moreover have "said (reasoning_step (PStr p) s) (r @ p) []"
    using assms
    by (auto simp: said_def reasoning_step_def open_thinking_def emit_def assemble_append r_blocks_def t_blocks_def)
  ultimately show ?thesis by blast
qed

lemma text_delta:
  assumes "said s r t"
  shows "\<exists>s'. data_step fresh loads (delta_data [(''content'', PStr p)]) s = (s', Inr ()) \<and> said s' r (t @ p)"
proof -
  have "data_step fresh loads (delta_data [(''content'', PStr p)]) s = (text_step (PStr p) s, Inr ())"
    by (simp add: data_step_def choice_step_def delta_data_def reasoning_of_def py_or_else_def py_or_def Let_def
        delta_tool_calls_def tools_step_def finish_step_def reasoning_step_def)
  moreover have "said (text_step (PStr p) s) r (t @ p)"
    using assms
    by (auto simp: said_def text_step_def open_text_def close_thinking_def emit_def assemble_append r_blocks_def t_blocks_def Let_def)
  ultimately show ?thesis by blast
qed

lemma said_all:
  assumes "said s r []"
  shows "\<exists>s'. forA (data_step fresh loads) (map (\<lambda>p. delta_data [(''reasoning_content'', PStr p)]) ps) s = (s', Inr ())
    \<and> said s' (r @ concat ps) []"
  using assms
proof (induction ps arbitrary: s r)
  case (Cons p ps)
  from reasoning_delta [OF Cons.prems] obtain s' where s': "data_step fresh loads
      (delta_data [(''reasoning_content'', PStr p)]) s = (s', Inr ())" "said s' (r @ p) []" by blast
  from Cons.IH [OF s'(2)] show ?case by (simp add: thenA_def bindA_def s'(1))
qed simp

lemma text_all:
  assumes "said s r t"
  shows "\<exists>s'. forA (data_step fresh loads) (map (\<lambda>p. delta_data [(''content'', PStr p)]) ps) s = (s', Inr ())
    \<and> said s' r (t @ concat ps)"
  using assms
proof (induction ps arbitrary: s t)
  case (Cons p ps)
  from text_delta [OF Cons.prems] obtain s' where s': "data_step fresh loads
      (delta_data [(''content'', PStr p)]) s = (s', Inr ())" "said s' r (t @ p)" by blast
  from Cons.IH [OF s'(2)] show ?case by (simp add: thenA_def bindA_def s'(1))
qed simp

text \<open>Before a call: \<open>B\<close> is assembled, and \<open>K\<close> are the ids of the calls so far.\<close>

definition ready :: "conversion \<Rightarrow> assembled \<Rightarrow> string set \<Rightarrow> bool" where
  "ready s B K \<longleftrightarrow> assemble (events s) = B \<and> next_index s = length B \<and> \<not> (thinking_block_open s \<and> text_block_open s)
     \<and> (\<forall>k. dget (tracked_tool_calls s) (PStr k) \<noteq> None \<longrightarrow> k \<in> K)
     \<and> named_started {} (tracked_tool_calls s)"

definition no_text_open :: "conversion \<Rightarrow> bool" where
  "no_text_open s \<longleftrightarrow> \<not> thinking_block_open s \<and> \<not> text_block_open s"

lemma said_ready: "said s r t \<Longrightarrow> ready s (r_blocks r @ t_blocks t) {}"
  by (auto simp: said_def ready_def next_index_def r_blocks_def t_blocks_def named_started_def)

lemma ready_close:
  assumes "ready s B K"
  shows "ready (close_text (close_thinking s)) B K" "no_text_open (close_text (close_thinking s))"
  using assms by (auto simp: ready_def no_text_open_def next_index_def close_text_def close_thinking_def emit_def assemble_append)

text \<open>In a call: \<open>done\<close> of its arguments was sent.\<close>

definition in_call :: "(string \<Rightarrow> py option) \<Rightarrow> conversion \<Rightarrow> assembled \<Rightarrow> string set \<Rightarrow> nat \<Rightarrow> completion_call \<Rightarrow> string \<Rightarrow> bool" where
  "in_call loads s B K i c sent \<longleftrightarrow> no_text_open s
     \<and> ready s (B @ [(Tool_Block (PStr (cc_id c)) (PStr (cc_name c)), sent)]) (insert (cc_id c) K)
     \<and> dget (index_to_tool_id s) (PInt (int i)) = Some (PStr (cc_id c))
     \<and> (\<exists>t. dget (tracked_tool_calls s) (PStr (cc_id c)) = Some t \<and> tc_started t \<and> truthy (tc_name t)
          \<and> block_index t = int (length B) \<and> tc_arguments t = sent \<and> (tc_stopped t \<longrightarrow> loads sent \<noteq> None))"

lemma feed_in_call:
  assumes "in_call loads s B K i c sent" "call_ok loads c" "prefix (sent @ p) (concat (cc_pieces c))"
  shows "\<exists>s'. arguments_step loads (PStr (cc_id c)) (PStr p) s = (s', Inr ()) \<and> in_call loads s' B K i c (sent @ p)"
proof (cases "p = []")
  case True
  with assms(1) show ?thesis by simp
next
  case False
  let ?k = "PStr (cc_id c)"
  from assms(1) obtain t where t: "dget (tracked_tool_calls s) ?k = Some t" "tc_started t" "truthy (tc_name t)"
      "block_index t = int (length B)" "tc_arguments t = sent" "tc_stopped t \<longrightarrow> loads sent \<noteq> None"
    by (auto simp: in_call_def)
  have "strict_prefix sent (concat (cc_pieces c))"
    using assms(3) False by (auto simp: strict_prefix_def prefix_def)
  with assms(2) t(6) have run: "\<not> tc_stopped t" by (auto simp: call_ok_def)
  let ?s = "feed_tool loads ?k p s"
  have at: "tool_at ?k (change_tool ?k (\<lambda>t. t\<lparr>tc_arguments := tc_arguments t @ p\<rparr>) s) = t\<lparr>tc_arguments := sent @ p\<rparr>"
    using t by (simp add: tool_at_def)
  from assms(1) have s: "assemble (events s) = B @ [(Tool_Block ?k (PStr (cc_name c)), sent)]"
      "no_text_open s" "current_block_index s = Suc (length B)"
    by (auto simp: in_call_def ready_def next_index_def no_text_open_def)
  have built: "assemble (events ?s) = B @ [(Tool_Block ?k (PStr (cc_name c)), sent @ p)]"
    using s(1) run t(2,4) at
    by (simp add: feed_tool_def Let_def running_def emit_def assemble_append change_tool_def list_update_append nth_append)
  obtain f where f: "\<forall>t. tc_started (f t) = tc_started t \<and> tc_name (f t) = tc_name t"
      "tracked_tool_calls ?s = AList.map_entry ?k f (tracked_tool_calls s)"
    using tracked_feed by blast
  have named: "named_started {} (tracked_tool_calls ?s) = named_started {} (tracked_tool_calls s)"
    using f t(1) by (auto simp: named_started_def split: if_splits)
  have keys: "dget (tracked_tool_calls ?s) k = None \<longleftrightarrow> dget (tracked_tool_calls s) k = None" for k
    using f(2) t(1) by simp
  have tool: "dget (tracked_tool_calls ?s) ?k = Some (t\<lparr>tc_arguments := sent @ p, tc_stopped := loads (sent @ p) \<noteq> None\<rparr>)"
    using t run at by (auto simp: feed_tool_def Let_def running_def)
  have "in_call loads ?s B K i c (sent @ p)"
    using assms(1) s(2,3) built named keys tool t
    by (auto simp: in_call_def ready_def next_index_def no_text_open_def)
  with False show ?thesis by auto
qed

lemma call_steps:
  assumes "in_call loads s B K i c sent" "call_ok loads c" "sent @ concat ps = concat (cc_pieces c)"
  shows "\<exists>s'. forA (data_step fresh loads) (map (\<lambda>p. call_delta i [] [(''arguments'', PStr p)]) ps) s = (s', Inr ())
    \<and> in_call loads s' B K i c (concat (cc_pieces c))"
  using assms(1,3)
proof (induction ps arbitrary: s sent)
  case (Cons p ps)
  have open0: "\<not> thinking_block_open s" "\<not> text_block_open s" using Cons.prems(1) by (auto simp: in_call_def no_text_open_def)
  from Cons.prems(1) obtain t where t: "dget (tracked_tool_calls s) (PStr (cc_id c)) = Some t" "tc_started t"
    by (auto simp: in_call_def)
  have "prefix (sent @ p) (concat (cc_pieces c))" using Cons.prems(2) by (metis append_assoc concat.simps(2) prefixI)
  from feed_in_call [OF Cons.prems(1) assms(2) this] obtain s' where
    s': "arguments_step loads (PStr (cc_id c)) (PStr p) s = (s', Inr ())" "in_call loads s' B K i c (sent @ p)" by blast
  have index: "dget (index_to_tool_id s) (PInt (int i)) = Some (PStr (cc_id c))"
    using Cons.prems(1) by (simp add: in_call_def)
  have "data_step fresh loads (call_delta i [] [(''arguments'', PStr p)]) s = (s', Inr ())"
    using open0 t index s'(1)
    by (simp add: data_step_def choice_step_def call_delta_def delta_data_def reasoning_of_def py_or_else_def py_or_def
        Let_def delta_tool_calls_def tools_step_def finish_step_def reasoning_step_def text_step_def tool_step_def
        find_tool_def need_key_def close_thinking_def close_text_def name_tool_def begin_tool_def tool_at_def thenA_def bindA_def)
  moreover from Cons.prems(2) have "(sent @ p) @ concat ps = concat (cc_pieces c)" by simp
  from Cons.IH [OF s'(2) this] obtain s2 where
    "forA (data_step fresh loads) (map (\<lambda>p. call_delta i [] [(''arguments'', PStr p)]) ps) s' = (s2, Inr ())"
    "in_call loads s2 B K i c (concat (cc_pieces c))" by blast
  ultimately show ?case by (auto simp: thenA_def bindA_def)
qed simp

lemma first_call_delta:
  assumes "ready s B K" "call_ok loads c" "cc_id c \<notin> K"
  shows "\<exists>s'. data_step fresh loads (hd (call_data i c)) s = (s', Inr ()) \<and> in_call loads s' B K i c (hd (cc_pieces c))"
proof -
  let ?s = "close_text (close_thinking s)"
  let ?k = "PStr (cc_id c)" and ?n = "PStr (cc_name c)"
  note r = ready_close [OF assms(1)]
  from assms(2) have ne: "cc_id c \<noteq> []" "cc_name c \<noteq> []" "cc_pieces c \<noteq> []" by (auto simp: call_ok_def)
  from r(1) assms(3) have new: "dget (tracked_tool_calls ?s) ?k = None" by (auto simp: ready_def)
  let ?t = "\<lparr>tc_id = ?k, tc_name = ?n, tc_arguments = [], block_index = int (length B), tc_started = True, tc_stopped = False\<rparr>"
  let ?u = "begin_tool ?k (name_tool ?k ?n (set_index (PInt (int i)) ?k (track ?k ?n ?s)))"
  from r have cur: "current_block_index ?s = length B" by (auto simp: ready_def next_index_def no_text_open_def)
  have T: "tracked_tool_calls ?u = AList.map_entry ?k (\<lambda>t. t\<lparr>block_index := int (length B), tc_started := True\<rparr>)
        (dset ?k (new_tool ?k ?n) (tracked_tool_calls s))"
    using new ne cur
    by (simp add: track_def set_index_def name_tool_def begin_tool_def tool_at_def new_tool_def Let_def change_tool_def)
  have "in_call loads ?u B K i c []"
    unfolding in_call_def
  proof (intro conjI)
    show "no_text_open ?u" using r(2) new by (simp add: no_text_open_def set_index_def track_def)
    show "dget (index_to_tool_id ?u) (PInt (int i)) = Some ?k" by (simp add: set_index_def)
    show "\<exists>t. dget (tracked_tool_calls ?u) ?k = Some t \<and> tc_started t \<and> truthy (tc_name t)
        \<and> block_index t = int (length B) \<and> tc_arguments t = [] \<and> (tc_stopped t \<longrightarrow> loads [] \<noteq> None)"
      unfolding T using ne by (simp add: new_tool_def)
    have "assemble (events ?u) = B @ [(Tool_Block ?k ?n, [])]"
      using r new ne
      by (simp add: ready_def track_def set_index_def name_tool_def begin_tool_def tool_at_def new_tool_def Let_def
          change_tool_def assemble_append)
    moreover have "next_index ?u = Suc (length B)" "\<not> (thinking_block_open ?u \<and> text_block_open ?u)"
      using r new ne cur
      by (simp_all add: no_text_open_def next_index_def track_def set_index_def name_tool_def begin_tool_def tool_at_def
          new_tool_def Let_def change_tool_def)
    moreover have "named_started {} (tracked_tool_calls ?u)"
      using assms(1) unfolding T by (auto simp: named_started_def ready_def split: if_splits)
    moreover have "\<forall>k. dget (tracked_tool_calls ?u) (PStr k) \<noteq> None \<longrightarrow> k \<in> insert (cc_id c) K"
      using assms(1) unfolding T by (auto simp: ready_def split: if_splits)
    ultimately show "ready ?u (B @ [(Tool_Block ?k ?n, [])]) (insert (cc_id c) K)" by (simp add: ready_def)
  qed
  moreover have "prefix ([] @ hd (cc_pieces c)) (concat (cc_pieces c))" using ne(3) by (cases "cc_pieces c") auto
  ultimately obtain s' where s': "arguments_step loads ?k (PStr (hd (cc_pieces c))) ?u = (s', Inr ())"
      "in_call loads s' B K i c (hd (cc_pieces c))"
    using feed_in_call [OF _ assms(2), of ?u B K i "[]"] by auto
  have "data_step fresh loads (hd (call_data i c)) s = (s', Inr ())"
    using s'(1) ne(1)
    by (simp add: data_step_def choice_step_def call_data_def call_delta_def delta_data_def reasoning_of_def py_or_else_def py_or_def
        Let_def delta_tool_calls_def tools_step_def finish_step_def reasoning_step_def text_step_def tool_step_def
        find_tool_def need_key_def thenA_def bindA_def)
  with s'(2) show ?thesis by blast
qed

definition call_block :: "completion_call \<Rightarrow> block \<times> string" where
  "call_block c = (Tool_Block (PStr (cc_id c)) (PStr (cc_name c)), concat (cc_pieces c))"

lemma one_call:
  assumes "ready s B K" "call_ok loads c" "cc_id c \<notin> K"
  shows "\<exists>s'. forA (data_step fresh loads) (call_data i c) s = (s', Inr ()) \<and> ready s' (B @ [call_block c]) (insert (cc_id c) K)"
proof -
  from first_call_delta [OF assms] obtain s1 where
    s1: "data_step fresh loads (hd (call_data i c)) s = (s1, Inr ())" "in_call loads s1 B K i c (hd (cc_pieces c))" by blast
  have "hd (cc_pieces c) @ concat (tl (cc_pieces c)) = concat (cc_pieces c)"
    using assms(2) by (cases "cc_pieces c") (auto simp: call_ok_def)
  from call_steps [OF s1(2) assms(2) this, of fresh] obtain s2 where
    s2: "forA (data_step fresh loads) (tl (call_data i c)) s1 = (s2, Inr ())"
        "in_call loads s2 B K i c (concat (cc_pieces c))"
    by (auto simp: call_data_def)
  have "call_data i c = hd (call_data i c) # tl (call_data i c)" by (simp add: call_data_def)
  with s1(1) s2(1) have "forA (data_step fresh loads) (call_data i c) s = (s2, Inr ())"
    by (metis forA.simps(2) thenA_Inr)
  with s2(2) show ?thesis by (auto simp: in_call_def call_block_def)
qed

lemma all_calls:
  assumes "ready s B K" "\<forall>c \<in> set cs. call_ok loads c" "distinct (map cc_id cs)" "cc_id ` set cs \<inter> K = {}"
  shows "\<exists>s' K'. forA (data_step fresh loads) (concat (map (\<lambda>(i, c). call_data i c) (enumerate n cs))) s = (s', Inr ())
    \<and> ready s' (B @ map call_block cs) K'"
  using assms
proof (induction cs arbitrary: s B K n)
  case (Cons c cs)
  from one_call [of s B K loads c fresh n] Cons.prems obtain s1 where
    s1: "forA (data_step fresh loads) (call_data n c) s = (s1, Inr ())"
        "ready s1 (B @ [call_block c]) (insert (cc_id c) K)" by auto
  from Cons.IH [OF s1(2), of "Suc n"] Cons.prems obtain s2 K' where
    "forA (data_step fresh loads) (concat (map (\<lambda>(i, c). call_data i c) (enumerate (Suc n) cs))) s1 = (s2, Inr ())"
    "ready s2 ((B @ [call_block c]) @ map call_block cs) K'" by auto
  with s1(1) show ?case by (auto simp: forA_append thenA_def bindA_def)
qed auto

lemma finish_delta:
  assumes "ready s B K"
  shows "\<exists>s'. data_step fresh loads (finish_data r) s = (s', Inr ()) \<and> ready s' B K \<and> stop_reason s' = stop_reason_of (PStr r)"
proof -
  have "data_step fresh loads (finish_data r) s = (s\<lparr>stop_reason := stop_reason_of (PStr r)\<rparr>, Inr ())"
    by (simp add: data_step_def choice_step_def finish_data_def reasoning_of_def py_or_else_def py_or_def Let_def
        delta_tool_calls_def tools_step_def finish_step_def reasoning_step_def text_step_def)
  with assms show ?thesis by (simp add: ready_def next_index_def)
qed

text \<open>What follows the loop adds no content.\<close>

lemma stop_tools_content:
  "assemble (events (foldl stop_tool s ks)) = assemble (events s) \<and> stop_reason (foldl stop_tool s ks) = stop_reason s"
proof (induction ks arbitrary: s)
  case (Cons k ks)
  have "assemble (events (stop_tool s k)) = assemble (events s) \<and> stop_reason (stop_tool s k) = stop_reason s"
    by (simp add: stop_tool_def Let_def assemble_append emit_def)
  with Cons show ?case by simp
qed simp

lemma flush_none:
  assumes "named_started {} (tracked_tool_calls s)"
  shows "foldl flush_tool s ks = s"
proof (induction ks)
  case (Cons k ks)
  have "flush_tool s k = s"
    using assms by (auto simp: flush_tool_def tool_at_def Let_def named_started_def new_tool_def split: option.splits)
  with Cons show ?case by simp
qed simp

lemma finish_content:
  assumes "ready s B K"
  shows "\<exists>es u. events (finish_stream s) = es @ [Message_Delta (stop_reason s) u, Message_Stop] \<and> assemble es = B"
proof -
  let ?s = "close_thinking s"
  have s: "assemble (events ?s) = B" "named_started {} (tracked_tool_calls ?s)" "stop_reason ?s = stop_reason s"
    using assms by (auto simp: ready_def close_thinking_def emit_def assemble_append)
  let ?t = "foldl stop_tool (stop_text ?s) (dkeys (tracked_tool_calls ?s))"
  have "assemble (events ?t) = B \<and> stop_reason ?t = stop_reason s"
    using stop_tools_content [of "stop_text ?s"] s by (simp add: stop_text_def emit_def assemble_append)
  then show ?thesis by (auto simp: finish_stream_def Let_def flush_none [OF s(2)])
qed

section \<open>Properties\<close>

text \<open>C31: the stream and the response agree, under these conditions. A completion is sent as pieces of reasoning, then
  of text, then the tool calls one after the other, each with its id and name in its first delta and its arguments in any
  number of pieces; the ids are distinct, ids and names not empty, and the arguments parse as JSON only when complete. The
  chunks hold these data as whole lines: each chunk, read line by line on its own, gives some of them, in order. Then a
  client assembles from the events the reasoning and the text, where there is any, and every tool call with its id, its
  name and its arguments; this is the content of the response that is not streamed, and both give the stop reason
  \<open>max_tokens\<close> for \<open>length\<close>, \<open>tool_use\<close> for \<open>tool_calls\<close> and \<open>end_turn\<close> for any other.\<close>

theorem anthropic_stream_agrees_with_response:
  assumes "completion_ok loads c" and "stream_data loads decode chunks = completion_data c"
  shows "\<exists>es u items stop. openai_stream_to_anthropic_stream fresh loads decode model tokens chunks
      = es @ [Message_Delta stop u, Message_Stop]
    \<and> assemble es = (if concat (reasoning_pieces c) = [] then [] else [(Thinking_Block, concat (reasoning_pieces c))])
        @ (if concat (text_pieces c) = [] then [] else [(Text_Block, concat (text_pieces c))])
        @ map (\<lambda>k. (Tool_Block (PStr (cc_id k)) (PStr (cc_name k)), concat (cc_pieces k))) (calls c)
    \<and> convert_openai_to_anthropic_response fresh loads (completion_response c) model tokens = Inr items
    \<and> dget items ''content'' = Some (PList (map (block_value loads) (assemble es)))
    \<and> dget items ''stop_reason'' = Some (PStr stop)
    \<and> stop = (if reason c = ''length'' then ''max_tokens'' else if reason c = ''tool_calls'' then ''tool_use''
        else ''end_turn'')"
proof -
  let ?run = "forA (data_step fresh loads)"
  let ?r = "concat (reasoning_pieces c)" and ?t = "concat (text_pieces c)"
  let ?B = "r_blocks ?r @ t_blocks ?t @ map call_block (calls c)"
  have "said (new_conversion fresh model tokens) [] []"
    by (simp add: said_def new_conversion_def assemble_def r_blocks_def t_blocks_def)
  from said_all [OF this, of fresh loads "reasoning_pieces c"] obtain s1 where s1: "?run (map (\<lambda>p. delta_data [(''reasoning_content'', PStr p)])
      (reasoning_pieces c)) (new_conversion fresh model tokens) = (s1, Inr ())" "said s1 ?r []" by auto
  from text_all [OF s1(2), of fresh loads "text_pieces c"] obtain s2 where s2: "?run (map (\<lambda>p. delta_data [(''content'', PStr p)])
      (text_pieces c)) s1 = (s2, Inr ())" "said s2 ?r ?t" by auto
  from all_calls [OF said_ready [OF s2(2)], of "calls c" loads fresh 0] assms(1) obtain s3 K where
    s3: "?run (concat (map (\<lambda>(i, k). call_data i k) (enumerate 0 (calls c)))) s2 = (s3, Inr ())" "ready s3 ?B K"
    by (auto simp: completion_ok_def)
  from finish_delta [OF s3(2)] obtain s4 where
    s4: "data_step fresh loads (finish_data (reason c)) s3 = (s4, Inr ())" "ready s4 ?B K"
        "stop_reason s4 = stop_reason_of (PStr (reason c))" by blast
  have "?run (completion_data c) (new_conversion fresh model tokens) = (s4, Inr ())"
    unfolding completion_data_def forA_append using s1(1) s2(1) s3(1) s4(1) by (simp add: thenA_def bindA_def)
  then have "openai_stream_to_anthropic_stream fresh loads decode model tokens chunks = events (finish_stream s4)"
    by (simp add: openai_stream_to_anthropic_stream_def read_stream_data assms(2))
  moreover from finish_content [OF s4(2)] s4(3) obtain es u where
    "events (finish_stream s4) = es @ [Message_Delta (stop_reason_of (PStr (reason c))) u, Message_Stop]"
    "assemble es = ?B" by auto
  moreover have "tool_content fresh loads [(''role'', PStr ''assistant''), (''reasoning_content'', PStr ?r), (''content'', PStr ?t),
      (''tool_calls'', PList (map call_value (calls c)))] = Inr (map (block_value loads \<circ> call_block) (calls c))"
  proof -
    have "listR (\<lambda>(k, tc). tool_use_item loads (fresh k) tc) (enumerate n (map call_value cs))
        = Inr (map (block_value loads \<circ> call_block) cs)" for n cs
      by (induction cs arbitrary: n)
         (simp_all add: tool_use_item_def call_value_def call_block_def load_arguments_def)
    then show ?thesis by (simp add: tool_content_def field_def py_or_def)
  qed
  ultimately show ?thesis
    by (simp add: convert_openai_to_anthropic_response_def completion_response_def response_choice_def field_def
        thinking_content_def text_content_def r_blocks_def t_blocks_def py_or_def response_usage_def read_usage_def Let_def
        stop_reason_of_def call_block_def)
qed

definition demo_completion :: completion where
  "demo_completion = \<lparr>reasoning_pieces = [''why''], text_pieces = [''Hi''],
     calls = [\<lparr>cc_id = ''c1'', cc_name = ''f'', cc_pieces = [[], ''{}'']\<rparr>], reason = ''tool_calls''\<rparr>"

text \<open>The texts \<open>0\<close> to \<open>4\<close> stand for the data of the completion.\<close>

definition completion_loads :: "string \<Rightarrow> py option" where
  "completion_loads t = (if t = ''{}'' then Some (PDict [])
     else find (\<lambda>d. True) (concat (map (\<lambda>(i, d). if t = str_int i then [d] else [])
       (zip [0, 1, 2, 3, 4] (completion_data demo_completion)))))"

definition completion_chunks :: "unit stream_chunk list" where
  "completion_chunks = map (\<lambda>i. Chunk_Text (''data: '' @ str_int i)) [0, 1, 2, 3, 4]"

lemma demo_completion_data:
  "stream_data completion_loads (\<lambda>_. []) completion_chunks = completion_data demo_completion"
  by code_simp

text \<open>A chunk that ends inside a line loses it: each chunk is split into lines on its own.\<close>

lemma cut_line_is_lost:
  "stream_data completion_loads (\<lambda>_. []) [Chunk_Text ''data: 0''] = [delta_data [(''reasoning_content'', PStr ''why'')]]"
  "openai_stream_to_anthropic_stream fresh completion_loads (\<lambda>_. []) model tokens
     [Chunk_Text ''data: '', Chunk_Text ''0'' :: unit stream_chunk] =
   openai_stream_to_anthropic_stream fresh completion_loads (\<lambda>_. []) model tokens ([] :: unit stream_chunk list)"
proof -
  show "stream_data completion_loads (\<lambda>_. []) [Chunk_Text ''data: 0''] = [delta_data [(''reasoning_content'', PStr ''why'')]]"
    by code_simp
  have cut: "stream_data completion_loads (\<lambda>_. []) [Chunk_Text ''data: '', Chunk_Text ''0'' :: unit stream_chunk] = []"
    by code_simp
  have none: "stream_data completion_loads (\<lambda>_. []) ([] :: unit stream_chunk list) = []"
    by (simp add: stream_data_def)
  show "openai_stream_to_anthropic_stream fresh completion_loads (\<lambda>_. []) model tokens
     [Chunk_Text ''data: '', Chunk_Text ''0'' :: unit stream_chunk] =
   openai_stream_to_anthropic_stream fresh completion_loads (\<lambda>_. []) model tokens ([] :: unit stream_chunk list)"
    by (simp only: openai_stream_to_anthropic_stream_def read_stream_data cut none)
qed

lemma anthropic_stream_agrees_with_response_witness:
  "\<exists>es u items. openai_stream_to_anthropic_stream demo_fresh completion_loads (\<lambda>_. []) ''m'' PNone completion_chunks
      = es @ [Message_Delta ''tool_use'' u, Message_Stop]
    \<and> convert_openai_to_anthropic_response demo_fresh completion_loads (completion_response demo_completion) ''m'' PNone
      = Inr items
    \<and> dget items ''content'' = Some (PList (map (block_value completion_loads) (assemble es)))
    \<and> dget items ''stop_reason'' = Some (PStr ''tool_use'')"
proof -
  have "completion_loads [] = None" "completion_loads ''{'' = None" by code_simp+
  moreover have "p = [] \<or> p = ''{''" if "strict_prefix p ''{}''" for p
    using that by (auto simp: strict_prefix_def prefix_Cons)
  ultimately have "completion_ok completion_loads demo_completion"
    by (auto simp: completion_ok_def call_ok_def demo_completion_def)
  from anthropic_stream_agrees_with_response [OF this demo_completion_data, of demo_fresh "''m''" PNone]
  show ?thesis by (auto simp: demo_completion_def)
qed

end
