(* ===== verification/Anthropic_Request.thy ===== *)
theory Anthropic_Request
  imports Py_Action
begin

text \<open>
  \<open>convert_anthropic_to_openai_payload\<close> of \<open>utils/anthropic.py\<close>: a request of the Anthropic Messages
  API as a request of OpenAI's chat completions. A request is a dict; \<open>str_of\<close> is Python's \<open>str\<close> on
  values that are not strings, \<open>dumps\<close> is \<open>json.dumps\<close>.
\<close>

section \<open>Content blocks\<close>

definition copy_cache_control :: "py \<Rightarrow> pydict \<Rightarrow> pydict" where
  "copy_cache_control source target =
     (case source of
       PDict s \<Rightarrow> (case dget s ''cache_control'' of Some c \<Rightarrow> dset ''cache_control'' c target | None \<Rightarrow> target)
     | _ \<Rightarrow> target)"

fun has_cache_control :: "py \<Rightarrow> bool" where
  "has_cache_control (PDict b) = (dget b ''cache_control'' \<noteq> None)"
| "has_cache_control _ = False"

definition finalize_openai_content :: "pydict list \<Rightarrow> py" where
  "finalize_openai_content bs =
     (case bs of
       [] \<Rightarrow> PStr []
     | [b] \<Rightarrow> (if field b ''type'' = PStr ''text'' \<and> \<not> has_cache_control (PDict b)
              then (case dget b ''text'' of Some t \<Rightarrow> t | None \<Rightarrow> PStr [])
              else PList [PDict b])
     | _ \<Rightarrow> PList (map PDict bs))"

definition text_part :: "pydict \<Rightarrow> pydict" where
  "text_part b = copy_cache_control (PDict b) [(''type'', PStr ''text''), (''text'', get_or b ''text'' (PStr []))]"

definition image_part :: "(py \<Rightarrow> string) \<Rightarrow> pydict \<Rightarrow> pydict list result" where
  "image_part str_of b =
     (let source = get_or b ''source'' (PDict []);
          part = (\<lambda>url. copy_cache_control (PDict b) [(''type'', PStr ''image_url''), (''image_url'', PDict [(''url'', url)])]) in
      bindR (py_get source ''type'') (\<lambda>t.
      if t = PStr ''base64''
      then bindR (py_get_or source ''media_type'' (PStr ''image/png'')) (\<lambda>m.
           bindR (py_get_or source ''data'' (PStr [])) (\<lambda>d.
           Inr [part (PStr (''data:'' @ fmt str_of m @ '';base64,'' @ fmt str_of d))]))
      else if t = PStr ''url''
      then bindR (py_get_or source ''url'' (PStr [])) (\<lambda>u. Inr [part u])
      else Inr []))"

definition tool_use_call :: "(py \<Rightarrow> string) \<Rightarrow> (py \<Rightarrow> string) \<Rightarrow> pydict \<Rightarrow> pydict" where
  "tool_use_call str_of dumps b =
     [(''id'', get_or b ''id'' (PStr [])), (''type'', PStr ''function''),
      (''function'', PDict [(''name'', get_or b ''name'' (PStr [])),
        (''arguments'', PStr (if is_dict (field b ''input'') then dumps (field b ''input'')
           else fmt str_of (get_or b ''input'' (PStr ''{}''))))])]"

section \<open>Tool results\<close>

definition document_part :: "(py \<Rightarrow> string) \<Rightarrow> pydict \<Rightarrow> pydict result" where
  "document_part str_of b =
     (let source = get_or b ''source'' (PDict []); title = get_or b ''title'' (PStr ''Document'');
          context_text = get_or b ''context'' (PStr []);
          head_text = ''[Document: '' @ fmt str_of title @ '']''
            @ (if truthy context_text then line_feed @ fmt str_of context_text else []) in
      bindR (py_get source ''type'') (\<lambda>t.
      bindR (py_get source ''data'') (\<lambda>d.
      Inr [(''type'', PStr ''text''),
           (''text'', PStr (head_text @ (if t = PStr ''text'' \<and> truthy d then line_feed @ fmt str_of d else [])))])))"

fun search_block_text :: "py \<Rightarrow> py list" where
  "search_block_text (PDict b) = (if field b ''type'' = PStr ''text'' then [get_or b ''text'' (PStr [])] else [])"
| "search_block_text _ = []"

definition search_part :: "(py \<Rightarrow> string) \<Rightarrow> pydict \<Rightarrow> pydict result" where
  "search_part str_of b =
     (let title = get_or b ''title'' (PStr []); url = get_or b ''source'' (PStr []) in
      bindR (py_iter (get_or b ''content'' (PList []))) (\<lambda>bs.
      bindR (join_lines (concat (map search_block_text bs))) (\<lambda>body.
      Inr [(''type'', PStr ''text''),
           (''text'', PStr (''[Search Result: '' @ fmt str_of title @ '']''
              @ (if truthy url then line_feed @ ''Source: '' @ fmt str_of url else [])
              @ (if body \<noteq> [] then line_feed @ body else [])))])))"

fun result_parts :: "(py \<Rightarrow> string) \<Rightarrow> py \<Rightarrow> pydict list result" where
  "result_parts str_of (PDict b) =
     (let t = get_or b ''type'' (PStr ''text'') in
      if t = PStr ''text'' then Inr [text_part b]
      else if t = PStr ''image'' then image_part str_of b
      else if t = PStr ''document'' then mapR (\<lambda>p. [p]) (document_part str_of b)
      else if t = PStr ''search_result'' then mapR (\<lambda>p. [p]) (search_part str_of b)
      else Inr [])"
| "result_parts str_of _ = Inr []"

definition tool_result_content :: "(py \<Rightarrow> string) \<Rightarrow> py \<Rightarrow> py result" where
  "tool_result_content str_of content =
     (case content of
       PStr s \<Rightarrow> Inr (PStr s)
     | PList bs \<Rightarrow> bindR (listR (result_parts str_of) bs) (\<lambda>ps. let parts = concat ps in
         if list_all (\<lambda>p. field p ''type'' = PStr ''text'') parts \<and> \<not> list_ex (\<lambda>p. has_cache_control (PDict p)) parts
         then mapR PStr (join_lines (map (\<lambda>p. get_or p ''text'' (PStr [])) parts))
         else Inr (PList (map PDict parts)))
     | _ \<Rightarrow> Inr (PStr []))"

definition mark_error :: "py \<Rightarrow> py" where
  "mark_error c =
     (case c of
       PStr s \<Rightarrow> PStr (''Error: '' @ s)
     | PList ps \<Rightarrow> PList (PDict [(''type'', PStr ''text''), (''text'', PStr ''Error: '')] # ps)
     | _ \<Rightarrow> c)"

definition tool_result_message :: "(py \<Rightarrow> string) \<Rightarrow> pydict \<Rightarrow> pydict result" where
  "tool_result_message str_of b =
     bindR (tool_result_content str_of (get_or b ''content'' (PStr []))) (\<lambda>c.
     Inr [(''role'', PStr ''tool''), (''tool_call_id'', get_or b ''tool_use_id'' (PStr [])),
          (''content'', if truthy (field b ''is_error'') then mark_error c else c)])"

section \<open>Messages\<close>

text \<open>What the blocks of a message have given so far: the parts of its content, its tool calls and the
  tool messages that stand before it.\<close>

record message_parts =
  openai_content :: "pydict list"
  tool_calls :: "pydict list"
  tool_messages :: "pydict list"

definition no_parts :: message_parts where
  "no_parts = \<lparr>openai_content = [], tool_calls = [], tool_messages = []\<rparr>"

definition convert_block :: "(py \<Rightarrow> string) \<Rightarrow> (py \<Rightarrow> string) \<Rightarrow> message_parts \<Rightarrow> py \<Rightarrow> message_parts result" where
  "convert_block str_of dumps p block =
     (case block of
       PDict b \<Rightarrow>
         let t = get_or b ''type'' (PStr ''text'') in
         if t = PStr ''text'' then Inr (p\<lparr>openai_content := openai_content p @ [text_part b]\<rparr>)
         else if t = PStr ''thinking'' \<or> t = PStr ''redacted_thinking''
         then Inr (p\<lparr>openai_content := openai_content p @ [copy_cache_control (PDict b) b]\<rparr>)
         else if t = PStr ''image''
         then mapR (\<lambda>i. p\<lparr>openai_content := openai_content p @ i\<rparr>) (image_part str_of b)
         else if t = PStr ''tool_use'' then Inr (p\<lparr>tool_calls := tool_calls p @ [tool_use_call str_of dumps b]\<rparr>)
         else if t = PStr ''tool_result''
         then mapR (\<lambda>m. p\<lparr>tool_messages := tool_messages p @ [m]\<rparr>) (tool_result_message str_of b)
         else Inr p
     | _ \<Rightarrow> Inl AttributeError)"

definition own_message :: "py \<Rightarrow> message_parts \<Rightarrow> pydict list" where
  "own_message role p =
     (if tool_calls p \<noteq> []
      then [[(''role'', role), (''content'', finalize_openai_content (openai_content p)),
             (''tool_calls'', PList (map PDict (tool_calls p)))]]
      else if openai_content p \<noteq> []
      then [[(''role'', role), (''content'', finalize_openai_content (openai_content p))]]
      else [])"

definition anthropic_message :: "(py \<Rightarrow> string) \<Rightarrow> (py \<Rightarrow> string) \<Rightarrow> py \<Rightarrow> pydict list result" where
  "anthropic_message str_of dumps msg =
     bindR (py_get_or msg ''role'' (PStr ''user'')) (\<lambda>role.
     bindR (py_get msg ''content'') (\<lambda>content.
     case content of
       PStr s \<Rightarrow> Inr [[(''role'', role), (''content'', PStr s)]]
     | PList bs \<Rightarrow> mapR (\<lambda>p. tool_messages p @ own_message role p) (foldR (convert_block str_of dumps) no_parts bs)
     | _ \<Rightarrow> Inr [[(''role'', role), (''content'', PStr (if truthy content then fmt str_of content else []))]]))"

fun system_block :: "py \<Rightarrow> pydict list" where
  "system_block (PDict b) = (if field b ''type'' = PStr ''text'' then [text_part b] else [])"
| "system_block (PStr s) = [[(''type'', PStr ''text''), (''text'', PStr s)]]"
| "system_block _ = []"

definition system_messages :: "py \<Rightarrow> pydict list" where
  "system_messages system =
     (if \<not> truthy system then []
      else case system of
        PStr s \<Rightarrow> [[(''role'', PStr ''system''), (''content'', PStr s)]]
      | PList bs \<Rightarrow> [[(''role'', PStr ''system''), (''content'', finalize_openai_content (concat (map system_block bs)))]]
      | _ \<Rightarrow> [])"

definition convert_messages :: "(py \<Rightarrow> string) \<Rightarrow> (py \<Rightarrow> string) \<Rightarrow> pydict \<Rightarrow> pydict list result" where
  "convert_messages str_of dumps payload =
     bindR (py_iter (get_or payload ''messages'' (PList []))) (\<lambda>ms.
     bindR (listR (anthropic_message str_of dumps) ms) (\<lambda>mss.
     Inr (system_messages (field payload ''system'') @ concat mss)))"

section \<open>Parameters\<close>

definition converted_params :: "string list" where
  "converted_params = [''model'', ''messages'', ''system'', ''max_tokens'', ''temperature'', ''top_p'', ''top_k'',
     ''stop_sequences'', ''stream'', ''metadata'', ''service_tier'', ''tools'', ''tool_choice'', ''reasoning_effort'']"

definition copy_param :: "string \<Rightarrow> string \<Rightarrow> pydict \<Rightarrow> pydict \<Rightarrow> pydict" where
  "copy_param k k' payload out = (case dget payload k of Some v \<Rightarrow> dset k' v out | None \<Rightarrow> out)"

text \<open>The names that the connection lets through: a list, or a text with commas.\<close>

definition passthrough_names :: "(py \<Rightarrow> string) \<Rightarrow> py \<Rightarrow> string list" where
  "passthrough_names str_of params =
     (let items = (case params of PStr s \<Rightarrow> map PStr (split_on (CHR '','') s) | PList xs \<Rightarrow> xs | _ \<Rightarrow> []) in
      filter (\<lambda>n. n \<noteq> []) (map (\<lambda>i. str_strip (fmt str_of i)) items))"

definition captured_params :: "pydict \<Rightarrow> pydict" where
  "captured_params payload = filter (\<lambda>(k, v). k \<notin> set converted_params) payload"

text \<open>The names form a set; the items are added here in the order of the request.\<close>

definition add_passthrough :: "(py \<Rightarrow> string) \<Rightarrow> py \<Rightarrow> pydict \<Rightarrow> pydict \<Rightarrow> pydict" where
  "add_passthrough str_of params payload out =
     (let names = passthrough_names str_of params in
      foldl (\<lambda>out (k, v). if ''*'' \<in> set names \<or> k \<in> set names then dset k v out else out) out (captured_params payload))"

definition add_output_format :: "py \<Rightarrow> pydict \<Rightarrow> pydict" where
  "add_output_format format_config out =
     (case format_config of
       PDict fc \<Rightarrow>
         if field fc ''type'' = PStr ''json_schema''
         then dset ''response_format'' (PDict [(''type'', PStr ''json_schema''),
            (''json_schema'', PDict (copy_param ''strict'' ''strict'' fc (copy_param ''description'' ''description'' fc
               [(''name'', get_or fc ''name'' (PStr ''response_schema'')), (''schema'', get_or fc ''schema'' (PDict []))])))]) out
         else if field fc ''type'' = PStr ''json_object''
         then dset ''response_format'' (PDict [(''type'', PStr ''json_object'')]) out
         else out
     | _ \<Rightarrow> out)"

definition add_output_config :: "pydict \<Rightarrow> pydict \<Rightarrow> pydict" where
  "add_output_config payload out =
     (case field payload ''output_config'' of
       PDict oc \<Rightarrow> add_output_format (field oc ''format'')
         (if dget payload ''reasoning_effort'' = None then copy_param ''effort'' ''reasoning_effort'' oc out else out)
     | _ \<Rightarrow> out)"

definition common_params :: "(string \<times> string) list" where
  "common_params = [(''temperature'', ''temperature''), (''top_p'', ''top_p''), (''top_k'', ''top_k''),
     (''stop_sequences'', ''stop''), (''stream'', ''stream''), (''metadata'', ''metadata''), (''service_tier'', ''service_tier'')]"

definition convert_tool :: "py \<Rightarrow> py result" where
  "convert_tool tool =
     (case tool of
       PDict t \<Rightarrow> Inr (PDict (copy_cache_control tool [(''type'', PStr ''function''),
          (''function'', PDict [(''name'', get_or t ''name'' (PStr [])), (''description'', get_or t ''description'' (PStr [])),
             (''parameters'', get_or t ''input_schema'' (PDict []))])]))
     | _ \<Rightarrow> Inl AttributeError)"

definition add_tools :: "pydict \<Rightarrow> pydict \<Rightarrow> pydict result" where
  "add_tools payload out =
     (case dget payload ''tools'' of
       None \<Rightarrow> Inr out
     | Some ts \<Rightarrow> bindR (py_iter ts) (\<lambda>ts. bindR (listR convert_tool ts) (\<lambda>tools. Inr (dset ''tools'' (PList tools) out))))"

definition add_tool_choice :: "pydict \<Rightarrow> pydict \<Rightarrow> pydict" where
  "add_tool_choice payload out =
     (case field payload ''tool_choice'' of
       PDict c \<Rightarrow>
         let t = get_or c ''type'' (PStr ''auto'') in
         if t = PStr ''auto'' then dset ''tool_choice'' (PStr ''auto'') out
         else if t = PStr ''any'' then dset ''tool_choice'' (PStr ''required'') out
         else if t = PStr ''tool''
         then dset ''tool_choice'' (PDict [(''type'', PStr ''function''),
                (''function'', PDict [(''name'', get_or c ''name'' (PStr []))])]) out
         else out
     | _ \<Rightarrow> out)"

definition convert_anthropic_to_openai_payload ::
  "(py \<Rightarrow> string) \<Rightarrow> (py \<Rightarrow> string) \<Rightarrow> pydict \<Rightarrow> py \<Rightarrow> pydict result" where
  "convert_anthropic_to_openai_payload str_of dumps payload params =
     bindR (convert_messages str_of dumps payload) (\<lambda>ms.
     let out = [(''model'', get_or payload ''model'' (PStr [])), (''messages'', PList (map PDict ms))];
         out = copy_param ''max_tokens'' ''max_tokens'' payload out;
         out = add_passthrough str_of params payload out;
         out = add_output_config payload out;
         out = copy_param ''reasoning_effort'' ''reasoning_effort'' payload out;
         out = foldl (\<lambda>out (k, k'). copy_param k k' payload out) out common_params
     in mapR (add_tool_choice payload) (add_tools payload out))"

section \<open>Lemmas\<close>

text \<open>The content blocks of a type in the messages of a request.\<close>

fun dict_items :: "py \<Rightarrow> pydict list" where
  "dict_items (PDict d) = [d]"
| "dict_items _ = []"

definition of_type :: "string \<Rightarrow> pydict \<Rightarrow> bool" where
  "of_type t b \<longleftrightarrow> get_or b ''type'' (PStr ''text'') = PStr t"

definition blocks_of_type :: "string \<Rightarrow> py list \<Rightarrow> pydict list" where
  "blocks_of_type t bs = filter (of_type t) (concat (map dict_items bs))"

fun message_blocks :: "py \<Rightarrow> py list" where
  "message_blocks (PDict m) = (case field m ''content'' of PList bs \<Rightarrow> bs | _ \<Rightarrow> [])"
| "message_blocks _ = []"

definition calls_of_message :: "pydict \<Rightarrow> py list" where
  "calls_of_message m = (case field m ''tool_calls'' of PList cs \<Rightarrow> cs | _ \<Rightarrow> [])"

definition answers_call :: "pydict \<Rightarrow> bool" where
  "answers_call m \<longleftrightarrow> dget m ''tool_call_id'' \<noteq> None"

lemma blocks_of_type_simps:
  "blocks_of_type t [] = []"
  "blocks_of_type t (b # bs) = blocks_of_type t [b] @ blocks_of_type t bs"
  by (simp_all add: blocks_of_type_def)

lemma convert_block_parts:
  assumes "convert_block str_of dumps p b = Inr q"
  shows "tool_calls q = tool_calls p @ map (tool_use_call str_of dumps) (blocks_of_type ''tool_use'' [b])"
    and "\<exists>ms. tool_messages q = tool_messages p @ ms
      \<and> listR (tool_result_message str_of) (blocks_of_type ''tool_result'' [b]) = Inr ms"
proof -
  from assms obtain d where d: "b = PDict d" by (cases b) (auto simp: convert_block_def)
  let ?t = "get_or d ''type'' (PStr ''text'')"
  from assms show "tool_calls q = tool_calls p @ map (tool_use_call str_of dumps) (blocks_of_type ''tool_use'' [b])"
    unfolding d convert_block_def py.case Let_def
    by (auto simp: blocks_of_type_def of_type_def split: if_splits)
  from assms show "\<exists>ms. tool_messages q = tool_messages p @ ms
      \<and> listR (tool_result_message str_of) (blocks_of_type ''tool_result'' [b]) = Inr ms"
    unfolding d convert_block_def py.case Let_def
    by (auto simp: blocks_of_type_def of_type_def split: if_splits)
qed

lemma convert_blocks_parts:
  assumes "foldR (convert_block str_of dumps) p bs = Inr q"
  shows "tool_calls q = tool_calls p @ map (tool_use_call str_of dumps) (blocks_of_type ''tool_use'' bs)
    \<and> (\<exists>ms. tool_messages q = tool_messages p @ ms
      \<and> listR (tool_result_message str_of) (blocks_of_type ''tool_result'' bs) = Inr ms)"
  using assms
proof (induction bs arbitrary: p)
  case Nil
  then show ?case by (simp add: blocks_of_type_simps)
next
  case (Cons b bs)
  then obtain p1 where p1: "convert_block str_of dumps p b = Inr p1" "foldR (convert_block str_of dumps) p1 bs = Inr q" by auto
  have app: "listR f (xs @ ys) = Inr (us @ vs)" if "listR f xs = Inr us" "listR f ys = Inr vs"
    for f :: "pydict \<Rightarrow> pydict result" and xs ys us vs
    using that by (induction xs arbitrary: us) auto
  note step = convert_block_parts [OF p1(1)]
  from step(2) Cons.IH [OF p1(2)] obtain ms ns where
    "tool_messages p1 = tool_messages p @ ms" "listR (tool_result_message str_of) (blocks_of_type ''tool_result'' [b]) = Inr ms"
    "tool_messages q = tool_messages p1 @ ns" "listR (tool_result_message str_of) (blocks_of_type ''tool_result'' bs) = Inr ns"
    by blast
  with app [of "tool_result_message str_of"] step(1) Cons.IH [OF p1(2)] show ?case
    unfolding blocks_of_type_simps(2) [of _ b bs] by auto
qed

lemma tool_result_ids:
  "listR (tool_result_message str_of) bs = Inr ms \<Longrightarrow>
    map (\<lambda>m. field m ''tool_call_id'') ms = map (\<lambda>b. get_or b ''tool_use_id'' (PStr [])) bs
    \<and> list_all answers_call ms \<and> concat (map calls_of_message ms) = []"
  by (induction bs arbitrary: ms) (auto simp: tool_result_message_def field_def answers_call_def calls_of_message_def)

lemma own_message_calls:
  "concat (map calls_of_message (own_message role p)) = map PDict (tool_calls p)"
  "filter answers_call (own_message role p) = []"
  by (auto simp: own_message_def field_def answers_call_def calls_of_message_def)

lemma anthropic_message_parts:
  assumes "anthropic_message str_of dumps msg = Inr out"
  shows "concat (map calls_of_message out) = map (PDict \<circ> tool_use_call str_of dumps) (blocks_of_type ''tool_use'' (message_blocks msg))
    \<and> map (\<lambda>m. field m ''tool_call_id'') (filter answers_call out)
        = map (\<lambda>b. get_or b ''tool_use_id'' (PStr [])) (blocks_of_type ''tool_result'' (message_blocks msg))"
proof -
  from assms obtain m where m: "msg = PDict m" by (cases msg) (auto simp: anthropic_message_def)
  show ?thesis
  proof (cases "field m ''content''")
    case (PList bs)
    with assms m obtain p role where p: "foldR (convert_block str_of dumps) no_parts bs = Inr p"
        "out = tool_messages p @ own_message role p"
      by (auto simp: anthropic_message_def field_def)
    from convert_blocks_parts [OF p(1)]
    have q: "tool_calls p = map (tool_use_call str_of dumps) (blocks_of_type ''tool_use'' bs)"
        "listR (tool_result_message str_of) (blocks_of_type ''tool_result'' bs) = Inr (tool_messages p)"
      by (auto simp: no_parts_def)
    from tool_result_ids [OF q(2)] q(1) p(2) PList m show ?thesis
      by (simp add: own_message_calls list_all_iff filter_id_conv [THEN iffD2])
  qed (use assms m in \<open>auto simp: anthropic_message_def field_def answers_call_def calls_of_message_def blocks_of_type_simps split: option.splits\<close>)
qed

lemma system_messages_plain:
  "concat (map calls_of_message (system_messages sys)) = [] \<and> filter answers_call (system_messages sys) = []"
  by (cases sys) (auto simp: system_messages_def field_def answers_call_def calls_of_message_def)

lemma convert_messages_parts:
  assumes "convert_messages str_of dumps payload = Inr out" "py_iter (get_or payload ''messages'' (PList [])) = Inr ms"
  shows "concat (map calls_of_message out)
      = map (PDict \<circ> tool_use_call str_of dumps) (blocks_of_type ''tool_use'' (concat (map message_blocks ms)))
    \<and> map (\<lambda>m. field m ''tool_call_id'') (filter answers_call out)
      = map (\<lambda>b. get_or b ''tool_use_id'' (PStr [])) (blocks_of_type ''tool_result'' (concat (map message_blocks ms)))"
proof -
  from assms obtain mss where mss: "listR (anthropic_message str_of dumps) ms = Inr mss"
      "out = system_messages (field payload ''system'') @ concat mss"
    by (auto simp: convert_messages_def)
  have app: "blocks_of_type t (xs @ ys) = blocks_of_type t xs @ blocks_of_type t ys" for t xs ys
    by (simp add: blocks_of_type_def)
  from mss(1) have "concat (map calls_of_message (concat mss))
      = map (PDict \<circ> tool_use_call str_of dumps) (blocks_of_type ''tool_use'' (concat (map message_blocks ms)))
    \<and> map (\<lambda>m. field m ''tool_call_id'') (filter answers_call (concat mss))
      = map (\<lambda>b. get_or b ''tool_use_id'' (PStr [])) (blocks_of_type ''tool_result'' (concat (map message_blocks ms)))"
  proof (induction ms arbitrary: mss)
    case Nil
    then show ?case by (simp add: blocks_of_type_simps)
  next
    case (Cons m ms)
    then obtain o1 os where o: "anthropic_message str_of dumps m = Inr o1" "listR (anthropic_message str_of dumps) ms = Inr os"
        "mss = o1 # os" by auto
    from anthropic_message_parts [OF o(1)] Cons.IH [OF o(2)] o(3) show ?case by (simp add: app)
  qed
  with mss(2) system_messages_plain show ?thesis by simp
qed

text \<open>The parameters, key by key: later assignments take precedence.\<close>

definition or_some :: "'a option \<Rightarrow> 'a option \<Rightarrow> 'a option" where
  "or_some a b = (case a of Some x \<Rightarrow> Some x | None \<Rightarrow> b)"

lemma or_some_simps [simp]: "or_some None b = b" "or_some (Some x) b = Some x" "or_some a None = a"
  by (simp_all add: or_some_def split: option.split)

lemma dget_copy_param: "dget (copy_param k k' payload out) j = or_some (if j = k' then dget payload k else None) (dget out j)"
  by (auto simp: copy_param_def or_some_def split: option.split)

lemma dget_copy_fold:
  assumes "distinct (map snd ps)"
  shows "dget (foldl (\<lambda>out (k, k'). copy_param k k' payload out) out ps) j
    = or_some (case dget (map prod.swap ps) j of Some k \<Rightarrow> dget payload k | None \<Rightarrow> None) (dget out j)"
  using assms
proof (induction ps arbitrary: out)
  case (Cons p ps)
  obtain k k' where p: "p = (k, k')" by (cases p)
  have "dget (map prod.swap ps) k' = None"
    using Cons.prems p by (auto simp: dget_None_keys image_iff)
  with Cons p show ?case by (cases "j = k'") (simp_all add: dget_copy_param)
qed simp

lemma dget_passthrough_fold:
  assumes "wf_dict ps"
  shows "dget (foldl (\<lambda>out (k, v). if P k then dset k v out else out) out ps) j
    = or_some (if P j then dget ps j else None) (dget out j)"
  using assms
proof (induction ps arbitrary: out)
  case (Cons p ps)
  obtain k v where p: "p = (k, v)" by (cases p)
  with Cons.prems have "dget ps k = None" by (simp add: dget_None_keys)
  with Cons p show ?case by (cases "j = k") simp_all
qed simp

text \<open>What the connection lets through.\<close>

definition passed_param :: "(py \<Rightarrow> string) \<Rightarrow> pydict \<Rightarrow> py \<Rightarrow> string \<Rightarrow> py option" where
  "passed_param str_of payload params k =
     (if k \<notin> set converted_params
         \<and> (''*'' \<in> set (passthrough_names str_of params) \<or> k \<in> set (passthrough_names str_of params))
      then dget payload k else None)"

lemma dget_add_passthrough:
  assumes "wf_dict payload"
  shows "dget (add_passthrough str_of params payload out) j = or_some (passed_param str_of payload params j) (dget out j)"
proof -
  have "wf_dict (captured_params payload)" using assms by (simp add: captured_params_def distinct_map_filter)
  moreover have "dget (captured_params payload) j = (if j \<notin> set converted_params then dget payload j else None)"
    unfolding captured_params_def by (rule dget_filter_key)
  ultimately show ?thesis
    unfolding add_passthrough_def Let_def passed_param_def by (simp only: dget_passthrough_fold) simp
qed

definition configured_effort :: "pydict \<Rightarrow> py option" where
  "configured_effort payload = (case field payload ''output_config'' of PDict oc \<Rightarrow> dget oc ''effort'' | _ \<Rightarrow> None)"

lemma dget_output_format: "j \<noteq> ''response_format'' \<Longrightarrow> dget (add_output_format c out) j = dget out j"
  by (cases c) (simp_all add: add_output_format_def)

lemma dget_output_config:
  assumes "j \<noteq> ''response_format''"
  shows "dget (add_output_config payload out) j
    = or_some (if j = ''reasoning_effort'' \<and> dget payload ''reasoning_effort'' = None then configured_effort payload else None)
        (dget out j)"
  by (cases "field payload ''output_config''")
     (simp_all add: add_output_config_def dget_output_format [OF assms] dget_copy_param configured_effort_def)

lemma dget_tool_choice: "j \<noteq> ''tool_choice'' \<Longrightarrow> dget (add_tool_choice payload out) j = dget out j"
  by (auto simp: add_tool_choice_def Let_def split: py.splits)

lemma dget_tools: "add_tools payload out = Inr out' \<Longrightarrow> j \<noteq> ''tools'' \<Longrightarrow> dget out' j = dget out j"
  by (auto simp: add_tools_def split: option.splits)

definition direct_params :: "(string \<times> string) list" where
  "direct_params = [(''max_tokens'', ''max_tokens''), (''reasoning_effort'', ''reasoning_effort'')] @ map prod.swap common_params"

definition rewritten_params :: "string list" where
  "rewritten_params = [''model'', ''messages'', ''tools'', ''tool_choice'', ''response_format'']"

text \<open>The value of a parameter that is not rewritten: that of the parameter of the request it comes
  from, else the effort of \<open>output_config\<close>, else what the connection lets through.\<close>

definition expected_param :: "(py \<Rightarrow> string) \<Rightarrow> pydict \<Rightarrow> py \<Rightarrow> string \<Rightarrow> py option" where
  "expected_param str_of payload params k =
     or_some (case dget direct_params k of Some k0 \<Rightarrow> dget payload k0 | None \<Rightarrow> None)
       (or_some (if k = ''reasoning_effort'' then configured_effort payload else None)
         (passed_param str_of payload params k))"

lemma expected_params:
  assumes "convert_anthropic_to_openai_payload str_of dumps payload params = Inr out" "wf_dict payload"
    and "k \<notin> set rewritten_params"
  shows "dget out k = expected_param str_of payload params k"
proof -
  from assms(3) have k: "k \<noteq> ''model''" "k \<noteq> ''messages''" "k \<noteq> ''tools''" "k \<noteq> ''tool_choice''" "k \<noteq> ''response_format''"
    by (auto simp: rewritten_params_def)
  from assms(1) obtain ms o1 where o1: "add_tools payload (foldl (\<lambda>out (k, k'). copy_param k k' payload out)
      (copy_param ''reasoning_effort'' ''reasoning_effort'' payload (add_output_config payload
        (add_passthrough str_of params payload (copy_param ''max_tokens'' ''max_tokens'' payload
          [(''model'', get_or payload ''model'' (PStr [])), (''messages'', PList (map PDict ms))])))) common_params) = Inr o1"
      "out = add_tool_choice payload o1"
    by (auto simp: convert_anthropic_to_openai_payload_def Let_def)
  let ?common = "case dget (map prod.swap common_params) k of Some k0 \<Rightarrow> dget payload k0 | None \<Rightarrow> None"
  have "distinct (map snd common_params)" by (simp add: common_params_def)
  note common = dget_copy_fold [OF this]
  have swap: "dget (map prod.swap common_params) ''max_tokens'' = None" "dget (map prod.swap common_params) ''reasoning_effort'' = None"
    by (simp_all add: common_params_def)
  have passed: "passed_param str_of payload params ''max_tokens'' = None" "passed_param str_of payload params ''reasoning_effort'' = None"
    by (simp_all add: passed_param_def converted_params_def)
  from o1(2) have "dget out k = dget o1 k" by (simp add: dget_tool_choice k)
  also note dget_tools [OF o1(1) k(3)]
  also note common
  finally show ?thesis
    using k swap passed
    by (cases "k = ''max_tokens''"; cases "k = ''reasoning_effort''"; cases "dget payload ''reasoning_effort''")
       (simp_all add: dget_copy_param dget_output_config dget_add_passthrough [OF assms(2)] expected_param_def direct_params_def)
qed

section \<open>Properties\<close>

text \<open>C32: the converted request has one tool call for each \<open>tool_use\<close> block of the request, in their order, with the id
  and name of the block (empty when it has none) and as arguments its input: a dict as JSON, any other value as text, \<open>{}\<close>
  when it has none. It has one tool message for every \<open>tool_result\<close> block, in their order, with the id of the call
  that it answers; nothing else is a tool call or answers one.\<close>

theorem request_keeps_tool_calls:
  assumes "convert_messages str_of dumps payload = Inr out" "py_iter (get_or payload ''messages'' (PList [])) = Inr ms"
  shows "list_all2 (\<lambda>c b. \<exists>call f. c = PDict call \<and>
        dget call ''id'' = Some (case dget b ''id'' of None \<Rightarrow> PStr [] | Some i \<Rightarrow> i) \<and>
        dget call ''function'' = Some (PDict f) \<and>
        dget f ''name'' = Some (case dget b ''name'' of None \<Rightarrow> PStr [] | Some n \<Rightarrow> n) \<and>
        dget f ''arguments'' = Some (PStr (case dget b ''input'' of None \<Rightarrow> ''{}''
          | Some v \<Rightarrow> if is_dict v then dumps v else fmt str_of v)))
      (concat (map calls_of_message out)) (blocks_of_type ''tool_use'' (concat (map message_blocks ms)))
    \<and> map (\<lambda>m. field m ''tool_call_id'') (filter answers_call out)
      = map (\<lambda>b. get_or b ''tool_use_id'' (PStr [])) (blocks_of_type ''tool_result'' (concat (map message_blocks ms)))"
proof
  show "map (\<lambda>m. field m ''tool_call_id'') (filter answers_call out)
      = map (\<lambda>b. get_or b ''tool_use_id'' (PStr [])) (blocks_of_type ''tool_result'' (concat (map message_blocks ms)))"
    using convert_messages_parts [OF assms] by (rule conjunct2)
qed (simp add: conjunct1 [OF convert_messages_parts [OF assms]] list_all2_map1 list_all2_same tool_use_call_def
  get_or_def field_def fmt_def split: option.split)

text \<open>Which parameters reach the provider: each one that the conversion knows, under its OpenAI
  name and with its own value; the effort of \<open>output_config\<close> where the request sets none; and a
  parameter that the conversion does not know only if the connection names it or lets all through.\<close>

theorem request_parameters_exact:
  assumes "convert_anthropic_to_openai_payload str_of dumps payload params = Inr out" "wf_dict payload"
    and "k \<notin> set rewritten_params"
  shows "dget out k = expected_param str_of payload params k"
  by (rule expected_params [OF assms])

definition demo_request_messages :: "py list" where
  "demo_request_messages =
     [PDict [(''role'', PStr ''assistant''), (''content'', PList [
         PDict [(''type'', PStr ''text''), (''text'', PStr ''Hi'')],
         PDict [(''type'', PStr ''tool_use''), (''id'', PStr ''t1''), (''name'', PStr ''f''), (''input'', PDict [])]])],
      PDict [(''role'', PStr ''user''), (''content'', PList [
         PDict [(''type'', PStr ''tool_result''), (''tool_use_id'', PStr ''t1''), (''content'', PStr ''done''), (''is_error'', PBool True)],
         PDict [(''type'', PStr ''text''), (''text'', PStr ''ok'')]])]]"

definition demo_payload :: pydict where
  "demo_payload = [(''model'', PStr ''m''), (''thinking'', PDict []), (''container'', PStr ''c''), (''stop_sequences'', PList []),
     (''messages'', PList demo_request_messages)]"

definition demo_converted :: "pydict list" where
  "demo_converted =
     [[(''role'', PStr ''assistant''), (''content'', PStr ''Hi''), (''tool_calls'', PList [PDict [(''id'', PStr ''t1''),
        (''type'', PStr ''function''), (''function'', PDict [(''name'', PStr ''f''), (''arguments'', PStr ''{}'')])]])],
      [(''role'', PStr ''tool''), (''tool_call_id'', PStr ''t1''), (''content'', PStr ''Error: done'')],
      [(''role'', PStr ''user''), (''content'', PStr ''ok'')]]"

lemma demo_payload_converted: "convert_messages (\<lambda>_. []) (\<lambda>_. ''{}'') demo_payload = Inr demo_converted"
  by code_simp

lemma request_keeps_tool_calls_witness:
  "map (\<lambda>m. field m ''tool_call_id'') (filter answers_call demo_converted) = [PStr ''t1'']
   \<and> length (concat (map calls_of_message demo_converted)) = 1"
proof -
  have ms: "py_iter (get_or demo_payload ''messages'' (PList [])) = Inr demo_request_messages"
    by (simp add: demo_payload_def get_or_def)
  have results: "map (\<lambda>b. get_or b ''tool_use_id'' (PStr []))
      (blocks_of_type ''tool_result'' (concat (map message_blocks demo_request_messages))) = [PStr ''t1'']"
    and uses: "length (blocks_of_type ''tool_use'' (concat (map message_blocks demo_request_messages))) = 1"
    by code_simp+
  note kept = request_keeps_tool_calls [OF demo_payload_converted ms]
  have "map (\<lambda>m. field m ''tool_call_id'') (filter answers_call demo_converted) = [PStr ''t1'']"
    using kept unfolding results by (rule conjunct2)
  moreover have "length (concat (map calls_of_message demo_converted)) = 1"
    using conjunct1 [OF kept, THEN list_all2_lengthD] unfolding uses .
  ultimately show ?thesis by blast
qed

lemma request_parameters_exact_witness:
  "\<exists>out. convert_anthropic_to_openai_payload (\<lambda>_. []) (\<lambda>_. ''{}'') demo_payload (PStr ''container, x'') = Inr out
    \<and> dget out ''container'' = Some (PStr ''c'') \<and> dget out ''thinking'' = None \<and> dget out ''stop'' = Some (PList [])"
proof -
  have "\<not> isl (convert_anthropic_to_openai_payload (\<lambda>_. []) (\<lambda>_. ''{}'') demo_payload (PStr ''container, x''))"
    by code_simp
  then obtain out where out: "convert_anthropic_to_openai_payload (\<lambda>_. []) (\<lambda>_. ''{}'') demo_payload (PStr ''container, x'') = Inr out"
    by (auto simp: isl_def) (metis sum.exhaust)
  have wf: "wf_dict demo_payload" by code_simp
  have "dget out k = expected_param (\<lambda>_. []) demo_payload (PStr ''container, x'') k" if "k \<notin> set rewritten_params" for k
    by (rule request_parameters_exact [OF out wf that])
  moreover have "''container'' \<notin> set rewritten_params" "''thinking'' \<notin> set rewritten_params" "''stop'' \<notin> set rewritten_params"
    by (simp_all add: rewritten_params_def)
  moreover have "expected_param (\<lambda>_. []) demo_payload (PStr ''container, x'') ''container'' = Some (PStr ''c'')"
      "expected_param (\<lambda>_. []) demo_payload (PStr ''container, x'') ''thinking'' = None"
      "expected_param (\<lambda>_. []) demo_payload (PStr ''container, x'') ''stop'' = Some (PList [])"
    by code_simp+
  ultimately show ?thesis using out by (metis (no_types, lifting))
qed

end
