(* ===== verification/Tool_Pairs.thy ===== *)
theory Tool_Pairs
  imports Py_Prelude
begin

text \<open>
  The messages of a request in \<open>utils/misc.py\<close>: the text of a message and of its stored output, and
  \<open>reconcile_tool_pairs\<close>, which drops tool calls without a result and results without a call.
  \<open>str_of\<close> is \<open>str()\<close> of a value that is no string. Ids are compared as values.
\<close>

section \<open>The text of a message\<close>

definition to_str :: "(py \<Rightarrow> string) \<Rightarrow> py \<Rightarrow> string" where
  "to_str str_of v = (case v of PStr s \<Rightarrow> s | _ \<Rightarrow> str_of v)"

definition part_text :: "(py \<Rightarrow> string) \<Rightarrow> py \<Rightarrow> string" where
  "part_text str_of part = (case part of
     PDict d \<Rightarrow> if field d ''text'' \<noteq> PNone then to_str str_of (field d ''text'') else []
   | _ \<Rightarrow> [])"

definition item_texts :: "(py \<Rightarrow> string) \<Rightarrow> py \<Rightarrow> string list" where
  "item_texts str_of item = (case item of
     PDict d \<Rightarrow>
       if field d ''type'' \<noteq> PStr ''message'' then []
       else (case py_or (field d ''content'') (PList []) of
           PList parts \<Rightarrow> (let text = concat (map (part_text str_of) parts)
                          in if str_strip text = [] then [] else [text])
         | _ \<Rightarrow> [])
   | _ \<Rightarrow> [])"

definition get_output_text :: "(py \<Rightarrow> string) \<Rightarrow> py \<Rightarrow> string" where
  "get_output_text str_of v = (case v of
     PList items \<Rightarrow> str_join [CHR 0x0A] (concat (map (item_texts str_of) items))
   | _ \<Rightarrow> [])"

text \<open>The first text item of a content list, whatever its text is.\<close>

fun first_text_item :: "py list \<Rightarrow> py option" where
  "first_text_item [] = None"
| "first_text_item (PDict d # items) =
     (if field d ''type'' = PStr ''text'' then Some (field d ''text'') else first_text_item items)"
| "first_text_item (item # items) = first_text_item items"

definition get_content_from_message :: "(py \<Rightarrow> string) \<Rightarrow> py \<Rightarrow> py result" where
  "get_content_from_message str_of message =
     bindR (py_get message ''content'') (\<lambda>content.
     case (case content of PList items \<Rightarrow> first_text_item items
           | _ \<Rightarrow> if truthy content then Some content else None) of
       Some v \<Rightarrow> Inr v
     | None \<Rightarrow> mapR (\<lambda>output. let text = get_output_text str_of output in
           if text \<noteq> [] then PStr text else if is_str content then content else PNone)
         (py_get message ''output''))"

section \<open>Pairing calls and results\<close>

text \<open>The elements of a set: unhashable ones raise.\<close>

definition as_element :: "py \<Rightarrow> py result" where
  "as_element v = (if hashable v then Inr v else Inl TypeError)"

definition completed_id :: "py \<Rightarrow> py list result" where
  "completed_id message =
     bindR (py_get message ''role'') (\<lambda>role.
       if role \<noteq> PStr ''tool'' then Inr []
       else bindR (py_get message ''tool_call_id'') (\<lambda>i.
            if truthy i then mapR (\<lambda>v. [v]) (as_element i) else Inr []))"

definition completed_ids :: "py list \<Rightarrow> py list result" where
  "completed_ids messages = mapR concat (listR completed_id messages)"

definition tool_calls_of :: "py \<Rightarrow> py list result" where
  "tool_calls_of message = bindR (py_get message ''tool_calls'') (\<lambda>calls. py_iter (py_or calls (PList [])))"

definition requested_id :: "py \<Rightarrow> py \<Rightarrow> py list result" where
  "requested_id message call =
     bindR (py_get message ''role'') (\<lambda>role.
       if role \<noteq> PStr ''assistant'' then Inr []
       else bindR (py_get call ''id'') (\<lambda>i.
            if truthy i then mapR (\<lambda>v. [v]) (as_element i) else Inr []))"

definition requested_ids :: "py list \<Rightarrow> py list result" where
  "requested_ids messages = mapR concat (listR (\<lambda>message.
     bindR (tool_calls_of message) (\<lambda>calls. mapR concat (listR (requested_id message) calls))) messages)"

text \<open>\<open>x.get(key) in ids\<close> for a set of ids.\<close>

definition member :: "py \<Rightarrow> string \<Rightarrow> py list \<Rightarrow> bool result" where
  "member x k ids = bindR (py_get x k) (\<lambda>v. mapR (\<lambda>e. e \<in> set ids) (as_element v))"

definition has_meaningful_content :: "(py \<Rightarrow> string) \<Rightarrow> py \<Rightarrow> bool result" where
  "has_meaningful_content str_of message =
     mapR (\<lambda>c. case py_or c (PStr []) of PStr s \<Rightarrow> str_strip s \<noteq> [] | v \<Rightarrow> truthy v)
       (get_content_from_message str_of message)"

text \<open>\<open>{**message, 'tool_calls': calls}\<close> and the message without its tool calls.\<close>

definition with_tool_calls :: "py \<Rightarrow> py list \<Rightarrow> py" where
  "with_tool_calls message calls = (case message of
     PDict d \<Rightarrow> PDict (dset ''tool_calls'' (PList calls) d) | _ \<Rightarrow> message)"

definition without_tool_calls :: "py \<Rightarrow> py" where
  "without_tool_calls message = (case message of
     PDict d \<Rightarrow> PDict (dpop ''tool_calls'' d) | _ \<Rightarrow> message)"

definition reconcile_message ::
  "(py \<Rightarrow> string) \<Rightarrow> py list \<Rightarrow> py list \<Rightarrow> py \<Rightarrow> py list result" where
  "reconcile_message str_of completed requested message =
     bindR (py_get message ''role'') (\<lambda>role.
     bindR (if role = PStr ''tool'' then member message ''tool_call_id'' requested else Inr True) (\<lambda>claimed.
     if \<not> claimed then Inr []
     else bindR (py_get message ''tool_calls'') (\<lambda>calls.
       if role \<noteq> PStr ''assistant'' \<or> \<not> truthy calls then Inr [message]
       else
         bindR (py_iter calls) (\<lambda>cs.
         bindR (filterR (\<lambda>call. member call ''id'' completed) cs) (\<lambda>valid.
         if valid \<noteq> [] then Inr [with_tool_calls message valid]
         else
           bindR (has_meaningful_content str_of message) (\<lambda>meaningful.
           bindR (py_get message ''reasoning_content'') (\<lambda>reasoning.
           Inr (if meaningful \<or> truthy reasoning then [without_tool_calls message] else []))))))))"

definition reconcile_tool_pairs :: "(py \<Rightarrow> string) \<Rightarrow> py list \<Rightarrow> py list result" where
  "reconcile_tool_pairs str_of messages =
     bindR (completed_ids messages) (\<lambda>completed.
     bindR (requested_ids messages) (\<lambda>requested.
     mapR concat (listR (reconcile_message str_of completed requested) messages)))"

section \<open>What reconciling promises\<close>

text \<open>The fields of a message, the ids of the tool results of a conversation and the tool calls of
  its assistant.\<close>

fun attr :: "py \<Rightarrow> string \<Rightarrow> py" where
  "attr (PDict d) k = field d k"
| "attr v k = PNone"

definition is_result :: "py \<Rightarrow> bool" where
  "is_result m = (attr m ''role'' = PStr ''tool'')"

fun elements :: "py \<Rightarrow> py list" where
  "elements (PList xs) = xs"
| "elements v = []"

definition calls_in :: "py \<Rightarrow> py list" where
  "calls_in m = (if attr m ''role'' = PStr ''assistant'' then elements (attr m ''tool_calls'') else [])"

text \<open>Every result answers a call of the conversation, and every call has a result.\<close>

definition paired :: "py list \<Rightarrow> bool" where
  "paired ms =
     ((\<forall>m \<in> set ms. is_result m \<longrightarrow>
         truthy (attr m ''tool_call_id'') \<and>
         (\<exists>m' \<in> set ms. \<exists>c \<in> set (calls_in m'). attr c ''id'' = attr m ''tool_call_id'')) \<and>
      (\<forall>m \<in> set ms. \<forall>c \<in> set (calls_in m).
         truthy (attr c ''id'') \<and>
         (\<exists>m' \<in> set ms. is_result m' \<and> attr m' ''tool_call_id'' = attr c ''id'')))"

lemma py_get_attr: "py_get m k = Inr v \<Longrightarrow> is_dict m \<and> v = attr m k"
  by (cases m) (auto simp: field_def)

lemma is_dict_get: "is_dict m \<Longrightarrow> py_get m k = Inr (attr m k)"
  by (cases m) (auto simp: field_def)

lemma completed_id_attr:
  "completed_id m = Inr is \<Longrightarrow> is_dict m \<and>
   is = (if is_result m \<and> truthy (attr m ''tool_call_id'') then [attr m ''tool_call_id''] else [])"
  by (auto simp: completed_id_def is_result_def as_element_def dest!: py_get_attr split: if_splits)

lemma completed_ids_iff:
  assumes "completed_ids ms = Inr ids"
  shows "i \<in> set ids \<longleftrightarrow> truthy i \<and> (\<exists>m \<in> set ms. is_result m \<and> attr m ''tool_call_id'' = i)"
proof -
  obtain l where l: "listR completed_id ms = Inr l" "ids = concat l"
    using assms by (auto simp: completed_ids_def)
  have "\<exists>is. completed_id m = Inr is" if "m \<in> set ms" for m using listR_some [OF l(1) that] .
  then show ?thesis
    unfolding l(2) listR_mem [OF l(1)]
    by (auto dest!: completed_id_attr split: if_splits) (force dest: completed_id_attr)
qed

lemma py_iter_dicts:
  assumes "py_iter v = Inr cs" and "\<forall>c \<in> set cs. is_dict c" and "truthy v"
  shows "v = PList cs"
proof (cases v)
  case (PDict d)
  with assms show ?thesis by (cases d) auto
next
  case (PStr d)
  with assms show ?thesis by (cases d) auto
qed (use assms in auto)

lemma tool_calls_attr:
  assumes "tool_calls_of m = Inr cs" and "\<forall>c \<in> set cs. is_dict c"
  shows "elements (attr m ''tool_calls'') = cs"
proof (cases "truthy (attr m ''tool_calls'')")
  case True
  with assms py_iter_dicts [of "attr m ''tool_calls''" cs] show ?thesis
    by (auto simp: tool_calls_of_def py_or_def dest!: py_get_attr)
next
  case False
  with assms have "cs = []" by (auto simp: tool_calls_of_def py_or_def dest!: py_get_attr)
  with False show ?thesis by (cases "attr m ''tool_calls''") auto
qed

lemma requested_id_attr:
  "requested_id m c = Inr is \<Longrightarrow> is_dict m \<and>
   (attr m ''role'' = PStr ''assistant'' \<longrightarrow> is_dict c) \<and>
   is = (if attr m ''role'' = PStr ''assistant'' \<and> truthy (attr c ''id'') then [attr c ''id''] else [])"
  by (auto simp: requested_id_def as_element_def dest!: py_get_attr split: if_splits)

lemma requested_ids_iff:
  assumes "requested_ids ms = Inr ids"
  shows "i \<in> set ids \<longleftrightarrow> truthy i \<and> (\<exists>m \<in> set ms. \<exists>c \<in> set (calls_in m). attr c ''id'' = i)"
proof -
  let ?f = "\<lambda>m. bindR (tool_calls_of m) (\<lambda>cs. mapR concat (listR (requested_id m) cs))"
  obtain l where l: "listR ?f ms = Inr l" "ids = concat l"
    using assms by (auto simp: requested_ids_def)
  have one: "i \<in> set zs \<longleftrightarrow> truthy i \<and> (\<exists>c \<in> set (calls_in m). attr c ''id'' = i)"
    if z: "?f m = Inr zs" for m zs
  proof -
    from z obtain cs r where cs: "tool_calls_of m = Inr cs" "listR (requested_id m) cs = Inr r" "zs = concat r"
      by auto
    have each: "\<exists>is. requested_id m c = Inr is" if "c \<in> set cs" for c using listR_some [OF cs(2) that] .
    show ?thesis
    proof (cases "attr m ''role'' = PStr ''assistant''")
      case True
      then have "\<forall>c \<in> set cs. is_dict c" using each requested_id_attr by blast
      with True tool_calls_attr [OF cs(1)] have "calls_in m = cs" by (simp add: calls_in_def)
      with True each show ?thesis
        unfolding cs(3) listR_mem [OF cs(2)]
        by (auto dest!: requested_id_attr split: if_splits) (force dest: requested_id_attr)
    next
      case False
      then have "calls_in m = []" by (simp add: calls_in_def)
      with False show ?thesis
        unfolding cs(3) listR_mem [OF cs(2)] by (auto dest!: requested_id_attr)
    qed
  qed
  have "\<exists>zs. ?f m = Inr zs" if "m \<in> set ms" for m using listR_some [OF l(1) that] .
  then show ?thesis unfolding l(2) listR_mem [OF l(1)] using one by blast
qed

lemma filterR_filter:
  "filterR (\<lambda>c. member c k ids) cs = Inr vs \<Longrightarrow>
   (\<forall>c \<in> set cs. is_dict c) \<and> vs = filter (\<lambda>c. attr c k \<in> set ids) cs"
proof (induction cs arbitrary: vs)
  case (Cons c cs)
  then show ?case by (auto simp: member_def as_element_def dest!: py_get_attr split: if_splits)
qed simp

text \<open>The outcome for one message.\<close>

lemma reconcile_message_cases:
  assumes "reconcile_message str_of completed requested m = Inr out"
  obtains (dropped) "out = []" "is_result m" "attr m ''tool_call_id'' \<notin> set requested"
  | (kept) "out = [m]" "is_result m \<longrightarrow> attr m ''tool_call_id'' \<in> set requested" "calls_in m = []"
  | (reduced) cs where "attr m ''role'' = PStr ''assistant''" "attr m ''tool_calls'' = PList cs" "is_dict m"
      "\<exists>c \<in> set cs. attr c ''id'' \<in> set completed"
      "out = [with_tool_calls m (filter (\<lambda>c. attr c ''id'' \<in> set completed) cs)]"
  | (bare) "attr m ''role'' = PStr ''assistant''" "calls_in m \<noteq> []"
      "\<forall>c \<in> set (calls_in m). attr c ''id'' \<notin> set completed" "is_dict m"
      "out = [] \<or> out = [without_tool_calls m]"
proof -
  have m: "is_dict m" and role: "py_get m ''role'' = Inr (attr m ''role'')"
    using assms is_dict_get by (auto simp: reconcile_message_def dest!: py_get_attr)
  note get = is_dict_get [OF m]
  show thesis
  proof (cases "is_result m \<and> attr m ''tool_call_id'' \<notin> set requested")
    case True
    then have r: "attr m ''role'' = PStr ''tool''" by (simp add: is_result_def)
    from assms True have "out = []"
      unfolding reconcile_message_def get r bindR.simps
      by (simp add: member_def as_element_def get split: if_splits del: bindR_Inr_iff mapR_Inr_iff)
    with True show ?thesis by (intro dropped) auto
  next
    case claimed: False
    show ?thesis
    proof (cases "attr m ''role'' \<noteq> PStr ''assistant'' \<or> \<not> truthy (attr m ''tool_calls'')")
      case True
      then have "calls_in m = []" by (cases "attr m ''tool_calls''") (auto simp: calls_in_def)
      moreover from assms True claimed have "out = [m]"
        unfolding reconcile_message_def get bindR.simps
        by (auto simp: is_result_def member_def as_element_def get split: if_splits simp del: bindR_Inr_iff mapR_Inr_iff)
      ultimately show ?thesis using claimed by (intro kept) auto
    next
      case False
      then obtain cs vs where cs: "py_iter (attr m ''tool_calls'') = Inr cs"
        "filterR (\<lambda>call. member call ''id'' completed) cs = Inr vs"
        and rest: "if vs \<noteq> [] then out = [with_tool_calls m vs] else out = [] \<or> out = [without_tool_calls m]"
        using assms get by (auto simp: reconcile_message_def split: if_splits)
      note vs = filterR_filter [OF cs(2)]
      have tc: "attr m ''tool_calls'' = PList cs"
        using py_iter_dicts [OF cs(1)] vs False by blast
      have "calls_in m = cs" "cs \<noteq> []" using tc False by (auto simp: calls_in_def)
      then show ?thesis
        using reduced [of cs] bare False tc m vs rest
        by (cases "vs = []") (auto simp: filter_empty_conv)
    qed
  qed
qed

lemma attr_with_tool_calls:
  "is_dict m \<Longrightarrow> attr (with_tool_calls m cs) k = (if k = ''tool_calls'' then PList cs else attr m k)"
  by (cases m) (auto simp: with_tool_calls_def field_def)

lemma attr_without_tool_calls:
  "is_dict m \<Longrightarrow> attr (without_tool_calls m) k = (if k = ''tool_calls'' then PNone else attr m k)"
  by (cases m) (auto simp: without_tool_calls_def field_def)

lemma with_same_tool_calls:
  assumes "is_dict m" and "attr m ''tool_calls'' = PList cs"
  shows "with_tool_calls m cs = m"
proof -
  obtain d where d: "m = PDict d" using assms(1) by (cases m) auto
  have "dset k v d = d" if "dget d k = Some v" for k and v :: py and d :: pydict
    using that by (induction d) (auto split: if_splits)
  moreover have "dget d ''tool_calls'' = Some (PList cs)"
    using assms(2) d by (auto simp: field_def split: option.splits)
  ultimately show ?thesis using d by (simp add: with_tool_calls_def)
qed

text \<open>The results that are kept are the claimed ones; the calls that are kept, the completed ones.\<close>

lemma kept_result:
  assumes "reconcile_message str_of completed requested m = Inr out" and "r \<in> set out" and "is_result r"
  shows "r = m \<and> attr m ''tool_call_id'' \<in> set requested"
  using assms(1)
proof (cases rule: reconcile_message_cases)
  case (reduced cs)
  with assms(2,3) show ?thesis by (simp add: is_result_def attr_with_tool_calls)
next
  case bare
  with assms(2,3) show ?thesis by (auto simp: is_result_def attr_without_tool_calls)
qed (use assms(2,3) in auto)

lemma kept_calls:
  assumes "reconcile_message str_of completed requested m = Inr out"
  shows "(\<Union>r \<in> set out. set (calls_in r)) = {c \<in> set (calls_in m). attr c ''id'' \<in> set completed}"
  using assms
proof (cases rule: reconcile_message_cases)
  case dropped
  then have "calls_in m = []" by (simp add: is_result_def calls_in_def)
  with dropped show ?thesis by simp
next
  case (reduced cs)
  then show ?thesis by (simp add: calls_in_def attr_with_tool_calls)
next
  case bare
  then show ?thesis by (auto simp: calls_in_def attr_without_tool_calls)
qed simp

lemma reconcile_parts:
  assumes "reconcile_tool_pairs str_of ms = Inr rs"
  obtains completed requested l where "completed_ids ms = Inr completed" "requested_ids ms = Inr requested"
    "listR (reconcile_message str_of completed requested) ms = Inr l" "rs = concat l"
  using assms by (auto simp: reconcile_tool_pairs_def)

text \<open>C22: Reconciling pairs the conversation: afterwards every tool result answers a call of the
  conversation and every tool call has a result; and a conversation that is paired already is not
  changed.\<close>

theorem reconcile_tool_pairs_pairs:
  assumes "reconcile_tool_pairs str_of ms = Inr rs"
  shows "paired rs \<and> (paired ms \<longrightarrow> rs = ms)"
proof -
  obtain completed requested l where c: "completed_ids ms = Inr completed"
    and q: "requested_ids ms = Inr requested"
    and l: "listR (reconcile_message str_of completed requested) ms = Inr l" "rs = concat l"
    by (rule reconcile_parts [OF assms])
  note mem = listR_mem [OF l(1), folded l(2)]
  note C = completed_ids_iff [OF c] and Q = requested_ids_iff [OF q]
  have out: "\<exists>out. reconcile_message str_of completed requested m = Inr out \<and> set out \<subseteq> set rs"
    if "m \<in> set ms" for m
    using listR_some [OF l(1) that] that by (force simp: mem)
  have calls: "c \<in> (\<Union>r \<in> set rs. set (calls_in r))"
    if "m \<in> set ms" "c \<in> set (calls_in m)" "attr c ''id'' \<in> set completed" for m c
  proof -
    from out [OF that(1)] obtain o' where o': "reconcile_message str_of completed requested m = Inr o'"
      "set o' \<subseteq> set rs" by blast
    have "c \<in> (\<Union>r \<in> set o'. set (calls_in r))" unfolding kept_calls [OF o'(1)] using that by simp
    with o'(2) show ?thesis by blast
  qed
  have results: "m \<in> set rs" if m: "m \<in> set ms" "is_result m" "attr m ''tool_call_id'' \<in> set requested" for m
  proof -
    from out [OF m(1)] obtain o' where o': "reconcile_message str_of completed requested m = Inr o'"
      "set o' \<subseteq> set rs" by blast
    from o'(1) show ?thesis
      by (cases rule: reconcile_message_cases) (use o'(2) m in \<open>auto simp: is_result_def\<close>)
  qed
  have 1: "truthy (attr r ''tool_call_id'') \<and>
      (\<exists>m' \<in> set rs. \<exists>c \<in> set (calls_in m'). attr c ''id'' = attr r ''tool_call_id'')"
    if r: "r \<in> set rs" "is_result r" for r
  proof -
    from r(1) obtain m o' where m: "m \<in> set ms" "reconcile_message str_of completed requested m = Inr o'"
      "r \<in> set o'" unfolding mem by blast
    from kept_result [OF m(2,3) r(2)] have id: "r = m" "attr m ''tool_call_id'' \<in> set requested" by auto
    with m(1) r(2) Q C have "attr m ''tool_call_id'' \<in> set completed" by auto
    with id(2) Q obtain m' c where c: "truthy (attr m ''tool_call_id'')" "m' \<in> set ms" "c \<in> set (calls_in m')"
      "attr c ''id'' = attr m ''tool_call_id''" by auto
    with \<open>attr m ''tool_call_id'' \<in> set completed\<close> calls [OF c(2,3)] obtain r' where
      "r' \<in> set rs" "c \<in> set (calls_in r')" by auto
    with c(1,4) id(1) show ?thesis by auto
  qed
  have 2: "truthy (attr c ''id'') \<and> (\<exists>m' \<in> set rs. is_result m' \<and> attr m' ''tool_call_id'' = attr c ''id'')"
    if r: "r \<in> set rs" "c \<in> set (calls_in r)" for r c
  proof -
    from r(1) obtain m o' where m: "m \<in> set ms" "reconcile_message str_of completed requested m = Inr o'"
      "r \<in> set o'" unfolding mem by blast
    with kept_calls [OF m(2)] r(2) have c': "c \<in> set (calls_in m)" "attr c ''id'' \<in> set completed" by auto
    with C obtain m' where "truthy (attr c ''id'')" "m' \<in> set ms" "is_result m'"
      "attr m' ''tool_call_id'' = attr c ''id''" by auto
    moreover from this Q c'(1) m(1) have "attr m' ''tool_call_id'' \<in> set requested" by auto
    ultimately show ?thesis using results [of m'] by auto
  qed
  have 3: "rs = ms" if p: "paired ms"
  proof -
    from p have p1: "\<And>m. m \<in> set ms \<Longrightarrow> is_result m \<Longrightarrow> truthy (attr m ''tool_call_id'') \<and>
         (\<exists>m' \<in> set ms. \<exists>c \<in> set (calls_in m'). attr c ''id'' = attr m ''tool_call_id'')"
      and p2: "\<And>m c. m \<in> set ms \<Longrightarrow> c \<in> set (calls_in m) \<Longrightarrow> truthy (attr c ''id'') \<and>
         (\<exists>m' \<in> set ms. is_result m' \<and> attr m' ''tool_call_id'' = attr c ''id'')"
      by (simp_all add: paired_def)
    have "reconcile_message str_of completed requested m = Inr o' \<Longrightarrow> o' = [m]" if m: "m \<in> set ms" for m o'
    proof (erule reconcile_message_cases)
      assume "is_result m" "attr m ''tool_call_id'' \<notin> set requested"
      with p1 m Q show ?thesis by auto
    next
      fix cs assume r: "attr m ''role'' = PStr ''assistant''" "attr m ''tool_calls'' = PList cs" "is_dict m"
        "o' = [with_tool_calls m (filter (\<lambda>c. attr c ''id'' \<in> set completed) cs)]"
      then have "\<forall>c \<in> set cs. attr c ''id'' \<in> set completed"
        using p2 m C by (auto simp: calls_in_def)
      with r show ?thesis by (simp add: with_same_tool_calls filter_id_conv)
    next
      assume "calls_in m \<noteq> []" "\<forall>c \<in> set (calls_in m). attr c ''id'' \<notin> set completed"
      moreover have "\<forall>c \<in> set (calls_in m). attr c ''id'' \<in> set completed"
        using p2 m C by auto
      ultimately show ?thesis by (cases "calls_in m") auto
    qed
    then have "\<forall>m \<in> set ms. \<forall>o'. reconcile_message str_of completed requested m = Inr o' \<longrightarrow> o' = [m]" by simp
    then show ?thesis unfolding l(2) by (rule listR_keep [OF l(1)])
  qed
  have "paired rs" unfolding paired_def using 1 2 by (intro conjI ballI impI) simp_all
  with 3 show ?thesis by simp
qed

definition demo_call_message :: "py list \<Rightarrow> py" where
  "demo_call_message ids = PDict [(''role'', PStr ''assistant''), (''content'', PNone),
     (''tool_calls'', PList (map (\<lambda>i. PDict [(''id'', i)]) ids))]"

definition demo_result_message :: "string \<Rightarrow> py" where
  "demo_result_message i = PDict [(''role'', PStr ''tool''), (''tool_call_id'', PStr i), (''content'', PStr ''r'')]"

lemma demo_reconciled:
  "reconcile_tool_pairs (\<lambda>_. []) [demo_call_message [PStr ''1'', PStr ''2''], demo_result_message ''1'',
     demo_result_message ''3''] = Inr [demo_call_message [PStr ''1''], demo_result_message ''1'']"
  by (simp add: reconcile_tool_pairs_def completed_ids_def completed_id_def requested_ids_def requested_id_def
      tool_calls_of_def py_or_def as_element_def reconcile_message_def member_def demo_call_message_def
      demo_result_message_def with_tool_calls_def)

theorem reconcile_tool_pairs_pairs_witness: "paired [demo_call_message [PStr ''1''], demo_result_message ''1'']"
  using reconcile_tool_pairs_pairs [OF demo_reconciled] by simp

end
