(* ===== verification/System_Prompt.thy ===== *)
theory System_Prompt
  imports Py_Action Tool_Pairs
begin

text \<open>
  The system messages of a request: the helpers of \<open>utils/misc.py\<close> and the functions of
  \<open>utils/payload.py\<close> that lay the prompts of the administrator, the model, the folder and the user
  over it. A request is a dict whose messages are a list; the functions that change it in place
  return it changed. \<open>render\<close> stands for the templates of \<open>resolve_system_prompt\<close> (chat and user
  variables, dates), \<open>str_of\<close> for \<open>str\<close> on values that are not strings.
\<close>

section \<open>Messages\<close>

definition has_role :: "string \<Rightarrow> py \<Rightarrow> bool result" where
  "has_role role message = mapR (\<lambda>r. r = PStr role) (py_item message ''role'')"

fun get_system_message :: "py list \<Rightarrow> py option result" where
  "get_system_message [] = Inr None"
| "get_system_message (m # ms) = bindR (has_role ''system'' m) (\<lambda>b. if b then Inr (Some m) else get_system_message ms)"

definition remove_system_message :: "py list \<Rightarrow> py list result" where
  "remove_system_message ms = filterR (\<lambda>m. mapR Not (has_role ''system'' m)) ms"

definition pop_system_message :: "py list \<Rightarrow> (py option \<times> py list) result" where
  "pop_system_message ms = bindR (get_system_message ms) (\<lambda>s. mapR (\<lambda>r. (s, r)) (remove_system_message ms))"

definition get_last_user_message_item :: "py list \<Rightarrow> py option result" where
  "get_last_user_message_item ms =
     mapR (\<lambda>xs. case xs of [] \<Rightarrow> None | x # _ \<Rightarrow> Some x)
       (foldR (\<lambda>found m. if found \<noteq> [] then Inr found else mapR (\<lambda>b. if b then [m] else []) (has_role ''user'' m)) [] (rev ms))"

definition get_last_user_message :: "(py \<Rightarrow> string) \<Rightarrow> py list \<Rightarrow> py result" where
  "get_last_user_message str_of ms =
     bindR (get_last_user_message_item ms) (\<lambda>x. case x of None \<Rightarrow> Inr PNone | Some m \<Rightarrow> get_content_from_message str_of m)"

text \<open>All system messages as one at the head.\<close>

definition is_system :: "py \<Rightarrow> bool result" where
  "is_system m = mapR (\<lambda>r. r = PStr ''system'') (py_get m ''role'')"

definition merge_system_messages :: "(py \<Rightarrow> string) \<Rightarrow> py list \<Rightarrow> py list result" where
  "merge_system_messages str_of ms =
     bindR (listR (\<lambda>m. bindR (is_system m) (\<lambda>b.
        if b then mapR (\<lambda>c. (if truthy c then [c] else [], [])) (get_content_from_message str_of m)
        else Inr ([], [m]))) ms) (\<lambda>ps.
     let contents = concat (map fst ps); others = concat (map snd ps) in
     if contents = [] then Inr others
     else mapR (\<lambda>t. PDict [(''role'', PStr ''system''), (''content'', PStr t)] # others) (join_lines contents))"

section \<open>Changing a message\<close>

definition two_lines :: "(py \<Rightarrow> string) \<Rightarrow> bool \<Rightarrow> string \<Rightarrow> py \<Rightarrow> py" where
  "two_lines str_of at_end content old =
     PStr (if at_end then fmt str_of old @ line_feed @ content else content @ line_feed @ fmt str_of old)"

definition update_item :: "(py \<Rightarrow> string) \<Rightarrow> bool \<Rightarrow> string \<Rightarrow> py \<Rightarrow> py result" where
  "update_item str_of at_end content item =
     bindR (py_item item ''type'') (\<lambda>t.
     if t = PStr ''text''
     then bindR (py_item item ''text'') (\<lambda>old. py_setitem item ''text'' (two_lines str_of at_end content old))
     else Inr item)"

definition update_message_content :: "(py \<Rightarrow> string) \<Rightarrow> py \<Rightarrow> string \<Rightarrow> bool \<Rightarrow> py result" where
  "update_message_content str_of message content at_end =
     bindR (py_item message ''content'') (\<lambda>c.
     case c of
       PList items \<Rightarrow> bindR (listR (update_item str_of at_end content) items) (\<lambda>items.
         py_setitem message ''content'' (PList items))
     | _ \<Rightarrow> py_setitem message ''content'' (two_lines str_of at_end content c))"

fun replace_system_message_content :: "string \<Rightarrow> py list \<Rightarrow> py list result" where
  "replace_system_message_content content [] = Inr []"
| "replace_system_message_content content (m # ms) =
     bindR (has_role ''system'' m) (\<lambda>b.
     if b then mapR (\<lambda>m. m # ms) (py_setitem m ''content'' (PStr content))
     else mapR (\<lambda>ms. m # ms) (replace_system_message_content content ms))"

definition add_or_update_system_message :: "(py \<Rightarrow> string) \<Rightarrow> string \<Rightarrow> py list \<Rightarrow> bool \<Rightarrow> py list result" where
  "add_or_update_system_message str_of content ms at_end =
     (case ms of
       [] \<Rightarrow> Inr [PDict [(''role'', PStr ''system''), (''content'', PStr content)]]
     | m # rest \<Rightarrow> bindR (is_system m) (\<lambda>b.
         if b then mapR (\<lambda>m. m # rest) (update_message_content str_of m content at_end)
         else Inr (PDict [(''role'', PStr ''system''), (''content'', PStr content)] # ms)))"

definition add_or_update_user_message :: "(py \<Rightarrow> string) \<Rightarrow> string \<Rightarrow> py list \<Rightarrow> bool \<Rightarrow> py list result" where
  "add_or_update_user_message str_of content ms at_end =
     (if ms = [] then Inr [PDict [(''role'', PStr ''user''), (''content'', PStr content)]]
      else bindR (py_get (last ms) ''role'') (\<lambda>r.
        if r = PStr ''user''
        then mapR (\<lambda>m. butlast ms @ [m]) (update_message_content str_of (last ms) content at_end)
        else Inr (ms @ [PDict [(''role'', PStr ''user''), (''content'', PStr content)]])))"

definition append_or_update_assistant_message :: "(py \<Rightarrow> string) \<Rightarrow> string \<Rightarrow> py list \<Rightarrow> py list result" where
  "append_or_update_assistant_message str_of content ms =
     (if ms = [] then Inr [PDict [(''role'', PStr ''assistant''), (''content'', PStr content)]]
      else bindR (py_get (last ms) ''role'') (\<lambda>r.
        if r = PStr ''assistant''
        then bindR (py_item (last ms) ''content'') (\<lambda>c.
             mapR (\<lambda>m. butlast ms @ [m]) (py_setitem (last ms) ''content'' (two_lines str_of True content c)))
        else Inr (ms @ [PDict [(''role'', PStr ''assistant''), (''content'', PStr content)]])))"

fun prepend_to_first_user_message_content :: "(py \<Rightarrow> string) \<Rightarrow> string \<Rightarrow> py list \<Rightarrow> py list result" where
  "prepend_to_first_user_message_content str_of content [] = Inr []"
| "prepend_to_first_user_message_content str_of content (m # ms) =
     bindR (has_role ''user'' m) (\<lambda>b.
     if b then mapR (\<lambda>m. m # ms) (update_message_content str_of m content False)
     else mapR (\<lambda>ms. m # ms) (prepend_to_first_user_message_content str_of content ms))"

text \<open>Text blocks without text are dropped, unless nothing else is left.\<close>

definition empty_text_block :: "py \<Rightarrow> bool result" where
  "empty_text_block block =
     (case block of
       PDict b \<Rightarrow> if field b ''type'' \<noteq> PStr ''text'' then Inr False
         else (case get_or b ''text'' (PStr []) of PStr t \<Rightarrow> Inr (str_strip t = []) | _ \<Rightarrow> Inl AttributeError)
     | _ \<Rightarrow> Inr False)"

definition strip_empty_blocks :: "py \<Rightarrow> py result" where
  "strip_empty_blocks message =
     bindR (py_get message ''content'') (\<lambda>c.
     case c of
       PList blocks \<Rightarrow> bindR (filterR (\<lambda>b. mapR Not (empty_text_block b)) blocks) (\<lambda>cleaned.
         if cleaned = [] then Inr message else py_setitem message ''content'' (PList cleaned))
     | _ \<Rightarrow> Inr message)"

definition strip_empty_content_blocks :: "py list \<Rightarrow> py list result" where
  "strip_empty_content_blocks ms = listR strip_empty_blocks ms"

section \<open>Prompts over a request\<close>

definition resolve_system_prompt :: "(py \<Rightarrow> string result) \<Rightarrow> py \<Rightarrow> string result" where
  "resolve_system_prompt render system = (if truthy system then render system else Inr [])"

definition messages_of :: "pydict \<Rightarrow> py list result" where
  "messages_of form = (case get_or form ''messages'' (PList []) of PList ms \<Rightarrow> Inr ms | _ \<Rightarrow> Inl TypeError)"

definition with_messages :: "pydict \<Rightarrow> py list \<Rightarrow> pydict" where
  "with_messages form ms = dset ''messages'' (PList ms) form"

text \<open>\<open>get_content_from_message(message).strip()\<close>.\<close>

definition stripped_content :: "(py \<Rightarrow> string) \<Rightarrow> py \<Rightarrow> string result" where
  "stripped_content str_of m =
     bindR (get_content_from_message str_of m) (\<lambda>c. case c of PStr t \<Rightarrow> Inr (str_strip t) | _ \<Rightarrow> Inl AttributeError)"

definition existing_content :: "(py \<Rightarrow> string) \<Rightarrow> py list \<Rightarrow> string result" where
  "existing_content str_of ms =
     bindR (get_system_message ms) (\<lambda>x. case x of None \<Rightarrow> Inr [] | Some m \<Rightarrow> stripped_content str_of m)"

definition apply_system_prompt_to_body ::
  "(py \<Rightarrow> string) \<Rightarrow> (py \<Rightarrow> string result) \<Rightarrow> py \<Rightarrow> pydict \<Rightarrow> bool \<Rightarrow> bool \<Rightarrow> pydict result" where
  "apply_system_prompt_to_body str_of render system form replace at_end =
     bindR (resolve_system_prompt render system) (\<lambda>resolved.
     if resolved = [] then Inr form
     else let prompt = str_strip resolved in
       bindR (messages_of form) (\<lambda>ms.
       bindR (existing_content str_of ms) (\<lambda>existing.
       if existing = prompt then Inr form
       else if at_end \<and> ends_with existing (line_feed @ prompt) then Inr form
       else if \<not> at_end \<and> starts_with existing (prompt @ line_feed) then Inr form
       else mapR (with_messages form)
         (if replace then replace_system_message_content prompt ms
          else add_or_update_system_message str_of prompt ms at_end))))"

definition apply_global_system_prompt_to_body ::
  "(py \<Rightarrow> string) \<Rightarrow> (py \<Rightarrow> string result) \<Rightarrow> py \<Rightarrow> pydict \<Rightarrow> pydict result" where
  "apply_global_system_prompt_to_body str_of render system form =
     bindR (resolve_system_prompt render system) (\<lambda>resolved.
     if str_strip resolved = [] then Inr form
     else let prompt = str_strip resolved in
       bindR (messages_of form) (\<lambda>ms.
       bindR (existing_content str_of ms) (\<lambda>existing.
       if existing = prompt \<or> starts_with existing (prompt @ line_feed) then Inr form
       else mapR (with_messages form) (add_or_update_system_message str_of prompt ms False))))"

text \<open>The first system message without a copy of the prompt at its head.\<close>

fun without_prompt :: "(py \<Rightarrow> string) \<Rightarrow> string \<Rightarrow> py list \<Rightarrow> py list result" where
  "without_prompt str_of prompt [] = Inr []"
| "without_prompt str_of prompt (m # ms) =
     bindR (is_system m) (\<lambda>b.
     if \<not> b then mapR (\<lambda>ms. m # ms) (without_prompt str_of prompt ms)
     else bindR (stripped_content str_of m) (\<lambda>c.
       if c = prompt then Inr ms
       else if starts_with c (prompt @ line_feed)
       then mapR (\<lambda>m. m # ms) (py_setitem m ''content'' (PStr (lstrip_by py_space (drop (length prompt) c))))
       else Inr (m # ms)))"

definition prompt_message :: "string \<Rightarrow> py" where
  "prompt_message prompt = PDict [(''role'', PStr ''system''), (''content'', PStr prompt)]"

definition apply_global_system_prompt_at_provider ::
  "(py \<Rightarrow> string) \<Rightarrow> (py \<Rightarrow> string result) \<Rightarrow> py \<Rightarrow> pydict \<Rightarrow> pydict result" where
  "apply_global_system_prompt_at_provider str_of render system form =
     bindR (resolve_system_prompt render system) (\<lambda>resolved.
     let prompt = str_strip resolved in
     if prompt = [] then Inr form
     else bindR (messages_of form) (\<lambda>ms.
       mapR (\<lambda>ms. with_messages form (prompt_message prompt # ms)) (without_prompt str_of prompt ms)))"

text \<open>
  The last prompts of a chat request: the prompt of the parameters (the model's or the user's), unless
  the system message begins with it, then the administrator's; with what the metadata keeps of both.
\<close>

definition content_or_none :: "(py \<Rightarrow> string) \<Rightarrow> py list \<Rightarrow> py result" where
  "content_or_none str_of ms =
     bindR (get_system_message ms) (\<lambda>x. case x of None \<Rightarrow> Inr (PStr []) | Some m \<Rightarrow> get_content_from_message str_of m)"

definition item_messages :: "pydict \<Rightarrow> py list result" where
  "item_messages form =
     (case dget form ''messages'' of None \<Rightarrow> Inl (KeyError ''messages'') | Some (PList ms) \<Rightarrow> Inr ms | Some _ \<Rightarrow> Inl TypeError)"

definition begins_with_prompt :: "string \<Rightarrow> py \<Rightarrow> bool result" where
  "begins_with_prompt prompt content =
     (if prompt = [] then Inr False
      else case content of
        PStr c \<Rightarrow> Inr (str_strip c = prompt \<or> starts_with c (prompt @ line_feed))
      | _ \<Rightarrow> Inl AttributeError)"

definition final_prompts ::
  "(py \<Rightarrow> string) \<Rightarrow> (py \<Rightarrow> string result) \<Rightarrow> py \<Rightarrow> py \<Rightarrow> pydict \<Rightarrow> (pydict \<times> py \<times> py) result" where
  "final_prompts str_of render global system form =
     bindR (resolve_system_prompt render system) (\<lambda>resolved.
     bindR (item_messages form) (\<lambda>ms.
     bindR (content_or_none str_of ms) (\<lambda>existing.
     let prompt = str_strip resolved in
     bindR (begins_with_prompt prompt existing) (\<lambda>present.
     bindR (if prompt \<noteq> [] \<and> \<not> present
            then apply_system_prompt_to_body str_of render (PStr prompt) form False False else Inr form) (\<lambda>form.
     bindR (apply_global_system_prompt_to_body str_of render global form) (\<lambda>form.
     bindR (item_messages form) (\<lambda>ms.
     bindR (content_or_none str_of ms) (\<lambda>c.
     mapR (\<lambda>user. (form, if truthy c then c else PNone, user)) (get_last_user_message str_of ms)))))))))"

section \<open>Lemmas\<close>

text \<open>A prompt stands in a stripped content: alone, before the rest, or after it.\<close>

definition prompt_in :: "bool \<Rightarrow> string \<Rightarrow> string \<Rightarrow> bool" where
  "prompt_in at_end prompt c \<longleftrightarrow> c = prompt
     \<or> (if at_end then ends_with c (line_feed @ prompt) else starts_with c (prompt @ line_feed))"

lemma two_lines_stripped:
  assumes "trimmed prompt" "two_lines str_of at_end prompt old = PStr t"
  shows "t \<noteq> [] \<and> prompt_in at_end prompt (str_strip t)"
proof -
  from assms(1) have "prompt \<noteq> []" by (simp add: trimmed_def)
  with assms strip_before [OF assms(1), of "fmt str_of old"] strip_after [OF assms(1), of "fmt str_of old"]
  show ?thesis by (auto simp: two_lines_def prompt_in_def split: if_splits)
qed

lemma stripped_content_text:
  assumes "m = PDict d" "dget d ''content'' = Some (PStr t)" "t \<noteq> []"
  shows "stripped_content str_of m = Inr (str_strip t)"
  using assms by (simp add: stripped_content_def get_content_from_message_def)

lemma update_items_text:
  assumes "listR (update_item str_of at_end content) items = Inr items'"
  shows "first_text_item items = None \<and> items' = items
    \<or> (\<exists>old. first_text_item items' = Some (two_lines str_of at_end content old))"
  using assms
proof (induction items arbitrary: items')
  case (Cons item items)
  then obtain i js where i: "update_item str_of at_end content item = Inr i"
      "listR (update_item str_of at_end content) items = Inr js" "items' = i # js" by auto
  from i(1) obtain d where d: "item = PDict d" by (cases item) (auto simp: update_item_def)
  show ?case
  proof (cases "field d ''type'' = PStr ''text''")
    case True
    with i(1) d obtain old where "i = PDict (dset ''text'' (two_lines str_of at_end content old) d)"
      by (auto simp: update_item_def field_def split: option.splits)
    with True i(3) show ?thesis by (auto simp: field_def)
  next
    case False
    with i(1) d have "i = item" by (auto simp: update_item_def field_def split: option.splits if_splits)
    with Cons.IH [OF i(2)] i(3) d False show ?thesis by auto
  qed
qed simp

text \<open>
  After an update, the content of the message has the prompt; a message without a text block, whose
  text comes from its output, is left as it is.
\<close>

definition no_output :: "(py \<Rightarrow> string) \<Rightarrow> py \<Rightarrow> bool" where
  "no_output str_of m = (case m of PDict d \<Rightarrow> get_output_text str_of (field d ''output'') = [] | _ \<Rightarrow> True)"


lemma update_message_prompt:
  assumes "update_message_content str_of m prompt at_end = Inr m'" "trimmed prompt"
    and "stripped_content str_of m = Inr c"
  shows "((\<not> no_output str_of m \<and> m' = m) \<or> (\<exists>c'. stripped_content str_of m' = Inr c' \<and> prompt_in at_end prompt c'))
    \<and> (\<forall>r. has_role r m' = has_role r m) \<and> is_system m' = is_system m"
proof -
  from assms(1) obtain d v where d: "m = PDict d" "dget d ''content'' = Some v"
    by (cases m) (auto simp: update_message_content_def split: option.splits)
  show ?thesis
  proof (cases "\<exists>items. v = PList items")
    case True
    then obtain items where items: "v = PList items" by blast
    with assms(1) d obtain items' where i: "listR (update_item str_of at_end prompt) items = Inr items'"
        "m' = PDict (dset ''content'' (PList items') d)"
      by (auto simp: update_message_content_def)
    from update_items_text [OF i(1)] show ?thesis
    proof
      assume "first_text_item items = None \<and> items' = items"
      with i(2) d items have "m' = m" by (simp add: update_triv)
      moreover have "\<not> no_output str_of m"
      proof
        assume "no_output str_of m"
        with assms(3) d items \<open>first_text_item items = None \<and> items' = items\<close> show False
          by (simp add: stripped_content_def get_content_from_message_def no_output_def field_def Let_def)
      qed
      ultimately show ?thesis by simp
    next
      assume "\<exists>old. first_text_item items' = Some (two_lines str_of at_end prompt old)"
      then obtain old where "first_text_item items' = Some (two_lines str_of at_end prompt old)" by blast
      moreover obtain t where t: "two_lines str_of at_end prompt old = PStr t" by (simp add: two_lines_def)
      ultimately have "stripped_content str_of m' = Inr (str_strip t)"
        using i(2) by (simp add: stripped_content_def get_content_from_message_def)
      with two_lines_stripped [OF assms(2) t] i(2) d(1) show ?thesis
        by (auto simp: has_role_def is_system_def)
    qed
  next
    case False
    obtain t where t: "two_lines str_of at_end prompt v = PStr t" by (simp add: two_lines_def)
    with assms(1) d False have m': "m' = PDict (dset ''content'' (PStr t) d)"
      by (cases v) (auto simp: update_message_content_def)
    with two_lines_stripped [OF assms(2) t] stripped_content_text [OF m'] d(1) show ?thesis
      by (auto simp: has_role_def is_system_def)
  qed
qed

lemma get_system_message_head: "is_system m = Inr True \<Longrightarrow> get_system_message (m # ms) = Inr (Some m)"
  by (cases m) (auto simp: is_system_def has_role_def split: option.splits)

lemma get_system_message_role: "get_system_message ms = Inr (Some m) \<Longrightarrow> has_role ''system'' m = Inr True"
  by (induction ms) (auto split: if_splits)

lemma existing_content_at: "get_system_message ms = Inr (Some m) \<Longrightarrow> existing_content str_of ms = stripped_content str_of m"
  by (simp add: existing_content_def)

text \<open>After the prompt was laid over the messages, the existing content has it.\<close>

lemma add_system_prompt:
  assumes "add_or_update_system_message str_of prompt ms at_end = Inr ms'" "trimmed prompt"
    and "existing_content str_of ms = Inr c"
  shows "(\<exists>c'. existing_content str_of ms' = Inr c' \<and> prompt_in at_end prompt c')
    \<or> (\<exists>m\<in>set ms. \<not> no_output str_of m) \<and> ms' = ms"
proof -
  have new: "existing_content str_of (PDict [(''role'', PStr ''system''), (''content'', PStr prompt)] # ms) = Inr prompt" for ms
    using assms(2) stripped_content_text [of _ "[(''role'', PStr ''system''), (''content'', PStr prompt)]" prompt str_of]
    by (simp add: existing_content_def has_role_def strip_trimmed) (simp add: trimmed_def strip_trimmed)
  have in_new: "prompt_in at_end prompt prompt" by (simp add: prompt_in_def)
  show ?thesis
  proof (cases ms)
    case Nil
    with assms(1) new in_new show ?thesis by (auto simp: add_or_update_system_message_def)
  next
    case (Cons m rest)
    with assms(1) obtain b where b: "is_system m = Inr b" by (auto simp: add_or_update_system_message_def)
    show ?thesis
    proof (cases b)
      case False
      with assms(1) b Cons new in_new show ?thesis by (auto simp: add_or_update_system_message_def)
    next
      case True
      with assms(1) b Cons obtain m' where m': "update_message_content str_of m prompt at_end = Inr m'" "ms' = m' # rest"
        by (auto simp: add_or_update_system_message_def)
      from assms(3) Cons get_system_message_head [of m rest] b True have "stripped_content str_of m = Inr c"
        by (auto simp: existing_content_def)
      note new = update_message_prompt [OF m'(1) assms(2) this]
      with get_system_message_head [of m' rest] b True m'(2)
      have "existing_content str_of ms' = stripped_content str_of m'" by (intro existing_content_at) simp
      with new Cons m'(2) show ?thesis by auto
    qed
  qed
qed

lemma replace_system_prompt:
  assumes "replace_system_message_content prompt ms = Inr ms'" "trimmed prompt" "existing_content str_of ms = Inr c"
  shows "ms' = ms \<or> existing_content str_of ms' = Inr prompt"
  using assms(1,3)
proof (induction ms arbitrary: ms')
  case (Cons m ms)
  from Cons.prems(1) obtain b where b: "has_role ''system'' m = Inr b" by auto
  show ?case
  proof (cases b)
    case True
    with Cons.prems(1) b obtain d where d: "m = PDict d" "ms' = PDict (dset ''content'' (PStr prompt) d) # ms"
      by (cases m) (auto simp: has_role_def)
    have "has_role ''system'' (PDict (dset ''content'' (PStr prompt) d)) = Inr True"
      using b True d(1) by (simp add: has_role_def)
    moreover have "stripped_content str_of (PDict (dset ''content'' (PStr prompt) d)) = Inr prompt"
      using stripped_content_text [of _ "dset ''content'' (PStr prompt) d" prompt str_of] assms(2)
      by (simp add: strip_trimmed) (simp add: trimmed_def)
    ultimately show ?thesis using d(2) by (simp add: existing_content_def)
  next
    case False
    with Cons b show ?thesis by (auto simp: existing_content_def)
  qed
qed simp

lemma messages_with: "messages_of (with_messages form ms) = Inr ms"
  by (simp add: messages_of_def with_messages_def get_or_def)

lemma with_messages_same: "with_messages (with_messages form ms) ms = with_messages form ms"
  by (simp add: with_messages_def update_triv)

definition lay_prompt :: "(py \<Rightarrow> string) \<Rightarrow> string \<Rightarrow> bool \<Rightarrow> bool \<Rightarrow> py list \<Rightarrow> py list result" where
  "lay_prompt str_of prompt replace at_end ms =
     (if replace then replace_system_message_content prompt ms else add_or_update_system_message str_of prompt ms at_end)"

lemma apply_system_prompt_eq:
  assumes "resolve_system_prompt render system = Inr resolved" "resolved \<noteq> []"
  shows "apply_system_prompt_to_body str_of render system form replace at_end =
    bindR (messages_of form) (\<lambda>ms. bindR (existing_content str_of ms) (\<lambda>c.
      if prompt_in at_end (str_strip resolved) c then Inr form
      else mapR (with_messages form) (lay_prompt str_of (str_strip resolved) replace at_end ms)))"
proof -
  have split: "(if c = p then x else if at_end \<and> ends_with c (line_feed @ p) then x
      else if \<not> at_end \<and> starts_with c (p @ line_feed) then x else y) = (if prompt_in at_end p c then x else y)"
    for c p and x y :: "pydict result"
    by (cases at_end) (auto simp: prompt_in_def)
  show ?thesis
    unfolding apply_system_prompt_to_body_def lay_prompt_def Let_def split by (simp add: assms)
qed

lemma without_prompt_head: "without_prompt str_of prompt (prompt_message prompt # ms) = Inr ms" if "trimmed prompt"
proof -
  have "stripped_content str_of (prompt_message prompt) = Inr prompt"
    using that stripped_content_text [of _ "[(''role'', PStr ''system''), (''content'', PStr prompt)]" prompt str_of]
    by (simp add: prompt_message_def strip_trimmed) (simp add: trimmed_def strip_trimmed)
  then show ?thesis by (simp add: prompt_message_def is_system_def)
qed

lemma without_prompt_others:
  "without_prompt str_of prompt ms = Inr ms' \<Longrightarrow>
    filter (\<lambda>m. is_system m \<noteq> Inr True) ms' = filter (\<lambda>m. is_system m \<noteq> Inr True) ms"
proof (induction ms arbitrary: ms')
  case (Cons m ms)
  then obtain b where b: "is_system m = Inr b" by auto
  show ?case
  proof (cases b)
    case False
    with Cons b show ?thesis by auto
  next
    case True
    with Cons.prems b obtain c where c: "stripped_content str_of m = Inr c" by auto
    obtain d where d: "m = PDict d" using b by (cases m) (auto simp: is_system_def)
    with True b have "is_system (PDict (dset ''content'' v d)) = Inr True" for v by (simp add: is_system_def)
    with Cons.prems b c d True show ?thesis by (auto split: if_splits)
  qed
qed simp

lemma item_messages_of: "item_messages form = Inr ms \<Longrightarrow> messages_of form = Inr ms"
  by (auto simp: item_messages_def messages_of_def get_or_def split: option.splits py.splits)

lemma no_output_content: "no_output str_of (PDict (dset ''content'' v d)) = no_output str_of (PDict d)"
  by (simp add: no_output_def field_def)

lemma no_output_kept:
  assumes "add_or_update_system_message str_of prompt ms at_end = Inr ms'" "\<forall>m\<in>set ms. no_output str_of m"
  shows "\<forall>m\<in>set ms'. no_output str_of m"
proof -
  have new: "no_output str_of (PDict [(''role'', PStr ''system''), (''content'', PStr prompt)])"
    by (simp add: no_output_def field_def get_output_text_def)
  have upd: "no_output str_of m'" if "update_message_content str_of m prompt at_end = Inr m'" "no_output str_of m" for m m'
  proof -
    from that(1) obtain d v where "m = PDict d" "m' = PDict (dset ''content'' v d)"
      by (cases m) (auto simp: update_message_content_def split: option.splits py.splits)
    with that(2) show ?thesis by (simp add: no_output_content)
  qed
  from assms new upd show ?thesis
    by (cases ms) (fastforce simp: add_or_update_system_message_def split: if_splits)+
qed

lemma global_prompt_laid:
  assumes "apply_global_system_prompt_to_body str_of render global form = Inr form'"
    and "resolve_system_prompt render global = Inr g" "str_strip g \<noteq> []"
    and "messages_of form = Inr ms" "\<forall>m\<in>set ms. no_output str_of m"
  shows "\<exists>ms' c. messages_of form' = Inr ms' \<and> existing_content str_of ms' = Inr c \<and> prompt_in False (str_strip g) c"
proof -
  from assms obtain c where c: "existing_content str_of ms = Inr c"
    by (auto simp: apply_global_system_prompt_to_body_def Let_def)
  show ?thesis
  proof (cases "prompt_in False (str_strip g) c")
    case True
    with assms c have "form' = form" by (simp add: apply_global_system_prompt_to_body_def prompt_in_def)
    with True c assms(4) show ?thesis by blast
  next
    case False
    with assms(1-4) c obtain ms' where ms': "add_or_update_system_message str_of (str_strip g) ms False = Inr ms'"
        "form' = with_messages form ms'"
      by (auto simp: apply_global_system_prompt_to_body_def prompt_in_def)
    from add_system_prompt [OF ms'(1) trimmed_strip [OF assms(3)] c] assms(5) ms'(2) show ?thesis
      by (auto simp: messages_with)
  qed
qed

lemma system_prompt_keeps_no_output:
  assumes "apply_system_prompt_to_body str_of render system form False at_end = Inr form'"
    and "messages_of form = Inr ms" "\<forall>m\<in>set ms. no_output str_of m"
  shows "\<exists>ms'. messages_of form' = Inr ms' \<and> (\<forall>m\<in>set ms'. no_output str_of m)"
proof (cases "form' = form")
  case False
  with assms(1,2) obtain p ms' where "add_or_update_system_message str_of p ms at_end = Inr ms'" "form' = with_messages form ms'"
    by (auto simp: apply_system_prompt_to_body_def Let_def split: if_splits)
  with no_output_kept assms(3) show ?thesis by (metis messages_with)
qed (use assms in blast)

lemma content_of_existing:
  assumes "existing_content str_of ms = Inr c" "c \<noteq> []" "content_or_none str_of ms = Inr v"
  shows "\<exists>t. v = PStr t \<and> t \<noteq> [] \<and> str_strip t = c"
proof -
  from assms(1,2) obtain m where m: "get_system_message ms = Inr (Some m)" "stripped_content str_of m = Inr c"
    by (auto simp: existing_content_def split: option.splits)
  with assms(3) have "get_content_from_message str_of m = Inr v" by (simp add: content_or_none_def)
  with m(2) obtain t where "v = PStr t" "str_strip t = c" by (auto simp: stripped_content_def split: py.splits)
  with assms(2) show ?thesis by (auto simp: strip_by_def rstrip_by_def lstrip_by_def)
qed

section \<open>Properties\<close>

text \<open>Laying a prompt over a request a second time changes nothing, in all three modes: before the
  existing system message, after it, or in its place; so a prompt that is applied at several stages of
  a request, with nothing laid between, stands in it once.\<close>

theorem system_prompt_applied_once:
  assumes "apply_system_prompt_to_body str_of render system form replace at_end = Inr form'"
    and "resolve_system_prompt render system = Inr resolved" "str_strip resolved \<noteq> []"
  shows "apply_system_prompt_to_body str_of render system form' replace at_end = Inr form'"
proof (cases "form' = form")
  case True
  with assms(1) show ?thesis by simp
next
  case False
  let ?p = "str_strip resolved"
  have p: "trimmed ?p" using assms(3) by (rule trimmed_strip)
  have p2: "resolved \<noteq> []" using assms(3) by (auto simp: strip_by_def rstrip_by_def lstrip_by_def)
  note eq = apply_system_prompt_eq [OF assms(2) p2]
  from assms(1) obtain ms where ms: "messages_of form = Inr ms" by (auto simp: eq)
  with assms(1) obtain c where c: "existing_content str_of ms = Inr c" by (auto simp: eq)
  with assms(1) False ms have c': "\<not> prompt_in at_end ?p c" by (auto simp: eq)
  with assms(1) ms c obtain ms' where ms': "lay_prompt str_of ?p replace at_end ms = Inr ms'" "form' = with_messages form ms'"
    by (auto simp: eq)
  have m: "messages_of form' = Inr ms'" unfolding ms'(2) by (rule messages_with)
  have "ms' = ms \<or> (\<exists>c'. existing_content str_of ms' = Inr c' \<and> prompt_in at_end ?p c')"
    using ms'(1) c p replace_system_prompt [of ?p ms ms' str_of c] add_system_prompt [of str_of ?p ms at_end ms' c]
    by (auto simp: prompt_in_def lay_prompt_def split: if_splits)
  then show ?thesis
  proof
    assume same: "ms' = ms"
    then show ?thesis using c c' ms' m by (simp add: eq with_messages_same)
  next
    assume "\<exists>c'. existing_content str_of ms' = Inr c' \<and> prompt_in at_end ?p c'"
    then show ?thesis using m by (auto simp: eq)
  qed
qed

text \<open>At the provider the administrator's prompt becomes a message of its own before all others; the
  messages that are not system messages follow in their order, unchanged; and doing it again changes
  nothing.\<close>

theorem provider_prompt_first:
  assumes "apply_global_system_prompt_at_provider str_of render system form = Inr form'"
    and "resolve_system_prompt render system = Inr resolved" "str_strip resolved \<noteq> []"
  shows "\<exists>ms ms'. messages_of form = Inr ms \<and> messages_of form' = Inr (prompt_message (str_strip resolved) # ms')
    \<and> filter (\<lambda>m. is_system m \<noteq> Inr True) ms' = filter (\<lambda>m. is_system m \<noteq> Inr True) ms
    \<and> apply_global_system_prompt_at_provider str_of render system form' = Inr form'"
proof -
  let ?p = "str_strip resolved"
  from assms obtain ms ms' where ms: "messages_of form = Inr ms" "without_prompt str_of ?p ms = Inr ms'"
      "form' = with_messages form (prompt_message ?p # ms')"
    by (auto simp: apply_global_system_prompt_at_provider_def Let_def)
  have again: "apply_global_system_prompt_at_provider str_of render system form' = Inr form'"
    using assms(2,3) ms(3) without_prompt_head [OF trimmed_strip [OF assms(3)], of str_of ms']
    by (simp add: apply_global_system_prompt_at_provider_def Let_def messages_with with_messages_same del: without_prompt.simps)
  with ms without_prompt_others [OF ms(2)] show ?thesis by (auto simp: messages_with)
qed

text \<open>C33: After the last prompts of a chat request, whatever the parameters' prompt was, the system
  prompt that the metadata keeps begins with the administrator's, as long as no message of the request
  takes its text from an output.\<close>

theorem administrator_prompt_first:
  assumes "final_prompts str_of render global system form = Inr (form', kept, user)"
    and "resolve_system_prompt render global = Inr g" "str_strip g \<noteq> []"
    and "item_messages form = Inr ms" "\<forall>m\<in>set ms. no_output str_of m"
  shows "\<exists>c. kept = PStr c \<and> prompt_in False (str_strip g) (str_strip c)"
proof -
  from assms(1,4) obtain prompt present form1 ms' v where if1:
      "(if prompt \<noteq> [] \<and> \<not> present
        then apply_system_prompt_to_body str_of render (PStr prompt) form False False else Inr form) = Inr form1"
    and f: "apply_global_system_prompt_to_body str_of render global form1 = Inr form'"
      "item_messages form' = Inr ms'" "content_or_none str_of ms' = Inr v" "kept = (if truthy v then v else PNone)"
    by (simp add: final_prompts_def Let_def) blast
  from if1 have f1: "form1 = form \<or> apply_system_prompt_to_body str_of render (PStr prompt) form False False = Inr form1"
    by (simp split: if_splits)
  have ms: "messages_of form = Inr ms" using assms(4) by (rule item_messages_of)
  obtain ms1 where "messages_of form1 = Inr ms1" "\<forall>m\<in>set ms1. no_output str_of m"
    using f1 system_prompt_keeps_no_output [OF _ ms assms(5)] ms assms(5) by blast
  from global_prompt_laid [OF f(1) assms(2,3) this] item_messages_of [OF f(2)] obtain c where
    c: "existing_content str_of ms' = Inr c" "prompt_in False (str_strip g) c" by auto
  have "c \<noteq> []" using c(2) assms(3) by (auto simp: prompt_in_def)
  from content_of_existing [OF c(1) this f(3)] f(4) c(2) show ?thesis by auto
qed

section \<open>Examples\<close>

definition demo_render :: "py \<Rightarrow> string result" where
  "demo_render v = (case v of PStr t \<Rightarrow> Inr t | _ \<Rightarrow> Inl TypeError)"

definition demo_prompt_form :: "string \<Rightarrow> pydict" where
  "demo_prompt_form prompt = [(''messages'', PList [PDict [(''role'', PStr ''system''), (''content'', PStr prompt)],
     PDict [(''role'', PStr ''user''), (''content'', PStr ''hi'')]])]"

lemma system_prompt_applied_once_witness:
  "apply_system_prompt_to_body (\<lambda>_. []) demo_render (PStr '' be kind '') (demo_prompt_form (''be kind'' @ line_feed @ ''really'')) False False
     = Inr (demo_prompt_form (''be kind'' @ line_feed @ ''really''))"
proof -
  have "apply_system_prompt_to_body (\<lambda>_. []) demo_render (PStr '' be kind '') (demo_prompt_form ''really'') False False
      = Inr (demo_prompt_form (''be kind'' @ line_feed @ ''really''))" by code_simp
  moreover have "resolve_system_prompt demo_render (PStr '' be kind '') = Inr '' be kind ''" by code_simp
  moreover have "str_strip '' be kind '' \<noteq> []" by code_simp
  ultimately show ?thesis by (rule system_prompt_applied_once)
qed

lemma provider_prompt_first_witness:
  "apply_global_system_prompt_at_provider (\<lambda>_. []) demo_render (PStr ''obey'')
     [(''messages'', PList [prompt_message ''obey'', PDict [(''role'', PStr ''user''), (''content'', PStr ''hi'')]])]
   = Inr [(''messages'', PList [prompt_message ''obey'', PDict [(''role'', PStr ''user''), (''content'', PStr ''hi'')]])]"
proof -
  have "apply_global_system_prompt_at_provider (\<lambda>_. []) demo_render (PStr ''obey'') (demo_prompt_form ''obey'')
      = Inr [(''messages'', PList [prompt_message ''obey'', PDict [(''role'', PStr ''user''), (''content'', PStr ''hi'')]])]"
    by code_simp
  moreover have "resolve_system_prompt demo_render (PStr ''obey'') = Inr ''obey''" by code_simp
  moreover have "str_strip ''obey'' \<noteq> []" by code_simp
  ultimately show ?thesis using provider_prompt_first by blast
qed

text \<open>
  A prompt of the parameters that already stands behind the administrator's is not recognised: it is
  laid before it, and the administrator's once more before both.
\<close>

definition doubled_prompt :: string where
  "doubled_prompt = ''G'' @ line_feed @ ''U'' @ line_feed @ ''G'' @ line_feed @ ''U''"

lemma prompts_are_doubled:
  "bindR (apply_global_system_prompt_to_body (\<lambda>_. []) demo_render (PStr ''G'') (demo_prompt_form ''U''))
     (final_prompts (\<lambda>_. []) demo_render (PStr ''G'') (PStr ''U''))
   = Inr (demo_prompt_form doubled_prompt, PStr doubled_prompt, PStr ''hi'')"
  by code_simp

lemma administrator_prompt_first_witness:
  "\<exists>c. PStr doubled_prompt = PStr c \<and> prompt_in False ''G'' (str_strip c)"
proof -
  have "final_prompts (\<lambda>_. []) demo_render (PStr ''G'') (PStr ''U'') (demo_prompt_form (''G'' @ line_feed @ ''U''))
      = Inr (demo_prompt_form doubled_prompt, PStr doubled_prompt, PStr ''hi'')" by code_simp
  moreover have "resolve_system_prompt demo_render (PStr ''G'') = Inr ''G''" by code_simp
  moreover have g: "str_strip ''G'' = ''G''" by code_simp
  moreover have "item_messages (demo_prompt_form (''G'' @ line_feed @ ''U'')) =
      Inr [PDict [(''role'', PStr ''system''), (''content'', PStr (''G'' @ line_feed @ ''U''))],
        PDict [(''role'', PStr ''user''), (''content'', PStr ''hi'')]]" by code_simp
  moreover have "\<forall>m\<in>set [PDict [(''role'', PStr ''system''), (''content'', PStr (''G'' @ line_feed @ ''U''))],
      PDict [(''role'', PStr ''user''), (''content'', PStr ''hi'')]]. no_output (\<lambda>_. []) m" by code_simp
  ultimately show ?thesis using administrator_prompt_first [of "\<lambda>_. []" demo_render "PStr ''G''" "PStr ''U''"] by (metis list.distinct(1))
qed

end
