(* ===== verification/Stored_Output.thy ===== *)
theory Stored_Output
  imports Py_Action Tool_Pairs
begin

text \<open>
  \<open>convert_output_to_messages\<close> of \<open>utils/misc.py\<close>: the messages of a conversation from the output
  items that were stored for an answer. The local lists of the loop are the state \<open>out_state\<close>;
  \<open>str_of\<close> is \<open>str\<close> of a value that is no string, \<open>dumps\<close> is \<open>json.dumps\<close>.
\<close>

section \<open>The loop over the items\<close>

definition call_type :: string where
  "call_type = ''function_call''"

definition result_type :: string where
  "result_type = ''function_call_output''"

lemma types_differ [simp]: "call_type \<noteq> result_type" "result_type \<noteq> call_type"
proof -
  have "length call_type \<noteq> length result_type" by (simp add: call_type_def result_type_def)
  then show "call_type \<noteq> result_type" "result_type \<noteq> call_type" by auto
qed

lemma types_known [simp]: "call_type \<noteq> []" "result_type \<noteq> []" "call_type \<noteq> ''message''" "result_type \<noteq> ''message''"
  by (simp_all add: call_type_def result_type_def)

record out_state =
  os_messages :: "py list"
  os_calls :: "py list"
  os_content :: "string list"
  os_reasoning :: "string list"
  os_details :: "py list"
  os_images :: "py list"

definition new_output :: out_state where
  "new_output = \<lparr>os_messages = [], os_calls = [], os_content = [], os_reasoning = [], os_details = [], os_images = []\<rparr>"

definition function_call_id :: "py \<Rightarrow> py list result" where
  "function_call_id item =
     bindR (py_get item ''type'') (\<lambda>t.
     if t \<noteq> PStr call_type then Inr []
     else bindR (py_get item ''call_id'') (\<lambda>i. if truthy i then mapR (\<lambda>v. [v]) (as_element i) else Inr []))"

definition function_call_ids :: "py list \<Rightarrow> py list result" where
  "function_call_ids output = mapR concat (listR function_call_id output)"

definition flush_pending :: "out_state \<Rightarrow> out_state" where
  "flush_pending s =
     (if os_content s = [] \<and> os_calls s = [] \<and> os_reasoning s = [] \<and> os_details s = [] then s
      else s\<lparr>os_messages := os_messages s @ [PDict (
               [(''role'', PStr ''assistant''), (''content'', PStr (str_join line_feed (os_content s)))]
               @ (if os_calls s \<noteq> [] then [(''tool_calls'', PList (os_calls s))] else [])
               @ (if os_reasoning s \<noteq> [] then [(''reasoning_content'', PStr (str_join line_feed (os_reasoning s)))] else [])
               @ (if os_details s \<noteq> [] then [(''reasoning_details'', PList (os_details s))] else []))],
             os_content := [], os_calls := [], os_reasoning := [], os_details := []\<rparr>)"

definition image_item :: "py \<Rightarrow> py" where
  "image_item url = PDict [(''type'', PStr ''image_url''), (''image_url'', PDict [(''url'', url)])]"

definition images_message :: "py list \<Rightarrow> py" where
  "images_message urls = PDict [(''role'', PStr ''user''), (''content'', PList (
     PDict [(''type'', PStr ''text''),
       (''text'', PStr ''Here are the images from the tool results above. Please analyze them.'')]
     # map image_item urls))]"

definition flush_tool_images :: "out_state \<Rightarrow> out_state" where
  "flush_tool_images s =
     (if os_images s = [] then s
      else s\<lparr>os_messages := os_messages s @ [images_message (os_images s)], os_images := []\<rparr>)"

text \<open>An item of the type \<open>message\<close>: its output texts.\<close>

definition output_text_part :: "py \<Rightarrow> string result" where
  "output_text_part part =
     bindR (py_get part ''type'') (\<lambda>t.
     if t = PStr ''output_text'' then bindR (py_get_or part ''text'' (PStr [])) the_str else Inr [])"

definition item_message_text :: "py \<Rightarrow> string result" where
  "item_message_text item =
     bindR (bindR (py_get_or item ''content'' (PList [])) py_iter) (\<lambda>parts. mapR concat (listR output_text_part parts))"

definition add_content :: "string \<Rightarrow> out_state \<Rightarrow> out_state" where
  "add_content t s = (if t = [] then s else s\<lparr>os_content := os_content s @ [t]\<rparr>)"

text \<open>An item of the type \<open>function_call\<close>: the tool call.\<close>

definition tool_call_of :: "(py \<Rightarrow> string) \<Rightarrow> pydict \<Rightarrow> py" where
  "tool_call_of dumps item =
     PDict [(''id'', get_or item ''call_id'' (PStr [])), (''type'', PStr ''function''),
       (''function'', PDict [(''name'', get_or item ''name'' (PStr [])),
         (''arguments'', case get_or item ''arguments'' (PStr ''{}'') of PStr a \<Rightarrow> PStr a | v \<Rightarrow> PStr (dumps v))])]"

text \<open>An item of the type \<open>function_call_output\<close>: its texts and images, and the tool message.\<close>

definition result_part :: "(py \<Rightarrow> string) \<Rightarrow> py \<Rightarrow> (string \<times> py list) result" where
  "result_part str_of part =
     bindR (py_get part ''type'') (\<lambda>t.
     if t = PStr ''input_text'' then mapR (\<lambda>v. (to_str str_of v, [])) (py_get_or part ''text'' (PStr []))
     else if t = PStr ''input_image''
     then mapR (\<lambda>url. ([], if truthy url then [url] else [])) (py_get_or part ''image_url'' (PStr []))
     else Inr ([], []))"

definition result_content :: "(py \<Rightarrow> string) \<Rightarrow> pydict \<Rightarrow> (string \<times> py list) result" where
  "result_content str_of item =
     bindR (py_iter (get_or item ''output'' (PList []))) (\<lambda>parts.
     mapR (\<lambda>ps. (concat (map fst ps), concat (map snd ps))) (listR (result_part str_of) parts))"

definition tool_message :: "bool \<Rightarrow> pydict \<Rightarrow> string \<Rightarrow> py list \<Rightarrow> py" where
  "tool_message flatten item content urls =
     PDict [(''role'', PStr ''tool''), (''tool_call_id'', get_or item ''call_id'' (PStr [])),
       (''content'',
        if flatten \<or> urls = [] then PStr content
        else PList (PDict [(''type'', PStr ''input_text''), (''text'', PStr content)]
          # map (\<lambda>url. PDict [(''type'', PStr ''input_image''), (''image_url'', url)]) urls))]"

definition result_step :: "(py \<Rightarrow> string) \<Rightarrow> bool \<Rightarrow> py list \<Rightarrow> pydict \<Rightarrow> out_state \<Rightarrow> out_state result" where
  "result_step str_of flatten ids item s =
     (let s = flush_pending s in
      bindR (result_content str_of item) (\<lambda>(content, urls).
      let s = s\<lparr>os_messages := os_messages s @ [tool_message flatten item content urls]\<rparr> in
      if flatten
      then mapR (\<lambda>known. if known then s\<lparr>os_images := os_images s @ urls\<rparr> else s) (member (PDict item) ''call_id'' ids)
      else Inr s))"

text \<open>An item of the type \<open>reasoning\<close>.\<close>

definition reasoning_part :: "py \<Rightarrow> string result" where
  "reasoning_part part =
     (case part of
       PDict p \<Rightarrow> if field p ''type'' = PStr ''output_text'' \<or> dget p ''text'' \<noteq> None
         then the_str (get_or p ''text'' (PStr [])) else Inr []
     | _ \<Rightarrow> Inl AttributeError)"

definition add_reasoning :: "(py \<Rightarrow> string) \<Rightarrow> py \<Rightarrow> pydict \<Rightarrow> string \<Rightarrow> out_state \<Rightarrow> out_state" where
  "add_reasoning str_of reasoning_format item t s =
     (if t = [] then s
      else if reasoning_format = PStr ''think_tags''
      then add_content (fmt str_of (get_or item ''start_tag'' (PStr ''<think>'')) @ t
             @ fmt str_of (get_or item ''end_tag'' (PStr ''</think>''))) s
      else if reasoning_format = PStr ''reasoning_content'' then s\<lparr>os_reasoning := os_reasoning s @ [t]\<rparr>
      else s)"

definition stored_reasoning_step ::
  "(py \<Rightarrow> string) \<Rightarrow> bool \<Rightarrow> py \<Rightarrow> pydict \<Rightarrow> out_state \<Rightarrow> out_state result" where
  "stored_reasoning_step str_of raw reasoning_format item s =
     (let details = (if raw then field item ''reasoning_details'' else PNone) in
      if \<not> truthy reasoning_format \<and> \<not> truthy details then Inr s
      else bindR (py_iter (py_or (get_or item ''summary'' (PList [])) (get_or item ''content'' (PList [])))) (\<lambda>parts.
        bindR (mapR concat (listR reasoning_part parts)) (\<lambda>t.
        let s = add_reasoning str_of reasoning_format item t s in
        Inr (if truthy details
             then s\<lparr>os_details := os_details s @ (case details of PList ds \<Rightarrow> ds | d \<Rightarrow> [d])\<rparr> else s))))"

text \<open>An item of the code interpreter.\<close>

definition interpreter_output :: "(py \<Rightarrow> string) \<Rightarrow> py \<Rightarrow> py" where
  "interpreter_output str_of v =
     (case v of PDict d \<Rightarrow> py_or (get_or d ''stdout'' (PStr [])) (get_or d ''result'' (PStr []))
      | _ \<Rightarrow> PStr (to_str str_of v))"

definition interpreter_step :: "(py \<Rightarrow> string) \<Rightarrow> pydict \<Rightarrow> out_state \<Rightarrow> out_state" where
  "interpreter_step str_of item s =
     (let program = get_or item ''code'' (PStr []);
          result = get_or item ''output'' (PStr []);
          s = (if truthy program
               then add_content (''<code_interpreter>'' @ line_feed @ fmt str_of program @ line_feed @ ''</code_interpreter>'') s
               else s);
          shown = interpreter_output str_of result
      in if truthy result \<and> truthy shown
         then add_content (''<code_interpreter_output>'' @ line_feed @ fmt str_of shown @ line_feed
                @ ''</code_interpreter_output>'') s
         else s)"

definition item_step ::
  "(py \<Rightarrow> string) \<Rightarrow> (py \<Rightarrow> string) \<Rightarrow> bool \<Rightarrow> py \<Rightarrow> bool \<Rightarrow> py list \<Rightarrow> out_state \<Rightarrow> py \<Rightarrow> out_state result" where
  "item_step str_of dumps raw reasoning_format flatten ids s item =
     (case item of
       PDict d \<Rightarrow>
         let t = get_or d ''type'' (PStr []);
             s = (if t \<noteq> PStr result_type then flush_tool_images s else s)
         in if t = PStr ''message'' then mapR (\<lambda>x. add_content x s) (item_message_text item)
            else if t = PStr call_type then Inr (s\<lparr>os_calls := os_calls s @ [tool_call_of dumps d]\<rparr>)
            else if t = PStr result_type then result_step str_of flatten ids d s
            else if t = PStr ''reasoning'' then stored_reasoning_step str_of raw reasoning_format d s
            else if t = PStr ''open_webui:code_interpreter'' then Inr (interpreter_step str_of d s)
            else if is_str t then Inr s else Inl AttributeError
     | _ \<Rightarrow> Inl AttributeError)"

definition output_messages ::
  "(py \<Rightarrow> string) \<Rightarrow> (py \<Rightarrow> string) \<Rightarrow> bool \<Rightarrow> py \<Rightarrow> bool \<Rightarrow> py list \<Rightarrow> py list result" where
  "output_messages str_of dumps raw reasoning_format flatten output =
     bindR (function_call_ids output) (\<lambda>ids.
     mapR (\<lambda>s. os_messages (flush_pending (flush_tool_images s)))
       (foldR (item_step str_of dumps raw reasoning_format flatten ids) new_output output))"

definition convert_output_to_messages ::
  "(py \<Rightarrow> string) \<Rightarrow> (py \<Rightarrow> string) \<Rightarrow> py \<Rightarrow> bool \<Rightarrow> py \<Rightarrow> bool \<Rightarrow> py list result" where
  "convert_output_to_messages str_of dumps output raw reasoning_format flatten =
     (case output of
       PList items \<Rightarrow> if items = [] then Inr []
         else bindR (output_messages str_of dumps raw reasoning_format flatten items) (reconcile_tool_pairs str_of)
     | _ \<Rightarrow> Inr [])"

section \<open>Calls and results\<close>

text \<open>
  The tool calls and the tool results of a conversation in one sequence, and those of the stored
  items; a call is answered when the sequence has a result for it, a result when it has its call.
\<close>

definition entries :: "py \<Rightarrow> (py + py) list" where
  "entries m = (if is_result m then [Inr m] else map Inl (calls_in m))"

definition item_entries :: "(py \<Rightarrow> string) \<Rightarrow> (py \<Rightarrow> string) \<Rightarrow> bool \<Rightarrow> py \<Rightarrow> (py + py) list" where
  "item_entries str_of dumps flatten item =
     (case item of
       PDict d \<Rightarrow>
         if field d ''type'' = PStr call_type then [Inl (tool_call_of dumps d)]
         else if field d ''type'' = PStr result_type
         then (case result_content str_of d of
                 Inr r \<Rightarrow> [Inr (tool_message flatten d (fst r) (snd r))] | Inl e \<Rightarrow> [])
         else []
     | _ \<Rightarrow> [])"

definition answered :: "(py + py) list \<Rightarrow> py + py \<Rightarrow> bool" where
  "answered es e = (case e of
     Inl c \<Rightarrow> truthy (attr c ''id'') \<and> (\<exists>m. Inr m \<in> set es \<and> attr m ''tool_call_id'' = attr c ''id'')
   | Inr m \<Rightarrow> truthy (attr m ''tool_call_id'') \<and> (\<exists>c. Inl c \<in> set es \<and> attr c ''id'' = attr m ''tool_call_id''))"

text \<open>The images shown to the model by user messages, and those of the results of known calls.\<close>

definition shown_images :: "py \<Rightarrow> py list" where
  "shown_images m =
     (if attr m ''role'' = PStr ''user''
      then map (\<lambda>i. attr (attr i ''image_url'') ''url'') (tl (elements (attr m ''content''))) else [])"

definition item_images :: "(py \<Rightarrow> string) \<Rightarrow> bool \<Rightarrow> (py + py) list \<Rightarrow> py \<Rightarrow> py list" where
  "item_images str_of flatten es item =
     (case item of
       PDict d \<Rightarrow>
         if flatten \<and> field d ''type'' = PStr result_type
         then (case result_content str_of d of
                 Inr r \<Rightarrow> if answered es (Inr (tool_message flatten d (fst r) (snd r))) then snd r else []
               | Inl e \<Rightarrow> [])
         else []
     | _ \<Rightarrow> [])"

lemma reconciled_message:
  assumes "reconcile_message str_of completed requested m = Inr out"
  shows "concat (map entries out) = filter (\<lambda>e. case e of Inl c \<Rightarrow> attr c ''id'' \<in> set completed
      | Inr r \<Rightarrow> attr r ''tool_call_id'' \<in> set requested) (entries m)
    \<and> concat (map shown_images out) = shown_images m"
  using assms
proof (cases rule: reconcile_message_cases)
  case dropped
  then show ?thesis by (simp add: entries_def shown_images_def is_result_def)
next
  case kept
  then show ?thesis by (simp add: entries_def)
next
  case (reduced cs)
  then show ?thesis
    by (simp add: entries_def shown_images_def is_result_def calls_in_def attr_with_tool_calls filter_map o_def)
next
  case bare
  then have "filter (\<lambda>c. attr c ''id'' \<in> set completed) (calls_in m) = []" by (simp add: filter_empty_conv)
  with bare show ?thesis
    by (auto simp: entries_def shown_images_def is_result_def calls_in_def attr_without_tool_calls filter_map o_def)
qed

lemma in_entries:
  "Inr r \<in> set (concat (map entries ms)) \<longleftrightarrow> r \<in> set ms \<and> is_result r"
  "Inl c \<in> set (concat (map entries ms)) \<longleftrightarrow> (\<exists>m \<in> set ms. c \<in> set (calls_in m))"
  by (auto simp: entries_def is_result_def calls_in_def split: if_splits)

lemma reconciled_entries:
  assumes "reconcile_tool_pairs str_of ms = Inr rs"
  shows "concat (map entries rs) = filter (answered (concat (map entries ms))) (concat (map entries ms))
    \<and> concat (map shown_images rs) = concat (map shown_images ms)"
proof -
  obtain completed requested l where c: "completed_ids ms = Inr completed" and q: "requested_ids ms = Inr requested"
    and l: "listR (reconcile_message str_of completed requested) ms = Inr l" "rs = concat l"
    by (rule reconcile_parts [OF assms])
  let ?keep = "\<lambda>e. case e of Inl c \<Rightarrow> attr c ''id'' \<in> set completed | Inr r \<Rightarrow> attr r ''tool_call_id'' \<in> set requested"
  have "concat (map entries (concat l)) = filter ?keep (concat (map entries ms))
      \<and> concat (map shown_images (concat l)) = concat (map shown_images ms)"
    using l(1)
  proof (induction ms arbitrary: l)
    case (Cons m ms)
    then obtain out l' where "reconcile_message str_of completed requested m = Inr out"
        "listR (reconcile_message str_of completed requested) ms = Inr l'" "l = out # l'" by auto
    with Cons.IH [of l'] reconciled_message show ?case by simp
  qed simp
  moreover have "?keep e = answered (concat (map entries ms)) e" for e
    unfolding answered_def in_entries
    using completed_ids_iff [OF c] requested_ids_iff [OF q] by (auto split: sum.split)
  ultimately show ?thesis using l(2) by simp
qed

text \<open>What the loop has collected.\<close>

definition state_entries :: "out_state \<Rightarrow> (py + py) list" where
  "state_entries s = concat (map entries (os_messages s)) @ map Inl (os_calls s)"

definition state_images :: "out_state \<Rightarrow> py list" where
  "state_images s = concat (map shown_images (os_messages s)) @ os_images s"

lemma flush_pending_entries:
  "concat (map entries (os_messages (flush_pending s))) = state_entries s"
  "os_calls (flush_pending s) = []" "os_images (flush_pending s) = os_images s"
  "concat (map shown_images (os_messages (flush_pending s))) = concat (map shown_images (os_messages s))"
  by (simp_all add: flush_pending_def state_entries_def entries_def shown_images_def is_result_def calls_in_def field_def)

lemma flush_tool_images_entries [simp]:
  "state_entries (flush_tool_images s) = state_entries s"
  "concat (map shown_images (os_messages (flush_tool_images s))) = state_images s"
  "os_images (flush_tool_images s) = []" "state_images (flush_tool_images s) = state_images s"
  by (simp_all add: flush_tool_images_def state_entries_def state_images_def entries_def shown_images_def
      is_result_def calls_in_def field_def images_message_def image_item_def o_def)

lemma add_entries [simp]:
  "state_entries (add_content t s) = state_entries s" "state_images (add_content t s) = state_images s"
  "state_entries (add_reasoning str_of f item t s) = state_entries s"
  "state_images (add_reasoning str_of f item t s) = state_images s"
  "state_entries (interpreter_step str_of item s) = state_entries s"
  "state_images (interpreter_step str_of item s) = state_images s"
  by (simp_all add: add_content_def add_reasoning_def interpreter_step_def state_entries_def state_images_def Let_def)

lemma stored_reasoning_entries:
  "stored_reasoning_step str_of raw f item s = Inr s' \<Longrightarrow>
    state_entries s' = state_entries s \<and> state_images s' = state_images s"
  by (auto simp: stored_reasoning_step_def Let_def state_entries_def [of "_\<lparr>os_details := _\<rparr>"]
      state_images_def [of "_\<lparr>os_details := _\<rparr>"] split: if_splits simp flip: state_entries_def state_images_def)

lemma result_entries:
  assumes "result_step str_of flatten ids item s = Inr s'"
  obtains content urls where "result_content str_of item = Inr (content, urls)"
    "state_entries s' = state_entries s @ [Inr (tool_message flatten item content urls)]"
    "state_images s' = state_images s
       @ (if flatten \<and> field item ''call_id'' \<in> set ids then urls else [])"
proof -
  from assms obtain content urls where c: "result_content str_of item = Inr (content, urls)"
    by (auto simp: result_step_def Let_def)
  have e: "entries (tool_message flatten item content urls) = [Inr (tool_message flatten item content urls)]"
    "shown_images (tool_message flatten item content urls) = []"
    by (simp_all add: entries_def is_result_def shown_images_def tool_message_def field_def)
  let ?s = "flush_pending s"
  let ?t = "?s\<lparr>os_messages := os_messages ?s @ [tool_message flatten item content urls]\<rparr>"
  from assms c have "s' = ?t\<lparr>os_images := os_images ?t @ (if flatten \<and> field item ''call_id'' \<in> set ids then urls else [])\<rparr>"
    by (auto simp: result_step_def Let_def member_def as_element_def field_def split: if_splits)
  then have "concat (map entries (os_messages s')) @ map Inl (os_calls s')
      = state_entries s @ [Inr (tool_message flatten item content urls)]"
    "concat (map shown_images (os_messages s')) @ os_images s'
      = concat (map shown_images (os_messages s)) @ os_images s
        @ (if flatten \<and> field item ''call_id'' \<in> set ids then urls else [])"
    using e by (simp_all add: flush_pending_entries)
  with c show thesis
    using that unfolding state_entries_def [of s'] state_images_def by simp
qed

lemma item_step_entries:
  assumes "item_step str_of dumps raw f flatten ids s item = Inr s'"
    and "\<And>d content urls. item = PDict d \<Longrightarrow> (field d ''call_id'' \<in> set ids)
           = answered es (Inr (tool_message flatten d content urls))"
  shows "state_entries s' = state_entries s @ item_entries str_of dumps flatten item
    \<and> state_images s' = state_images s @ item_images str_of flatten es item"
proof -
  from assms(1) obtain d where d: "item = PDict d" by (cases item) (auto simp: item_step_def)
  let ?t = "get_or d ''type'' (PStr [])"
  have t: "(?t = PStr x) = (field d ''type'' = PStr x)" if "x \<noteq> []" for x
    using that by (auto simp: get_or_def field_def split: option.splits)
  have tf: "?t = PStr call_type \<longleftrightarrow> field d ''type'' = PStr call_type"
    "?t = PStr result_type \<longleftrightarrow> field d ''type'' = PStr result_type"
    by (rule t, simp)+
  show ?thesis
  proof (cases "?t = PStr result_type")
    case True
    with assms(1) d have "result_step str_of flatten ids d s = Inr s'" by (simp add: item_step_def Let_def)
    then obtain content urls where "result_content str_of d = Inr (content, urls)"
      "state_entries s' = state_entries s @ [Inr (tool_message flatten d content urls)]"
      "state_images s' = state_images s @ (if flatten \<and> field d ''call_id'' \<in> set ids then urls else [])"
      by (rule result_entries)
    with True assms(2) [OF d, of content urls] tf(2) d show ?thesis
      by (cases flatten) (simp_all add: item_entries_def item_images_def)
  next
    case no: False
    let ?s = "flush_tool_images s"
    show ?thesis
    proof (cases "?t = PStr call_type")
      case True
      with assms(1) d no have "s' = ?s\<lparr>os_calls := os_calls ?s @ [tool_call_of dumps d]\<rparr>"
        by (simp add: item_step_def Let_def)
      then have "state_entries s' = state_entries ?s @ [Inl (tool_call_of dumps d)]" "state_images s' = state_images ?s"
        by (simp_all add: state_entries_def state_images_def)
      with True tf no d show ?thesis by (simp add: item_entries_def item_images_def)
    next
      case False
      with assms(1) d no have "state_entries s' = state_entries ?s \<and> state_images s' = state_images ?s"
        by (auto simp: item_step_def Let_def dest: stored_reasoning_entries split: if_splits)
      with False no tf d show ?thesis by (simp add: item_entries_def item_images_def)
    qed
  qed
qed

lemma loop_entries:
  assumes "foldR (item_step str_of dumps raw f flatten ids) s items = Inr s'"
    and "\<And>d content urls. PDict d \<in> set items \<Longrightarrow> (field d ''call_id'' \<in> set ids)
           = answered es (Inr (tool_message flatten d content urls))"
  shows "state_entries s' = state_entries s @ concat (map (item_entries str_of dumps flatten) items)
    \<and> state_images s' = state_images s @ concat (map (item_images str_of flatten es) items)"
  using assms
proof (induction items arbitrary: s)
  case (Cons item items)
  then obtain t where t: "item_step str_of dumps raw f flatten ids s item = Inr t"
      "foldR (item_step str_of dumps raw f flatten ids) t items = Inr s'" by auto
  have "state_entries t = state_entries s @ item_entries str_of dumps flatten item
    \<and> state_images t = state_images s @ item_images str_of flatten es item"
    by (rule item_step_entries [OF t(1)]) (use Cons.prems(2) in simp)
  with Cons.IH [OF t(2)] Cons.prems(2) show ?case by simp
qed simp

lemma function_call_ids_iff:
  assumes "function_call_ids items = Inr ids"
  shows "i \<in> set ids \<longleftrightarrow> truthy i \<and> (\<exists>d. PDict d \<in> set items \<and> field d ''type'' = PStr call_type \<and> field d ''call_id'' = i)"
proof -
  obtain l where l: "listR function_call_id items = Inr l" "ids = concat l"
    using assms by (auto simp: function_call_ids_def)
  have one: "\<exists>d. item = PDict d \<and> out = (if field d ''type'' = PStr call_type \<and> truthy (field d ''call_id'')
      then [field d ''call_id''] else [])" if "function_call_id item = Inr out" for item out
    using that by (cases item) (auto simp: function_call_id_def field_def as_element_def split: if_splits)
  have "\<exists>out. function_call_id item = Inr out" if "item \<in> set items" for item using listR_some [OF l(1) that] .
  then show ?thesis unfolding l(2) listR_mem [OF l(1)] using one by (fastforce split: if_splits)
qed

lemma call_entry: "field d ''type'' = PStr call_type \<Longrightarrow>
    item_entries str_of dumps flatten (PDict d) = [Inl (tool_call_of dumps d)]"
  by (simp add: item_entries_def)

lemma call_entryD:
  assumes "Inl c \<in> set (item_entries str_of dumps flatten item)"
  shows "\<exists>d. item = PDict d \<and> field d ''type'' = PStr call_type \<and> c = tool_call_of dumps d"
proof -
  have "item_entries str_of dumps flatten item = []" if "\<And>d. item \<noteq> PDict d"
    using that by (cases item) (auto simp: item_entries_def)
  with assms obtain d where d: "item = PDict d" by fastforce
  show ?thesis
  proof (cases "field d ''type'' = PStr call_type")
    case True
    from assms have "c = tool_call_of dumps d" by (simp add: d call_entry [OF True])
    with d True show ?thesis by blast
  next
    case False
    then have "item_entries str_of dumps flatten item = [] \<or> (\<exists>m. item_entries str_of dumps flatten item = [Inr m])"
      unfolding d by (cases "result_content str_of d") (simp_all add: item_entries_def)
    with assms show ?thesis by auto
  qed
qed

lemma converted_entries:
  assumes "convert_output_to_messages str_of dumps (PList items) raw f flatten = Inr ms"
    and "es = concat (map (item_entries str_of dumps flatten) items)"
  shows "concat (map entries ms) = filter (answered es) es
    \<and> concat (map shown_images ms) = concat (map (item_images str_of flatten es) items)"
proof (cases "items = []")
  case True
  with assms show ?thesis by (simp add: convert_output_to_messages_def)
next
  case False
  with assms(1) obtain ids s where ids: "function_call_ids items = Inr ids"
    and s: "foldR (item_step str_of dumps raw f flatten ids) new_output items = Inr s"
    and ms: "reconcile_tool_pairs str_of (os_messages (flush_pending (flush_tool_images s))) = Inr ms"
    by (auto simp: convert_output_to_messages_def output_messages_def)
  have called: "Inl c \<in> set es \<longleftrightarrow>
      (\<exists>d. PDict d \<in> set items \<and> field d ''type'' = PStr call_type \<and> c = tool_call_of dumps d)" for c
  proof
    assume "Inl c \<in> set es"
    then obtain item where "item \<in> set items" "Inl c \<in> set (item_entries str_of dumps flatten item)"
      unfolding assms(2) by auto
    with call_entryD show "\<exists>d. PDict d \<in> set items \<and> field d ''type'' = PStr call_type \<and> c = tool_call_of dumps d"
      by blast
  next
    assume "\<exists>d. PDict d \<in> set items \<and> field d ''type'' = PStr call_type \<and> c = tool_call_of dumps d"
    then obtain d where "PDict d \<in> set items" "Inl c \<in> set (item_entries str_of dumps flatten (PDict d))"
      using call_entry [of _ str_of dumps flatten] by auto
    then show "Inl c \<in> set es" unfolding assms(2) by auto
  qed
  have id: "truthy i \<Longrightarrow> attr (tool_call_of dumps d) ''id'' = i \<longleftrightarrow> field d ''call_id'' = i"
    "truthy (get_or d ''call_id'' (PStr [])) \<longleftrightarrow> truthy (field d ''call_id'')"
    "truthy (field d ''call_id'') \<Longrightarrow> get_or d ''call_id'' (PStr []) = field d ''call_id''" for i d
    by (auto simp: tool_call_of_def field_def get_or_def split: option.splits)
  have "(field d ''call_id'' \<in> set ids) = answered es (Inr (tool_message flatten d content urls))" for d content urls
    using id unfolding function_call_ids_iff [OF ids] answered_def called
    by (auto simp: tool_message_def field_def [of "[_, _, _]"])
  note l = loop_entries [OF s this]
  have "state_entries new_output = []" "state_images new_output = []"
    by (simp_all add: state_entries_def state_images_def new_output_def)
  with l have e: "state_entries s = es \<and> state_images s = concat (map (item_images str_of flatten es) items)"
    by (simp add: assms(2))
  with reconciled_entries [OF ms] show ?thesis by (simp add: flush_pending_entries)
qed

section \<open>What the stored items say\<close>

text \<open>
  The tool items of an answer, their ids, and what a result holds: the texts and the images of its parts.
  An item is answered when its id counts and an item of the other type has it.
\<close>

fun tool_item :: "py \<Rightarrow> pydict list" where
  "tool_item (PDict d) = (if field d ''type'' = PStr call_type \<or> field d ''type'' = PStr result_type then [d] else [])"
| "tool_item _ = []"

definition item_call_id :: "pydict \<Rightarrow> py" where
  "item_call_id d = (case dget d ''call_id'' of None \<Rightarrow> PStr [] | Some i \<Rightarrow> i)"

definition answered_item :: "pydict list \<Rightarrow> pydict \<Rightarrow> bool" where
  "answered_item ds d \<longleftrightarrow> truthy (item_call_id d) \<and>
     (\<exists>e \<in> set ds. field e ''type'' \<noteq> field d ''type'' \<and> item_call_id e = item_call_id d)"

definition output_parts :: "pydict \<Rightarrow> py list" where
  "output_parts d = (case dget d ''output'' of Some (PList parts) \<Rightarrow> parts | _ \<Rightarrow> [])"

definition result_texts :: "(py \<Rightarrow> string) \<Rightarrow> pydict \<Rightarrow> string" where
  "result_texts str_of d = concat (map (\<lambda>part. if attr part ''type'' = PStr ''input_text''
     then (case part of PDict p \<Rightarrow> (case dget p ''text'' of None \<Rightarrow> [] | Some v \<Rightarrow> to_str str_of v) | _ \<Rightarrow> []) else [])
     (output_parts d))"

definition item_urls :: "pydict \<Rightarrow> py list" where
  "item_urls d = concat (map (\<lambda>part. if attr part ''type'' = PStr ''input_image'' \<and> truthy (attr part ''image_url'')
     then [attr part ''image_url''] else []) (output_parts d))"

text \<open>A call of the messages that is the one of an item, and a tool message that is the result of an item.\<close>

fun shown_as :: "(py \<Rightarrow> string) \<Rightarrow> (py \<Rightarrow> string) \<Rightarrow> bool \<Rightarrow> py + py \<Rightarrow> pydict \<Rightarrow> bool" where
  "shown_as str_of dumps flatten (Inl c) d \<longleftrightarrow> field d ''type'' = PStr call_type \<and> attr c ''id'' = item_call_id d \<and>
     attr (attr c ''function'') ''name'' = (case dget d ''name'' of None \<Rightarrow> PStr [] | Some n \<Rightarrow> n) \<and>
     attr (attr c ''function'') ''arguments'' = (case dget d ''arguments'' of None \<Rightarrow> PStr ''{}''
       | Some (PStr a) \<Rightarrow> PStr a | Some v \<Rightarrow> PStr (dumps v))"
| "shown_as str_of dumps flatten (Inr m) d \<longleftrightarrow> field d ''type'' = PStr result_type \<and> attr m ''tool_call_id'' = item_call_id d \<and>
     attr m ''content'' = (if flatten \<or> item_urls d = [] then PStr (result_texts str_of d)
       else PList (PDict [(''type'', PStr ''input_text''), (''text'', PStr (result_texts str_of d))] #
         map (\<lambda>u. PDict [(''type'', PStr ''input_image''), (''image_url'', u)]) (item_urls d)))"

lemma result_part_says:
  assumes "result_part str_of part = Inr r"
  shows "r = (if attr part ''type'' = PStr ''input_text''
       then (case part of PDict p \<Rightarrow> (case dget p ''text'' of None \<Rightarrow> [] | Some v \<Rightarrow> to_str str_of v) | _ \<Rightarrow> []) else [],
     if attr part ''type'' = PStr ''input_image'' \<and> truthy (attr part ''image_url'') then [attr part ''image_url''] else [])
     \<and> is_dict part"
  using assms by (cases part) (auto simp: result_part_def field_def to_str_def split: if_splits option.splits)

lemma result_parts_say:
  assumes "listR (result_part str_of) parts = Inr rs"
  shows "rs = map (\<lambda>part. (if attr part ''type'' = PStr ''input_text''
       then (case part of PDict p \<Rightarrow> (case dget p ''text'' of None \<Rightarrow> [] | Some v \<Rightarrow> to_str str_of v) | _ \<Rightarrow> []) else [],
     if attr part ''type'' = PStr ''input_image'' \<and> truthy (attr part ''image_url'') then [attr part ''image_url''] else [])) parts
     \<and> (\<forall>part \<in> set parts. is_dict part)"
  using assms by (induction parts arbitrary: rs) (auto dest: result_part_says)

lemma no_pairs: "(\<forall>a b. (a, b) \<notin> set xs) \<longleftrightarrow> xs = []"
  by (cases xs) auto

lemma result_content_says:
  assumes "result_content str_of d = Inr (content, urls)"
  shows "content = result_texts str_of d \<and> urls = item_urls d"
proof -
  from assms obtain parts rs where p: "py_iter (get_or d ''output'' (PList [])) = Inr parts"
    "listR (result_part str_of) parts = Inr rs" "content = concat (map fst rs)" "urls = concat (map snd rs)"
    by (auto simp: result_content_def)
  note rs = result_parts_say [OF p(2)]
  have "parts = output_parts d"
    using p(1) rs by (auto simp: output_parts_def get_or_def no_pairs split: option.splits py.splits)
  with p rs show ?thesis by (simp add: result_texts_def item_urls_def o_def)
qed

lemma all_results_read:
  assumes "foldR (item_step str_of dumps raw f flatten ids) s items = Inr s'" and "item \<in> set items"
  shows "\<exists>d. item = PDict d \<and> (field d ''type'' = PStr result_type \<longrightarrow> (\<exists>content urls. result_content str_of d = Inr (content, urls)))"
  using assms
proof (induction items arbitrary: s)
  case (Cons x items)
  then obtain t where t: "item_step str_of dumps raw f flatten ids s x = Inr t"
    "foldR (item_step str_of dumps raw f flatten ids) t items = Inr s'" by auto
  show ?case
  proof (cases "item = x")
    case True
    from t(1) obtain d where d: "x = PDict d" by (cases x) (auto simp: item_step_def)
    have "\<exists>content urls. result_content str_of d = Inr (content, urls)" if "field d ''type'' = PStr result_type"
    proof -
      have "get_or d ''type'' (PStr []) = PStr result_type" using that by (auto simp: get_or_def field_def split: option.splits)
      with t(1) d show ?thesis by (auto simp: item_step_def Let_def result_step_def)
    qed
    with True d show ?thesis by blast
  next
    case False
    with Cons.prems(2) Cons.IH [OF t(2)] show ?thesis by simp
  qed
qed simp

lemma item_shown:
  assumes "\<exists>d. item = PDict d \<and> (field d ''type'' = PStr result_type \<longrightarrow> (\<exists>content urls. result_content str_of d = Inr (content, urls)))"
  shows "list_all2 (shown_as str_of dumps flatten) (item_entries str_of dumps flatten item) (tool_item item)"
proof -
  obtain d where d: "item = PDict d"
    and r: "field d ''type'' = PStr result_type \<Longrightarrow> \<exists>content urls. result_content str_of d = Inr (content, urls)"
    using assms by blast
  consider "field d ''type'' = PStr call_type" | "field d ''type'' = PStr result_type"
    | "field d ''type'' \<noteq> PStr call_type" "field d ''type'' \<noteq> PStr result_type" by blast
  then show ?thesis
  proof cases
    case 1
    then show ?thesis
      by (simp add: d item_entries_def tool_call_of_def item_call_id_def get_or_def field_def split: option.split py.split)
  next
    case 2
    then obtain content urls where c: "result_content str_of d = Inr (content, urls)" using r by blast
    have "field d ''type'' \<noteq> PStr call_type" using 2 types_differ by simp
    with 2 c result_content_says [OF c] show ?thesis
      by (simp add: d item_entries_def tool_message_def item_call_id_def get_or_def field_def)
  next
    case 3
    then show ?thesis by (simp add: d item_entries_def)
  qed
qed

lemma list_all2_concat: "(\<And>x. x \<in> set xs \<Longrightarrow> list_all2 P (f x) (g x)) \<Longrightarrow> list_all2 P (concat (map f xs)) (concat (map g xs))"
  by (induction xs) (auto intro: list_all2_appendI)

lemma list_all2_filter:
  "list_all2 P xs ys \<Longrightarrow> (\<And>x y. P x y \<Longrightarrow> y \<in> set ys \<Longrightarrow> Q x \<longleftrightarrow> R y) \<Longrightarrow> list_all2 P (filter Q xs) (filter R ys)"
  by (induction xs ys rule: list_all2_induct) auto

lemma shown_types: "shown_as str_of dumps flatten (Inl c) d \<Longrightarrow> field d ''type'' = PStr call_type"
    "shown_as str_of dumps flatten (Inr m) d \<Longrightarrow> field d ''type'' = PStr result_type"
  by simp_all

lemma answered_shown:
  assumes all: "list_all2 (shown_as str_of dumps flatten) es ds" and "shown_as str_of dumps flatten e d"
  shows "answered es e \<longleftrightarrow> answered_item ds d"
proof -
  have right: "\<exists>d' \<in> set ds. shown_as str_of dumps flatten e' d'" if "e' \<in> set es" for e'
    using that all by (metis in_set_conv_nth list_all2_conv_all_nth)
  have left: "\<exists>e' \<in> set es. shown_as str_of dumps flatten e' d'" if "d' \<in> set ds" for d'
    using that all by (metis in_set_conv_nth list_all2_conv_all_nth)
  show ?thesis
  proof (cases e)
    case (Inl c)
    then have d: "field d ''type'' = PStr call_type" "attr c ''id'' = item_call_id d" using assms(2) by auto
    have "(\<exists>m. Inr m \<in> set es \<and> attr m ''tool_call_id'' = item_call_id d) \<longleftrightarrow>
        (\<exists>d' \<in> set ds. field d' ''type'' \<noteq> field d ''type'' \<and> item_call_id d' = item_call_id d)"
    proof
      assume "\<exists>m. Inr m \<in> set es \<and> attr m ''tool_call_id'' = item_call_id d"
      then obtain m d' where "attr m ''tool_call_id'' = item_call_id d" "d' \<in> set ds" "shown_as str_of dumps flatten (Inr m) d'"
        using right by blast
      then have "d' \<in> set ds" "field d' ''type'' \<noteq> field d ''type''" "item_call_id d' = item_call_id d" using d by simp_all
      then show "\<exists>d' \<in> set ds. field d' ''type'' \<noteq> field d ''type'' \<and> item_call_id d' = item_call_id d" by blast
    next
      assume "\<exists>d' \<in> set ds. field d' ''type'' \<noteq> field d ''type'' \<and> item_call_id d' = item_call_id d"
      then obtain d' e' where e': "field d' ''type'' \<noteq> field d ''type''" "item_call_id d' = item_call_id d"
        "e' \<in> set es" "shown_as str_of dumps flatten e' d'" using left by blast
      then show "\<exists>m. Inr m \<in> set es \<and> attr m ''tool_call_id'' = item_call_id d" using d by (cases e') auto
    qed
    with Inl d show ?thesis by (simp add: answered_def answered_item_def)
  next
    case (Inr m)
    then have d: "field d ''type'' = PStr result_type" "attr m ''tool_call_id'' = item_call_id d" using assms(2) by auto
    have "(\<exists>c. Inl c \<in> set es \<and> attr c ''id'' = item_call_id d) \<longleftrightarrow>
        (\<exists>d' \<in> set ds. field d' ''type'' \<noteq> field d ''type'' \<and> item_call_id d' = item_call_id d)"
    proof
      assume "\<exists>c. Inl c \<in> set es \<and> attr c ''id'' = item_call_id d"
      then obtain c d' where "attr c ''id'' = item_call_id d" "d' \<in> set ds" "shown_as str_of dumps flatten (Inl c) d'"
        using right by blast
      then have "d' \<in> set ds" "field d' ''type'' \<noteq> field d ''type''" "item_call_id d' = item_call_id d" using d by simp_all
      then show "\<exists>d' \<in> set ds. field d' ''type'' \<noteq> field d ''type'' \<and> item_call_id d' = item_call_id d" by blast
    next
      assume "\<exists>d' \<in> set ds. field d' ''type'' \<noteq> field d ''type'' \<and> item_call_id d' = item_call_id d"
      then obtain d' e' where e': "field d' ''type'' \<noteq> field d ''type''" "item_call_id d' = item_call_id d"
        "e' \<in> set es" "shown_as str_of dumps flatten e' d'" using left by blast
      then show "\<exists>c. Inl c \<in> set es \<and> attr c ''id'' = item_call_id d" using d by (cases e') auto
    qed
    with Inr d show ?thesis by (simp add: answered_def answered_item_def)
  qed
qed

lemma concat_parts:
  assumes "\<And>x. x \<in> set xs \<Longrightarrow> f x = (if b then concat (map g (filter P (h x))) else [])"
  shows "concat (map f xs) = (if b then concat (map g (filter P (concat (map h xs)))) else [])"
  using assms by (induction xs) auto

lemma item_images_read:
  assumes "\<exists>d. item = PDict d \<and> (field d ''type'' = PStr result_type \<longrightarrow> (\<exists>content urls. result_content str_of d = Inr (content, urls)))"
    and "\<And>e d. shown_as str_of dumps flatten e d \<Longrightarrow> answered es e \<longleftrightarrow> answered_item ds d"
  shows "item_images str_of flatten es item = (if flatten then concat (map item_urls
      (filter (\<lambda>d. field d ''type'' = PStr result_type \<and> answered_item ds d) (tool_item item))) else [])"
proof -
  obtain d where d: "item = PDict d"
    and r: "field d ''type'' = PStr result_type \<Longrightarrow> \<exists>content urls. result_content str_of d = Inr (content, urls)"
    using assms(1) by blast
  show ?thesis
  proof (cases "field d ''type'' = PStr result_type")
    case True
    then obtain content urls where c: "result_content str_of d = Inr (content, urls)" using r by blast
    have "shown_as str_of dumps flatten (Inr (tool_message flatten d content urls)) d"
      using True result_content_says [OF c]
      by (simp add: tool_message_def item_call_id_def get_or_def field_def)
    with assms(2) have "answered es (Inr (tool_message flatten d content urls)) \<longleftrightarrow> answered_item ds d" by blast
    with True c result_content_says [OF c] show ?thesis by (cases flatten) (simp_all add: d item_images_def)
  next
    case False
    then show ?thesis by (simp add: d item_images_def)
  qed
qed

text \<open>C34: a stored answer reads back with its tools. Let the tool items be the stored calls and results. Those that count,
  with an id and with an item of the other kind that has the same id, are in their order the tool calls and tool results of
  the messages, each once and no others: a call with the item's id, name and arguments, text as it is and any other value
  as JSON; a result with the item's id and the texts of its output joined, and, unless images are moved to user
  messages, its images. Where they are moved, exactly the images of the results that count are shown, in their order.\<close>

theorem stored_output_keeps_tools:
  assumes "convert_output_to_messages str_of dumps (PList items) raw f flatten = Inr ms"
    and "ds = concat (map tool_item items)"
  shows "list_all2 (shown_as str_of dumps flatten) (concat (map entries ms)) (filter (answered_item ds) ds)
    \<and> concat (map shown_images ms) = (if flatten then concat (map item_urls
        (filter (\<lambda>d. field d ''type'' = PStr result_type \<and> answered_item ds d) ds)) else [])"
proof (cases "items = []")
  case True
  with assms show ?thesis by (simp add: convert_output_to_messages_def)
next
  case False
  then obtain ids s where s: "foldR (item_step str_of dumps raw f flatten ids) new_output items = Inr s"
    using assms(1) by (auto simp: convert_output_to_messages_def output_messages_def)
  note read = all_results_read [OF s]
  let ?es = "concat (map (item_entries str_of dumps flatten) items)"
  have all: "list_all2 (shown_as str_of dumps flatten) ?es ds"
    unfolding assms(2) by (rule list_all2_concat) (rule item_shown [OF read])
  note answered = answered_shown [OF all]
  have "item_images str_of flatten ?es item = (if flatten then concat (map item_urls
      (filter (\<lambda>d. field d ''type'' = PStr result_type \<and> answered_item ds d) (tool_item item))) else [])"
    if "item \<in> set items" for item
    using item_images_read [OF read [OF that] answered] .
  then have "concat (map (item_images str_of flatten ?es) items) = (if flatten then concat (map item_urls
      (filter (\<lambda>d. field d ''type'' = PStr result_type \<and> answered_item ds d) ds)) else [])"
    unfolding assms(2) by (rule concat_parts)
  with converted_entries [OF assms(1) refl] list_all2_filter [OF all answered] show ?thesis by simp
qed

section \<open>An example\<close>

definition demo_item :: "string \<Rightarrow> pydict \<Rightarrow> py" where
  "demo_item t d = PDict ((''type'', PStr t) # d)"

definition demo_call_item :: py where
  "demo_call_item = demo_item call_type [(''call_id'', PStr ''1''), (''name'', PStr ''find''), (''arguments'', PStr ''{}'')]"

definition demo_open_call_item :: py where
  "demo_open_call_item = demo_item call_type [(''call_id'', PStr ''2''), (''name'', PStr ''draw'')]"

definition demo_result_item :: py where
  "demo_result_item = demo_item result_type [(''call_id'', PStr ''1''), (''output'',
     PList [demo_item ''input_text'' [(''text'', PStr ''two'')], demo_item ''input_image'' [(''image_url'', PStr ''u'')]])]"

definition demo_text_item :: py where
  "demo_text_item = demo_item ''message'' [(''content'', PList [demo_item ''output_text'' [(''text'', PStr ''Two.'')]])]"

definition demo_output :: "py list" where
  "demo_output = [demo_call_item, demo_open_call_item, demo_result_item, demo_text_item]"

definition demo_stored_call :: "string \<Rightarrow> string \<Rightarrow> py" where
  "demo_stored_call i name = PDict [(''id'', PStr i), (''type'', PStr ''function''),
     (''function'', PDict [(''name'', PStr name), (''arguments'', PStr ''{}'')])]"

definition demo_stored_result :: py where
  "demo_stored_result = PDict [(''role'', PStr ''tool''), (''tool_call_id'', PStr ''1''), (''content'', PStr ''two'')]"

definition demo_stored_calls :: "py list \<Rightarrow> py" where
  "demo_stored_calls calls =
     PDict [(''role'', PStr ''assistant''), (''content'', PStr []), (''tool_calls'', PList calls)]"

definition demo_stored_text :: py where
  "demo_stored_text = PDict [(''role'', PStr ''assistant''), (''content'', PStr ''Two.'')]"

abbreviation demo_step :: "out_state \<Rightarrow> py \<Rightarrow> out_state result" where
  "demo_step \<equiv> item_step (\<lambda>_. []) (\<lambda>_. []) False PNone True [PStr ''1'', PStr ''2'']"

lemma demo_steps:
  "demo_step new_output demo_call_item = Inr (new_output\<lparr>os_calls := [demo_stored_call ''1'' ''find'']\<rparr>)"
  "demo_step (new_output\<lparr>os_calls := [demo_stored_call ''1'' ''find'']\<rparr>) demo_open_call_item
     = Inr (new_output\<lparr>os_calls := [demo_stored_call ''1'' ''find'', demo_stored_call ''2'' ''draw'']\<rparr>)"
  "demo_step (new_output\<lparr>os_calls := [demo_stored_call ''1'' ''find'', demo_stored_call ''2'' ''draw'']\<rparr>) demo_result_item
     = Inr (new_output\<lparr>os_messages := [demo_stored_calls [demo_stored_call ''1'' ''find'', demo_stored_call ''2'' ''draw''],
         demo_stored_result], os_images := [PStr ''u'']\<rparr>)"
  "demo_step (new_output\<lparr>os_messages := [demo_stored_calls [demo_stored_call ''1'' ''find'', demo_stored_call ''2'' ''draw''],
         demo_stored_result], os_images := [PStr ''u'']\<rparr>) demo_text_item
     = Inr (new_output\<lparr>os_messages := [demo_stored_calls [demo_stored_call ''1'' ''find'', demo_stored_call ''2'' ''draw''],
         demo_stored_result, images_message [PStr ''u'']], os_content := [''Two.'']\<rparr>)"
  by code_simp+

lemma demo_function_call_ids: "function_call_ids demo_output = Inr [PStr ''1'', PStr ''2'']"
  by code_simp

lemma demo_output_messages:
  "output_messages (\<lambda>_. []) (\<lambda>_. []) False PNone True demo_output = Inr [
     demo_stored_calls [demo_stored_call ''1'' ''find'', demo_stored_call ''2'' ''draw''],
     demo_stored_result, images_message [PStr ''u''], demo_stored_text]"
proof -
  have "foldR demo_step new_output demo_output = Inr (new_output\<lparr>os_messages :=
      [demo_stored_calls [demo_stored_call ''1'' ''find'', demo_stored_call ''2'' ''draw''],
         demo_stored_result, images_message [PStr ''u'']], os_content := [''Two.'']\<rparr>)"
    by (simp add: demo_output_def demo_steps del: bindR_Inr_iff)
  then show ?thesis
    by (simp add: output_messages_def demo_function_call_ids del: bindR_Inr_iff mapR_Inr_iff)
      (simp add: flush_pending_def flush_tool_images_def new_output_def demo_stored_text_def)
qed

lemma demo_output_converted:
  "convert_output_to_messages (\<lambda>_. []) (\<lambda>_. []) (PList demo_output) False PNone True = Inr [
     demo_stored_calls [demo_stored_call ''1'' ''find''], demo_stored_result, images_message [PStr ''u''], demo_stored_text]"
proof -
  have "reconcile_tool_pairs (\<lambda>_. []) [demo_stored_calls [demo_stored_call ''1'' ''find'', demo_stored_call ''2'' ''draw''],
     demo_stored_result, images_message [PStr ''u''], demo_stored_text] = Inr [demo_stored_calls [demo_stored_call ''1'' ''find''],
     demo_stored_result, images_message [PStr ''u''], demo_stored_text]" by code_simp
  then show ?thesis
    by (simp add: convert_output_to_messages_def demo_output_messages) (simp add: demo_output_def)
qed

lemma stored_output_keeps_tools_witness:
  "list_all2 (shown_as (\<lambda>_. []) (\<lambda>_. []) True) [Inl (demo_stored_call ''1'' ''find''), Inr demo_stored_result]
     (filter (answered_item (concat (map tool_item demo_output))) (concat (map tool_item demo_output)))"
proof -
  have "concat (map entries [demo_stored_calls [demo_stored_call ''1'' ''find''], demo_stored_result,
       images_message [PStr ''u''], demo_stored_text]) = [Inl (demo_stored_call ''1'' ''find''), Inr demo_stored_result]"
    by code_simp
  with stored_output_keeps_tools [OF demo_output_converted refl] show ?thesis by simp
qed

end
