(* ===== verification/Usage_Merge.thy ===== *)
theory Usage_Merge
  imports Py_Action
begin

text \<open>
  The token counts of model calls, \<open>utils/response.py\<close>: usage in the formats of the providers
  normalised to one set of fields, and merged over the calls of a turn. A float is the rational it
  stands for, and \<open>rnd\<close> rounds a rational to a float, as every operation on floats does; sums that
  overflow and values that are not finite are left out. The loops of the code over sets assign each key once and independently of the
  others, so the lists here stand for any order.
\<close>

section \<open>Numbers\<close>

text \<open>\<open>a + b\<close>.\<close>

definition py_plus :: "(rat \<Rightarrow> rat) \<Rightarrow> py \<Rightarrow> py \<Rightarrow> py result" where
  "py_plus rnd a b =
     (case (a, b) of
       (PStr s, PStr t) \<Rightarrow> Inr (PStr (s @ t))
     | (PList xs, PList ys) \<Rightarrow> Inr (PList (xs @ ys))
     | _ \<Rightarrow> (case (py_int a, py_int b) of
         (Some i, Some j) \<Rightarrow> Inr (PInt (i + j))
       | _ \<Rightarrow> (case (py_number a, py_number b) of
           (Some q, Some r) \<Rightarrow> Inr (PFloat (rnd (rnd q + rnd r)))
         | _ \<Rightarrow> Inl TypeError)))"

text \<open>\<open>int(a)\<close>: a number is truncated; a string has digits, single underscores between them, a sign
  and blanks around it.\<close>

fun digits_value :: "int \<Rightarrow> bool \<Rightarrow> string \<Rightarrow> int option" where
  "digits_value acc after_digit [] = (if after_digit then Some acc else None)"
| "digits_value acc after_digit (c # s) =
     (if is_decimal c then digits_value (10 * acc + (int (code c) - 48)) True s
      else if c = CHR ''_'' \<and> after_digit then digits_value acc False s
      else None)"

definition int_of_string :: "string \<Rightarrow> int option" where
  "int_of_string s = (case str_strip s of
     [] \<Rightarrow> None
   | c # t \<Rightarrow> if c = CHR ''-'' then map_option uminus (digits_value 0 False t)
       else if c = CHR ''+'' then digits_value 0 False t
       else digits_value 0 False (c # t))"

definition truncated :: "rat \<Rightarrow> int" where
  "truncated q = (if 0 \<le> q then \<lfloor>q\<rfloor> else \<lceil>q\<rceil>)"

definition to_int :: "py \<Rightarrow> int result" where
  "to_int v =
     (case v of
       PStr s \<Rightarrow> (case int_of_string s of Some i \<Rightarrow> Inr i | None \<Rightarrow> Inl (ValueError ''int''))
     | _ \<Rightarrow> (case py_number v of Some q \<Rightarrow> Inr (truncated q) | None \<Rightarrow> Inl TypeError))"

section \<open>Normalising\<close>

text \<open>\<open>a or b or \<dots> or last\<close> over the fields of a dict.\<close>

fun first_truthy :: "pydict \<Rightarrow> string list \<Rightarrow> py" where
  "first_truthy u [] = PInt 0"
| "first_truthy u (k # ks) = py_or (field u k) (first_truthy u ks)"

definition input_names :: "string list" where
  "input_names = [''input_tokens'', ''prompt_tokens'', ''prompt_eval_count'', ''prompt_n'']"

definition output_names :: "string list" where
  "output_names = [''output_tokens'', ''completion_tokens'', ''eval_count'', ''predicted_n'']"

definition normalize_usage :: "(rat \<Rightarrow> rat) \<Rightarrow> py \<Rightarrow> pydict result" where
  "normalize_usage rnd usage =
     (if \<not> truthy usage then Inr []
      else case usage of
        PDict u \<Rightarrow>
          let i = first_truthy u input_names; j = first_truthy u output_names in
          bindR (if truthy (field u ''total_tokens'') then Inr (field u ''total_tokens'') else py_plus rnd i j) (\<lambda>t.
          bindR (to_int i) (\<lambda>i'.
          bindR (to_int j) (\<lambda>j'.
          bindR (to_int t) (\<lambda>t'.
          Inr (dset ''total_tokens'' (PInt t') (dset ''output_tokens'' (PInt j') (dset ''input_tokens'' (PInt i') u)))))))
      | _ \<Rightarrow> Inl AttributeError)"

section \<open>Merging\<close>

definition token_keys :: "string list" where
  "token_keys = [''input_tokens'', ''output_tokens'', ''total_tokens'']"

definition cost_keys :: "string list" where
  "cost_keys = [''cost'', ''total_cost'', ''input_cost'', ''output_cost'', ''prompt_cost'', ''completion_cost'']"

definition summable_keys :: "string list" where
  "summable_keys = token_keys @ cost_keys"

definition detail_keys :: "string list" where
  "detail_keys = [''prompt_tokens_details'', ''completion_tokens_details'', ''input_tokens_details'', ''output_tokens_details'']"

fun is_numeric_usage_value :: "py \<Rightarrow> bool" where
  "is_numeric_usage_value (PInt i) = True"
| "is_numeric_usage_value (PFloat r) = True"
| "is_numeric_usage_value _ = False"

text \<open>The sum of two values, where what is no number counts as 0.\<close>

fun add_numbers :: "(rat \<Rightarrow> rat) \<Rightarrow> py \<Rightarrow> py \<Rightarrow> py" where
  "add_numbers rnd (PInt i) (PInt j) = PInt (i + j)"
| "add_numbers rnd (PInt i) (PFloat r) = PFloat (rnd (rnd (of_int i) + r))"
| "add_numbers rnd (PFloat q) (PInt j) = PFloat (rnd (q + rnd (of_int j)))"
| "add_numbers rnd (PFloat q) (PFloat r) = PFloat (rnd (q + r))"
| "add_numbers rnd _ _ = PInt 0"

definition number_or_0 :: "py \<Rightarrow> py" where
  "number_or_0 v = (if is_numeric_usage_value v then v else PInt 0)"

definition sum_values :: "(rat \<Rightarrow> rat) \<Rightarrow> py \<Rightarrow> py \<Rightarrow> py" where
  "sum_values rnd c i = add_numbers rnd (number_or_0 c) (number_or_0 i)"

text \<open>\<open>{**a, **b}\<close>.\<close>

definition dict_union :: "pydict \<Rightarrow> pydict \<Rightarrow> pydict" where
  "dict_union a b = foldl (\<lambda>d (k, v). dset k v d) a b"

definition as_dict :: "py \<Rightarrow> pydict" where
  "as_dict v = (case v of PDict d \<Rightarrow> d | _ \<Rightarrow> [])"

function merge_numeric_usage_map :: "(rat \<Rightarrow> rat) \<Rightarrow> pydict \<Rightarrow> pydict \<Rightarrow> pydict" where
  "merge_numeric_usage_map rnd cur inc =
     map (\<lambda>(k, v). (k,
       if is_dict (get_or cur k (PInt 0)) \<or> is_dict (get_or inc k (PInt 0))
       then PDict (merge_numeric_usage_map rnd (as_dict (get_or cur k (PInt 0))) (as_dict (get_or inc k (PInt 0))))
       else if is_numeric_usage_value (get_or cur k (PInt 0)) \<or> is_numeric_usage_value (get_or inc k (PInt 0))
       then sum_values rnd (get_or cur k (PInt 0)) (get_or inc k (PInt 0))
       else v)) (dict_union cur inc)"
  by pat_completeness auto

lemma as_dict_smaller:
  "size (PDict (as_dict (get_or d k (PInt 0)))) \<le> size (PDict d)"
  "is_dict (get_or d k (PInt 0)) \<Longrightarrow> size (PDict (as_dict (get_or d k (PInt 0)))) < size (PDict d)"
proof -
  have lt: "size v < size (PDict d)" if "dget d k = Some v" for v
    using size_dict_value [of v d] that by (force dest: map_of_SomeD)
  have le: "size (PDict []) \<le> size (PDict d)" by (cases d) auto
  show "size (PDict (as_dict (get_or d k (PInt 0)))) \<le> size (PDict d)"
    using lt le by (fastforce simp: get_or_def as_dict_def split: option.split py.split)
  show "size (PDict (as_dict (get_or d k (PInt 0)))) < size (PDict d)" if "is_dict (get_or d k (PInt 0))"
    using lt that by (auto simp: get_or_def as_dict_def split: option.splits py.splits)
qed

termination merge_numeric_usage_map
proof (relation "measure (\<lambda>(rnd :: rat \<Rightarrow> rat, cur, inc). size (PDict cur) + size (PDict inc))")
  show "((rnd, as_dict (get_or cur k (PInt 0)), as_dict (get_or inc k (PInt 0))), rnd, cur, inc)
      \<in> measure (\<lambda>(rnd :: rat \<Rightarrow> rat, cur, inc). size (PDict cur) + size (PDict inc))"
    if "is_dict (get_or cur k (PInt 0)) \<or> is_dict (get_or inc k (PInt 0))" for rnd cur inc x k v
    using that as_dict_smaller [of cur k] as_dict_smaller [of inc k] by (auto simp del: py.size)
qed simp

definition add_key :: "(rat \<Rightarrow> rat) \<Rightarrow> pydict \<Rightarrow> pydict \<Rightarrow> string \<Rightarrow> pydict \<Rightarrow> pydict" where
  "add_key rnd cur inc k result =
     (let c = get_or cur k (PInt 0); i = get_or inc k (PInt 0) in
      if (dget cur k \<noteq> None \<or> dget inc k \<noteq> None) \<and> (is_numeric_usage_value c \<or> is_numeric_usage_value i)
      then dset k (sum_values rnd c i) result else result)"

definition merge_details :: "(rat \<Rightarrow> rat) \<Rightarrow> pydict \<Rightarrow> pydict \<Rightarrow> string \<Rightarrow> pydict \<Rightarrow> pydict" where
  "merge_details rnd cur inc k result =
     (if is_dict (field cur k) \<or> is_dict (field inc k)
      then dset k (PDict (merge_numeric_usage_map rnd (as_dict (field cur k)) (as_dict (field inc k)))) result
      else result)"

definition latest_alias :: "string \<Rightarrow> string \<Rightarrow> pydict \<Rightarrow> pydict \<Rightarrow> py" where
  "latest_alias old new cur inc = py_or (field inc old) (py_or (field inc new) (get_or cur old (PInt 0)))"

definition merge_usage :: "(rat \<Rightarrow> rat) \<Rightarrow> py \<Rightarrow> py \<Rightarrow> pydict result" where
  "merge_usage rnd current incoming =
     bindR (normalize_usage rnd current) (\<lambda>cur.
     bindR (normalize_usage rnd incoming) (\<lambda>inc.
     if inc = [] then Inr cur
     else if cur = [] then Inr inc
     else Inr (dset ''completion_tokens'' (latest_alias ''completion_tokens'' ''output_tokens'' cur inc)
       (dset ''prompt_tokens'' (latest_alias ''prompt_tokens'' ''input_tokens'' cur inc)
       (fold (merge_details rnd cur inc) detail_keys
       (fold (add_key rnd cur inc) summable_keys (dict_union cur inc)))))))"

section \<open>Lemmas\<close>

text \<open>The number that a field counts for.\<close>

definition amount :: "py \<Rightarrow> rat" where
  "amount v = (case v of PInt i \<Rightarrow> of_int i | PFloat r \<Rightarrow> r | _ \<Rightarrow> 0)"

lemma amount_other: "\<not> is_numeric_usage_value v \<Longrightarrow> amount v = 0"
  by (cases v) (simp_all add: amount_def)

lemma amount_field: "amount (get_or d k (PInt 0)) = amount (field d k)"
  by (simp add: get_or_def field_def amount_def split: option.split)

lemma dget_dict_union: "wf_dict b \<Longrightarrow> dget (dict_union a b) k = (case dget b k of Some v \<Rightarrow> Some v | None \<Rightarrow> dget a k)"
proof (induction b arbitrary: a)
  case (Cons x b)
  obtain k' v where x: "x = (k', v)" by (rule prod.exhaust)
  have "dget (dict_union a (x # b)) k = dget (dict_union (dset k' v a) b) k" by (simp add: dict_union_def x)
  moreover have "dget b k' = None" using Cons.prems x by (simp add: map_of_eq_None_iff)
  ultimately show ?case using Cons x by (auto split: option.split)
qed (simp add: dict_union_def)

lemma dget_fold_add:
  "dget (fold (add_key rnd cur inc) ks d) k =
    (if k \<in> set ks \<and> (dget cur k \<noteq> None \<or> dget inc k \<noteq> None)
        \<and> (is_numeric_usage_value (get_or cur k (PInt 0)) \<or> is_numeric_usage_value (get_or inc k (PInt 0)))
     then Some (sum_values rnd (get_or cur k (PInt 0)) (get_or inc k (PInt 0))) else dget d k)"
  by (induction ks arbitrary: d) (auto simp: add_key_def Let_def)

lemma dget_fold_details: "k \<notin> set ks \<Longrightarrow> dget (fold (merge_details rnd cur inc) ks d) k = dget d k"
  by (induction ks arbitrary: d) (auto simp: merge_details_def)

lemma keys_apart:
  "k \<in> set summable_keys \<Longrightarrow> k \<notin> set detail_keys \<and> k \<noteq> ''prompt_tokens'' \<and> k \<noteq> ''completion_tokens''"
  "k \<in> set (input_names @ output_names) \<Longrightarrow> k \<notin> set detail_keys"
  by (auto simp: summable_keys_def token_keys_def cost_keys_def detail_keys_def input_names_def output_names_def)

text \<open>A usage that is normalised stays as it is when it is normalised again.\<close>

definition steady :: "pydict \<Rightarrow> bool" where
  "steady n \<longleftrightarrow> (\<exists>i j t. field n ''input_tokens'' = PInt i \<and> field n ''output_tokens'' = PInt j
     \<and> field n ''total_tokens'' = PInt t \<and> 0 \<le> i \<and> 0 \<le> j \<and> 0 \<le> t
     \<and> (i = 0 \<longrightarrow> (\<forall>k \<in> set input_names. \<not> truthy (field n k)))
     \<and> (j = 0 \<longrightarrow> (\<forall>k \<in> set output_names. \<not> truthy (field n k)))
     \<and> (t = 0 \<longrightarrow> i = 0 \<and> j = 0))"

definition counts_ok :: "pydict \<Rightarrow> bool" where
  "counts_ok u \<longleftrightarrow> wf_dict u \<and> (\<forall>k \<in> set (''total_tokens'' # input_names @ output_names).
     field u k = PNone \<or> (\<exists>i \<ge> 0. field u k = PInt i))"

lemma first_truthy_count:
  "\<forall>k \<in> set ks. field u k = PNone \<or> (\<exists>i \<ge> 0. field u k = PInt i) \<Longrightarrow>
    \<exists>i \<ge> 0. first_truthy u ks = PInt i \<and> (i = 0 \<longrightarrow> (\<forall>k \<in> set ks. \<not> truthy (field u k)))"
  by (induction ks) (auto simp: py_or_def)

lemma first_truthy_none: "\<forall>k \<in> set ks. \<not> truthy (field u k) \<Longrightarrow> first_truthy u ks = PInt 0"
  by (induction ks) (auto simp: py_or_def)

lemma truncated_int [simp]: "truncated (of_int i) = i"
  by (simp add: truncated_def)

lemma to_int_PInt [simp]: "to_int (PInt i) = Inr i"
  by (simp add: to_int_def)

lemma py_plus_PInt [simp]: "py_plus rnd (PInt i) (PInt j) = Inr (PInt (i + j))"
  by (simp add: py_plus_def)

lemma field_dset [simp]: "field (dset k v d) k' = (if k' = k then v else field d k')"
  by (simp add: field_def)

lemma normalized_steady:
  assumes "counts_ok u" "u \<noteq> []"
  obtains n where "normalize_usage rnd (PDict u) = Inr n" "steady n" "wf_dict n" "n \<noteq> []"
proof -
  from assms(1) first_truthy_count [of input_names u] obtain i where
    i: "first_truthy u input_names = PInt i" "0 \<le> i" "i = 0 \<longrightarrow> (\<forall>k \<in> set input_names. \<not> truthy (field u k))"
    by (auto simp: counts_ok_def)
  from assms(1) first_truthy_count [of output_names u] obtain j where
    j: "first_truthy u output_names = PInt j" "0 \<le> j" "j = 0 \<longrightarrow> (\<forall>k \<in> set output_names. \<not> truthy (field u k))"
    by (auto simp: counts_ok_def)
  have "\<exists>t \<ge> 0. (if truthy (field u ''total_tokens'') then Inr (field u ''total_tokens'') else Inr (PInt (i + j))) = Inr (PInt t)
      \<and> (t = 0 \<longrightarrow> i = 0 \<and> j = 0)"
  proof (cases "truthy (field u ''total_tokens'')")
    case True
    with assms(1) show ?thesis by (auto simp: counts_ok_def)
  next
    case False
    with i(2) j(2) show ?thesis by (intro exI [of _ "i + j"]) auto
  qed
  then obtain t where
    t: "(if truthy (field u ''total_tokens'') then Inr (field u ''total_tokens'') else Inr (PInt (i + j))) = Inr (PInt t)"
      "0 \<le> t" "t = 0 \<longrightarrow> i = 0 \<and> j = 0" by blast
  let ?n = "dset ''total_tokens'' (PInt t) (dset ''output_tokens'' (PInt j) (dset ''input_tokens'' (PInt i) u))"
  have "normalize_usage rnd (PDict u) = Inr ?n"
  proof -
    have "(if truthy (field u ''total_tokens'') then Inr (field u ''total_tokens'')
        else py_plus rnd (first_truthy u input_names) (first_truthy u output_names)) = Inr (PInt t)"
      using t(1) by (simp add: i(1) j(1) split: if_splits)
    with assms(2) show ?thesis
      unfolding normalize_usage_def Let_def by (simp add: i(1) j(1) split del: if_split del: bindR_Inr_iff)
  qed
  moreover have "steady ?n"
    unfolding steady_def using i j t(2,3)
    by (intro exI [of _ i] exI [of _ j] exI [of _ t]) (auto simp: input_names_def output_names_def)
  moreover have "wf_dict ?n" using assms(1) by (simp add: counts_ok_def)
  moreover have "?n \<noteq> []" by (metis dget_dset map_of.simps(1) option.distinct(1))
  ultimately show thesis by (rule that)
qed

lemma normalize_steady:
  assumes "steady n"
  shows "normalize_usage rnd (PDict n) = Inr n"
proof -
  from assms obtain i j t where
    f: "field n ''input_tokens'' = PInt i" "field n ''output_tokens'' = PInt j" "field n ''total_tokens'' = PInt t"
    and z: "i = 0 \<longrightarrow> (\<forall>k \<in> set input_names. \<not> truthy (field n k))" "j = 0 \<longrightarrow> (\<forall>k \<in> set output_names. \<not> truthy (field n k))"
      "t = 0 \<longrightarrow> i = 0 \<and> j = 0"
    unfolding steady_def by blast
  have i: "first_truthy n input_names = PInt i"
    using f(1) z(1) first_truthy_none [of input_names n] by (cases "i = 0") (simp_all add: input_names_def py_or_def)
  have j: "first_truthy n output_names = PInt j"
    using f(2) z(2) first_truthy_none [of output_names n] by (cases "j = 0") (simp_all add: output_names_def py_or_def)
  have same: "dset k v n = n" if "field n k = v" "v \<noteq> PNone" for k v
    using that by (intro update_triv) (auto simp: field_def split: option.splits)
  have "n \<noteq> []" using f(1) by (auto simp: field_def)
  then show ?thesis
    using f z(3) by (cases "t = 0") (simp_all add: normalize_usage_def i j same)
qed

text \<open>Merging two normalised usages: the fields that are summed.\<close>

definition merged :: "(rat \<Rightarrow> rat) \<Rightarrow> pydict \<Rightarrow> pydict \<Rightarrow> pydict" where
  "merged rnd cur inc = dset ''completion_tokens'' (latest_alias ''completion_tokens'' ''output_tokens'' cur inc)
     (dset ''prompt_tokens'' (latest_alias ''prompt_tokens'' ''input_tokens'' cur inc)
     (fold (merge_details rnd cur inc) detail_keys (fold (add_key rnd cur inc) summable_keys (dict_union cur inc))))"

lemma dget_merged:
  assumes "k \<in> set summable_keys"
  shows "dget (merged rnd cur inc) k = dget (fold (add_key rnd cur inc) summable_keys (dict_union cur inc)) k"
  using keys_apart(1) [OF assms] by (simp add: merged_def dget_fold_details)

definition cost_ok :: "(rat \<Rightarrow> rat) \<Rightarrow> pydict \<Rightarrow> bool" where
  "cost_ok rnd u \<longleftrightarrow> (\<forall>k \<in> set cost_keys. field u k \<in> {PNone, PInt 0} \<or> (\<exists>q. field u k = PFloat q \<and> rnd q = q))"

lemma merged_cost:
  assumes "k \<in> set cost_keys" "wf_dict inc" "cost_ok rnd cur" "cost_ok rnd inc" "rnd 0 = 0" "\<And>q. rnd (rnd q) = rnd q"
  shows "amount (field (merged rnd cur inc) k) = rnd (amount (field cur k) + amount (field inc k)) \<and>
    (field (merged rnd cur inc) k \<in> {PNone, PInt 0} \<or> (\<exists>q. field (merged rnd cur inc) k = PFloat q \<and> rnd q = q))"
proof -
  have k: "k \<in> set summable_keys" using assms(1) by (simp add: summable_keys_def)
  have c: "dget d k = None \<or> dget d k = Some PNone \<or> dget d k = Some (PInt 0) \<or> (\<exists>q. dget d k = Some (PFloat q) \<and> rnd q = q)" if "cost_ok rnd d" for d
    using that assms(1) by (cases "dget d k") (auto simp: cost_ok_def field_def)
  have m: "field (merged rnd cur inc) k = (case dget (fold (add_key rnd cur inc) summable_keys (dict_union cur inc)) k of
      None \<Rightarrow> PNone | Some v \<Rightarrow> v)"
    unfolding field_def dget_merged [OF k] ..
  show ?thesis
    using c [OF assms(3)] c [OF assms(4)] k assms(5,6)
    unfolding m dget_fold_add
    by (elim disjE) (auto simp: get_or_def field_def sum_values_def number_or_0_def amount_def dget_dict_union [OF assms(2)])
qed

lemma field_merged_int:
  assumes "k \<in> set summable_keys" "field cur k = PInt i" "field inc k = PInt j"
  shows "field (merged rnd cur inc) k = PInt (i + j)"
proof -
  have "dget cur k = Some (PInt i)" "dget inc k = Some (PInt j)"
    using assms(2,3) by (auto simp: field_def split: option.splits)
  then show ?thesis
    using assms(1) by (simp add: field_def dget_merged dget_fold_add get_or_def sum_values_def number_or_0_def)
qed

lemma falsy_alias:
  assumes "k \<in> set input_names - {''input_tokens''} \<or> k \<in> set output_names - {''output_tokens''}" "wf_dict inc"
    and "\<not> truthy (field cur k)" "\<not> truthy (field inc k)"
    and "k = ''prompt_tokens'' \<longrightarrow> \<not> truthy (field inc ''input_tokens'')"
    and "k = ''completion_tokens'' \<longrightarrow> \<not> truthy (field inc ''output_tokens'')"
  shows "\<not> truthy (field (merged rnd cur inc) k)"
proof -
  have n: "k \<notin> set summable_keys" "k \<notin> set detail_keys"
    using assms(1) by (auto simp: summable_keys_def token_keys_def cost_keys_def detail_keys_def input_names_def output_names_def)
  have or: "\<not> truthy (get_or cur k (PInt 0))" using assms(3) by (simp add: get_or_def field_def split: option.splits)
  have "\<not> truthy (field (dict_union cur inc) k)"
    using assms(3,4) by (cases "dget inc k") (simp_all add: field_def dget_dict_union [OF assms(2)])
  with n assms or show ?thesis
    by (auto simp: merged_def field_def [of "fold _ _ _"] dget_fold_details dget_fold_add latest_alias_def py_or_def
        simp flip: field_def)
qed

lemma merged_steady:
  assumes "steady cur" "steady inc" "wf_dict inc"
  shows "steady (merged rnd cur inc)"
proof -
  from assms(1) obtain i j t where c: "field cur ''input_tokens'' = PInt i" "field cur ''output_tokens'' = PInt j"
      "field cur ''total_tokens'' = PInt t" "0 \<le> i" "0 \<le> j" "0 \<le> t"
    and cz: "i = 0 \<longrightarrow> (\<forall>k \<in> set input_names. \<not> truthy (field cur k))"
      "j = 0 \<longrightarrow> (\<forall>k \<in> set output_names. \<not> truthy (field cur k))" "t = 0 \<longrightarrow> i = 0 \<and> j = 0"
    unfolding steady_def by blast
  from assms(2) obtain i' j' t' where n: "field inc ''input_tokens'' = PInt i'" "field inc ''output_tokens'' = PInt j'"
      "field inc ''total_tokens'' = PInt t'" "0 \<le> i'" "0 \<le> j'" "0 \<le> t'"
    and nz: "i' = 0 \<longrightarrow> (\<forall>k \<in> set input_names. \<not> truthy (field inc k))"
      "j' = 0 \<longrightarrow> (\<forall>k \<in> set output_names. \<not> truthy (field inc k))" "t' = 0 \<longrightarrow> i' = 0 \<and> j' = 0"
    unfolding steady_def by blast
  have m: "field (merged rnd cur inc) ''input_tokens'' = PInt (i + i')" "field (merged rnd cur inc) ''output_tokens'' = PInt (j + j')"
    "field (merged rnd cur inc) ''total_tokens'' = PInt (t + t')"
    using c n by (auto intro!: field_merged_int simp: summable_keys_def token_keys_def)
  have "\<not> truthy (field (merged rnd cur inc) k)" if "i + i' = 0" "k \<in> set input_names" for k
  proof (cases "k = ''input_tokens''")
    case False
    from that(1) c(4) n(4) have "i = 0" "i' = 0" by linarith+
    with that(2) False cz(1) nz(1) n(1) show ?thesis
      by (intro falsy_alias [OF _ assms(3)]) (auto simp: input_names_def)
  qed (use that m in simp)
  moreover have "\<not> truthy (field (merged rnd cur inc) k)" if "j + j' = 0" "k \<in> set output_names" for k
  proof (cases "k = ''output_tokens''")
    case False
    from that(1) c(5) n(5) have "j = 0" "j' = 0" by linarith+
    with that(2) False cz(2) nz(2) n(2) show ?thesis
      by (intro falsy_alias [OF _ assms(3)]) (auto simp: output_names_def)
  qed (use that m in simp)
  moreover have "i + i' = 0 \<and> j + j' = 0" if "t + t' = 0"
    using that c(6) n(6) cz(3) nz(3) by auto
  ultimately show ?thesis
    unfolding steady_def using m c(4-6) n(4-6)
    by (intro exI [of _ "i + i'"] exI [of _ "j + j'"] exI [of _ "t + t'"]) auto
qed

section \<open>Properties\<close>

text \<open>The usage of a run of model calls, merged call by call.\<close>

definition merge_all :: "(rat \<Rightarrow> rat) \<Rightarrow> pydict list \<Rightarrow> pydict result" where
  "merge_all rnd us = foldR (\<lambda>tot u. merge_usage rnd (PDict tot) (PDict u)) [] us"

text \<open>
  The counts of a call, whatever names its provider gives them: the first of the names whose count is
  not 0, and the total, where it is given, or else both.
\<close>

definition count_of :: "pydict \<Rightarrow> string list \<Rightarrow> int" where
  "count_of u names = (case filter (\<lambda>i. i \<noteq> 0) (concat (map (\<lambda>k. case dget u k of Some (PInt i) \<Rightarrow> [i] | _ \<Rightarrow> []) names)) of
     [] \<Rightarrow> 0 | i # _ \<Rightarrow> i)"

definition input_count :: "pydict \<Rightarrow> int" where
  "input_count u = count_of u [''input_tokens'', ''prompt_tokens'', ''prompt_eval_count'', ''prompt_n'']"

definition output_count :: "pydict \<Rightarrow> int" where
  "output_count u = count_of u [''output_tokens'', ''completion_tokens'', ''eval_count'', ''predicted_n'']"

definition total_count :: "pydict \<Rightarrow> int" where
  "total_count u = (if count_of u [''total_tokens''] \<noteq> 0 then count_of u [''total_tokens''] else input_count u + output_count u)"

lemma first_truthy_is_count:
  "\<forall>k \<in> set ks. field u k = PNone \<or> (\<exists>i \<ge> 0. field u k = PInt i) \<Longrightarrow> first_truthy u ks = PInt (count_of u ks)"
proof (induction ks)
  case (Cons k ks)
  then have IH: "first_truthy u ks = PInt (count_of u ks)" by simp
  have "dget u k = None \<or> dget u k = Some PNone \<or> (\<exists>i. dget u k = Some (PInt i))"
    using Cons.prems by (cases "dget u k") (auto simp: field_def)
  then show ?case using IH by (elim disjE exE) (auto simp: count_of_def py_or_def field_def)
qed (simp add: count_of_def)

lemma normalized_counts:
  assumes "counts_ok u" "normalize_usage rnd (PDict u) = Inr n"
  shows "amount (field n ''input_tokens'') = of_int (input_count u) \<and> amount (field n ''output_tokens'') = of_int (output_count u) \<and>
    amount (field n ''total_tokens'') = of_int (total_count u) \<and> (k \<in> set cost_keys \<longrightarrow> field n k = field u k)"
proof (cases "u = []")
  case True
  then show ?thesis
    using assms(2) by (simp add: normalize_usage_def amount_def field_def input_count_def output_count_def total_count_def count_of_def)
next
  case False
  have i: "first_truthy u input_names = PInt (input_count u)" "first_truthy u output_names = PInt (output_count u)"
    using first_truthy_is_count [of input_names u] first_truthy_is_count [of output_names u] assms(1)
    by (auto simp: counts_ok_def input_count_def output_count_def input_names_def output_names_def)
  have "first_truthy u [''total_tokens''] = PInt (count_of u [''total_tokens''])"
    using assms(1) by (intro first_truthy_is_count) (auto simp: counts_ok_def)
  moreover have "field u ''total_tokens'' = PNone \<or> (\<exists>i. field u ''total_tokens'' = PInt i)" using assms(1) by (auto simp: counts_ok_def)
  ultimately have t: "(if truthy (field u ''total_tokens'') then Inr (field u ''total_tokens'')
      else py_plus rnd (PInt (input_count u)) (PInt (output_count u))) = Inr (PInt (total_count u))"
    by (auto simp: py_or_def total_count_def split: if_splits)
  have "n = dset ''total_tokens'' (PInt (total_count u)) (dset ''output_tokens'' (PInt (output_count u))
      (dset ''input_tokens'' (PInt (input_count u)) u))"
    using assms(2) False unfolding normalize_usage_def Let_def py.case i t by simp
  then show ?thesis by (auto simp: amount_def cost_keys_def)
qed

lemma steadyD: "steady n \<Longrightarrow> k \<in> set token_keys \<Longrightarrow> \<exists>i. field n k = PInt i"
  unfolding steady_def token_keys_def list.set insert_iff by blast

lemma merge_step:
  assumes "tot = [] \<or> steady tot" "cost_ok rnd tot" "counts_ok u" "cost_ok rnd u" "rnd 0 = 0" "\<And>q. rnd (rnd q) = rnd q"
  shows "\<exists>tot'. merge_usage rnd (PDict tot) (PDict u) = Inr tot' \<and> (tot' = [] \<or> steady tot') \<and> cost_ok rnd tot'
    \<and> amount (field tot' ''input_tokens'') = amount (field tot ''input_tokens'') + of_int (input_count u)
    \<and> amount (field tot' ''output_tokens'') = amount (field tot ''output_tokens'') + of_int (output_count u)
    \<and> amount (field tot' ''total_tokens'') = amount (field tot ''total_tokens'') + of_int (total_count u)
    \<and> (\<forall>k \<in> set cost_keys. amount (field tot' k) = rnd (amount (field tot k) + amount (field u k)))"
proof -
  have none: "normalize_usage rnd (PDict []) = Inr []" "field [] k = PNone" "amount PNone = 0" for k
    by (simp_all add: normalize_usage_def field_def amount_def)
  have t: "normalize_usage rnd (PDict tot) = Inr tot"
    using assms(1) normalize_steady none(1) by auto
  have double: "rnd (amount (field d k)) = amount (field d k)" if "cost_ok rnd d" "k \<in> set cost_keys" for d k
    using that assms(5) by (auto simp: cost_ok_def amount_def)
  show ?thesis
  proof (cases "u = []")
    case True
    then show ?thesis
      using assms(1,2) double [OF assms(2)]
      by (auto simp: merge_usage_def t none input_count_def output_count_def total_count_def count_of_def)
  next
    case False
    obtain n where n: "normalize_usage rnd (PDict u) = Inr n" "steady n" "wf_dict n" "n \<noteq> []"
      by (rule normalized_steady [OF assms(3) False])
    note counts = normalized_counts [OF assms(3) n(1)]
    have cost_n: "cost_ok rnd n" using assms(4) counts by (auto simp: cost_ok_def)
    show ?thesis
    proof (cases "tot = []")
      case True
      with n t counts cost_n double [OF cost_n] show ?thesis by (intro exI [of _ n]) (simp add: merge_usage_def none)
    next
      case False
      with assms(1) have steady: "steady tot" by simp
      have tokens: "amount (field (merged rnd tot n) k) = amount (field tot k) + amount (field n k)" if token: "k \<in> set token_keys" for k
      proof -
        obtain i j where "field tot k = PInt i" "field n k = PInt j"
          using steadyD [OF steady token] steadyD [OF n(2) token] by blast
        then show ?thesis using token field_merged_int [of k tot i n j] by (simp add: summable_keys_def amount_def)
      qed
      have costs: "amount (field (merged rnd tot n) k) = rnd (amount (field tot k) + amount (field u k)) \<and>
          (field (merged rnd tot n) k \<in> {PNone, PInt 0} \<or> (\<exists>q. field (merged rnd tot n) k = PFloat q \<and> rnd q = q))"
        if "k \<in> set cost_keys" for k
        using merged_cost [OF that n(3) assms(2) cost_n assms(5,6)] counts that by simp
      have "merge_usage rnd (PDict tot) (PDict u) = Inr (merged rnd tot n)"
        using False n by (simp add: merge_usage_def t merged_def)
      moreover have "cost_ok rnd (merged rnd tot n)" using costs by (simp add: cost_ok_def)
      moreover have "steady (merged rnd tot n)" by (rule merged_steady [OF steady n(2,3)])
      ultimately show ?thesis using counts costs tokens by (simp add: token_keys_def)
    qed
  qed
qed

text \<open>C35: the usage of a turn adds up. Let each count in the usages of its model calls be absent or a non-negative integer,
  and each cost absent, 0 or a float. Merging the usages one after another then never raises; the total has as its input,
  output and total tokens exactly the sums of those of the calls, whatever names their providers give them (of several
  names the first with a count other than 0, and as total the given one, or else input and output); and each cost is the
  sum of the costs from the first call to the last as floats, rounded after each addition.\<close>

theorem usage_adds_up:
  assumes "\<forall>u \<in> set us. counts_ok u \<and> cost_ok rnd u" and "rnd 0 = 0" and "\<And>q. rnd (rnd q) = rnd q"
  shows "\<exists>tot. merge_all rnd us = Inr tot
    \<and> amount (field tot ''input_tokens'') = of_int (\<Sum>u\<leftarrow>us. input_count u)
    \<and> amount (field tot ''output_tokens'') = of_int (\<Sum>u\<leftarrow>us. output_count u)
    \<and> amount (field tot ''total_tokens'') = of_int (\<Sum>u\<leftarrow>us. total_count u)
    \<and> (\<forall>k \<in> set cost_keys. amount (field tot k) = foldl (\<lambda>sum u. rnd (sum + amount (field u k))) 0 us)"
proof -
  have "\<exists>tot. foldR (\<lambda>tot u. merge_usage rnd (PDict tot) (PDict u)) start us = Inr tot
      \<and> amount (field tot ''input_tokens'') = amount (field start ''input_tokens'') + of_int (\<Sum>u\<leftarrow>us. input_count u)
      \<and> amount (field tot ''output_tokens'') = amount (field start ''output_tokens'') + of_int (\<Sum>u\<leftarrow>us. output_count u)
      \<and> amount (field tot ''total_tokens'') = amount (field start ''total_tokens'') + of_int (\<Sum>u\<leftarrow>us. total_count u)
      \<and> (\<forall>k \<in> set cost_keys. amount (field tot k) = foldl (\<lambda>sum u. rnd (sum + amount (field u k))) (amount (field start k)) us)"
    if "start = [] \<or> steady start" "cost_ok rnd start" for start
    using that assms(1)
  proof (induction us arbitrary: start)
    case (Cons u us)
    then have "counts_ok u" "cost_ok rnd u" by simp_all
    from merge_step [OF Cons.prems(1,2) this assms(2,3)] obtain tot where
      tot: "merge_usage rnd (PDict start) (PDict u) = Inr tot" "tot = [] \<or> steady tot" "cost_ok rnd tot"
        "amount (field tot ''input_tokens'') = amount (field start ''input_tokens'') + of_int (input_count u)"
        "amount (field tot ''output_tokens'') = amount (field start ''output_tokens'') + of_int (output_count u)"
        "amount (field tot ''total_tokens'') = amount (field start ''total_tokens'') + of_int (total_count u)"
        "\<forall>k \<in> set cost_keys. amount (field tot k) = rnd (amount (field start k) + amount (field u k))"
      by blast
    with Cons.IH [OF tot(2,3)] Cons.prems(3) show ?case by auto
  qed simp
  moreover have "cost_ok rnd []" by (simp add: cost_ok_def field_def)
  ultimately have "\<exists>tot. foldR (\<lambda>tot u. merge_usage rnd (PDict tot) (PDict u)) [] us = Inr tot
      \<and> amount (field tot ''input_tokens'') = amount (field [] ''input_tokens'') + of_int (\<Sum>u\<leftarrow>us. input_count u)
      \<and> amount (field tot ''output_tokens'') = amount (field [] ''output_tokens'') + of_int (\<Sum>u\<leftarrow>us. output_count u)
      \<and> amount (field tot ''total_tokens'') = amount (field [] ''total_tokens'') + of_int (\<Sum>u\<leftarrow>us. total_count u)
      \<and> (\<forall>k \<in> set cost_keys. amount (field tot k) = foldl (\<lambda>sum u. rnd (sum + amount (field u k))) (amount (field [] k)) us)"
    by blast
  moreover have "amount (field [] k) = 0" for k by (simp add: field_def amount_def)
  ultimately show ?thesis by (simp add: merge_all_def)
qed

definition demo_usages :: "pydict list" where
  "demo_usages = [
     [(''prompt_tokens'', PInt 10), (''completion_tokens'', PInt 2), (''cost'', PFloat (1 / 2))], [],
     [(''prompt_eval_count'', PInt 5), (''eval_count'', PInt 1)]]"

lemma usage_adds_up_witness:
  "\<exists>tot. merge_all (\<lambda>q. of_int \<lfloor>8 * q\<rfloor> / 8) demo_usages = Inr tot \<and> amount (field tot ''input_tokens'') = 15
     \<and> amount (field tot ''total_tokens'') = 18 \<and> amount (field tot ''cost'') = 1 / 2"
proof -
  have ok: "\<forall>u \<in> set demo_usages. counts_ok u \<and> cost_ok (\<lambda>q. of_int \<lfloor>8 * q\<rfloor> / 8) u"
    by (auto simp: demo_usages_def counts_ok_def cost_ok_def cost_keys_def input_names_def output_names_def field_def
        intro: exI [of _ "1 / 2"])
  have "(\<Sum>u\<leftarrow>demo_usages. input_count u) = 15" "(\<Sum>u\<leftarrow>demo_usages. total_count u) = 18"
    by (simp_all add: demo_usages_def input_count_def output_count_def total_count_def count_of_def)
  moreover have "foldl (\<lambda>sum u. of_int \<lfloor>8 * (sum + amount (field u ''cost''))\<rfloor> / 8) 0 demo_usages = 1 / 2"
    by (simp add: demo_usages_def field_def amount_def)
  moreover have "''cost'' \<in> set cost_keys" by (simp add: cost_keys_def)
  ultimately show ?thesis using usage_adds_up [OF ok] by auto
qed

end
