(* ===== verification/Model_Params.thy ===== *)
theory Model_Params
  imports Usage_Merge
begin

text \<open>
  The parameters of a model over a request: \<open>deep_update\<close> of \<open>utils/misc.py\<close> and the functions of
  \<open>utils/payload.py\<close> that take the parameters of Open WebUI out, merge the custom parameters in and
  convert the rest for an OpenAI or an Ollama provider. The parameters are their items; \<open>loads\<close> is
  \<open>json.loads\<close>, \<open>None\<close> where it raises \<open>JSONDecodeError\<close>. The conversions of the standard library
  that leave the values of the model are the record \<open>conversions\<close>, and so is the rounding to a float. A request whose parameters raise is
  not sent, so what was changed before an exception is not kept.
\<close>

section \<open>Merging\<close>

function deep_update :: "py \<Rightarrow> pydict \<Rightarrow> py result" where
  "deep_update d [] = Inr d"
| "deep_update d ((k, v) # u) =
     bindR (case v of PDict w \<Rightarrow> bindR (py_get_or d k (PDict [])) (\<lambda>old. deep_update old w) | _ \<Rightarrow> Inr v) (\<lambda>x.
     bindR (py_setitem d k x) (\<lambda>d. deep_update d u))"
  by pat_completeness auto

termination deep_update
proof (relation "measure (\<lambda>(d, u). size (PDict u))")
  show "((old, w), d, (k, v) # u) \<in> measure (\<lambda>(d, u). size (PDict u))" if "v = PDict w" for k v u w old d
    using that by simp
qed simp_all

section \<open>Conversions\<close>

record conversions =
  cv_round :: "rat \<Rightarrow> rat"
  cv_float :: "string \<Rightarrow> py result"
  cv_str :: "py \<Rightarrow> string"
  cv_dict :: "py \<Rightarrow> pydict result"
  cv_unescape :: "string \<Rightarrow> string result"

text \<open>\<open>bytes(s, 'utf-8')\<close>, a byte as the character of its number.\<close>

definition utf8_bytes :: "string \<Rightarrow> string" where
  "utf8_bytes s = concat (map (\<lambda>c. if code c < 128 then [c]
     else [char_of (192 + code c div 64), char_of (128 + code c mod 64)]) s)"

datatype cast = ToFloat | ToInt | ToStr | ToBool | ToDict | Same | Unescape

definition cast_stop :: "conversions \<Rightarrow> py \<Rightarrow> py result" where
  "cast_stop C s = (case s of PStr t \<Rightarrow> mapR PStr (cv_unescape C (utf8_bytes t)) | _ \<Rightarrow> Inl TypeError)"

fun apply_cast :: "conversions \<Rightarrow> cast \<Rightarrow> py \<Rightarrow> py result" where
  "apply_cast C ToFloat v =
     (case v of PStr s \<Rightarrow> cv_float C s
      | _ \<Rightarrow> (case py_number v of Some q \<Rightarrow> Inr (PFloat (cv_round C q)) | None \<Rightarrow> Inl TypeError))"
| "apply_cast C ToInt v = mapR PInt (to_int v)"
| "apply_cast C ToStr v = Inr (PStr (fmt (cv_str C) v))"
| "apply_cast C ToBool v = Inr (PBool (truthy v))"
| "apply_cast C ToDict v = (case v of PDict d \<Rightarrow> Inr v | _ \<Rightarrow> mapR PDict (cv_dict C v))"
| "apply_cast C Same v = Inr v"
| "apply_cast C Unescape v = bindR (py_iter v) (\<lambda>ss. mapR PList (listR (cast_stop C) ss))"

type_synonym mappings = "(string \<times> cast) list"

definition cast_of :: "conversions \<Rightarrow> mappings \<Rightarrow> string \<Rightarrow> py \<Rightarrow> py result" where
  "cast_of C M k v = (case dget M k of Some c \<Rightarrow> apply_cast C c v | None \<Rightarrow> Inr v)"

definition apply_model_params_to_body :: "conversions \<Rightarrow> mappings \<Rightarrow> pydict \<Rightarrow> py \<Rightarrow> py result" where
  "apply_model_params_to_body C M params form =
     foldR (\<lambda>form (k, v). if v = PNone then Inr form else bindR (cast_of C M k v) (py_setitem form k)) form params"

definition open_webui_params :: "string list" where
  "open_webui_params = [''stream_response'', ''stream_delta_chunk_size'', ''reasoning_tags'',
     ''compact_token_threshold'', ''system'']"

definition remove_open_webui_params :: "pydict \<Rightarrow> pydict" where
  "remove_open_webui_params params = filter (\<lambda>(k, v). k \<notin> set open_webui_params) params"

text \<open>Custom parameters: strings that are JSON are read, and the result is merged in.\<close>

definition parsed_param :: "(string \<Rightarrow> py option) \<Rightarrow> py \<Rightarrow> py" where
  "parsed_param loads v = (case v of PStr s \<Rightarrow> (case loads s of Some x \<Rightarrow> x | None \<Rightarrow> v) | _ \<Rightarrow> v)"

definition custom_items :: "(string \<Rightarrow> py option) \<Rightarrow> py \<Rightarrow> pydict result" where
  "custom_items loads custom =
     (if \<not> truthy custom then Inr []
      else case custom of PDict c \<Rightarrow> Inr (map (\<lambda>(k, v). (k, parsed_param loads v)) c) | _ \<Rightarrow> Inl AttributeError)"

definition effective_params :: "(string \<Rightarrow> py option) \<Rightarrow> pydict \<Rightarrow> pydict result" where
  "effective_params loads params =
     (let own = remove_open_webui_params params in
      bindR (custom_items loads (get_or own ''custom_params'' (PDict []))) (\<lambda>custom.
      mapR as_dict (deep_update (PDict (dpop ''custom_params'' own)) custom)))"

definition openai_mappings :: mappings where
  "openai_mappings = [(''temperature'', ToFloat), (''top_p'', ToFloat), (''min_p'', ToFloat), (''max_tokens'', ToInt),
     (''frequency_penalty'', ToFloat), (''presence_penalty'', ToFloat), (''reasoning_effort'', ToStr),
     (''seed'', Same), (''stop'', Unescape), (''logit_bias'', Same), (''response_format'', ToDict)]"

definition apply_model_params_to_body_openai ::
  "conversions \<Rightarrow> (string \<Rightarrow> py option) \<Rightarrow> pydict \<Rightarrow> pydict \<Rightarrow> pydict result" where
  "apply_model_params_to_body_openai C loads params form =
     bindR (effective_params loads params) (\<lambda>e.
     mapR as_dict (apply_model_params_to_body C openai_mappings e (PDict form)))"

definition ollama_mappings :: mappings where
  "ollama_mappings = [(''temperature'', ToFloat), (''top_p'', ToFloat), (''seed'', Same), (''mirostat'', ToInt),
     (''mirostat_eta'', ToFloat), (''mirostat_tau'', ToFloat), (''num_ctx'', ToInt), (''num_batch'', ToInt),
     (''num_keep'', ToInt), (''num_predict'', ToInt), (''repeat_last_n'', ToInt), (''top_k'', ToInt),
     (''min_p'', ToFloat), (''repeat_penalty'', ToFloat), (''presence_penalty'', ToFloat),
     (''frequency_penalty'', ToFloat), (''stop'', Unescape), (''num_gpu'', ToInt), (''use_mmap'', ToBool),
     (''use_mlock'', ToBool), (''num_thread'', ToInt)]"

text \<open>\<open>max_tokens\<close> under the name that Ollama gives it.\<close>

definition rename_max_tokens :: "pydict \<Rightarrow> pydict" where
  "rename_max_tokens params =
     (if field params ''max_tokens'' = PNone then params
      else dpop ''max_tokens'' (dset ''num_predict'' (field params ''max_tokens'') params))"

definition parse_json :: "(string \<Rightarrow> py option) \<Rightarrow> py \<Rightarrow> py" where
  "parse_json loads v = parsed_param loads v"

definition root_param :: "(string \<Rightarrow> py option) \<Rightarrow> string \<Rightarrow> py \<Rightarrow> py" where
  "root_param loads k v = (if k = ''think'' then v else parse_json loads v)"

definition ollama_root_params :: "string list" where
  "ollama_root_params = [''format'', ''keep_alive'', ''think'']"

text \<open>Parameters that belong to the root of the request leave the options.\<close>

definition move_root_param ::
  "(string \<Rightarrow> py option) \<Rightarrow> string \<Rightarrow> pydict \<times> pydict \<Rightarrow> pydict \<times> pydict" where
  "move_root_param loads k = (\<lambda>(params, form).
     if field params k = PNone then (params, form)
     else (dpop k params, dset k (root_param loads k (field params k)) form))"

definition apply_model_params_to_body_ollama ::
  "conversions \<Rightarrow> (string \<Rightarrow> py option) \<Rightarrow> pydict \<Rightarrow> pydict \<Rightarrow> pydict result" where
  "apply_model_params_to_body_ollama C loads params form =
     bindR (effective_params loads params) (\<lambda>e.
     let (own, form) = fold (move_root_param loads) ollama_root_params (rename_max_tokens e, form) in
     mapR (\<lambda>options. dset ''options'' options form)
       (apply_model_params_to_body C ollama_mappings own (py_or (get_or form ''options'' (PDict [])) (PDict []))))"

section \<open>Lemmas\<close>

lemma py_setitem_dict: "py_setitem (PDict d) k v = Inr (PDict (dset k v d))"
  by simp

lemma deep_update_dict:
  assumes "deep_update (PDict d) u = Inr r" "wf_dict d"
  shows "\<exists>e. r = PDict e \<and> wf_dict e \<and> (\<forall>k. k \<notin> set (dkeys u) \<longrightarrow> dget e k = dget d k)"
  using assms
proof (induction u arbitrary: d)
  case (Cons kv u)
  obtain k v where kv: "kv = (k, v)" by (rule prod.exhaust)
  with Cons.prems(1) obtain x where "deep_update (PDict (dset k x d)) u = Inr r" by auto
  from Cons.IH [OF this] Cons.prems(2) kv show ?case by auto
next
  case Nil
  then have "r = PDict d" by simp
  with Nil.prems(2) show ?case by simp
qed

lemma effective_wf:
  assumes "effective_params loads params = Inr e" "wf_dict params"
  shows "wf_dict e \<and> (\<forall>custom. custom_items loads (get_or (remove_open_webui_params params) ''custom_params'' (PDict [])) = Inr custom
    \<longrightarrow> (\<forall>k \<in> set open_webui_params. k \<notin> set (dkeys custom) \<longrightarrow> dget e k = None))"
proof -
  let ?own = "remove_open_webui_params params"
  from assms(1) obtain custom r where c:
      "custom_items loads (get_or ?own ''custom_params'' (PDict [])) = Inr custom"
      "deep_update (PDict (dpop ''custom_params'' ?own)) custom = Inr r" "e = as_dict r"
    by (auto simp: effective_params_def Let_def)
  have "wf_dict ?own" using assms(2) unfolding remove_open_webui_params_def by (rule distinct_map_filter)
  then have "wf_dict (dpop ''custom_params'' ?own)" by simp
  from deep_update_dict [OF c(2) this] obtain e' where e': "r = PDict e'" "wf_dict e'"
      "\<forall>k. k \<notin> set (dkeys custom) \<longrightarrow> dget e' k = dget (dpop ''custom_params'' ?own) k" by blast
  have "dget ?own k = None" if "k \<in> set open_webui_params" for k
    using that unfolding remove_open_webui_params_def dget_filter_key by simp
  with c e' show ?thesis by (simp add: as_dict_def)
qed

text \<open>Each parameter that is not \<open>None\<close> is converted into the body, in place of what stood there.\<close>

lemma params_applied:
  assumes "apply_model_params_to_body C M params (PDict f) = Inr r" "wf_dict params"
  shows "\<exists>g. r = PDict g
    \<and> (\<forall>k v. dget params k = Some v \<and> v \<noteq> PNone \<longrightarrow> (\<exists>x. cast_of C M k v = Inr x \<and> dget g k = Some x))
    \<and> (\<forall>k. field params k = PNone \<longrightarrow> dget g k = dget f k)"
  using assms unfolding apply_model_params_to_body_def
proof (induction params arbitrary: f)
  case (Cons kv params)
  obtain k v where kv: "kv = (k, v)" by (rule prod.exhaust)
  have new: "dget params k = None" and wf: "wf_dict params"
    using Cons.prems(2) kv by (auto simp: dget_None_keys)
  show ?case
  proof (cases "v = PNone")
    case True
    with Cons.prems(1) kv have "foldR (\<lambda>form (k, v). if v = PNone then Inr form else bindR (cast_of C M k v) (py_setitem form k))
        (PDict f) params = Inr r" by simp
    from Cons.IH [OF this wf] obtain g where "r = PDict g"
        "\<forall>k v. dget params k = Some v \<and> v \<noteq> PNone \<longrightarrow> (\<exists>x. cast_of C M k v = Inr x \<and> dget g k = Some x)"
        "\<forall>k. field params k = PNone \<longrightarrow> dget g k = dget f k" by (elim exE conjE) (rule that)
    note g = this(1) this(2) [rule_format] this(3) [rule_format]
    have "\<exists>y. cast_of C M k' v' = Inr y \<and> dget g k' = Some y" if "dget (kv # params) k' = Some v' \<and> v' \<noteq> PNone" for k' v'
      using that g(2) [of k' v'] True kv by (cases "k' = k") auto
    moreover have "dget g k' = dget f k'" if "field (kv # params) k' = PNone" for k'
      using that g(3) [of k'] True kv new by (cases "k' = k") (simp_all add: field_def)
    ultimately show ?thesis using g(1) by blast
  next
    case False
    with Cons.prems(1) kv obtain x where x: "cast_of C M k v = Inr x"
      and r: "foldR (\<lambda>form (k, v). if v = PNone then Inr form else bindR (cast_of C M k v) (py_setitem form k))
        (PDict (dset k x f)) params = Inr r" by auto
    from Cons.IH [OF r wf] obtain g where "r = PDict g"
        "\<forall>k v. dget params k = Some v \<and> v \<noteq> PNone \<longrightarrow> (\<exists>x. cast_of C M k v = Inr x \<and> dget g k = Some x)"
        "\<forall>k'. field params k' = PNone \<longrightarrow> dget g k' = dget (dset k x f) k'" by (elim exE conjE) (rule that)
    note g = this(1) this(2) [rule_format] this(3) [rule_format]
    have "dget g k = Some x" using g(3) [of k] new by (simp add: field_def)
    have "\<exists>y. cast_of C M k' v' = Inr y \<and> dget g k' = Some y" if "dget (kv # params) k' = Some v' \<and> v' \<noteq> PNone" for k' v'
      using that g(2) [of k' v'] x kv \<open>dget g k = Some x\<close> by (cases "k' = k") simp_all
    moreover have "dget g k' = dget f k'" if "field (kv # params) k' = PNone" for k'
      using that g(3) [of k'] False kv by (cases "k' = k") (simp_all add: field_def)
    ultimately show ?thesis using g(1) by blast
  qed
next
  case Nil
  then have "r = PDict f" by simp
  then show ?case by simp
qed

lemma openai_params_exact:
  assumes "apply_model_params_to_body_openai C loads params form = Inr form'" "effective_params loads params = Inr e"
    and "wf_dict params"
  shows "(\<forall>k v. dget e k = Some v \<and> v \<noteq> PNone \<longrightarrow>
      (\<exists>x. cast_of C openai_mappings k v = Inr x \<and> dget form' k = Some x))
    \<and> (\<forall>k. field e k = PNone \<longrightarrow> dget form' k = dget form k)"
proof -
  from assms(1,2) obtain r where r: "apply_model_params_to_body C openai_mappings e (PDict form) = Inr r" "form' = as_dict r"
    by (auto simp: apply_model_params_to_body_openai_def)
  from params_applied [OF r(1)] effective_wf [OF assms(2,3)] r(2) show ?thesis by (auto simp: as_dict_def)
qed

lemma move_root_param_other:
  "k' \<noteq> k \<Longrightarrow> dget (fst (move_root_param loads k (params, form))) k' = dget params k'
    \<and> dget (snd (move_root_param loads k (params, form))) k' = dget form k'"
  by (simp add: move_root_param_def)

lemma move_root_param_same:
  "field (fst (move_root_param loads k (params, form))) k = PNone
    \<and> (field params k \<noteq> PNone \<longrightarrow> dget (snd (move_root_param loads k (params, form))) k
         = Some (root_param loads k (field params k)))"
  by (simp add: move_root_param_def field_def)

lemma wf_move_root_param: "wf_dict params \<Longrightarrow> wf_dict (fst (move_root_param loads k (params, form)))"
  by (simp add: move_root_param_def)

text \<open>The root parameters are moved one after another, each on its own.\<close>

lemma moved_root_params:
  assumes "fold (move_root_param loads) ks (params, form) = (own, form1)" "distinct ks"
  shows "(wf_dict params \<longrightarrow> wf_dict own)
    \<and> (\<forall>k. k \<notin> set ks \<longrightarrow> dget own k = dget params k \<and> dget form1 k = dget form k)
    \<and> (\<forall>k \<in> set ks. field own k = PNone \<and> (field params k \<noteq> PNone \<longrightarrow>
         dget form1 k = Some (root_param loads k (field params k)))
         \<and> (field params k = PNone \<longrightarrow> dget form1 k = dget form k))"
  using assms
proof (induction ks arbitrary: params form)
  case (Cons k ks)
  obtain p f where pf: "move_root_param loads k (params, form) = (p, f)" by (rule prod.exhaust)
  with Cons.prems have step: "fold (move_root_param loads) ks (p, f) = (own, form1)" and k: "k \<notin> set ks" "distinct ks"
    by auto
  note IH = Cons.IH [OF step k(2)]
  have same: "dget own k = dget p k" "dget form1 k = dget f k" using IH k(1) by auto
  have "field params k = PNone \<longrightarrow> dget f k = dget form k" using pf by (auto simp: move_root_param_def)
  with move_root_param_same [of loads k params form] have
    "field own k = PNone \<and> (field params k \<noteq> PNone \<longrightarrow> dget form1 k = Some (root_param loads k (field params k)))
     \<and> (field params k = PNone \<longrightarrow> dget form1 k = dget form k)"
    unfolding pf by (simp add: field_def same)
  moreover have other: "dget p k' = dget params k' \<and> dget f k' = dget form k'" if "k' \<noteq> k" for k'
    using move_root_param_other [OF that, of loads params form] unfolding pf by simp
  have "field own k' = PNone \<and> (field params k' \<noteq> PNone \<longrightarrow> dget form1 k' = Some (root_param loads k' (field params k')))
      \<and> (field params k' = PNone \<longrightarrow> dget form1 k' = dget form k')"
    if "k' \<in> set ks" for k'
  proof -
    from that k(1) have "k' \<noteq> k" by auto
    with other have "field p k' = field params k'" by (simp add: field_def)
    with IH that other [OF \<open>k' \<noteq> k\<close>] show ?thesis by simp
  qed
  moreover have "wf_dict params \<longrightarrow> wf_dict p"
    using wf_move_root_param [of params loads k form] unfolding pf by simp
  moreover have "dget own k' = dget params k' \<and> dget form1 k' = dget form k'" if "k' \<notin> set (k # ks)" for k'
    using IH other that by simp
  ultimately show ?case using IH by simp
qed simp

section \<open>Properties\<close>

lemma placed_params:
  assumes "apply_model_params_to_body_ollama C loads params form = Inr form'" "effective_params loads params = Inr e"
    and "wf_dict params" "py_or (get_or form ''options'' (PDict [])) (PDict []) = PDict old" "p = rename_max_tokens e"
  shows "\<exists>options. dget form' ''options'' = Some (PDict options)
    \<and> (\<forall>k v. k \<notin> set ollama_root_params \<and> dget p k = Some v \<and> v \<noteq> PNone \<longrightarrow>
        (\<exists>x. cast_of C ollama_mappings k v = Inr x \<and> dget options k = Some x))
    \<and> (\<forall>k. k \<in> set ollama_root_params \<or> field p k = PNone \<longrightarrow> dget options k = dget old k)
    \<and> (\<forall>k \<in> set ollama_root_params. dget form' k = (if field p k = PNone then dget form k
        else Some (root_param loads k (field p k))))
    \<and> (\<forall>k. k \<noteq> ''options'' \<and> k \<notin> set ollama_root_params \<longrightarrow> dget form' k = dget form k)"
proof -
  obtain own form1 where m: "fold (move_root_param loads) ollama_root_params (p, form) = (own, form1)" by (rule prod.exhaust)
  have root: "distinct ollama_root_params" "''options'' \<notin> set ollama_root_params" by (simp_all add: ollama_root_params_def)
  note moved = moved_root_params [OF m root(1)]
  have "get_or form1 ''options'' (PDict []) = get_or form ''options'' (PDict [])"
    using moved root(2) by (simp add: get_or_def)
  with assms(1,2,4,5) m obtain r where r: "apply_model_params_to_body C ollama_mappings own (PDict old) = Inr r"
      "form' = dset ''options'' r form1"
    by (auto simp: apply_model_params_to_body_ollama_def)
  have "wf_dict p" using effective_wf [OF assms(2,3)] assms(5) by (simp add: rename_max_tokens_def)
  with params_applied [OF r(1)] moved obtain g where g: "r = PDict g"
      "\<And>k v. dget own k = Some v \<and> v \<noteq> PNone \<Longrightarrow> \<exists>x. cast_of C ollama_mappings k v = Inr x \<and> dget g k = Some x"
      "\<And>k. field own k = PNone \<Longrightarrow> dget g k = dget old k" by blast
  have "dget g k = dget old k" if "k \<in> set ollama_root_params \<or> field p k = PNone" for k
    using that moved by (cases "k \<in> set ollama_root_params") (auto intro!: g(3) simp: field_def)
  then show ?thesis
    using g(1,2) moved r(2) root(2) by (intro exI [of _ g]) auto
qed

text \<open>
  The value that a parameter has before it is converted: the custom one where there is one, as JSON if
  it is a text that is JSON, and else that of the model, except what only Open WebUI reads.
\<close>

definition custom_value :: "(string \<Rightarrow> py option) \<Rightarrow> pydict \<Rightarrow> string \<Rightarrow> py option" where
  "custom_value loads params k = (case dget params ''custom_params'' of
     Some (PDict c) \<Rightarrow> (case dget c k of
       Some (PStr s) \<Rightarrow> Some (case loads s of Some v \<Rightarrow> v | None \<Rightarrow> PStr s)
     | v \<Rightarrow> v)
   | _ \<Rightarrow> None)"

definition param_value :: "(string \<Rightarrow> py option) \<Rightarrow> pydict \<Rightarrow> string \<Rightarrow> py" where
  "param_value loads params k = (case custom_value loads params k of
     Some v \<Rightarrow> v
   | None \<Rightarrow> if k \<in> {''stream_response'', ''stream_delta_chunk_size'', ''reasoning_tags'', ''compact_token_threshold'', ''system'', ''custom_params''}
       then PNone else field params k)"

definition flat_param :: "(string \<Rightarrow> py option) \<Rightarrow> pydict \<Rightarrow> string \<Rightarrow> bool" where
  "flat_param loads params k \<longleftrightarrow> (\<forall>w. custom_value loads params k \<noteq> Some (PDict w))"

definition ollama_type :: "string \<Rightarrow> cast" where
  "ollama_type k = (if k \<in> {''temperature'', ''top_p'', ''mirostat_eta'', ''mirostat_tau'', ''min_p'', ''repeat_penalty'',
       ''presence_penalty'', ''frequency_penalty''} then ToFloat
     else if k \<in> {''mirostat'', ''num_ctx'', ''num_batch'', ''num_keep'', ''num_predict'', ''repeat_last_n'', ''top_k'', ''num_gpu'',
       ''num_thread''} then ToInt
     else if k \<in> {''use_mmap'', ''use_mlock''} then ToBool else if k = ''stop'' then Unescape else Same)"

lemma cast_of_ollama: "cast_of C ollama_mappings k v = apply_cast C (ollama_type k) v"
  by (simp add: cast_of_def ollama_mappings_def ollama_type_def)

lemma deep_update_flat:
  assumes "deep_update (PDict d) u = Inr r" "wf_dict u"
  shows "\<exists>e. r = PDict e \<and> (\<forall>k. case dget u k of Some v \<Rightarrow> \<not> is_dict v \<longrightarrow> dget e k = Some v | None \<Rightarrow> dget e k = dget d k)"
  using assms
proof (induction u arbitrary: d)
  case (Cons kv u)
  obtain k v where kv: "kv = (k, v)" by (rule prod.exhaust)
  with Cons.prems(1) obtain x where x: "(case v of PDict w \<Rightarrow> bindR (py_get_or (PDict d) k (PDict [])) (\<lambda>old. deep_update old w) | _ \<Rightarrow> Inr v) = Inr x"
    "deep_update (PDict (dset k x d)) u = Inr r" by auto
  have v: "\<not> is_dict v \<Longrightarrow> x = v" using x(1) by (cases v) auto
  have new: "dget u k = None" "wf_dict u" using Cons.prems(2) kv by (auto simp: dget_None_keys)
  obtain e where e: "r = PDict e"
    "\<And>k'. case dget u k' of Some v \<Rightarrow> \<not> is_dict v \<longrightarrow> dget e k' = Some v | None \<Rightarrow> dget e k' = dget (dset k x d) k'"
    using Cons.IH [OF x(2) new(2)] by blast
  have "case dget (kv # u) k' of Some v \<Rightarrow> \<not> is_dict v \<longrightarrow> dget e k' = Some v | None \<Rightarrow> dget e k' = dget d k'" for k'
    using e(2) [of k'] v new(1) by (cases "k' = k") (auto simp: kv split: option.splits)
  with e(1) show ?case by blast
qed auto

lemma dget_map_value: "dget (map (\<lambda>(k, v). (k, f v)) c) k = map_option f (dget c k)"
  by (induction c) auto

lemma effective_value:
  assumes "effective_params loads params = Inr e" "wf_dict params"
    and "\<And>c. dget params ''custom_params'' = Some (PDict c) \<Longrightarrow> wf_dict c" and "flat_param loads params k"
  shows "field e k = param_value loads params k"
proof -
  let ?own = "remove_open_webui_params params"
  obtain custom r where c: "custom_items loads (get_or ?own ''custom_params'' (PDict [])) = Inr custom"
      "deep_update (PDict (dpop ''custom_params'' ?own)) custom = Inr r" "e = as_dict r"
    using assms(1) by (auto simp: effective_params_def Let_def)
  have own: "dget ?own k = (if k \<in> set open_webui_params then None else dget params k)" for k
    unfolding remove_open_webui_params_def dget_filter_key by simp
  have "''custom_params'' \<notin> set open_webui_params" by (simp add: open_webui_params_def)
  then have cp: "get_or ?own ''custom_params'' (PDict []) = get_or params ''custom_params'' (PDict [])" by (simp add: get_or_def own)
  have custom: "(\<exists>c. dget params ''custom_params'' = Some (PDict c) \<and> custom = map (\<lambda>(k, v). (k, parsed_param loads v)) c)
      \<or> ((\<nexists>c. dget params ''custom_params'' = Some (PDict c)) \<and> custom = [])"
  proof (cases "dget params ''custom_params''")
    case None
    with c(1) show ?thesis unfolding cp by (simp add: custom_items_def get_or_def)
  next
    case (Some v)
    with c(1) have "custom_items loads v = Inr custom" unfolding cp by (simp add: get_or_def)
    with Some show ?thesis by (cases v) (auto simp: custom_items_def split: if_splits)
  qed
  then have "wf_dict custom \<and> dget custom k = custom_value loads params k"
  proof (elim disjE exE conjE)
    fix c' assume c': "dget params ''custom_params'' = Some (PDict c')" "custom = map (\<lambda>(k, v). (k, parsed_param loads v)) c'"
    have "wf_dict custom" using assms(3) [OF c'(1)] by (simp add: c'(2) case_prod_unfold o_def)
    moreover have "dget custom k = custom_value loads params k"
      by (simp add: custom_value_def c' dget_map_value parsed_param_def split: option.split py.split)
    ultimately show ?thesis by blast
  next
    assume c': "\<nexists>c. dget params ''custom_params'' = Some (PDict c)" "custom = []"
    then show ?thesis by (simp add: custom_value_def split: option.split py.split)
  qed
  then have wf: "wf_dict custom" and key: "dget custom k = custom_value loads params k" by blast+
  from deep_update_flat [OF c(2) wf] obtain e' where e': "r = PDict e'"
    "\<And>k. case dget custom k of Some v \<Rightarrow> \<not> is_dict v \<longrightarrow> dget e' k = Some v | None \<Rightarrow> dget e' k = dget (dpop ''custom_params'' ?own) k"
    by blast
  have "\<not> is_dict v" if "custom_value loads params k = Some v" for v
    using assms(4) that by (cases v) (auto simp: flat_param_def)
  then have dict: "dget e' k = Some v" if "custom_value loads params k = Some v" for v
    using that e'(2) [of k] by (simp add: key)
  show ?thesis
  proof (cases "custom_value loads params k")
    case None
    then have "dget e' k = dget (dpop ''custom_params'' ?own) k" using e'(2) [of k] by (simp add: key)
    then show ?thesis using None by (simp add: param_value_def field_def c(3) e'(1) as_dict_def own open_webui_params_def)
  next
    case (Some v)
    then show ?thesis using dict [OF Some] by (simp add: param_value_def field_def c(3) e'(1) as_dict_def)
  qed
qed

text \<open>C36: every parameter of a model reaches Ollama in one place. The value of a parameter is the custom one, read as JSON
  if it is such a text, and else that of the model, except for those that only Open WebUI reads. Then \<open>format\<close>,
  \<open>keep_alive\<close> (both read as JSON if they are such texts) and \<open>think\<close> are in the root of the request; \<open>max_tokens\<close> is in
  the options as \<open>num_predict\<close>, as an integer, in place of what \<open>num_predict\<close> was; and any other parameter is in the options
  under its own name, converted to its type. The options keep what they had under other names, a parameter without a
  value changes nothing, and the rest of the request stays. This is for a request and options that are dicts, when the
  conversions raise nothing, and for a parameter whose custom value is no dict (which is merged in).\<close>

theorem ollama_params_placed:
  assumes "apply_model_params_to_body_ollama C loads params form = Inr form'" and "wf_dict params"
    and "\<And>c. dget params ''custom_params'' = Some (PDict c) \<Longrightarrow> wf_dict c"
    and "py_or (get_or form ''options'' (PDict [])) (PDict []) = PDict old"
  defines "given \<equiv> param_value loads params" and "flat \<equiv> flat_param loads params"
  shows "\<exists>options. dget form' ''options'' = Some (PDict options)
    \<and> (flat ''max_tokens'' \<and> given ''max_tokens'' \<noteq> PNone \<longrightarrow>
        (\<exists>n. to_int (given ''max_tokens'') = Inr n \<and> dget options ''num_predict'' = Some (PInt n)))
    \<and> dget options ''max_tokens'' = dget old ''max_tokens''
    \<and> (\<forall>k. flat k \<and> k \<notin> {''format'', ''keep_alive'', ''think'', ''max_tokens''} \<and>
        (k = ''num_predict'' \<longrightarrow> flat ''max_tokens'' \<and> given ''max_tokens'' = PNone) \<longrightarrow>
        (if given k = PNone then dget options k = dget old k
         else \<exists>x. apply_cast C (ollama_type k) (given k) = Inr x \<and> dget options k = Some x))
    \<and> (\<forall>k \<in> {''format'', ''keep_alive'', ''think''}. dget options k = dget old k \<and> (flat k \<longrightarrow>
        dget form' k = (if given k = PNone then dget form k else Some (case given k of
          PStr s \<Rightarrow> if k = ''think'' then PStr s else (case loads s of Some v \<Rightarrow> v | None \<Rightarrow> PStr s) | v \<Rightarrow> v))))
    \<and> (\<forall>k. k \<notin> {''options'', ''format'', ''keep_alive'', ''think''} \<longrightarrow> dget form' k = dget form k)"
proof -
  obtain e where e: "effective_params loads params = Inr e"
    using assms(1) by (auto simp: apply_model_params_to_body_ollama_def)
  have v: "field e k = given k" if "flat k" for k
    using effective_value [OF e assms(2,3)] that by (simp add: given_def flat_def)
  let ?p = "rename_max_tokens e"
  have p: "field ?p ''max_tokens'' = PNone"
    "k \<notin> {''max_tokens'', ''num_predict''} \<Longrightarrow> field ?p k = field e k"
    "field ?p ''num_predict'' = (if field e ''max_tokens'' = PNone then field e ''num_predict'' else field e ''max_tokens'')" for k
    by (auto simp: rename_max_tokens_def field_def)
  have root: "set ollama_root_params = {''format'', ''keep_alive'', ''think''}" by (simp add: ollama_root_params_def)
  obtain options where placed: "dget form' ''options'' = Some (PDict options)"
    "\<forall>k v. k \<notin> set ollama_root_params \<and> dget ?p k = Some v \<and> v \<noteq> PNone \<longrightarrow>
      (\<exists>x. cast_of C ollama_mappings k v = Inr x \<and> dget options k = Some x)"
    "\<forall>k. k \<in> set ollama_root_params \<or> field ?p k = PNone \<longrightarrow> dget options k = dget old k"
    "\<forall>k \<in> set ollama_root_params. dget form' k = (if field ?p k = PNone then dget form k
        else Some (root_param loads k (field ?p k)))"
    "\<forall>k. k \<noteq> ''options'' \<and> k \<notin> set ollama_root_params \<longrightarrow> dget form' k = dget form k"
    using placed_params [OF assms(1) e assms(2,4) refl] by (elim exE conjE) (rule that)
  have o: "dget form' ''options'' = Some (PDict options)"
    "k \<notin> {''format'', ''keep_alive'', ''think''} \<Longrightarrow> field ?p k \<noteq> PNone \<Longrightarrow>
      \<exists>x. apply_cast C (ollama_type k) (field ?p k) = Inr x \<and> dget options k = Some x"
    "k \<in> {''format'', ''keep_alive'', ''think''} \<or> field ?p k = PNone \<Longrightarrow> dget options k = dget old k"
    "k \<in> {''format'', ''keep_alive'', ''think''} \<Longrightarrow>
      dget form' k = (if field ?p k = PNone then dget form k else Some (root_param loads k (field ?p k)))"
    "k \<notin> {''options'', ''format'', ''keep_alive'', ''think''} \<Longrightarrow> dget form' k = dget form k" for k
  proof -
    show "dget form' ''options'' = Some (PDict options)" by (rule placed(1))
    show "\<exists>x. apply_cast C (ollama_type k) (field ?p k) = Inr x \<and> dget options k = Some x"
      if k: "k \<notin> {''format'', ''keep_alive'', ''think''}" "field ?p k \<noteq> PNone"
    proof -
      have "dget ?p k = Some (field ?p k)" using k(2) by (simp add: field_def split: option.splits)
      with placed(2) k show ?thesis unfolding root cast_of_ollama by blast
    qed
    show "dget options k = dget old k" if "k \<in> {''format'', ''keep_alive'', ''think''} \<or> field ?p k = PNone"
      using placed(3) that unfolding root by blast
    show "dget form' k = (if field ?p k = PNone then dget form k else Some (root_param loads k (field ?p k)))"
      if "k \<in> {''format'', ''keep_alive'', ''think''}" using placed(4) that unfolding root by (rule bspec)
    show "dget form' k = dget form k" if "k \<notin> {''options'', ''format'', ''keep_alive'', ''think''}"
      using placed(5) that unfolding root by blast
  qed
  have max: "\<exists>n. to_int (given ''max_tokens'') = Inr n \<and> dget options ''num_predict'' = Some (PInt n)"
    if "flat ''max_tokens''" "given ''max_tokens'' \<noteq> PNone"
    using o(2) [of "''num_predict''"] that by (auto simp: p(3) v ollama_type_def)
  have other: "if given k = PNone then dget options k = dget old k
      else \<exists>x. apply_cast C (ollama_type k) (given k) = Inr x \<and> dget options k = Some x"
    if k: "flat k" "k \<notin> {''format'', ''keep_alive'', ''think'', ''max_tokens''}"
      "k = ''num_predict'' \<longrightarrow> flat ''max_tokens'' \<and> given ''max_tokens'' = PNone" for k
  proof -
    have "field ?p k = given k" using k p(2) [of k] by (cases "k = ''num_predict''") (auto simp: p(3) v)
    with o(2) [of k] o(3) [of k] k(2) show ?thesis by auto
  qed
  have roots: "dget options k = dget old k \<and> (flat k \<longrightarrow>
      dget form' k = (if given k = PNone then dget form k else Some (case given k of
        PStr s \<Rightarrow> if k = ''think'' then PStr s else (case loads s of Some v \<Rightarrow> v | None \<Rightarrow> PStr s) | v \<Rightarrow> v)))"
    if k: "k \<in> {''format'', ''keep_alive'', ''think''}" for k
  proof -
    have "root_param loads k w = (case w of
        PStr s \<Rightarrow> if k = ''think'' then PStr s else (case loads s of Some v \<Rightarrow> v | None \<Rightarrow> PStr s) | v \<Rightarrow> v)" for w
      by (simp add: root_param_def parse_json_def parsed_param_def split: py.split option.split)
    moreover have "field ?p k = field e k" using k by (intro p(2)) auto
    moreover have "dget options k = dget old k" by (rule o(3)) (use k in blast)
    ultimately show ?thesis using o(4) [OF k] v [of k] by (cases "given k = PNone") simp_all
  qed
  show ?thesis
  proof (intro exI [of _ options] conjI)
    show "dget form' ''options'' = Some (PDict options)" by (rule o(1))
    show "flat ''max_tokens'' \<and> given ''max_tokens'' \<noteq> PNone \<longrightarrow>
        (\<exists>n. to_int (given ''max_tokens'') = Inr n \<and> dget options ''num_predict'' = Some (PInt n))" using max by blast
    show "dget options ''max_tokens'' = dget old ''max_tokens''" by (rule o(3)) (simp add: p(1))
  qed (rule allI, rule impI, elim conjE, rule other, assumption+, rule ballI, rule roots, assumption, rule allI, rule impI, rule o(5), assumption)
qed


section \<open>Examples\<close>

definition demo_conversions :: conversions where
  "demo_conversions = \<lparr>cv_round = \<lambda>q. q, cv_float = \<lambda>_. Inl (ValueError ''float''), cv_str = \<lambda>_. [], cv_dict = \<lambda>_. Inl TypeError,
     cv_unescape = Inr\<rparr>"

definition demo_params :: pydict where
  "demo_params = [(''temperature'', PInt 1), (''max_tokens'', PInt 50), (''system'', PStr ''Be kind.''),
     (''custom_params'', PDict [(''think'', PStr ''true''), (''stop'', PList [PStr ''END''])])]"

definition demo_loads :: "string \<Rightarrow> py option" where
  "demo_loads s = (if s = ''true'' then Some (PBool True) else None)"

lemma demo_effective: "effective_params demo_loads demo_params = Inr [(''temperature'', PInt 1), (''max_tokens'', PInt 50),
    (''think'', PBool True), (''stop'', PList [PStr ''END''])]"
  by code_simp

lemma demo_ollama_params:
  "apply_model_params_to_body_ollama demo_conversions demo_loads demo_params [(''model'', PStr ''m'')] =
   Inr [(''model'', PStr ''m''), (''think'', PBool True), (''options'', PDict [(''temperature'', PFloat 1),
     (''stop'', PList [PStr ''END'']), (''num_predict'', PInt 50)])]"
  by (simp add: apply_model_params_to_body_ollama_def demo_effective ollama_root_params_def rename_max_tokens_def field_def
      move_root_param_def root_param_def get_or_def py_or_def apply_model_params_to_body_def cast_of_def ollama_mappings_def
      cast_stop_def demo_conversions_def utf8_bytes_def code_def as_dict_def)

lemma ollama_params_placed_witness:
  "\<exists>options. dget [(''model'', PStr ''m''), (''think'', PBool True), (''options'', PDict [(''temperature'', PFloat 1),
       (''stop'', PList [PStr ''END'']), (''num_predict'', PInt 50)])] ''options'' = Some (PDict options)
     \<and> (\<exists>n. to_int (PInt 50) = Inr n \<and> dget options ''num_predict'' = Some (PInt n))"
proof -
  have wf: "wf_dict demo_params" by (simp add: demo_params_def)
  have old: "py_or (get_or [(''model'', PStr ''m'')] ''options'' (PDict [])) (PDict []) = PDict []"
    by (simp add: get_or_def py_or_def)
  have custom: "wf_dict c" if "dget demo_params ''custom_params'' = Some (PDict c)" for c
    using that by (auto simp: demo_params_def)
  have value_of: "flat_param demo_loads demo_params ''max_tokens''" "param_value demo_loads demo_params ''max_tokens'' = PInt 50"
    by (simp_all add: flat_param_def param_value_def custom_value_def demo_params_def field_def)
  from ollama_params_placed [OF demo_ollama_params wf custom old] value_of show ?thesis by auto
qed

text \<open>A single stop sequence that is a string, as OpenAI allows, becomes a list of its characters.\<close>

lemma stop_string_is_split:
  "apply_cast demo_conversions Unescape (PStr ''END'') = Inr (PList [PStr ''E'', PStr ''N'', PStr ''D''])"
  by code_simp

text \<open>A stop sequence beyond ASCII is read as the characters of its UTF-8 bytes, whatever the
  unescaping does, as long as it leaves text without a backslash alone.\<close>

lemma stop_umlaut_is_changed:
  assumes "\<forall>s. CHR 0x5C \<notin> set s \<longrightarrow> cv_unescape C s = Inr s"
  shows "apply_cast C Unescape (PList [PStr [CHR 0xFC]]) = Inr (PList [PStr [CHR 0xC3, CHR 0xBC]])"
proof -
  have "utf8_bytes [CHR 0xFC] = [CHR 0xC3, CHR 0xBC]" by code_simp
  with assms show ?thesis by (simp add: cast_stop_def)
qed

end
