(* ===== verification/Ollama_Convert.thy ===== *)
theory Ollama_Convert
  imports Model_Params
begin

text \<open>
  Between OpenAI and Ollama: the requests of \<open>utils/payload.py\<close> and the responses and streams of
  \<open>utils/response.py\<close> with the message templates of \<open>utils/misc.py\<close>. \<open>loads\<close> is \<open>json.loads\<close> on a string,
  \<open>None\<close> where it raises; \<open>dumps\<close> is \<open>json.dumps\<close>, \<open>str_of\<close> is \<open>str\<close> of a value that is no string;
  \<open>fresh n i\<close> is the text of the uuid for the call \<open>i\<close> of the chunk \<open>n\<close>.
\<close>

section \<open>Messages\<close>

definition json_value :: "(string \<Rightarrow> py option) \<Rightarrow> py \<Rightarrow> py result" where
  "json_value loads v =
     (case v of PStr s \<Rightarrow> (case loads s of Some x \<Rightarrow> Inr x | None \<Rightarrow> Inl (ValueError ''json'')) | _ \<Rightarrow> Inl TypeError)"

definition ollama_tool_call :: "(string \<Rightarrow> py option) \<Rightarrow> py \<Rightarrow> py result" where
  "ollama_tool_call loads call =
     bindR (py_get_or call ''index'' (PInt 0)) (\<lambda>index.
     bindR (py_get call ''id'') (\<lambda>i.
     bindR (py_get_or call ''function'' (PDict [])) (\<lambda>f.
     bindR (py_get_or f ''name'' (PStr [])) (\<lambda>name.
     bindR (py_get_or f ''arguments'' (PDict [])) (\<lambda>a.
     mapR (\<lambda>a. PDict [(''index'', index), (''id'', i), (''function'', PDict [(''name'', name), (''arguments'', a)])])
       (json_value loads a))))))"

text \<open>A content that is a list: its texts and its images, base64 data without its header.\<close>

definition image_data :: "py \<Rightarrow> py list result" where
  "image_data url =
     (if \<not> truthy url then Inr []
      else case url of
        PStr u \<Rightarrow> Inr [PStr (if starts_with u ''data:'' then last (split_on CHR '','' u) else u)]
      | _ \<Rightarrow> Inl AttributeError)"

definition content_item :: "py \<Rightarrow> (string \<times> py list) result" where
  "content_item item =
     bindR (py_get item ''type'') (\<lambda>t.
     if t = PStr ''text'' then mapR (\<lambda>s. (s, [])) (bindR (py_get_or item ''text'' (PStr [])) the_str)
     else if t = PStr ''image_url''
     then bindR (py_get_or item ''image_url'' (PDict [])) (\<lambda>u.
          bindR (py_get_or u ''url'' (PStr [])) (\<lambda>url. mapR (\<lambda>is. ([], is)) (image_data url)))
     else Inr ([], []))"

definition ollama_content :: "py \<Rightarrow> pydict result" where
  "ollama_content content =
     bindR (py_iter content) (\<lambda>items.
     mapR (\<lambda>ps.
         let t = concat (map fst ps); images = concat (map snd ps) in
         (if t = [] then [] else [(''content'', PStr (str_strip t))])
         @ (if images = [] then [] else [(''images'', PList images)]))
       (listR content_item items))"

definition convert_message_ollama :: "(string \<Rightarrow> py option) \<Rightarrow> py \<Rightarrow> py result" where
  "convert_message_ollama loads message =
     bindR (py_item message ''role'') (\<lambda>role.
     bindR (py_get_or message ''content'' (PList [])) (\<lambda>content.
     bindR (py_get message ''tool_calls'') (\<lambda>calls.
     bindR (py_get message ''tool_call_id'') (\<lambda>call_id.
     let thinking = (case message of PDict d \<Rightarrow>
           (case dget d ''thinking'' of Some v \<Rightarrow> [(''thinking'', v)] | None \<Rightarrow> []) | _ \<Rightarrow> []);
         new = (''role'', role) # thinking in
     if is_str content \<and> \<not> truthy calls
     then Inr (PDict (new @ (''content'', content) # (if truthy call_id then [(''tool_call_id'', call_id)] else [])))
     else if truthy calls
     then bindR (py_iter calls) (\<lambda>cs. mapR (\<lambda>cs. PDict (new @ [(''tool_calls'', PList cs), (''content'', PStr [])]))
            (listR (ollama_tool_call loads) cs))
     else mapR (\<lambda>c. PDict (new @ c)) (ollama_content content)))))"

definition convert_messages_openai_to_ollama :: "(string \<Rightarrow> py option) \<Rightarrow> py \<Rightarrow> py list result" where
  "convert_messages_openai_to_ollama loads messages =
     bindR (py_iter messages) (listR (convert_message_ollama loads))"

section \<open>Requests\<close>

definition dict_of :: "conversions \<Rightarrow> py \<Rightarrow> pydict result" where
  "dict_of C v = (case v of PDict d \<Rightarrow> Inr d | _ \<Rightarrow> cv_dict C v)"

text \<open>The options of the request: some belong to the root, \<open>max_tokens\<close> is renamed.\<close>

definition convert_options :: "(string \<Rightarrow> py option) \<Rightarrow> pydict \<Rightarrow> pydict \<Rightarrow> pydict" where
  "convert_options loads options payload =
     (let (options, payload) = fold (move_root_param loads) ollama_root_params
            (options, dset ''options'' (PDict options) payload);
          options = (case dget options ''max_tokens'' of
              Some v \<Rightarrow> dpop ''max_tokens'' (dset ''num_predict'' v options) | None \<Rightarrow> options);
          (options, payload) = (case dget options ''system'' of
              Some v \<Rightarrow> (dpop ''system'' options, dset ''system'' v payload) | None \<Rightarrow> (options, payload))
      in dset ''options'' (PDict options) payload)"

definition convert_response_format :: "py \<Rightarrow> pydict \<Rightarrow> pydict result" where
  "convert_response_format response_format payload =
     bindR (py_get response_format ''type'') (\<lambda>t.
     let schema = (case (response_format, t) of (PDict d, PStr k) \<Rightarrow> field d k | _ \<Rightarrow> PNone) in
     if \<not> hashable t then Inl TypeError
     else if truthy schema then mapR (\<lambda>f. dset ''format'' f payload) (py_get schema ''schema'')
     else Inr payload)"

definition convert_payload_openai_to_ollama ::
  "conversions \<Rightarrow> (string \<Rightarrow> py option) \<Rightarrow> pydict \<Rightarrow> pydict result" where
  "convert_payload_openai_to_ollama C loads p =
     bindR (if field p ''metadata'' = PNone then Inr []
            else mapR (\<lambda>d. [(''metadata'', PDict d)]) (dict_of C (field p ''metadata''))) (\<lambda>metadata.
     bindR (convert_messages_openai_to_ollama loads (field p ''messages'')) (\<lambda>messages.
     let payload = [(''model'', field p ''model''), (''messages'', PList messages), (''stream'', get_or p ''stream'' (PBool False))];
         payload = (case dget p ''tools'' of Some v \<Rightarrow> dset ''tools'' v payload | None \<Rightarrow> payload);
         payload = (case dget p ''max_tokens'' of Some v \<Rightarrow> dset ''num_predict'' v payload | None \<Rightarrow> payload) in
     bindR (if truthy (field p ''options'')
            then mapR (\<lambda>options. convert_options loads options payload) (dict_of C (field p ''options''))
            else Inr payload) (\<lambda>payload.
     let payload = (case dget p ''stop'' of
           Some v \<Rightarrow> dset ''options'' (PDict (dset ''stop'' v (as_dict (field payload ''options'')))) payload
         | None \<Rightarrow> payload);
         payload = (case metadata of [] \<Rightarrow> payload | (k, v) # _ \<Rightarrow> dset k v payload) in
     (case dget p ''response_format'' of
        Some f \<Rightarrow> convert_response_format f payload
      | None \<Rightarrow> Inr payload))))"

definition copy_fields :: "string list \<Rightarrow> pydict \<Rightarrow> pydict \<Rightarrow> pydict" where
  "copy_fields ks from_payload payload =
     fold (\<lambda>k d. case dget from_payload k of Some v \<Rightarrow> dset k v d | None \<Rightarrow> d) ks payload"

definition convert_embedding_payload_openai_to_ollama :: "(py \<Rightarrow> string) \<Rightarrow> pydict \<Rightarrow> pydict" where
  "convert_embedding_payload_openai_to_ollama str_of p =
     (let v = field p ''input'';
          (input, prompt) = (case v of PList xs \<Rightarrow> (v, str_join line_feed (map (fmt str_of) xs)) | _ \<Rightarrow> (PList [v], fmt str_of v))
      in copy_fields [''options'', ''truncate'', ''keep_alive''] p
           [(''model'', field p ''model''), (''input'', input), (''prompt'', PStr prompt)])"

definition convert_embed_payload_openai_to_ollama :: "pydict \<Rightarrow> pydict" where
  "convert_embed_payload_openai_to_ollama p =
     copy_fields [''truncate'', ''options'', ''keep_alive''] p [(''model'', field p ''model''), (''input'', field p ''input'')]"

section \<open>Responses\<close>

definition openai_tool_call :: "(py \<Rightarrow> string) \<Rightarrow> string \<Rightarrow> py \<Rightarrow> py result" where
  "openai_tool_call dumps uuid call =
     bindR (py_get_or call ''function'' (PDict [])) (\<lambda>f.
     bindR (py_get_or f ''index'' (PInt 0)) (\<lambda>f_index.
     bindR (py_get_or call ''index'' f_index) (\<lambda>index.
     bindR (py_get_or call ''id'' (PStr (''call_'' @ uuid))) (\<lambda>i.
     bindR (py_get_or f ''name'' (PStr [])) (\<lambda>name.
     mapR (\<lambda>a. PDict [(''index'', index), (''id'', i), (''type'', PStr ''function''),
         (''function'', PDict [(''name'', name), (''arguments'', PStr (dumps a))])])
       (py_get_or f ''arguments'' (PDict [])))))))"

definition convert_ollama_tool_call_to_openai :: "(py \<Rightarrow> string) \<Rightarrow> (nat \<Rightarrow> string) \<Rightarrow> py \<Rightarrow> py list result" where
  "convert_ollama_tool_call_to_openai dumps uuids calls =
     bindR (py_iter calls) (\<lambda>cs. listR (\<lambda>(i, c). openai_tool_call dumps (uuids i) c) (enumerate 0 cs))"

text \<open>Arithmetic of the statistics: \<open>a // n\<close> and \<open>a % n\<close> for a positive number, \<open>a > 0\<close>, and
  \<open>round(\<dots>, 2)\<close> of a rate, to the even neighbour when it is in the middle.\<close>

definition py_floordiv :: "py \<Rightarrow> int \<Rightarrow> py result" where
  "py_floordiv v n =
     (case py_int v of Some i \<Rightarrow> Inr (PInt (i div n))
      | None \<Rightarrow> (case py_number v of Some q \<Rightarrow> Inr (PFloat (of_int \<lfloor>q / of_int n\<rfloor>)) | None \<Rightarrow> Inl TypeError))"

definition py_mod :: "py \<Rightarrow> int \<Rightarrow> py result" where
  "py_mod v n =
     (case py_int v of Some i \<Rightarrow> Inr (PInt (i mod n))
      | None \<Rightarrow> (case py_number v of Some q \<Rightarrow> Inr (PFloat (q - of_int n * of_int \<lfloor>q / of_int n\<rfloor>)) | None \<Rightarrow> Inl TypeError))"

definition py_positive :: "py \<Rightarrow> bool result" where
  "py_positive v = (case py_number v of Some q \<Rightarrow> Inr (0 < q) | None \<Rightarrow> Inl TypeError)"

definition round2 :: "rat \<Rightarrow> rat" where
  "round2 q =
     (let f = \<lfloor>100 * q\<rfloor>; d = 100 * q - of_int f in
      of_int (if d < 1 / 2 \<or> d = 1 / 2 \<and> even f then f else f + 1) / 100)"

definition rate :: "py \<Rightarrow> py \<Rightarrow> py result" where
  "rate count duration =
     bindR (py_positive duration) (\<lambda>b.
     if \<not> b then Inr (PStr ''N/A'')
     else (case (py_number count, py_number duration) of
       (Some c, Some d) \<Rightarrow> Inr (PFloat (round2 (c / (d / 10000000) * 100))) | _ \<Rightarrow> Inl TypeError))"

text \<open>The text of a number in an f-string.\<close>

definition number_text :: "(py \<Rightarrow> string) \<Rightarrow> py \<Rightarrow> string" where
  "number_text str_of v = (case v of PInt i \<Rightarrow> str_int i | _ \<Rightarrow> str_of v)"

definition approximate_total :: "(py \<Rightarrow> string) \<Rightarrow> py \<Rightarrow> py result" where
  "approximate_total str_of duration =
     bindR (py_floordiv (py_or duration (PInt 0)) 1000000000) (\<lambda>s.
     bindR (py_floordiv s 3600) (\<lambda>h.
     bindR (bindR (py_mod s 3600) (\<lambda>r. py_floordiv r 60)) (\<lambda>m.
     mapR (\<lambda>sec. PStr (number_text str_of h @ ''h'' @ number_text str_of m @ ''m'' @ number_text str_of sec @ ''s''))
       (py_mod s 60))))"

definition convert_ollama_usage_to_openai :: "(py \<Rightarrow> string) \<Rightarrow> pydict \<Rightarrow> pydict result" where
  "convert_ollama_usage_to_openai str_of d =
     (let n = (\<lambda>k. get_or d k (PInt 0)) in
      bindR (to_int (n ''prompt_eval_count'')) (\<lambda>i.
      bindR (to_int (n ''eval_count'')) (\<lambda>j.
      bindR (rate (n ''eval_count'') (n ''eval_duration'')) (\<lambda>r.
      bindR (rate (n ''prompt_eval_count'') (n ''prompt_eval_duration'')) (\<lambda>p.
      mapR (\<lambda>t. [(''input_tokens'', PInt i), (''output_tokens'', PInt j), (''total_tokens'', PInt (i + j)),
          (''prompt_tokens'', PInt i), (''completion_tokens'', PInt j),
          (''response_token/s'', r), (''prompt_token/s'', p),
          (''total_duration'', n ''total_duration''), (''load_duration'', n ''load_duration''),
          (''prompt_eval_count'', n ''prompt_eval_count''), (''prompt_eval_duration'', n ''prompt_eval_duration''),
          (''eval_count'', n ''eval_count''), (''eval_duration'', n ''eval_duration''),
          (''approximate_total'', t),
          (''completion_tokens_details'', PDict [(''reasoning_tokens'', PInt 0),
            (''accepted_prediction_tokens'', PInt 0), (''rejected_prediction_tokens'', PInt 0)])])
        (approximate_total str_of (n ''total_duration'')))))))"

text \<open>The templates of messages: the choice is a dict of its own, put back when it is complete.\<close>

definition template :: "string \<Rightarrow> int \<Rightarrow> py \<Rightarrow> string \<Rightarrow> pydict \<Rightarrow> pydict" where
  "template i now model object choice =
     [(''id'', PStr i), (''created'', PInt now), (''model'', model), (''choices'', PList [PDict choice]), (''object'', PStr object)]"

definition with_usage :: "py \<Rightarrow> pydict \<Rightarrow> pydict" where
  "with_usage usage t = (if truthy usage then dset ''usage'' usage t else t)"

definition optional :: "string \<Rightarrow> py \<Rightarrow> pydict" where
  "optional k v = (if truthy v then [(k, v)] else [])"

definition openai_chat_chunk_message_template ::
  "string \<Rightarrow> int \<Rightarrow> py \<Rightarrow> py \<Rightarrow> py \<Rightarrow> py \<Rightarrow> pydict" where
  "openai_chat_chunk_message_template i now model content reasoning calls =
     template i now model ''chat.completion.chunk''
       [(''index'', PInt 0), (''logprobs'', PNone),
        (''finish_reason'', if truthy content \<or> truthy reasoning \<or> truthy calls then PNone else PStr ''stop''),
        (''delta'', PDict (optional ''content'' content @ optional ''reasoning_content'' reasoning @ optional ''tool_calls'' calls))]"


definition convert_calls :: "(py \<Rightarrow> string) \<Rightarrow> (nat \<Rightarrow> string) \<Rightarrow> py \<Rightarrow> py result" where
  "convert_calls dumps uuids calls =
     (if truthy calls then mapR PList (convert_ollama_tool_call_to_openai dumps uuids calls) else Inr PNone)"


section \<open>Streams\<close>

record ollama_stream =
  s_first :: bool
  s_tool_calls :: bool
  s_count :: nat

definition set_role :: "pydict \<Rightarrow> pydict" where
  "set_role t = (case field t ''choices'' of
     PList (PDict c # cs) \<Rightarrow> dset ''choices'' (PList (PDict (dset ''delta''
       (PDict (dset ''role'' (PStr ''assistant'') (as_dict (field c ''delta'')))) c) # cs)) t
   | _ \<Rightarrow> t)"

definition set_finish_reason :: "string \<Rightarrow> pydict \<Rightarrow> pydict" where
  "set_finish_reason r t = (case field t ''choices'' of
     PList (PDict c # cs) \<Rightarrow> dset ''choices'' (PList (PDict (dset ''finish_reason'' (PStr r) c) # cs)) t
   | _ \<Rightarrow> t)"

definition completion_id :: "string \<Rightarrow> string" where
  "completion_id uuid = ''chatcmpl-'' @ uuid"

definition convert_chunk ::
  "(py \<Rightarrow> string) \<Rightarrow> (py \<Rightarrow> string) \<Rightarrow> (nat \<Rightarrow> nat \<Rightarrow> string) \<Rightarrow> string \<Rightarrow> int \<Rightarrow> ollama_stream \<Rightarrow> pydict
     \<Rightarrow> (ollama_stream \<times> pydict) result" where
  "convert_chunk str_of dumps fresh uuid now s d =
     (let message = py_or (field d ''message'') (PDict []) in
      bindR (py_get message ''content'') (\<lambda>content.
      bindR (py_get message ''thinking'') (\<lambda>thinking.
      bindR (py_get message ''tool_calls'') (\<lambda>calls.
      bindR (convert_calls dumps (fresh (s_count s)) calls) (\<lambda>converted.
      let tools = (s_tool_calls s \<or> truthy calls); finished = truthy (get_or d ''done'' (PBool False)) in
      mapR (\<lambda>usage.
          let t = with_usage usage (openai_chat_chunk_message_template (completion_id uuid) now
                (get_or d ''model'' (PStr ''ollama'')) content thinking converted);
              t = (if s_first s then set_role t else t)
          in (\<lparr>s_first = False, s_tool_calls = tools, s_count = Suc (s_count s)\<rparr>,
              if finished \<and> tools then set_finish_reason ''tool_calls'' t else t))
        (if finished then mapR PDict (convert_ollama_usage_to_openai str_of d) else Inr PNone))))))"

text \<open>The loop over the chunks, with the clock at each: what it yields, and the exception that ends it.\<close>

fun stream_chunks ::
  "(py \<Rightarrow> string) \<Rightarrow> (py \<Rightarrow> string) \<Rightarrow> (nat \<Rightarrow> nat \<Rightarrow> string) \<Rightarrow> string \<Rightarrow> ollama_stream \<Rightarrow> (int \<times> py result) list
     \<Rightarrow> pydict list \<times> py_exc option" where
  "stream_chunks str_of dumps fresh uuid s [] = ([], None)"
| "stream_chunks str_of dumps fresh uuid s ((now, data) # chunks) =
     (case bindR data (\<lambda>v. case v of PDict d \<Rightarrow> convert_chunk str_of dumps fresh uuid now s d | _ \<Rightarrow> Inl AttributeError) of
       Inl e \<Rightarrow> ([], Some e)
     | Inr (s, t) \<Rightarrow> (let (ts, e) = stream_chunks str_of dumps fresh uuid s chunks in (t # ts, e)))"

definition data_line :: "(py \<Rightarrow> string) \<Rightarrow> pydict \<Rightarrow> string" where
  "data_line dumps t = ''data: '' @ dumps (PDict t) @ line_feed @ line_feed"

definition convert_streaming_response_ollama_to_openai ::
  "(py \<Rightarrow> string) \<Rightarrow> (py \<Rightarrow> string) \<Rightarrow> (nat \<Rightarrow> nat \<Rightarrow> string) \<Rightarrow> string \<Rightarrow> (int \<times> py result) list \<Rightarrow> string list \<times> py_exc option" where
  "convert_streaming_response_ollama_to_openai str_of dumps fresh uuid chunks =
     (let (ts, e) = stream_chunks str_of dumps fresh uuid \<lparr>s_first = True, s_tool_calls = False, s_count = 0\<rparr> chunks in
      (map (data_line dumps) ts @ (if e = None then [''data: [DONE]'' @ line_feed @ line_feed] else []), e))"

section \<open>Embeddings\<close>

definition embedding_item :: "py \<Rightarrow> py \<Rightarrow> py" where
  "embedding_item e i = PDict [(''object'', PStr ''embedding''), (''embedding'', e), (''index'', i)]"

definition batch_item :: "nat \<Rightarrow> py \<Rightarrow> py list" where
  "batch_item i e =
     (case e of
       PList xs \<Rightarrow> [embedding_item e (PInt (int i))]
     | PDict d \<Rightarrow> [embedding_item (field d ''embedding'') (get_or d ''index'' (PInt (int i)))]
     | _ \<Rightarrow> [])"

definition embeddings_list :: "pydict \<Rightarrow> py list \<Rightarrow> py" where
  "embeddings_list d items = PDict [(''object'', PStr ''list''), (''data'', PList items), (''model'', field d ''model'')]"

definition convert_embedding_response_ollama_to_openai :: "py \<Rightarrow> py result" where
  "convert_embedding_response_ollama_to_openai response =
     (case response of
       PDict d \<Rightarrow> (case (dget d ''embeddings'', dget d ''embedding'') of
           (Some es, _) \<Rightarrow> mapR (\<lambda>es. embeddings_list d (concat (map (\<lambda>(i, e). batch_item i e) (enumerate 0 es)))) (py_iter es)
         | (None, Some e) \<Rightarrow> Inr (embeddings_list d [embedding_item e (PInt 0)])
         | (None, None) \<Rightarrow> Inr response)
     | _ \<Rightarrow> Inr response)"

section \<open>Lemmas\<close>

text \<open>A tool call as OpenAI has it, whose arguments JSON reads and writes back.\<close>

definition call_with_arguments :: "(string \<Rightarrow> py option) \<Rightarrow> py \<Rightarrow> bool" where
  "call_with_arguments loads c \<longleftrightarrow> (\<exists>d f a x. c = PDict d \<and> dget d ''function'' = Some (PDict f) \<and>
     dget f ''arguments'' = Some (PStr a) \<and> loads a = Some x)"

text \<open>A call that comes back: its index, id and name, and its arguments as JSON is printed.\<close>

definition call_returned :: "(string \<Rightarrow> py option) \<Rightarrow> (py \<Rightarrow> string) \<Rightarrow> py \<Rightarrow> py \<Rightarrow> bool" where
  "call_returned loads dumps c c' \<longleftrightarrow> (\<exists>d f a x e g. c = PDict d \<and> dget d ''function'' = Some (PDict f) \<and>
     dget f ''arguments'' = Some (PStr a) \<and> loads a = Some x \<and>
     c' = PDict e \<and> dget e ''function'' = Some (PDict g) \<and>
     dget e ''index'' = Some (case dget d ''index'' of None \<Rightarrow> PInt 0 | Some i \<Rightarrow> i) \<and>
     dget e ''id'' = Some (case dget d ''id'' of None \<Rightarrow> PNone | Some i \<Rightarrow> i) \<and>
     dget e ''type'' = Some (PStr ''function'') \<and>
     dget g ''name'' = Some (case dget f ''name'' of None \<Rightarrow> PStr [] | Some n \<Rightarrow> n) \<and>
     dget g ''arguments'' = Some (PStr (dumps x)))"

lemma tool_call_there_and_back:
  assumes "call_with_arguments loads c"
  shows "\<exists>o' c'. ollama_tool_call loads c = Inr o' \<and> openai_tool_call dumps uuid o' = Inr c' \<and> call_returned loads dumps c c'"
proof -
  obtain d f a x where c: "c = PDict d" "dget d ''function'' = Some (PDict f)" "dget f ''arguments'' = Some (PStr a)" "loads a = Some x"
    using assms by (auto simp: call_with_arguments_def)
  define index where "index = get_or d ''index'' (PInt 0)"
  define i where "i = field d ''id''"
  define name where "name = get_or f ''name'' (PStr [])"
  have "ollama_tool_call loads c = Inr (PDict [(''index'', index), (''id'', i), (''function'', PDict [(''name'', name), (''arguments'', x)])])"
    using c by (auto simp: ollama_tool_call_def json_value_def index_def i_def name_def get_or_def field_def split: option.splits)
  moreover have "openai_tool_call dumps uuid (PDict [(''index'', index), (''id'', i), (''function'', PDict [(''name'', name), (''arguments'', x)])]) =
      Inr (PDict [(''index'', index), (''id'', i), (''type'', PStr ''function''),
        (''function'', PDict [(''name'', name), (''arguments'', PStr (dumps x))])])"
    by (simp add: openai_tool_call_def)
  moreover have "call_returned loads dumps c (PDict [(''index'', index), (''id'', i), (''type'', PStr ''function''),
        (''function'', PDict [(''name'', name), (''arguments'', PStr (dumps x))])])"
    using c by (simp add: call_returned_def index_def i_def name_def get_or_def field_def)
  ultimately show ?thesis by blast
qed

lemma tool_calls_there_and_back:
  assumes "\<forall>c \<in> set cs. call_with_arguments loads c"
  shows "\<exists>ocs cs'. listR (ollama_tool_call loads) cs = Inr ocs
    \<and> listR (\<lambda>(i, c). openai_tool_call dumps (uuids i) c) (enumerate n ocs) = Inr cs'
    \<and> list_all2 (call_returned loads dumps) cs cs'"
  using assms
proof (induction cs arbitrary: n)
  case (Cons c cs)
  then obtain ocs cs' where "listR (ollama_tool_call loads) cs = Inr ocs"
    "listR (\<lambda>(i, c). openai_tool_call dumps (uuids i) c) (enumerate (Suc n) ocs) = Inr cs'"
    "list_all2 (call_returned loads dumps) cs cs'" by fastforce
  moreover obtain o' c' where "ollama_tool_call loads c = Inr o'" "openai_tool_call dumps (uuids n) o' = Inr c'"
    "call_returned loads dumps c c'"
    using tool_call_there_and_back [of loads c dumps "uuids n"] Cons.prems by auto
  ultimately show ?case by (intro exI [of _ "o' # ocs"] exI [of _ "c' # cs'"]) simp
qed simp

text \<open>The parts of a chunk and of an answer.\<close>

definition choice_of :: "pydict \<Rightarrow> pydict" where
  "choice_of t = (case field t ''choices'' of PList (PDict c # cs) \<Rightarrow> c | _ \<Rightarrow> [])"
































section \<open>Properties\<close>

text \<open>C37: tool calls survive the way to Ollama and back. Take a message with a role and with tool calls that all have
  arguments which are JSON texts. It becomes an Ollama message of the same role, and its tool calls converted back are as
  many calls in the same order, with the same indexes (0 where there is none), ids (null where there is none) and names,
  each with the arguments as \<open>json.dumps\<close> prints the value that was read from them, so with the same text when it
  was printed that way.\<close>

theorem ollama_tool_calls_roundtrip:
  assumes "dget m ''role'' = Some role" and "dget m ''tool_calls'' = Some (PList cs)" and "cs \<noteq> []"
    and "\<forall>c \<in> set cs. call_with_arguments loads c"
  shows "\<exists>m' ocs cs'. convert_message_ollama loads (PDict m) = Inr (PDict m')
    \<and> dget m' ''role'' = Some role \<and> dget m' ''tool_calls'' = Some (PList ocs)
    \<and> convert_ollama_tool_call_to_openai dumps uuids (PList ocs) = Inr cs'
    \<and> list_all2 (call_returned loads dumps) cs cs'"
proof -
  from tool_calls_there_and_back [OF assms(4), of dumps uuids 0] obtain ocs cs' where
    c: "listR (ollama_tool_call loads) cs = Inr ocs"
    "listR (\<lambda>(i, c). openai_tool_call dumps (uuids i) c) (enumerate 0 ocs) = Inr cs'"
    "list_all2 (call_returned loads dumps) cs cs'" by blast
  define thinking where "thinking = (case dget m ''thinking'' of Some v \<Rightarrow> [(''thinking'', v)] | None \<Rightarrow> [])"
  have "convert_message_ollama loads (PDict m) = Inr (PDict (((''role'', role) # thinking) @ [(''tool_calls'', PList ocs), (''content'', PStr [])]))"
    using assms(1-3) c(1) by (auto simp: convert_message_ollama_def Let_def field_def thinking_def split: option.splits)
  moreover have "dget (((''role'', role) # thinking) @ [(''tool_calls'', PList ocs), (''content'', PStr [])]) ''tool_calls'' = Some (PList ocs)"
    by (simp add: thinking_def split: option.split)
  ultimately show ?thesis using c(2,3)
    by (intro exI [of _ "((''role'', role) # thinking) @ [(''tool_calls'', PList ocs), (''content'', PStr [])]"] exI [of _ ocs] exI [of _ cs'])
       (simp add: convert_ollama_tool_call_to_openai_def)
qed


section \<open>Examples\<close>

definition demo_openai_call :: py where
  "demo_openai_call = PDict [(''index'', PInt 0), (''id'', PStr ''1''), (''type'', PStr ''function''),
     (''function'', PDict [(''name'', PStr ''find''), (''arguments'', PStr ''{}'')])]"


lemma ollama_tool_calls_roundtrip_witness:
  "\<exists>m' ocs cs'. convert_message_ollama (\<lambda>s. if s = ''{}'' then Some (PDict []) else None)
      (PDict [(''role'', PStr ''assistant''), (''content'', PNone), (''tool_calls'', PList [demo_openai_call])]) = Inr (PDict m')
    \<and> dget m' ''tool_calls'' = Some (PList ocs)
    \<and> convert_ollama_tool_call_to_openai (\<lambda>_. ''{}'') (\<lambda>_. []) (PList ocs) = Inr cs'
    \<and> list_all2 (call_returned (\<lambda>s. if s = ''{}'' then Some (PDict []) else None) (\<lambda>_. ''{}'')) [demo_openai_call] cs'"
proof -
  have "\<forall>c \<in> set [demo_openai_call]. call_with_arguments (\<lambda>s. if s = ''{}'' then Some (PDict []) else None) c"
    by (simp add: call_with_arguments_def demo_openai_call_def)
  from ollama_tool_calls_roundtrip [OF _ _ _ this, where m = "[(''role'', PStr ''assistant''), (''content'', PNone), (''tool_calls'', PList [demo_openai_call])]"
      and role = "PStr ''assistant''" and dumps = "\<lambda>_. ''{}''" and uuids = "\<lambda>_. []"]
  show ?thesis by auto
qed


definition demo_stats :: pydict where
  "demo_stats = [(''eval_count'', PInt 2), (''prompt_eval_count'', PInt 3)]"






text \<open>A last chunk with text has no finish reason, and an empty one before it has.\<close>

lemma last_text_has_no_finish_reason:
  "\<exists>s' t. convert_chunk (\<lambda>_. []) (\<lambda>_. []) (\<lambda>_ _. []) ''u'' 0 \<lparr>s_first = False, s_tool_calls = False, s_count = 1\<rparr>
     ([(''message'', PDict [(''content'', PStr ''end'')]), (''done'', PBool True)] @ demo_stats) = Inr (s', t)
   \<and> field (choice_of t) ''finish_reason'' = PNone"
proof -
  have "(case convert_chunk (\<lambda>_. []) (\<lambda>_. []) (\<lambda>_ _. []) ''u'' 0 \<lparr>s_first = False, s_tool_calls = False, s_count = 1\<rparr>
     ([(''message'', PDict [(''content'', PStr ''end'')]), (''done'', PBool True)] @ demo_stats) of
     Inr (s', t) \<Rightarrow> field (choice_of t) ''finish_reason'' = PNone | Inl e \<Rightarrow> False)" by code_simp
  then show ?thesis by (auto split: sum.splits prod.splits)
qed

lemma max_tokens_stay_outside_the_options:
  "convert_payload_openai_to_ollama demo_conversions (\<lambda>_. None) [(''messages'', PList []), (''max_tokens'', PInt 5)] =
     Inr [(''model'', PNone), (''messages'', PList []), (''stream'', PBool False), (''num_predict'', PInt 5)]"
  by code_simp

lemma message_without_content_raises:
  "convert_message_ollama loads (PDict [(''role'', PStr ''assistant''), (''content'', PNone)]) = Inl TypeError"
  by (simp add: convert_message_ollama_def ollama_content_def)

lemma call_without_arguments_raises:
  "ollama_tool_call loads (PDict [(''function'', PDict [(''name'', PStr ''now'')])]) = Inl TypeError"
  by (simp add: ollama_tool_call_def json_value_def)

end
