(* ===== verification/Prompt_Templates.thy ===== *)
theory Prompt_Templates
  imports System_Prompt Py_Matches
begin

text \<open>
  The templates of the task prompts, \<open>utils/task.py\<close>: placeholders for the prompt and for the messages
  of a chat with their truncations, the variables of the user and the date, and the templates built from
  them. Arguments: the clock as formatted strings, \<open>strptime\<close>, \<open>model_dump\<close>, the groups of a user and
  the uuids; \<open>str_of\<close> is \<open>str\<close> of a value that is no string.
\<close>

section \<open>Truncation\<close>

definition truncate_content :: "string \<Rightarrow> int \<Rightarrow> string \<Rightarrow> string" where
  "truncate_content content max_chars mode =
     (if max_chars \<le> 0 then []
      else if content = [] \<or> int (length content) \<le> max_chars then content
      else let n = nat max_chars in
        if mode = ''start'' then take n content
        else if mode = ''end'' then from_end n content
        else take (n div 2) content @ ''...'' @ from_end (n - n div 2) content)"

text \<open>The same on a value of any type: lists have a length and slices, numbers have not.\<close>

definition truncate_value :: "(py \<Rightarrow> string) \<Rightarrow> py \<Rightarrow> int \<Rightarrow> string \<Rightarrow> py result" where
  "truncate_value str_of v max_chars mode =
     (if max_chars \<le> 0 then Inr (PStr [])
      else if \<not> truthy v then Inr v
      else (case v of
          PStr s \<Rightarrow> Inr (PStr (truncate_content s max_chars mode))
        | PList xs \<Rightarrow>
            let n = nat max_chars in
            if length xs \<le> n then Inr v
            else if mode = ''start'' then Inr (PList (take n xs))
            else if mode = ''end'' then Inr (PList (from_end n xs))
            else Inr (PStr (str_of (PList (take (n div 2) xs)) @ ''...'' @ str_of (PList (from_end (n - n div 2) xs))))
        | PDict d \<Rightarrow> if length d \<le> nat max_chars then Inr v else Inl TypeError
        | _ \<Rightarrow> Inl TypeError))"

text \<open>\<open>int\<close> of the digits that a pattern has found.\<close>

definition digits_number :: "string \<Rightarrow> nat" where
  "digits_number s = foldl (\<lambda>n c. 10 * n + (code c - 48)) 0 s"

definition filter_item :: "(py \<Rightarrow> string) \<Rightarrow> int \<Rightarrow> string \<Rightarrow> py \<Rightarrow> py result" where
  "filter_item str_of max_chars mode item = (case item of
     PDict d \<Rightarrow>
       if field d ''type'' = PStr ''text''
       then mapR (\<lambda>t. PDict (dset ''text'' t d))
         (truncate_value str_of (case dget d ''text'' of None \<Rightarrow> PStr [] | Some v \<Rightarrow> v) max_chars mode)
       else Inr item
   | _ \<Rightarrow> Inr item)"

definition filter_message :: "(py \<Rightarrow> string) \<Rightarrow> int \<Rightarrow> string \<Rightarrow> py \<Rightarrow> py result" where
  "filter_message str_of max_chars mode message = (case message of
     PDict d \<Rightarrow> (case field d ''content'' of
         PStr t \<Rightarrow> Inr (PDict (dset ''content'' (PStr (truncate_content t max_chars mode)) d))
       | PList items \<Rightarrow>
           mapR (\<lambda>xs. PDict (dset ''content'' (PList xs) d)) (listR (filter_item str_of max_chars mode) items)
       | _ \<Rightarrow> Inr (PDict d))
   | _ \<Rightarrow> Inl TypeError)"

definition apply_content_filter :: "(py \<Rightarrow> string) \<Rightarrow> py list \<Rightarrow> string \<Rightarrow> py list result" where
  "apply_content_filter str_of messages filter_str =
     (case split_on (CHR '':'') filter_str of
        [m, n] \<Rightarrow>
          (let mode = str_lower m in
           case parse_int n of
             Inl _ \<Rightarrow> Inr messages
           | Inr k \<Rightarrow>
               if mode \<noteq> ''middletruncate'' \<and> mode \<noteq> ''start'' \<and> mode \<noteq> ''end'' then Inr messages
               else listR (filter_message str_of k mode) messages)
      | _ \<Rightarrow> Inr messages)"

section \<open>Placeholders\<close>

datatype tag_variant = Whole | Starting nat | Ending nat | Middle nat

record tag =
  tag_start :: nat
  tag_end :: nat
  tag_amount :: tag_variant
  tag_filter :: "string option"

text \<open>A literal, for \<open>nocase\<close> without regard to case.\<close>

definition rx_literal :: "bool \<Rightarrow> string \<Rightarrow> rx" where
  "rx_literal nocase w = rx_list (map (\<lambda>c. RCls (\<lambda>d. if nocase then lower_char d = lower_char c else d = c)) w)"

definition rx_digits :: rx where
  "rx_digits = rx_plus (RCls is_decimal)"

definition rx_filter :: rx where
  "rx_filter = rx_list [rx_plus (RCls word_char), rx_word '':'', rx_digits]"

text \<open>The end of a placeholder, with a filter where the pattern has one.\<close>

definition tag_tails :: "bool \<Rightarrow> string \<Rightarrow> nat \<Rightarrow> (string option \<times> nat) list" where
  "tag_tails with_filter s k =
     (if with_filter
      then concat (map (\<lambda>a. concat (map (\<lambda>b. map (\<lambda>e. (Some (slice a b s), e)) (rx_ends (rx_word ''}}'') s b))
             (rx_ends rx_filter s a))) (rx_ends (rx_word ''|'') s k))
      else [])
     @ map (\<lambda>e. (None, e)) (rx_ends (rx_word ''}}'') s k)"

definition plain_tags :: "bool \<Rightarrow> bool \<Rightarrow> string \<Rightarrow> string \<Rightarrow> nat \<Rightarrow> tag list" where
  "plain_tags nocase with_filter name s i =
     concat (map (\<lambda>k. map (\<lambda>(f, e). \<lparr>tag_start = i, tag_end = e, tag_amount = Whole, tag_filter = f\<rparr>)
         (tag_tails with_filter s k)) (rx_ends (rx_literal nocase (''{{'' @ name)) s i))"

definition counted_tags ::
  "bool \<Rightarrow> bool \<Rightarrow> string \<Rightarrow> string \<Rightarrow> (nat \<Rightarrow> tag_variant) \<Rightarrow> string \<Rightarrow> nat \<Rightarrow> tag list" where
  "counted_tags nocase with_filter name label variant s i =
     concat (map (\<lambda>j. concat (map (\<lambda>k. map (\<lambda>(f, e).
           \<lparr>tag_start = i, tag_end = e, tag_amount = variant (digits_number (slice j k s)), tag_filter = f\<rparr>)
         (tag_tails with_filter s k)) (rx_ends rx_digits s j)))
       (rx_ends (rx_literal nocase (''{{'' @ name @ '':'' @ label @ '':'')) s i))"

definition prompt_tags :: "bool \<Rightarrow> string \<Rightarrow> nat \<Rightarrow> tag list" where
  "prompt_tags nocase s i =
     plain_tags nocase False ''prompt'' s i @ counted_tags nocase False ''prompt'' ''start'' Starting s i
     @ counted_tags nocase False ''prompt'' ''end'' Ending s i
     @ counted_tags nocase False ''prompt'' ''middletruncate'' Middle s i"

definition messages_tags :: "string \<Rightarrow> string \<Rightarrow> nat \<Rightarrow> tag list" where
  "messages_tags name s i =
     plain_tags False True name s i @ counted_tags False True name ''START'' Starting s i
     @ counted_tags False True name ''END'' Ending s i
     @ counted_tags False True name ''MIDDLETRUNCATE'' Middle s i"

definition find_tags :: "(string \<Rightarrow> nat \<Rightarrow> tag list) \<Rightarrow> string \<Rightarrow> tag list" where
  "find_tags tags s = find_all (tags s) tag_end (length s) 0"

section \<open>The prompt and the messages\<close>

text \<open>\<open>prompt[:ceil(n / 2)]\<close> and \<open>prompt[-floor(n / 2):]\<close>.\<close>

definition prompt_part :: "string \<Rightarrow> tag_variant \<Rightarrow> string" where
  "prompt_part prompt a = (case a of
     Whole \<Rightarrow> prompt
   | Starting n \<Rightarrow> take n prompt
   | Ending n \<Rightarrow> from_end n prompt
   | Middle n \<Rightarrow> if length prompt \<le> n then prompt
               else take ((n + 1) div 2) prompt @ ''...'' @ from_end (n div 2) prompt)"

definition replace_prompt_variable :: "string \<Rightarrow> string \<Rightarrow> string" where
  "replace_prompt_variable template prompt =
     replace_all tag_start tag_end (\<lambda>t. prompt_part prompt (tag_amount t)) template 0 (find_tags (prompt_tags True) template)"

text \<open>The prompt may be \<open>None\<close>: a replacement that is \<open>None\<close> is empty, its slices raise. So do those of a
  value of another type, or the joining of them.\<close>

definition replace_prompt_value :: "string \<Rightarrow> py \<Rightarrow> string result" where
  "replace_prompt_value template v =
     (let amounts = map tag_amount (find_tags (prompt_tags True) template) in
      case v of
        PStr p \<Rightarrow> Inr (replace_prompt_variable template p)
      | PNone \<Rightarrow> if list_all (\<lambda>a. a = Whole) amounts then Inr (replace_prompt_variable template []) else Inl TypeError
      | _ \<Rightarrow> if amounts = [] then Inr template else Inl TypeError)"

definition selected_messages :: "py list \<Rightarrow> tag_variant \<Rightarrow> py list" where
  "selected_messages messages a = (case a of
     Whole \<Rightarrow> messages
   | Starting n \<Rightarrow> take n messages
   | Ending n \<Rightarrow> from_end n messages
   | Middle n \<Rightarrow>
       if length messages \<le> n then messages
       else take (n div 2) messages @ (if even n then from_end (n div 2) messages else from_end (n div 2 + 1) messages))"

text \<open>\<open>s.upper()\<close>; the two letters whose upper case lies beyond Latin-1 are kept.\<close>

definition upper_char :: "char \<Rightarrow> string" where
  "upper_char c =
     (if 97 \<le> code c \<and> code c \<le> 122 \<or> 224 \<le> code c \<and> code c \<le> 254 \<and> code c \<noteq> 247 then [char_of (code c - 32)]
      else if code c = 223 then ''SS'' else [c])"

definition str_upper :: "string \<Rightarrow> string" where
  "str_upper s = concat (map upper_char s)"

definition message_line :: "(py \<Rightarrow> string) \<Rightarrow> py \<Rightarrow> string result" where
  "message_line str_of message =
     bindR (py_item message ''role'') (\<lambda>role.
     bindR (case role of PStr r \<Rightarrow> Inr (str_upper r) | _ \<Rightarrow> Inl AttributeError) (\<lambda>r.
     mapR (\<lambda>c. r @ '': '' @ fmt str_of c) (get_content_from_message str_of message)))"

definition get_messages_content :: "(py \<Rightarrow> string) \<Rightarrow> py list \<Rightarrow> string result" where
  "get_messages_content str_of messages =
     mapR (str_join line_feed) (listR (message_line str_of) messages)"

definition messages_text ::
  "(py \<Rightarrow> string) \<Rightarrow> py list option \<Rightarrow> tag \<Rightarrow> string result" where
  "messages_text str_of messages t = (case messages of
     None \<Rightarrow> Inr []
   | Some ms \<Rightarrow>
       (let selected = selected_messages ms (tag_amount t) in
        bindR (case tag_filter t of None \<Rightarrow> Inr selected
               | Some f \<Rightarrow> apply_content_filter str_of selected f) (get_messages_content str_of)))"

definition replace_messages_variable ::
  "(py \<Rightarrow> string) \<Rightarrow> string \<Rightarrow> py list option \<Rightarrow> string \<Rightarrow> string result" where
  "replace_messages_variable str_of template messages name =
     (let tags = find_tags (messages_tags name) template in
      mapR (\<lambda>texts. replace_all (\<lambda>(t, x). tag_start t) (\<lambda>(t, x). tag_end t) snd template 0 (zip tags texts))
        (listR (messages_text str_of messages) tags))"

section \<open>Variables of the user and the date\<close>

text \<open>A date object has the attributes \<open>year\<close>, \<open>month\<close> and \<open>day\<close>.\<close>

record template_env =
  te_str :: "py \<Rightarrow> string"
  te_dump :: "py \<Rightarrow> py"
  te_strptime :: "string \<Rightarrow> py option"
  te_today :: "int \<times> int \<times> int"
  te_date :: string
  te_time :: string
  te_weekday :: string
  te_groups :: "py \<Rightarrow> string list result"

text \<open>\<open>s.replace(t, r)\<close>, where an empty \<open>t\<close> stands around every character.\<close>

definition replace_any :: "string \<Rightarrow> string \<Rightarrow> string \<Rightarrow> string" where
  "replace_any t r s = (if t = [] then r @ concat (map (\<lambda>c. c # r) s) else str_replace t r s)"

definition prompt_variables_template :: "string \<Rightarrow> (string \<times> string) list \<Rightarrow> string" where
  "prompt_variables_template template variables = foldl (\<lambda>t (k, v). replace_any k v t) template variables"

definition birth_object :: "template_env \<Rightarrow> py \<Rightarrow> py option" where
  "birth_object E v = (case v of PStr s \<Rightarrow> te_strptime E s | _ \<Rightarrow> Some v)"

definition age_on :: "int \<times> int \<times> int \<Rightarrow> py \<Rightarrow> int option" where
  "age_on today b = (case (py_getattr b ''year'', py_getattr b ''month'', py_getattr b ''day'') of
     (PInt y, PInt m, PInt d) \<Rightarrow>
       (let (ty, tm, td) = today in Some (ty - y - (if tm < m \<or> tm = m \<and> td < d then 1 else 0)))
   | _ \<Rightarrow> None)"

text \<open>The birth date, parsed if it is text, and the age; an exception leaves the age unknown.\<close>

definition birth_and_age :: "template_env \<Rightarrow> py \<Rightarrow> py \<times> py" where
  "birth_and_age E v =
     (if \<not> truthy v then (v, PNone)
      else (case birth_object E v of
          None \<Rightarrow> (v, PNone)
        | Some b \<Rightarrow> (b, case age_on (te_today E) b of None \<Rightarrow> PNone | Some a \<Rightarrow> PInt a)))"

definition groups_text :: "template_env \<Rightarrow> string \<Rightarrow> py \<Rightarrow> string" where
  "groups_text E template user_id =
     (if str_in_exec ''{{USER_GROUPS}}'' template \<and> truthy user_id
      then (case te_groups E user_id of Inr names \<Rightarrow> str_join '', '' names | Inl _ \<Rightarrow> [])
      else [])"

definition user_variables :: "template_env \<Rightarrow> string \<Rightarrow> py \<Rightarrow> (string \<times> string) list result" where
  "user_variables E template user =
     (let u = (case user of PObj c a \<Rightarrow> te_dump E user | _ \<Rightarrow> user) in
      if \<not> truthy user then Inr []
      else (case u of
        PDict d \<Rightarrow>
          (let (birth, age) = birth_and_age E (field d ''date_of_birth'');
               text = fmt (te_str E) in
           mapR (\<lambda>location.
             [(''name'', text (field d ''name'')), (''email'', text (field d ''email'')), (''location'', text location),
              (''bio'', text (field d ''bio'')), (''gender'', text (field d ''gender'')), (''birth_date'', text birth),
              (''age'', text age), (''groups'', groups_text E template (field d ''id''))])
             (py_get (py_or (field d ''info'') (PDict [])) ''location''))
      | _ \<Rightarrow> Inr []))"

definition variable_or :: "(string \<times> string) list \<Rightarrow> string \<Rightarrow> string \<Rightarrow> string" where
  "variable_or vs k v = (case dget vs k of None \<Rightarrow> v | Some x \<Rightarrow> x)"

definition prompt_template :: "template_env \<Rightarrow> string \<Rightarrow> py \<Rightarrow> string result" where
  "prompt_template E template user =
     mapR (\<lambda>vs. prompt_variables_template template
       [(''{{CURRENT_DATE}}'', te_date E), (''{{CURRENT_TIME}}'', te_time E),
        (''{{CURRENT_DATETIME}}'', te_date E @ '' '' @ te_time E), (''{{CURRENT_WEEKDAY}}'', te_weekday E),
        (''{{USER_NAME}}'', variable_or vs ''name'' ''Unknown''), (''{{USER_EMAIL}}'', variable_or vs ''email'' ''Unknown''),
        (''{{USER_BIO}}'', variable_or vs ''bio'' ''Unknown''), (''{{USER_GENDER}}'', variable_or vs ''gender'' ''Unknown''),
        (''{{USER_BIRTH_DATE}}'', variable_or vs ''birth_date'' ''Unknown''), (''{{USER_AGE}}'', variable_or vs ''age'' ''Unknown''),
        (''{{USER_LOCATION}}'', variable_or vs ''location'' ''Unknown''), (''{{USER_GROUPS}}'', variable_or vs ''groups'' [])])
       (user_variables E template user)"

section \<open>Templates\<close>

text \<open>\<open>rag_template\<close>; \<open>u1\<close> and \<open>u2\<close> are the uuids of its placeholders.\<close>

definition query_mark :: "string \<Rightarrow> string" where
  "query_mark u = ''{{QUERY'' @ u @ ''}}''"

definition mark_query :: "string \<Rightarrow> string \<Rightarrow> string \<Rightarrow> string \<times> (string \<times> string) list \<Rightarrow> string \<times> (string \<times> string) list" where
  "mark_query context original u S =
     (if str_in_exec original context
      then (str_replace original (query_mark u) (fst S), snd S @ [(query_mark u, original)]) else S)"

definition fill_rag_template :: "string \<Rightarrow> string \<Rightarrow> string \<Rightarrow> string \<Rightarrow> string \<Rightarrow> string" where
  "fill_rag_template u1 u2 template context query =
     (let (t, marks) = mark_query context ''{{QUERY}}'' u2 (mark_query context ''[query]'' u1 (template, []));
          t1 = str_replace ''{{CONTEXT}}'' context (str_replace ''[context]'' context t);
          t2 = str_replace ''{{QUERY}}'' query (str_replace ''[query]'' query t1)
      in prompt_variables_template t2 marks)"

definition rag_template ::
  "template_env \<Rightarrow> string \<Rightarrow> string \<Rightarrow> string \<Rightarrow> string \<Rightarrow> string \<Rightarrow> string \<Rightarrow> string result" where
  "rag_template E default_template u1 u2 template context query =
     mapR (\<lambda>t. fill_rag_template u1 u2 t context query)
       (prompt_template E (if str_strip template = [] then default_template else template) PNone)"

text \<open>The templates of titles, follow-ups, tags, image prompts and queries are the same function.\<close>

definition messages_template :: "template_env \<Rightarrow> string \<Rightarrow> py list \<Rightarrow> py \<Rightarrow> string result" where
  "messages_template E template messages user =
     bindR (get_last_user_message (te_str E) messages) (\<lambda>prompt.
     bindR (replace_prompt_value template prompt) (\<lambda>t.
     bindR (replace_messages_variable (te_str E) t (Some messages) ''MESSAGES'') (\<lambda>t2.
       prompt_template E t2 user)))"

definition emoji_generation_template :: "template_env \<Rightarrow> string \<Rightarrow> string \<Rightarrow> py \<Rightarrow> string result" where
  "emoji_generation_template E template prompt user = prompt_template E (replace_prompt_variable template prompt) user"

definition autocomplete_generation_template ::
  "template_env \<Rightarrow> string \<Rightarrow> string \<Rightarrow> py list option \<Rightarrow> string option \<Rightarrow> py \<Rightarrow> string result" where
  "autocomplete_generation_template E template prompt messages kind user =
     bindR (replace_messages_variable (te_str E)
         (replace_prompt_variable (str_replace ''{{TYPE}}'' (case kind of None \<Rightarrow> [] | Some k \<Rightarrow> k) template) prompt)
         messages ''MESSAGES'') (\<lambda>t. prompt_template E t user)"

definition moa_response_generation_template :: "string \<Rightarrow> string \<Rightarrow> string list \<Rightarrow> string" where
  "moa_response_generation_template template prompt responses =
     (let quotes = replicate 3 (CHR 0x22);
          t = replace_all tag_start tag_end (\<lambda>t. prompt_part prompt (tag_amount t)) template 0
                (find_tags (prompt_tags False) template)
      in str_replace ''{{responses}}''
           (str_join (line_feed @ line_feed) (map (\<lambda>r. quotes @ r @ quotes) responses)) t)"

definition tools_function_calling_generation_template :: "string \<Rightarrow> string \<Rightarrow> string" where
  "tools_function_calling_generation_template template specs = str_replace ''{{TOOLS}}'' specs template"

section \<open>Bounds of the truncations\<close>

lemma length_from_end: "n \<noteq> 0 \<Longrightarrow> length (from_end n s) = min n (length s)"
  by (simp add: from_end_def)

text \<open>A truncated text keeps its beginning, its end or both, and exactly \<open>max_chars\<close> characters of them.\<close>

theorem truncation_exact:
  assumes "0 < max_chars" and "max_chars < int (length content)"
  shows "(mode = ''start'' \<longrightarrow> (\<exists>b. content = truncate_content content max_chars mode @ b) \<and>
        int (length (truncate_content content max_chars mode)) = max_chars) \<and>
    (mode = ''end'' \<longrightarrow> (\<exists>a. content = a @ truncate_content content max_chars mode) \<and>
        int (length (truncate_content content max_chars mode)) = max_chars) \<and>
    (mode \<noteq> ''start'' \<and> mode \<noteq> ''end'' \<longrightarrow> (\<exists>a x b. content = a @ x @ b \<and>
        truncate_content content max_chars mode = a @ ''...'' @ b \<and> int (length a + length b) = max_chars))"
proof -
  define n where "n = nat max_chars"
  have n: "0 < n" "n < length content" "int n = max_chars" using assms by (auto simp: n_def)
  have t: "truncate_content content max_chars mode = (if mode = ''start'' then take n content
        else if mode = ''end'' then from_end n content
        else take (n div 2) content @ ''...'' @ from_end (n - n div 2) content)"
    using assms n by (auto simp: truncate_content_def n_def Let_def)
  have "take (n div 2) content @ take (length content - n) (drop (n div 2) content) @ from_end (n - n div 2) content = content"
  proof -
    have "n - n div 2 \<noteq> 0" using n(1) by simp
    then have "from_end (n - n div 2) content = drop (length content - n) (drop (n div 2) content)"
      using n by (simp add: from_end_def last_n_def add.commute)
    then show ?thesis by (simp only: append_take_drop_id)
  qed
  then have mid: "\<exists>x. content = take (n div 2) content @ x @ from_end (n - n div 2) content" by metis
  have sum: "int (length (take (n div 2) content) + length (from_end (n - n div 2) content)) = max_chars"
    using n by (simp add: length_from_end)
  show ?thesis
  proof (intro conjI impI)
    assume m: "mode = ''start''"
    show "\<exists>b. content = truncate_content content max_chars mode @ b"
      unfolding t using m by (intro exI [of _ "drop n content"]) simp
    show "int (length (truncate_content content max_chars mode)) = max_chars"
      unfolding t using m n by simp
  next
    assume m: "mode = ''end''"
    show "\<exists>a. content = a @ truncate_content content max_chars mode"
      unfolding t using m n by (intro exI [of _ "take (length content - n) content"]) (simp add: from_end_def last_n_def)
    show "int (length (truncate_content content max_chars mode)) = max_chars"
      unfolding t using m n by (simp add: length_from_end)
  next
    assume m: "mode \<noteq> ''start'' \<and> mode \<noteq> ''end''"
    have "truncate_content content max_chars mode = take (n div 2) content @ ''...'' @ from_end (n - n div 2) content"
      unfolding t using m by simp
    with mid sum show "\<exists>a x b. content = a @ x @ b \<and> truncate_content content max_chars mode = a @ ''...'' @ b \<and>
        int (length a + length b) = max_chars"
      by blast
  qed
qed

section \<open>Where the templates go wrong\<close>

text \<open>A middle of one character is followed by the whole prompt, for a slice from the end by zero takes
  everything; the same holds for an end of zero characters and for the messages.\<close>

lemma middle_of_one_is_longer:
  "1 < length prompt \<Longrightarrow> length (prompt_part prompt (Middle 1)) = length prompt + 4"
  by (cases prompt) (simp_all add: prompt_part_def from_end_def)

lemma end_of_zero_is_everything:
  "prompt_part prompt (Ending 0) = prompt" "selected_messages ms (Ending 0) = ms" "selected_messages ms (Middle 0) = ms"
  by (simp_all add: prompt_part_def selected_messages_def from_end_def)

text \<open>When the documents contain the query placeholder, the query is put into the documents, and the
  placeholder of the template is what the model reads.\<close>

lemma query_goes_into_the_context:
  "fill_rag_template ''1'' ''2'' ''[context]:[query]'' ''see [query]'' ''why'' = ''see why:[query]''"
  by code_simp

end
