(* ===== verification/Context_Compaction.thy ===== *)
theory Context_Compaction
  imports Prompt_Templates Chat_History
begin

text \<open>
  Compaction of long chats, \<open>utils/context_compaction.py\<close>: the estimate of the tokens of a request,
  the choice of the messages that a model summarises, and the checkpoint \<open>contextSummary\<close> on a message
  at which later requests resume. Arguments: JSON, the
  environment of the prompt templates, the user and the answer of the model (\<open>services\<close>). The events and the stored
  checkpoints are the state.
\<close>

section \<open>Numbers and settings\<close>

definition parse_positive_int :: "py \<Rightarrow> int option" where
  "parse_positive_int v = (case py_int_of v of Inl _ \<Rightarrow> None | Inr i \<Rightarrow> if 0 < i then Some i else None)"

definition clamp_retention_percentage :: "py \<Rightarrow> int" where
  "clamp_retention_percentage v = min 50 (max 10 (case py_int_of v of Inl _ \<Rightarrow> 40 | Inr i \<Rightarrow> i))"

record compaction_config =
  cc_enable :: bool
  cc_token_threshold :: int
  cc_token_cap :: int
  cc_retention :: int
  cc_prompt :: py

definition load_config :: "pydict \<Rightarrow> compaction_config" where
  "load_config vs = (let get = (\<lambda>k. field vs (''chat.context_compaction.'' @ k));
       threshold = (case parse_positive_int (get ''token_threshold'') of None \<Rightarrow> 80000 | Some i \<Rightarrow> i) in
     \<lparr>cc_enable = truthy (get ''enable''), cc_token_threshold = threshold,
      cc_token_cap = (case parse_positive_int (get ''token_cap'') of None \<Rightarrow> threshold | Some i \<Rightarrow> i),
      cc_retention = clamp_retention_percentage (get ''retention_percentage''),
      cc_prompt = py_or (get ''prompt_template'') (PStr [])\<rparr>)"

definition resolve_token_threshold :: "int \<Rightarrow> int \<Rightarrow> py \<Rightarrow> int result" where
  "resolve_token_threshold global_threshold global_cap metadata =
     bindR (py_get metadata ''params'') (\<lambda>p.
     mapR (\<lambda>v. min (case parse_positive_int v of None \<Rightarrow> global_threshold | Some i \<Rightarrow> i) global_cap)
       (py_get (py_or p (PDict [])) ''compact_token_threshold''))"

section \<open>Estimates\<close>

definition estimate_tokens :: "(py \<Rightarrow> string result) \<Rightarrow> (py \<Rightarrow> string) \<Rightarrow> py \<Rightarrow> int" where
  "estimate_tokens dumps str_of v =
     (if v = PNone then 0
      else (let s = (case v of PStr s \<Rightarrow> s | _ \<Rightarrow> (case dumps v of Inr s \<Rightarrow> s | Inl _ \<Rightarrow> str_of v)) in
        if s = [] then 0 else max 1 (int (length s) div 4)))"

definition estimate_item :: "(py \<Rightarrow> string result) \<Rightarrow> (py \<Rightarrow> string) \<Rightarrow> py \<Rightarrow> int result" where
  "estimate_item dumps str_of item = (case item of
     PDict d \<Rightarrow>
       (let t = field d ''type'' in
        if \<not> hashable t then Inl TypeError
        else if t = PStr ''image'' \<or> t = PStr ''image_url'' then Inr 1000
        else Inr (estimate_tokens dumps str_of
               (py_or (py_or (field d ''text'') (field d ''content'')) item)))
   | _ \<Rightarrow> Inr (estimate_tokens dumps str_of item))"

definition estimate_message :: "(py \<Rightarrow> string result) \<Rightarrow> (py \<Rightarrow> string) \<Rightarrow> py \<Rightarrow> int result" where
  "estimate_message dumps str_of message =
     bindR (py_get message ''content'') (\<lambda>content.
     bindR (case content of PList items \<Rightarrow> mapR sum_list (listR (estimate_item dumps str_of) items)
            | _ \<Rightarrow> Inr (estimate_tokens dumps str_of content)) (\<lambda>c.
     bindR (py_get message ''output'') (\<lambda>output.
     bindR (py_get message ''tool_calls'') (\<lambda>calls.
     mapR (\<lambda>files. 4 + c + estimate_tokens dumps str_of output + estimate_tokens dumps str_of calls
         + estimate_tokens dumps str_of files) (py_get message ''files'')))))"

definition estimate_messages_tokens :: "(py \<Rightarrow> string result) \<Rightarrow> (py \<Rightarrow> string) \<Rightarrow> py list \<Rightarrow> int result" where
  "estimate_messages_tokens dumps str_of ms = mapR sum_list (listR (estimate_message dumps str_of) ms)"

text \<open>The tokens that a provider counted for a message.\<close>

definition first_field :: "pydict \<Rightarrow> string list \<Rightarrow> py" where
  "first_field d ks = foldr (\<lambda>k v. py_or (field d k) v) ks (PInt 0)"

definition usage_tokens :: "pydict \<Rightarrow> int result" where
  "usage_tokens usage =
     bindR (py_int_of (first_field usage [''prompt_tokens'', ''input_tokens'', ''prompt_eval_count'', ''prompt_n''])) (\<lambda>a.
     bindR (py_int_of (first_field usage [''completion_tokens'', ''output_tokens'', ''eval_count'', ''predicted_n''])) (\<lambda>b.
     mapR (\<lambda>c. a + b + c) (py_int_of (first_field usage [''cache_n'']))))"

definition message_usage :: "py \<Rightarrow> py result" where
  "message_usage message =
     py_or_else (py_get message ''usage'')
       (bindR (py_get message ''info'') (\<lambda>i. py_get (py_or i (PDict [])) ''usage''))"

text \<open>The last message with counted tokens, and the messages after it.\<close>

fun last_usage :: "py list \<Rightarrow> py list \<Rightarrow> (int \<times> py list) option result" where
  "last_usage [] after = Inr None"
| "last_usage (m # earlier) after =
     bindR (message_usage m) (\<lambda>u. case u of
       PDict d \<Rightarrow> bindR (usage_tokens d) (\<lambda>t.
         if t \<noteq> 0 then Inr (Some (t, after)) else last_usage earlier (m # after))
     | _ \<Rightarrow> last_usage earlier (m # after))"

definition summary_text :: "string option \<Rightarrow> py" where
  "summary_text s = PStr (case s of None \<Rightarrow> [] | Some t \<Rightarrow> t)"

definition counted_tokens :: "(py \<Rightarrow> string result) \<Rightarrow> (py \<Rightarrow> string) \<Rightarrow> py list \<Rightarrow> int option result" where
  "counted_tokens dumps str_of ms =
     bindR (last_usage (rev ms) []) (\<lambda>u. case u of
       None \<Rightarrow> Inr None
     | Some (t, after) \<Rightarrow> mapR (\<lambda>e. Some (t + e)) (estimate_messages_tokens dumps str_of after))"


section \<open>Checkpoints and the boundary\<close>

definition checkpoint_of :: "py \<Rightarrow> string option result" where
  "checkpoint_of message =
     mapR (\<lambda>v. case v of PStr s \<Rightarrow> if str_strip s = [] then None else Some s | _ \<Rightarrow> None)
       (py_or_else (py_get message ''contextSummary'') (py_get message ''context_summary''))"

text \<open>The loop over the messages; \<open>found\<close> are the messages from the last checkpoint on.\<close>

fun checkpoint_loop :: "(string \<times> py list) option \<Rightarrow> py list \<Rightarrow> (string \<times> py list) option result" where
  "checkpoint_loop found [] = Inr found"
| "checkpoint_loop found (m # ms) =
     bindR (checkpoint_of m) (\<lambda>c. checkpoint_loop (case c of None \<Rightarrow> found | Some s \<Rightarrow> Some (s, m # ms)) ms)"

definition apply_latest_summary_checkpoint :: "py list \<Rightarrow> (py list \<times> string option) result" where
  "apply_latest_summary_checkpoint ms =
     mapR (\<lambda>f. case f of None \<Rightarrow> (ms, None) | Some (s, rest) \<Rightarrow> (rest, Some s)) (checkpoint_loop None ms)"


section \<open>The summary\<close>

text \<open>\<open>v in models\<close> for the keys of a dict.\<close>

definition key_in :: "py \<Rightarrow> pydict \<Rightarrow> bool result" where
  "key_in v d = (if hashable v then Inr (case v of PStr s \<Rightarrow> dget d s \<noteq> None | _ \<Rightarrow> False) else Inl TypeError)"

definition custom_task_model :: "py \<Rightarrow> pydict \<Rightarrow> py \<Rightarrow> py result" where
  "custom_task_model model models default_id =
     (if truthy model then mapR (\<lambda>b. if b then model else default_id) (key_in model models) else Inr default_id)"

definition get_task_model_id :: "py \<Rightarrow> py \<Rightarrow> py \<Rightarrow> pydict \<Rightarrow> py result" where
  "get_task_model_id default_id task_model task_model_external models =
     bindR (key_in default_id models) (\<lambda>known.
     bindR (if known then py_lookup models default_id else Inr (PDict [])) (\<lambda>m.
     bindR (py_get m ''connection_type'') (\<lambda>t.
       custom_task_model (if t = PStr ''local'' then task_model else task_model_external) models default_id)))"

definition summary_model :: "pydict \<Rightarrow> py \<Rightarrow> pydict \<Rightarrow> string result" where
  "summary_model settings model_id models =
     (let own = field settings ''chat.context_compaction.model'' in
      bindR (key_in own models) (\<lambda>b.
      bindR (if b then Inr own
             else get_task_model_id model_id (field settings ''task.model.default'')
                    (field settings ''task.model.external'') models) (\<lambda>task_model.
      bindR (key_in task_model models) (\<lambda>b2. let chosen = (if b2 then task_model else model_id) in
      bindR (key_in chosen models) (\<lambda>b3. case chosen of
         PStr s \<Rightarrow> if b3 then Inr s else Inl (ValueError ''No available model for context compaction'')
       | _ \<Rightarrow> Inl (ValueError ''No available model for context compaction''))))))"

definition default_context_compaction_prompt :: string where
  "default_context_compaction_prompt = str_join line_feed
     [''### Task:'',
      ''Summarize the conversation history that will be compacted out of the active chat context.'',
      [],
      ''### Instructions:'',
      ''- Preserve key decisions, user preferences, and constraints.'',
      ''- Preserve files, artifacts, tool results, and code changes that matter going forward.'',
      ''- Preserve the current task state, unresolved questions, and next steps.'',
      ''- Be factual and specific. Do not invent details.'',
      ''- Keep the summary concise, but complete enough for the assistant to continue without the removed messages.'',
      [],
      ''### Previous Summary:'',
      ''{{PREVIOUS_SUMMARY}}'',
      [],
      ''### Messages Being Compacted:'',
      ''{{COMPACTED_MESSAGES}}'',
      [],
      ''### Recent Messages Kept In Context:'',
      ''{{RECENT_MESSAGES}}'']"

definition content_part :: "py \<Rightarrow> py list result" where
  "content_part content = (case content of
     PDict d \<Rightarrow> Inr [py_or (py_or (field d ''text'') (field d ''content'')) (PStr [])]
   | _ \<Rightarrow> Inr [])"

definition item_parts :: "py \<Rightarrow> py list result" where
  "item_parts item =
     bindR (py_get item ''content'') (\<lambda>c. bindR (py_iter (py_or c (PList []))) (\<lambda>contents.
       mapR concat (listR content_part contents)))"

definition response_text :: "(string \<Rightarrow> py result) \<Rightarrow> py \<Rightarrow> py result" where
  "response_text loads response =
     (let r1 = (case response of PList [x] \<Rightarrow> x | _ \<Rightarrow> response);
          r2 = (case r1 of
             PObj c a \<Rightarrow> if c = ''JSONResponse''
               then (case field a ''body'' of PStr body \<Rightarrow> (case loads body of Inl _ \<Rightarrow> PNone | Inr v \<Rightarrow> v) | _ \<Rightarrow> PNone)
               else r1
           | _ \<Rightarrow> r1)
      in case r2 of
        PDict d \<Rightarrow>
          (let choices = py_or (field d ''choices'') (PList []) in
           if truthy choices
           then bindR (py_first choices) (\<lambda>choice. bindR (py_get choice ''message'') (\<lambda>m.
             py_or_else (py_get (py_or m (PDict [])) ''content'')
               (mapR (\<lambda>v. py_or v (PStr [])) (py_get (py_or m (PDict [])) ''reasoning_content''))))
           else bindR (py_iter (py_or (field d ''output'') (PList []))) (\<lambda>items.
             bindR (listR item_parts items) (\<lambda>ps. mapR PStr (join_lines (filter truthy (concat ps))))))
      | _ \<Rightarrow> Inr (PStr []))"

text \<open>\<open>content[:500]\<close> in an f-string.\<close>

definition head_text :: "(py \<Rightarrow> string) \<Rightarrow> py \<Rightarrow> string result" where
  "head_text str_of v = (case v of
     PStr s \<Rightarrow> Inr (take 500 s)
   | PList xs \<Rightarrow> Inr (str_of (PList (take 500 xs)))
   | _ \<Rightarrow> Inl TypeError)"

definition compacted_line :: "(py \<Rightarrow> string) \<Rightarrow> py \<Rightarrow> string list result" where
  "compacted_line str_of message =
     bindR (get_content_from_message str_of message) (\<lambda>content.
       if truthy content
       then bindR (head_text str_of content) (\<lambda>t. mapR (\<lambda>role. [''- '' @ fmt str_of role @ '': '' @ t])
         (py_get_or message ''role'' (PStr ''unknown'')))
       else Inr [])"

text \<open>What stands for a summary when the model answers nothing.\<close>

definition fallback_summary :: "(py \<Rightarrow> string) \<Rightarrow> string option \<Rightarrow> py list \<Rightarrow> string result" where
  "fallback_summary str_of previous compacted =
     mapR (\<lambda>ls. take 4000 (str_join line_feed
         ((case previous of None \<Rightarrow> [] | Some p \<Rightarrow> if p = [] then [] else [p]) @ concat ls)))
       (listR (compacted_line str_of) compacted)"

text \<open>Everything outside of the module that it calls.\<close>

record services =
  sv_dumps :: "py \<Rightarrow> string result"
  sv_loads :: "string \<Rightarrow> py result"
  sv_env :: template_env
  sv_user :: py
  sv_complete :: "py \<Rightarrow> py result"
  sv_task_settings :: pydict
  sv_request_metadata :: pydict

definition model_max_tokens :: "py \<Rightarrow> py result" where
  "model_max_tokens model =
     bindR (py_get_or model ''info'' (PDict [])) (\<lambda>i. bindR (py_get_or i ''params'' (PDict [])) (\<lambda>p.
       py_get_or p ''max_tokens'' (PInt 1000)))"

definition summary_payload :: "services \<Rightarrow> string \<Rightarrow> py \<Rightarrow> py \<Rightarrow> string \<Rightarrow> py result" where
  "summary_payload V model_id model max_tokens prompt =
     mapR (\<lambda>owner. PDict
       [(''model'', PStr model_id),
        (''messages'', PList [PDict [(''role'', PStr ''user''), (''content'', PStr prompt)]]),
        (''stream'', PBool False),
        (if owner = PStr ''ollama'' then ''max_tokens'' else ''max_completion_tokens'', max_tokens),
        (''metadata'', PDict (dset ''task'' (PStr ''context_compaction'') (sv_request_metadata V)))])
       (py_get model ''owned_by'')"

definition summary_prompt :: "services \<Rightarrow> string \<Rightarrow> py list \<Rightarrow> py list \<Rightarrow> string option \<Rightarrow> string result" where
  "summary_prompt V template compacted recent previous =
     (let str_of = te_str (sv_env V); all_messages = compacted @ recent in
      bindR (get_last_user_message str_of all_messages) (\<lambda>last_user.
      bindR (replace_prompt_value template (py_or last_user (PStr []))) (\<lambda>t1.
      bindR (replace_messages_variable str_of t1 (Some all_messages) ''MESSAGES'') (\<lambda>t2.
      bindR (replace_messages_variable str_of t2 (Some compacted) ''COMPACTED_MESSAGES'') (\<lambda>t3.
      bindR (replace_messages_variable str_of t3 (Some recent) ''RECENT_MESSAGES'') (\<lambda>t4.
        prompt_template (sv_env V)
          (prompt_variables_template t4 [(''{{PREVIOUS_SUMMARY}}'', case previous of None \<Rightarrow> [] | Some p \<Rightarrow> p)])
          (sv_user V)))))))"

definition generate_summary ::
  "services \<Rightarrow> py \<Rightarrow> pydict \<Rightarrow> py list \<Rightarrow> py list \<Rightarrow> string option \<Rightarrow> py \<Rightarrow> string result" where
  "generate_summary V model_id models compacted recent previous template_setting =
     bindR (summary_model (sv_task_settings V) model_id models) (\<lambda>task_model.
     bindR (case template_setting of PStr t \<Rightarrow> Inr t | _ \<Rightarrow> Inl AttributeError) (\<lambda>template.
     bindR (summary_prompt V (if str_strip template = [] then default_context_compaction_prompt else str_strip template)
         compacted recent previous) (\<lambda>prompt.
     bindR (model_max_tokens (field models task_model)) (\<lambda>max_tokens.
     bindR (summary_payload V task_model (field models task_model) max_tokens prompt) (\<lambda>payload.
     bindR (sv_complete V payload) (\<lambda>response.
     bindR (response_text (sv_loads V) response) (\<lambda>t. case t of
        PStr summary \<Rightarrow>
          if str_strip summary \<noteq> [] then Inr (str_strip summary)
          else fallback_summary (te_str (sv_env V)) previous compacted
      | _ \<Rightarrow> Inl AttributeError)))))))"

section \<open>Compacting a request\<close>


record compaction =
  cp_events :: "py list"
  cp_checkpoints :: "(py \<times> py \<times> string) list"

definition compaction_event :: "string \<Rightarrow> (string \<times> py) list \<Rightarrow> py" where
  "compaction_event description items = PDict
     [(''type'', PStr ''context_compaction''),
      (''data'', PDict ((''action'', PStr ''context_compaction'') # (''description'', PStr description) # items))]"

definition emit_event :: "bool \<Rightarrow> py \<Rightarrow> (compaction, unit) action" where
  "emit_event emitter e = whenA emitter (modA (\<lambda>S. S\<lparr>cp_events := cp_events S @ [e]\<rparr>))"

definition store_checkpoint :: "py \<Rightarrow> py \<Rightarrow> string \<Rightarrow> (compaction, unit) action" where
  "store_checkpoint chat_id message_id summary =
     modA (\<lambda>S. S\<lparr>cp_checkpoints := cp_checkpoints S @ [(chat_id, message_id, summary)]\<rparr>)"

text \<open>The summary, with the event for a failure before the exception goes on.\<close>

definition summary_or_failure :: "bool \<Rightarrow> string result \<Rightarrow> (compaction, string) action" where
  "summary_or_failure emitter r = (case r of
     Inr s \<Rightarrow> retA s
   | Inl e \<Rightarrow> thenA (emit_event emitter (compaction_event ''Context compaction failed''
         [(''done'', PBool True), (''error'', PBool True)])) (raiseA e))"



section \<open>Chats: compaction on demand and the usage shown\<close>

text \<open>The message at which a chat stands; \<open>current\<close> is the column of the chat.\<close>

definition current_message :: "py \<Rightarrow> pydict \<Rightarrow> py result" where
  "current_message current chat_data =
     bindR (if truthy current then Inr current
            else py_get (py_or (field chat_data ''history'') (PDict [])) ''currentId'') (\<lambda>a.
     if truthy a then Inr a
     else let b = py_or (field chat_data ''currentId'') (field chat_data ''branchPointMessageId'') in
       if truthy b then Inr b
       else (case field chat_data ''messages'' of
           PList (x # xs) \<Rightarrow> py_get (last (x # xs)) ''id''
         | _ \<Rightarrow> Inr b))"

text \<open>The branch up to that message, from the stored messages or else from the chat itself. \<open>None\<close> is
  a walk that does not end.\<close>

definition branch_messages :: "pydict \<Rightarrow> pydict \<Rightarrow> py \<Rightarrow> py list result option" where
  "branch_messages messages_map chat_data current_id =
     (if messages_map \<noteq> [] then get_message_list messages_map current_id
      else (case py_get (py_or (field chat_data ''history'') (PDict [])) ''messages'' of
          Inl e \<Rightarrow> Some (Inl e)
        | Inr v \<Rightarrow> (case py_or v (PDict []) of
            PDict d \<Rightarrow> get_message_list d current_id
          | _ \<Rightarrow> Some (Inl AttributeError))))"

definition not_compacted :: "string \<Rightarrow> py" where
  "not_compacted reason = PDict [(''ok'', PBool True), (''compacted'', PBool False), (''reason'', PStr reason)]"

definition compact_branch ::
  "services \<Rightarrow> compaction_config \<Rightarrow> py \<Rightarrow> py \<Rightarrow> py \<Rightarrow> pydict \<Rightarrow> py list \<Rightarrow> (compaction, py) action" where
  "compact_branch V config chat_id current_id model_id models branch =
     bindA (pureA (apply_latest_summary_checkpoint branch)) (\<lambda>(ms, previous).
     let compacted = butlast ms; recent = drop (length ms - 1) ms in
     if compacted = [] \<or> recent = [] then retA (not_compacted ''too_short'')
     else bindA (pureA (generate_summary V model_id models compacted recent previous (cc_prompt config))) (\<lambda>summary.
       thenA (store_checkpoint chat_id current_id summary)
       (retA (PDict [(''ok'', PBool True), (''compacted'', PBool True),
          (''dropped_messages'', PInt (int (length compacted))), (''kept_messages'', PInt (int (length recent))),
          (''summary_chars'', PInt (int (length summary)))]))))"

definition compact_chat_branch ::
  "services \<Rightarrow> compaction_config \<Rightarrow> py \<Rightarrow> py \<Rightarrow> pydict \<Rightarrow> pydict \<Rightarrow> py \<Rightarrow> pydict \<Rightarrow> compaction \<Rightarrow>
   (compaction \<times> py result) option" where
  "compact_chat_branch V config chat_id current chat_data messages_map model_id models S =
     (if \<not> cc_enable config then Some (S, Inr (not_compacted ''disabled''))
      else (case current_message current chat_data of
          Inl e \<Rightarrow> Some (S, Inl e)
        | Inr current_id \<Rightarrow>
            if \<not> truthy current_id then Some (S, Inr (not_compacted ''empty''))
            else map_option (\<lambda>branch. bindA (pureA branch)
                (compact_branch V config chat_id current_id model_id models) S)
              (branch_messages messages_map chat_data current_id)))"

text \<open>\<open>round\<close> of a float: halves go to the even neighbour.\<close>

definition py_round :: "rat \<Rightarrow> int" where
  "py_round q = (let f = \<lfloor>q\<rfloor>; d = q - of_int f in
     if d < 1 / 2 then f else if 1 / 2 < d then f + 1 else if even f then f else f + 1)"

definition build_context_usage :: "int \<Rightarrow> int \<Rightarrow> py" where
  "build_context_usage tokens threshold = PDict
     [(''tokens'', PInt tokens), (''estimated_tokens'', PInt tokens), (''threshold'', PInt threshold),
      (''percent'', PInt (if 0 < threshold then py_round (of_int tokens / of_int threshold * 100) else 0)),
      (''source'', PStr ''estimated'')]"

definition usage_of_branch ::
  "services \<Rightarrow> compaction_config \<Rightarrow> py \<Rightarrow> py list \<Rightarrow> py result" where
  "usage_of_branch V config params branch =
     bindR (resolve_token_threshold (cc_token_threshold config) (cc_token_cap config)
         (PDict [(''params'', params)])) (\<lambda>threshold.
     bindR (apply_latest_summary_checkpoint branch) (\<lambda>(ms, previous).
     bindR (counted_tokens (sv_dumps V) (te_str (sv_env V)) ms) (\<lambda>u. case u of
       Some t \<Rightarrow> Inr (build_context_usage t threshold)
     | None \<Rightarrow> mapR (\<lambda>e. build_context_usage
           (estimate_tokens (sv_dumps V) (te_str (sv_env V)) (summary_text previous) + e) threshold)
         (estimate_messages_tokens (sv_dumps V) (te_str (sv_env V)) ms))))"

text \<open>\<open>(params or {}).copy()\<close> and \<open>params['model'] = model_id\<close>.\<close>

definition params_with_model :: "py \<Rightarrow> py \<Rightarrow> py result" where
  "params_with_model params model_id = (case py_or params (PDict []) of
     PDict d \<Rightarrow> Inr (PDict (if truthy model_id then dset ''model'' model_id d else d))
   | PList xs \<Rightarrow> if truthy model_id then Inl TypeError else Inr (PList xs)
   | _ \<Rightarrow> Inl AttributeError)"

definition get_chat_context_usage ::
  "services \<Rightarrow> compaction_config \<Rightarrow> py \<Rightarrow> pydict \<Rightarrow> pydict \<Rightarrow> py \<Rightarrow> py result option" where
  "get_chat_context_usage V config current chat_data messages_map model_id =
     (case current_message current chat_data of
        Inl e \<Rightarrow> Some (Inl e)
      | Inr current_id \<Rightarrow>
          if \<not> truthy current_id then Some (Inr PNone)
          else map_option (\<lambda>branch. bindR branch (\<lambda>ms.
              if ms = [] \<or> \<not> cc_enable config then Inr PNone
              else bindR (params_with_model (field chat_data ''params'') model_id) (\<lambda>params.
                usage_of_branch V config params ms)))
            (branch_messages messages_map chat_data current_id))"

section \<open>Checkpoints are found again\<close>








section \<open>The boundary\<close>



section \<open>Properties\<close>
























text \<open>A failed summary stores nothing, and a listening client is told so.\<close>

lemma failed_summary_stores_nothing:
  "fst (summary_or_failure True (Inl e) S) = S\<lparr>cp_events := cp_events S @
     [compaction_event ''Context compaction failed'' [(''done'', PBool True), (''error'', PBool True)]]\<rparr> \<and>
   snd (summary_or_failure True (Inl e) S) = Inl e"
  by (simp add: summary_or_failure_def emit_event_def)

end
