(* ===== verification/Mcp_Selection.thy ===== *)
theory Mcp_Selection
  imports Py_Action
begin

text \<open>
  The tool servers that a request or a user selects, \<open>utils/mcp/selection.py\<close>. \<open>None\<close> is no selection,
  the empty list switches the servers off. \<open>dump\<close> is \<open>model_dump()\<close> of a settings model.
\<close>

text \<open>\<open>list(dict.fromkeys(xs))\<close>: the first occurrence of each element, in order.\<close>

fun distinct_firsts :: "'a list \<Rightarrow> 'a list" where
  "distinct_firsts [] = []"
| "distinct_firsts (x # xs) = x # filter (\<lambda>y. y \<noteq> x) (distinct_firsts xs)"

lemma set_distinct_firsts [simp]: "set (distinct_firsts xs) = set xs"
  by (induction xs) auto

lemma distinct_distinct_firsts [simp]: "distinct (distinct_firsts xs)"
  by (induction xs) auto

lemma distinct_firsts_id: "distinct xs \<Longrightarrow> distinct_firsts xs = xs"
  by (induction xs) (auto intro: filter_True)

text \<open>The order of the first occurrences stays.\<close>

lemma distinct_firsts_append: "distinct_firsts (xs @ ys) = distinct_firsts xs @ filter (\<lambda>y. y \<notin> set xs) (distinct_firsts ys)"
  by (induction xs) (auto intro: filter_cong)

fun server_id :: "py \<Rightarrow> string option" where
  "server_id (PStr s) = (if str_strip s = [] then None else Some (str_strip s))"
| "server_id _ = None"

definition selection_error :: py_exc where
  "selection_error = HTTPException 400 ''mcp_server_ids must be a list of non-empty strings''"

definition normalize_mcp_server_ids :: "py \<Rightarrow> string list option result" where
  "normalize_mcp_server_ids v = (case v of
     PNone \<Rightarrow> Inr None
   | PList items \<Rightarrow>
       if list_all (\<lambda>x. server_id x \<noteq> None) items
       then Inr (Some (distinct_firsts (map (\<lambda>x. the (server_id x)) items)))
       else Inl selection_error
   | _ \<Rightarrow> Inl selection_error)"

text \<open>The form loses the key; the metadata stands in when it is not there.\<close>

definition resolve_mcp_server_ids :: "pydict \<Rightarrow> pydict \<Rightarrow> string list option result \<times> pydict" where
  "resolve_mcp_server_ids form_data metadata = (case dget form_data ''mcp_server_ids'' of
     Some v \<Rightarrow> (normalize_mcp_server_ids v, dpop ''mcp_server_ids'' form_data)
   | None \<Rightarrow> (normalize_mcp_server_ids (field metadata ''mcp_server_ids''), form_data))"

definition get_user_mcp_server_ids :: "(py \<Rightarrow> py) \<Rightarrow> py \<Rightarrow> string list option result" where
  "get_user_mcp_server_ids dump user =
     (let settings = py_getattr user ''settings'';
          s = (case settings of PObj c a \<Rightarrow> dump settings | _ \<Rightarrow> settings) in
      case s of
        PDict d \<Rightarrow> (case py_or (field d ''ui'') (PDict []) of
            PDict ui \<Rightarrow> (case dget ui ''mcpServerIds'' of
                None \<Rightarrow> Inr None
              | Some v \<Rightarrow> normalize_mcp_server_ids v)
          | _ \<Rightarrow> Inr None)
      | _ \<Rightarrow> Inr None)"

text \<open>A selection that was accepted is accepted again as it is.\<close>

lemma str_strip_idem [simp]: "str_strip (str_strip s) = str_strip s"
proof (cases "str_strip s = []")
  case True
  moreover have "str_strip [] = []" by (simp add: strip_by_def lstrip_by_def rstrip_by_def)
  ultimately show ?thesis by simp
qed (simp add: strip_trimmed trimmed_strip)

lemma normalize_idempotent:
  assumes "normalize_mcp_server_ids v = Inr (Some ids)"
  shows "normalize_mcp_server_ids (PList (map PStr ids)) = Inr (Some ids) \<and> distinct ids \<and> [] \<notin> set ids"
proof -
  from assms obtain items where v: "v = PList items" and all: "list_all (\<lambda>x. server_id x \<noteq> None) items"
    and ids: "ids = distinct_firsts (map (\<lambda>x. the (server_id x)) items)"
    by (auto simp: normalize_mcp_server_ids_def split: py.splits if_splits)
  have id: "server_id (PStr i) = Some i \<and> i \<noteq> []" if "i \<in> set ids" for i
  proof -
    from that ids obtain x where "x \<in> set items" "i = the (server_id x)" by auto
    with all have "server_id x = Some i" by (auto simp: list_all_iff)
    then obtain s where "i = str_strip s" "str_strip s \<noteq> []"
      by (cases x rule: server_id.cases) (auto split: if_splits)
    then show ?thesis by simp
  qed
  then have "list_all (\<lambda>x. server_id x \<noteq> None) (map PStr ids)" "map (\<lambda>x. the (server_id x)) (map PStr ids) = ids"
    by (auto simp: list_all_iff intro: map_idI)
  then show ?thesis
    using id ids by (auto simp: normalize_mcp_server_ids_def distinct_firsts_id)
qed

text \<open>An empty selection of the request overrules the metadata.\<close>

lemma empty_selection_kept:
  "dget form ''mcp_server_ids'' = Some (PList []) \<Longrightarrow> fst (resolve_mcp_server_ids form metadata) = Inr (Some [])"
  by (simp add: resolve_mcp_server_ids_def normalize_mcp_server_ids_def)

end
