(* ===== verification/Chat_Variables.thy ===== *)
theory Chat_Variables
  imports Py_Action Py_Matches
begin

text \<open>
  Variables in system prompts, \<open>utils/chat_variables.py\<close>: the placeholders of a prompt, the fields that
  they define, the validation of the values a user gives, and the rendering. \<open>loads\<close> is \<open>json.loads\<close>
  (\<open>None\<close>: not JSON), \<open>dumps\<close> is \<open>json.dumps\<close> (\<open>None\<close>: \<open>TypeError\<close>). The set of allowed keys of a
  field is walked in the order in which it is written down.
\<close>

section \<open>Placeholders\<close>

abbreviation bar :: char where "bar \<equiv> CHR ''|''"

definition rx_blanks :: rx where
  "rx_blanks = RStar (RCls py_space)"

definition rx_head :: "string \<Rightarrow> rx" where
  "rx_head owner = rx_list [rx_word ''{{'', rx_blanks, rx_word (owner @ ''.variables.'')]"

definition rx_name :: rx where
  "rx_name = rx_plus (RCls (\<lambda>c. \<not> py_space c \<and> c \<noteq> bar \<and> c \<noteq> CHR ''}''))"

definition rx_bar :: rx where
  "rx_bar = rx_list [rx_blanks, rx_char bar, rx_blanks]"

definition rx_definition :: rx where
  "rx_definition = RStar (RCls (\<lambda>c. c \<noteq> CHR ''}''))"

definition rx_tail :: rx where
  "rx_tail = rx_list [rx_blanks, rx_word ''}}'']"

text \<open>A match with its two groups.\<close>

record variable_match =
  vm_start :: nat
  vm_end :: nat
  vm_key :: string
  vm_definition :: "string option"

text \<open>\<open>CHAT_VARIABLE_ANY_RE\<close> and \<open>USER_VARIABLE_ANY_RE\<close> at a position, in the order of the engine.\<close>

definition variable_matches :: "string \<Rightarrow> string \<Rightarrow> nat \<Rightarrow> variable_match list" where
  "variable_matches owner s i =
     concat (map (\<lambda>j. concat (map (\<lambda>k.
         concat (map (\<lambda>a. concat (map (\<lambda>b. map (\<lambda>e.
             \<lparr>vm_start = i, vm_end = e, vm_key = slice j k s, vm_definition = Some (slice a b s)\<rparr>)
           (rx_ends rx_tail s b)) (rx_ends rx_definition s a))) (rx_ends rx_bar s k))
         @ map (\<lambda>e. \<lparr>vm_start = i, vm_end = e, vm_key = slice j k s, vm_definition = None\<rparr>) (rx_ends rx_tail s k))
       (rx_ends rx_name s j))) (rx_ends (rx_head owner) s i))"

definition find_variables :: "string \<Rightarrow> string \<Rightarrow> variable_match list" where
  "find_variables owner s = find_all (variable_matches owner s) vm_end (length s) 0"

abbreviation replace_matches :: "(variable_match \<Rightarrow> string) \<Rightarrow> string \<Rightarrow> variable_match list \<Rightarrow> string" where
  "replace_matches f s ms \<equiv> replace_all vm_start vm_end f s 0 ms"

text \<open>\<open>CHAT_VARIABLE_KEY_RE.match\<close>.\<close>

definition key_pattern :: rx where
  "key_pattern = rx_list [RBegin, RCls (\<lambda>c. code (CHR ''a'') \<le> code c \<and> code c \<le> code (CHR ''z'')),
     RStar (RCls (\<lambda>c. code (CHR ''a'') \<le> code c \<and> code c \<le> code (CHR ''z'') \<or> is_decimal c \<or> c = CHR ''_'')), REnd]"

definition key_ok :: "string \<Rightarrow> bool" where
  "key_ok k = (rx_ends key_pattern k 0 \<noteq> [])"

section \<open>Definitions of fields\<close>

record splitting =
  sp_result :: "string list"
  sp_current :: string
  sp_depth :: int
  sp_in_string :: bool
  sp_escape :: bool

definition split_char :: "char \<Rightarrow> splitting \<Rightarrow> char \<Rightarrow> splitting" where
  "split_char delimiter S c =
     (if sp_escape S then S\<lparr>sp_current := sp_current S @ [c], sp_escape := False\<rparr>
      else if c = CHR 0x5C then S\<lparr>sp_current := sp_current S @ [c], sp_escape := True\<rparr>
      else if c = CHR 0x22 then S\<lparr>sp_in_string := \<not> sp_in_string S, sp_current := sp_current S @ [c]\<rparr>
      else let depth = (if sp_in_string S then sp_depth S
             else if c = CHR ''{'' \<or> c = CHR ''['' then sp_depth S + 1
             else if c = CHR ''}'' \<or> c = CHR '']'' then sp_depth S - 1 else sp_depth S) in
        if \<not> sp_in_string S \<and> c = delimiter \<and> depth = 0
        then S\<lparr>sp_depth := depth, sp_result := sp_result S @ [str_strip (sp_current S)], sp_current := []\<rparr>
        else S\<lparr>sp_depth := depth, sp_current := sp_current S @ [c]\<rparr>)"

definition split_properties :: "string \<Rightarrow> char \<Rightarrow> string list" where
  "split_properties v delimiter =
     (let S = foldl (split_char delimiter) \<lparr>sp_result = [], sp_current = [], sp_depth = 0, sp_in_string = False,
            sp_escape = False\<rparr> v
      in sp_result S @ (if str_strip (sp_current S) = [] then [] else [str_strip (sp_current S)]))"

definition parse_json_value :: "(string \<Rightarrow> py option) \<Rightarrow> string \<Rightarrow> py" where
  "parse_json_value loads v =
     (if starts_with v [CHR 0x22] \<and> ends_with v [CHR 0x22] then PStr (butlast (tl v))
      else if v \<noteq> [] \<and> (hd v = CHR ''['' \<or> hd v = CHR ''{'')
      then (case loads v of Some x \<Rightarrow> x | None \<Rightarrow> PStr v) else PStr v)"

definition add_property :: "(string \<Rightarrow> py option) \<Rightarrow> pydict \<Rightarrow> string \<Rightarrow> pydict" where
  "add_property loads properties part =
     (let trimmed = str_strip part in
      if trimmed = [] then properties
      else (case split_properties trimmed (CHR ''='') of
          [] \<Rightarrow> properties
        | name # values \<Rightarrow> dset (str_strip name)
            (if values = [] then PBool True else parse_json_value loads (str_strip (str_join ''='' values))) properties))"

definition parse_variable_definition :: "(string \<Rightarrow> py option) \<Rightarrow> string \<Rightarrow> pydict" where
  "parse_variable_definition loads d =
     (case split_properties d (CHR '':'') of
        [] \<Rightarrow> [(''type'', PStr ''text'')]
      | first # rest \<Rightarrow>
          (let t = str_strip (if starts_with first ''type='' then drop 5 first else first) in
           foldl (\<lambda>f (k, v). dset k v f) [(''type'', PStr (if t = [] then ''text'' else t))]
             (foldl (add_property loads) [] rest)))"

definition allowed_keys :: "string list" where
  "allowed_keys = [''default'', ''label'', ''max'', ''maxlength'', ''min'', ''minlength'', ''options'',
     ''placeholder'', ''required'', ''step'', ''type'']"

definition safe_field :: "string \<Rightarrow> pydict \<Rightarrow> pydict" where
  "safe_field key d =
     (let f1 = foldl (\<lambda>f k. case dget d k of None \<Rightarrow> f | Some v \<Rightarrow> dset k v f) [(''key'', PStr key)] allowed_keys;
          f2 = (if dget f1 ''type'' = None then dset ''type'' (PStr ''text'') f1 else f1);
          f3 = (if field f2 ''type'' = PStr ''select'' \<and> \<not> is_list (field f2 ''options'')
                then dset ''options'' (PList []) f2 else f2)
      in dset ''required'' (PBool (truthy (field f3 ''required''))) f3)"

type_synonym fields = "(string \<times> pydict) list"

definition invalid :: "string \<Rightarrow> 'a result" where
  "invalid message = Inl (ValueError message)"

definition collect_match :: "(string \<Rightarrow> py option) \<Rightarrow> fields \<times> fields \<Rightarrow> variable_match \<Rightarrow> (fields \<times> fields) result" where
  "collect_match loads acc m =
     (let (by_key, typed) = acc; key = str_strip (vm_key m) in
      if \<not> key_ok key then invalid (''Invalid chat variable key: '' @ key)
      else (case vm_definition m of
          Some d \<Rightarrow>
            if str_strip d \<noteq> []
            then let f = safe_field key (parse_variable_definition loads (str_strip d)) in
              if field f ''type'' = PStr ''select'' \<and> \<not> truthy (field f ''options'')
              then invalid (''Chat variable '' @ key @ '' select needs options.'')
              else if dget typed key \<noteq> None \<and> dget typed key \<noteq> Some f
              then invalid (''Chat variable '' @ key @ '' has conflicting definitions.'')
              else Inr (dset key f by_key, dset key f typed)
            else Inr (if dget by_key key = None then dset key (safe_field key [(''type'', PStr ''text'')]) by_key
                      else by_key, typed)
        | None \<Rightarrow> Inr (if dget by_key key = None then dset key (safe_field key [(''type'', PStr ''text'')]) by_key
                      else by_key, typed)))"

definition collect_chat_variable_fields :: "(string \<Rightarrow> py option) \<Rightarrow> string \<Rightarrow> fields result" where
  "collect_chat_variable_fields loads system_prompt =
     mapR fst (foldR (collect_match loads) ([], []) (find_variables ''chat'' system_prompt))"

definition get_chat_variables_schema :: "(string \<Rightarrow> py option) \<Rightarrow> string \<Rightarrow> py option" where
  "get_chat_variables_schema loads system_prompt =
     (case collect_chat_variable_fields loads system_prompt of
        Inr (f # fs) \<Rightarrow> Some (PDict [(''fields'', PList (map (PDict \<circ> snd) (f # fs)))])
      | _ \<Rightarrow> None)"

section \<open>Values\<close>

definition max_variable_value_length :: nat where "max_variable_value_length = 20000"

definition max_variables_json_length :: nat where "max_variables_json_length = 100000"

text \<open>\<open>value.replace\<close> of carriage return and line feed by a line feed.\<close>

fun unify_newlines :: "string \<Rightarrow> string" where
  "unify_newlines (c # d # s) =
     (if c = CHR 0x0D \<and> d = CHR 0x0A then CHR 0x0A # unify_newlines s else c # unify_newlines (d # s))"
| "unify_newlines s = s"

definition variables_of :: "py \<Rightarrow> pydict" where
  "variables_of v = (case v of PDict d \<Rightarrow> d | _ \<Rightarrow> [])"

definition normalize_user_variables :: "py \<Rightarrow> (string \<times> string) list" where
  "normalize_user_variables v = concat (map (\<lambda>(k, x). case x of PStr s \<Rightarrow> [(k, s)] | _ \<Rightarrow> []) (variables_of v))"

definition check_json_length :: "(py \<Rightarrow> string option) \<Rightarrow> string \<Rightarrow> pydict \<Rightarrow> unit result" where
  "check_json_length dumps who variables = (case dumps (PDict variables) of
     None \<Rightarrow> invalid (who @ '' variables must be JSON serializable.'')
   | Some s \<Rightarrow> if max_variables_json_length < length s then invalid (who @ '' variables are too large.'') else Inr ())"

definition validate_user_variable :: "string \<times> py \<Rightarrow> (string \<times> string) result" where
  "validate_user_variable kv = (let (key, v) = kv in
     if \<not> key_ok key then invalid (''Invalid user variable key: '' @ key)
     else (case v of
         PStr s \<Rightarrow>
           if max_variable_value_length < length (unify_newlines s)
           then invalid (''User variable is too long: '' @ key) else Inr (key, unify_newlines s)
       | _ \<Rightarrow> invalid (''User variable must be a string: '' @ key)))"

definition validate_user_variables :: "(py \<Rightarrow> string option) \<Rightarrow> py \<Rightarrow> (string \<times> string) list result" where
  "validate_user_variables dumps variables = (case variables of
     PDict d \<Rightarrow> bindR (check_json_length dumps ''User'' d) (\<lambda>_. listR validate_user_variable d)
   | _ \<Rightarrow> invalid ''User variables must be an object.'')"

definition no_value :: "py \<Rightarrow> bool" where
  "no_value v = (v = PNone \<or> v = PStr [])"

definition field_label :: "(py \<Rightarrow> string) \<Rightarrow> string \<Rightarrow> pydict \<Rightarrow> string" where
  "field_label str_of key f = (if truthy (field f ''label'') then fmt str_of (field f ''label'') else key)"

definition given_value :: "(py \<Rightarrow> string) \<Rightarrow> bool \<Rightarrow> pydict \<Rightarrow> string \<Rightarrow> pydict \<Rightarrow> (bool \<times> py) result" where
  "given_value str_of required variables key f =
     (if \<not> no_value (field variables key) then Inr (True, field variables key)
      else if \<not> no_value (field f ''default'') then Inr (True, field f ''default'')
      else if required \<and> truthy (field f ''required'')
      then invalid (''Missing required chat variable: '' @ field_label str_of key f)
      else Inr (False, PStr []))"

definition field_options :: "pydict \<Rightarrow> py list" where
  "field_options f = (case field f ''options'' of PList xs \<Rightarrow> xs | _ \<Rightarrow> [])"

text \<open>\<open>==\<close> of two JSON values, where \<open>True\<close>, \<open>1\<close> and \<open>1.0\<close> are equal.\<close>

function py_eq :: "py \<Rightarrow> py \<Rightarrow> bool" where
  "py_eq a b =
     (case (a, b) of
       (PList xs, PList ys) \<Rightarrow> length xs = length ys \<and> (\<forall>i \<in> {..<length xs}. py_eq (xs ! i) (ys ! i))
     | (PDict d, PDict e) \<Rightarrow> length d = length e \<and>
         (\<forall>i \<in> {..<length d}. case dget e (fst (d ! i)) of None \<Rightarrow> False | Some w \<Rightarrow> py_eq (snd (d ! i)) w)
     | _ \<Rightarrow> a = b \<or> py_number a \<noteq> None \<and> py_number a = py_number b)"
  by pat_completeness auto

lemma size_nth: "i < length xs \<Longrightarrow> size (xs ! i) < size (PList xs)"
  using size_list_estimation' [of "xs ! i" xs "size (xs ! i)" size] by (auto intro: le_imp_less_Suc)

lemma size_nth_value: "i < length d \<Longrightarrow> size (snd (d ! i)) < size (PDict d)"
  using size_dict_value [of "snd (d ! i)" d] by auto

termination py_eq
  by (relation "measure (\<lambda>(a, b). size a)") (use size_nth size_nth_value in \<open>auto simp del: py.size\<close>)

declare py_eq.simps [simp del]

definition validate_field ::
  "(py \<Rightarrow> string) \<Rightarrow> bool \<Rightarrow> pydict \<Rightarrow> string \<times> pydict \<Rightarrow> (string \<times> py) result" where
  "validate_field str_of required variables kf = (let (key, f) = kf in
     bindR (given_value str_of required variables key f) (\<lambda>(has_value, v).
       if field f ''type'' = PStr ''select'' \<and> has_value \<and> \<not> list_ex (py_eq v) (field_options f)
       then invalid (''Invalid value for chat variable: '' @ field_label str_of key f)
       else (case v of
           PStr s \<Rightarrow>
             if max_variable_value_length < length (unify_newlines s)
             then invalid (''Chat variable is too long: '' @ field_label str_of key f)
             else Inr (key, PStr (unify_newlines s))
         | _ \<Rightarrow> Inr (key, v))))"

definition validate_chat_variables ::
  "(string \<Rightarrow> py option) \<Rightarrow> (py \<Rightarrow> string option) \<Rightarrow> (py \<Rightarrow> string) \<Rightarrow> string \<Rightarrow> py \<Rightarrow> bool \<Rightarrow> pydict result" where
  "validate_chat_variables loads dumps str_of system_prompt variables required =
     bindR (collect_chat_variable_fields loads system_prompt) (\<lambda>fields.
     bindR (check_json_length dumps ''Chat'' (variables_of variables)) (\<lambda>_.
       listR (validate_field str_of required (variables_of variables)) fields))"

section \<open>Rendering\<close>

definition chat_variable_text :: "(py \<Rightarrow> string) \<Rightarrow> pydict \<Rightarrow> variable_match \<Rightarrow> string" where
  "chat_variable_text str_of validated m =
     (case dget validated (str_strip (vm_key m)) of
        None \<Rightarrow> [] | Some PNone \<Rightarrow> [] | Some v \<Rightarrow> fmt str_of v)"

definition render_chat_variables ::
  "(string \<Rightarrow> py option) \<Rightarrow> (py \<Rightarrow> string option) \<Rightarrow> (py \<Rightarrow> string) \<Rightarrow> string \<Rightarrow> py \<Rightarrow> bool \<Rightarrow> string" where
  "render_chat_variables loads dumps str_of system_prompt variables required =
     replace_matches
       (chat_variable_text str_of (case validate_chat_variables loads dumps str_of system_prompt variables required of
          Inr v \<Rightarrow> v | Inl _ \<Rightarrow> []))
       system_prompt (find_variables ''chat'' system_prompt)"

definition user_variable_text :: "(string \<times> string) list \<Rightarrow> variable_match \<Rightarrow> string" where
  "user_variable_text variables m = (let key = str_strip (vm_key m) in
     if \<not> key_ok key then [] else (case dget variables key of None \<Rightarrow> [] | Some s \<Rightarrow> s))"

definition render_user_variables :: "string \<Rightarrow> py \<Rightarrow> string" where
  "render_user_variables system_prompt variables =
     replace_matches (user_variable_text (normalize_user_variables variables))
       system_prompt (find_variables ''user'' system_prompt)"

section \<open>Splitting\<close>

text \<open>Text without quotes, brackets, backslashes and the delimiter.\<close>

definition special :: "char \<Rightarrow> bool" where
  "special c = (c = CHR 0x5C \<or> c = CHR 0x22 \<or> c = CHR ''{'' \<or> c = CHR ''['' \<or> c = CHR ''}'' \<or> c = CHR '']'')"

definition plain :: "char \<Rightarrow> string \<Rightarrow> bool" where
  "plain delimiter s = (\<forall>c \<in> set s. c \<noteq> delimiter \<and> \<not> special c)"

lemma split_char_plain:
  assumes "\<not> special c" and "sp_depth S = 0" and "\<not> sp_in_string S" and "\<not> sp_escape S"
  shows "split_char delimiter S c =
    (if c = delimiter then S\<lparr>sp_result := sp_result S @ [str_strip (sp_current S)], sp_current := []\<rparr>
     else S\<lparr>sp_current := sp_current S @ [c]\<rparr>)"
proof -
  have "S\<lparr>sp_depth := 0, sp_current := x\<rparr> = S\<lparr>sp_current := x\<rparr>" for x
    using assms(2) by (cases S) simp
  moreover have "S\<lparr>sp_depth := 0, sp_result := r, sp_current := x\<rparr> = S\<lparr>sp_result := r, sp_current := x\<rparr>" for r x
    using assms(2) by (cases S) simp
  ultimately show ?thesis
    using assms unfolding split_char_def special_def by (simp add: Let_def)
qed

lemma split_plain:
  assumes "plain delimiter s" and "sp_depth S = 0" and "\<not> sp_in_string S" and "\<not> sp_escape S"
  shows "foldl (split_char delimiter) S s = S\<lparr>sp_current := sp_current S @ s\<rparr>"
  using assms
proof (induction s arbitrary: S)
  case (Cons c s)
  then have "plain delimiter s" "c \<noteq> delimiter" "\<not> special c" by (simp_all add: plain_def)
  with Cons show ?case by (simp add: split_char_plain)
qed simp

text \<open>What is joined by the delimiter is split into the same parts.\<close>

lemma split_joined:
  assumes "\<not> special delimiter"
    and "\<forall>w \<in> set ws. plain delimiter w \<and> trimmed w" and "ws \<noteq> []"
  shows "split_properties (str_join [delimiter] ws) delimiter = ws"
proof -
  have "foldl (split_char delimiter) \<lparr>sp_result = rs, sp_current = [], sp_depth = 0, sp_in_string = False,
      sp_escape = False\<rparr> (str_join [delimiter] ws) =
    \<lparr>sp_result = rs @ butlast ws, sp_current = last ws, sp_depth = 0, sp_in_string = False, sp_escape = False\<rparr>" for rs
    using assms(2,3)
  proof (induction ws arbitrary: rs rule: induct_list012)
    case (3 v w ws)
    then show ?case
      using assms(1) by (simp add: split_plain split_char_plain strip_trimmed)
  qed (auto simp: split_plain)
  moreover have "str_strip (last ws) = last ws" "last ws \<noteq> []"
    using assms(2,3) by (auto simp: strip_trimmed trimmed_def)
  ultimately show ?thesis
    using assms(3) by (simp add: split_properties_def)
qed

section \<open>Validated values\<close>

lemma unify_newlines_Nil [simp]: "unify_newlines s = [] \<longleftrightarrow> s = []"
  by (cases s rule: unify_newlines.cases) auto

fun unified :: "py \<Rightarrow> py" where
  "unified (PStr s) = PStr (unify_newlines s)"
| "unified v = v"

text \<open>A value that fits its field.\<close>

definition fits :: "bool \<Rightarrow> pydict \<Rightarrow> string \<Rightarrow> pydict \<Rightarrow> py \<Rightarrow> bool" where
  "fits required variables key f v \<longleftrightarrow> (\<exists>x.
     x = (if field variables key \<notin> {PNone, PStr []} then field variables key
          else if field f ''default'' \<notin> {PNone, PStr []} then field f ''default'' else PStr []) \<and>
     v = unified x \<and> (\<forall>s. v = PStr s \<longrightarrow> length s \<le> max_variable_value_length) \<and>
     (required \<and> truthy (field f ''required'') \<longrightarrow> x \<notin> {PNone, PStr []}) \<and>
     (field f ''type'' = PStr ''select'' \<and> x \<noteq> PStr [] \<longrightarrow> (\<exists>opt \<in> set (field_options f). py_eq x opt)))"

lemma given_value_given:
  "given_value str_of required variables key f = Inr (b, v) \<Longrightarrow>
    v = (if field variables key \<notin> {PNone, PStr []} then field variables key
          else if field f ''default'' \<notin> {PNone, PStr []} then field f ''default'' else PStr []) \<and>
    (b \<longleftrightarrow> v \<notin> {PNone, PStr []}) \<and> (\<not> b \<longrightarrow> \<not> (required \<and> truthy (field f ''required'')))"
  by (auto simp: given_value_def no_value_def invalid_def split: if_splits)

lemma validate_field_fits:
  assumes "validate_field str_of required variables (key, f) = Inr (k, v)"
  shows "k = key \<and> fits required variables key f v"
proof -
  obtain b x where given: "given_value str_of required variables key f = Inr (b, x)"
    and opt: "field f ''type'' = PStr ''select'' \<and> b \<longrightarrow> list_ex (py_eq x) (field_options f)"
    and v: "(case x of PStr s \<Rightarrow>
             if max_variable_value_length < length (unify_newlines s)
             then invalid (''Chat variable is too long: '' @ field_label str_of key f)
             else Inr (key, PStr (unify_newlines s))
         | _ \<Rightarrow> Inr (key, x)) = Inr (k, v)"
    using assms by (auto simp: validate_field_def invalid_def split: if_splits)
  from v have kv: "k = key" "v = unified x" "\<forall>s. v = PStr s \<longrightarrow> length s \<le> max_variable_value_length"
    by (cases x; auto simp: invalid_def split: if_splits)+
  from given_value_given [OF given] opt have
    "required \<and> truthy (field f ''required'') \<longrightarrow> x \<notin> {PNone, PStr []}"
    "field f ''type'' = PStr ''select'' \<and> x \<noteq> PStr [] \<longrightarrow> (\<exists>opt \<in> set (field_options f). py_eq x opt)"
    by (auto simp: list_ex_iff split: if_splits)
  with kv given_value_given [OF given] show ?thesis unfolding fits_def by blast
qed

lemma collect_distinct:
  assumes "collect_chat_variable_fields loads p = Inr flds"
  shows "distinct (map fst flds)"
proof -
  have "distinct (map fst (fst S'))" if "collect_match loads S m = Inr S'" "distinct (map fst (fst S))" for S S' m
    using that by (auto simp: collect_match_def invalid_def Let_def case_prod_beta split: option.splits if_splits)
  then have "distinct (map fst (fst S))" if "foldR (collect_match loads) ([], []) ms = Inr S" for S ms
    using foldR_invariant [OF that, of "\<lambda>S. distinct (map fst (fst S))"] by auto
  then show ?thesis using assms by (auto simp: collect_chat_variable_fields_def)
qed

section \<open>Properties\<close>

text \<open>C40: values that pass the validation of a prompt's variables are one for each field that the prompt defines, in its
  order. Each is the value that was given, or if none or an empty one was given, the default of the field, or without one
  the empty text, with its line ends unified when it is a text. A text is then not longer than the limit (other values
  have no limit of their own); a required field has a value, when the values are required; and the value of a select field is
  equal to one of its options in the sense of Python (\<open>True == 1 == 1.0\<close>), or is the empty text of a field that
  has neither a value nor a default.\<close>

theorem validated_values_fit:
  assumes "validate_chat_variables loads dumps str_of system_prompt variables required = Inr validated"
  shows "\<exists>flds. collect_chat_variable_fields loads system_prompt = Inr flds \<and>
    map fst validated = map fst flds \<and> distinct (map fst flds) \<and>
    (\<forall>key f. (key, f) \<in> set flds \<longrightarrow> (\<exists>v. dget validated key = Some v \<and> fits required (variables_of variables) key f v))"
proof -
  obtain flds where flds: "collect_chat_variable_fields loads system_prompt = Inr flds"
    and "listR (validate_field str_of required (variables_of variables)) flds = Inr validated"
    using assms by (auto simp: validate_chat_variables_def)
  then have all: "list_all2 (\<lambda>kf kv. validate_field str_of required (variables_of variables) kf = Inr kv) flds validated"
    by (simp add: listR_Inr_iff)
  then have keys: "map fst validated = map fst flds"
    by (induction rule: list_all2_induct) (auto dest!: validate_field_fits)
  have "\<exists>v. dget validated key = Some v \<and> fits required (variables_of variables) key f v" if "(key, f) \<in> set flds" for key f
  proof -
    from that obtain i where i: "i < length flds" "flds ! i = (key, f)" by (auto simp: in_set_conv_nth)
    obtain k v where kv: "validated ! i = (k, v)" by fastforce
    from list_all2_nthD [OF all i(1)] i(2) kv have "k = key" "fits required (variables_of variables) key f v"
      using validate_field_fits by auto
    moreover have "(k, v) \<in> set validated" using i(1) kv list_all2_lengthD [OF all] by (metis nth_mem)
    then have "dget validated k = Some v"
      using collect_distinct [OF flds] keys by (intro map_of_is_SomeI) auto
    ultimately show ?thesis by blast
  qed
  with flds keys collect_distinct [OF flds] show ?thesis by blast
qed

definition tone_prompt :: string where
  "tone_prompt = ''{{chat.variables.t|select:options=[]:required}}''"

definition tone_loads :: "string \<Rightarrow> py option" where
  "tone_loads s = Some (PList [PStr ''kind''])"

lemma tone_found:
  "find_variables ''chat'' tone_prompt =
     [\<lparr>vm_start = 0, vm_end = 47, vm_key = ''t'', vm_definition = Some ''select:options=[]:required''\<rparr>]"
  by code_simp

lemma tone_field:
  "safe_field ''t'' (parse_variable_definition tone_loads ''select:options=[]:required'') =
     [(''key'', PStr ''t''), (''options'', PList [PStr ''kind'']), (''required'', PBool True), (''type'', PStr ''select'')]"
  by code_simp

lemma tone_fields:
  "collect_chat_variable_fields tone_loads tone_prompt = Inr [(''t'', safe_field ''t''
     (parse_variable_definition tone_loads ''select:options=[]:required''))]"
proof -
  have "key_ok ''t''" "str_strip ''t'' = ''t''" "str_strip ''select:options=[]:required'' = ''select:options=[]:required''"
    by code_simp+
  then show ?thesis
    by (simp add: collect_chat_variable_fields_def tone_found collect_match_def tone_field field_def Let_def)
qed

lemma tone_validated:
  "validate_chat_variables tone_loads (\<lambda>v. Some []) (\<lambda>v. []) tone_prompt (PDict [(''t'', PStr ''kind'')]) True =
   Inr [(''t'', PStr ''kind'')]"
  by (simp add: validate_chat_variables_def tone_fields tone_field check_json_length_def variables_of_def
      validate_field_def given_value_def no_value_def field_def field_options_def max_variable_value_length_def
      max_variables_json_length_def py_eq.simps)

theorem validated_values_fit_witness:
  "\<exists>v. dget [(''t'', PStr ''kind'')] ''t'' = Some v \<and>
     fits True (variables_of (PDict [(''t'', PStr ''kind'')])) ''t'' [(''key'', PStr ''t''), (''options'', PList [PStr ''kind'']), (''required'', PBool True), (''type'', PStr ''select'')] v"
  using validated_values_fit [OF tone_validated] by (auto simp: tone_fields tone_field)

text \<open>The rendered prompt.\<close>

lemma tone_rendered:
  "render_chat_variables tone_loads (\<lambda>v. Some []) (\<lambda>v. []) tone_prompt (PDict [(''t'', PStr ''kind'')]) True = ''kind''"
proof -
  have "str_strip ''t'' = ''t''" "slice 0 0 tone_prompt = []" "drop 47 tone_prompt = []" by code_simp+
  then show ?thesis
    by (simp add: render_chat_variables_def tone_validated tone_found chat_variable_text_def)
qed

text \<open>A prompt without placeholders is not changed.\<close>

lemma no_placeholder_unchanged:
  "find_variables ''chat'' p = [] \<Longrightarrow> render_chat_variables loads dumps str_of p variables required = p"
  "find_variables ''user'' p = [] \<Longrightarrow> render_user_variables p variables = p"
  by (simp_all add: render_chat_variables_def render_user_variables_def)

text \<open>The flag \<open>required=false\<close> is the text \<open>false\<close>, which is truthy: it makes a field required.\<close>

lemma required_false_is_required:
  "field (safe_field ''t'' (parse_variable_definition loads ''text:required=false'')) ''required'' = PBool True"
proof -
  have "split_properties ''text:required=false'' (CHR '':'') = [''text'', ''required=false'']"
    "split_properties ''required=false'' (CHR ''='') = [''required'', ''false'']"
    "str_strip ''required=false'' = ''required=false''" "str_strip ''required'' = ''required''"
    "str_strip ''false'' = ''false''" "str_strip ''text'' = ''text''"
    by code_simp+
  then show ?thesis
    by (simp add: parse_variable_definition_def add_property_def parse_json_value_def safe_field_def allowed_keys_def
        field_def Let_def)
qed

text \<open>The end of the key pattern also stands before a final newline: such a key of a user is accepted.\<close>

lemma key_with_newline_accepted: "key_ok [CHR ''a'', CHR 0x0A]"
  by code_simp

end
