(* ===== verification/Prompt_Render.thy ===== *)
theory Prompt_Render
  imports Prompt_Templates Chat_Variables
begin

text \<open>
  The text of a system prompt, \<open>resolve_system_prompt\<close> of \<open>utils/payload.py\<close>: the variables of the chat
  and of the user, those of the request, the variables of the account and the date. It is what \<open>render\<close>
  of \<open>System_Prompt\<close> stands for; a prompt without placeholders is its own text.
\<close>

text \<open>The values of \<open>metadata['variables']\<close>; one that is no string makes \<open>replace\<close> raise.\<close>

definition text_value :: "string \<times> py \<Rightarrow> (string \<times> string) result" where
  "text_value kv = (case snd kv of PStr v \<Rightarrow> Inr (fst kv, v) | _ \<Rightarrow> Inl TypeError)"

definition request_variables :: "pydict \<Rightarrow> (string \<times> string) list result" where
  "request_variables metadata =
     (let v = get_or metadata ''variables'' (PDict []) in
      if \<not> truthy v then Inr []
      else (case v of PDict d \<Rightarrow> listR text_value d | _ \<Rightarrow> Inl AttributeError))"

definition account_variables :: "py \<Rightarrow> py" where
  "account_variables user = (if truthy user then py_getattr user ''variables'' else PDict [])"

text \<open>An empty \<open>metadata\<close> is that of a call without it.\<close>

definition render_system_prompt ::
  "(string \<Rightarrow> py option) \<Rightarrow> (py \<Rightarrow> string option) \<Rightarrow> template_env \<Rightarrow> pydict \<Rightarrow> py \<Rightarrow> py \<Rightarrow> string result" where
  "render_system_prompt loads dumps E metadata user system = (case system of
     PStr s \<Rightarrow>
       (let s1 = (if metadata = [] then s
              else render_chat_variables loads dumps (te_str E) s (get_or metadata ''chat_variables'' (PDict [])) False);
            s2 = (if s1 = [] then s1 else render_user_variables s1 (account_variables user)) in
        bindR (if metadata = [] then Inr [] else request_variables metadata) (\<lambda>vs.
          prompt_template E (prompt_variables_template s2 vs) user))
   | _ \<Rightarrow> Inl TypeError)"

section \<open>Prompts without placeholders\<close>

lemma opened_placeholder:
  assumes "j \<in> set (rx_ends (rx_head owner) s i)" and "i \<le> length s"
  shows "str_in ''{{'' s"
proof -
  have "rx_rel (rx_head owner) s i j" using assms rx_ends_sound by blast
  then obtain m where "rx_rel (rx_word ''{{'') s i m" unfolding rx_head_def rx_list_Cons by blast
  then have "Suc i < length s" "s ! i = CHR ''{''" "s ! Suc i = CHR ''{''"
    by (auto simp: rx_pattern_defs rx_rel_simps)
  then have "drop i s = CHR ''{'' # CHR ''{'' # drop (Suc (Suc i)) s"
    by (metis Cons_nth_drop_Suc Suc_lessD)
  then have "prefix ''{{'' (drop i s)" by simp
  then show ?thesis unfolding str_in_def using assms(2) by blast
qed

lemma find_all_none: "(\<And>j. j < n \<Longrightarrow> ms j = []) \<Longrightarrow> find_all ms end_of n i = []"
  by (induction ms end_of n i rule: find_all.induct) (subst find_all.simps, simp)

lemma find_variables_none:
  assumes "\<not> str_in ''{{'' s"
  shows "find_variables owner s = []"
  unfolding find_variables_def
proof (rule find_all_none)
  fix i assume "i < length s"
  then have "rx_ends (rx_head owner) s i = []"
    using assms opened_placeholder [of _ owner s i] by (cases "rx_ends (rx_head owner) s i") auto
  then show "variable_matches owner s i = []" by (simp add: variable_matches_def)
qed

lemma longer_absent: "\<not> str_in t s \<Longrightarrow> \<not> str_in (t @ u) s"
  unfolding str_in_def using append_prefixD by blast

lemma braces_absent: "\<not> str_in ''{{'' s \<Longrightarrow> replace_any (CHR ''{'' # CHR ''{'' # u) v s = s"
  using longer_absent [of "''{{''" s u] by (simp add: replace_any_def str_replace_absent)

theorem plain_prompt_is_its_text:
  assumes "\<not> str_in ''{{'' s"
    and "get_or metadata ''variables'' (PDict []) = PDict []"
    and "user_variables E s user = Inr vs"
  shows "render_system_prompt loads dumps E metadata user (PStr s) = Inr s"
proof -
  have "render_chat_variables loads dumps (te_str E) s c False = s" for c
    using assms(1) by (simp add: render_chat_variables_def find_variables_none)
  moreover have "render_user_variables s v = s" for v
    using assms(1) by (simp add: render_user_variables_def find_variables_none)
  moreover have "request_variables metadata = Inr []"
    using assms(2) by (simp add: request_variables_def)
  moreover have "prompt_variables_template s [] = s" by (simp add: prompt_variables_template_def)
  moreover have "prompt_template E s user = Inr s"
    using assms(1,3) by (simp add: prompt_template_def prompt_variables_template_def braces_absent)
  ultimately show ?thesis by (cases "s = []") (auto simp: render_system_prompt_def Let_def)
qed

end
