(* ===== verification/Knowledge_Dirs.thy ===== *)
theory Knowledge_Dirs
  imports File_Access "HOL-Library.Char_ord" "HOL-Library.List_Lexorder"
begin

text \<open>
  Directories of knowledge bases: the tables and operations of \<open>models/knowledge.py\<close>, and of
  \<open>routers/knowledge.py\<close> the handlers for directories.
  \<open>fk\<close> says whether the database enforces foreign keys; the SQLite that the program opens by default
  does not. Recursions have the depth that the interpreter allows as their argument, and a loop over
  parent pointers that may not end is a partial function. Events, the vector database and the stored
  blobs are not modelled.
\<close>

section \<open>Tables\<close>

record directory_row =
  d_id :: string
  d_knowledge_id :: string
  d_parent_id :: "string option"
  d_name :: string
  d_user_id :: string
  d_created_at :: int
  d_updated_at :: int

record placed_file_row = knowledge_file_row +
  kf_directory_id :: "string option"

record library_row = knowledge_row +
  k_name :: string
  k_description :: "string option"
  k_meta :: "pydict option"
  k_updated_at :: int

record stored_file = file_row +
  fi_filename :: string
  fi_data :: "pydict option"
  fi_created_at :: int
  fi_updated_at :: int

type_synonym dirs = "directory_row list"

text \<open>Siblings have different names; as \<open>NULL\<close> differs from itself, this does not hold at the root.\<close>

definition same_place :: "directory_row \<Rightarrow> directory_row \<Rightarrow> bool" where
  "same_place a b = (d_parent_id a \<noteq> None \<and> d_knowledge_id a = d_knowledge_id b \<and>
     d_parent_id a = d_parent_id b \<and> d_name a = d_name b)"

definition parent_exists :: "bool \<Rightarrow> dirs \<Rightarrow> string option \<Rightarrow> bool" where
  "parent_exists fk D p = (case p of None \<Rightarrow> True | Some i \<Rightarrow> fk \<longrightarrow> i \<in> d_id ` set D)"

definition is_given :: "string option \<Rightarrow> bool" where
  "is_given i = (i \<noteq> None \<and> i \<noteq> Some [])"

section \<open>Directories\<close>

definition create_directory ::
  "bool \<Rightarrow> string \<Rightarrow> int \<Rightarrow> string \<Rightarrow> string \<Rightarrow> string \<Rightarrow> string option \<Rightarrow> dirs \<Rightarrow> directory_row option \<times> dirs" where
  "create_directory fk uuid now knowledge_id name user_id parent_id D =
     (let row = \<lparr>d_id = uuid, d_knowledge_id = knowledge_id, d_parent_id = parent_id, d_name = name,
        d_user_id = user_id, d_created_at = now, d_updated_at = now\<rparr>
      in if uuid \<in> d_id ` set D \<or> list_ex (same_place row) D \<or> \<not> parent_exists fk D parent_id
         then (None, D) else (Some row, D @ [row]))"

definition get_directories :: "string \<Rightarrow> string option \<Rightarrow> dirs \<Rightarrow> directory_row list" where
  "get_directories knowledge_id parent_id D =
     sort_key d_name (filter (\<lambda>d. d_knowledge_id d = knowledge_id \<and>
       d_parent_id d = (if is_given parent_id then parent_id else None)) D)"

definition get_all_directories :: "string \<Rightarrow> dirs \<Rightarrow> directory_row list" where
  "get_all_directories knowledge_id D = sort_key d_name (filter (\<lambda>d. d_knowledge_id d = knowledge_id) D)"

definition get_directory_by_id :: "string \<Rightarrow> dirs \<Rightarrow> directory_row option" where
  "get_directory_by_id i D = find (\<lambda>d. d_id d = i) D"

definition parent_column :: "dirs \<Rightarrow> string \<Rightarrow> string option" where
  "parent_column D i = (case get_directory_by_id i D of None \<Rightarrow> None | Some d \<Rightarrow> d_parent_id d)"

text \<open>The loops up the parent pointers; each round has a new id or is the last.\<close>

definition unseen :: "dirs \<Rightarrow> string list \<Rightarrow> nat" where
  "unseen D seen = card (d_id ` set D - set seen)"

lemma unseen_less: "get_directory_by_id c D = Some d \<Longrightarrow> c \<notin> set seen \<Longrightarrow> unseen D (c # seen) < unseen D seen"
proof -
  assume "get_directory_by_id c D = Some d" "c \<notin> set seen"
  then have "c \<in> d_id ` set D - set seen" by (auto simp: get_directory_by_id_def dest: find_SomeD)
  then have "d_id ` set D - set (c # seen) \<subset> d_id ` set D - set seen" by auto
  then show ?thesis unfolding unseen_def by (simp add: psubset_card_mono)
qed

function breadcrumbs_loop :: "dirs \<Rightarrow> string list \<Rightarrow> string option \<Rightarrow> directory_row list" where
  "breadcrumbs_loop D seen current =
     (case current of None \<Rightarrow> []
      | Some c \<Rightarrow> if c = [] \<or> c \<in> set seen then []
          else (case get_directory_by_id c D of
              None \<Rightarrow> []
            | Some d \<Rightarrow> d # breadcrumbs_loop D (c # seen) (d_parent_id d)))"
  by pat_completeness auto
termination
  by (relation "measure (\<lambda>(D, seen, current). unseen D seen)") (auto simp: unseen_less)

declare breadcrumbs_loop.simps [simp del]

definition get_directory_breadcrumbs :: "string option \<Rightarrow> dirs \<Rightarrow> directory_row list" where
  "get_directory_breadcrumbs directory_id D =
     (if \<not> is_given directory_id then [] else rev (breadcrumbs_loop D [] directory_id))"

function cycle_found :: "dirs \<Rightarrow> string \<Rightarrow> string list \<Rightarrow> string option \<Rightarrow> bool" where
  "cycle_found D directory_id seen current =
     (case current of None \<Rightarrow> False
      | Some c \<Rightarrow> if c = [] \<or> c \<in> set seen then False
          else if c = directory_id then True
          else cycle_found D directory_id (c # seen) (parent_column D c))"
  by pat_completeness auto
termination
proof (relation "measures [\<lambda>(D, i, seen, current). unseen D seen, \<lambda>(D, i, seen, current). if current = None then 0 else 1]")
  fix D :: dirs and i c :: string and seen current
  assume c: "current = Some c" "\<not> (c = [] \<or> c \<in> set seen)"
  show "((D, i, c # seen, parent_column D c), D, i, seen, current) \<in> measures [\<lambda>(D, i, seen, current). unseen D seen,
      \<lambda>(D, i, seen, current). if current = None then 0 else 1]"
  proof (cases "get_directory_by_id c D")
    case None
    then have "c \<notin> d_id ` set D" by (auto simp: get_directory_by_id_def find_None)
    then have "unseen D (c # seen) = unseen D seen" unfolding unseen_def by (simp add: Diff_insert0)
    with None c show ?thesis by (simp add: parent_column_def)
  next
    case (Some d)
    with c show ?thesis by (simp add: unseen_less)
  qed
qed simp

declare cycle_found.simps [simp del]

text \<open>An update of the row with this id, which the constraint on siblings may refuse.\<close>

definition update_row :: "string \<Rightarrow> (directory_row \<Rightarrow> directory_row) \<Rightarrow> dirs \<Rightarrow> directory_row option \<times> dirs" where
  "update_row i h D =
     (if list_ex (\<lambda>d. d_id d = i \<and> list_ex (\<lambda>e. d_id e \<noteq> i \<and> same_place (h d) e) D) D then (None, D)
      else let D' = map (\<lambda>d. if d_id d = i then h d else d) D in (get_directory_by_id i D', D'))"

definition rename_directory :: "int \<Rightarrow> string \<Rightarrow> string \<Rightarrow> dirs \<Rightarrow> directory_row option \<times> dirs" where
  "rename_directory now directory_id name D =
     update_row directory_id (\<lambda>d. d\<lparr>d_name := name, d_updated_at := now\<rparr>) D"

definition move_directory ::
  "bool \<Rightarrow> int \<Rightarrow> string \<Rightarrow> string option \<Rightarrow> dirs \<Rightarrow> directory_row option \<times> dirs" where
  "move_directory fk now directory_id new_parent_id D =
     (if is_given new_parent_id \<and> cycle_found D directory_id [] new_parent_id then (None, D)
      else if directory_id \<in> d_id ` set D \<and> \<not> parent_exists fk D new_parent_id then (None, D)
      else update_row directory_id (\<lambda>d. d\<lparr>d_parent_id := new_parent_id, d_updated_at := now\<rparr>) D)"

datatype new_parent = Unset | Under "string option"

text \<open>The move is committed before the name is changed.\<close>

definition update_directory ::
  "bool \<Rightarrow> int \<Rightarrow> string \<Rightarrow> string option \<Rightarrow> new_parent \<Rightarrow> dirs \<Rightarrow> directory_row option \<times> dirs" where
  "update_directory fk now directory_id name parent D =
     (let (moved, D1) = (case parent of Unset \<Rightarrow> (get_directory_by_id directory_id D, D)
            | Under p \<Rightarrow> move_directory fk now directory_id p D)
      in if parent \<noteq> Unset \<and> moved = None then (None, D1)
         else (case name of Some n \<Rightarrow> rename_directory now directory_id n D1
             | None \<Rightarrow> (get_directory_by_id directory_id D1, D1)))"

section \<open>Deletion\<close>

definition child_ids :: "dirs \<Rightarrow> string \<Rightarrow> string list" where
  "child_ids D i = map d_id (filter (\<lambda>d. d_parent_id d = Some i) D)"

definition place :: "string \<Rightarrow> string option \<Rightarrow> placed_file_row list \<Rightarrow> placed_file_row list" where
  "place i target F = map (\<lambda>r. if kf_directory_id r = Some i then r\<lparr>kf_directory_id := target\<rparr> else r) F"

fun move_files_from_subtree ::
  "nat \<Rightarrow> dirs \<Rightarrow> string \<Rightarrow> string option \<Rightarrow> placed_file_row list \<Rightarrow> placed_file_row list result" where
  "move_files_from_subtree 0 D i target F = Inl RecursionError"
| "move_files_from_subtree (Suc depth) D i target F =
     foldR (\<lambda>F c. move_files_from_subtree depth D c target (place c target F)) F (child_ids D i)"

fun delete_files_in_subtree ::
  "nat \<Rightarrow> dirs \<Rightarrow> string \<Rightarrow> placed_file_row list \<Rightarrow> placed_file_row list result" where
  "delete_files_in_subtree 0 D i F = Inl RecursionError"
| "delete_files_in_subtree (Suc depth) D i F =
     foldR (\<lambda>F c. delete_files_in_subtree depth D c F) (filter (\<lambda>r. kf_directory_id r \<noteq> Some i) F) (child_ids D i)"

text \<open>The ids that the database deletes: the row, and by the cascade those under it.\<close>

definition with_children :: "dirs \<Rightarrow> string set \<Rightarrow> string set" where
  "with_children D S = S \<union> d_id ` set (filter (\<lambda>d. case d_parent_id d of None \<Rightarrow> False | Some p \<Rightarrow> p \<in> S) D)"

definition deleted_ids :: "bool \<Rightarrow> dirs \<Rightarrow> string \<Rightarrow> string set" where
  "deleted_ids fk D i = (if fk then (with_children D ^^ length D) {i} else {i})"

definition unplace :: "string set \<Rightarrow> placed_file_row list \<Rightarrow> placed_file_row list" where
  "unplace gone F = map (\<lambda>r. case kf_directory_id r of
     Some i \<Rightarrow> if i \<in> gone then r\<lparr>kf_directory_id := None\<rparr> else r | None \<Rightarrow> r) F"

definition delete_directory ::
  "bool \<Rightarrow> nat \<Rightarrow> string \<Rightarrow> bool \<Rightarrow> dirs \<Rightarrow> placed_file_row list \<Rightarrow> bool \<times> dirs \<times> placed_file_row list" where
  "delete_directory fk depth directory_id move_files_to_parent D F =
     (case get_directory_by_id directory_id D of
        None \<Rightarrow> (False, D, F)
      | Some d \<Rightarrow>
          (case (if move_files_to_parent
              then move_files_from_subtree depth D directory_id (d_parent_id d) (place directory_id (d_parent_id d) F)
              else delete_files_in_subtree depth D directory_id F) of
             Inl _ \<Rightarrow> (False, D, F)
           | Inr F' \<Rightarrow> (let gone = deleted_ids fk D directory_id in
               (True, filter (\<lambda>d. d_id d \<notin> gone) D, if fk then unplace gone F' else F'))))"

definition move_file_to_directory ::
  "bool \<Rightarrow> string \<Rightarrow> string \<Rightarrow> string option \<Rightarrow> dirs \<Rightarrow> placed_file_row list \<Rightarrow> bool \<times> placed_file_row list" where
  "move_file_to_directory fk knowledge_id file_id directory_id D F =
     (if list_ex (\<lambda>r. kf_knowledge_id r = knowledge_id \<and> kf_file_id r = file_id) F \<and> \<not> parent_exists fk D directory_id
      then (False, F)
      else (True, map (\<lambda>r. if kf_knowledge_id r = knowledge_id \<and> kf_file_id r = file_id
             then r\<lparr>kf_directory_id := directory_id\<rparr> else r) F))"

definition get_files_with_directory_ids ::
  "string \<Rightarrow> stored_file list \<Rightarrow> placed_file_row list \<Rightarrow> (stored_file \<times> string option) list" where
  "get_files_with_directory_ids knowledge_id files F =
     [(f, kf_directory_id r). f \<leftarrow> files, r \<leftarrow> F, kf_file_id r = fi_id f \<and> kf_knowledge_id r = knowledge_id]"

definition has_file :: "string \<Rightarrow> string \<Rightarrow> placed_file_row list \<Rightarrow> bool" where
  "has_file knowledge_id file_id F = list_ex (\<lambda>r. kf_knowledge_id r = knowledge_id \<and> kf_file_id r = file_id) F"

definition add_file_to_knowledge_by_id ::
  "bool \<Rightarrow> string \<Rightarrow> string \<Rightarrow> string option \<Rightarrow> dirs \<Rightarrow> placed_file_row list \<Rightarrow> placed_file_row option \<times> placed_file_row list" where
  "add_file_to_knowledge_by_id fk knowledge_id file_id directory_id D F =
     (let row = \<lparr>kf_knowledge_id = knowledge_id, kf_file_id = file_id, kf_directory_id = directory_id\<rparr> in
      if has_file knowledge_id file_id F \<or> \<not> parent_exists fk D directory_id then (None, F) else (Some row, F @ [row]))"

definition remove_file_from_knowledge_by_id :: "string \<Rightarrow> string \<Rightarrow> placed_file_row list \<Rightarrow> placed_file_row list" where
  "remove_file_from_knowledge_by_id knowledge_id file_id F =
     filter (\<lambda>r. \<not> (kf_knowledge_id r = knowledge_id \<and> kf_file_id r = file_id)) F"

definition reset_directories :: "bool \<Rightarrow> string \<Rightarrow> dirs \<Rightarrow> dirs" where
  "reset_directories fk knowledge_id D =
     (let gone = d_id ` set (filter (\<lambda>d. d_knowledge_id d = knowledge_id) D)
      in filter (\<lambda>d. d_id d \<notin> (if fk then (with_children D ^^ length D) gone else gone)) D)"

text \<open>The time stamp of the knowledge base aside; files of another base keep no reference to what is gone.\<close>

definition reset_knowledge_by_id ::
  "bool \<Rightarrow> string \<Rightarrow> bool \<Rightarrow> dirs \<Rightarrow> placed_file_row list \<Rightarrow> dirs \<times> placed_file_row list" where
  "reset_knowledge_by_id fk knowledge_id include_directories D F =
     (let F' = filter (\<lambda>r. kf_knowledge_id r \<noteq> knowledge_id) F;
          D' = (if include_directories then reset_directories fk knowledge_id D else D)
      in (D', if fk then unplace (d_id ` set D - d_id ` set D') F' else F'))"

section \<open>Handlers\<close>

definition base_not_found :: py_exc where
  "base_not_found = HTTPException 404 ''We could not find what you're looking for :/''"

definition is_external_knowledge :: "library_row \<Rightarrow> bool" where
  "is_external_knowledge k = (field (case k_meta k of None \<Rightarrow> [] | Some m \<Rightarrow> m) ''source'' = PStr ''external'')"

definition verify_knowledge_write_access ::
  "string \<Rightarrow> user_row \<Rightarrow> library_row list \<Rightarrow> groups_db \<Rightarrow> grants_db \<Rightarrow> library_row result" where
  "verify_knowledge_write_access i user K G A =
     (case find (\<lambda>k. k_id k = i) K of
        None \<Rightarrow> Inl base_not_found
      | Some k \<Rightarrow>
          if is_external_knowledge k then Inl (HTTPException 400 ''External knowledge bases are read-only.'')
          else if k_user_id k \<noteq> u_id user \<and> \<not> has_access (u_id user) ''knowledge'' (k_id k) ''write'' None G A
            \<and> u_role user \<noteq> ''admin''
          then Inl (HTTPException 403 (''You do not have permission to access this resource. ''
            @ ''Please contact your administrator for assistance.''))
          else Inr k)"

text \<open>A directory of the knowledge base; \<open>message\<close> says what is missing.\<close>

definition directory_of_base :: "py_exc \<Rightarrow> string \<Rightarrow> string \<Rightarrow> dirs \<Rightarrow> directory_row result" where
  "directory_of_base e knowledge_id i D = (case get_directory_by_id i D of
     None \<Rightarrow> Inl e | Some d \<Rightarrow> if d_knowledge_id d \<noteq> knowledge_id then Inl e else Inr d)"

definition create_knowledge_directory ::
  "bool \<Rightarrow> string \<Rightarrow> int \<Rightarrow> string \<Rightarrow> string \<Rightarrow> string option \<Rightarrow> user_row \<Rightarrow> library_row list \<Rightarrow> groups_db \<Rightarrow> grants_db \<Rightarrow>
   dirs \<Rightarrow> directory_row result \<times> dirs" where
  "create_knowledge_directory fk uuid now i name parent_id user K G A D =
     (case verify_knowledge_write_access i user K G A of
        Inl e \<Rightarrow> (Inl e, D)
      | Inr k \<Rightarrow> (case create_directory fk uuid now i name (u_id user) parent_id D of
            (None, D') \<Rightarrow> (Inl (HTTPException 400 (''Failed to create directory. ''
               @ ''A directory with this name may already exist at this level.'')), D')
          | (Some d, D') \<Rightarrow> (Inr d, D')))"

definition update_knowledge_directory ::
  "bool \<Rightarrow> int \<Rightarrow> string \<Rightarrow> string \<Rightarrow> string option \<Rightarrow> new_parent \<Rightarrow> user_row \<Rightarrow> library_row list \<Rightarrow> groups_db \<Rightarrow> grants_db \<Rightarrow>
   dirs \<Rightarrow> directory_row result \<times> dirs" where
  "update_knowledge_directory fk now i dir_id name parent user K G A D =
     (case bindR (verify_knowledge_write_access i user K G A) (\<lambda>k. directory_of_base base_not_found i dir_id D) of
        Inl e \<Rightarrow> (Inl e, D)
      | Inr d \<Rightarrow> (case update_directory fk now dir_id name parent D of
            (None, D') \<Rightarrow> (Inl (HTTPException 400 (''Failed to update directory. ''
               @ ''This may be caused by a naming conflict or circular move.'')), D')
          | (Some d', D') \<Rightarrow> (Inr d', D')))"

definition delete_knowledge_directory ::
  "bool \<Rightarrow> nat \<Rightarrow> string \<Rightarrow> string \<Rightarrow> bool \<Rightarrow> user_row \<Rightarrow> library_row list \<Rightarrow> groups_db \<Rightarrow> grants_db \<Rightarrow>
   dirs \<Rightarrow> placed_file_row list \<Rightarrow> unit result \<times> dirs \<times> placed_file_row list" where
  "delete_knowledge_directory fk depth i dir_id move_files user K G A D F =
     (case bindR (verify_knowledge_write_access i user K G A) (\<lambda>k. directory_of_base base_not_found i dir_id D) of
        Inl e \<Rightarrow> (Inl e, D, F)
      | Inr d \<Rightarrow> (case delete_directory fk depth dir_id move_files D F of
            (False, D', F') \<Rightarrow> (Inl (HTTPException 500 ''Failed to delete directory.''), D', F')
          | (True, D', F') \<Rightarrow> (Inr (), D', F')))"

definition move_file_in_knowledge ::
  "bool \<Rightarrow> string \<Rightarrow> string \<Rightarrow> string option \<Rightarrow> user_row \<Rightarrow> library_row list \<Rightarrow> groups_db \<Rightarrow> grants_db \<Rightarrow>
   dirs \<Rightarrow> placed_file_row list \<Rightarrow> unit result \<times> placed_file_row list" where
  "move_file_in_knowledge fk i file_id directory_id user K G A D F =
     (case bindR (verify_knowledge_write_access i user K G A) (\<lambda>k.
         if \<not> has_file i file_id F then Inl base_not_found
         else if \<not> is_given directory_id then Inr ()
         else mapR (\<lambda>d. ()) (directory_of_base (HTTPException 404 ''Target directory not found.'') i (the directory_id) D)) of
        Inl e \<Rightarrow> (Inl e, F)
      | Inr u \<Rightarrow> (case move_file_to_directory fk i file_id directory_id D F of
            (False, F') \<Rightarrow> (Inl (HTTPException 500 ''Failed to move file.''), F')
          | (True, F') \<Rightarrow> (Inr (), F')))"

section \<open>The directories stay a forest\<close>

definition up_edges :: "dirs \<Rightarrow> (string \<times> string) set" where
  "up_edges D = {(d_id d, p) | d p. d \<in> set D \<and> d_parent_id d = Some p}"

definition forest :: "dirs \<Rightarrow> bool" where
  "forest D = (unique_on d_id D \<and> [] \<notin> d_id ` set D \<and> acyclic (up_edges D))"

lemma up_edges_finite [simp]: "finite (up_edges D)"
proof -
  have "up_edges D = (\<lambda>d. (d_id d, the (d_parent_id d))) ` {d \<in> set D. d_parent_id d \<noteq> None}"
    by (force simp: up_edges_def)
  then show ?thesis by simp
qed

lemma up_edges_pairs: "up_edges D = {(i, p). (i, Some p) \<in> set (map (\<lambda>d. (d_id d, d_parent_id d)) D)}"
  by (auto simp: up_edges_def)

lemma up_edges_append: "up_edges (D @ [d]) =
    (case d_parent_id d of None \<Rightarrow> up_edges D | Some p \<Rightarrow> insert (d_id d, p) (up_edges D))"
  by (auto simp: up_edges_pairs split: option.splits)

lemma card_up_edges: "card (up_edges D) \<le> length D"
proof -
  have "up_edges D \<subseteq> (\<lambda>d. (d_id d, the (d_parent_id d))) ` set D" by (force simp: up_edges_def)
  then have "card (up_edges D) \<le> card (set D)" by (meson List.finite_set card_image_le card_mono finite_imageI le_trans)
  then show ?thesis using card_length le_trans by blast
qed

lemma row_by_id: "unique_on d_id D \<Longrightarrow> d \<in> set D \<Longrightarrow> get_directory_by_id (d_id d) D = Some d"
  unfolding get_directory_by_id_def unique_on_def by (induction D) auto

lemma get_directory_SomeD: "get_directory_by_id i D = Some d \<Longrightarrow> d \<in> set D \<and> d_id d = i"
  by (auto simp: get_directory_by_id_def dest: find_SomeD)

lemma get_directory_None: "get_directory_by_id i D = None \<longleftrightarrow> i \<notin> d_id ` set D"
  by (auto simp: get_directory_by_id_def find_None)

lemma up_edge_column: "unique_on d_id D \<Longrightarrow> (i, p) \<in> up_edges D \<longleftrightarrow> parent_column D i = Some p"
  by (auto simp: up_edges_def parent_column_def row_by_id split: option.splits dest: get_directory_SomeD)

text \<open>The walk finds the directory if it is the start or above it.\<close>

lemma cycle_found_above:
  assumes "forest D" "directory_id \<noteq> []"
  shows "(c, directory_id) \<in> (up_edges D)\<^sup>* \<Longrightarrow> current = Some c \<Longrightarrow> (\<forall>x \<in> set seen. (c, x) \<notin> (up_edges D)\<^sup>*) \<Longrightarrow>
    cycle_found D directory_id seen current"
  using assms
proof (induction D directory_id seen current arbitrary: c rule: cycle_found.induct)
  case (1 D i seen current)
  have unique: "unique_on d_id D" and acyclic: "acyclic (up_edges D)" and ne: "[] \<notin> d_id ` set D"
    using "1.prems"(4) by (auto simp: forest_def)
  have "c \<noteq> []"
  proof
    assume "c = []"
    with "1.prems"(1,5) obtain y where "([], y) \<in> up_edges D" by (metis converse_rtranclE)
    then show False using ne by (auto simp: up_edges_def)
  qed
  moreover have "c \<notin> set seen" using "1.prems"(3) by auto
  moreover have "cycle_found D i (c # seen) (parent_column D c)" if "c \<noteq> i"
  proof -
    from "1.prems"(1) that obtain p where p: "(c, p) \<in> up_edges D" "(p, i) \<in> (up_edges D)\<^sup>*"
      by (metis converse_rtranclE)
    have "(p, c) \<notin> (up_edges D)\<^sup>*" using acyclic p(1) by (meson acyclic_def rtrancl_into_trancl2)
    moreover have "\<forall>x \<in> set seen. (p, x) \<notin> (up_edges D)\<^sup>*"
      using "1.prems"(3) p(1) by (meson converse_rtrancl_into_rtrancl)
    ultimately show ?thesis
      using "1.IH" [OF "1.prems"(2) _ that p(2)] "1.prems"(4,5) \<open>c \<noteq> []\<close> \<open>c \<notin> set seen\<close> p(1) up_edge_column [OF unique]
      by auto
  qed
  ultimately show ?case using "1.prems"(2) by (subst cycle_found.simps) simp
qed

lemma forest_filter: "forest D \<Longrightarrow> forest (filter P D)"
proof -
  assume "forest D"
  moreover have "up_edges (filter P D) \<subseteq> up_edges D" by (auto simp: up_edges_def)
  ultimately show ?thesis unfolding forest_def using acyclic_subset unique_on_filter by auto
qed

lemma forest_create:
  assumes "forest D" "uuid \<noteq> []" "\<forall>d \<in> set D. d_parent_id d \<noteq> Some uuid" "parent_id \<noteq> Some uuid"
    and "create_directory fk uuid now knowledge_id name user_id parent_id D = (r, D')"
  shows "forest D'"
proof (cases "D' = D")
  case False
  then have D': "D' = D @ [\<lparr>d_id = uuid, d_knowledge_id = knowledge_id, d_parent_id = parent_id, d_name = name,
      d_user_id = user_id, d_created_at = now, d_updated_at = now\<rparr>]" and new: "uuid \<notin> d_id ` set D"
    using assms(5) by (auto simp: create_directory_def Let_def split: if_splits)
  have "acyclic (up_edges D')"
  proof (cases parent_id)
    case None
    then have "up_edges D' = up_edges D" by (simp add: D' up_edges_append)
    then show ?thesis using assms(1) by (simp add: forest_def)
  next
    case (Some p)
    then have e: "up_edges D' = insert (uuid, p) (up_edges D)" by (simp add: D' up_edges_append)
    have "(p, uuid) \<notin> (up_edges D)\<^sup>*"
    proof
      assume "(p, uuid) \<in> (up_edges D)\<^sup>*"
      then show False
      proof (cases rule: rtranclE)
        case base
        then show False using assms(4) Some by simp
      next
        case (step y)
        then show False using assms(3) by (auto simp: up_edges_def)
      qed
    qed
    then show ?thesis using assms(1) by (simp add: e forest_def acyclic_insert)
  qed
  then show ?thesis using assms(1,2) new by (auto simp: forest_def D' unique_on_def)
qed (use assms in simp)

lemma update_row_same_ids:
  assumes "\<And>d. d_id (h d) = d_id d" and "update_row i h D = (r, D')"
  shows "D' = D \<or> D' = map (\<lambda>d. if d_id d = i then h d else d) D"
  using assms(2) by (auto simp: update_row_def Let_def split: if_splits)

lemma map_ids: "(\<And>d. d_id (h d) = d_id d) \<Longrightarrow> map d_id (map (\<lambda>d. if d_id d = i then h d else d) D) = map d_id D"
  by simp

lemma forest_rename: "forest D \<Longrightarrow> rename_directory now i name D = (r, D') \<Longrightarrow> forest D'"
proof -
  assume f: "forest D" and "rename_directory now i name D = (r, D')"
  then consider "D' = D" | "D' = map (\<lambda>d. if d_id d = i then d\<lparr>d_name := name, d_updated_at := now\<rparr> else d) D"
    unfolding rename_directory_def using update_row_same_ids [of "\<lambda>d. d\<lparr>d_name := name, d_updated_at := now\<rparr>" i D r D'] by auto
  then show ?thesis
  proof cases
    case 2
    have "map (\<lambda>d. (d_id d, d_parent_id d)) D' = map (\<lambda>d. (d_id d, d_parent_id d)) D" by (simp add: 2)
    then have "up_edges D' = up_edges D" by (simp only: up_edges_pairs)
    moreover have "map d_id D' = map d_id D" unfolding 2 by (rule map_ids) simp
    ultimately show ?thesis using f unfolding forest_def unique_on_def by (metis list.set_map)
  qed (use f in simp)
qed

lemma forest_move:
  assumes "forest D" and "move_directory fk now i p D = (r, D')"
  shows "forest D'"
proof (cases "D' = D \<or> i \<notin> d_id ` set D")
  case True
  then show ?thesis
  proof
    assume "i \<notin> d_id ` set D"
    then have "map (\<lambda>d. if d_id d = i then h d else d) D = D" for h :: "directory_row \<Rightarrow> directory_row"
      by (intro map_idI) auto
    then have "D' = D" using assms(2)
      by (auto simp: move_directory_def update_row_def Let_def split: if_splits)
    then show ?thesis using assms(1) by simp
  qed (use assms in simp)
next
  case False
  let ?h = "\<lambda>d. d\<lparr>d_parent_id := p, d_updated_at := now\<rparr>"
  from False assms(2) have no_cycle: "\<not> (is_given p \<and> cycle_found D i [] p)" by (auto simp: move_directory_def split: if_splits)
  have D': "D' = map (\<lambda>d. if d_id d = i then ?h d else d) D"
    using False assms(2) update_row_same_ids [of ?h i D r D'] by (auto simp: move_directory_def split: if_splits)
  have i: "i \<noteq> []" using False assms(1) unfolding forest_def by metis
  let ?rest = "{e \<in> up_edges D. fst e \<noteq> i}"
  have sub: "up_edges D' \<subseteq> (case p of None \<Rightarrow> ?rest | Some q \<Rightarrow> insert (i, q) ?rest)"
    by (auto simp: D' up_edges_def split: if_splits option.splits)
  have rest: "acyclic ?rest" using assms(1) acyclic_subset [of "up_edges D" ?rest] by (auto simp: forest_def)
  have "acyclic (case p of None \<Rightarrow> ?rest | Some q \<Rightarrow> insert (i, q) ?rest)"
  proof (cases p)
    case (Some q)
    have "(q, i) \<notin> (up_edges D)\<^sup>*"
    proof
      assume r: "(q, i) \<in> (up_edges D)\<^sup>*"
      have "q \<noteq> []"
      proof
        assume "q = []"
        then show False using r i assms(1) by (auto simp: forest_def up_edges_def elim: converse_rtranclE)
      qed
      then show False using no_cycle cycle_found_above [OF assms(1) i r Some, of "[]"] by (simp add: Some is_given_def)
    qed
    then have "(q, i) \<notin> ?rest\<^sup>*" by (metis (no_types, lifting) mem_Collect_eq rtrancl_mono subrelI subsetD)
    then show ?thesis using rest by (simp add: Some acyclic_insert)
  qed (simp add: rest)
  then have "acyclic (up_edges D')" using sub acyclic_subset by blast
  moreover have "map d_id D' = map d_id D" unfolding D' by (rule map_ids) simp
  ultimately show ?thesis using assms(1) unfolding forest_def unique_on_def by (metis list.set_map)
qed

lemma forest_update: "forest D \<Longrightarrow> update_directory fk now i name parent D = (r, D') \<Longrightarrow> forest D'"
  by (cases parent; cases name)
     (auto simp: update_directory_def Let_def split: prod.splits if_splits intro: forest_move forest_rename)

lemma forest_delete: "forest D \<Longrightarrow> delete_directory fk depth i move D F = (b, D', F') \<Longrightarrow> forest D'"
  by (auto simp: delete_directory_def Let_def forest_filter split: option.splits sum.splits if_splits)

text \<open>What the program does to the table. An uuid is new, also among the parents that are asked for.\<close>

inductive dirs_step :: "bool \<Rightarrow> dirs \<Rightarrow> dirs \<Rightarrow> bool" for fk where
  created: "create_directory fk uuid now knowledge_id name user_id parent_id D = (r, D') \<Longrightarrow> uuid \<noteq> [] \<Longrightarrow>
    \<forall>d \<in> set D. d_parent_id d \<noteq> Some uuid \<Longrightarrow> parent_id \<noteq> Some uuid \<Longrightarrow> dirs_step fk D D'"
| updated: "update_directory fk now i name parent D = (r, D') \<Longrightarrow> dirs_step fk D D'"
| deleted: "delete_directory fk depth i move D F = (b, D', F') \<Longrightarrow> dirs_step fk D D'"
| emptied: "dirs_step fk D (reset_directories fk knowledge_id D)"

lemma reachable_forest:
  assumes "(dirs_step fk)\<^sup>*\<^sup>* [] D"
  shows "forest D"
  using assms
proof (induction rule: rtranclp_induct)
  case base
  then show ?case by (simp add: forest_def unique_on_def up_edges_def acyclic_def)
next
  case (step D D')
  from step.hyps(2) step.IH show ?case
    by (cases rule: dirs_step.cases)
       (auto simp: reset_directories_def Let_def intro: forest_create forest_update forest_delete forest_filter)
qed

text \<open>In a forest the breadcrumbs of a directory are the whole way from a row without a parent in the table.\<close>

inductive way_up :: "dirs \<Rightarrow> directory_row \<Rightarrow> directory_row list \<Rightarrow> bool" for D where
  top: "(case d_parent_id d of None \<Rightarrow> True | Some p \<Rightarrow> get_directory_by_id p D = None) \<Longrightarrow> way_up D d [d]"
| under: "d_parent_id d = Some p \<Longrightarrow> get_directory_by_id p D = Some e \<Longrightarrow> way_up D e es \<Longrightarrow> way_up D d (d # es)"

lemma breadcrumbs_way_up:
  assumes "forest D"
  shows "current = Some (d_id d) \<Longrightarrow> d \<in> set D \<Longrightarrow> (\<forall>x \<in> set seen. (d_id d, x) \<notin> (up_edges D)\<^sup>*) \<Longrightarrow>
    way_up D d (breadcrumbs_loop D seen current)"
  using assms
proof (induction D seen current arbitrary: d rule: breadcrumbs_loop.induct)
  case (1 D seen current)
  have unique: "unique_on d_id D" and acyclic: "acyclic (up_edges D)" and ne: "[] \<notin> d_id ` set D"
    using "1.prems"(4) by (auto simp: forest_def)
  have d: "get_directory_by_id (d_id d) D = Some d" using row_by_id [OF unique "1.prems"(2)] .
  have "d_id d \<noteq> []" using ne "1.prems"(2) by (metis image_eqI)
  moreover have "d_id d \<notin> set seen" using "1.prems"(3) by auto
  ultimately have new: "\<not> (d_id d = [] \<or> d_id d \<in> set seen)" by simp
  have loop: "breadcrumbs_loop D seen current = d # breadcrumbs_loop D (d_id d # seen) (d_parent_id d)"
    using new d by (subst breadcrumbs_loop.simps) (simp add: "1.prems"(1))
  show ?case
  proof (cases "\<exists>p e. d_parent_id d = Some p \<and> get_directory_by_id p D = Some e")
    case True
    then obtain p e where p: "d_parent_id d = Some p" and e: "get_directory_by_id p D = Some e" by blast
    have row: "e \<in> set D" "d_id e = p" using get_directory_SomeD [OF e] by auto
    have edge: "(d_id d, p) \<in> up_edges D" using p "1.prems"(2) by (auto simp: up_edges_def)
    have "(p, d_id d) \<notin> (up_edges D)\<^sup>*" using acyclic edge by (meson acyclic_def rtrancl_into_trancl2)
    moreover have "\<forall>x \<in> set seen. (p, x) \<notin> (up_edges D)\<^sup>*"
      using "1.prems"(3) edge by (meson converse_rtrancl_into_rtrancl)
    ultimately have "way_up D e (breadcrumbs_loop D (d_id d # seen) (d_parent_id d))"
      using "1.IH" [OF "1.prems"(1) new d, of e] p row "1.prems"(4) by auto
    then show ?thesis unfolding loop using p e way_up.under by blast
  next
    case False
    then have "breadcrumbs_loop D (d_id d # seen) (d_parent_id d) = []"
      by (subst breadcrumbs_loop.simps) (auto split: option.splits)
    with False show ?thesis unfolding loop by (auto intro!: way_up.top split: option.splits)
  qed
qed

text \<open>C10: whatever directories are created, moved, renamed and deleted, their parent pointers never form a
  cycle, their ids stay unique, and the breadcrumbs of every directory are its whole way up.\<close>

theorem directories_stay_a_forest:
  assumes "(dirs_step fk)\<^sup>*\<^sup>* [] D"
  shows "forest D \<and> (\<forall>d \<in> set D. way_up D d (rev (get_directory_breadcrumbs (Some (d_id d)) D)))"
proof (intro conjI ballI)
  show f: "forest D" by (rule reachable_forest [OF assms])
  fix d assume d: "d \<in> set D"
  then have "is_given (Some (d_id d))" using f unfolding forest_def is_given_def by (metis image_eqI option.distinct(1) option.inject)
  then show "way_up D d (rev (get_directory_breadcrumbs (Some (d_id d)) D))"
    using breadcrumbs_way_up [OF f _ d, of "Some (d_id d)" "[]"] by (simp add: get_directory_breadcrumbs_def)
qed

section \<open>The effect of a deletion\<close>

definition below :: "dirs \<Rightarrow> string \<Rightarrow> string set" where
  "below D i = {j. (j, i) \<in> (up_edges D)\<^sup>+}"

definition retarget :: "string set \<Rightarrow> string option \<Rightarrow> placed_file_row list \<Rightarrow> placed_file_row list" where
  "retarget S target F = map (\<lambda>r. case kf_directory_id r of
     Some i \<Rightarrow> if i \<in> S then r\<lparr>kf_directory_id := target\<rparr> else r | None \<Rightarrow> r) F"

lemma place_retarget: "place i t F = retarget {i} t F"
  by (auto simp: place_def retarget_def split: option.splits)

lemma unplace_retarget: "unplace S F = retarget S None F"
  by (simp add: unplace_def retarget_def)

lemma retarget_empty: "retarget {} t F = F"
  by (auto simp: retarget_def intro!: map_idI split: option.splits)

lemma retarget_twice: "retarget S t (retarget T t F) = retarget (S \<union> T) t F"
  by (auto simp: retarget_def split: option.splits)

lemma retarget_gone: "t \<notin> Some ` S \<Longrightarrow> retarget S u (retarget S t F) = retarget S t F"
  by (auto simp: retarget_def split: option.splits)

lemma child_edge: "c \<in> set (child_ids D i) \<longleftrightarrow> (c, i) \<in> up_edges D"
  by (auto simp: child_ids_def up_edges_def)

lemma below_children: "below D i = (\<Union>c \<in> set (child_ids D i). insert c (below D c))"
proof (intro equalityI subsetI)
  fix j assume "j \<in> below D i"
  then obtain c where "(j, c) \<in> (up_edges D)\<^sup>*" "(c, i) \<in> up_edges D" unfolding below_def by (metis mem_Collect_eq tranclD2)
  then show "j \<in> (\<Union>c \<in> set (child_ids D i). insert c (below D c))"
    by (auto simp: child_edge below_def rtrancl_eq_or_trancl)
next
  fix j assume "j \<in> (\<Union>c \<in> set (child_ids D i). insert c (below D c))"
  then show "j \<in> below D i" by (auto simp: child_edge below_def intro: trancl_into_trancl)
qed

lemma below_ids: "below D i \<subseteq> d_id ` set D"
  unfolding below_def by (auto dest!: tranclD simp: up_edges_def)

lemma finite_below [simp]: "finite (below D i)"
  using below_ids finite_subset by blast

lemma below_less: "acyclic (up_edges D) \<Longrightarrow> c \<in> set (child_ids D i) \<Longrightarrow> card (below D c) < card (below D i)"
proof -
  assume "acyclic (up_edges D)" "c \<in> set (child_ids D i)"
  then have "c \<in> below D i" "c \<notin> below D c" "below D c \<subseteq> below D i"
    using below_children [of D i] by (auto simp: below_def acyclic_def)
  then show ?thesis by (intro psubset_card_mono) auto
qed

lemma below_small: "acyclic (up_edges D) \<Longrightarrow> i \<in> d_id ` set D \<Longrightarrow> card (below D i) < length D"
proof -
  assume "acyclic (up_edges D)" "i \<in> d_id ` set D"
  then have "below D i \<subset> d_id ` set D" using below_ids [of D i] by (auto simp: below_def acyclic_def)
  then have "card (below D i) < card (d_id ` set D)" by (intro psubset_card_mono) auto
  also have "\<dots> \<le> length D" by (metis card_length length_map list.set_map)
  finally show ?thesis .
qed

lemma move_children:
  assumes "\<forall>c \<in> set cs. \<forall>F. move_files_from_subtree depth D c t F = Inr (retarget (below D c) t F)"
  shows "foldR (\<lambda>F c. move_files_from_subtree depth D c t (place c t F)) F cs =
    Inr (retarget (\<Union>c \<in> set cs. insert c (below D c)) t F)"
  using assms
proof (induction cs arbitrary: F)
  case (Cons c cs)
  then show ?case by (simp add: place_retarget retarget_twice Un_commute del: insert_is_Un)
qed (simp add: retarget_empty)

lemma move_files_effect:
  "acyclic (up_edges D) \<Longrightarrow> card (below D i) < depth \<Longrightarrow>
   move_files_from_subtree depth D i t F = Inr (retarget (below D i) t F)"
proof (induction depth arbitrary: i F)
  case (Suc depth)
  have "\<forall>c \<in> set (child_ids D i). \<forall>F. move_files_from_subtree depth D c t F = Inr (retarget (below D c) t F)"
  proof (intro ballI allI)
    fix c F assume "c \<in> set (child_ids D i)"
    from below_less [OF Suc.prems(1) this] Suc.prems(2) have "card (below D c) < depth" by linarith
    then show "move_files_from_subtree depth D c t F = Inr (retarget (below D c) t F)" by (rule Suc.IH [OF Suc.prems(1)])
  qed
  from move_children [OF this] show ?case by (simp add: below_children [of D i])
qed simp

definition outside :: "string set \<Rightarrow> placed_file_row \<Rightarrow> bool" where
  "outside S r = (case kf_directory_id r of None \<Rightarrow> True | Some i \<Rightarrow> i \<notin> S)"

lemma outside_Un: "outside (S \<union> T) r \<longleftrightarrow> outside S r \<and> outside T r"
  by (simp add: outside_def split: option.splits)

lemma delete_children:
  assumes "\<forall>c \<in> set cs. \<forall>F. delete_files_in_subtree depth D c F = Inr (filter (outside (insert c (below D c))) F)"
  shows "foldR (\<lambda>F c. delete_files_in_subtree depth D c F) F cs =
    Inr (filter (outside (\<Union>c \<in> set cs. insert c (below D c))) F)"
  using assms
proof (induction cs arbitrary: F)
  case Nil
  then show ?case by (simp add: outside_def [abs_def] option.case_eq_if)
next
  case (Cons c cs)
  have "outside (\<Union>c \<in> set (c # cs). insert c (below D c)) r \<longleftrightarrow>
      outside (insert c (below D c)) r \<and> outside (\<Union>c \<in> set cs. insert c (below D c)) r" for r
    by (simp only: list.simps UN_insert outside_Un)
  with Cons show ?case by (simp add: conj_commute)
qed

lemma delete_files_effect:
  "acyclic (up_edges D) \<Longrightarrow> card (below D i) < depth \<Longrightarrow>
   delete_files_in_subtree depth D i F = Inr (filter (outside (insert i (below D i))) F)"
proof (induction depth arbitrary: i F)
  case (Suc depth)
  have "\<forall>c \<in> set (child_ids D i). \<forall>F. delete_files_in_subtree depth D c F = Inr (filter (outside (insert c (below D c))) F)"
  proof (intro ballI allI)
    fix c F assume "c \<in> set (child_ids D i)"
    from below_less [OF Suc.prems(1) this] Suc.prems(2) have "card (below D c) < depth" by linarith
    then show "delete_files_in_subtree depth D c F = Inr (filter (outside (insert c (below D c))) F)" by (rule Suc.IH [OF Suc.prems(1)])
  qed
  note children = delete_children [OF this]
  have "outside (insert i (below D i)) r \<longleftrightarrow> kf_directory_id r \<noteq> Some i \<and> outside (below D i) r" for r
    by (auto simp: outside_def split: option.splits)
  then show ?case by (simp add: children below_children [of D i, symmetric])
qed simp

lemma with_children_edges: "with_children D S = S \<union> {j. \<exists>p \<in> S. (j, p) \<in> up_edges D}"
  by (auto simp: with_children_def up_edges_def split: option.splits)

lemma with_children_steps: "(with_children D ^^ n) S = {j. \<exists>p \<in> S. \<exists>k \<le> n. (j, p) \<in> up_edges D ^^ k}"
proof (induction n)
  case (Suc n)
  note IH = Suc
  show ?case
  proof (intro equalityI subsetI)
    fix j assume "j \<in> (with_children D ^^ Suc n) S"
    then consider "\<exists>p \<in> S. \<exists>k \<le> n. (j, p) \<in> up_edges D ^^ k"
      | q p k where "(j, q) \<in> up_edges D" "p \<in> S" "k \<le> n" "(q, p) \<in> up_edges D ^^ k"
      by (auto simp: IH with_children_edges)
    then show "j \<in> {j. \<exists>p \<in> S. \<exists>k \<le> Suc n. (j, p) \<in> up_edges D ^^ k}"
      by cases (use le_SucI in blast, metis (mono_tags, lifting) Suc_le_mono mem_Collect_eq relpow_Suc_I2)
  next
    fix j assume "j \<in> {j. \<exists>p \<in> S. \<exists>k \<le> Suc n. (j, p) \<in> up_edges D ^^ k}"
    then obtain p k where p: "p \<in> S" "k \<le> Suc n" "(j, p) \<in> up_edges D ^^ k" by blast
    show "j \<in> (with_children D ^^ Suc n) S"
    proof (cases k)
      case (Suc m)
      with p(3) obtain q where "(j, q) \<in> up_edges D" "(q, p) \<in> up_edges D ^^ m" by (metis relpow_Suc_D2)
      with p Suc show ?thesis by (auto simp: IH with_children_edges)
    next
      case 0
      with p have "\<exists>p \<in> S. \<exists>k \<le> n. (j, p) \<in> up_edges D ^^ k" by (intro bexI [of _ p] exI [of _ 0]) auto
      then show ?thesis by (simp add: IH with_children_edges)
    qed
  qed
qed auto

lemma cascade_subtree: "(with_children D ^^ length D) {i} = insert i (below D i)"
proof -
  have "(up_edges D)\<^sup>* = (\<Union>k \<in> {k. k \<le> card (up_edges D)}. up_edges D ^^ k)" by (rule rtrancl_finite_eq_relpow) simp
  then have "(j, i) \<in> (up_edges D)\<^sup>* \<longleftrightarrow> (\<exists>k \<le> length D. (j, i) \<in> up_edges D ^^ k)" for j
    using card_up_edges [of D] by (auto intro: relpow_imp_rtrancl dest: le_trans)
  then show ?thesis unfolding with_children_steps by (auto simp: below_def rtrancl_eq_or_trancl)
qed

lemma delete_result:
  assumes "forest D" and "get_directory_by_id i D = Some d" and "length D \<le> depth"
  shows "\<exists>D' F'. delete_directory fk depth i move D F = (True, D', F') \<and>
    D' = filter (\<lambda>e. d_id e \<noteq> i \<and> (fk \<longrightarrow> d_id e \<notin> below D i)) D \<and>
    F' = (if move then retarget (insert i (below D i)) (d_parent_id d) F
          else filter (outside (insert i (below D i))) F) \<and>
    (\<forall>r \<in> set F'. kf_directory_id r \<notin> Some ` insert i (below D i))"
proof -
  have d: "d \<in> set D" "d_id d = i" using get_directory_SomeD [OF assms(2)] by auto
  have acyclic: "acyclic (up_edges D)" using assms(1) by (simp add: forest_def)
  have i: "i \<in> d_id ` set D" using d by auto
  have depth: "card (below D i) < depth" using below_small [OF acyclic i] assms(3) by simp
  have parent: "d_parent_id d \<notin> Some ` insert i (below D i)"
  proof
    assume "d_parent_id d \<in> Some ` insert i (below D i)"
    then obtain p where p: "d_parent_id d = Some p" "(p, i) \<in> (up_edges D)\<^sup>*"
      by (auto simp: below_def rtrancl_eq_or_trancl)
    then have "(i, p) \<in> up_edges D" using d by (auto simp: up_edges_def)
    with p(2) have "(i, i) \<in> (up_edges D)\<^sup>+" by (metis rtrancl_into_trancl2)
    then show False using acyclic by (simp add: acyclic_def)
  qed
  let ?S = "insert i (below D i)"
  have gone: "deleted_ids fk D i = (if fk then ?S else {i})" by (simp add: deleted_ids_def cascade_subtree)
  then have gone_fk: "fk \<Longrightarrow> deleted_ids True D i = ?S" by simp
  have dirs: "filter (\<lambda>e. d_id e \<notin> deleted_ids fk D i) D = filter (\<lambda>e. d_id e \<noteq> i \<and> (fk \<longrightarrow> d_id e \<notin> below D i)) D"
    by (rule filter_cong) (auto simp: gone)
  show ?thesis
  proof (cases move)
    case True
    have "move_files_from_subtree depth D i (d_parent_id d) (place i (d_parent_id d) F) = Inr (retarget ?S (d_parent_id d) F)"
      by (simp add: move_files_effect [OF acyclic depth] place_retarget retarget_twice)
    moreover have "unplace ?S (retarget ?S (d_parent_id d) F) = retarget ?S (d_parent_id d) F"
      unfolding unplace_retarget by (rule retarget_gone [OF parent])
    moreover have "\<forall>r \<in> set (retarget ?S (d_parent_id d) F). kf_directory_id r \<notin> Some ` ?S"
      using parent by (auto simp: retarget_def split: option.splits)
    ultimately show ?thesis
      using True by (simp add: delete_directory_def assms(2) Let_def dirs) (simp add: gone_fk)
  next
    case False
    have "unplace ?S (filter (outside ?S) F) = filter (outside ?S) F"
      unfolding unplace_def by (rule map_idI) (auto simp: outside_def split: option.splits)
    moreover have "\<forall>r \<in> set (filter (outside ?S) F). kf_directory_id r \<notin> Some ` ?S"
      by (auto simp: outside_def split: option.splits)
    ultimately show ?thesis
      using False by (simp add: delete_directory_def assms(2) Let_def dirs delete_files_effect [OF acyclic depth])
        (simp add: gone_fk)
  qed
qed

text \<open>C11: after whatever happened to the directories, deleting one either moves every file at or below it to its
  parent or drops exactly those entries; no other entry changes, and none points to the subtree.\<close>

theorem delete_directory_effect:
  assumes "(dirs_step fk)\<^sup>*\<^sup>* [] D" and "get_directory_by_id i D = Some d" and "length D \<le> depth"
  shows "\<exists>D' F'. delete_directory fk depth i move D F = (True, D', F') \<and>
    D' = filter (\<lambda>e. d_id e \<noteq> i \<and> (fk \<longrightarrow> d_id e \<notin> below D i)) D \<and>
    F' = (if move then retarget (insert i (below D i)) (d_parent_id d) F
          else filter (outside (insert i (below D i))) F) \<and>
    (\<forall>r \<in> set F'. kf_directory_id r \<notin> Some ` insert i (below D i))"
  by (rule delete_result [OF reachable_forest [OF assms(1)] assms(2,3)])

text \<open>Without foreign keys the directories under a deleted one stay, with a parent that does not exist.\<close>

lemma orphans_without_foreign_keys:
  assumes "forest D" "get_directory_by_id i D = Some d" "length D \<le> depth" "c \<in> set D" "d_parent_id c = Some i"
  shows "\<exists>D' F'. delete_directory False depth i move D F = (True, D', F') \<and> c \<in> set D' \<and> get_directory_by_id i D' = None"
proof -
  have "d_id c \<noteq> i"
  proof
    assume "d_id c = i"
    then have "(i, i) \<in> (up_edges D)\<^sup>+" using assms(4,5) by (auto simp: up_edges_def)
    then show False using assms(1) by (auto simp: forest_def acyclic_def)
  qed
  with delete_result [OF assms(1-3)] assms(4) show ?thesis
    by (fastforce simp: get_directory_None)
qed


section \<open>Instances\<close>

definition demo_dir :: "string \<Rightarrow> string option \<Rightarrow> directory_row" where
  "demo_dir i p = \<lparr>d_id = i, d_knowledge_id = ''k'', d_parent_id = p, d_name = i, d_user_id = ''u'',
     d_created_at = 1, d_updated_at = 1\<rparr>"

lemma demo_reachable: "(dirs_step True)\<^sup>*\<^sup>* [] [demo_dir ''a'' None, demo_dir ''b'' (Some ''a'')]"
proof -
  have "dirs_step True [] [demo_dir ''a'' None]"
    by (rule dirs_step.created [of _ "''a''" 1 "''k''" "''a''" "''u''" None])
       (auto simp: create_directory_def demo_dir_def parent_exists_def Let_def)
  moreover have "dirs_step True [demo_dir ''a'' None] [demo_dir ''a'' None, demo_dir ''b'' (Some ''a'')]"
    by (rule dirs_step.created [of _ "''b''" 1 "''k''" "''b''" "''u''" "Some ''a''"])
       (auto simp: create_directory_def demo_dir_def parent_exists_def same_place_def Let_def)
  ultimately show ?thesis by (meson converse_rtranclp_into_rtranclp rtranclp.rtrancl_refl)
qed

theorem directories_stay_a_forest_witness: "forest [demo_dir ''a'' None, demo_dir ''b'' (Some ''a'')]"
  using directories_stay_a_forest [OF demo_reachable] by (rule conjunct1)

theorem delete_directory_effect_witness:
  "fst (delete_directory True 2 ''a'' True [demo_dir ''a'' None, demo_dir ''b'' (Some ''a'')] [])"
proof -
  have "get_directory_by_id ''a'' [demo_dir ''a'' None, demo_dir ''b'' (Some ''a'')] = Some (demo_dir ''a'' None)"
    by (simp add: get_directory_by_id_def demo_dir_def)
  from delete_directory_effect [OF demo_reachable this, of 2 True "[]"] show ?thesis by auto
qed

text \<open>An update whose new name is refused has moved the directory all the same.\<close>

lemma refused_update_has_moved:
  "update_directory False 2 ''x'' (Some ''b'') (Under (Some ''a''))
     [demo_dir ''a'' None, demo_dir ''b'' (Some ''a''), demo_dir ''x'' None] =
   (None, [demo_dir ''a'' None, demo_dir ''b'' (Some ''a''), (demo_dir ''x'' (Some ''a''))\<lparr>d_updated_at := 2\<rparr>])"
  by code_simp

text \<open>The parent that a request asks for may be a directory of another knowledge base.\<close>

lemma parent_in_another_base:
  "create_directory True ''x'' 1 ''other'' ''n'' ''u'' (Some ''a'') [demo_dir ''a'' None] =
   (Some \<lparr>d_id = ''x'', d_knowledge_id = ''other'', d_parent_id = Some ''a'', d_name = ''n'', d_user_id = ''u'',
      d_created_at = 1, d_updated_at = 1\<rparr>, [demo_dir ''a'' None, \<lparr>d_id = ''x'', d_knowledge_id = ''other'',
      d_parent_id = Some ''a'', d_name = ''n'', d_user_id = ''u'', d_created_at = 1, d_updated_at = 1\<rparr>])"
  by (simp add: create_directory_def demo_dir_def parent_exists_def same_place_def Let_def)

text \<open>Two directories of one name at the root.\<close>

lemma same_name_at_the_root:
  "snd (create_directory True ''y'' 1 ''k'' ''a'' ''u'' None [demo_dir ''a'' None]) = [demo_dir ''a'' None, (demo_dir ''y'' None)\<lparr>d_name := ''a''\<rparr>]"
  by (simp add: create_directory_def demo_dir_def parent_exists_def same_place_def Let_def)

end
