(* ===== verification/Knowledge_Sync.thy ===== *)
theory Knowledge_Sync
  imports Knowledge_Dirs
begin

text \<open>
  The synchronisation of a knowledge base with a local manifest, \<open>routers/knowledge.py\<close>: the comparison, which
  says what to upload, to replace and to delete and which directories to make and to remove, and the
  clean-up. The paths and places that its answer is measured by are defined from the rows, apart from
  the loops and dicts of the code. A loop over parent pointers that may not end is a partial function.
\<close>

section \<open>Synchronisation with a manifest\<close>

record manifest_entry =
  me_filename :: string
  me_path :: string
  me_checksum :: string

record sync_diff =
  sd_added :: "(string \<times> string) list"
  sd_modified :: "(string \<times> string \<times> string) list"
  sd_deleted :: "(string \<times> string) list"
  sd_mkdir :: "string list"
  sd_rmdir :: "string list"
  sd_unmodified_count :: nat
  sd_directory_map :: "(string \<times> string) list"

partial_function (option) segments_loop :: "dirs \<Rightarrow> string list \<Rightarrow> string option \<Rightarrow> string list option" where
  "segments_loop D segments parent_id =
     (if \<not> is_given parent_id then Some segments
      else (case find (\<lambda>d. Some (d_id d) = parent_id) D of
          None \<Rightarrow> Some segments
        | Some d \<Rightarrow> segments_loop D (d_name d # segments) (d_parent_id d)))"

declare segments_loop.simps [code]

definition directory_paths :: "dirs \<Rightarrow> (string \<times> string) list option" where
  "directory_paths D = those (map (\<lambda>d. map_option (\<lambda>segments. (d_id d, str_join ''/'' segments))
     (segments_loop D [d_name d] (d_parent_id d))) D)"

type_synonym file_index = "((string \<times> string) \<times> string \<times> py) list"

definition index_file :: "(string \<times> string) list \<Rightarrow> file_index \<Rightarrow> stored_file \<times> string option \<Rightarrow> file_index" where
  "index_file path_by_id index entry = (let (f, directory_id) = entry;
       path = (case directory_id of None \<Rightarrow> [] | Some i \<Rightarrow> if i = [] then [] else
                 (case dget path_by_id i of None \<Rightarrow> [] | Some p \<Rightarrow> p));
       checksum = field (case fi_meta f of None \<Rightarrow> [] | Some m \<Rightarrow> m) ''file_hash''
     in dset (path, fi_filename f) (fi_id f, checksum) index)"

definition index_files :: "(string \<times> string) list \<Rightarrow> (stored_file \<times> string option) list \<Rightarrow> file_index" where
  "index_files path_by_id entries = foldl (index_file path_by_id) [] entries"

datatype file_change = Added | Modified string | Unmodified

abbreviation entry_key :: "manifest_entry \<Rightarrow> string \<times> string" where
  "entry_key e \<equiv> (me_path e, me_filename e)"

definition entry_status :: "file_index \<Rightarrow> manifest_entry \<Rightarrow> file_change" where
  "entry_status index e = (case dget index (entry_key e) of
     None \<Rightarrow> Added
   | Some (i, checksum) \<Rightarrow> if checksum \<noteq> PStr (me_checksum e) then Modified i else Unmodified)"

definition required_paths :: "manifest_entry list \<Rightarrow> string list" where
  "required_paths manifest = [str_join ''/'' (take (Suc n) segments).
     e \<leftarrow> manifest, segments \<leftarrow> (if me_path e = [] then [] else [split_on CHR ''/'' (me_path e)]), n \<leftarrow> [0..<length segments]]"

text \<open>\<open>walk\<close> lists the elements of a set in the order in which the interpreter walks it.\<close>

definition sync_diff_of ::
  "(string list \<Rightarrow> string list) \<Rightarrow> (string \<times> string) list \<Rightarrow> (string \<times> string) list \<Rightarrow> file_index \<Rightarrow>
   manifest_entry list \<Rightarrow> sync_diff" where
  "sync_diff_of walk path_by_id id_by_path index manifest = \<lparr>
     sd_added = [(me_filename e, me_path e). e \<leftarrow> manifest, entry_status index e = Added],
     sd_modified = concat (map (\<lambda>e. case entry_status index e of
         Modified i \<Rightarrow> [(me_filename e, me_path e, i)] | _ \<Rightarrow> []) manifest),
     sd_deleted = [(i, snd key). (key, i, checksum) \<leftarrow> index, key \<notin> entry_key ` set manifest],
     sd_mkdir = sort_key (\<lambda>p. count_list p (CHR ''/''))
         (walk (filter (\<lambda>p. p \<notin> fst ` set id_by_path) (required_paths manifest))),
     sd_rmdir = map (\<lambda>p. case dget id_by_path p of None \<Rightarrow> [] | Some i \<Rightarrow> i)
         (walk (filter (\<lambda>p. p \<notin> set (required_paths manifest)) (dkeys id_by_path))),
     sd_unmodified_count = length (filter (\<lambda>e. entry_status index e = Unmodified) manifest),
     sd_directory_map = id_by_path\<rparr>"

definition id_by_path :: "(string \<times> string) list \<Rightarrow> (string \<times> string) list" where
  "id_by_path paths = foldl (\<lambda>m (i, p). dset p i m) [] paths"

text \<open>\<open>None\<close> is a loop that does not end.\<close>

definition sync_knowledge_diff ::
  "(string list \<Rightarrow> string list) \<Rightarrow> string \<Rightarrow> manifest_entry list \<Rightarrow> user_row \<Rightarrow> library_row list \<Rightarrow> groups_db \<Rightarrow> grants_db \<Rightarrow>
   dirs \<Rightarrow> stored_file list \<Rightarrow> placed_file_row list \<Rightarrow> sync_diff result option" where
  "sync_knowledge_diff walk i manifest user K G A D files F =
     (case verify_knowledge_write_access i user K G A of
        Inl e \<Rightarrow> Some (Inl e)
      | Inr k \<Rightarrow> map_option (\<lambda>paths. Inr (sync_diff_of walk paths (id_by_path paths)
            (index_files paths (get_files_with_directory_ids i files F)) manifest))
          (directory_paths (get_all_directories i D)))"

text \<open>The clean-up after the uploads: entries and files, then the directories from the last one.\<close>

definition cleanup_file ::
  "bool \<Rightarrow> string \<Rightarrow> user_row \<Rightarrow> stored_file list \<times> placed_file_row list \<Rightarrow> string \<Rightarrow>
   stored_file list \<times> placed_file_row list" where
  "cleanup_file fk i user S file_id = (case find (\<lambda>f. fi_id f = file_id) (fst S) of
     None \<Rightarrow> S
   | Some f \<Rightarrow> if \<not> has_file i file_id (snd S) then S
       else (let F = remove_file_from_knowledge_by_id i file_id (snd S) in
         if fi_user_id f = u_id user \<or> u_role user = ''admin''
         then (filter (\<lambda>g. fi_id g \<noteq> file_id) (fst S), if fk then filter (\<lambda>r. kf_file_id r \<noteq> file_id) F else F)
         else (fst S, F)))"

definition cleanup_directory ::
  "bool \<Rightarrow> nat \<Rightarrow> string \<Rightarrow> dirs \<times> placed_file_row list \<Rightarrow> string \<Rightarrow> dirs \<times> placed_file_row list" where
  "cleanup_directory fk depth i S dir_id = (case directory_of_base base_not_found i dir_id (fst S) of
     Inl e \<Rightarrow> S | Inr d \<Rightarrow> snd (delete_directory fk depth dir_id False (fst S) (snd S)))"

definition sync_knowledge_cleanup ::
  "bool \<Rightarrow> nat \<Rightarrow> string \<Rightarrow> string list \<Rightarrow> string list \<Rightarrow> user_row \<Rightarrow> library_row list \<Rightarrow> groups_db \<Rightarrow> grants_db \<Rightarrow>
   dirs \<Rightarrow> stored_file list \<Rightarrow> placed_file_row list \<Rightarrow> unit result \<times> dirs \<times> stored_file list \<times> placed_file_row list" where
  "sync_knowledge_cleanup fk depth i file_ids dir_ids user K G A D files F =
     (case verify_knowledge_write_access i user K G A of
        Inl e \<Rightarrow> (Inl e, D, files, F)
      | Inr k \<Rightarrow> (let (files', F1) = foldl (cleanup_file fk i user) (files, F) file_ids;
            (D', F2) = foldl (cleanup_directory fk depth i) (D, F1) (rev dir_ids)
          in (Inr (), D', files', F2)))"

section \<open>The answer to a manifest\<close>

lemma wf_up_edges: "acyclic (up_edges D) \<Longrightarrow> wf ((up_edges D)\<inverse>)"
  by (rule finite_acyclic_wf_converse) simp

lemma segments_loop_ends:
  assumes "acyclic (up_edges D)"
  shows "\<exists>r. segments_loop D segments parent_id = Some r"
proof (cases parent_id)
  case None
  then show ?thesis by (subst segments_loop.simps) (simp add: is_given_def)
next
  case (Some p)
  have "\<exists>r. segments_loop D segments (Some p) = Some r"
    using wf_up_edges [OF assms]
  proof (induction p arbitrary: segments rule: wf_induct_rule)
    case (less p)
    show ?case
    proof (cases "find (\<lambda>d. Some (d_id d) = Some p) D")
      case None
      then show ?thesis by (subst segments_loop.simps) simp
    next
      case (Some d)
      then have d: "d \<in> set D" "d_id d = p" by (auto dest: find_SomeD)
      have "\<exists>r. segments_loop D (d_name d # segments) (d_parent_id d) = Some r"
      proof (cases "d_parent_id d")
        case None
        then show ?thesis by (subst segments_loop.simps) (simp add: is_given_def)
      next
        case (Some q)
        then have "(q, p) \<in> (up_edges D)\<inverse>" using d by (auto simp: up_edges_def)
        from less [OF this] Some show ?thesis by simp
      qed
      with Some show ?thesis by (subst segments_loop.simps) simp
    qed
  qed
  with Some show ?thesis by simp
qed

lemma those_total: "\<forall>x \<in> set xs. \<exists>y. f x = Some y \<Longrightarrow> \<exists>ys. those (map f xs) = Some ys"
  by (induction xs) auto

lemma directory_paths_end: "acyclic (up_edges D) \<Longrightarrow> \<exists>paths. directory_paths D = Some paths"
  unfolding directory_paths_def by (rule those_total) (use segments_loop_ends in \<open>fastforce\<close>)

lemma all_directories_acyclic: "forest D \<Longrightarrow> acyclic (up_edges (get_all_directories i D))"
proof -
  assume "forest D"
  moreover have "up_edges (get_all_directories i D) \<subseteq> up_edges D" by (auto simp: up_edges_def get_all_directories_def)
  ultimately show ?thesis using acyclic_subset by (auto simp: forest_def)
qed


section \<open>Paths\<close>

text \<open>The path of a directory, from the rows: its name after the path of its parent, where the base has one.\<close>

inductive dir_path :: "dirs \<Rightarrow> directory_row \<Rightarrow> string \<Rightarrow> bool" for B where
  root: "(\<forall>e \<in> set B. d_parent_id d \<noteq> Some (d_id e)) \<Longrightarrow> dir_path B d (d_name d)"
| under: "e \<in> set B \<Longrightarrow> d_parent_id d = Some (d_id e) \<Longrightarrow> dir_path B e p \<Longrightarrow> dir_path B d (p @ ''/'' @ d_name d)"

lemma join_snoc: "xs \<noteq> [] \<Longrightarrow> str_join sep (xs @ [y]) = str_join sep xs @ sep @ y"
  by (induction sep xs rule: str_join.induct) (auto simp: neq_Nil_conv)

lemma dir_path_unique:
  assumes "inj_on d_id (set B)"
  shows "dir_path B d p \<Longrightarrow> dir_path B d q \<Longrightarrow> p = q"
proof (induction arbitrary: q rule: dir_path.induct)
  case (root d)
  from root.prems root.hyps show ?case by cases auto
next
  case (under e d p)
  from under.prems show ?case
  proof cases
    case root
    with under.hyps show ?thesis by auto
  next
    case (under e' p')
    then have "e' = e" using under.hyps assms by (auto dest: inj_onD)
    with under under.IH show ?thesis by auto
  qed
qed

lemma segments_loop_path:
  assumes "acyclic (up_edges B)" "inj_on d_id (set B)" "[] \<notin> d_id ` set B"
  shows "d \<in> set B \<Longrightarrow> \<exists>pre. segments_loop B segments (d_parent_id d) = Some (pre @ segments) \<and>
    dir_path B d (str_join ''/'' (pre @ [d_name d]))"
proof (induction "d_id d" arbitrary: d segments rule: wf_induct_rule [OF wf_up_edges [OF assms(1)]])
  case (1 d)
  show ?case
  proof (cases "\<exists>e \<in> set B. d_parent_id d = Some (d_id e)")
    case True
    then obtain e where e: "e \<in> set B" "d_parent_id d = Some (d_id e)" by blast
    then have "(d_id e, d_id d) \<in> (up_edges B)\<inverse>" using "1.prems" by (auto simp: up_edges_def)
    from "1.hyps" [OF this e(1), of "d_name e # segments"] obtain pre
      where pre: "segments_loop B (d_name e # segments) (d_parent_id e) = Some (pre @ d_name e # segments)"
        "dir_path B e (str_join ''/'' (pre @ [d_name e]))" by blast
    have "is_given (d_parent_id d)" unfolding is_given_def using e assms(3) by (metis image_eqI option.distinct(1) option.inject)
    moreover have "find (\<lambda>x. Some (d_id x) = d_parent_id d) B = Some e"
    proof (cases "find (\<lambda>x. Some (d_id x) = d_parent_id d) B")
      case None
      with e show ?thesis by (auto simp: find_None)
    next
      case (Some x)
      then have "x \<in> set B" "d_id x = d_id e" using e by (auto dest!: find_SomeD)
      then have "x = e" using e assms(2) by (auto dest: inj_onD)
      with Some show ?thesis by simp
    qed
    ultimately have "segments_loop B segments (d_parent_id d) = Some ((pre @ [d_name e]) @ segments)"
      using pre(1) by (subst segments_loop.simps) simp
    moreover have "dir_path B d (str_join ''/'' ((pre @ [d_name e]) @ [d_name d]))"
      using dir_path.under [OF e pre(2)] by (simp add: join_snoc [of "pre @ [d_name e]", simplified])
    ultimately show ?thesis by blast
  next
    case False
    then have "find (\<lambda>x. Some (d_id x) = d_parent_id d) B = None" by (auto simp: find_None)
    then have "segments_loop B segments (d_parent_id d) = Some ([] @ segments)"
      by (subst segments_loop.simps) (simp split: option.splits)
    moreover have "dir_path B d (str_join ''/'' ([] @ [d_name d]))" using False dir_path.root by simp
    ultimately show ?thesis by blast
  qed
qed

lemma directory_paths_exact:
  assumes "acyclic (up_edges B)" "inj_on d_id (set B)" "[] \<notin> d_id ` set B" "directory_paths B = Some paths"
  shows "set paths = {(d_id d, p) | d p. d \<in> set B \<and> dir_path B d p}"
proof -
  define f where "f = (\<lambda>d :: directory_row. map_option (\<lambda>segments. (d_id d, str_join ''/'' segments)) (segments_loop B [d_name d] (d_parent_id d)))"
  have f: "f d = Some (d_id d, p) \<longleftrightarrow> dir_path B d p" if "d \<in> set B" for d p
    using segments_loop_path [OF assms(1-3) that, of "[d_name d]"] dir_path_unique [OF assms(2)]
    by (auto simp: f_def)
  have those_set: "those (map f xs) = Some ys \<Longrightarrow> set ys = {y. \<exists>x \<in> set xs. f x = Some y}" for xs ys
    by (induction xs arbitrary: ys) (auto split: option.splits)
  have "set paths = {y. \<exists>d \<in> set B. f d = Some y}"
    using assms(4) unfolding directory_paths_def f_def [symmetric] by (rule those_set)
  also have "\<dots> = {(d_id d, p) | d p. d \<in> set B \<and> dir_path B d p}"
  proof (intro equalityI subsetI)
    fix y assume "y \<in> {y. \<exists>d \<in> set B. f d = Some y}"
    then obtain d where d: "d \<in> set B" "f d = Some y" by blast
    then obtain p where "y = (d_id d, p)" by (auto simp: f_def)
    with d f show "y \<in> {(d_id d, p) | d p. d \<in> set B \<and> dir_path B d p}" by blast
  qed (use f in blast)
  finally show ?thesis .
qed

text \<open>A loop that writes a dict: where equal keys have equal values, each key has its value.\<close>

lemma fold_dset:
  assumes "\<And>x y. x \<in> set xs \<Longrightarrow> y \<in> set xs \<Longrightarrow> k x = k y \<Longrightarrow> v x = v y"
  shows "dget (foldl (\<lambda>m x. dset (k x) (v x) m) [] xs) key = Some val \<longleftrightarrow> (\<exists>x \<in> set xs. k x = key \<and> v x = val)"
  using assms
proof (induction xs rule: rev_induct)
  case (snoc x xs)
  have IH: "dget (foldl (\<lambda>m x. dset (k x) (v x) m) [] xs) key = Some val \<longleftrightarrow> (\<exists>x \<in> set xs. k x = key \<and> v x = val)"
    by (rule snoc.IH) (rule snoc.prems, simp_all)
  have same: "v y = v x" if "y \<in> set xs" "k y = k x" for y using snoc.prems [of y x] that by simp
  show ?case
  proof (cases "k x = key")
    case True
    with same show ?thesis by auto
  next
    case False
    then show ?thesis using IH by auto
  qed
qed simp

lemma fold_dset_keys: "fst ` set (foldl (\<lambda>m x. dset (k x) (v x) m) m xs) = fst ` set m \<union> k ` set xs"
  by (induction xs arbitrary: m) auto

lemma fold_dset_wf: "wf_dict m \<Longrightarrow> wf_dict (foldl (\<lambda>m x. dset (k x) (v x) m) m xs)"
  by (induction xs arbitrary: m) (auto intro: distinct_update)

section \<open>Files at their paths\<close>

text \<open>The path and the name under which an entry of the base stands; outside of its directories it is at the root.\<close>

definition stands_at :: "dirs \<Rightarrow> stored_file \<times> string option \<Rightarrow> string \<times> string \<Rightarrow> bool" where
  "stands_at B x key = (snd key = fi_filename (fst x) \<and>
     (if snd x \<in> Some ` d_id ` set B then \<exists>d \<in> set B. snd x = Some (d_id d) \<and> dir_path B d (fst key) else fst key = []))"

definition stored_checksum :: "stored_file \<Rightarrow> py" where
  "stored_checksum f = field (case fi_meta f of None \<Rightarrow> [] | Some m \<Rightarrow> m) ''file_hash''"

definition key_by :: "(string \<times> string) list \<Rightarrow> stored_file \<times> string option \<Rightarrow> string \<times> string" where
  "key_by path_by_id x = (case snd x of None \<Rightarrow> [] | Some i \<Rightarrow> if i = [] then [] else
      (case dget path_by_id i of None \<Rightarrow> [] | Some p \<Rightarrow> p), fi_filename (fst x))"

lemma index_files_fold: "index_files paths entries =
    foldl (\<lambda>m x. dset (key_by paths x) (fi_id (fst x), stored_checksum (fst x)) m) [] entries"
proof -
  have "index_file paths = (\<lambda>m x. dset (key_by paths x) (fi_id (fst x), stored_checksum (fst x)) m)"
    by (intro ext) (simp add: index_file_def key_by_def stored_checksum_def Let_def case_prod_unfold split: option.splits)
  then show ?thesis by (simp add: index_files_def)
qed

text \<open>Directories of which no two have one path, and no two entries under one path and name.\<close>

definition separate :: "dirs \<Rightarrow> (stored_file \<times> string option) list \<Rightarrow> bool" where
  "separate B E = ((\<forall>d \<in> set B. \<forall>e \<in> set B. \<forall>p. dir_path B d p \<longrightarrow> dir_path B e p \<longrightarrow> d = e) \<and>
     (\<forall>x \<in> set E. \<forall>y \<in> set E. \<forall>key. stands_at B x key \<longrightarrow> stands_at B y key \<longrightarrow> x = y))"

lemma key_by_stands:
  assumes "acyclic (up_edges B)" "inj_on d_id (set B)" "[] \<notin> d_id ` set B" "directory_paths B = Some paths"
  shows "stands_at B x key \<longleftrightarrow> key_by paths x = key"
proof -
  note exact = directory_paths_exact [OF assms]
  have row: "dget paths (d_id d) = Some p \<longleftrightarrow> dir_path B d p" if d: "d \<in> set B" for d p
  proof
    assume "dget paths (d_id d) = Some p"
    then have "(d_id d, p) \<in> set paths" by (rule map_of_SomeD)
    then obtain e where "e \<in> set B" "d_id e = d_id d" "dir_path B e p" unfolding exact by auto
    then show "dir_path B d p" using d assms(2) by (metis inj_onD)
  next
    assume p: "dir_path B d p"
    with d exact have "(d_id d, p) \<in> set paths" by blast
    then obtain q where q: "dget paths (d_id d) = Some q" by (metis weak_map_of_SomeI)
    then have "(d_id d, q) \<in> set paths" by (rule map_of_SomeD)
    then obtain e where "e \<in> set B" "d_id e = d_id d" "dir_path B e q" unfolding exact by auto
    then have "dir_path B d q" using d assms(2) by (metis inj_onD)
    with p q dir_path_unique [OF assms(2)] show "dget paths (d_id d) = Some p" by blast
  qed
  show ?thesis
  proof (cases "snd x \<in> Some ` d_id ` set B")
    case True
    then obtain d where d: "d \<in> set B" "snd x = Some (d_id d)" by blast
    have ne: "d_id d \<noteq> []" using d(1) assms(3) by (metis image_eqI)
    obtain p where p: "dir_path B d p" using segments_loop_path [OF assms(1-3) d(1)] by blast
    have "stands_at B x key \<longleftrightarrow> snd key = fi_filename (fst x) \<and> dir_path B d (fst key)"
    proof -
      have "e = d" if "e \<in> set B" "snd x = Some (d_id e)" for e using that d assms(2) by (auto dest: inj_onD)
      then show ?thesis using True d by (auto simp: stands_at_def)
    qed
    also have "\<dots> \<longleftrightarrow> snd key = fi_filename (fst x) \<and> fst key = p" using p dir_path_unique [OF assms(2)] by blast
    also have "\<dots> \<longleftrightarrow> key_by paths x = key"
      using row [OF d(1), of p] p ne by (cases key) (auto simp: key_by_def d(2))
    finally show ?thesis .
  next
    case False
    have "dget paths i = None" if "snd x = Some i" for i
    proof -
      have "i \<notin> fst ` set paths" using False that unfolding exact by force
      then show ?thesis by (simp add: map_of_eq_None_iff)
    qed
    with False show ?thesis by (cases key) (auto simp: stands_at_def key_by_def split: option.splits)
  qed
qed

lemma index_exact:
  assumes "acyclic (up_edges B)" "inj_on d_id (set B)" "[] \<notin> d_id ` set B" "directory_paths B = Some paths" "separate B E"
  shows "dget (index_files paths E) key = Some (i, c) \<longleftrightarrow>
    (\<exists>x \<in> set E. stands_at B x key \<and> fi_id (fst x) = i \<and> stored_checksum (fst x) = c)"
proof -
  note stands = key_by_stands [OF assms(1-4)]
  have same: "x = y" if "x \<in> set E" "y \<in> set E" "key_by paths x = key_by paths y" for x y
    using that assms(5) unfolding separate_def stands by metis
  have val_eq: "(fi_id (fst x), stored_checksum (fst x)) = (fi_id (fst y), stored_checksum (fst y))"
    if "x \<in> set E" "y \<in> set E" "key_by paths x = key_by paths y" for x y
    using same [OF that] by simp
  show ?thesis unfolding index_files_fold stands by (subst fold_dset [OF val_eq]) auto
qed

section \<open>The paths that a manifest needs\<close>

text \<open>A path and all that it lies in.\<close>

definition lies_in :: "string \<Rightarrow> string \<Rightarrow> bool" where
  "lies_in s p = (s = p \<or> prefix (p @ ''/'') s)"

lemma join_take_split:
  "(\<exists>n < length (split_on sep s). p = str_join [sep] (take (Suc n) (split_on sep s))) \<longleftrightarrow> s = p \<or> prefix (p @ [sep]) s"
proof (induction s arbitrary: p)
  case (Cons c s)
  obtain w ws where ws: "split_on sep s = w # ws" by (cases "split_on sep s") auto
  have s: "s = str_join [sep] (w # ws)" using join_split [of sep s] ws by simp
  have IH: "(\<exists>n < Suc (length ws). p = str_join [sep] (w # take n ws)) \<longleftrightarrow> s = p \<or> prefix (p @ [sep]) s" for p
    using Cons [of p] ws by simp
  show ?case
  proof (cases "c = sep")
    case True
    have "(\<exists>n < length ([] # w # ws). p = str_join [sep] (take (Suc n) ([] # w # ws))) \<longleftrightarrow>
        p = [] \<or> (\<exists>n < Suc (length ws). p = sep # str_join [sep] (w # take n ws))"
    proof
      assume "\<exists>n < length ([] # w # ws). p = str_join [sep] (take (Suc n) ([] # w # ws))"
      then obtain n where n: "n < length ([] # w # ws)" "p = str_join [sep] (take (Suc n) ([] # w # ws))" by blast
      then show "p = [] \<or> (\<exists>n < Suc (length ws). p = sep # str_join [sep] (w # take n ws))"
        by (cases n) auto
    next
      assume "p = [] \<or> (\<exists>n < Suc (length ws). p = sep # str_join [sep] (w # take n ws))"
      then show "\<exists>n < length ([] # w # ws). p = str_join [sep] (take (Suc n) ([] # w # ws))"
      proof
        assume "p = []"
        then show ?thesis by (intro exI [of _ 0]) simp
      next
        assume "\<exists>n < Suc (length ws). p = sep # str_join [sep] (w # take n ws)"
        then obtain n where "n < Suc (length ws)" "p = sep # str_join [sep] (w # take n ws)" by blast
        then show ?thesis by (intro exI [of _ "Suc n"]) simp
      qed
    qed
    also have "\<dots> \<longleftrightarrow> c # s = p \<or> prefix (p @ [sep]) (c # s)"
      using True IH by (cases p) auto
    finally show ?thesis using True ws by simp
  next
    case False
    have "(\<exists>n < length ((c # w) # ws). p = str_join [sep] (take (Suc n) ((c # w) # ws))) \<longleftrightarrow>
        (\<exists>n < Suc (length ws). p = c # str_join [sep] (w # take n ws))"
    proof -
      have "str_join [sep] ((c # w) # xs) = c # str_join [sep] (w # xs)" for xs by (cases xs) auto
      then show ?thesis by simp
    qed
    also have "\<dots> \<longleftrightarrow> c # s = p \<or> prefix (p @ [sep]) (c # s)"
      using False IH by (cases p) auto
    finally show ?thesis using False ws by simp
  qed
qed auto

lemma required_paths_exact:
  "p \<in> set (required_paths manifest) \<longleftrightarrow> (\<exists>e \<in> set manifest. me_path e \<noteq> [] \<and> lies_in (me_path e) p)"
proof -
  have "p \<in> set (required_paths manifest) \<longleftrightarrow> (\<exists>e \<in> set manifest. me_path e \<noteq> [] \<and>
      (\<exists>n < length (split_on CHR ''/'' (me_path e)). p = str_join ''/'' (take (Suc n) (split_on CHR ''/'' (me_path e)))))"
    by (force simp: required_paths_def)
  then show ?thesis unfolding join_take_split lies_in_def .
qed

section \<open>What the answer says\<close>

lemma entry_status_exact:
  assumes "\<And>key i c. dget index key = Some (i, c) \<longleftrightarrow> (\<exists>x \<in> set E. stands x key \<and> fi_id (fst x) = i \<and> chk x = c)"
  shows "entry_status index e = Added \<longleftrightarrow> \<not> (\<exists>x \<in> set E. stands x (entry_key e))" (is ?added)
    and "entry_status index e = Modified i \<longleftrightarrow>
      (\<exists>x \<in> set E. stands x (entry_key e) \<and> fi_id (fst x) = i \<and> chk x \<noteq> PStr (me_checksum e))" (is ?modified)
    and "entry_status index e = Unmodified \<longleftrightarrow>
      (\<exists>x \<in> set E. stands x (entry_key e) \<and> chk x = PStr (me_checksum e))" (is ?unmodified)
proof -
  have "?added \<and> ?modified \<and> ?unmodified"
  proof (cases "dget index (entry_key e)")
    case None
    have none: "\<not> stands x (entry_key e)" if "x \<in> set E" for x
      using assms [of "entry_key e" "fi_id (fst x)" "chk x"] None that by auto
    then show ?thesis using None by (auto simp: entry_status_def)
  next
    case (Some ic)
    obtain j c where ic: "ic = (j, c)" by (cases ic)
    have only: "fi_id (fst x) = j \<and> chk x = c" if "x \<in> set E" "stands x (entry_key e)" for x
      using assms [of "entry_key e" "fi_id (fst x)" "chk x"] Some ic that by auto
    obtain x where x: "x \<in> set E" "stands x (entry_key e)" using assms [of "entry_key e" j c] Some ic by auto
    have "entry_status index e = (if c \<noteq> PStr (me_checksum e) then Modified j else Unmodified)"
      by (simp add: entry_status_def Some ic)
    moreover have "(\<exists>x \<in> set E. stands x (entry_key e) \<and> fi_id (fst x) = i \<and> chk x \<noteq> PStr (me_checksum e)) \<longleftrightarrow>
        j = i \<and> c \<noteq> PStr (me_checksum e)" using x only by blast
    moreover have "(\<exists>x \<in> set E. stands x (entry_key e) \<and> chk x = PStr (me_checksum e)) \<longleftrightarrow> c = PStr (me_checksum e)"
      using x only by blast
    moreover have "\<exists>x \<in> set E. stands x (entry_key e)" using x by blast
    ultimately show ?thesis by simp
  qed
  then show ?added ?modified ?unmodified by blast+
qed

lemma id_by_path_fold: "id_by_path paths = foldl (\<lambda>m x. dset (snd x) (fst x) m) [] paths"
  by (simp add: id_by_path_def case_prod_unfold)

lemma id_by_path_exact:
  assumes "acyclic (up_edges B)" "inj_on d_id (set B)" "[] \<notin> d_id ` set B" "directory_paths B = Some paths" "separate B E"
  shows "dget (id_by_path paths) p = Some i \<longleftrightarrow> (\<exists>d \<in> set B. d_id d = i \<and> dir_path B d p)"
    "p \<in> fst ` set (id_by_path paths) \<longleftrightarrow> (\<exists>d \<in> set B. dir_path B d p)"
proof -
  note exact = directory_paths_exact [OF assms(1-4)]
  have same: "fst x = fst y" if xy: "x \<in> set paths" "y \<in> set paths" "snd x = snd y" for x y
  proof -
    obtain d e where "d \<in> set B" "dir_path B d (snd x)" "d_id d = fst x" "e \<in> set B" "dir_path B e (snd y)" "d_id e = fst y"
      using xy(1,2) unfolding exact by auto
    with xy(3) assms(5) show ?thesis unfolding separate_def by metis
  qed
  have "dget (id_by_path paths) p = Some i \<longleftrightarrow> (\<exists>x \<in> set paths. snd x = p \<and> fst x = i)"
    unfolding id_by_path_fold by (rule fold_dset) (rule same)
  also have "\<dots> \<longleftrightarrow> (\<exists>d \<in> set B. d_id d = i \<and> dir_path B d p)" unfolding exact by auto
  finally show "dget (id_by_path paths) p = Some i \<longleftrightarrow> (\<exists>d \<in> set B. d_id d = i \<and> dir_path B d p)" .
  have "p \<in> fst ` set (id_by_path paths) \<longleftrightarrow> (\<exists>x \<in> set paths. snd x = p)"
    unfolding id_by_path_fold fold_dset_keys by auto
  also have "\<dots> \<longleftrightarrow> (\<exists>d \<in> set B. dir_path B d p)" unfolding exact by auto
  finally show "p \<in> fst ` set (id_by_path paths) \<longleftrightarrow> (\<exists>d \<in> set B. dir_path B d p)" .
qed

lemma wf_index: "wf_dict (index_files paths E)"
  unfolding index_files_fold by (rule fold_dset_wf) simp

lemma in_index: "(key, i, c) \<in> set (index_files paths E) \<longleftrightarrow> dget (index_files paths E) key = Some (i, c)"
  using wf_index by (metis map_of_eq_Some_iff)

lemma slashes_inside: "prefix (q @ ''/'') p \<Longrightarrow> count_list q (CHR ''/'') < count_list p (CHR ''/'')"
  by (auto simp: prefix_def)

lemma parents_first:
  "sorted_wrt (\<lambda>p q. \<not> prefix (q @ ''/'') p) (sort_key (\<lambda>p. count_list p (CHR ''/'')) ps)"
proof -
  have "sorted_wrt (\<lambda>p q. count_list p (CHR ''/'') \<le> count_list q (CHR ''/'')) (sort_key (\<lambda>p. count_list p (CHR ''/'')) ps)"
    using sorted_sort_key [of "\<lambda>p. count_list p (CHR ''/'')" ps] by (simp add: sorted_map)
  then show ?thesis by (rule sorted_wrt_mono_rel [rotated]) (use slashes_inside in fastforce)
qed

lemma modified_set: "set (concat (map (\<lambda>e. case st e of Modified i \<Rightarrow> [(me_filename e, me_path e, i)] | _ \<Rightarrow> []) manifest)) =
    {(me_filename e, me_path e, i) | e i. e \<in> set manifest \<and> st e = Modified i}"
proof -
  have "y \<in> set (case st e of Modified i \<Rightarrow> [(me_filename e, me_path e, i)] | _ \<Rightarrow> []) \<longleftrightarrow>
      (\<exists>i. y = (me_filename e, me_path e, i) \<and> st e = Modified i)" for y e
    by (cases "st e") auto
  then show ?thesis by (auto simp del: split_paired_Ex)
qed

lemma deleted_ids_set: "set [(i, snd key). (key, i, checksum) \<leftarrow> index, key \<notin> K] =
    {(i, snd key) | key i. key \<notin> K \<and> (\<exists>c. (key, i, c) \<in> set index)}"
  by (auto simp del: split_paired_Ex)

lemma deleted_set:
  assumes "\<And>x key. stands x key \<longleftrightarrow> place_of x = key"
    and "\<And>key i c. (key, i, c) \<in> set index \<longleftrightarrow> (\<exists>x \<in> set E. stands x key \<and> fi_id (fst x) = i \<and> chk x = c)"
    and "\<And>x key. stands x key \<Longrightarrow> snd key = fi_filename (fst x)"
  shows "set [(i, snd key). (key, i, checksum) \<leftarrow> index, key \<notin> entry_key ` set manifest] =
    {(fi_id (fst x), fi_filename (fst x)) | x. x \<in> set E \<and> \<not> (\<exists>e \<in> set manifest. stands x (me_path e, me_filename e))}"
proof -
  have indexed: "(\<exists>c. (key, i, c) \<in> set index) \<longleftrightarrow> (\<exists>x \<in> set E. place_of x = key \<and> fi_id (fst x) = i)" for key i
    unfolding assms(1,2) by blast
  have name: "snd (place_of x) = fi_filename (fst x)" for x using assms(1,3) by blast
  show ?thesis unfolding deleted_ids_set indexed assms(1) unfolding image_iff name [symmetric] by blast
qed

lemma removed_set:
  assumes "\<And>p i. dget m p = Some i \<longleftrightarrow> (\<exists>d \<in> set B. d_id d = i \<and> dir_path B d p)"
    and "\<And>p. p \<in> fst ` set m \<longleftrightarrow> (\<exists>d \<in> set B. dir_path B d p)"
    and "\<And>p. p \<in> needed \<longleftrightarrow> Q p"
  shows "(\<lambda>p. case dget m p of None \<Rightarrow> [] | Some i \<Rightarrow> i) ` {p \<in> set (dkeys m). p \<notin> needed} =
    {d_id d | d p. d \<in> set B \<and> dir_path B d p \<and> \<not> Q p}"
proof -
  have id: "(case dget m p of None \<Rightarrow> [] | Some i \<Rightarrow> i) = d_id d" if "d \<in> set B" "dir_path B d p" for d p
  proof -
    have "dget m p = Some (d_id d)" using assms(1) that by blast
    then show ?thesis by simp
  qed
  show ?thesis
  proof (intro equalityI subsetI)
    fix y assume "y \<in> (\<lambda>p. case dget m p of None \<Rightarrow> [] | Some i \<Rightarrow> i) ` {p \<in> set (dkeys m). p \<notin> needed}"
    then obtain p where p: "y = (case dget m p of None \<Rightarrow> [] | Some i \<Rightarrow> i)" "p \<in> fst ` set m" "p \<notin> needed" by auto
    then obtain d where d: "d \<in> set B" "dir_path B d p" using assms(2) by blast
    with p assms(3) id [OF d] show "y \<in> {d_id d | d p. d \<in> set B \<and> dir_path B d p \<and> \<not> Q p}" by blast
  next
    fix y assume "y \<in> {d_id d | d p. d \<in> set B \<and> dir_path B d p \<and> \<not> Q p}"
    then obtain d p where d: "y = d_id d" "d \<in> set B" "dir_path B d p" "\<not> Q p" by blast
    then have "p \<in> {p \<in> set (dkeys m). p \<notin> needed}" using assms(2,3) by auto
    then show "y \<in> (\<lambda>p. case dget m p of None \<Rightarrow> [] | Some i \<Rightarrow> i) ` {p \<in> set (dkeys m). p \<notin> needed}"
      using id [OF d(2,3)] d(1) by (metis (no_types, lifting) imageI)
  qed
qed

text \<open>C12: the comparison with a manifest ends. Its answer names as added the entries under whose path and name no file of
  the base stands, as modified those under which a file with another checksum stands, with its id, counts those whose file
  has the checksum, and names as deleted the files that stand under no entry; it asks for the directories that an entry lies
  in and the base does not have, parents first, and gives up those that no entry lies in. This is after whatever
  operations on directories, where no two directories of the base have one path and no two of its files one path and name;
  for a caller who may write the base.\<close>

theorem sync_answer_exact:
  fixes i D files F manifest
  defines "B \<equiv> get_all_directories i D" and "E \<equiv> get_files_with_directory_ids i files F"
  assumes "(dirs_step fk)\<^sup>*\<^sup>* [] D" and "verify_knowledge_write_access i user K G A = Inr k" and "separate B E"
    and "\<And>ps. set (walk ps) = set ps \<and> distinct (walk ps)"
  shows "\<exists>answer. sync_knowledge_diff walk i manifest user K G A D files F = Some (Inr answer) \<and>
    set (sd_added answer) = {(me_filename e, me_path e) | e. e \<in> set manifest \<and>
      \<not> (\<exists>x \<in> set E. stands_at B x (me_path e, me_filename e))} \<and>
    set (sd_modified answer) = {(me_filename e, me_path e, fi_id (fst x)) | e x. e \<in> set manifest \<and> x \<in> set E \<and>
      stands_at B x (me_path e, me_filename e) \<and> stored_checksum (fst x) \<noteq> PStr (me_checksum e)} \<and>
    sd_unmodified_count answer = length (filter (\<lambda>e. \<exists>x \<in> set E.
      stands_at B x (me_path e, me_filename e) \<and> stored_checksum (fst x) = PStr (me_checksum e)) manifest) \<and>
    set (sd_deleted answer) = {(fi_id (fst x), fi_filename (fst x)) | x. x \<in> set E \<and>
      \<not> (\<exists>e \<in> set manifest. stands_at B x (me_path e, me_filename e))} \<and>
    set (sd_mkdir answer) = {p. (\<exists>e \<in> set manifest. me_path e \<noteq> [] \<and> lies_in (me_path e) p) \<and>
      \<not> (\<exists>d \<in> set B. dir_path B d p)} \<and>
    distinct (sd_mkdir answer) \<and> sorted_wrt (\<lambda>p q. \<not> prefix (q @ ''/'') p) (sd_mkdir answer) \<and>
    set (sd_rmdir answer) = {d_id d | d p. d \<in> set B \<and> dir_path B d p \<and>
      \<not> (\<exists>e \<in> set manifest. me_path e \<noteq> [] \<and> lies_in (me_path e) p)}"
proof -
  have forest: "forest D" by (rule reachable_forest [OF assms(3)])
  have B: "acyclic (up_edges B)" "inj_on d_id (set B)" "[] \<notin> d_id ` set B"
    using forest unique_on_inj [of d_id D] by (auto simp: B_def forest_def get_all_directories_def inj_on_def
        intro: all_directories_acyclic [unfolded get_all_directories_def])
  obtain paths where paths: "directory_paths B = Some paths" using directory_paths_end [OF B(1)] by blast
  note B = B paths
  note index = index_exact [OF B assms(5)] and path = id_by_path_exact [OF B assms(5)]
  have index': "dget (index_files paths E) key = Some (i, c) \<longleftrightarrow>
    (\<exists>x \<in> set E. stands_at B x key \<and> fi_id (fst x) = i \<and> stored_checksum (fst x) = c)" for key i c by (rule index)
  note status = entry_status_exact [OF index']
  define answer where "answer = sync_diff_of walk paths (id_by_path paths) (index_files paths E) manifest"
  have "sync_knowledge_diff walk i manifest user K G A D files F = Some (Inr answer)"
    using B(4) assms(4) by (simp add: sync_knowledge_diff_def B_def E_def answer_def)
  moreover have "set (sd_added answer) = {(me_filename e, me_path e) | e. e \<in> set manifest \<and>
      \<not> (\<exists>x \<in> set E. stands_at B x (me_path e, me_filename e))}"
    unfolding answer_def sync_diff_of_def by (auto simp: status)
  moreover have "set (sd_modified answer) = {(me_filename e, me_path e, fi_id (fst x)) | e x. e \<in> set manifest \<and> x \<in> set E \<and>
      stands_at B x (me_path e, me_filename e) \<and> stored_checksum (fst x) \<noteq> PStr (me_checksum e)}"
    unfolding answer_def sync_diff_of_def sync_diff.select_convs modified_set status by blast
  moreover have "sd_unmodified_count answer = length (filter (\<lambda>e. \<exists>x \<in> set E.
      stands_at B x (me_path e, me_filename e) \<and> stored_checksum (fst x) = PStr (me_checksum e)) manifest)"
    unfolding answer_def sync_diff_of_def by (simp add: status)
  moreover have "set (sd_deleted answer) = {(fi_id (fst x), fi_filename (fst x)) | x. x \<in> set E \<and>
      \<not> (\<exists>e \<in> set manifest. stands_at B x (me_path e, me_filename e))}"
    unfolding answer_def sync_diff_of_def sync_diff.select_convs
    by (rule deleted_set [OF key_by_stands [OF B], where chk = "\<lambda>x. stored_checksum (fst x)"])
      (simp_all add: in_index index stands_at_def)
  moreover have "set (sd_mkdir answer) = {p. (\<exists>e \<in> set manifest. me_path e \<noteq> [] \<and> lies_in (me_path e) p) \<and>
      \<not> (\<exists>d \<in> set B. dir_path B d p)}" "distinct (sd_mkdir answer)"
    using assms(6) by (auto simp: answer_def sync_diff_of_def path required_paths_exact)
  moreover have "sorted_wrt (\<lambda>p q. \<not> prefix (q @ ''/'') p) (sd_mkdir answer)"
    by (simp add: answer_def sync_diff_of_def parents_first)
  moreover have "set (sd_rmdir answer) = {d_id d | d p. d \<in> set B \<and> dir_path B d p \<and>
      \<not> (\<exists>e \<in> set manifest. me_path e \<noteq> [] \<and> lies_in (me_path e) p)}"
    unfolding answer_def sync_diff_of_def sync_diff.select_convs set_map conjunct1 [OF assms(6)] set_filter
    by (subst removed_set [OF path required_paths_exact, symmetric]) simp
  ultimately show ?thesis by blast
qed

section \<open>Instances\<close>

definition demo_member :: user_row where
  "demo_member = \<lparr>u_id = ''u'', u_email = [], u_username = None, u_role = ''user'', u_name = [],
     u_profile_image_url = None, u_settings = None, u_oauth = None, u_scim = None, u_last_active_at = 0,
     u_updated_at = 0, u_created_at = 0\<rparr>"

definition demo_base :: library_row where
  "demo_base = \<lparr>k_id = ''k'', k_user_id = ''u'', k_name = [], k_description = None, k_meta = None, k_updated_at = 0\<rparr>"

definition demo_stored :: stored_file where
  "demo_stored = \<lparr>fi_id = ''f'', fi_user_id = ''u'', fi_meta = Some [(''file_hash'', PStr ''1'')], fi_filename = ''n'',
     fi_data = None, fi_created_at = 0, fi_updated_at = 0\<rparr>"

definition demo_sync_manifest :: "manifest_entry list" where
  "demo_sync_manifest = [\<lparr>me_filename = ''n'', me_path = ''a/b'', me_checksum = ''2''\<rparr>, \<lparr>me_filename = ''m'', me_path = ''c'', me_checksum = ''3''\<rparr>]"

definition demo_placed :: "placed_file_row list" where
  "demo_placed = [\<lparr>kf_knowledge_id = ''k'', kf_file_id = ''f'', kf_directory_id = Some ''b''\<rparr>]"

lemma demo_base_rows: "get_all_directories ''k'' [demo_dir ''a'' None, demo_dir ''b'' (Some ''a'')] =
    [demo_dir ''a'' None, demo_dir ''b'' (Some ''a'')]"
  "get_files_with_directory_ids ''k'' [demo_stored] demo_placed = [(demo_stored, Some ''b'')]"
  by (simp_all add: get_all_directories_def demo_dir_def get_files_with_directory_ids_def demo_stored_def demo_placed_def)

lemma demo_dir_paths:
  "dir_path [demo_dir ''a'' None, demo_dir ''b'' (Some ''a'')] (demo_dir ''a'' None) p \<Longrightarrow> p = ''a''"
  "dir_path [demo_dir ''a'' None, demo_dir ''b'' (Some ''a'')] (demo_dir ''b'' (Some ''a'')) p \<Longrightarrow> p = ''a/b''"
proof -
  have a: "p = ''a''" if "dir_path [demo_dir ''a'' None, demo_dir ''b'' (Some ''a'')] (demo_dir ''a'' None) p" for p
    using that by cases (auto simp: demo_dir_def)
  show "dir_path [demo_dir ''a'' None, demo_dir ''b'' (Some ''a'')] (demo_dir ''a'' None) p \<Longrightarrow> p = ''a''" by (rule a)
  show "dir_path [demo_dir ''a'' None, demo_dir ''b'' (Some ''a'')] (demo_dir ''b'' (Some ''a'')) p \<Longrightarrow> p = ''a/b''"
    by (erule dir_path.cases) (auto simp: demo_dir_def dest: a [unfolded demo_dir_def])
qed

lemma demo_separate: "separate [demo_dir ''a'' None, demo_dir ''b'' (Some ''a'')] [(demo_stored, Some ''b'')]"
  unfolding separate_def using demo_dir_paths by (auto simp: demo_dir_def)

theorem sync_answer_exact_witness:
  "\<exists>answer. sync_knowledge_diff remdups ''k'' demo_sync_manifest demo_member [demo_base] \<lparr>group_rows = [], member_rows = []\<rparr> []
    [demo_dir ''a'' None, demo_dir ''b'' (Some ''a'')] [demo_stored] demo_placed = Some (Inr answer) \<and>
    (''m'', ''c'') \<in> set (sd_added answer)"
proof -
  have may_write: "verify_knowledge_write_access ''k'' demo_member [demo_base] \<lparr>group_rows = [], member_rows = []\<rparr> [] = Inr demo_base"
    by (simp add: verify_knowledge_write_access_def demo_base_def demo_member_def is_external_knowledge_def field_def)
  have separate: "separate (get_all_directories ''k'' [demo_dir ''a'' None, demo_dir ''b'' (Some ''a'')])
      (get_files_with_directory_ids ''k'' [demo_stored] demo_placed)"
    unfolding demo_base_rows by (rule demo_separate)
  have new: "\<exists>e. (''m'', ''c'') = (me_filename e, me_path e) \<and> e \<in> set demo_sync_manifest \<and>
      \<not> (\<exists>x \<in> set (get_files_with_directory_ids ''k'' [demo_stored] demo_placed).
        stands_at (get_all_directories ''k'' [demo_dir ''a'' None, demo_dir ''b'' (Some ''a'')]) x (me_path e, me_filename e))"
    unfolding demo_base_rows by (intro exI [of _ "demo_sync_manifest ! 1"]) (simp add: demo_sync_manifest_def stands_at_def demo_stored_def)
  obtain answer where "sync_knowledge_diff remdups ''k'' demo_sync_manifest demo_member [demo_base] \<lparr>group_rows = [], member_rows = []\<rparr> []
      [demo_dir ''a'' None, demo_dir ''b'' (Some ''a'')] [demo_stored] demo_placed = Some (Inr answer)"
    and "set (sd_added answer) = {(me_filename e, me_path e) | e. e \<in> set demo_sync_manifest \<and>
      \<not> (\<exists>x \<in> set (get_files_with_directory_ids ''k'' [demo_stored] demo_placed).
        stands_at (get_all_directories ''k'' [demo_dir ''a'' None, demo_dir ''b'' (Some ''a'')]) x (me_path e, me_filename e))}"
    using sync_answer_exact [OF demo_reachable may_write separate, of remdups demo_sync_manifest] by auto
  with new show ?thesis by simp
qed

text \<open>The answer for these: the changed file, the new one, and the directory that is missing.\<close>

lemma demo_answer:
  "sync_diff_of remdups [(''a'', ''a''), (''b'', ''a/b'')] (id_by_path [(''a'', ''a''), (''b'', ''a/b'')])
     (index_files [(''a'', ''a''), (''b'', ''a/b'')] [(demo_stored, Some ''b'')]) demo_sync_manifest =
   \<lparr>sd_added = [(''m'', ''c'')], sd_modified = [(''n'', ''a/b'', ''f'')], sd_deleted = [], sd_mkdir = [''c''], sd_rmdir = [],
     sd_unmodified_count = 0, sd_directory_map = [(''a'', ''a''), (''a/b'', ''b'')]\<rparr>"
  by code_simp


end
