(* ===== verification/Spec2Isabelle.thy ===== *)
theory Spec2Isabelle
  imports Rate_Limit Folder_Tree File_Access Task_Registry Bedrock_Response Chat_History Host_Filter Mcp_App Task_Redis
    Anthropic_Response Anthropic_Request System_Prompt Stored_Output Usage_Merge Ollama_Convert
    Context_Compaction Mcp_Selection Prompt_Render Knowledge_Sync
begin

text \<open>
  \<^bold>\<open>A verification library for the backend of Open WebUI for Bedrock.\<close> The backend is a web
  application in Python (\<open>src/backend/open_webui\<close>; all paths below are relative to it). A chat request
  passes the sign-in and its rate limiter, access decisions on models, folders and files, the pipeline
  that lays system prompts and rebuilds the conversation from stored output, and a provider adapter:
  Bedrock's Converse, the Anthropic Messages interface or Ollama. Beside it runs a second process, the
  managed MCP runtime, which keeps a registry of tool servers and supervises their sessions.

  \<^bold>\<open>Conventions.\<close> \<open>Py_Prelude\<close> has the values of Python
  (\<open>py\<close>), exceptions as the left side of a sum (\<open>'a result\<close>), dicts as lists
  of items in insertion order, and the string operations of the standard library; strings are lists of
  Latin-1 characters, integers unbounded, floats exact rationals (where floats are added or
  products rounded, the rounding is the argument \<open>rnd\<close> of the definitions). \<open>Py_Action\<close> has code that
  changes a state and may raise, where the changes before an exception stay. \<open>Py_Regex\<close> is
  the part of \<open>re\<close> that the program uses, with a relation that its matcher is proved
  against; \<open>Py_Matches\<close> has \<open>int\<close>, \<open>replace\<close>,
  \<open>finditer\<close> and \<open>sub\<close>. \<open>Sql_Table\<close> has tables as lists of rows
  with uniqueness constraints. An operation is one definition under the name of its function; state is
  passed explicitly. What the program calls outside of itself is an argument of the definitions:
  \<open>str_of\<close> (\<open>str\<close> of values that are no strings), \<open>loads\<close> and
  \<open>dumps\<close> (JSON), \<open>fresh\<close> (uuids), \<open>decode\<close> (UTF-8),
  \<open>render\<close> (system prompts, which \<open>Prompt_Render\<close> defines),
  \<open>host\<close> (file system, SHA-256 and YAML of the MCP runtime), the answers of AWS, clocks,
  and the moments at which other coroutines run.

  \<^bold>\<open>Theories, the code they model and what they show.\<close>
  \<^item> \<open>Rate_Limit\<close>: \<open>utils/rate_limit.py\<close>. At most \<open>limit\<close> requests pass in a window; with a Redis that
    keeps its documented laws (locale \<open>redis_service\<close>) both stores decide alike. The two stores are
    instances of one locale, \<open>window_backend\<close>.
  \<^item> \<open>User_Groups\<close>, \<open>Users\<close>, \<open>Access_Grants\<close>, \<open>Permissions\<close>: \<open>models/groups.py\<close>, \<open>users.py\<close>,
    \<open>access_grants.py\<close>, \<open>utils/access_control/__init__.py\<close>. The tables keep their constraints; grants that
    are set decide later access checks, lists and filters agree with the check, a dict of the old format
    reads back with its identifiers in whatever order the rows are selected, and users set no grant beyond their permissions. Locale
    \<open>access_oracle\<close>: what callers use of the check.
  \<^item> \<open>Folder_Tree\<close>, \<open>File_Access\<close>: \<open>models/folders.py\<close>, \<open>routers/folders.py\<close>, \<open>utils/access_control/\<close>.
    Folder access is inherited from every ancestor, subtree loops end exactly when the parents form no
    cycle; a change of a file needs an object of its owner. Locale \<open>pointer_walk\<close>: walks along parent
    pointers with a set of visited nodes, shared by base models and unread counts.
  \<^item> \<open>Knowledge_Dirs\<close>, \<open>Knowledge_Sync\<close>: the directories of \<open>models/knowledge.py\<close> and, of
    \<open>routers/knowledge.py\<close>, their handlers and the synchronisation with a local manifest. The directories
    stay a forest, a deletion keeps or drops exactly the files below, and the answer to a manifest says of
    every path of the manifest and of the knowledge base what is to be done with it.
  \<^item> \<open>Task_Registry\<close>: \<open>tasks.py\<close> without a Redis (the definitions end in \<open>_local\<close> where the code has a
    branch for Redis). A task is listed under its item exactly while its clean-up is due.
    \<open>Task_Redis\<close>: the branches with a Redis that several processes share (locale \<open>task_redis\<close>). A task that
    nobody stops is listed until its clean-up; the races in which the listing goes wrong are lemmas.
  \<^item> \<open>Bedrock_Tools\<close>, \<open>Bedrock_Calendar\<close>, \<open>Bedrock_Response\<close>: \<open>routers/bedrock.py\<close>. Tool names go to AWS
    in accepted form and come back, parallel results share a turn, forced tools are offered, deletions
    need an exact id and are not offered again with the same tool, and a streamed answer is the answer.
  \<^item> \<open>Chat_History\<close>, \<open>Tool_Pairs\<close>, \<open>Stored_Output\<close>, \<open>System_Prompt\<close>, \<open>Host_Filter\<close>: \<open>utils/misc.py\<close>,
    \<open>utils/chat_fork.py\<close>, \<open>utils/payload.py\<close>, the last prompts of \<open>utils/middleware.py\<close>. A fork reads
    back as what was forked; stored output comes back with its tool calls, results and images, paired;
    the administrator's prompt is first; host filters respect label boundaries.
  \<^item> \<open>Chat_Variables\<close>: \<open>utils/chat_variables.py\<close>. Validated values fit the fields that a prompt defines.
  \<^item> \<open>Context_Compaction\<close>: \<open>utils/context_compaction.py\<close>. A compacted request keeps the end of the chat
    from a message of the user on, and the next request resumes at that message.
  \<^item> \<open>Prompt_Templates\<close>: \<open>utils/task.py\<close>, the templates of the task prompts, and where their truncations
    go wrong. \<open>Prompt_Render\<close>: \<open>resolve_system_prompt\<close>; a prompt without placeholders is its own text.
  \<^item> \<open>Mcp_Selection\<close>: \<open>utils/mcp/selection.py\<close>. An accepted selection of servers is a fixed point.
  \<^item> \<open>Usage_Merge\<close>: \<open>utils/response.py\<close>. The token counts of a turn are the sums of those of its calls; the
    cost is their rounded sum, added call after call.
  \<^item> \<open>Anthropic_Request\<close>, \<open>Anthropic_Response\<close>, \<open>Anthropic_Stream\<close>: \<open>utils/anthropic.py\<close>. Requests keep
    their tool calls and parameters, every stream is a complete protocol run whatever breaks it off,
    and a stream whose chunks are whole lines assembles to the response that is not streamed.
  \<^item> \<open>Model_Params\<close>, \<open>Ollama_Convert\<close>: \<open>utils/payload.py\<close>, \<open>utils/response.py\<close>, \<open>utils/misc.py\<close>. The
    parameters of a model go where Ollama reads them; tool calls survive the conversion there and back,
    and a converted stream carries the text and the calls of the converted answer.
  \<^item> \<open>Mcp_Package\<close>, \<open>Mcp_Registry\<close>, \<open>Mcp_Log\<close>, \<open>Mcp_Actor\<close>, \<open>Mcp_Supervisor\<close>, \<open>Mcp_App\<close>: \<open>mcp_runtime/\<close>.
    A registry write that a crash interrupts leaves the old document or the new one to be loaded, log lines
    show no secret that the mark cannot form, requests to a server are answered unless one of three races
    loses the queue's item, what is launched is permitted where servers with one digest declare one profile,
    and the actors match the registry. The actor
    is a relation of steps between awaits with the session, its callers and the environment
    interleaving.

  \<^bold>\<open>Recursion and bounds.\<close> Loops over lists are structural. \<open>has_folder_access\<close> takes the recursion limit
  of Python as its depth; more depth than there are folders is enough. The loops that may run for ever,
  \<open>subtree_loop\<close>, \<open>message_loop\<close>, \<open>segments_loop\<close> and \<open>list_profiles\<close>, are partial functions whose result \<open>None\<close> is that;
  the theorems about them prove that they return.

  \<^bold>\<open>Not modelled.\<close> The handlers of the other routers and the rest of \<open>utils/middleware.py\<close>: coroutines
  over the web framework, database, event emitters and retrieval whose logic is in the services they
  call. SQL text, migrations and dialects (queries are modelled by the rows they select). Retrieval,
  audio, images and storage: third-party services behind thin calls. OAuth and JWT. Sockets and CRDT
  documents. Logging, telemetry and configuration. The frontend. Floats that are no number or not finite, and
  overflow to them. Characters beyond Latin-1. The manifest lists each part with its
  reason.
\<close>

end
